(* ===== verification/Prelude.thy ===== *)
theory Prelude
  imports Complex_Main "HOL-Library.AList" "HOL-Library.Char_ord" "HOL-Library.List_Lexorder"
    "HOL-Library.Signed_Division"
begin

text \<open>
  The vocabulary every component shares: what the Go sources use of the language and of its
  standard library.  A Go string is its list of bytes (\<open>string\<close>), ordered bytewise as
  \<^verbatim>\<open>sort.Strings\<close> orders it.  An \<^verbatim>\<open>int64\<close> is an \<open>int\<close> with
  the wrap-around written out (\<open>wrap64\<close>) wherever the code can overflow; \<^verbatim>\<open>/\<close> is
  the truncating \<open>sdiv\<close>.  A \<^verbatim>\<open>time.Time\<close> is the number of nanoseconds since Go's zero
  time, so \<^verbatim>\<open>IsZero\<close> is \<open>t = 0\<close>, and a \<^verbatim>\<open>time.Duration\<close> is a number of
  nanoseconds.  A Go map is an association list with distinct keys; the position of an entry
  stands for the unspecified iteration order, and the components prove that their results do
  not depend on it.
\<close>

named_theorems gomap_simps \<open>lookups in Go maps after an update\<close>
named_theorems keep_inv \<open>operations that keep a component's invariant\<close>

section \<open>Integers and time\<close>

type_synonym time = int
type_synonym duration = int
type_synonym ('k, 'v) gomap = "('k \<times> 'v) list"

definition max_int64 :: int where
  "max_int64 = 2 ^ 63 - 1"

definition min_int64 :: int where
  "min_int64 = - (2 ^ 63)"

definition wrap64 :: "int \<Rightarrow> int" where
  "wrap64 x = (x + 2 ^ 63) mod 2 ^ 64 - 2 ^ 63"

definition clamp64 :: "int \<Rightarrow> int" where
  "clamp64 x = max min_int64 (min max_int64 x)"

definition second :: duration where
  "second = 1000000000"

definition is_zero_time :: "time \<Rightarrow> bool" where
  "is_zero_time t \<longleftrightarrow> t = 0"

text \<open>\<^verbatim>\<open>t.Sub(u)\<close> saturates at the ends of \<^verbatim>\<open>int64\<close>.\<close>

definition time_sub :: "time \<Rightarrow> time \<Rightarrow> duration" where
  "time_sub t u = clamp64 (t - u)"

text \<open>\<^verbatim>\<open>t.Unix()\<close> counts seconds from 1970, a time from the year 1.\<close>

definition unix_epoch :: time where
  "unix_epoch = 62135596800 * second"

definition unix_seconds :: "time \<Rightarrow> int" where
  "unix_seconds t = t div second - 62135596800"

section \<open>Strings\<close>

definition has_prefix :: "string \<Rightarrow> string \<Rightarrow> bool" where
  "has_prefix s p \<longleftrightarrow> take (length p) s = p"

fun contains :: "string \<Rightarrow> string \<Rightarrow> bool" where
  "contains [] sub = (sub = [])"
| "contains (c # cs) sub = (has_prefix (c # cs) sub \<or> contains cs sub)"

definition lower_byte :: "char \<Rightarrow> char" where
  "lower_byte c = (if 65 \<le> (of_char c :: nat) \<and> (of_char c :: nat) \<le> 90
     then char_of ((of_char c :: nat) + 32) else c)"

text \<open>
  \<^verbatim>\<open>strings.ToLower\<close> on ASCII.  The source compares its result only with literals whose
  letters no non-ASCII character lowers to, so the bytes of other characters may stay as they
  are.
\<close>

definition to_lower :: "string \<Rightarrow> string" where
  "to_lower s = map lower_byte s"

text \<open>
  \<^verbatim>\<open>strings.EqualFold(s, t)\<close> for an ASCII literal \<open>t\<close>: Unicode simple folding also identifies
  the Kelvin sign (U+212A) with \<open>k\<close> and the long s (U+017F) with \<open>s\<close>.
\<close>

fun equal_fold :: "string \<Rightarrow> string \<Rightarrow> bool" where
  "equal_fold s [] = (s = [])"
| "equal_fold s (t # ts) =
     (case s of [] \<Rightarrow> False
      | c # cs \<Rightarrow>
         (lower_byte c = lower_byte t \<and> equal_fold cs ts) \<or>
         (lower_byte t = CHR ''k'' \<and> has_prefix s [CHR 0xE2, CHR 0x84, CHR 0xAA]
            \<and> equal_fold (drop 3 s) ts) \<or>
         (lower_byte t = CHR ''s'' \<and> has_prefix s [CHR 0xC5, CHR 0xBF]
            \<and> equal_fold (drop 2 s) ts))"

text \<open>The byte sequences of the characters \<^verbatim>\<open>unicode.IsSpace\<close> accepts, in UTF-8.\<close>

definition space_seqs :: "string list" where
  "space_seqs =
     [[CHR 0x20], [CHR 0x09], [CHR 0x0A], [CHR 0x0B], [CHR 0x0C], [CHR 0x0D],
      [CHR 0xC2, CHR 0x85], [CHR 0xC2, CHR 0xA0], [CHR 0xE1, CHR 0x9A, CHR 0x80],
      [CHR 0xE2, CHR 0x80, CHR 0x80], [CHR 0xE2, CHR 0x80, CHR 0x81],
      [CHR 0xE2, CHR 0x80, CHR 0x82], [CHR 0xE2, CHR 0x80, CHR 0x83],
      [CHR 0xE2, CHR 0x80, CHR 0x84], [CHR 0xE2, CHR 0x80, CHR 0x85],
      [CHR 0xE2, CHR 0x80, CHR 0x86], [CHR 0xE2, CHR 0x80, CHR 0x87],
      [CHR 0xE2, CHR 0x80, CHR 0x88], [CHR 0xE2, CHR 0x80, CHR 0x89],
      [CHR 0xE2, CHR 0x80, CHR 0x8A], [CHR 0xE2, CHR 0x80, CHR 0xA8],
      [CHR 0xE2, CHR 0x80, CHR 0xA9], [CHR 0xE2, CHR 0x80, CHR 0xAF],
      [CHR 0xE2, CHR 0x81, CHR 0x9F], [CHR 0xE3, CHR 0x80, CHR 0x80]]"

function trim_left :: "string list \<Rightarrow> string \<Rightarrow> string" where
  "trim_left seqs s =
     (case find (\<lambda>p. p \<noteq> [] \<and> has_prefix s p) seqs of
        None \<Rightarrow> s
      | Some p \<Rightarrow> trim_left seqs (drop (length p) s))"
  by pat_completeness auto
termination
  by (relation "measure (\<lambda>(seqs, s). length s)")
    (auto simp: find_Some_iff has_prefix_def intro!: diff_less)

declare trim_left.simps [simp del]

definition trim_space :: "string \<Rightarrow> string" where
  "trim_space s = rev (trim_left (map rev space_seqs) (rev (trim_left space_seqs s)))"

definition is_blank :: "string \<Rightarrow> bool" where
  "is_blank s \<longleftrightarrow> trim_space s = []"

section \<open>Decimal digits\<close>

definition is_digit :: "char \<Rightarrow> bool" where
  "is_digit c \<longleftrightarrow> 48 \<le> (of_char c :: nat) \<and> (of_char c :: nat) \<le> 57"

definition digit_val :: "char \<Rightarrow> nat" where
  "digit_val c = (of_char c :: nat) - 48"

definition digit_char :: "nat \<Rightarrow> char" where
  "digit_char d = char_of (d + 48)"

definition digits_val :: "string \<Rightarrow> nat" where
  "digits_val s = foldl (\<lambda>n c. n * 10 + digit_val c) 0 s"

fun show_nat :: "nat \<Rightarrow> string" where
  "show_nat n = (if n < 10 then [digit_char n] else show_nat (n div 10) @ [digit_char (n mod 10)])"

declare show_nat.simps [simp del]

text \<open>The last \<open>k\<close> digits of \<open>n\<close>, with leading zeros.\<close>

fun show_fixed :: "nat \<Rightarrow> nat \<Rightarrow> string" where
  "show_fixed 0 n = []"
| "show_fixed (Suc k) n = show_fixed k (n div 10) @ [digit_char (n mod 10)]"

definition show_int :: "int \<Rightarrow> string" where
  "show_int i = (if i < 0 then CHR ''-'' # show_nat (nat (- i)) else show_nat (nat i))"

section \<open>Facts on integers\<close>

lemma wrap64_id: "min_int64 \<le> x \<Longrightarrow> x \<le> max_int64 \<Longrightarrow> wrap64 x = x"
  by (simp add: wrap64_def min_int64_def max_int64_def)

lemma wrap64_range: "min_int64 \<le> wrap64 x \<and> wrap64 x \<le> max_int64"
proof -
  have "0 \<le> (x + 2 ^ 63) mod 2 ^ 64" "(x + 2 ^ 63) mod 2 ^ 64 < (2 :: int) ^ 64"
    by simp_all
  then show ?thesis by (simp add: wrap64_def min_int64_def max_int64_def)
qed

lemma wrap64_wrap64_diff: "wrap64 (wrap64 x - y) = wrap64 (x - y)"
proof -
  have "((x + 2 ^ 63) mod 2 ^ 64 - 2 ^ 63 - y + 2 ^ 63) mod 2 ^ 64
      = ((x + 2 ^ 63) mod 2 ^ 64 - y) mod (2 ^ 64 :: int)"
    by (simp add: algebra_simps)
  also have "\<dots> = (x + 2 ^ 63 - y) mod 2 ^ 64" by (rule mod_diff_left_eq)
  also have "\<dots> = (x - y + 2 ^ 63) mod 2 ^ 64" by (simp add: algebra_simps)
  finally show ?thesis by (simp add: wrap64_def)
qed

lemma time_sub_id: "min_int64 \<le> t - u \<Longrightarrow> t - u \<le> max_int64 \<Longrightarrow> time_sub t u = t - u"
  by (simp add: time_sub_def clamp64_def)

lemma time_sub_gt: "d < max_int64 \<Longrightarrow> min_int64 \<le> d \<Longrightarrow> d < time_sub t u \<longleftrightarrow> d < t - u"
  by (auto simp: time_sub_def clamp64_def max_def min_def)

lemma sdiv_nonneg: "0 \<le> a \<Longrightarrow> 0 < b \<Longrightarrow> a sdiv b = a div (b :: int)"
  by (cases "a = 0") (simp_all add: signed_divide_int_def)

section \<open>Facts on digits\<close>

lemma digits_val_Nil [simp]: "digits_val [] = 0"
  by (simp add: digits_val_def)

lemma digits_val_snoc [simp]: "digits_val (s @ [c]) = digits_val s * 10 + digit_val c"
  by (simp add: digits_val_def)

lemma digits_val_append: "digits_val (s @ t) = digits_val s * 10 ^ length t + digits_val t"
proof (induction t rule: rev_induct)
  case Nil
  then show ?case by simp
next
  case (snoc c t)
  have "digits_val (s @ t @ [c]) = digits_val ((s @ t) @ [c])" by simp
  also have "\<dots> = digits_val (s @ t) * 10 + digit_val c" by (rule digits_val_snoc)
  finally show ?case using snoc by (simp add: algebra_simps)
qed

lemma digit_char_ok [simp]: "d < 10 \<Longrightarrow> is_digit (digit_char d)"
  and digit_val_digit_char [simp]: "d < 10 \<Longrightarrow> digit_val (digit_char d) = d"
  by (simp_all add: is_digit_def digit_val_def digit_char_def)

lemma digit_val_less: "is_digit c \<Longrightarrow> digit_val c < 10"
  by (auto simp: is_digit_def digit_val_def)

lemma digits_val_less: "list_all is_digit s \<Longrightarrow> digits_val s < 10 ^ length s"
proof (induction s rule: rev_induct)
  case Nil
  then show ?case by simp
next
  case (snoc c s)
  then have "digits_val s < 10 ^ length s" and "digit_val c < 10"
    by (simp_all add: digit_val_less)
  then show ?case by simp
qed

lemma show_nat_digits: "list_all is_digit (show_nat n)"
proof (induction n rule: show_nat.induct)
  case (1 n)
  then show ?case by (subst show_nat.simps) simp
qed

lemma digits_val_show_nat [simp]: "digits_val (show_nat n) = n"
proof (induction n rule: show_nat.induct)
  case (1 n)
  show ?case
  proof (cases "n < 10")
    case True
    then show ?thesis by (subst show_nat.simps) (simp add: digits_val_def)
  next
    case False
    with "1.IH" show ?thesis by (subst show_nat.simps) simp
  qed
qed

lemma show_nat_nonempty: "show_nat n \<noteq> []"
  by (subst show_nat.simps) simp

lemma digit_char_0 [simp]: "digit_char 0 = CHR ''0''"
  by code_simp

lemma digit_char_zero_iff: "d < 10 \<Longrightarrow> digit_char d = CHR ''0'' \<longleftrightarrow> d = 0"
  using digit_val_digit_char[of d] by (auto simp: digit_val_def)

lemma show_nat_head: "0 < n \<Longrightarrow> hd (show_nat n) \<noteq> CHR ''0''"
proof (induction n rule: show_nat.induct)
  case (1 n)
  show ?case
  proof (cases "n < 10")
    case True
    with "1.prems" show ?thesis by (subst show_nat.simps) (simp add: digit_char_zero_iff)
  next
    case False
    then have "hd (show_nat (n div 10)) \<noteq> CHR ''0''" using "1.IH" by simp
    with False show ?thesis
      by (subst show_nat.simps) (simp add: show_nat_nonempty hd_append)
  qed
qed

lemma show_nat_zero: "show_nat 0 = ''0''"
  by (subst show_nat.simps) simp

lemma show_fixed_length [simp]: "length (show_fixed k n) = k"
  by (induction k arbitrary: n) simp_all

lemma show_fixed_digits: "list_all is_digit (show_fixed k n)"
  by (induction k arbitrary: n) simp_all

lemma digits_val_show_fixed: "n < 10 ^ k \<Longrightarrow> digits_val (show_fixed k n) = n"
proof (induction k arbitrary: n)
  case 0
  then show ?case by simp
next
  case (Suc k)
  then have "n div 10 < 10 ^ k" by auto
  with Suc.IH show ?case by simp
qed

section \<open>Facts on Go maps\<close>

declare map_of_eq_Some_iff [simp del]

lemma hd_sort_Min: "l \<noteq> [] \<Longrightarrow> hd (sort l) = Min (set l)"
proof -
  assume "l \<noteq> []"
  then obtain x xs where l: "sort l = x # xs" by (metis list.exhaust set_empty set_sort)
  moreover have "sorted (x # xs)" using sorted_sort[of l] by (simp only: l)
  moreover have "set l = set (x # xs)" by (metis l set_sort)
  ultimately show ?thesis by (auto intro!: Min_eqI[symmetric])
qed

lemma map_of_update [gomap_simps]: "map_of (AList.update k v m) = (map_of m)(k \<mapsto> v)"
  by (rule AList.update_conv')

lemma map_of_delete [gomap_simps]: "map_of (AList.delete k m) = (map_of m)(k := None)"
  by (rule AList.delete_conv')

lemma set_update_subset: "set (AList.update k v m) \<subseteq> insert (k, v) (set m)"
  by (induction m) auto

lemma distinct_update [keep_inv]: "distinct (map fst m) \<Longrightarrow> distinct (map fst (AList.update k v m))"
  by (rule AList.distinct_update)

lemma distinct_delete [keep_inv]: "distinct (map fst m) \<Longrightarrow> distinct (map fst (AList.delete k m))"
  by (rule AList.distinct_delete)

lemma distinct_filter_fst [keep_inv]: "distinct (map fst m) \<Longrightarrow> distinct (map fst (filter P m))"
  by (induction m) auto

lemma map_of_filter [gomap_simps]:
  "distinct (map fst m) \<Longrightarrow>
     map_of (filter (\<lambda>(k, v). P k v) m) k =
       (case map_of m k of Some v \<Rightarrow> if P k v then Some v else None | None \<Rightarrow> None)"
  by (induction m) (auto split: option.splits simp: map_of_eq_None_iff image_iff)

lemma map_of_filter_key [gomap_simps]:
  "map_of (filter (\<lambda>(k, v). P k) m) k = (if P k then map_of m k else None)"
  by (induction m) auto

lemma dom_filter_key [gomap_simps]:
  "dom (map_of (filter (\<lambda>(k, v). P k) m)) = {k \<in> dom (map_of m). P k}"
  by (auto simp: map_of_filter_key dom_def)

lemma sort_eq_Nil [simp]: "sort l = [] \<longleftrightarrow> l = []"
  by (metis set_empty set_sort)

section \<open>How a transaction goes\<close>

text \<open>
  A statement or transaction may fail without effect, run, or run while its reply is lost or comes
  after the context expired: the caller then sees an error and the database has moved.
\<close>

datatype tx_fate = TxRuns | TxFails | TxReplyLost

definition commit_as :: "tx_fate \<Rightarrow> 'e \<Rightarrow> 's \<Rightarrow> 'e + 's \<times> 'a \<Rightarrow> 's \<times> ('e + 'a)" where
  "commit_as fate fault s outcome =
     (case fate of
        TxFails \<Rightarrow> (s, Inl fault)
      | _ \<Rightarrow> (case outcome of
          Inl e \<Rightarrow> (s, Inl e)
        | Inr (s', x) \<Rightarrow> (s', if fate = TxReplyLost then Inl fault else Inr x)))"

lemma commit_as_cases:
  assumes "commit_as fate fault s outcome = (s', r)"
  obtains (kept) e where "s' = s" "r = Inl e" "e = fault \<or> outcome = Inl e"
    | (moved) x where "outcome = Inr (s', x)" "r = Inr x \<or> r = Inl fault"
  using assms by (auto simp: commit_as_def split: tx_fate.splits sum.splits prod.splits if_splits)

section \<open>Facts on strings\<close>

lemma trim_left_stop:
  "(\<And>p. p \<in> set seqs \<Longrightarrow> p \<noteq> [] \<Longrightarrow> \<not> has_prefix s p) \<Longrightarrow> trim_left seqs s = s"
  by (subst trim_left.simps) (auto split: option.splits simp: find_Some_iff)

end
