(* ===== verification/Contracts.thy ===== *)
theory Contracts
  imports Prelude
begin

text \<open>
  \<^verbatim>\<open>pkg/contracts/contracts.go\<close>: the data that gateway and control exchange, exact decimals,
  and the validation of events.  SHA-256, JSON syntax checking and JSON string decoding are
  arguments of the definitions that call them.  The lemmas show that decimal printing and
  reading are inverse, that \<open>Sub\<close> is exact, and what a validated event guarantees.
\<close>

section \<open>Constants and classes\<close>

definition SchemaVersion :: int where
  "SchemaVersion = 1"

abbreviation EventTypeAttemptStarted :: string where
  "EventTypeAttemptStarted \<equiv> ''attempt_started''"

abbreviation EventTypeRelease :: string where
  "EventTypeRelease \<equiv> ''release''"

abbreviation UsageSourceUpstream :: string where
  "UsageSourceUpstream \<equiv> ''upstream''"

abbreviation UsageSourceEstimated :: string where
  "UsageSourceEstimated \<equiv> ''estimated''"

abbreviation UsageSourceMissing :: string where
  "UsageSourceMissing \<equiv> ''missing''"

abbreviation DegradeFailClosed :: string where
  "DegradeFailClosed \<equiv> ''fail_closed''"

abbreviation DegradeFailOpen :: string where
  "DegradeFailOpen \<equiv> ''fail_open''"

type_synonym error_class = string

abbreviation ErrorOK :: error_class where
  "ErrorOK \<equiv> ''ok''"

abbreviation ErrorAuthExpired :: error_class where
  "ErrorAuthExpired \<equiv> ''auth_expired''"

abbreviation ErrorAuthInvalid :: error_class where
  "ErrorAuthInvalid \<equiv> ''auth_invalid''"

abbreviation ErrorForbiddenTransport :: error_class where
  "ErrorForbiddenTransport \<equiv> ''forbidden_transport''"

abbreviation ErrorForbiddenCapability :: error_class where
  "ErrorForbiddenCapability \<equiv> ''forbidden_capability''"

abbreviation ErrorRateLimitedKnown :: error_class where
  "ErrorRateLimitedKnown \<equiv> ''rate_limited_known''"

abbreviation ErrorRateLimitedUnknown :: error_class where
  "ErrorRateLimitedUnknown \<equiv> ''rate_limited_unknown''"

abbreviation ErrorUpstream5xx :: error_class where
  "ErrorUpstream5xx \<equiv> ''upstream_5xx''"

abbreviation ErrorBlocked :: error_class where
  "ErrorBlocked \<equiv> ''blocked''"

abbreviation ErrorNetwork :: error_class where
  "ErrorNetwork \<equiv> ''network_error''"

abbreviation ErrorUsageMissing :: error_class where
  "ErrorUsageMissing \<equiv> ''usage_missing''"

definition ErrorClass_Valid :: "error_class \<Rightarrow> bool" where
  "ErrorClass_Valid e \<longleftrightarrow>
     e \<in> {ErrorOK, ErrorAuthExpired, ErrorAuthInvalid,
       ErrorForbiddenTransport, ErrorForbiddenCapability, ErrorRateLimitedKnown,
       ErrorRateLimitedUnknown, ErrorUpstream5xx, ErrorBlocked, ErrorNetwork,
       ErrorUsageMissing}"

type_synonym usage_integrity = string

abbreviation UsageIntegrityFailover :: usage_integrity where
  "UsageIntegrityFailover \<equiv> ''failover''"

abbreviation UsageIntegrityZero :: usage_integrity where
  "UsageIntegrityZero \<equiv> ''zero''"

abbreviation UsageIntegrityEstimated :: usage_integrity where
  "UsageIntegrityEstimated \<equiv> ''estimated''"

definition UsageIntegrity_Valid :: "usage_integrity \<Rightarrow> bool" where
  "UsageIntegrity_Valid u \<longleftrightarrow>
     u \<in> {UsageIntegrityFailover, UsageIntegrityZero, UsageIntegrityEstimated}"

section \<open>Leases, accounts and quota\<close>

record Criteria =
  cr_Platform :: string
  cr_Model :: string
  cr_Group :: string
  cr_SessionKey :: string

record Credential =
  cred_Kind :: string
  cred_AccessToken :: string
  cred_Proxy :: string
  cred_Metadata :: "(string, string) gomap"
  cred_ExpiresAt :: time
  cred_Version :: int

record TokenBundle =
  tb_AccessToken :: string
  tb_RefreshToken :: string
  tb_IDToken :: string
  tb_ExpiresAt :: time
  tb_Scopes :: "string list"
  tb_AccountID :: string
  tb_Email :: string
  tb_Metadata :: "(string, string) gomap"

record UpstreamProfile =
  pf_BaseURL :: string
  pf_Proxy :: string
  pf_Protocol :: string
  pf_InferencePath :: string
  pf_TLSFingerprint :: string
  pf_UserAgent :: string
  pf_ExtraHeaders :: "(string, string) gomap"
  pf_Metadata :: "(string, string) gomap"
  pf_WS :: bool

record AccountLimits =
  lim_MaxConcurrency :: int
  lim_RPM :: int
  lim_StickyTTL :: int
  lim_DegradePolicy :: string

definition WithDefaults :: "AccountLimits \<Rightarrow> AccountLimits" where
  "WithDefaults l =
     (if lim_DegradePolicy l = '''' then l\<lparr>lim_DegradePolicy := DegradeFailClosed\<rparr> else l)"

definition AccountLimits_Valid :: "AccountLimits \<Rightarrow> bool" where
  "AccountLimits_Valid l0 =
     (let l = WithDefaults l0 in
      lim_MaxConcurrency l \<ge> 0 \<and> lim_RPM l \<ge> 0 \<and> lim_StickyTTL l \<ge> 0 \<and>
      (lim_DegradePolicy l = DegradeFailClosed \<or> lim_DegradePolicy l = DegradeFailOpen))"

record Lease =
  ls_AccountID :: string
  ls_Provider :: string
  ls_Credential :: Credential
  ls_Profile :: UpstreamProfile
  ls_Limits :: AccountLimits
  ls_TTL :: int
  ls_UsageIntegrity :: usage_integrity

type_synonym decimal = string

record QuotaPrecision =
  qp_Used :: "decimal option"
  qp_Limit :: "decimal option"
  qp_Remaining :: "decimal option"
  qp_OverageRate :: "decimal option"
  qp_OverageCap :: "decimal option"
  qp_Overages :: "decimal option"

record QuotaItem =
  qi_Scope :: string
  qi_Model :: string
  qi_Unit :: string
  qi_Limit :: "int option"
  qi_Remaining :: "int option"
  qi_LimitExact :: "decimal option"
  qi_RemainingExact :: "decimal option"
  qi_RemainingFraction :: "decimal option"
  qi_Precision :: "QuotaPrecision option"
  qi_ResetAt :: "time option"

record Account =
  ac_ID :: string
  ac_Provider :: string
  ac_Platform :: string
  ac_Group :: string
  ac_Credential :: Credential
  ac_Profile :: UpstreamProfile
  ac_Limits :: AccountLimits
  ac_Status :: string
  ac_FenceEpoch :: int
  ac_Quota :: "QuotaItem list"
  ac_Capabilities :: "string list"
  ac_ExcludedModels :: "string list"
  ac_UsageIntegrity :: usage_integrity

section \<open>Exact decimals\<close>

text \<open>
  The grammar of \<^verbatim>\<open>decimalPattern\<close>, matched from left to right: every choice of the regular
  expression is decided by the next byte.  The exponent is kept as the text after \<open>e\<close>, with its
  sign; the empty text is a missing exponent.
\<close>

record decimal_parts =
  dp_neg :: bool
  dp_int :: string
  dp_frac :: string
  dp_exp :: string

definition is_exp_mark :: "char \<Rightarrow> bool" where
  "is_exp_mark c \<longleftrightarrow> c = CHR ''e'' \<or> c = CHR ''E''"

definition strip_sign :: "string \<Rightarrow> string" where
  "strip_sign s =
     (case s of [] \<Rightarrow> [] | c # cs \<Rightarrow> if c = CHR ''+'' \<or> c = CHR ''-'' then cs else s)"

definition match_fraction :: "string \<Rightarrow> (string \<times> string) option" where
  "match_fraction r =
     (case r of
        [] \<Rightarrow> Some ([], [])
      | c # t \<Rightarrow>
          if c = CHR ''.'' then
            (if takeWhile is_digit t = [] then None
             else Some (takeWhile is_digit t, dropWhile is_digit t))
          else Some ([], r))"

definition match_exponent :: "string \<Rightarrow> string option" where
  "match_exponent r =
     (case r of
        [] \<Rightarrow> Some []
      | c # t \<Rightarrow>
          if is_exp_mark c \<and> strip_sign t \<noteq> [] \<and> list_all is_digit (strip_sign t) then Some t
          else None)"

definition parse_decimal :: "string \<Rightarrow> decimal_parts option" where
  "parse_decimal s =
     (let neg = has_prefix s ''-'';
          s1 = (if neg then tl s else s);
          i = takeWhile is_digit s1
      in if i = [] \<or> (hd i = CHR ''0'' \<and> 1 < length i) then None
         else case match_fraction (dropWhile is_digit s1) of
                None \<Rightarrow> None
              | Some (f, r) \<Rightarrow>
                  (case match_exponent r of
                     None \<Rightarrow> None
                   | Some e \<Rightarrow> Some \<lparr>dp_neg = neg, dp_int = i, dp_frac = f, dp_exp = e\<rparr>))"

definition Decimal_Valid :: "decimal \<Rightarrow> bool" where
  "Decimal_Valid d =
     (let raw = trim_space d in if raw = [] then False else parse_decimal raw \<noteq> None)"

definition pow10 :: "int \<Rightarrow> rat" where
  "pow10 e = (if 0 \<le> e then 10 ^ nat e else 1 / 10 ^ nat (- e))"

definition signed_val :: "string \<Rightarrow> int" where
  "signed_val s = (if has_prefix s ''-'' then - int (digits_val (strip_sign s))
     else int (digits_val (strip_sign s)))"

text \<open>\<^verbatim>\<open>strconv.ParseInt(s, 10, 64)\<close>, and \<^verbatim>\<open>strconv.Atoi\<close> with its error ignored.\<close>

definition parse_int64 :: "string \<Rightarrow> int option" where
  "parse_int64 s =
     (if strip_sign s = [] \<or> \<not> list_all is_digit (strip_sign s) then None
      else if min_int64 \<le> signed_val s \<and> signed_val s \<le> max_int64 then Some (signed_val s)
      else None)"

definition atoi :: "string \<Rightarrow> int" where
  "atoi s =
     (if strip_sign s = [] \<or> \<not> list_all is_digit (strip_sign s) then 0
      else clamp64 (signed_val s))"

text \<open>
  \<^verbatim>\<open>big.Rat.SetString\<close> on text of the decimal grammar, the only text it is given here: it
  refuses an exponent outside \<^verbatim>\<open>int64\<close> and, unless the mantissa is zero, a power of ten
  beyond a million.
\<close>

definition rat_set_string :: "string \<Rightarrow> rat option" where
  "rat_set_string s =
     (case parse_decimal s of
        None \<Rightarrow> None
      | Some p \<Rightarrow>
          (case (if dp_exp p = [] then Some 0 else parse_int64 (dp_exp p)) of
             None \<Rightarrow> None
           | Some e \<Rightarrow>
               (let m = digits_val (dp_int p @ dp_frac p);
                    e10 = e - int (length (dp_frac p))
                in if m = 0 then Some 0
                   else if \<bar>e10\<bar> > 1000000 then None
                   else Some ((if dp_neg p then -1 else 1) * of_nat m * pow10 e10))))"

text \<open>
  \<^verbatim>\<open>big.Rat.FloatString\<close>: \<open>prec\<close> digits after the point, halves rounded away from zero.
\<close>

definition round_scaled :: "rat \<Rightarrow> nat \<Rightarrow> nat" where
  "round_scaled r prec = nat \<lfloor>\<bar>r\<bar> * 10 ^ prec + 1 / 2\<rfloor>"

definition round_to :: "rat \<Rightarrow> nat \<Rightarrow> rat" where
  "round_to r prec = sgn r * of_nat (round_scaled r prec) / 10 ^ prec"

definition float_string :: "rat \<Rightarrow> int \<Rightarrow> string" where
  "float_string r prec =
     (let k = nat prec; m = round_scaled r k
      in (if r < 0 then ''-'' else []) @ show_nat (m div 10 ^ k) @
         (if k = 0 then [] else ''.'' @ show_fixed k (m mod 10 ^ k)))"

definition Decimal_Sign :: "decimal \<Rightarrow> int option" where
  "Decimal_Sign d =
     (if \<not> Decimal_Valid d then None
      else case rat_set_string (trim_space d) of
             None \<Rightarrow> None
           | Some v \<Rightarrow> Some (if v < 0 then -1 else if v = 0 then 0 else 1))"

text \<open>The number a decimal denotes, where the code can read it.\<close>

definition decimal_val :: "decimal \<Rightarrow> rat option" where
  "decimal_val d = (if Decimal_Valid d then rat_set_string (trim_space d) else None)"

definition decimal_places :: "decimal \<Rightarrow> int" where
  "decimal_places d =
     (let raw0 = trim_space d;
          exponent = (if list_ex is_exp_mark raw0
             then atoi (tl (dropWhile (\<lambda>c. \<not> is_exp_mark c) raw0)) else 0);
          raw = takeWhile (\<lambda>c. \<not> is_exp_mark c) raw0
      in if CHR ''.'' \<in> set raw then
           (let dot = int (length (takeWhile (\<lambda>c. c \<noteq> CHR ''.'') raw));
                places = wrap64 (int (length raw) - dot - 1 - exponent)
            in if places > 0 then places else 0)
         else if exponent < 0 then wrap64 (- exponent) else 0)"

definition Decimal_Sub :: "decimal \<Rightarrow> decimal \<Rightarrow> decimal option" where
  "Decimal_Sub d other =
     (if \<not> Decimal_Valid d \<or> \<not> Decimal_Valid other then None
      else case rat_set_string (trim_space d) of
        None \<Rightarrow> None
      | Some left \<Rightarrow>
          (case rat_set_string (trim_space other) of
             None \<Rightarrow> None
           | Some right \<Rightarrow>
               (let precision = decimal_places d;
                    places = decimal_places other
                in Some (float_string (left - right)
                     (if places > precision then places else precision)))))"

datatype contract_error =
    InvalidDecimal string
  | JSONError
  | UnsupportedSchemaVersion int
  | UnknownEventType string
  | MissingFields "string list"
  | InvalidTiming
  | InvalidPayload
  | MissingOccurredAt
  | WrongTerminalID
  | InvalidReleaseValues
  | InvalidClassification

definition Decimal_MarshalJSON :: "decimal \<Rightarrow> contract_error + string" where
  "Decimal_MarshalJSON d =
     (if \<not> Decimal_Valid d then Inl (InvalidDecimal d) else Inr (trim_space d))"

text \<open>\<open>unquote\<close> is \<^verbatim>\<open>json.Unmarshal\<close> into a string.\<close>

definition Decimal_UnmarshalJSON ::
  "(string \<Rightarrow> string option) \<Rightarrow> string \<Rightarrow> contract_error + decimal" where
  "Decimal_UnmarshalJSON unquote data =
     (let raw = trim_space data;
          checked = (\<lambda>v. if \<not> Decimal_Valid v then Inl (InvalidDecimal v) else Inr v)
      in if 2 \<le> length raw \<and> hd raw = CHR 0x22 \<and> last raw = CHR 0x22 then
           (case unquote data of None \<Rightarrow> Inl JSONError | Some quoted \<Rightarrow> checked quoted)
         else checked raw)"

section \<open>Events\<close>

record Release =
  rel_SchemaVersion :: int
  rel_EventID :: string
  rel_RequestID :: string
  rel_AttemptID :: string
  rel_AttemptNo :: int
  rel_ProducerID :: string
  rel_OccurredAt :: time
  rel_AccountID :: string
  rel_Provider :: string
  rel_StatusCode :: int
  rel_LatencyMS :: int
  rel_TokensIn :: int
  rel_TokensOut :: int
  rel_CacheReadTokens :: int
  rel_CacheWriteTokens :: int
  rel_Model :: string
  rel_TenantID :: string
  rel_ErrorClass :: error_class
  rel_UsageSource :: string
  rel_Partial :: bool
  rel_InboundProtocol :: string

record AttemptStarted =
  as_SchemaVersion :: int
  as_EventID :: string
  as_RequestID :: string
  as_AttemptID :: string
  as_AttemptNo :: int
  as_ProducerID :: string
  as_OccurredAt :: time
  as_AccountID :: string
  as_Provider :: string
  as_Model :: string
  as_TenantID :: string
  as_DeadlineAt :: time

record StreamEvent =
  ev_EventType :: string
  ev_SchemaVersion :: int
  ev_EventID :: string
  ev_RequestID :: string
  ev_AttemptID :: string
  ev_ProducerID :: string
  ev_OccurredAt :: time
  ev_Payload :: string

definition supportedSchemaVersion :: "int \<Rightarrow> bool" where
  "supportedSchemaVersion version \<longleftrightarrow>
     version > 0 \<and> (version = SchemaVersion \<or> version sdiv 100 = SchemaVersion sdiv 100)"

text \<open>
  The required fields are checked by ranging over a map, so the code reports any one of the
  blank ones; the model reports all of them.
\<close>

definition missing_fields :: "(string \<times> string) list \<Rightarrow> string list" where
  "missing_fields fs = map fst (filter (\<lambda>(name, value). is_blank value) fs)"

definition AttemptStarted_Validate :: "AttemptStarted \<Rightarrow> contract_error + unit" where
  "AttemptStarted_Validate a =
     (let missing = missing_fields
        [(''event_id'', as_EventID a), (''request_id'', as_RequestID a),
         (''attempt_id'', as_AttemptID a), (''producer_id'', as_ProducerID a),
         (''account_id'', as_AccountID a), (''provider'', as_Provider a),
         (''model'', as_Model a), (''tenant_id'', as_TenantID a)]
      in if \<not> supportedSchemaVersion (as_SchemaVersion a)
         then Inl (UnsupportedSchemaVersion (as_SchemaVersion a))
         else if missing \<noteq> [] then Inl (MissingFields missing)
         else if as_AttemptNo a \<le> 0 \<or> is_zero_time (as_OccurredAt a)
                 \<or> \<not> as_DeadlineAt a > as_OccurredAt a
         then Inl InvalidTiming
         else Inr ())"

definition NewStreamEvent ::
  "string \<Rightarrow> string \<Rightarrow> string \<Rightarrow> string \<Rightarrow> string \<Rightarrow> time \<Rightarrow> string option \<Rightarrow> contract_error + StreamEvent"
where
  \<comment> \<open>the last argument is the result of \<open>json.Marshal\<close> on the payload\<close>
  "NewStreamEvent eventType eventID requestID attemptID producerID occurredAt marshalled =
     (case marshalled of
        None \<Rightarrow> Inl JSONError
      | Some b \<Rightarrow> Inr \<lparr>ev_EventType = eventType, ev_SchemaVersion = SchemaVersion,
          ev_EventID = eventID, ev_RequestID = requestID, ev_AttemptID = attemptID,
          ev_ProducerID = producerID, ev_OccurredAt = occurredAt, ev_Payload = b\<rparr>)"

definition StreamEvent_Validate ::
  "(string \<Rightarrow> bool) \<Rightarrow> StreamEvent \<Rightarrow> contract_error + unit" where
  "StreamEvent_Validate json_valid e =
     (let missing = missing_fields
        [(''event_id'', ev_EventID e), (''request_id'', ev_RequestID e),
         (''attempt_id'', ev_AttemptID e), (''producer_id'', ev_ProducerID e)]
      in if \<not> supportedSchemaVersion (ev_SchemaVersion e)
         then Inl (UnsupportedSchemaVersion (ev_SchemaVersion e))
         else if ev_EventType e \<noteq> EventTypeAttemptStarted \<and> ev_EventType e \<noteq> EventTypeRelease
         then Inl (UnknownEventType (ev_EventType e))
         else if missing \<noteq> [] then Inl (MissingFields missing)
         else if ev_Payload e = [] \<or> \<not> json_valid (ev_Payload e) then Inl InvalidPayload
         else if is_zero_time (ev_OccurredAt e) then Inl MissingOccurredAt
         else Inr ())"

text \<open>\<open>sha256_hex\<close> is the hexadecimal SHA-256 digest.\<close>

definition TerminalEventID :: "(string \<Rightarrow> string) \<Rightarrow> string \<Rightarrow> string" where
  "TerminalEventID sha256_hex attemptID = sha256_hex (attemptID @ '':terminal'')"

definition Release_Validate ::
  "(string \<Rightarrow> string) \<Rightarrow> Release \<Rightarrow> contract_error + unit" where
  "Release_Validate sha256_hex r =
     (let missing = missing_fields
        [(''event_id'', rel_EventID r), (''request_id'', rel_RequestID r),
         (''attempt_id'', rel_AttemptID r), (''producer_id'', rel_ProducerID r),
         (''account_id'', rel_AccountID r), (''provider'', rel_Provider r),
         (''model'', rel_Model r), (''tenant_id'', rel_TenantID r)]
      in if \<not> supportedSchemaVersion (rel_SchemaVersion r)
         then Inl (UnsupportedSchemaVersion (rel_SchemaVersion r))
         else if missing \<noteq> [] then Inl (MissingFields missing)
         else if rel_EventID r \<noteq> TerminalEventID sha256_hex (rel_AttemptID r)
         then Inl WrongTerminalID
         else if rel_AttemptNo r < 0 \<or> is_zero_time (rel_OccurredAt r) \<or> rel_StatusCode r < 0
              \<or> rel_LatencyMS r < 0 \<or> rel_TokensIn r < 0 \<or> rel_TokensOut r < 0
              \<or> rel_CacheReadTokens r < 0 \<or> rel_CacheWriteTokens r < 0
         then Inl InvalidReleaseValues
         else if \<not> ErrorClass_Valid (rel_ErrorClass r)
              \<or> (rel_UsageSource r \<noteq> UsageSourceUpstream
                  \<and> rel_UsageSource r \<noteq> UsageSourceEstimated
                  \<and> rel_UsageSource r \<noteq> UsageSourceMissing)
         then Inl InvalidClassification
         else Inr ())"

section \<open>The shape of a decimal\<close>

lemma takeWhile_digits:
  "list_all P d \<Longrightarrow> r = [] \<or> \<not> P (hd r) \<Longrightarrow> takeWhile P (d @ r) = d"
  "list_all P d \<Longrightarrow> r = [] \<or> \<not> P (hd r) \<Longrightarrow> dropWhile P (d @ r) = r"
  by (induction d) (auto simp: takeWhile_eq_Nil_iff dropWhile_eq_self_iff)

lemma digit_facts:
  "is_digit c \<Longrightarrow> \<not> is_exp_mark c" "is_digit c \<Longrightarrow> c \<noteq> CHR ''.''"
  "is_digit c \<Longrightarrow> c \<noteq> CHR ''-''" "is_digit c \<Longrightarrow> c \<noteq> CHR ''+''"
  by (auto simp: is_digit_def is_exp_mark_def)

definition unparse :: "decimal_parts \<Rightarrow> char \<Rightarrow> string" where
  "unparse p c = (if dp_neg p then ''-'' else []) @ dp_int p
     @ (if dp_frac p = [] then [] else CHR ''.'' # dp_frac p)
     @ (if dp_exp p = [] then [] else c # dp_exp p)"

definition wf_parts :: "decimal_parts \<Rightarrow> bool" where
  "wf_parts p \<longleftrightarrow> dp_int p \<noteq> [] \<and> list_all is_digit (dp_int p) \<and> list_all is_digit (dp_frac p)
     \<and> (dp_exp p \<noteq> [] \<longrightarrow>
           strip_sign (dp_exp p) \<noteq> [] \<and> list_all is_digit (strip_sign (dp_exp p)))"

lemma list_all_takeWhile: "list_all P (takeWhile P xs)"
  by (auto simp: list_all_iff dest: set_takeWhileD)

lemma match_exponent_Some:
  assumes "match_exponent r = Some e"
  shows "\<exists>c. is_exp_mark c \<and> r = (if e = [] then [] else c # e)
     \<and> (e \<noteq> [] \<longrightarrow> strip_sign e \<noteq> [] \<and> list_all is_digit (strip_sign e))"
proof (cases r)
  case Nil
  with assms show ?thesis by (auto simp: match_exponent_def is_exp_mark_def)
next
  case (Cons c t)
  with assms show ?thesis
    by (auto simp: match_exponent_def strip_sign_def split: if_splits intro!: exI[of _ c])
qed

lemma match_fraction_Some:
  assumes "match_fraction r = Some (f, r')"
  shows "r = (if f = [] then [] else CHR ''.'' # f) @ r' \<and> list_all is_digit f"
  using assms
  by (cases r) (auto simp: match_fraction_def list_all_takeWhile split: if_splits)

lemma parse_decimal_Some:
  assumes "parse_decimal s = Some p"
  shows "\<exists>c. is_exp_mark c \<and> s = unparse p c \<and> wf_parts p"
proof -
  define neg where "neg = has_prefix s ''-''"
  define s1 where "s1 = (if neg then tl s else s)"
  define i where "i = takeWhile is_digit s1"
  have s: "s = (if neg then ''-'' else []) @ s1"
    by (cases s) (auto simp: neg_def s1_def has_prefix_def)
  from assms obtain f r e where
    i: "i \<noteq> []" and f: "match_fraction (dropWhile is_digit s1) = Some (f, r)"
    and e: "match_exponent r = Some e"
    and p: "p = \<lparr>dp_neg = neg, dp_int = i, dp_frac = f, dp_exp = e\<rparr>"
    by (auto simp: parse_decimal_def Let_def s1_def neg_def i_def split: if_splits option.splits)
  from match_exponent_Some[OF e] obtain c where c: "is_exp_mark c" "r = (if e = [] then [] else c # e)"
    "e \<noteq> [] \<longrightarrow> strip_sign e \<noteq> [] \<and> list_all is_digit (strip_sign e)" by blast
  have "s1 = i @ dropWhile is_digit s1" by (simp add: i_def)
  then have "s1 = i @ (if f = [] then [] else CHR ''.'' # f) @ r"
    using match_fraction_Some[OF f] by simp
  then have "s = unparse p c"
    using s c(2) by (simp add: p unparse_def)
  moreover have "wf_parts p"
    using i c(3) match_fraction_Some[OF f] by (simp add: p wf_parts_def i_def list_all_takeWhile)
  ultimately show ?thesis using c(1) by blast
qed

section \<open>Printing and reading decimals\<close>

lemma pow10_add: "pow10 (a + b) = pow10 a * pow10 b"
proof -
  have p: "pow10 e = 10 powi e" for e
    by (simp add: pow10_def power_int_def field_simps)
  show ?thesis unfolding p by (rule power_int_add) simp
qed

lemma pow10_nat: "pow10 (int n) = 10 ^ n"
  by (simp add: pow10_def)

lemma pow10_neg_nat: "pow10 (- int n) = 1 / 10 ^ n"
  by (cases "n = 0") (simp_all add: pow10_def)

lemma pow10_pos: "0 < pow10 e"
  by (simp add: pow10_def)

lemma match_fraction_digits:
  "list_all is_digit d \<Longrightarrow> d \<noteq> [] \<Longrightarrow> match_fraction (CHR ''.'' # d) = Some (d, [])"
  using takeWhile_digits[of is_digit d "[]"] by (cases d) (simp_all add: match_fraction_def)

lemma parse_float_string:
  "parse_decimal (float_string r k) =
     Some \<lparr>dp_neg = r < 0, dp_int = show_nat (round_scaled r (nat k) div 10 ^ nat k),
       dp_frac = (if nat k = 0 then [] else show_fixed (nat k) (round_scaled r (nat k) mod 10 ^ nat k)),
       dp_exp = []\<rparr>"
proof -
  define q where "q = round_scaled r (nat k) div 10 ^ nat k"
  define t where "t = (if nat k = 0 then [] else
    CHR ''.'' # show_fixed (nat k) (round_scaled r (nat k) mod 10 ^ nat k))"
  have t: "t = [] \<or> \<not> is_digit (hd t)" by (auto simp: t_def is_digit_def)
  have fs: "float_string r k = (if r < 0 then ''-'' else []) @ show_nat q @ t"
    by (simp add: float_string_def Let_def q_def t_def)
  have hd_q: "hd (show_nat q) \<noteq> CHR ''-''"
    using show_nat_digits[of q] show_nat_nonempty[of q] digit_facts(3)
    by (cases "show_nat q") auto
  then have neg: "has_prefix (float_string r k) ''-'' \<longleftrightarrow> r < 0"
    using show_nat_nonempty[of q] by (cases "show_nat q") (auto simp: fs has_prefix_def)
  have s1: "(if r < 0 then tl (float_string r k) else float_string r k) = show_nat q @ t"
    by (simp add: fs)
  note tw = takeWhile_digits[OF show_nat_digits t, of q]
  have lead: "\<not> (hd (show_nat q) = CHR ''0'' \<and> 1 < length (show_nat q))"
    using show_nat_head[of q] by (cases "q = 0") (auto simp: show_nat_zero)
  have frac: "match_fraction t = Some (if nat k = 0 then [] else
    show_fixed (nat k) (round_scaled r (nat k) mod 10 ^ nat k), [])"
  proof (cases "nat k = 0")
    case True
    then show ?thesis by (simp add: t_def match_fraction_def)
  next
    case False
    then have "show_fixed (nat k) m \<noteq> []" for m
      using show_fixed_length[of "nat k" m] by force
    with False show ?thesis
      by (simp add: t_def match_fraction_digits show_fixed_digits)
  qed
  show ?thesis
    using lead by (simp add: parse_decimal_def Let_def neg s1 tw frac show_nat_nonempty
      match_exponent_def q_def[symmetric])
qed

lemma round_to_zero: "round_scaled r k = 0 \<Longrightarrow> round_to r k = 0"
  by (simp add: round_to_def)

lemma round_scaled_zero_arg: "round_scaled 0 k = 0"
  by (simp add: round_scaled_def)

lemma rat_set_string_float_string:
  assumes "nat k \<le> 1000000"
  shows "rat_set_string (float_string r k) = Some (round_to r (nat k))"
proof -
  define n where "n = nat k"
  define m where "m = round_scaled r n"
  define i where "i = show_nat (m div 10 ^ n)"
  define f where "f = (if n = 0 then [] else show_fixed n (m mod 10 ^ n))"
  have parse: "parse_decimal (float_string r k) =
      Some \<lparr>dp_neg = r < 0, dp_int = i, dp_frac = f, dp_exp = []\<rparr>"
    unfolding parse_float_string i_def f_def m_def n_def ..
  have val: "digits_val (i @ f) = m" and len: "length f = n"
    by (simp_all add: i_def f_def digits_val_append digits_val_show_fixed div_mult_mod_eq)
  have sgn: "(if r < 0 then - 1 else 1) * of_nat m * pow10 (- int n) = round_to r n" if "m \<noteq> 0"
  proof -
    have "r \<noteq> 0" using that round_scaled_zero_arg m_def by metis
    then show ?thesis unfolding pow10_neg_nat round_to_def m_def[symmetric] by (auto simp: sgn_if)
  qed
  have zero: "round_to r n = 0" if "m = 0" using that m_def round_to_zero by metis
  have "n \<le> 1000000" using assms by (simp add: n_def)
  then have "rat_set_string (float_string r k) = Some (round_to r n)"
    using sgn zero by (simp add: rat_set_string_def parse val len Let_def)
  then show ?thesis by (simp add: n_def)
qed

lemma round_to_exact:
  assumes "r * 10 ^ k = of_int z"
  shows "round_to r k = r"
proof -
  have "\<bar>r * 10 ^ k\<bar> = \<bar>of_int z\<bar>" by (simp add: assms)
  then have "\<bar>r\<bar> * 10 ^ k = of_int \<bar>z\<bar>" by (simp add: abs_mult)
  moreover have "\<lfloor>of_int \<bar>z\<bar> + (1 / 2 :: rat)\<rfloor> = \<bar>z\<bar>"
    by (rule floor_unique) simp_all
  ultimately have "round_scaled r k = nat \<bar>z\<bar>" by (simp add: round_scaled_def)
  then have "round_to r k = sgn r * (\<bar>r\<bar> * 10 ^ k) / 10 ^ k"
    using \<open>\<bar>r\<bar> * 10 ^ k = of_int \<bar>z\<bar>\<close> by (simp add: round_to_def)
  then show ?thesis by (simp add: sgn_mult_abs)
qed

lemma round_to_scaled: "\<exists>z. round_to r k * 10 ^ k = of_int z"
  by (rule exI[of _ "(if r < 0 then - 1 else if r = 0 then 0 else 1) * int (round_scaled r k)"])
    (simp add: round_to_def sgn_if)

lemma trim_left_hd:
  assumes "s \<noteq> []" and "\<And>p. p \<in> set seqs \<Longrightarrow> p \<noteq> [] \<Longrightarrow> hd p \<noteq> hd s"
  shows "trim_left seqs s = s"
proof (rule trim_left_stop)
  fix p assume p: "p \<in> set seqs" "p \<noteq> []"
  then have "hd p \<noteq> hd s" by (rule assms(2))
  with p(2) assms(1) show "\<not> has_prefix s p"
    by (cases s; cases p) (auto simp: has_prefix_def)
qed

lemma space_seqs_ends:
  "is_digit c \<or> c = CHR ''-'' \<Longrightarrow> p \<in> set space_seqs \<Longrightarrow> hd p \<noteq> c"
  "is_digit c \<Longrightarrow> p \<in> set (map rev space_seqs) \<Longrightarrow> hd p \<noteq> c"
  by (auto simp: space_seqs_def is_digit_def)

lemma trim_space_id:
  assumes "s \<noteq> []" "is_digit (hd s) \<or> hd s = CHR ''-''" "is_digit (last s)"
  shows "trim_space s = s"
proof -
  have "trim_left space_seqs s = s"
    using assms space_seqs_ends(1) by (intro trim_left_hd) auto
  moreover have "trim_left (map rev space_seqs) (rev s) = rev s"
    using assms space_seqs_ends(2) by (intro trim_left_hd) (auto simp: hd_rev)
  ultimately show ?thesis by (simp add: trim_space_def)
qed

lemma strip_sign_last: "strip_sign e \<noteq> [] \<Longrightarrow> last (strip_sign e) = last e"
  by (cases e) (auto simp: strip_sign_def)

lemma parse_decimal_trim:
  assumes "parse_decimal s = Some p"
  shows "trim_space s = s" "s \<noteq> []" "is_digit (hd s) \<or> hd s = CHR ''-''"
proof -
  from parse_decimal_Some[OF assms] obtain c where s: "s = unparse p c" and wf: "wf_parts p" by blast
  from wf show ne: "s \<noteq> []" by (simp add: s unparse_def wf_parts_def)
  from wf show h: "is_digit (hd s) \<or> hd s = CHR ''-''"
    by (cases "dp_int p") (auto simp: s unparse_def wf_parts_def)
  have "is_digit (last s)"
  proof (cases "dp_exp p = []")
    case True
    with wf show ?thesis by (auto simp: s unparse_def wf_parts_def list_all_iff)
  next
    case False
    with wf have "is_digit (last (strip_sign (dp_exp p)))"
      by (simp add: wf_parts_def list_all_iff)
    with False wf show ?thesis by (simp add: s unparse_def wf_parts_def strip_sign_last)
  qed
  with ne h show "trim_space s = s" by (intro trim_space_id)
qed

lemma decimal_val_Some:
  "decimal_val d = Some v \<longleftrightarrow> Decimal_Valid d \<and> rat_set_string (trim_space d) = Some v"
  by (simp add: decimal_val_def)

lemma decimal_val_float_string:
  assumes "nat k \<le> 1000000"
  shows "decimal_val (float_string r k) = Some (round_to r (nat k))"
  using parse_decimal_trim[OF parse_float_string[of r k]] rat_set_string_float_string[OF assms, of r]
  by (simp add: decimal_val_def Decimal_Valid_def parse_float_string)

section \<open>Places and exact subtraction\<close>

definition dp_exponent :: "decimal_parts \<Rightarrow> int" where
  "dp_exponent p = (if dp_exp p = [] then 0 else atoi (dp_exp p))"

lemma exponent_split:
  assumes "is_exp_mark c" "wf_parts p"
  shows "takeWhile (\<lambda>c. \<not> is_exp_mark c) (unparse p c) =
      (if dp_neg p then ''-'' else []) @ dp_int p @ (if dp_frac p = [] then [] else CHR ''.'' # dp_frac p)"
    and "(if list_ex is_exp_mark (unparse p c)
      then atoi (tl (dropWhile (\<lambda>c. \<not> is_exp_mark c) (unparse p c))) else 0) = dp_exponent p"
proof -
  let ?b = "(if dp_neg p then ''-'' else []) @ dp_int p @ (if dp_frac p = [] then [] else CHR ''.'' # dp_frac p)"
  let ?e = "if dp_exp p = [] then [] else c # dp_exp p"
  have u: "unparse p c = ?b @ ?e" by (simp add: unparse_def)
  have b: "list_all (\<lambda>c. \<not> is_exp_mark c) ?b"
    using assms(2) digit_facts(1) by (auto simp: wf_parts_def list_all_iff is_exp_mark_def)
  have e: "?e = [] \<or> \<not> \<not> is_exp_mark (hd ?e)" using assms(1) by simp
  note tw = takeWhile_digits[OF b e]
  show "takeWhile (\<lambda>c. \<not> is_exp_mark c) (unparse p c) = ?b" by (simp only: u tw(1))
  have dw: "dropWhile (\<lambda>c. \<not> is_exp_mark c) (unparse p c) = ?e" by (simp only: u tw(2))
  have "list_ex is_exp_mark (unparse p c) \<longleftrightarrow> dp_exp p \<noteq> []"
    using b assms(1) unfolding u by (auto simp: list_ex_iff list_all_iff)
  then show "(if list_ex is_exp_mark (unparse p c)
      then atoi (tl (dropWhile (\<lambda>c. \<not> is_exp_mark c) (unparse p c))) else 0) = dp_exponent p"
    using dw by (simp add: dp_exponent_def)
qed

lemma dot_split:
  assumes "list_all is_digit i" "b = (if neg then ''-'' else []) @ i @ CHR ''.'' # f"
  shows "CHR ''.'' \<in> set b"
    and "int (length b) - int (length (takeWhile (\<lambda>c. c \<noteq> CHR ''.'') b)) - 1 = int (length f)"
proof -
  let ?h = "(if neg then ''-'' else []) @ i"
  have "list_all (\<lambda>c. c \<noteq> CHR ''.'') ?h"
    using assms(1) digit_facts(2) by (auto simp: list_all_iff)
  from takeWhile_digits(1)[OF this, of "CHR ''.'' # f"]
  have "takeWhile (\<lambda>c. c \<noteq> CHR ''.'') b = ?h" by (simp add: assms(2))
  then show "int (length b) - int (length (takeWhile (\<lambda>c. c \<noteq> CHR ''.'') b)) - 1 = int (length f)"
    by (simp add: assms(2))
  show "CHR ''.'' \<in> set b" by (simp add: assms(2))
qed

lemma no_dot:
  "list_all is_digit i \<Longrightarrow> CHR ''.'' \<notin> set ((if neg then ''-'' else []) @ i)"
  using digit_facts(2) by (auto simp: list_all_iff)

lemma decimal_places_parts:
  assumes "parse_decimal (trim_space d) = Some p"
  shows "decimal_places d =
    (if dp_frac p \<noteq> [] then max 0 (wrap64 (int (length (dp_frac p)) - dp_exponent p))
     else if dp_exponent p < 0 then wrap64 (- dp_exponent p) else 0)"
proof -
  from parse_decimal_Some[OF assms] obtain c where
    c: "is_exp_mark c" and u: "trim_space d = unparse p c" and wf: "wf_parts p" by blast
  from wf have digits: "list_all is_digit (dp_int p)" by (simp add: wf_parts_def)
  note sp = exponent_split[OF c wf]
  show ?thesis
  proof (cases "dp_frac p = []")
    case True
    with no_dot[OF digits, of "dp_neg p"] show ?thesis
      by (simp add: decimal_places_def Let_def u sp)
  next
    case False
    define b where "b = takeWhile (\<lambda>c. \<not> is_exp_mark c) (unparse p c)"
    have "b = (if dp_neg p then ''-'' else []) @ dp_int p @ CHR ''.'' # dp_frac p"
      unfolding b_def sp(1) using False by simp
    note dot = dot_split[OF digits this]
    show ?thesis
      unfolding decimal_places_def Let_def u sp(2) b_def[symmetric] dot(2)
      using dot(1) False by (simp add: max_def)
  qed
qed

lemma atoi_parse_int64: "parse_int64 s = Some e \<Longrightarrow> atoi s = e"
  by (auto simp: parse_int64_def atoi_def clamp64_def split: if_splits)

text \<open>What reading a decimal says about its parts.\<close>

lemma rat_set_string_Some:
  assumes "rat_set_string s = Some v"
  obtains p where "parse_decimal s = Some p"
    and "digits_val (dp_int p @ dp_frac p) = 0 \<and> v = 0 \<or>
      digits_val (dp_int p @ dp_frac p) \<noteq> 0 \<and> \<bar>dp_exponent p - int (length (dp_frac p))\<bar> \<le> 1000000 \<and>
      v = (if dp_neg p then -1 else 1) * of_nat (digits_val (dp_int p @ dp_frac p))
        * pow10 (dp_exponent p - int (length (dp_frac p)))"
proof -
  from assms obtain p e where p: "parse_decimal s = Some p"
    and e: "(if dp_exp p = [] then Some 0 else parse_int64 (dp_exp p)) = Some e"
    by (auto simp: rat_set_string_def split: option.splits)
  from e have "dp_exponent p = e"
    by (auto simp: dp_exponent_def atoi_parse_int64 split: if_splits)
  with assms p e show thesis
    by (intro that[of p]) (auto simp: rat_set_string_def Let_def split: if_splits)
qed

lemma pow10_integer: "0 \<le> e + int k \<Longrightarrow> pow10 e * 10 ^ k = of_int (10 ^ nat (e + int k))"
proof -
  assume "0 \<le> e + int k"
  moreover have "pow10 e * 10 ^ k = pow10 (e + int k)" by (simp add: pow10_add pow10_nat)
  ultimately show ?thesis by (simp add: pow10_def)
qed

lemma decimal_places_sufficient:
  assumes "decimal_val d = Some v" and "decimal_places d \<le> int k"
  shows "\<exists>z. v * 10 ^ k = of_int z"
proof -
  from assms(1) have "rat_set_string (trim_space d) = Some v" by (simp add: decimal_val_Some)
  then obtain p where p: "parse_decimal (trim_space d) = Some p"
    and v: "digits_val (dp_int p @ dp_frac p) = 0 \<and> v = 0 \<or>
      digits_val (dp_int p @ dp_frac p) \<noteq> 0 \<and> \<bar>dp_exponent p - int (length (dp_frac p))\<bar> \<le> 1000000 \<and>
      v = (if dp_neg p then -1 else 1) * of_nat (digits_val (dp_int p @ dp_frac p))
        * pow10 (dp_exponent p - int (length (dp_frac p)))"
    by (rule rat_set_string_Some)
  let ?m = "digits_val (dp_int p @ dp_frac p)" and ?e = "dp_exponent p - int (length (dp_frac p))"
  from v show ?thesis
  proof
    assume "?m = 0 \<and> v = 0"
    then show ?thesis by (intro exI[of _ 0]) simp
  next
    assume a: "?m \<noteq> 0 \<and> \<bar>?e\<bar> \<le> 1000000 \<and> v = (if dp_neg p then -1 else 1) * of_nat ?m * pow10 ?e"
    then have "wrap64 (- ?e) = - ?e"
      by (intro wrap64_id) (auto simp: min_int64_def max_int64_def)
    then have "decimal_places d = max 0 (- ?e)"
      using decimal_places_parts[OF p] by (auto simp: algebra_simps)
    with assms(2) have "0 \<le> ?e + int k" by simp
    then have "v * 10 ^ k = (if dp_neg p then -1 else 1) * of_nat ?m * of_int (10 ^ nat (?e + int k))"
      using a pow10_integer[of ?e k] by (simp add: mult.assoc)
    then show ?thesis
      by (intro exI[of _ "(if dp_neg p then -1 else 1) * int ?m * 10 ^ nat (?e + int k)"]) simp
  qed
qed

lemma Decimal_Sub_val:
  assumes "decimal_val a = Some x" and "decimal_val b = Some y"
    and "decimal_places a \<le> 1000000" and "decimal_places b \<le> 1000000"
  shows "\<exists>d. Decimal_Sub a b = Some d \<and> decimal_val d = Some (x - y)"
proof -
  define k where "k = max (decimal_places b) (decimal_places a)"
  have ka: "decimal_places a \<le> int (nat k)" and kb: "decimal_places b \<le> int (nat k)"
    by (auto simp: k_def)
  obtain zx where zx: "x * 10 ^ nat k = of_int zx"
    using decimal_places_sufficient[OF assms(1) ka] by blast
  obtain zy where zy: "y * 10 ^ nat k = of_int zy"
    using decimal_places_sufficient[OF assms(2) kb] by blast
  have "(x - y) * 10 ^ nat k = of_int (zx - zy)" using zx zy by (simp add: left_diff_distrib)
  then have "round_to (x - y) (nat k) = x - y" by (rule round_to_exact)
  moreover have "nat k \<le> 1000000" using assms(3,4) by (simp add: k_def)
  ultimately have "decimal_val (float_string (x - y) k) = Some (x - y)"
    by (simp add: decimal_val_float_string)
  moreover have "Decimal_Sub a b = Some (float_string (x - y) k)"
    using assms(1,2) by (simp add: Decimal_Sub_def decimal_val_Some k_def Let_def max_def)
  ultimately show ?thesis by blast
qed

text \<open>
  C38.  Subtracting one decimal from another is exact: the text \<open>Sub\<close> prints reads back as the
  difference of the two numbers, with no rounding, for decimals of at most a million places.
\<close>

theorem Decimal_Sub_exact:
  assumes "decimal_val a = Some x" and "decimal_val b = Some y"
    and "decimal_places a \<le> 1000000" and "decimal_places b \<le> 1000000"
  shows "\<exists>d. Decimal_Sub a b = Some d \<and> decimal_val d = Some (x - y)"
  by (rule Decimal_Sub_val[OF assms])

theorem Decimal_Sub_exact_witness:
  "\<exists>d. Decimal_Sub ''10.50'' ''1.5e-3'' = Some d \<and> decimal_val d = Some (105 / 10 - 15 / 10000)"
proof (rule Decimal_Sub_exact)
  show "decimal_val ''10.50'' = Some (105 / 10)" by code_simp
  show "decimal_val ''1.5e-3'' = Some (15 / 10000)" by code_simp
  show "decimal_places ''10.50'' \<le> 1000000" by code_simp
  show "decimal_places ''1.5e-3'' \<le> 1000000" by code_simp
qed

text \<open>
  A decimal survives JSON: what \<open>MarshalJSON\<close> writes, \<open>UnmarshalJSON\<close> reads back as the
  same text without its surrounding white space, whatever the decoder of quoted strings does.
\<close>

theorem Decimal_JSON_roundtrip:
  assumes "Decimal_MarshalJSON d = Inr b"
  shows "Decimal_UnmarshalJSON unquote b = Inr (trim_space d)"
proof -
  from assms have v: "Decimal_Valid d" and b: "b = trim_space d"
    by (auto simp: Decimal_MarshalJSON_def split: if_splits)
  from v obtain p where p: "parse_decimal b = Some p" 
    by (auto simp: Decimal_Valid_def Let_def b split: if_splits)
  note t = parse_decimal_trim[OF p]
  have "hd b \<noteq> CHR 0x22" using t(3) by (auto simp: is_digit_def)
  with p t show ?thesis
    by (simp add: Decimal_UnmarshalJSON_def Decimal_Valid_def b[symmetric])
qed

theorem Decimal_JSON_roundtrip_witness:
  "Decimal_UnmarshalJSON (\<lambda>_. None) ''-1.25'' = Inr (trim_space '' -1.25 '')"
  by (rule Decimal_JSON_roundtrip) code_simp

end
