(* ===== verification/Health.thy ===== *)
theory Health
  imports Contracts
begin

text \<open>
  \<^verbatim>\<open>internal/control/health.go\<close>: the authoritative verdict on an account.  The account row
  carries the health columns of \<^verbatim>\<open>migrations/001_initial.sql\<close> and
  \<^verbatim>\<open>migrations/003_account_health.sql\<close>; the SQL statements are functions on the table, an
  association list from account IDs to rows.  Metrics calls are left out.
\<close>

section \<open>Database values\<close>

text \<open>A \<^verbatim>\<open>timestamptz\<close> holds microseconds: the driver drops the nanoseconds below.\<close>

definition pg_time :: "time \<Rightarrow> time" where
  "pg_time t = t - t mod 1000"

text \<open>An \<^verbatim>\<open>INTEGER\<close> column takes 32-bit values and the server refuses others.\<close>

definition int4 :: "int \<Rightarrow> bool" where
  "int4 i \<longleftrightarrow> - (2 ^ 31) \<le> i \<and> i < 2 ^ 31"

datatype db_error =
    DBFault
  | AttemptNotPersisted string
  | UniqueViolation
  | IntegerOutOfRange

record account_row =
  ah_platform :: string
  ah_status :: string
  ah_last_error_class :: "string option"
  ah_last_error_at :: "time option"
  ah_consecutive_failures :: int
  ah_cooldown_until :: "time option"
  ah_excluded_models :: "string list"

type_synonym account_table = "(string, account_row) gomap"

section \<open>The verdict of a release\<close>

definition unknownRateLimitEscalation :: int where
  "unknownRateLimitEscalation = 3"

definition unknownRateLimitCooldown :: duration where
  "unknownRateLimitCooldown = 5 * 60 * second"

definition blockedCooldown :: duration where
  "blockedCooldown = 60 * second"

definition greatest_cooldown :: "time option \<Rightarrow> time \<Rightarrow> duration \<Rightarrow> time" where
  "greatest_cooldown old t d = max (case old of None \<Rightarrow> t | Some c \<Rightarrow> c) (t + d)"

definition authority_row :: "string \<Rightarrow> time \<Rightarrow> string \<Rightarrow> account_row \<Rightarrow> account_row" where
  "authority_row cls t model a =
     a\<lparr>ah_status := (if cls = ''auth_invalid'' then ''disabled'' else ah_status a),
       ah_last_error_class := (if cls = ''ok'' then None else Some cls),
       ah_last_error_at := (if cls = ''ok'' then None else Some t),
       ah_consecutive_failures :=
         (if cls = ''ok'' then 0
          else if cls \<in> {''rate_limited_unknown'', ''blocked''} then ah_consecutive_failures a + 1
          else ah_consecutive_failures a),
       ah_cooldown_until :=
         (if cls = ''ok'' then None
          else if cls = ''blocked'' then Some (greatest_cooldown (ah_cooldown_until a) t blockedCooldown)
          else if cls = ''rate_limited_unknown''
                  \<and> ah_consecutive_failures a + 1 \<ge> unknownRateLimitEscalation
          then Some (greatest_cooldown (ah_cooldown_until a) t unknownRateLimitCooldown)
          else ah_cooldown_until a),
       ah_excluded_models :=
         (if cls = ''forbidden_capability'' \<and> model \<noteq> '''' \<and> model \<notin> set (ah_excluded_models a)
          then ah_excluded_models a @ [model] else ah_excluded_models a)\<rparr>"

definition applyReleaseAuthority :: "Release \<Rightarrow> account_table \<Rightarrow> db_error + account_table" where
  "applyReleaseAuthority r accounts =
     (case map_of accounts (rel_AccountID r) of
        None \<Rightarrow> Inr accounts
      | Some a \<Rightarrow>
          (let a' = authority_row (rel_ErrorClass r) (pg_time (rel_OccurredAt r)) (rel_Model r) a
           in if \<not> int4 (ah_consecutive_failures a') then Inl IntegerOutOfRange
              else Inr (AList.update (rel_AccountID r) a' accounts)))"

section \<open>Platform signals\<close>

definition platformSignalWindow :: duration where
  "platformSignalWindow = 60 * second"

definition platformSignalAccounts :: nat where
  "platformSignalAccounts = 2"

record platformEvent =
  pe_at :: time
  pe_accountID :: string
  pe_class :: error_class

record PlatformSignals =
  ps_Window :: duration
  ps_Threshold :: int
  ps_events :: "(string, platformEvent list) gomap"

definition NewPlatformSignals :: PlatformSignals where
  "NewPlatformSignals = \<lparr>ps_Window = platformSignalWindow,
     ps_Threshold = int platformSignalAccounts, ps_events = []\<rparr>"

definition signal_window :: "PlatformSignals \<Rightarrow> duration" where
  "signal_window p = (if ps_Window p \<le> 0 then platformSignalWindow else ps_Window p)"

definition signal_threshold :: "PlatformSignals \<Rightarrow> int" where
  "signal_threshold p = (if ps_Threshold p \<le> 0 then int platformSignalAccounts else ps_Threshold p)"

definition recent_events :: "PlatformSignals \<Rightarrow> time \<Rightarrow> string \<Rightarrow> platformEvent list" where
  "recent_events p now provider =
     filter (\<lambda>e. time_sub now (pe_at e) < signal_window p)
       (case map_of (ps_events p) provider of None \<Rightarrow> [] | Some es \<Rightarrow> es)"

definition distinct_accounts :: "platformEvent list \<Rightarrow> int" where
  "distinct_accounts es = int (length (remdups (map pe_accountID es)))"

text \<open>The result says whether the provider is over the threshold at this call.\<close>

definition Observe :: "time \<Rightarrow> Release \<Rightarrow> PlatformSignals \<Rightarrow> PlatformSignals \<times> bool" where
  "Observe now r p =
     (let cls = rel_ErrorClass r in
      if cls \<noteq> ErrorForbiddenTransport \<and> cls \<noteq> ErrorBlocked \<and> cls \<noteq> ErrorUpstream5xx then (p, False)
      else if cls = ErrorUpstream5xx then (p, False)
      else let kept = recent_events p now (rel_Provider r)
                 @ [\<lparr>pe_at = now, pe_accountID = rel_AccountID r, pe_class = cls\<rparr>]
           in (p\<lparr>ps_events := AList.update (rel_Provider r) kept (ps_events p)\<rparr>,
               distinct_accounts kept \<ge> signal_threshold p))"

definition Alerting :: "time \<Rightarrow> PlatformSignals \<Rightarrow> string list" where
  "Alerting now p =
     sort (map fst (filter (\<lambda>(provider, es).
        distinct_accounts (filter (\<lambda>e. time_sub now (pe_at e) < signal_window p) es)
          \<ge> signal_threshold p) (ps_events p)))"

section \<open>Starved platforms\<close>

definition active_on :: "string \<Rightarrow> account_row \<Rightarrow> bool" where
  "active_on platform a \<longleftrightarrow> ah_status a = ''active'' \<and> ah_platform a = platform"

definition cooling_at :: "time \<Rightarrow> account_row \<Rightarrow> bool" where
  "cooling_at now a \<longleftrightarrow> (case ah_cooldown_until a of None \<Rightarrow> False | Some c \<Rightarrow> c > now)"

definition cooling_rows :: "time \<Rightarrow> string \<Rightarrow> account_table \<Rightarrow> account_table" where
  "cooling_rows now platform t = filter (\<lambda>(_, a). active_on platform a \<and> cooling_at now a) t"

text \<open>More than half of the platform's active accounts are cooling.\<close>

definition starved :: "time \<Rightarrow> string \<Rightarrow> account_table \<Rightarrow> bool" where
  "starved now platform t \<longleftrightarrow>
     length (filter (\<lambda>(_, a). active_on platform a) t) > 0 \<and>
     2 * length (cooling_rows now platform t) > length (filter (\<lambda>(_, a). active_on platform a) t)"

text \<open>
  The account whose cooldown ends first.  Among equal ends the statement leaves the choice to
  the server; the model takes the first row of the table.
\<close>

fun first_to_thaw :: "account_table \<Rightarrow> (string \<times> account_row) option" where
  "first_to_thaw [] = None"
| "first_to_thaw ((k, a) # t) =
     (case first_to_thaw t of
        None \<Rightarrow> Some (k, a)
      | Some (k', a') \<Rightarrow>
          if the (ah_cooldown_until a') < the (ah_cooldown_until a) then Some (k', a') else Some (k, a))"

definition release_platform :: "time \<Rightarrow> account_table \<Rightarrow> string \<Rightarrow> account_table \<Rightarrow> account_table" where
  "release_platform now t0 platform t =
     (case first_to_thaw (cooling_rows now platform t0) of
        None \<Rightarrow> t
      | Some (k, a) \<Rightarrow>
          AList.update k (a\<lparr>ah_cooldown_until := None, ah_consecutive_failures := 0\<rparr>) t)"

definition starved_platforms :: "time \<Rightarrow> account_table \<Rightarrow> string list" where
  "starved_platforms now t =
     sort (remdups (filter (\<lambda>p. starved now p t) (map (ah_platform \<circ> snd) t)))"

definition ReleaseStarvedCooldowns :: "time \<Rightarrow> account_table \<Rightarrow> account_table \<times> string list" where
  "ReleaseStarvedCooldowns now0 t =
     (let now = pg_time now0; platforms = starved_platforms now t
      in (fold (release_platform now t) platforms t, platforms))"

section \<open>What the verdict promises\<close>

lemma applyReleaseAuthority_other:
  "applyReleaseAuthority r t = Inr t' \<Longrightarrow> k \<noteq> rel_AccountID r \<Longrightarrow> map_of t' k = map_of t k"
  by (auto simp: applyReleaseAuthority_def Let_def gomap_simps split: option.splits if_splits)

lemma applyReleaseAuthority_row:
  "applyReleaseAuthority r t = Inr t' \<Longrightarrow>
     map_of t' (rel_AccountID r) =
       map_option (authority_row (rel_ErrorClass r) (pg_time (rel_OccurredAt r)) (rel_Model r))
         (map_of t (rel_AccountID r))"
  by (auto simp: applyReleaseAuthority_def Let_def gomap_simps split: option.splits if_splits)

lemma applyReleaseAuthority_keys:
  "applyReleaseAuthority r t = Inr t' \<Longrightarrow> distinct (map fst t) \<Longrightarrow> distinct (map fst t')"
  by (auto simp: applyReleaseAuthority_def Let_def keep_inv split: option.splits if_splits)

text \<open>The releases of one account, in the order control consumes them.\<close>

definition judge_releases :: "Release list \<Rightarrow> account_row \<Rightarrow> account_row" where
  "judge_releases rs = fold (\<lambda>r. authority_row (rel_ErrorClass r) (pg_time (rel_OccurredAt r)) (rel_Model r)) rs"

text \<open>The releases since the last success.\<close>

definition since_ok :: "Release list \<Rightarrow> Release list" where
  "since_ok rs = takeWhile (\<lambda>r. rel_ErrorClass r \<noteq> ErrorOK) (rev rs)"

definition of_class :: "error_class \<Rightarrow> Release list \<Rightarrow> Release list" where
  "of_class cls = filter (\<lambda>r. rel_ErrorClass r = cls)"

lemma judge_releases_snoc:
  "judge_releases (rs @ [r]) a =
     authority_row (rel_ErrorClass r) (pg_time (rel_OccurredAt r)) (rel_Model r) (judge_releases rs a)"
  by (simp add: judge_releases_def)

lemma since_ok_snoc:
  "since_ok (rs @ [r]) = (if rel_ErrorClass r = ErrorOK then [] else r # since_ok rs)"
  by (simp add: since_ok_def)

lemma judged_failures:
  assumes "ah_consecutive_failures a = 0"
  shows "ah_consecutive_failures (judge_releases rs a) =
    int (length (of_class ErrorRateLimitedUnknown (since_ok rs)) + length (of_class ErrorBlocked (since_ok rs)))"
proof (induction rs rule: rev_induct)
  case Nil
  then show ?case using assms by (simp add: judge_releases_def since_ok_def of_class_def)
next
  case (snoc r rs)
  then show ?case
    by (auto simp: judge_releases_snoc since_ok_snoc authority_row_def of_class_def)
qed

text \<open>
  The ends of the cooldowns the releases since the last success call for, newest release first:
  a minute for each block, five minutes for each rate limit without a reset that is at least the
  third of the blocks and such rate limits up to it.
\<close>

definition failures :: "Release list \<Rightarrow> Release list" where
  "failures = filter (\<lambda>r. rel_ErrorClass r \<in> {ErrorRateLimitedUnknown, ErrorBlocked})"

fun sentences :: "Release list \<Rightarrow> time list" where
  "sentences [] = []"
| "sentences (r # older) =
     (if rel_ErrorClass r = ErrorBlocked then [pg_time (rel_OccurredAt r) + 60 * second]
      else if rel_ErrorClass r = ErrorRateLimitedUnknown \<and> length (failures (r # older)) \<ge> 3
      then [pg_time (rel_OccurredAt r) + 5 * 60 * second] else []) @ sentences older"

definition latest :: "time list \<Rightarrow> time option" where
  "latest ts = (if ts = [] then None else Some (Max (set ts)))"

lemma latest_Cons: "latest (t # ts) = Some (case latest ts of None \<Rightarrow> t | Some c \<Rightarrow> max c t)"
  by (simp add: latest_def max.commute)

lemma length_failures:
  "length (failures rs) = length (of_class ErrorRateLimitedUnknown rs) + length (of_class ErrorBlocked rs)"
  by (induction rs) (auto simp: failures_def of_class_def)

lemma greatest_cooldown_later: "0 \<le> d \<Longrightarrow> greatest_cooldown old t d = (case old of None \<Rightarrow> t + d | Some c \<Rightarrow> max c (t + d))"
  by (simp add: greatest_cooldown_def split: option.splits)

lemma judged_cooldown:
  assumes "ah_cooldown_until a = None" "ah_consecutive_failures a = 0"
  shows "ah_cooldown_until (judge_releases rs a) = latest (sentences (since_ok rs))"
proof (induction rs rule: rev_induct)
  case Nil
  then show ?case using assms(1) by (simp add: judge_releases_def since_ok_def latest_def)
next
  case (snoc r rs)
  have f: "ah_consecutive_failures (judge_releases rs a) = int (length (failures (since_ok rs)))"
    using judged_failures[OF assms(2)] by (simp add: length_failures)
  have d: "0 \<le> blockedCooldown" "blockedCooldown = 60 * second"
    "0 \<le> unknownRateLimitCooldown" "unknownRateLimitCooldown = 300 * second"
    by (simp_all add: blockedCooldown_def unknownRateLimitCooldown_def second_def)
  have n: "length (failures (r # since_ok rs)) \<ge> 3 \<longleftrightarrow> ah_consecutive_failures (judge_releases rs a) + 1 \<ge> unknownRateLimitEscalation"
    if "rel_ErrorClass r = ErrorRateLimitedUnknown"
    using that by (auto simp: f failures_def unknownRateLimitEscalation_def)
  show ?case using snoc n
    by (cases "rel_ErrorClass r = ErrorRateLimitedUnknown")
      (simp_all add: judge_releases_snoc since_ok_snoc authority_row_def latest_Cons greatest_cooldown_later d(1,3)
        d(2,4)[symmetric], simp_all add: latest_def)
qed

lemma sentences_none:
  "sentences rs = [] \<longleftrightarrow> of_class ErrorBlocked rs = [] \<and> length (of_class ErrorRateLimitedUnknown rs) < 3"
  by (induction rs) (auto simp: of_class_def length_failures)

lemma judged_status:
  "ah_status (judge_releases rs a) = ''disabled'' \<longleftrightarrow> ah_status a = ''disabled'' \<or> of_class ErrorAuthInvalid rs \<noteq> []"
  by (induction rs rule: rev_induct) (auto simp: judge_releases_snoc authority_row_def of_class_def judge_releases_def)


definition sample_release :: "string \<Rightarrow> string \<Rightarrow> error_class \<Rightarrow> time \<Rightarrow> Release" where
  "sample_release attempt account cls t =
     \<lparr>rel_SchemaVersion = 1, rel_EventID = attempt @ '':terminal'', rel_RequestID = ''req'',
      rel_AttemptID = attempt, rel_AttemptNo = 1, rel_ProducerID = ''gw'', rel_OccurredAt = t,
      rel_AccountID = account, rel_Provider = ''kiro'', rel_StatusCode = 200, rel_LatencyMS = 5,
      rel_TokensIn = 10, rel_TokensOut = 20, rel_CacheReadTokens = 0, rel_CacheWriteTokens = 0,
      rel_Model = ''m'', rel_TenantID = ''t1'', rel_ErrorClass = cls,
      rel_UsageSource = UsageSourceUpstream, rel_Partial = False, rel_InboundProtocol = ''openai''\<rparr>"

definition sample_row :: "string \<Rightarrow> time option \<Rightarrow> account_row" where
  "sample_row platform c =
     \<lparr>ah_platform = platform, ah_status = ''active'', ah_last_error_class = None,
      ah_last_error_at = None, ah_consecutive_failures = 0, ah_cooldown_until = c,
      ah_excluded_models = []\<rparr>"


section \<open>Signals and starvation\<close>

lemma distinct_accounts_card: "distinct_accounts es = int (card (pe_accountID ` set es))"
  by (simp add: distinct_accounts_def card_set[symmetric])

lemma signal_window_pos: "0 < signal_window p" and signal_threshold_pos: "0 < signal_threshold p"
  by (simp_all add: signal_window_def signal_threshold_def platformSignalWindow_def second_def
      platformSignalAccounts_def)

lemma recent_again: "filter (\<lambda>e. time_sub now (pe_at e) < signal_window p) (recent_events p now v) = recent_events p now v"
  by (simp add: recent_events_def)

text \<open>
  A platform alert means several accounts.  When \<open>Observe\<close> takes in a transport rejection
  or a block, it raises the alert exactly when the distinct accounts rejected on that provider
  inside the window, this one included, reach the threshold, which is then what \<open>Alerting\<close>
  lists; every other class of release leaves the window as it is and raises nothing.
\<close>

theorem platform_alert_exact:
  assumes "distinct (map fst (ps_events p))"
  shows "if rel_ErrorClass r = ErrorForbiddenTransport \<or> rel_ErrorClass r = ErrorBlocked
     then (snd (Observe now r p) \<longleftrightarrow>
             signal_threshold p \<le> int (card (insert (rel_AccountID r)
               {pe_accountID e |e. e \<in> set (recent_events p now (rel_Provider r))})))
        \<and> (snd (Observe now r p) \<longleftrightarrow> rel_Provider r \<in> set (Alerting now (fst (Observe now r p))))
     else Observe now r p = (p, False)"
proof (cases "rel_ErrorClass r = ErrorForbiddenTransport \<or> rel_ErrorClass r = ErrorBlocked")
  case True
  define new where "new = \<lparr>pe_at = now, pe_accountID = rel_AccountID r, pe_class = rel_ErrorClass r\<rparr>"
  define kept where "kept = recent_events p now (rel_Provider r) @ [new]"
  define q where "q = p\<lparr>ps_events := AList.update (rel_Provider r) kept (ps_events p)\<rparr>"
  have obs: "Observe now r p = (q, distinct_accounts kept \<ge> signal_threshold p)"
    using True by (auto simp: Observe_def Let_def q_def kept_def new_def)
  have "pe_accountID ` set kept = insert (rel_AccountID r)
      {pe_accountID e |e. e \<in> set (recent_events p now (rel_Provider r))}"
    by (auto simp: kept_def new_def)
  then have a: "distinct_accounts kept = int (card (insert (rel_AccountID r)
      {pe_accountID e |e. e \<in> set (recent_events p now (rel_Provider r))}))"
    by (simp add: distinct_accounts_card)
  have w: "signal_window q = signal_window p" "signal_threshold q = signal_threshold p"
    by (simp_all add: q_def signal_window_def signal_threshold_def)
  have "time_sub now now < signal_window p"
    using signal_window_pos[of p] by (simp add: time_sub_def clamp64_def max_int64_def min_int64_def)
  then have fk: "filter (\<lambda>e. time_sub now (pe_at e) < signal_window p) kept = kept"
    by (simp add: kept_def recent_again new_def)
  have dist: "distinct (map fst (ps_events q))"
    using assms by (simp add: q_def distinct_update)
  have "map_of (ps_events q) (rel_Provider r) = Some kept" by (simp add: q_def gomap_simps)
  then have only: "(rel_Provider r, es) \<in> set (ps_events q) \<longleftrightarrow> es = kept" for es
    using map_of_eq_Some_iff[OF dist, of "rel_Provider r" es] by auto
  have "rel_Provider r \<in> set (Alerting now q) \<longleftrightarrow>
      (\<exists>es. (rel_Provider r, es) \<in> set (ps_events q) \<and> signal_threshold p \<le>
        distinct_accounts (filter (\<lambda>e. time_sub now (pe_at e) < signal_window p) es))"
    by (force simp: Alerting_def w)
  also have "\<dots> \<longleftrightarrow> distinct_accounts kept \<ge> signal_threshold p"
    unfolding only using fk by simp
  finally show ?thesis using True obs a by simp
next
  case False
  then show ?thesis by (simp add: Observe_def Let_def)
qed

theorem platform_alert_exact_witness:
  "snd (Observe 2000 (sample_release ''a2'' ''k2'' ErrorBlocked 2000)
     (fst (Observe 1000 (sample_release ''a1'' ''k1'' ErrorForbiddenTransport 1000) NewPlatformSignals)))"
proof -
  let ?p = "fst (Observe 1000 (sample_release ''a1'' ''k1'' ErrorForbiddenTransport 1000) NewPlatformSignals)"
  let ?r = "sample_release ''a2'' ''k2'' ErrorBlocked 2000"
  have d: "distinct (map fst (ps_events ?p))" by code_simp
  have c: "rel_ErrorClass ?r = ErrorBlocked" by (simp add: sample_release_def)
  have "rel_Provider ?r \<in> set (Alerting 2000 (fst (Observe 2000 ?r ?p)))" by code_simp
  moreover have "snd (Observe 2000 ?r ?p) \<longleftrightarrow> rel_Provider ?r \<in> set (Alerting 2000 (fst (Observe 2000 ?r ?p)))"
    using platform_alert_exact[OF d, of ?r 2000] unfolding c simp_thms if_True by (rule conjunct2)
  ultimately show ?thesis by blast
qed

lemma first_to_thaw_None: "first_to_thaw t = None \<longleftrightarrow> t = []"
  by (cases t rule: first_to_thaw.cases) (auto split: option.splits if_splits)

lemma first_to_thaw_Some:
  "first_to_thaw t = Some (k, a) \<Longrightarrow>
     (k, a) \<in> set t \<and> (\<forall>(k', a') \<in> set t. the (ah_cooldown_until a) \<le> the (ah_cooldown_until a'))"
proof (induction t arbitrary: k a rule: first_to_thaw.induct)
  case 1
  then show ?case by simp
next
  case (2 k0 a0 t)
  show ?case
  proof (cases "first_to_thaw t")
    case None
    with 2 show ?thesis by (simp add: first_to_thaw_None)
  next
    case (Some v)
    then obtain k1 a1 where v: "first_to_thaw t = Some (k1, a1)" by (cases v) auto
    from "2.IH"[OF v] have m: "(k1, a1) \<in> set t"
      "\<And>k' a'. (k', a') \<in> set t \<Longrightarrow> the (ah_cooldown_until a1) \<le> the (ah_cooldown_until a')" by auto
    from "2.prems" v m show ?thesis by (fastforce split: if_splits dest: m(2))
  qed
qed

definition thawed :: "account_row \<Rightarrow> account_row" where
  "thawed a = a\<lparr>ah_cooldown_until := None, ah_consecutive_failures := 0\<rparr>"

text \<open>The account the statement picks on a platform.\<close>

definition victim :: "time \<Rightarrow> string \<Rightarrow> account_table \<Rightarrow> (string \<times> account_row) option" where
  "victim now platform t = first_to_thaw (cooling_rows now platform t)"

lemma victim_row:
  assumes "victim now p t = Some (k, a)"
  shows "(k, a) \<in> set t" "active_on p a" "cooling_at now a"
    "\<And>k' a'. (k', a') \<in> set t \<Longrightarrow> active_on p a' \<Longrightarrow> cooling_at now a' \<Longrightarrow>
       the (ah_cooldown_until a) \<le> the (ah_cooldown_until a')"
  using first_to_thaw_Some[OF assms[unfolded victim_def]]
  by (fastforce simp: cooling_rows_def)+

lemma starved_victim: "starved now p t \<Longrightarrow> \<exists>k a. victim now p t = Some (k, a)"
  using first_to_thaw_None[of "cooling_rows now p t"]
  by (cases "victim now p t") (auto simp: starved_def victim_def)

lemma fold_release:
  assumes "distinct (map fst t)" "distinct ps"
  shows "map_of (fold (release_platform now t) ps u) k =
    (case map_of t k of
       None \<Rightarrow> map_of u k
     | Some a \<Rightarrow> if (\<exists>p \<in> set ps. victim now p t = Some (k, a)) then Some (thawed a) else map_of u k)"
  using assms(2)
proof (induction ps arbitrary: u)
  case Nil
  then show ?case by (simp split: option.splits)
next
  case (Cons p ps)
  have key: "victim now q t = Some (k, b) \<Longrightarrow> map_of t k = Some b" for q b
    using victim_row(1) map_of_eq_Some_iff[OF assms(1)] by blast
  define u' where "u' = release_platform now t p u"
  have hit: "map_of u' k = Some (thawed a)" if "victim now p t = Some (k, a)" for a
    using that by (simp add: u'_def release_platform_def victim_def[symmetric] thawed_def gomap_simps)
  have miss: "map_of u' k = map_of u k" if "\<And>a. victim now p t \<noteq> Some (k, a)"
    using that by (auto simp: u'_def release_platform_def victim_def[symmetric] gomap_simps
        split: option.splits)
  have IH: "map_of (fold (release_platform now t) (p # ps) u) k = (case map_of t k of
       None \<Rightarrow> map_of u' k
     | Some a \<Rightarrow> if (\<exists>p \<in> set ps. victim now p t = Some (k, a)) then Some (thawed a) else map_of u' k)"
    using Cons.IH[of u'] Cons.prems by (simp add: u'_def)
  show ?case
  proof (cases "\<exists>a. victim now p t = Some (k, a)")
    case True
    then obtain a where "victim now p t = Some (k, a)" by blast
    with key[of p a] hit IH show ?thesis by simp
  next
    case False
    then have "map_of u' k = map_of u k" by (intro miss) blast
    with IH False show ?thesis by (simp split: option.splits)
  qed
qed

lemma starved_platforms_set: "set (starved_platforms now t) = {p. starved now p t}"
proof -
  have "p \<in> ah_platform ` snd ` set t" if s: "starved now p t" for p
  proof -
    obtain k a where v: "victim now p t = Some (k, a)" using starved_victim[OF s] by blast
    from victim_row(1,2)[OF v] show ?thesis by (force simp: active_on_def)
  qed
  then show ?thesis by (auto simp: starved_platforms_def)
qed

text \<open>
  C33.  A starved platform gets exactly one account back, and nothing else changes.
  \<open>ReleaseStarvedCooldowns\<close> reports the platforms on which more than half of the active accounts
  cool, each once; for each there is one active cooling account of the platform, one whose cooldown
  ends first, whose cooldown and failure count it lifts, and every row of the table but these
  stays as it was, the other rows of the starved platforms included.
\<close>

theorem starved_platform_gets_one_account_back:
  assumes "distinct (map fst t)" and "ReleaseStarvedCooldowns now0 t = (t', ps)"
  shows "set ps = {p. starved (pg_time now0) p t} \<and> distinct ps \<and>
    (\<exists>freed. (\<forall>p \<in> set ps. \<exists>a. map_of t (freed p) = Some a \<and> active_on p a \<and> cooling_at (pg_time now0) a
        \<and> (\<forall>k' a'. map_of t k' = Some a' \<and> active_on p a' \<and> cooling_at (pg_time now0) a' \<longrightarrow>
              the (ah_cooldown_until a) \<le> the (ah_cooldown_until a'))
        \<and> map_of t' (freed p) = Some (a\<lparr>ah_cooldown_until := None, ah_consecutive_failures := 0\<rparr>)) \<and>
      (\<forall>k. k \<notin> freed ` set ps \<longrightarrow> map_of t' k = map_of t k))"
proof -
  define now where "now = pg_time now0"
  from assms(2) have ps: "ps = starved_platforms now t"
    and t': "t' = fold (release_platform now t) ps t"
    by (auto simp: ReleaseStarvedCooldowns_def Let_def now_def)
  have dps: "distinct ps" by (simp add: ps starved_platforms_def)
  note look = fold_release[OF assms(1) dps, where u = t and now = now, folded t']
  note memb = map_of_eq_Some_iff[OF assms(1)]
  define freed where "freed p = fst (the (victim now p t))" for p
  have victims: "\<exists>a. map_of t (freed p) = Some a \<and> active_on p a \<and> cooling_at now a
      \<and> (\<forall>k' a'. map_of t k' = Some a' \<and> active_on p a' \<and> cooling_at now a' \<longrightarrow>
            the (ah_cooldown_until a) \<le> the (ah_cooldown_until a'))
      \<and> map_of t' (freed p) = Some (thawed a)" if p: "p \<in> set ps" for p
  proof -
    from p obtain k a where v: "victim now p t = Some (k, a)"
      using starved_victim[of now p t] by (auto simp: ps starved_platforms_set)
    then have k: "freed p = k" by (simp add: freed_def)
    note r = victim_row[OF v]
    have m: "map_of t k = Some a" using r(1) memb by blast
    have least: "the (ah_cooldown_until a) \<le> the (ah_cooldown_until a')"
      if "map_of t k' = Some a'" "active_on p a'" "cooling_at now a'" for k' a'
      using r(4)[OF map_of_SomeD[OF that(1)] that(2,3)] .
    have "map_of t' k = Some (thawed a)" using look[of k] m v p by auto
    with m r(2,3) least show ?thesis unfolding k by blast
  qed
  have others: "map_of t' k = map_of t k" if "k \<notin> freed ` set ps" for k
  proof (cases "map_of t k")
    case (Some a)
    have "victim now p t \<noteq> Some (k, a)" if "p \<in> set ps" for p
      using \<open>k \<notin> freed ` set ps\<close> that by (force simp: freed_def)
    then show ?thesis using look[of k] Some by simp
  qed (use look[of k] in simp)
  have "set ps = {p. starved now p t}" by (simp add: ps starved_platforms_set)
  then show ?thesis using dps victims others unfolding now_def[symmetric] thawed_def by blast
qed

theorem starved_platform_gets_one_account_back_witness:
  "set (snd (ReleaseStarvedCooldowns 0
     [(''k1'', sample_row ''p'' (Some 9000)), (''k2'', sample_row ''p'' (Some 5000)),
      (''k3'', sample_row ''q'' (Some 5000)), (''k4'', sample_row ''q'' None)])) =
   {p. starved (pg_time 0) p
     [(''k1'', sample_row ''p'' (Some 9000)), (''k2'', sample_row ''p'' (Some 5000)),
      (''k3'', sample_row ''q'' (Some 5000)), (''k4'', sample_row ''q'' None)]}"
proof -
  let ?t = "[(''k1'', sample_row ''p'' (Some 9000)), (''k2'', sample_row ''p'' (Some 5000)),
      (''k3'', sample_row ''q'' (Some 5000)), (''k4'', sample_row ''q'' None)]"
  have "distinct (map fst ?t)" by simp
  from starved_platform_gets_one_account_back[OF this surjective_pairing] show ?thesis by blast
qed

end
