(* ===== verification/Ledger.thy ===== *)
theory Ledger
  imports Health
begin

text \<open>
  \<^verbatim>\<open>internal/control/ledger.go\<close> and \<^verbatim>\<open>internal/control/state.go\<close>: attempts and the usage ledger.
  The tables \<^verbatim>\<open>request_attempts\<close>, \<^verbatim>\<open>usage_ledger\<close> and \<^verbatim>\<open>accounts\<close> are one state; a statement
  is a function on it and a transaction that fails leaves it as it was.  \<open>fault\<close> says that the
  server or the connection fails the transaction.  \<open>MemoryLedger\<close> is the model the
  repository keeps for its tests.  The lemmas show that every attempt is metered once, that a
  redelivered event changes nothing, that expired attempts are closed, and that both ledgers
  implement one specification, stated as a locale.
\<close>

section \<open>Tables\<close>

abbreviation AttemptOpen :: string where "AttemptOpen \<equiv> ''open''"
abbreviation AttemptTerminal :: string where "AttemptTerminal \<equiv> ''terminal''"
abbreviation AttemptReconciled :: string where "AttemptReconciled \<equiv> ''reconciled''"

record attempt_row =
  ra_request_id :: string
  ra_started_at :: time
  ra_deadline_at :: time
  ra_terminal_event_id :: "string option"
  ra_state :: string
  ra_reconciled_at :: "time option"
  ra_account_id :: string
  ra_provider :: string
  ra_model :: string
  ra_tenant_id :: string

record ledger_row =
  ul_id :: int
  ul_event_id :: string
  ul_attempt_id :: string
  ul_request_id :: string
  ul_tenant_id :: string
  ul_account_id :: string
  ul_provider :: string
  ul_model :: string
  ul_status_code :: int
  ul_error_class :: string
  ul_tokens_in :: int
  ul_tokens_out :: int
  ul_cache_read_tokens :: int
  ul_cache_write_tokens :: int
  ul_usage_source :: string
  ul_partial :: bool
  ul_occurred_at :: time
  ul_billing_state :: string
  ul_billed_amount :: "rat option"
  ul_billing_run_id :: "string option"

text \<open>\<open>ld_seq\<close> is the value the \<^verbatim>\<open>BIGSERIAL\<close> column hands out next.\<close>

record ledger_db =
  ld_attempts :: "(string, attempt_row) gomap"
  ld_usage :: "ledger_row list"
  ld_seq :: int
  ld_accounts :: account_table

section \<open>Operations\<close>

definition HandleAttemptStarted :: "bool \<Rightarrow> AttemptStarted \<Rightarrow> ledger_db \<Rightarrow> db_error + ledger_db" where
  "HandleAttemptStarted fault e db =
     (if fault then Inl DBFault
      else case map_of (ld_attempts db) (as_AttemptID e) of
        Some _ \<Rightarrow> Inr db
      | None \<Rightarrow> Inr (db\<lparr>ld_attempts := AList.update (as_AttemptID e)
          \<lparr>ra_request_id = as_RequestID e, ra_started_at = pg_time (as_OccurredAt e),
           ra_deadline_at = pg_time (as_DeadlineAt e), ra_terminal_event_id = None,
           ra_state = AttemptOpen, ra_reconciled_at = None, ra_account_id = as_AccountID e,
           ra_provider = as_Provider e, ra_model = as_Model e, ra_tenant_id = as_TenantID e\<rparr>
          (ld_attempts db)\<rparr>))"

definition conflicts :: "string \<Rightarrow> string \<Rightarrow> ledger_row list \<Rightarrow> bool" where
  "conflicts event attempt rows \<longleftrightarrow>
     list_ex (\<lambda>u. ul_event_id u = event \<or> ul_attempt_id u = attempt) rows"

definition release_row :: "int \<Rightarrow> Release \<Rightarrow> ledger_row" where
  "release_row i r = \<lparr>ul_id = i, ul_event_id = rel_EventID r, ul_attempt_id = rel_AttemptID r,
     ul_request_id = rel_RequestID r, ul_tenant_id = rel_TenantID r, ul_account_id = rel_AccountID r,
     ul_provider = rel_Provider r, ul_model = rel_Model r, ul_status_code = rel_StatusCode r,
     ul_error_class = rel_ErrorClass r, ul_tokens_in = rel_TokensIn r,
     ul_tokens_out = rel_TokensOut r, ul_cache_read_tokens = rel_CacheReadTokens r,
     ul_cache_write_tokens = rel_CacheWriteTokens r, ul_usage_source = rel_UsageSource r,
     ul_partial = rel_Partial r, ul_occurred_at = pg_time (rel_OccurredAt r),
     ul_billing_state = ''pending'', ul_billed_amount = None, ul_billing_run_id = None\<rparr>"

text \<open>\<^verbatim>\<open>INSERT INTO usage_ledger ... ON CONFLICT DO NOTHING\<close>, and whether it added a row.\<close>

definition insert_usage :: "Release \<Rightarrow> ledger_db \<Rightarrow> db_error + (ledger_db \<times> bool)" where
  "insert_usage r db =
     (if \<not> list_all int4 [rel_StatusCode r, rel_TokensIn r, rel_TokensOut r,
           rel_CacheReadTokens r, rel_CacheWriteTokens r] then Inl IntegerOutOfRange
      else if conflicts (rel_EventID r) (rel_AttemptID r) (ld_usage db)
      then Inr (db\<lparr>ld_seq := ld_seq db + 1\<rparr>, False)
      else Inr (db\<lparr>ld_usage := ld_usage db @ [release_row (ld_seq db) r], ld_seq := ld_seq db + 1\<rparr>, True))"

text \<open>The \<^verbatim>\<open>UNIQUE\<close> constraint on \<^verbatim>\<open>terminal_event_id\<close>.\<close>

definition set_attempt :: "string \<Rightarrow> attempt_row \<Rightarrow> ledger_db \<Rightarrow> db_error + ledger_db" where
  "set_attempt k a db =
     (if ra_terminal_event_id a \<noteq> None
         \<and> list_ex (\<lambda>(k', b). k' \<noteq> k \<and> ra_terminal_event_id b = ra_terminal_event_id a) (ld_attempts db)
      then Inl UniqueViolation
      else Inr (db\<lparr>ld_attempts := AList.update k a (ld_attempts db)\<rparr>))"

definition close_attempt :: "Release \<Rightarrow> attempt_row \<Rightarrow> attempt_row" where
  "close_attempt r a = a\<lparr>
     ra_terminal_event_id := (case ra_terminal_event_id a of None \<Rightarrow> Some (rel_EventID r) | Some e \<Rightarrow> Some e),
     ra_state := (if ra_state a = AttemptReconciled then ra_state a else AttemptTerminal)\<rparr>"

text \<open>The second result says that the release was the first for its event and its attempt.\<close>

definition HandleRelease :: "bool \<Rightarrow> Release \<Rightarrow> ledger_db \<Rightarrow> db_error + (ledger_db \<times> bool)" where
  "HandleRelease fault r db =
     (if fault then Inl DBFault
      else case map_of (ld_attempts db) (rel_AttemptID r) of
        None \<Rightarrow> Inl (AttemptNotPersisted (rel_AttemptID r))
      | Some a \<Rightarrow>
          (case insert_usage r db of
             Inl e \<Rightarrow> Inl e
           | Inr (db1, fresh) \<Rightarrow>
               (case set_attempt (rel_AttemptID r) (close_attempt r a) db1 of
                  Inl e \<Rightarrow> Inl e
                | Inr db2 \<Rightarrow>
                    if fresh then
                      (case applyReleaseAuthority r (ld_accounts db2) of
                         Inl e \<Rightarrow> Inl e
                       | Inr accounts \<Rightarrow> Inr (db2\<lparr>ld_accounts := accounts\<rparr>, True))
                    else Inr (db2, False))))"

text \<open>What follows the commit: the platform signals and the request-detail sink.\<close>

record ledger_service =
  sv_db :: ledger_db
  sv_signals :: PlatformSignals
  sv_detail :: "Release list"

definition Ledger_HandleRelease :: "bool \<Rightarrow> time \<Rightarrow> Release \<Rightarrow> ledger_service \<Rightarrow> ledger_service \<times> db_error option" where
  "Ledger_HandleRelease fault now r s =
     (case HandleRelease fault r (sv_db s) of
        Inl e \<Rightarrow> (s, Some e)
      | Inr (db, fresh) \<Rightarrow>
          (s\<lparr>sv_db := db,
             sv_signals := (if fresh then fst (Observe now r (sv_signals s)) else sv_signals s),
             sv_detail := sv_detail s @ [r]\<rparr>, None))"

definition synthetic_release ::
  "(string \<Rightarrow> string) \<Rightarrow> time \<Rightarrow> string \<Rightarrow> attempt_row \<Rightarrow> Release" where
  "synthetic_release sha256_hex now attempt a =
     \<lparr>rel_SchemaVersion = SchemaVersion, rel_EventID = TerminalEventID sha256_hex attempt,
      rel_RequestID = ra_request_id a, rel_AttemptID = attempt, rel_AttemptNo = 0,
      rel_ProducerID = ''control-reconciler'', rel_OccurredAt = now, rel_AccountID = ra_account_id a,
      rel_Provider = ra_provider a, rel_StatusCode = 504, rel_LatencyMS = 0, rel_TokensIn = 0,
      rel_TokensOut = 0, rel_CacheReadTokens = 0, rel_CacheWriteTokens = 0, rel_Model = ra_model a,
      rel_TenantID = ra_tenant_id a, rel_ErrorClass = ErrorNetwork,
      rel_UsageSource = UsageSourceMissing, rel_Partial = True, rel_InboundProtocol = ''''\<rparr>"

text \<open>\<open>locked\<close>: the attempts another transaction holds, which \<^verbatim>\<open>SKIP LOCKED\<close> leaves out.\<close>

definition expired_attempts :: "string list \<Rightarrow> time \<Rightarrow> ledger_db \<Rightarrow> (string \<times> attempt_row) list" where
  "expired_attempts locked before db =
     filter (\<lambda>(k, a). ra_state a = AttemptOpen \<and> ra_deadline_at a < pg_time before \<and> k \<notin> set locked)
       (ld_attempts db)"

definition recover_one ::
  "(string \<Rightarrow> string) \<Rightarrow> time \<Rightarrow> string \<times> attempt_row \<Rightarrow> ledger_db \<Rightarrow> db_error + ledger_db" where
  "recover_one sha256_hex now = (\<lambda>(k, a) db.
     (case insert_usage (synthetic_release sha256_hex now k a) db of
        Inl e \<Rightarrow> Inl e
      | Inr (db1, _) \<Rightarrow>
          set_attempt k (a\<lparr>ra_terminal_event_id := Some (TerminalEventID sha256_hex k),
            ra_state := AttemptReconciled, ra_reconciled_at := Some (pg_time now)\<rparr>) db1))"

fun recover_all ::
  "(string \<Rightarrow> string) \<Rightarrow> time \<Rightarrow> (string \<times> attempt_row) list \<Rightarrow> ledger_db \<Rightarrow> db_error + ledger_db" where
  "recover_all sha256_hex now [] db = Inr db"
| "recover_all sha256_hex now (c # cs) db =
     (case recover_one sha256_hex now c db of
        Inl e \<Rightarrow> Inl e
      | Inr db' \<Rightarrow> recover_all sha256_hex now cs db')"

definition RecoverAttempts ::
  "(string \<Rightarrow> string) \<Rightarrow> bool \<Rightarrow> string list \<Rightarrow> time \<Rightarrow> time \<Rightarrow> ledger_db \<Rightarrow> db_error + (ledger_db \<times> nat)" where
  "RecoverAttempts sha256_hex fault locked now before db =
     (let candidates = expired_attempts locked before db in
      if fault then Inl DBFault
      else case recover_all sha256_hex now candidates db of
        Inl e \<Rightarrow> Inl e
      | Inr db' \<Rightarrow> Inr (db', length candidates))"

section \<open>The memory ledger\<close>

record AttemptRecord =
  ar_Started :: AttemptStarted
  ar_State :: string
  ar_Release :: "Release option"

record MemoryLedger =
  ml_attempts :: "(string, AttemptRecord) gomap"
  ml_events :: "string list"

definition NewMemoryLedger :: MemoryLedger where
  "NewMemoryLedger = \<lparr>ml_attempts = [], ml_events = []\<rparr>"

definition ApplyAttemptStarted :: "AttemptStarted \<Rightarrow> MemoryLedger \<Rightarrow> MemoryLedger \<times> bool" where
  "ApplyAttemptStarted e m =
     (case map_of (ml_attempts m) (as_AttemptID e) of
        Some _ \<Rightarrow> (m, False)
      | None \<Rightarrow> (m\<lparr>ml_attempts := AList.update (as_AttemptID e)
            \<lparr>ar_Started = e, ar_State = AttemptOpen, ar_Release = None\<rparr> (ml_attempts m)\<rparr>, True))"

definition ApplyRelease :: "Release \<Rightarrow> MemoryLedger \<Rightarrow> MemoryLedger \<times> bool" where
  "ApplyRelease r m =
     (if rel_EventID r \<in> set (ml_events m) then (m, False)
      else case map_of (ml_attempts m) (rel_AttemptID r) of
        None \<Rightarrow> (m\<lparr>ml_events := rel_EventID r # ml_events m\<rparr>, True)
      | Some a \<Rightarrow>
          if ar_Release a \<noteq> None then (m, False)
          else (m\<lparr>ml_attempts := AList.update (rel_AttemptID r)
                    (a\<lparr>ar_Release := Some r, ar_State := AttemptTerminal\<rparr>) (ml_attempts m),
                  ml_events := rel_EventID r # ml_events m\<rparr>, True))"

definition expired_release :: "(string \<Rightarrow> string) \<Rightarrow> time \<Rightarrow> AttemptStarted \<Rightarrow> Release" where
  "expired_release sha256_hex now e =
     \<lparr>rel_SchemaVersion = SchemaVersion, rel_EventID = TerminalEventID sha256_hex (as_AttemptID e),
      rel_RequestID = as_RequestID e, rel_AttemptID = as_AttemptID e, rel_AttemptNo = as_AttemptNo e,
      rel_ProducerID = ''control-reconciler'', rel_OccurredAt = now, rel_AccountID = as_AccountID e,
      rel_Provider = as_Provider e, rel_StatusCode = 504, rel_LatencyMS = 0, rel_TokensIn = 0,
      rel_TokensOut = 0, rel_CacheReadTokens = 0, rel_CacheWriteTokens = 0, rel_Model = as_Model e,
      rel_TenantID = as_TenantID e, rel_ErrorClass = ErrorNetwork,
      rel_UsageSource = UsageSourceMissing, rel_Partial = True, rel_InboundProtocol = ''''\<rparr>"

definition recover_record ::
  "(string \<Rightarrow> string) \<Rightarrow> time \<Rightarrow> string \<times> AttemptRecord \<Rightarrow> MemoryLedger \<times> Release list \<Rightarrow> MemoryLedger \<times> Release list"
where
  "recover_record sha256_hex now = (\<lambda>(k, a) (m, out).
     if ar_State a \<noteq> AttemptOpen \<or> \<not> as_DeadlineAt (ar_Started a) < now then (m, out)
     else let eventID = TerminalEventID sha256_hex (as_AttemptID (ar_Started a)) in
       if eventID \<in> set (ml_events m) then
         (m\<lparr>ml_attempts := AList.update k (a\<lparr>ar_State := AttemptReconciled\<rparr>) (ml_attempts m)\<rparr>, out)
       else let r = expired_release sha256_hex now (ar_Started a) in
         (m\<lparr>ml_attempts := AList.update k
              (a\<lparr>ar_Release := Some r, ar_State := AttemptReconciled\<rparr>) (ml_attempts m),
            ml_events := eventID # ml_events m\<rparr>, out @ [r]))"

definition RecoverExpired :: "(string \<Rightarrow> string) \<Rightarrow> time \<Rightarrow> MemoryLedger \<Rightarrow> MemoryLedger \<times> Release list" where
  "RecoverExpired sha256_hex now m = fold (recover_record sha256_hex now) (ml_attempts m) (m, [])"

section \<open>The ledger invariant\<close>

definition metered :: "string \<Rightarrow> ledger_row list \<Rightarrow> bool" where
  "metered k rows \<longleftrightarrow> (\<exists>u \<in> set rows. ul_attempt_id u = k)"

definition row_consistent :: "(string, attempt_row) gomap \<Rightarrow> ledger_row \<Rightarrow> bool" where
  "row_consistent m u \<longleftrightarrow>
     (\<exists>a. map_of m (ul_attempt_id u) = Some a \<and> ra_terminal_event_id a = Some (ul_event_id u))"

definition attempt_consistent :: "ledger_row list \<Rightarrow> string \<Rightarrow> attempt_row \<Rightarrow> bool" where
  "attempt_consistent rows k a \<longleftrightarrow>
     (if ra_state a = AttemptOpen then ra_terminal_event_id a = None
      else ra_state a \<in> {AttemptTerminal, AttemptReconciled} \<and> metered k rows)"

definition ledger_inv :: "ledger_db \<Rightarrow> bool" where
  "ledger_inv db \<longleftrightarrow>
     distinct (map fst (ld_attempts db)) \<and> distinct (map fst (ld_accounts db)) \<and>
     distinct (map ul_event_id (ld_usage db)) \<and> distinct (map ul_attempt_id (ld_usage db)) \<and>
     distinct (map ul_id (ld_usage db)) \<and>
     (\<forall>u \<in> set (ld_usage db). ul_id u < ld_seq db) \<and>
     (\<forall>u \<in> set (ld_usage db). row_consistent (ld_attempts db) u) \<and>
     (\<forall>k a. map_of (ld_attempts db) k = Some a \<longrightarrow> attempt_consistent (ld_usage db) k a)"

lemma ledger_inv_row:
  "ledger_inv db \<Longrightarrow> u \<in> set (ld_usage db) \<Longrightarrow>
     \<exists>a. map_of (ld_attempts db) (ul_attempt_id u) = Some a \<and> ra_terminal_event_id a = Some (ul_event_id u)"
  by (simp add: ledger_inv_def row_consistent_def)

lemma open_not_metered:
  assumes "ledger_inv db" "map_of (ld_attempts db) k = Some a" "ra_terminal_event_id a = None"
  shows "ra_state a = AttemptOpen \<and> \<not> metered k (ld_usage db)"
proof -
  have m: "\<not> metered k (ld_usage db)"
    using ledger_inv_row[OF assms(1)] assms(2,3) by (fastforce simp: metered_def)
  from assms(1,2) have "attempt_consistent (ld_usage db) k a" by (simp add: ledger_inv_def)
  with m show ?thesis by (auto simp: attempt_consistent_def split: if_splits)
qed

lemma closed_metered:
  assumes "ledger_inv db" "map_of (ld_attempts db) k = Some a" "ra_terminal_event_id a = Some e"
  shows "ra_state a \<in> {AttemptTerminal, AttemptReconciled} \<and> metered k (ld_usage db)"
proof -
  from assms(1,2) have "attempt_consistent (ld_usage db) k a" by (simp add: ledger_inv_def)
  with assms(3) show ?thesis by (auto simp: attempt_consistent_def split: if_splits)
qed

lemma set_attempt_Inr:
  "set_attempt k a db = Inr db' \<Longrightarrow> db' = db\<lparr>ld_attempts := AList.update k a (ld_attempts db)\<rparr>"
  by (simp add: set_attempt_def split: if_splits)

lemma set_attempt_unique:
  assumes "set_attempt k a db = Inr db'" "ra_terminal_event_id a = Some e"
    "map_of (ld_attempts db) k' = Some b" "ra_terminal_event_id b = Some e"
  shows "k' = k"
proof (rule ccontr)
  assume "k' \<noteq> k"
  moreover have "(k', b) \<in> set (ld_attempts db)" using assms(3) by (rule map_of_SomeD)
  ultimately have "list_ex (\<lambda>(k', b). k' \<noteq> k \<and> ra_terminal_event_id b = ra_terminal_event_id a) (ld_attempts db)"
    using assms(2,4) by (force simp: list_ex_iff)
  with assms(1,2) show False by (simp add: set_attempt_def)
qed

lemma insert_usage_Inr:
  assumes "insert_usage r db = Inr (db', fresh)"
  shows "fresh \<longleftrightarrow> \<not> conflicts (rel_EventID r) (rel_AttemptID r) (ld_usage db)"
    and "db' = db\<lparr>ld_usage := (if fresh then ld_usage db @ [release_row (ld_seq db) r] else ld_usage db),
      ld_seq := ld_seq db + 1\<rparr>"
  using assms by (auto simp: insert_usage_def split: if_splits)

text \<open>
  Closing an attempt: the row is added exactly when the attempt was open, and the constraint on
  \<^verbatim>\<open>terminal_event_id\<close> rules out that another attempt already used the event.
\<close>

lemma close_step:
  assumes inv: "ledger_inv db" and k: "k = rel_AttemptID r" and a: "map_of (ld_attempts db) k = Some a"
    and ins: "insert_usage r db = Inr (db1, fresh)" and set: "set_attempt k a' db1 = Inr db2"
    and tm: "ra_terminal_event_id a' =
      (case ra_terminal_event_id a of None \<Rightarrow> Some (rel_EventID r) | Some e \<Rightarrow> Some e)"
    and st: "ra_state a' \<in> {AttemptTerminal, AttemptReconciled}"
  shows "fresh \<longleftrightarrow> ra_terminal_event_id a = None" and "ledger_inv db2"
proof -
  note i = insert_usage_Inr[OF ins]
  have att: "ld_attempts db1 = ld_attempts db" using i(2) by simp
  have db2: "db2 = db1\<lparr>ld_attempts := AList.update k a' (ld_attempts db)\<rparr>"
    using set_attempt_Inr[OF set] att by simp
  have term_some: "\<exists>e. ra_terminal_event_id a' = Some e" using tm by (cases "ra_terminal_event_id a") auto
  show fresh: "fresh \<longleftrightarrow> ra_terminal_event_id a = None"
  proof (cases "ra_terminal_event_id a")
    case None
    have "\<not> (ul_event_id u = rel_EventID r \<or> ul_attempt_id u = rel_AttemptID r)" if u: "u \<in> set (ld_usage db)" for u
    proof -
      obtain b where b: "map_of (ld_attempts db) (ul_attempt_id u) = Some b"
        "ra_terminal_event_id b = Some (ul_event_id u)" using ledger_inv_row[OF inv u] by blast
      have "ul_attempt_id u \<noteq> k" using b a None by auto
      moreover have "ul_event_id u \<noteq> rel_EventID r"
        using set_attempt_unique[OF set, of "ul_event_id u" "ul_attempt_id u" b] b tm None
          \<open>ul_attempt_id u \<noteq> k\<close> att by auto
      ultimately show ?thesis using k by simp
    qed
    then show ?thesis using i(1) None by (auto simp: conflicts_def list_ex_iff)
  next
    case (Some e)
    with closed_metered[OF inv a] k show ?thesis
      using i(1) by (auto simp: conflicts_def list_ex_iff metered_def)
  qed
  have rows: "\<forall>u \<in> set (ld_usage db2). row_consistent (ld_attempts db2) u"
  proof
    fix u assume "u \<in> set (ld_usage db2)"
    then consider "u \<in> set (ld_usage db)" | "fresh" "u = release_row (ld_seq db) r"
      using i(2) db2 by (auto split: if_splits)
    then show "row_consistent (ld_attempts db2) u"
    proof cases
      case 1
      from ledger_inv_row[OF inv 1] show ?thesis
        using a tm db2 by (auto simp: row_consistent_def gomap_simps)
    next
      case 2
      with fresh tm k show ?thesis by (simp add: row_consistent_def db2 gomap_simps release_row_def)
    qed
  qed
  have met: "metered k' (ld_usage db) \<Longrightarrow> metered k' (ld_usage db2)" for k'
    using i(2) db2 by (auto simp: metered_def)
  have metk: "metered k (ld_usage db2)"
  proof (cases "ra_terminal_event_id a")
    case None
    then show ?thesis using fresh i(2) db2 k by (simp add: metered_def release_row_def)
  next
    case (Some e)
    then show ?thesis using met closed_metered[OF inv a] by blast
  qed
  have atts: "attempt_consistent (ld_usage db2) k' b" if "map_of (ld_attempts db2) k' = Some b" for k' b
  proof (cases "k' = k")
    case True
    then have "b = a'" using that by (simp add: db2 gomap_simps)
    with True st metk show ?thesis by (auto simp: attempt_consistent_def)
  next
    case False
    then have "map_of (ld_attempts db) k' = Some b" using that by (simp add: db2 gomap_simps)
    then have "attempt_consistent (ld_usage db) k' b" using inv by (simp add: ledger_inv_def)
    with met show ?thesis by (auto simp: attempt_consistent_def split: if_splits)
  qed
  have dis: "distinct (map ul_event_id (ld_usage db2)) \<and> distinct (map ul_attempt_id (ld_usage db2))
      \<and> distinct (map ul_id (ld_usage db2)) \<and> (\<forall>u \<in> set (ld_usage db2). ul_id u < ld_seq db2)"
    using inv i db2 by (fastforce simp: ledger_inv_def conflicts_def list_ex_iff release_row_def)
  show "ledger_inv db2"
    using inv rows atts dis i(2) by (simp add: ledger_inv_def db2 distinct_update)
qed

lemma HandleRelease_Inr:
  assumes "HandleRelease fault r db = Inr (db', fresh)"
  obtains a db1 db2 where "\<not> fault" "map_of (ld_attempts db) (rel_AttemptID r) = Some a"
    "insert_usage r db = Inr (db1, fresh)"
    "set_attempt (rel_AttemptID r) (close_attempt r a) db1 = Inr db2"
    "if fresh then \<exists>t. applyReleaseAuthority r (ld_accounts db2) = Inr t \<and> db' = db2\<lparr>ld_accounts := t\<rparr>
     else db' = db2"
  using assms by (auto simp: HandleRelease_def split: if_splits option.splits sum.splits prod.splits)

lemma close_attempt_shape:
  assumes "ledger_inv db" "map_of (ld_attempts db) k = Some a"
  shows "ra_terminal_event_id (close_attempt r a) =
      (case ra_terminal_event_id a of None \<Rightarrow> Some (rel_EventID r) | Some e \<Rightarrow> Some e)"
    and "ra_state (close_attempt r a) \<in> {AttemptTerminal, AttemptReconciled}"
  by (auto simp: close_attempt_def)

lemma HandleRelease_inv [keep_inv]:
  assumes inv: "ledger_inv db" and ok: "HandleRelease fault r db = Inr (db', fresh)"
  shows "ledger_inv db'"
proof -
  from ok obtain a db1 db2 where a: "map_of (ld_attempts db) (rel_AttemptID r) = Some a"
    and ins: "insert_usage r db = Inr (db1, fresh)"
    and set: "set_attempt (rel_AttemptID r) (close_attempt r a) db1 = Inr db2"
    and db': "if fresh then \<exists>t. applyReleaseAuthority r (ld_accounts db2) = Inr t \<and> db' = db2\<lparr>ld_accounts := t\<rparr>
     else db' = db2" by (rule HandleRelease_Inr)
  have "ledger_inv db2"
    by (rule close_step(2)[OF inv refl a ins set close_attempt_shape[OF inv a]])
  with db' show ?thesis
    by (auto simp: ledger_inv_def split: if_splits dest: applyReleaseAuthority_keys)
qed

lemma HandleAttemptStarted_inv [keep_inv]:
  assumes "ledger_inv db" "HandleAttemptStarted fault e db = Inr db'"
  shows "ledger_inv db'"
proof (cases "map_of (ld_attempts db) (as_AttemptID e)")
  case (Some a)
  with assms show ?thesis by (auto simp: HandleAttemptStarted_def split: if_splits)
next
  case None
  have "row_consistent (AList.update (as_AttemptID e) b (ld_attempts db)) u" if "u \<in> set (ld_usage db)" for u b
    using ledger_inv_row[OF assms(1) that] None by (auto simp: row_consistent_def gomap_simps)
  moreover obtain b where db': "db' = db\<lparr>ld_attempts := AList.update (as_AttemptID e) b (ld_attempts db)\<rparr>"
    and b: "attempt_consistent (ld_usage db) k b" for k
    using assms(2) None
    by (auto simp: HandleAttemptStarted_def attempt_consistent_def split: if_splits)
  moreover have "attempt_consistent (ld_usage db) k c" if "map_of (ld_attempts db') k = Some c" for k c
    using that assms(1) b by (auto simp: db' gomap_simps ledger_inv_def split: if_splits)
  ultimately show ?thesis using assms(1) by (simp add: ledger_inv_def distinct_update)
qed

section \<open>Recovery\<close>

definition recovered_row :: "(string \<Rightarrow> string) \<Rightarrow> time \<Rightarrow> string \<Rightarrow> attempt_row \<Rightarrow> attempt_row" where
  "recovered_row sha256_hex now k a = a\<lparr>ra_terminal_event_id := Some (TerminalEventID sha256_hex k),
     ra_state := AttemptReconciled, ra_reconciled_at := Some (pg_time now)\<rparr>"

lemma recover_one_step:
  assumes inv: "ledger_inv db" and a: "map_of (ld_attempts db) k = Some a"
    and op: "ra_state a = AttemptOpen" and ok: "recover_one sha now (k, a) db = Inr db'"
  shows "ledger_inv db'"
    and "db' = db\<lparr>ld_attempts := AList.update k (recovered_row sha now k a) (ld_attempts db),
      ld_usage := ld_usage db @ [release_row (ld_seq db) (synthetic_release sha now k a)],
      ld_seq := ld_seq db + 1\<rparr>"
proof -
  let ?r = "synthetic_release sha now k a"
  from ok obtain db1 fresh where ins: "insert_usage ?r db = Inr (db1, fresh)"
    and set: "set_attempt k (recovered_row sha now k a) db1 = Inr db'"
    by (auto simp: recover_one_def recovered_row_def split: sum.splits prod.splits)
  have none: "ra_terminal_event_id a = None"
  proof (rule ccontr)
    assume "ra_terminal_event_id a \<noteq> None"
    then obtain e where "ra_terminal_event_id a = Some e" by blast
    from closed_metered[OF inv a this] op show False by auto
  qed
  have k: "k = rel_AttemptID ?r" by (simp add: synthetic_release_def)
  have tm: "ra_terminal_event_id (recovered_row sha now k a) =
      (case ra_terminal_event_id a of None \<Rightarrow> Some (rel_EventID ?r) | Some e \<Rightarrow> Some e)"
    and st: "ra_state (recovered_row sha now k a) \<in> {AttemptTerminal, AttemptReconciled}"
    using none by (simp_all add: recovered_row_def synthetic_release_def)
  note s = close_step[OF inv k a ins set tm st]
  show "ledger_inv db'" by (rule s(2))
  show "db' = db\<lparr>ld_attempts := AList.update k (recovered_row sha now k a) (ld_attempts db),
      ld_usage := ld_usage db @ [release_row (ld_seq db) ?r], ld_seq := ld_seq db + 1\<rparr>"
    using set_attempt_Inr[OF set] insert_usage_Inr(2)[OF ins] s(1) none by simp
qed

definition open_candidates :: "(string \<times> attempt_row) list \<Rightarrow> ledger_db \<Rightarrow> bool" where
  "open_candidates cs db \<longleftrightarrow> distinct (map fst cs) \<and>
     (\<forall>(k, a) \<in> set cs. map_of (ld_attempts db) k = Some a \<and> ra_state a = AttemptOpen)"

lemma open_candidates_step:
  assumes "open_candidates ((k, a) # cs) db"
    "ld_attempts db' = AList.update k b (ld_attempts db)"
  shows "open_candidates cs db'"
  using assms by (force simp: open_candidates_def gomap_simps)

lemma recover_all_step:
  assumes "ledger_inv db" "open_candidates cs db" "recover_all sha now cs db = Inr db'"
  shows "ledger_inv db' \<and> ld_accounts db' = ld_accounts db \<and>
    map_of (ld_attempts db') = (\<lambda>k. case map_of cs k of
        Some a \<Rightarrow> Some (recovered_row sha now k a) | None \<Rightarrow> map_of (ld_attempts db) k) \<and>
    (\<exists>new. ld_usage db' = ld_usage db @ new \<and> length new = length cs \<and>
      (\<forall>u \<in> set new. \<exists>i k a. (k, a) \<in> set cs \<and> u = release_row i (synthetic_release sha now k a)))"
  using assms
proof (induction cs arbitrary: db)
  case Nil
  then show ?case by simp
next
  case (Cons c cs)
  obtain k a where c: "c = (k, a)" by (cases c)
  from Cons.prems(3) obtain db1 where one: "recover_one sha now (k, a) db = Inr db1"
    and rest: "recover_all sha now cs db1 = Inr db'" by (auto simp: c split: sum.splits)
  from Cons.prems(2) have a: "map_of (ld_attempts db) k = Some a" "ra_state a = AttemptOpen"
    and notin: "k \<notin> fst ` set cs" by (auto simp: open_candidates_def c)
  note s = recover_one_step[OF Cons.prems(1) a one]
  have oc: "open_candidates cs db1"
    by (rule open_candidates_step[OF Cons.prems(2)[unfolded c]]) (simp add: s(2))
  have "map_of cs k = None" using notin by (simp add: map_of_eq_None_iff)
  then have m: "(\<lambda>k'. case map_of cs k' of Some a \<Rightarrow> Some (recovered_row sha now k' a)
        | None \<Rightarrow> map_of (ld_attempts db1) k') =
      (\<lambda>k'. case map_of (c # cs) k' of Some a \<Rightarrow> Some (recovered_row sha now k' a)
        | None \<Rightarrow> map_of (ld_attempts db) k')"
    by (auto simp: c s(2) gomap_simps fun_eq_iff split: option.splits)
  from Cons.IH[OF s(1) oc rest] obtain new where IH: "ledger_inv db'" "ld_accounts db' = ld_accounts db1"
    "map_of (ld_attempts db') = (\<lambda>k'. case map_of cs k' of Some a \<Rightarrow> Some (recovered_row sha now k' a)
        | None \<Rightarrow> map_of (ld_attempts db1) k')"
    "ld_usage db' = ld_usage db1 @ new" "length new = length cs"
    "\<forall>u \<in> set new. \<exists>i k a. (k, a) \<in> set cs \<and> u = release_row i (synthetic_release sha now k a)"
    by blast
  have "\<exists>new. ld_usage db' = ld_usage db @ new \<and> length new = length (c # cs) \<and>
      (\<forall>u \<in> set new. \<exists>i k a. (k, a) \<in> set (c # cs) \<and> u = release_row i (synthetic_release sha now k a))"
  proof (rule exI[of _ "release_row (ld_seq db) (synthetic_release sha now k a) # new"], intro conjI ballI)
    let ?u = "release_row (ld_seq db) (synthetic_release sha now k a)"
    show "ld_usage db' = ld_usage db @ ?u # new" using IH(4) by (simp add: s(2))
    show "length (?u # new) = length (c # cs)" using IH(5) by simp
    fix u assume "u \<in> set (?u # new)"
    then show "\<exists>i k a. (k, a) \<in> set (c # cs) \<and> u = release_row i (synthetic_release sha now k a)"
      using IH(6) by (auto simp: c) blast+
  qed
  with IH(1-3) m show ?case by (simp add: s(2))
qed

lemma expired_open_candidates:
  assumes "ledger_inv db"
  shows "open_candidates (expired_attempts locked before db) db"
proof -
  have d: "distinct (map fst (ld_attempts db))" using assms by (simp add: ledger_inv_def)
  then show ?thesis
    by (auto simp: open_candidates_def expired_attempts_def distinct_filter_fst map_of_eq_Some_iff)
qed

lemma expired_map_of:
  assumes "ledger_inv db"
  shows "map_of (expired_attempts locked before db) k =
    (case map_of (ld_attempts db) k of None \<Rightarrow> None
     | Some a \<Rightarrow> if ra_state a = AttemptOpen \<and> ra_deadline_at a < pg_time before \<and> k \<notin> set locked
         then Some a else None)"
  using assms unfolding expired_attempts_def
  by (subst map_of_filter) (auto simp: ledger_inv_def split: option.splits)

lemma RecoverAttempts_Inr:
  assumes "RecoverAttempts sha fault locked now before db = Inr (db', n)"
  shows "recover_all sha now (expired_attempts locked before db) db = Inr db'"
    and "n = length (expired_attempts locked before db)"
  using assms by (auto simp: RecoverAttempts_def Let_def split: if_splits sum.splits)

lemma RecoverAttempts_inv [keep_inv]:
  assumes "ledger_inv db" "RecoverAttempts sha fault locked now before db = Inr (db', n)"
  shows "ledger_inv db'"
  using recover_all_step[OF assms(1) expired_open_candidates[OF assms(1)] RecoverAttempts_Inr(1)[OF assms(2)]]
  by blast

section \<open>Every history of the ledger\<close>

text \<open>
  Control's handlers, interleaved in any order and with any failure; a failed call leaves the
  tables as they were and so is no step.
\<close>

inductive ledger_step :: "(string \<Rightarrow> string) \<Rightarrow> ledger_db \<Rightarrow> ledger_db \<Rightarrow> bool" for sha where
  started: "HandleAttemptStarted fault e db = Inr db' \<Longrightarrow> ledger_step sha db db'"
| released: "HandleRelease fault r db = Inr (db', fresh) \<Longrightarrow> ledger_step sha db db'"
| recovered: "RecoverAttempts sha fault locked now before db = Inr (db', n) \<Longrightarrow> ledger_step sha db db'"

inductive ledger_reachable :: "(string \<Rightarrow> string) \<Rightarrow> ledger_db \<Rightarrow> bool" for sha where
  init: "distinct (map fst accounts) \<Longrightarrow>
    ledger_reachable sha \<lparr>ld_attempts = [], ld_usage = [], ld_seq = 1, ld_accounts = accounts\<rparr>"
| step: "ledger_reachable sha db \<Longrightarrow> ledger_step sha db db' \<Longrightarrow> ledger_reachable sha db'"

inductive_cases ledger_step_cases: "ledger_step sha db db'"

lemma ledger_reachable_inv: "ledger_reachable sha db \<Longrightarrow> ledger_inv db"
proof (induction rule: ledger_reachable.induct)
  case (init accounts)
  then show ?case by (simp add: ledger_inv_def)
next
  case (step db db')
  from step.hyps(2) step.IH show ?case by (elim ledger_step_cases) (auto intro: keep_inv)
qed

text \<open>
  C4.  Every attempt is metered exactly once.  Whatever order starts, releases, redeliveries and
  recoveries arrive in, an attempt has one ledger row when it is closed and none while it is
  open; the row's event is the attempt's terminal event, and no two rows share an event, an
  attempt or an ID.
\<close>

theorem attempt_metered_once:
  assumes "ledger_reachable sha db"
  shows "(\<forall>k a. map_of (ld_attempts db) k = Some a \<longrightarrow>
      (if ra_state a = AttemptOpen then \<forall>u \<in> set (ld_usage db). ul_attempt_id u \<noteq> k
       else \<exists>!u. u \<in> set (ld_usage db) \<and> ul_attempt_id u = k)) \<and>
    (\<forall>u \<in> set (ld_usage db). \<exists>a. map_of (ld_attempts db) (ul_attempt_id u) = Some a
       \<and> ra_terminal_event_id a = Some (ul_event_id u)) \<and>
    distinct (map ul_event_id (ld_usage db)) \<and> distinct (map ul_attempt_id (ld_usage db))
    \<and> distinct (map ul_id (ld_usage db))"
proof -
  have inv: "ledger_inv db" using assms by (rule ledger_reachable_inv)
  have one: "u = v" if "u \<in> set (ld_usage db)" "v \<in> set (ld_usage db)" "ul_attempt_id u = ul_attempt_id v" for u v
    using inv that by (auto simp: ledger_inv_def distinct_map dest: inj_onD)
  have "if ra_state a = AttemptOpen then \<forall>u \<in> set (ld_usage db). ul_attempt_id u \<noteq> k
       else \<exists>!u. u \<in> set (ld_usage db) \<and> ul_attempt_id u = k" if k: "map_of (ld_attempts db) k = Some a" for k a
  proof -
    have ac: "attempt_consistent (ld_usage db) k a" using inv k by (simp add: ledger_inv_def)
    show ?thesis
    proof (cases "ra_state a = AttemptOpen")
      case True
      with ac have "ra_terminal_event_id a = None" by (simp add: attempt_consistent_def)
      from open_not_metered[OF inv k this] True show ?thesis by (auto simp: metered_def)
    next
      case False
      with ac obtain u where "u \<in> set (ld_usage db)" "ul_attempt_id u = k"
        by (auto simp: attempt_consistent_def metered_def)
      with False one show ?thesis by auto
    qed
  qed
  with inv ledger_inv_row[OF inv] show ?thesis by (simp add: ledger_inv_def)
qed

definition sample_started :: "string \<Rightarrow> string \<Rightarrow> time \<Rightarrow> time \<Rightarrow> AttemptStarted" where
  "sample_started attempt account t deadline =
     \<lparr>as_SchemaVersion = 1, as_EventID = attempt @ '':started'', as_RequestID = ''req'',
      as_AttemptID = attempt, as_AttemptNo = 1, as_ProducerID = ''gw'', as_OccurredAt = t,
      as_AccountID = account, as_Provider = ''kiro'', as_Model = ''m'', as_TenantID = ''t1'',
      as_DeadlineAt = deadline\<rparr>"

definition empty_ledger :: "account_table \<Rightarrow> ledger_db" where
  "empty_ledger accounts = \<lparr>ld_attempts = [], ld_usage = [], ld_seq = 1, ld_accounts = accounts\<rparr>"

text \<open>One attempt released by the gateway, one left to expire.\<close>

definition sample_ledger :: ledger_db where
  "sample_ledger =
     projr (HandleAttemptStarted False (sample_started ''a2'' ''k'' 1000 5000)
       (fst (projr (HandleRelease False (sample_release ''a1'' ''k'' ErrorOK 3000)
         (projr (HandleAttemptStarted False (sample_started ''a1'' ''k'' 1000 5000)
            (empty_ledger [(''k'', sample_row ''p'' None)])))))))"

lemma sample_ledger_reachable: "ledger_reachable (\<lambda>s. s) sample_ledger"
proof -
  let ?d0 = "empty_ledger [(''k'', sample_row ''p'' None)]"
  let ?d1 = "projr (HandleAttemptStarted False (sample_started ''a1'' ''k'' 1000 5000) ?d0)"
  let ?r = "HandleRelease False (sample_release ''a1'' ''k'' ErrorOK 3000) ?d1"
  have "ledger_reachable (\<lambda>s. s) ?d0" unfolding empty_ledger_def by (rule ledger_reachable.init) simp
  moreover have "HandleAttemptStarted False (sample_started ''a1'' ''k'' 1000 5000) ?d0 = Inr ?d1" by code_simp
  moreover have "?r = Inr (fst (projr ?r), snd (projr ?r))" by code_simp
  moreover have "HandleAttemptStarted False (sample_started ''a2'' ''k'' 1000 5000) (fst (projr ?r)) = Inr sample_ledger"
    by code_simp
  ultimately show ?thesis by (meson ledger_reachable.step ledger_step.intros)
qed

theorem attempt_metered_once_witness:
  "map ul_attempt_id (ld_usage sample_ledger) = [''a1''] \<and> distinct (map ul_event_id (ld_usage sample_ledger))"
proof
  show "map ul_attempt_id (ld_usage sample_ledger) = [''a1'']" by code_simp
  show "distinct (map ul_event_id (ld_usage sample_ledger))"
    using attempt_metered_once[OF sample_ledger_reachable] by blast
qed

text \<open>
  The first terminal event of an attempt wins.  Once a release of an attempt is in, every
  further one for that attempt, the same event again or another, is taken in without an error
  and changes neither the ledger, nor the attempt, nor the account: usage is not metered twice
  and the account is not judged twice.
\<close>

theorem first_release_wins:
  assumes "ledger_reachable sha db" and "HandleRelease fault r db = Inr (db', fresh)"
    and "rel_AttemptID r' = rel_AttemptID r"
    and "list_all int4 [rel_StatusCode r', rel_TokensIn r', rel_TokensOut r',
           rel_CacheReadTokens r', rel_CacheWriteTokens r']"
  shows "\<exists>db''. HandleRelease False r' db' = Inr (db'', False) \<and> ld_usage db'' = ld_usage db' \<and>
    map_of (ld_attempts db'') = map_of (ld_attempts db') \<and> ld_accounts db'' = ld_accounts db'"
proof -
  have inv: "ledger_inv db" using assms(1) by (rule ledger_reachable_inv)
  have inv': "ledger_inv db'" using inv assms(2) by (rule HandleRelease_inv)
  from assms(2) obtain a db1 db2 where a: "map_of (ld_attempts db) (rel_AttemptID r) = Some a"
    and ins: "insert_usage r db = Inr (db1, fresh)"
    and set: "set_attempt (rel_AttemptID r) (close_attempt r a) db1 = Inr db2"
    and db': "if fresh then \<exists>t. applyReleaseAuthority r (ld_accounts db2) = Inr t \<and> db' = db2\<lparr>ld_accounts := t\<rparr>
     else db' = db2" by (rule HandleRelease_Inr)
  define b where "b = close_attempt r a"
  define k where "k = rel_AttemptID r"
  have b: "map_of (ld_attempts db') k = Some b"
    using db' set_attempt_Inr[OF set] by (auto simp: gomap_simps b_def k_def split: if_splits)
  obtain e where e: "ra_terminal_event_id b = Some e"
    by (cases "ra_terminal_event_id a") (auto simp: b_def close_attempt_def)
  note closed = closed_metered[OF inv' b e]
  have same: "close_attempt r' b = b" using e closed by (auto simp: close_attempt_def)
  have uniq: "\<not> list_ex (\<lambda>(k', c). k' \<noteq> k \<and> ra_terminal_event_id c = Some e) (ld_attempts db')"
  proof -
    have "ld_attempts db' = AList.update k b (ld_attempts db1)"
      using db' set_attempt_Inr[OF set] by (auto simp: b_def k_def split: if_splits)
    moreover have "\<not> list_ex (\<lambda>(k', c). k' \<noteq> k \<and> ra_terminal_event_id c = Some e) (ld_attempts db1)"
      using set e by (auto simp: set_attempt_def b_def[symmetric] k_def split: if_splits)
    ultimately show ?thesis by (auto simp: list_ex_iff dest!: set_update_subset[THEN subsetD])
  qed
  have "conflicts (rel_EventID r') k (ld_usage db')"
    using closed by (auto simp: conflicts_def list_ex_iff metered_def)
  then have ins': "insert_usage r' db' = Inr (db'\<lparr>ld_seq := ld_seq db' + 1\<rparr>, False)"
    using assms(3,4) by (simp add: insert_usage_def k_def)
  have "HandleRelease False r' db' =
      Inr (db'\<lparr>ld_seq := ld_seq db' + 1, ld_attempts := AList.update k b (ld_attempts db')\<rparr>, False)"
    using b e uniq same ins' assms(3)
    by (simp add: HandleRelease_def set_attempt_def k_def)
  moreover have "map_of (AList.update k b (ld_attempts db')) = map_of (ld_attempts db')"
    using b by (simp add: gomap_simps fun_upd_idem)
  ultimately show ?thesis by simp
qed

theorem first_release_wins_witness:
  "\<exists>db''. HandleRelease False (sample_release ''a2'' ''k'' ErrorBlocked 4000)
      (fst (projr (HandleRelease False (sample_release ''a2'' ''k'' ErrorOK 3000) sample_ledger)))
    = Inr (db'', False)"
proof -
  let ?r = "HandleRelease False (sample_release ''a2'' ''k'' ErrorOK 3000) sample_ledger"
  have "?r = Inr (fst (projr ?r), snd (projr ?r))" by code_simp
  moreover have "rel_AttemptID (sample_release ''a2'' ''k'' ErrorBlocked 4000) =
      rel_AttemptID (sample_release ''a2'' ''k'' ErrorOK 3000)" by (simp add: sample_release_def)
  ultimately show ?thesis
    using first_release_wins[OF sample_ledger_reachable, of False _ _ _ "sample_release ''a2'' ''k'' ErrorBlocked 4000"]
    by (fastforce simp: sample_release_def int4_def)
qed

lemma recover_one_succeeds:
  assumes "\<And>k' b. map_of (ld_attempts db) k' = Some b \<Longrightarrow> k' \<noteq> k \<Longrightarrow>
      ra_terminal_event_id b \<noteq> Some (TerminalEventID sha k)"
    and "distinct (map fst (ld_attempts db))"
  shows "\<exists>db'. recover_one sha now (k, a) db = Inr db'"
proof -
  have "\<not> list_ex (\<lambda>(k', b). k' \<noteq> k \<and> ra_terminal_event_id b = Some (TerminalEventID sha k)) (ld_attempts db)"
    using assms by (auto simp: list_ex_iff map_of_eq_Some_iff)
  then show ?thesis
    by (simp add: recover_one_def insert_usage_def synthetic_release_def int4_def set_attempt_def)
qed

text \<open>No attempt but \<open>k\<close> itself carries, or will be given, the terminal event of \<open>k\<close>.\<close>

definition own_terminal_ids :: "(string \<Rightarrow> string) \<Rightarrow> (string \<times> attempt_row) list \<Rightarrow> ledger_db \<Rightarrow> bool" where
  "own_terminal_ids sha cs db \<longleftrightarrow> inj_on (TerminalEventID sha) (fst ` set cs) \<and>
     (\<forall>k \<in> fst ` set cs. \<forall>k' b. map_of (ld_attempts db) k' = Some b \<and> k' \<noteq> k \<longrightarrow>
        ra_terminal_event_id b \<noteq> Some (TerminalEventID sha k))"

lemma recover_all_succeeds:
  assumes "ledger_inv db" "open_candidates cs db" "own_terminal_ids sha cs db"
  shows "\<exists>db'. recover_all sha now cs db = Inr db'"
  using assms
proof (induction cs arbitrary: db)
  case Nil
  then show ?case by simp
next
  case (Cons c cs)
  obtain k a where c: "c = (k, a)" by (cases c)
  from Cons.prems(2) have a: "map_of (ld_attempts db) k = Some a" "ra_state a = AttemptOpen"
    and notin: "k \<notin> fst ` set cs" by (auto simp: open_candidates_def c)
  have "\<exists>db1. recover_one sha now (k, a) db = Inr db1"
    by (rule recover_one_succeeds) (use Cons.prems in \<open>auto simp: own_terminal_ids_def c ledger_inv_def\<close>)
  then obtain db1 where one: "recover_one sha now (k, a) db = Inr db1" by blast
  note s = recover_one_step[OF Cons.prems(1) a one]
  have oc: "open_candidates cs db1"
    by (rule open_candidates_step[OF Cons.prems(2)[unfolded c]]) (simp add: s(2))
  have "TerminalEventID sha k \<noteq> TerminalEventID sha k'" if "k' \<in> fst ` set cs" for k'
    using Cons.prems(3) that notin by (auto simp: own_terminal_ids_def c inj_on_def)
  then have "own_terminal_ids sha cs db1"
    using Cons.prems(3) notin
    by (auto simp: own_terminal_ids_def c s(2) gomap_simps recovered_row_def)
  from Cons.IH[OF s(1) oc this] show ?case by (simp add: c one)
qed

text \<open>
  C29.  No attempt stays open past its deadline.  Where terminal events do not collide, recovery
  succeeds; afterwards every expired attempt that no other transaction held is reconciled and
  has a ledger row with status 504, \<open>network_error\<close>, missing usage and no tokens, every other
  attempt is as before, and the rows already in the ledger are untouched.
\<close>

theorem recovery_closes_expired:
  assumes "ledger_reachable sha db"
    and "own_terminal_ids sha (expired_attempts locked before db) db"
  shows "\<exists>db' n. RecoverAttempts sha False locked now before db = Inr (db', n) \<and>
    (\<forall>k a. map_of (ld_attempts db) k = Some a \<longrightarrow>
       (if ra_state a = AttemptOpen \<and> ra_deadline_at a < pg_time before \<and> k \<notin> set locked
        then (\<exists>b. map_of (ld_attempts db') k = Some b \<and> ra_state b = AttemptReconciled
                \<and> ra_terminal_event_id b = Some (TerminalEventID sha k)) \<and>
             (\<exists>u \<in> set (ld_usage db'). ul_attempt_id u = k \<and> ul_status_code u = 504
                \<and> ul_error_class u = ErrorNetwork \<and> ul_usage_source u = UsageSourceMissing
                \<and> ul_tokens_in u = 0 \<and> ul_tokens_out u = 0 \<and> ul_partial u)
        else map_of (ld_attempts db') k = Some a)) \<and>
    (\<exists>new. ld_usage db' = ld_usage db @ new \<and> length new = n) \<and> ld_accounts db' = ld_accounts db"
proof -
  have inv: "ledger_inv db" using assms(1) by (rule ledger_reachable_inv)
  let ?cs = "expired_attempts locked before db"
  note oc = expired_open_candidates[OF inv, of locked before]
  obtain db' where ok: "recover_all sha now ?cs db = Inr db'"
    using recover_all_succeeds[OF inv oc assms(2)] by blast
  from recover_all_step[OF inv oc ok] obtain new where inv': "ledger_inv db'"
    and acc: "ld_accounts db' = ld_accounts db"
    and att: "map_of (ld_attempts db') = (\<lambda>k. case map_of ?cs k of
        Some a \<Rightarrow> Some (recovered_row sha now k a) | None \<Rightarrow> map_of (ld_attempts db) k)"
    and new: "ld_usage db' = ld_usage db @ new" "length new = length ?cs"
      "\<forall>u \<in> set new. \<exists>i k a. (k, a) \<in> set ?cs \<and> u = release_row i (synthetic_release sha now k a)"
    by blast
  have row: "\<exists>u \<in> set (ld_usage db'). ul_attempt_id u = k \<and> ul_status_code u = 504
        \<and> ul_error_class u = ErrorNetwork \<and> ul_usage_source u = UsageSourceMissing
        \<and> ul_tokens_in u = 0 \<and> ul_tokens_out u = 0 \<and> ul_partial u" if k: "map_of ?cs k = Some a" for k a
  proof -
    have "map_of (ld_attempts db') k = Some (recovered_row sha now k a)" using att k by simp
    from closed_metered[OF inv' this] obtain u where u: "u \<in> set (ld_usage db')" "ul_attempt_id u = k"
      by (auto simp: recovered_row_def metered_def)
    have "map_of (ld_attempts db) k = Some a" "ra_state a = AttemptOpen"
      using oc map_of_SomeD[OF k] by (auto simp: open_candidates_def)
    then have "\<not> metered k (ld_usage db)"
      using open_not_metered[OF inv] inv by (auto simp: ledger_inv_def attempt_consistent_def split: if_splits)
    then have "u \<in> set new" using u new(1) by (auto simp: metered_def)
    with new(3) obtain i k' a' where "u = release_row i (synthetic_release sha now k' a')" by blast
    with u show ?thesis by (intro bexI[of _ u]) (auto simp: release_row_def synthetic_release_def)
  qed
  have "RecoverAttempts sha False locked now before db = Inr (db', length ?cs)"
    by (simp add: RecoverAttempts_def ok)
  moreover have "if ra_state a = AttemptOpen \<and> ra_deadline_at a < pg_time before \<and> k \<notin> set locked
        then (\<exists>b. map_of (ld_attempts db') k = Some b \<and> ra_state b = AttemptReconciled
                \<and> ra_terminal_event_id b = Some (TerminalEventID sha k)) \<and>
             (\<exists>u \<in> set (ld_usage db'). ul_attempt_id u = k \<and> ul_status_code u = 504
                \<and> ul_error_class u = ErrorNetwork \<and> ul_usage_source u = UsageSourceMissing
                \<and> ul_tokens_in u = 0 \<and> ul_tokens_out u = 0 \<and> ul_partial u)
        else map_of (ld_attempts db') k = Some a" if k: "map_of (ld_attempts db) k = Some a" for k a
    using att expired_map_of[OF inv, of locked before k] k row[of k a]
    by (simp add: recovered_row_def)
  ultimately show ?thesis using new(1,2) acc by blast
qed

theorem recovery_closes_expired_witness:
  "\<exists>db' n. RecoverAttempts (\<lambda>s. s) False [] 9000 9000 sample_ledger = Inr (db', n) \<and>
     (\<exists>b. map_of (ld_attempts db') ''a2'' = Some b \<and> ra_state b = AttemptReconciled)"
proof -
  let ?cs = "expired_attempts [] 9000 sample_ledger"
  obtain a where a: "map_of (ld_attempts sample_ledger) ''a2'' = Some a"
    "ra_state a = AttemptOpen \<and> ra_deadline_at a < pg_time 9000"
  proof
    show "map_of (ld_attempts sample_ledger) ''a2'' = Some (the (map_of (ld_attempts sample_ledger) ''a2''))"
      by code_simp
    show "ra_state (the (map_of (ld_attempts sample_ledger) ''a2'')) = AttemptOpen \<and>
        ra_deadline_at (the (map_of (ld_attempts sample_ledger) ''a2'')) < pg_time 9000" by code_simp
  qed
  have cs: "fst ` set ?cs = {''a2''}" by code_simp
  have "\<forall>(k, b) \<in> set (ld_attempts sample_ledger). k \<noteq> ''a2'' \<longrightarrow>
      ra_terminal_event_id b \<noteq> Some (TerminalEventID (\<lambda>s. s) ''a2'')" by code_simp
  then have "own_terminal_ids (\<lambda>s. s) ?cs sample_ledger"
    unfolding own_terminal_ids_def cs by (auto dest!: map_of_SomeD)
  from recovery_closes_expired[OF sample_ledger_reachable this, of 9000] a show ?thesis by fastforce
qed

section \<open>One specification, two ledgers\<close>

text \<open>
  What a ledger promises, without rows or records: per attempt its deadline, its state and its
  terminal event.
\<close>

datatype ledger_cmd = Started AttemptStarted | Released Release | Recover time

type_synonym ledger_view = "string \<rightharpoonup> time \<times> string \<times> string option"

fun spec_step :: "(string \<Rightarrow> string) \<Rightarrow> ledger_cmd \<Rightarrow> ledger_view \<Rightarrow> ledger_view" where
  "spec_step sha (Started e) v =
     (if v (as_AttemptID e) = None then v(as_AttemptID e \<mapsto> (as_DeadlineAt e, AttemptOpen, None)) else v)"
| "spec_step sha (Released r) v =
     (case v (rel_AttemptID r) of
        Some (d, st, None) \<Rightarrow> v(rel_AttemptID r \<mapsto> (d, AttemptTerminal, Some (rel_EventID r)))
      | _ \<Rightarrow> v)"
| "spec_step sha (Recover now) v =
     (\<lambda>k. map_option (\<lambda>(d, st, ev). if st = AttemptOpen \<and> d < now
        then (d, AttemptReconciled, Some (TerminalEventID sha k)) else (d, st, ev)) (v k))"

text \<open>
  The commands the ledgers are compared on: releases of a started attempt that carry its own
  terminal event, attempts whose terminal events do not collide, and times in whole microseconds.
\<close>

fun admissible :: "(string \<Rightarrow> string) \<Rightarrow> ledger_cmd \<Rightarrow> ledger_view \<Rightarrow> bool" where
  "admissible sha (Started e) v \<longleftrightarrow> as_DeadlineAt e mod 1000 = 0 \<and>
     (\<forall>k \<in> dom v. TerminalEventID sha k = TerminalEventID sha (as_AttemptID e) \<longrightarrow> k = as_AttemptID e)"
| "admissible sha (Released r) v \<longleftrightarrow>
     v (rel_AttemptID r) \<noteq> None \<and> rel_EventID r = TerminalEventID sha (rel_AttemptID r)"
| "admissible sha (Recover now) v \<longleftrightarrow> now mod 1000 = 0"

fun admissible_all :: "(string \<Rightarrow> string) \<Rightarrow> ledger_cmd list \<Rightarrow> ledger_view \<Rightarrow> bool" where
  "admissible_all sha [] v = True"
| "admissible_all sha (c # cs) v = (admissible sha c v \<and> admissible_all sha cs (spec_step sha c v))"

fun run_cmds :: "(ledger_cmd \<Rightarrow> 's \<Rightarrow> 's option) \<Rightarrow> ledger_cmd list \<Rightarrow> 's \<Rightarrow> 's option" where
  "run_cmds exec [] s = Some s"
| "run_cmds exec (c # cs) s = (case exec c s of None \<Rightarrow> None | Some s' \<Rightarrow> run_cmds exec cs s')"

locale attempt_ledger =
  fixes sha :: "string \<Rightarrow> string"
    and inv :: "'s \<Rightarrow> bool"
    and view :: "'s \<Rightarrow> ledger_view"
    and exec :: "ledger_cmd \<Rightarrow> 's \<Rightarrow> 's option"
  assumes exec_simulates:
    "inv s \<Longrightarrow> admissible sha c (view s) \<Longrightarrow> exec c s = Some s' \<Longrightarrow>
       inv s' \<and> view s' = spec_step sha c (view s)"
begin

lemma run_simulates:
  "inv s \<Longrightarrow> admissible_all sha cs (view s) \<Longrightarrow> run_cmds exec cs s = Some s' \<Longrightarrow>
     inv s' \<and> view s' = fold (spec_step sha) cs (view s)"
proof (induction cs arbitrary: s)
  case Nil
  then show ?case by simp
next
  case (Cons c cs)
  then obtain s1 where e: "exec c s = Some s1" "run_cmds exec cs s1 = Some s'"
    by (auto split: option.splits)
  have "inv s1 \<and> view s1 = spec_step sha c (view s)"
    using exec_simulates[OF Cons.prems(1) _ e(1)] Cons.prems(2) by simp
  with Cons.IH[OF _ _ e(2)] Cons.prems(2) show ?case by simp
qed

end

locale two_ledgers = a: attempt_ledger sha inv view exec + b: attempt_ledger sha inv' view' exec'
  for sha and inv :: "'s \<Rightarrow> bool" and view exec and inv' :: "'t \<Rightarrow> bool" and view' exec'
begin

lemma runs_agree:
  "inv s \<Longrightarrow> inv' t \<Longrightarrow> view s = view' t \<Longrightarrow> admissible_all sha cs (view s) \<Longrightarrow>
     run_cmds exec cs s = Some s' \<Longrightarrow> run_cmds exec' cs t = Some t' \<Longrightarrow> view s' = view' t'"
  using a.run_simulates[of s cs s'] b.run_simulates[of t cs t'] by simp

end

subsection \<open>The database\<close>

definition pg_view :: "ledger_db \<Rightarrow> ledger_view" where
  "pg_view db k = map_option (\<lambda>a. (ra_deadline_at a, ra_state a, ra_terminal_event_id a))
     (map_of (ld_attempts db) k)"

fun pg_exec :: "(string \<Rightarrow> string) \<Rightarrow> ledger_cmd \<Rightarrow> ledger_db \<Rightarrow> ledger_db option" where
  "pg_exec sha (Started e) db = (case HandleAttemptStarted False e db of Inl _ \<Rightarrow> None | Inr db' \<Rightarrow> Some db')"
| "pg_exec sha (Released r) db = (case HandleRelease False r db of Inl _ \<Rightarrow> None | Inr (db', _) \<Rightarrow> Some db')"
| "pg_exec sha (Recover now) db =
     (case RecoverAttempts sha False [] now now db of Inl _ \<Rightarrow> None | Inr (db', _) \<Rightarrow> Some db')"

lemma pg_time_whole: "t mod 1000 = 0 \<Longrightarrow> pg_time t = t"
  by (simp add: pg_time_def)

lemma pg_started:
  assumes "admissible sha (Started e) (pg_view db)" "HandleAttemptStarted False e db = Inr db'"
  shows "pg_view db' = spec_step sha (Started e) (pg_view db)"
  using assms by (auto simp: HandleAttemptStarted_def pg_view_def fun_eq_iff gomap_simps pg_time_whole
      split: option.splits)

lemma pg_released:
  assumes inv: "ledger_inv db" and "HandleRelease False r db = Inr (db', fresh)"
  shows "pg_view db' = spec_step sha (Released r) (pg_view db)"
proof -
  from assms(2) obtain a db1 db2 where a: "map_of (ld_attempts db) (rel_AttemptID r) = Some a"
    and ins: "insert_usage r db = Inr (db1, fresh)"
    and set: "set_attempt (rel_AttemptID r) (close_attempt r a) db1 = Inr db2"
    and db': "if fresh then \<exists>t. applyReleaseAuthority r (ld_accounts db2) = Inr t \<and> db' = db2\<lparr>ld_accounts := t\<rparr>
     else db' = db2" by (rule HandleRelease_Inr)
  have m: "map_of (ld_attempts db') = (map_of (ld_attempts db))(rel_AttemptID r \<mapsto> close_attempt r a)"
    using db' set_attempt_Inr[OF set] insert_usage_Inr(2)[OF ins]
    by (auto simp: gomap_simps split: if_splits)
  show ?thesis
  proof (cases "ra_terminal_event_id a")
    case None
    with open_not_metered[OF inv a] a m show ?thesis
      by (auto simp: pg_view_def fun_eq_iff close_attempt_def)
  next
    case (Some e)
    with closed_metered[OF inv a] a m show ?thesis
      by (auto simp: pg_view_def fun_eq_iff close_attempt_def)
  qed
qed

lemma pg_recovered:
  assumes inv: "ledger_inv db" and "now mod 1000 = 0" and "RecoverAttempts sha False [] now now db = Inr (db', n)"
  shows "pg_view db' = spec_step sha (Recover now) (pg_view db)"
proof
  fix k
  let ?cs = "expired_attempts [] now db"
  have "map_of (ld_attempts db') k = (case map_of ?cs k of
      Some a \<Rightarrow> Some (recovered_row sha now k a) | None \<Rightarrow> map_of (ld_attempts db) k)"
    using recover_all_step[OF inv expired_open_candidates[OF inv] RecoverAttempts_Inr(1)[OF assms(3)]] by simp
  then show "pg_view db' k = spec_step sha (Recover now) (pg_view db) k"
    using assms(2) by (simp add: pg_view_def expired_map_of[OF inv] pg_time_whole recovered_row_def
        split: option.splits)
qed

interpretation pg_ledger: attempt_ledger sha ledger_inv pg_view "pg_exec sha" for sha
proof
  fix s c s' assume inv: "ledger_inv s" and adm: "admissible sha c (pg_view s)" and ok: "pg_exec sha c s = Some s'"
  show "ledger_inv s' \<and> pg_view s' = spec_step sha c (pg_view s)"
  proof (cases c)
    case (Started e)
    with ok have h: "HandleAttemptStarted False e s = Inr s'" by (auto split: sum.splits)
    show ?thesis
      using HandleAttemptStarted_inv[OF inv h] pg_started[OF adm[unfolded Started] h] Started by simp
  next
    case (Released r)
    with ok obtain f where h: "HandleRelease False r s = Inr (s', f)" by (auto split: sum.splits prod.splits)
    show ?thesis using HandleRelease_inv[OF inv h] pg_released[OF inv h] Released by simp
  next
    case (Recover now)
    with ok obtain n where h: "RecoverAttempts sha False [] now now s = Inr (s', n)"
      by (auto split: sum.splits prod.splits)
    show ?thesis using RecoverAttempts_inv[OF inv h] pg_recovered[OF inv _ h] adm Recover by simp
  qed
qed

subsection \<open>The memory ledger\<close>

definition memory_view :: "MemoryLedger \<Rightarrow> ledger_view" where
  "memory_view m k = map_option (\<lambda>a. (as_DeadlineAt (ar_Started a), ar_State a, map_option rel_EventID (ar_Release a)))
     (map_of (ml_attempts m) k)"

fun memory_exec :: "(string \<Rightarrow> string) \<Rightarrow> ledger_cmd \<Rightarrow> MemoryLedger \<Rightarrow> MemoryLedger option" where
  "memory_exec sha (Started e) m = Some (fst (ApplyAttemptStarted e m))"
| "memory_exec sha (Released r) m = Some (fst (ApplyRelease r m))"
| "memory_exec sha (Recover now) m = Some (fst (RecoverExpired sha now m))"

definition record_ok :: "(string \<Rightarrow> string) \<Rightarrow> string \<Rightarrow> AttemptRecord \<Rightarrow> bool" where
  "record_ok sha k a \<longleftrightarrow> as_AttemptID (ar_Started a) = k \<and>
     (case ar_Release a of
        None \<Rightarrow> ar_State a = AttemptOpen
      | Some r \<Rightarrow> ar_State a \<in> {AttemptTerminal, AttemptReconciled} \<and> rel_EventID r = TerminalEventID sha k)"

definition closed_record :: "MemoryLedger \<Rightarrow> string \<Rightarrow> bool" where
  "closed_record m k \<longleftrightarrow> (\<exists>a. map_of (ml_attempts m) k = Some a \<and> ar_Release a \<noteq> None)"

definition memory_inv :: "(string \<Rightarrow> string) \<Rightarrow> MemoryLedger \<Rightarrow> bool" where
  "memory_inv sha m \<longleftrightarrow> distinct (map fst (ml_attempts m)) \<and>
     inj_on (TerminalEventID sha) (dom (map_of (ml_attempts m))) \<and>
     (\<forall>k a. map_of (ml_attempts m) k = Some a \<longrightarrow> record_ok sha k a) \<and>
     set (ml_events m) = TerminalEventID sha ` {k. closed_record m k}"

lemma memory_event_iff:
  assumes "memory_inv sha m" "map_of (ml_attempts m) k = Some a"
  shows "TerminalEventID sha k \<in> set (ml_events m) \<longleftrightarrow> ar_Release a \<noteq> None"
proof -
  have "k' = k" if "closed_record m k'" "TerminalEventID sha k' = TerminalEventID sha k" for k'
    using assms that by (auto simp: memory_inv_def closed_record_def inj_on_def dom_def)
  moreover have "closed_record m k \<longleftrightarrow> ar_Release a \<noteq> None"
    using assms(2) by (simp add: closed_record_def)
  moreover have "set (ml_events m) = TerminalEventID sha ` {k. closed_record m k}"
    using assms(1) by (simp add: memory_inv_def)
  ultimately show ?thesis by (metis (mono_tags, lifting) image_iff mem_Collect_eq)
qed

text \<open>Closing one record keeps the invariant and changes the view at that attempt only.\<close>

lemma memory_close:
  assumes inv: "memory_inv sha m" and a: "map_of (ml_attempts m) k = Some a" and none: "ar_Release a = None"
    and r: "rel_EventID r = TerminalEventID sha k" and st: "st \<in> {AttemptTerminal, AttemptReconciled}"
  defines "m' \<equiv> m\<lparr>ml_attempts := AList.update k (a\<lparr>ar_Release := Some r, ar_State := st\<rparr>) (ml_attempts m),
      ml_events := TerminalEventID sha k # ml_events m\<rparr>"
  shows "memory_inv sha m'"
    and "memory_view m' = (memory_view m)(k \<mapsto> (as_DeadlineAt (ar_Started a), st, Some (TerminalEventID sha k)))"
proof -
  have "{k'. closed_record m' k'} = insert k {k'. closed_record m k'}"
    using a none by (auto simp: closed_record_def m'_def gomap_simps)
  moreover have "dom (map_of (ml_attempts m')) = dom (map_of (ml_attempts m))"
    using a by (auto simp: m'_def gomap_simps)
  moreover have "record_ok sha k' b" if "map_of (ml_attempts m') k' = Some b" for k' b
    using that inv a r st by (auto simp: m'_def gomap_simps memory_inv_def record_ok_def split: if_splits)
  ultimately show "memory_inv sha m'"
    using inv by (simp add: memory_inv_def m'_def distinct_update)
  show "memory_view m' = (memory_view m)(k \<mapsto> (as_DeadlineAt (ar_Started a), st, Some (TerminalEventID sha k)))"
    using r by (simp add: memory_view_def fun_eq_iff m'_def gomap_simps)
qed

lemma memory_started:
  assumes "memory_inv sha m" "admissible sha (Started e) (memory_view m)"
  shows "memory_inv sha (fst (ApplyAttemptStarted e m)) \<and>
    memory_view (fst (ApplyAttemptStarted e m)) = spec_step sha (Started e) (memory_view m)"
proof (cases "map_of (ml_attempts m) (as_AttemptID e)")
  case (Some a)
  with assms show ?thesis by (simp add: ApplyAttemptStarted_def memory_view_def)
next
  case None
  define a where "a = \<lparr>ar_Started = e, ar_State = AttemptOpen, ar_Release = None\<rparr>"
  define m' where "m' = m\<lparr>ml_attempts := AList.update (as_AttemptID e) a (ml_attempts m)\<rparr>"
  have m': "fst (ApplyAttemptStarted e m) = m'" using None by (simp add: ApplyAttemptStarted_def m'_def a_def)
  have "closed_record m' k \<longleftrightarrow> closed_record m k" for k
    using None by (auto simp: closed_record_def m'_def gomap_simps a_def)
  moreover have "dom (map_of (ml_attempts m')) = insert (as_AttemptID e) (dom (map_of (ml_attempts m)))"
    by (auto simp: m'_def gomap_simps)
  moreover have "inj_on (TerminalEventID sha) (insert (as_AttemptID e) (dom (map_of (ml_attempts m))))"
    using assms by (auto simp: memory_inv_def inj_on_def memory_view_def dom_def)
  moreover have "record_ok sha k b" if "map_of (ml_attempts m') k = Some b" for k b
    using that assms(1) by (auto simp: m'_def gomap_simps memory_inv_def record_ok_def a_def split: if_splits)
  ultimately have "memory_inv sha m'"
    using assms(1) by (simp add: memory_inv_def distinct_update m'_def)
  moreover have "memory_view m' = spec_step sha (Started e) (memory_view m)"
    using None by (auto simp: memory_view_def m'_def gomap_simps a_def fun_eq_iff)
  ultimately show ?thesis by (simp add: m')
qed

lemma memory_released:
  assumes inv: "memory_inv sha m" and "admissible sha (Released r) (memory_view m)"
  shows "memory_inv sha (fst (ApplyRelease r m)) \<and>
    memory_view (fst (ApplyRelease r m)) = spec_step sha (Released r) (memory_view m)"
proof -
  from assms(2) obtain a where a: "map_of (ml_attempts m) (rel_AttemptID r) = Some a"
    and r: "rel_EventID r = TerminalEventID sha (rel_AttemptID r)"
    by (auto simp: memory_view_def)
  note ev = memory_event_iff[OF inv a]
  show ?thesis
  proof (cases "ar_Release a")
    case None
    with ev r a show ?thesis
      using memory_close[OF inv a None r, of AttemptTerminal]
      by (simp add: ApplyRelease_def memory_view_def[of m "rel_AttemptID r"])
  next
    case (Some r0)
    with ev r a inv show ?thesis by (simp add: ApplyRelease_def memory_view_def)
  qed
qed

lemma memory_recover_record:
  fixes now :: time and out :: "Release list"
  assumes inv: "memory_inv sha m" and a: "map_of (ml_attempts m) k = Some a"
  defines "m' \<equiv> fst (recover_record sha now (k, a) (m, out))"
  shows "memory_inv sha m'" and "\<And>k'. k' \<noteq> k \<Longrightarrow> map_of (ml_attempts m') k' = map_of (ml_attempts m) k'"
    and "memory_view m' = (memory_view m)(k := map_option (\<lambda>(d, st, ev). if st = AttemptOpen \<and> d < now
        then (d, AttemptReconciled, Some (TerminalEventID sha k)) else (d, st, ev)) (memory_view m k))"
proof -
  have id: "as_AttemptID (ar_Started a) = k" and ro: "record_ok sha k a"
    using inv a by (auto simp: memory_inv_def record_ok_def)
  note ev = memory_event_iff[OF inv a]
  let ?x = "expired_release sha now (ar_Started a)"
  have rx: "rel_EventID ?x = TerminalEventID sha k" by (simp add: expired_release_def id)
  note cl = memory_close[OF inv a _ rx, of AttemptReconciled]
  have v: "memory_view m k = Some (as_DeadlineAt (ar_Started a), ar_State a, map_option rel_EventID (ar_Release a))"
    using a by (simp add: memory_view_def)
  consider "ar_State a = AttemptOpen" "as_DeadlineAt (ar_Started a) < now" "ar_Release a = None"
    | "ar_State a \<noteq> AttemptOpen \<or> \<not> as_DeadlineAt (ar_Started a) < now"
    using ro by (auto simp: record_ok_def split: option.splits)
  then have "memory_inv sha m' \<and> (\<forall>k'. k' \<noteq> k \<longrightarrow> map_of (ml_attempts m') k' = map_of (ml_attempts m) k') \<and>
    memory_view m' = (memory_view m)(k := map_option (\<lambda>(d, st, ev). if st = AttemptOpen \<and> d < now
        then (d, AttemptReconciled, Some (TerminalEventID sha k)) else (d, st, ev)) (memory_view m k))"
  proof cases
    case 1
    then have "m' = m\<lparr>ml_attempts := AList.update k (a\<lparr>ar_Release := Some ?x, ar_State := AttemptReconciled\<rparr>) (ml_attempts m),
      ml_events := TerminalEventID sha k # ml_events m\<rparr>"
      using ev by (simp add: m'_def recover_record_def id Let_def)
    with cl[OF 1(3)] 1 v show ?thesis by (simp add: gomap_simps)
  next
    case 2
    then have "m' = m" by (auto simp: m'_def recover_record_def)
    with inv v 2 show ?thesis by (auto simp: fun_eq_iff)
  qed
  then show "memory_inv sha m'" and "\<And>k'. k' \<noteq> k \<Longrightarrow> map_of (ml_attempts m') k' = map_of (ml_attempts m) k'"
    and "memory_view m' = (memory_view m)(k := map_option (\<lambda>(d, st, ev). if st = AttemptOpen \<and> d < now
        then (d, AttemptReconciled, Some (TerminalEventID sha k)) else (d, st, ev)) (memory_view m k))"
    by blast+
qed

lemma memory_recover_fold:
  fixes now :: time and out :: "Release list"
  assumes "memory_inv sha m" "distinct (map fst xs)" "\<forall>(k, a) \<in> set xs. map_of (ml_attempts m) k = Some a"
  defines "m' \<equiv> fst (fold (recover_record sha now) xs (m, out))"
  shows "memory_inv sha m' \<and> memory_view m' = (\<lambda>k. if k \<in> fst ` set xs
      then map_option (\<lambda>(d, st, ev). if st = AttemptOpen \<and> d < now
        then (d, AttemptReconciled, Some (TerminalEventID sha k)) else (d, st, ev)) (memory_view m k)
      else memory_view m k)"
  using assms(1-3) unfolding m'_def
proof (induction xs arbitrary: m out)
  case Nil
  then show ?case by simp
next
  case (Cons x xs)
  obtain k a where x: "x = (k, a)" by (cases x)
  obtain m1 out1 where r: "recover_record sha now (k, a) (m, out) = (m1, out1)" by fastforce
  from Cons.prems(3) have a: "map_of (ml_attempts m) k = Some a" by (simp add: x)
  note s = memory_recover_record[OF Cons.prems(1) a, where now = now and out = out, unfolded r fst_conv]
  have "map_of (ml_attempts m1) k' = Some b" if kb: "(k', b) \<in> set xs" for k' b
  proof -
    have "k' \<noteq> k" using Cons.prems(2) kb by (force simp: x)
    with s(2) Cons.prems(3) kb show ?thesis by auto
  qed
  then have "\<forall>(k', b) \<in> set xs. map_of (ml_attempts m1) k' = Some b" by blast
  from Cons.IH[OF s(1) _ this, of out1] Cons.prems(2) show ?case
    by (auto simp: x r s(3) fun_eq_iff)
qed

lemma memory_recovered:
  assumes "memory_inv sha m"
  shows "memory_inv sha (fst (RecoverExpired sha now m)) \<and>
    memory_view (fst (RecoverExpired sha now m)) = spec_step sha (Recover now) (memory_view m)"
proof -
  have d: "distinct (map fst (ml_attempts m))" using assms by (simp add: memory_inv_def)
  then have "\<forall>(k, a) \<in> set (ml_attempts m). map_of (ml_attempts m) k = Some a"
    by (auto simp: map_of_eq_Some_iff)
  moreover have "memory_view m k = None" if "k \<notin> fst ` set (ml_attempts m)" for k
    using that by (simp add: memory_view_def map_of_eq_None_iff)
  ultimately show ?thesis
    using memory_recover_fold[OF assms d, of now "[]"] by (auto simp: RecoverExpired_def fun_eq_iff)
qed

interpretation memory_ledger: attempt_ledger sha "memory_inv sha" memory_view "memory_exec sha" for sha
proof
  fix s c s' assume "memory_inv sha s" "admissible sha c (memory_view s)" "memory_exec sha c s = Some s'"
  then show "memory_inv sha s' \<and> memory_view s' = spec_step sha c (memory_view s)"
    using memory_started[of sha s] memory_released[of sha s] memory_recovered[of sha s]
    by (cases c) (simp_all del: spec_step.simps admissible.simps, blast+)
qed

interpretation ledgers: two_ledgers sha ledger_inv pg_view "pg_exec sha" "memory_inv sha" memory_view "memory_exec sha" for sha
  by unfold_locales

text \<open>
  C8.  The database ledger and the memory ledger apply the same rules.  Started on empty tables
  and run on the same admissible sequence of starts, releases and recoveries, they agree after
  it on every attempt's deadline, state and terminal event.
\<close>

theorem ledgers_agree:
  assumes "distinct (map fst accounts)" and "admissible_all sha cs (\<lambda>_. None)"
    and "run_cmds (pg_exec sha) cs (empty_ledger accounts) = Some db"
    and "run_cmds (memory_exec sha) cs NewMemoryLedger = Some m"
  shows "pg_view db = memory_view m"
proof (rule ledgers.runs_agree[OF _ _ _ _ assms(3,4)])
  show "ledger_inv (empty_ledger accounts)" using assms(1) by (simp add: ledger_inv_def empty_ledger_def)
  show "memory_inv sha NewMemoryLedger"
    by (simp add: memory_inv_def NewMemoryLedger_def closed_record_def)
  show "pg_view (empty_ledger accounts) = memory_view NewMemoryLedger"
    by (simp add: pg_view_def memory_view_def empty_ledger_def NewMemoryLedger_def fun_eq_iff)
  show "admissible_all sha cs (pg_view (empty_ledger accounts))"
  proof -
    have "pg_view (empty_ledger accounts) = (\<lambda>_. None)" by (simp add: pg_view_def empty_ledger_def fun_eq_iff)
    with assms(2) show ?thesis by simp
  qed
qed

theorem ledgers_agree_witness:
  "pg_view (the (run_cmds (pg_exec (\<lambda>s. s))
       [Started (sample_started ''a1'' ''k'' 1000 5000), Released (sample_release ''a1'' ''k'' ErrorOK 3000),
        Started (sample_started ''a2'' ''k'' 1000 5000), Recover 9000] (empty_ledger []))) =
   memory_view (the (run_cmds (memory_exec (\<lambda>s. s))
       [Started (sample_started ''a1'' ''k'' 1000 5000), Released (sample_release ''a1'' ''k'' ErrorOK 3000),
        Started (sample_started ''a2'' ''k'' 1000 5000), Recover 9000] NewMemoryLedger))"
proof (rule ledgers_agree)
  let ?cs = "[Started (sample_started ''a1'' ''k'' 1000 5000), Released (sample_release ''a1'' ''k'' ErrorOK 3000),
        Started (sample_started ''a2'' ''k'' 1000 5000), Recover 9000]"
  show "distinct (map fst ([] :: account_table))" by simp
  show "admissible_all (\<lambda>s. s) ?cs (\<lambda>_. None)"
    by (simp add: sample_started_def sample_release_def TerminalEventID_def)
  show "run_cmds (pg_exec (\<lambda>s. s)) ?cs (empty_ledger []) = Some (the (run_cmds (pg_exec (\<lambda>s. s)) ?cs (empty_ledger [])))"
    by code_simp
  show "run_cmds (memory_exec (\<lambda>s. s)) ?cs NewMemoryLedger = Some (the (run_cmds (memory_exec (\<lambda>s. s)) ?cs NewMemoryLedger))"
    by code_simp
qed

end
