(* ===== verification/Money.thy ===== *)
theory Money
  imports Ledger
begin

text \<open>
  \<^verbatim>\<open>internal/control/billing.go\<close>: exact money, prices and wallets.  The tables of
  \<^verbatim>\<open>migrations/005_billing.sql\<close> are lists of rows whose \<^verbatim>\<open>NUMERIC(38,12)\<close> columns are
  rational numbers: storing rounds to twelve places and fails from ten to the 26 on.  The
  lemmas show that whatever the guards accept is stored without rounding, that the digit count
  is exact, that a new price leaves the past alone, and that a wallet equals its journal.
\<close>

section \<open>Numeric columns\<close>

definition moneyScale :: nat where
  "moneyScale = 12"

definition moneyPrecision :: nat where
  "moneyPrecision = 38"

definition ascii_space :: "char \<Rightarrow> bool" where
  "ascii_space c \<longleftrightarrow> c \<in> {CHR 0x20, CHR 0x09, CHR 0x0A, CHR 0x0B, CHR 0x0C, CHR 0x0D}"

definition ascii_trim :: "string \<Rightarrow> string" where
  "ascii_trim s = rev (dropWhile ascii_space (rev (dropWhile ascii_space s)))"

text \<open>Position of the decimal point counted from the first significant digit.\<close>

definition integer_digits :: "decimal_parts \<Rightarrow> int" where
  "integer_digits p =
     (let all = dp_int p @ dp_frac p
      in int (length (dp_int p)) + dp_exponent p
           - int (length all - length (dropWhile (\<lambda>c. c = CHR ''0'') all)))"

text \<open>
  \<^verbatim>\<open>$n::numeric\<close> on text that passed \<open>Decimal_Valid\<close>.  The server strips ASCII white space only,
  bounds the exponent by half the largest \<^verbatim>\<open>int\<close>, and holds at most 131072 digits before and
  16383 after the point.
\<close>

definition numeric_of_text :: "string \<Rightarrow> rat option" where
  "numeric_of_text s =
     (if ascii_trim s \<noteq> trim_space s then None
      else case parse_decimal (trim_space s) of
        None \<Rightarrow> None
      | Some p \<Rightarrow>
          (let e = dp_exponent p; m = digits_val (dp_int p @ dp_frac p);
               e10 = e - int (length (dp_frac p))
           in if \<bar>e\<bar> \<ge> 1073741823 then None
              else if m = 0 then Some 0
              else if integer_digits p > 131072 \<or> - e10 > 16383 then None
              else Some ((if dp_neg p then -1 else 1) * of_nat m * pow10 e10)))"

definition money_column :: "rat \<Rightarrow> rat option" where
  "money_column v =
     (let r = round_to v moneyScale
      in if \<bar>r\<bar> \<ge> 10 ^ (moneyPrecision - moneyScale) then None else Some r)"

text \<open>\<^verbatim>\<open>col::text\<close> of such a column.\<close>

definition numeric_text :: "rat \<Rightarrow> string" where
  "numeric_text v = float_string v (int moneyScale)"

section \<open>Guards on amounts\<close>

datatype billing_error =
    NotADecimal string
  | TooManyPlaces int
  | TooManyDigits int
  | PriceRejected string
  | PriceNotInFuture
  | BadMovement
  | BadKind
  | WalletNotFound string
  | NumericOverflow
  | InvalidNumericText
  | DuplicateKey
  | ForeignKeyViolation
  | CheckViolation
  | BillingDBFault
  | UnusableAmount
  | NegativeTokens
  | BadUnitScale
  | NoTerminalState string
  | ResolutionRejected string

definition exponent_of :: "string \<Rightarrow> int" where
  "exponent_of raw = (if list_ex is_exp_mark raw
     then atoi (tl (dropWhile (\<lambda>c. \<not> is_exp_mark c) raw)) else 0)"

definition mantissa_of :: "string \<Rightarrow> string" where
  "mantissa_of raw = takeWhile (\<lambda>c. \<not> is_exp_mark c) raw"

definition moneyPlaces :: "decimal \<Rightarrow> int" where
  "moneyPlaces amount =
     (let raw = trim_space amount;
          m = mantissa_of raw;
          places0 = (if CHR ''.'' \<in> set m
            then int (length m) - int (length (takeWhile (\<lambda>c. c \<noteq> CHR ''.'') m)) - 1 else 0);
          places = wrap64 (places0 - exponent_of raw)
      in if places > 0 then places else 0)"

definition moneyIntegerDigits :: "decimal \<Rightarrow> int" where
  "moneyIntegerDigits amount =
     (let raw = dropWhile (\<lambda>c. c = CHR ''+'' \<or> c = CHR ''-'') (trim_space amount);
          m = mantissa_of raw;
          integer = takeWhile (\<lambda>c. c \<noteq> CHR ''.'') m;
          fraction = tl (dropWhile (\<lambda>c. c \<noteq> CHR ''.'') m);
          all = integer @ fraction;
          significant = dropWhile (\<lambda>c. c = CHR ''0'') all
      in if significant = [] then 0
         else let digits = wrap64 (int (length integer) + exponent_of raw
                  - (int (length all) - int (length significant)))
              in if digits > 0 then digits else 0)"

definition checkMoney :: "string \<Rightarrow> decimal \<Rightarrow> billing_error + unit" where
  "checkMoney column amount =
     (if \<not> Decimal_Valid amount then Inl (NotADecimal column)
      else if moneyPlaces amount > int moneyScale then Inl (TooManyPlaces (moneyPlaces amount))
      else if moneyIntegerDigits amount > int (moneyPrecision - moneyScale)
      then Inl (TooManyDigits (moneyIntegerDigits amount))
      else Inr ())"

definition checkMovementKind :: "string \<Rightarrow> decimal \<Rightarrow> billing_error + unit" where
  "checkMovementKind kind amount =
     (case Decimal_Sign amount of
        None \<Rightarrow> Inl (NotADecimal ''amount'')
      | Some sign \<Rightarrow>
          if kind = ''topup'' then (if sign \<le> 0 then Inl BadKind else Inr ())
          else if kind = ''debit'' then (if sign \<ge> 0 then Inl BadKind else Inr ())
          else if kind = ''adjustment'' then (if sign = 0 then Inl BadKind else Inr ())
          else Inl BadKind)"

section \<open>Tables\<close>

record price_row =
  pr_id :: string
  pr_provider :: string
  pr_model :: string
  pr_currency :: string
  pr_unit_scale :: int
  pr_input :: rat
  pr_output :: rat
  pr_cache_read :: rat
  pr_cache_write :: rat
  pr_effective_from :: time
  pr_created_at :: time

record wallet_row =
  tw_currency :: string
  tw_balance :: rat

record journal_row =
  wt_id :: string
  wt_tenant_id :: string
  wt_kind :: string
  wt_amount :: rat
  wt_balance_after :: rat
  wt_billing_run_id :: "string option"
  wt_note :: string
  wt_created_at :: time

record run_row =
  br_window_end :: time
  br_status :: string
  br_tenants_billed :: int
  br_tenants_failed :: int
  br_rows_billed :: int
  br_rows_unpriced :: int
  br_total_debited :: rat
  br_rows_held :: int
  br_rows_not_billable :: int

record billing_db =
  bd_tenants :: "string list"
  bd_prices :: "price_row list"
  bd_wallets :: "(string, wallet_row) gomap"
  bd_journal :: "journal_row list"
  bd_usage :: "ledger_row list"
  bd_runs :: "(string, run_row) gomap"

record ModelPrice =
  mp_ID :: string
  mp_Provider :: string
  mp_Model :: string
  mp_Currency :: string
  mp_UnitScale :: int
  mp_PriceInput :: decimal
  mp_PriceOutput :: decimal
  mp_PriceCacheRead :: decimal
  mp_PriceCacheWrite :: decimal
  mp_EffectiveFrom :: time
  mp_CreatedAt :: time

record WalletMovement =
  wm_ID :: string
  wm_TenantID :: string
  wm_Kind :: string
  wm_Amount :: decimal
  wm_BillingRunID :: string
  wm_Note :: string

record WalletTransaction =
  wtx_ID :: string
  wtx_TenantID :: string
  wtx_Kind :: string
  wtx_Amount :: decimal
  wtx_BalanceAfter :: decimal
  wtx_BillingRunID :: string
  wtx_Note :: string
  wtx_CreatedAt :: time

section \<open>Prices\<close>

text \<open>
  The code ranges over a map of the four amounts, so it reports any one that is refused; the
  model reports the first of the list.
\<close>

fun check_prices :: "(string \<times> decimal) list \<Rightarrow> billing_error + unit" where
  "check_prices [] = Inr ()"
| "check_prices ((column, amount) # rest) =
     (case checkMoney column amount of
        Inl _ \<Rightarrow> Inl (PriceRejected column)
      | Inr _ \<Rightarrow>
          (case Decimal_Sign amount of
             None \<Rightarrow> Inl (PriceRejected column)
           | Some sign \<Rightarrow> if sign < 0 then Inl (PriceRejected column) else check_prices rest))"

definition store_amount :: "decimal \<Rightarrow> billing_error + rat" where
  "store_amount d =
     (case numeric_of_text d of
        None \<Rightarrow> Inl InvalidNumericText
      | Some v \<Rightarrow> (case money_column v of None \<Rightarrow> Inl NumericOverflow | Some r \<Rightarrow> Inr r))"

definition insert_price_row :: "price_row \<Rightarrow> billing_db \<Rightarrow> billing_error + billing_db" where
  "insert_price_row p db =
     (if pr_unit_scale p \<le> 0 \<or> pr_input p < 0 \<or> pr_output p < 0 \<or> pr_cache_read p < 0
              \<or> pr_cache_write p < 0 then Inl CheckViolation
      else if list_ex (\<lambda>q. pr_id q = pr_id p \<or> (pr_provider q = pr_provider p \<and> pr_model q = pr_model p
            \<and> pr_effective_from q = pr_effective_from p)) (bd_prices db) then Inl DuplicateKey
      else Inr (db\<lparr>bd_prices := bd_prices db @ [p]\<rparr>))"

definition InsertModelPrice :: "bool \<Rightarrow> ModelPrice \<Rightarrow> time \<Rightarrow> billing_db \<Rightarrow> billing_error + billing_db" where
  "InsertModelPrice fault price now db =
     (if mp_ID price = '''' \<or> mp_Provider price = '''' \<or> mp_Model price = ''''
      then Inl (PriceRejected ''id'')
      else if mp_UnitScale price \<le> 0 then Inl (PriceRejected ''unit_scale'')
      else if \<not> mp_EffectiveFrom price > now then Inl PriceNotInFuture
      else case check_prices [(''price_input'', mp_PriceInput price), (''price_output'', mp_PriceOutput price),
            (''price_cache_read'', mp_PriceCacheRead price), (''price_cache_write'', mp_PriceCacheWrite price)] of
        Inl e \<Rightarrow> Inl e
      | Inr _ \<Rightarrow>
          if fault then Inl BillingDBFault
          else (case store_amount (mp_PriceInput price) of Inl e \<Rightarrow> Inl e | Inr i \<Rightarrow>
               (case store_amount (mp_PriceOutput price) of Inl e \<Rightarrow> Inl e | Inr out \<Rightarrow>
               (case store_amount (mp_PriceCacheRead price) of Inl e \<Rightarrow> Inl e | Inr cr \<Rightarrow>
               (case store_amount (mp_PriceCacheWrite price) of Inl e \<Rightarrow> Inl e | Inr cw \<Rightarrow>
                 insert_price_row
                   \<lparr>pr_id = mp_ID price, pr_provider = mp_Provider price, pr_model = mp_Model price,
                    pr_currency = (if mp_Currency price = '''' then ''USD'' else mp_Currency price),
                    pr_unit_scale = mp_UnitScale price, pr_input = i, pr_output = out,
                    pr_cache_read = cr, pr_cache_write = cw,
                    pr_effective_from = pg_time (mp_EffectiveFrom price), pr_created_at = pg_time now\<rparr> db)))))"

fun latest_price :: "price_row list \<Rightarrow> price_row option" where
  "latest_price [] = None"
| "latest_price (p # ps) =
     (case latest_price ps of
        None \<Rightarrow> Some p
      | Some q \<Rightarrow> if pr_effective_from q > pr_effective_from p then Some q else Some p)"

definition price_row_at :: "billing_db \<Rightarrow> string \<Rightarrow> string \<Rightarrow> time \<Rightarrow> price_row option" where
  "price_row_at db provider model t =
     latest_price (filter (\<lambda>p. pr_provider p = provider \<and> pr_model p = model
        \<and> pr_effective_from p \<le> pg_time t) (bd_prices db))"

definition read_price :: "price_row \<Rightarrow> ModelPrice" where
  "read_price p = \<lparr>mp_ID = pr_id p, mp_Provider = pr_provider p, mp_Model = pr_model p,
     mp_Currency = pr_currency p, mp_UnitScale = pr_unit_scale p,
     mp_PriceInput = numeric_text (pr_input p), mp_PriceOutput = numeric_text (pr_output p),
     mp_PriceCacheRead = numeric_text (pr_cache_read p), mp_PriceCacheWrite = numeric_text (pr_cache_write p),
     mp_EffectiveFrom = pr_effective_from p, mp_CreatedAt = pr_created_at p\<rparr>"

definition priceAt :: "billing_db \<Rightarrow> string \<Rightarrow> string \<Rightarrow> time \<Rightarrow> ModelPrice option" where
  "priceAt db provider model t = map_option read_price (price_row_at db provider model t)"

section \<open>Wallets\<close>

definition insert_wallet :: "string \<Rightarrow> string \<Rightarrow> billing_db \<Rightarrow> billing_error + billing_db \<times> unit" where
  "insert_wallet tenantID currency db =
     (if map_of (bd_wallets db) tenantID \<noteq> None then Inr (db, ())
      else if tenantID \<notin> set (bd_tenants db) then Inl ForeignKeyViolation
      else Inr (db\<lparr>bd_wallets := AList.update tenantID
          \<lparr>tw_currency = (if currency = '''' then ''USD'' else currency), tw_balance = 0\<rparr> (bd_wallets db)\<rparr>, ()))"

definition EnsureWallet :: "tx_fate \<Rightarrow> string \<Rightarrow> string \<Rightarrow> billing_db \<Rightarrow> billing_db \<times> (billing_error + unit)" where
  "EnsureWallet fate tenantID currency db =
     (if tenantID = '''' then (db, Inl BadMovement)
      else commit_as fate BillingDBFault db (insert_wallet tenantID currency db))"

definition Balance :: "billing_db \<Rightarrow> string \<Rightarrow> decimal option" where
  "Balance db tenantID = map_option (numeric_text \<circ> tw_balance) (map_of (bd_wallets db) tenantID)"

definition amount_check :: "string \<Rightarrow> rat \<Rightarrow> bool" where
  "amount_check kind amount \<longleftrightarrow> (kind = ''topup'' \<and> amount > 0) \<or> (kind = ''debit'' \<and> amount < 0)
     \<or> (kind = ''adjustment'' \<and> amount \<noteq> 0)"

text \<open>
  The journal entry takes its \<^verbatim>\<open>balance_after\<close> from the text of the balance just written, which
  \<open>numeric_text\<close> prints exactly.
\<close>

definition applyMovement ::
  "time \<Rightarrow> WalletMovement \<Rightarrow> billing_db \<Rightarrow> billing_error + (billing_db \<times> WalletTransaction)" where
  "applyMovement now mv db =
     (if wm_ID mv = '''' \<or> wm_TenantID mv = '''' then Inl BadMovement
      else case checkMoney ''amount'' (wm_Amount mv) of Inl e \<Rightarrow> Inl e | Inr _ \<Rightarrow>
      (case checkMovementKind (wm_Kind mv) (wm_Amount mv) of Inl e \<Rightarrow> Inl e | Inr _ \<Rightarrow>
      (case map_of (bd_wallets db) (wm_TenantID mv) of
         None \<Rightarrow> Inl (WalletNotFound (wm_TenantID mv))
       | Some w \<Rightarrow>
      (case numeric_of_text (wm_Amount mv) of None \<Rightarrow> Inl InvalidNumericText | Some v \<Rightarrow>
      (case money_column (tw_balance w + v) of None \<Rightarrow> Inl NumericOverflow | Some b \<Rightarrow>
      (case money_column v of None \<Rightarrow> Inl NumericOverflow | Some stored \<Rightarrow>
         if \<not> amount_check (wm_Kind mv) stored then Inl CheckViolation
         else if list_ex (\<lambda>t. wt_id t = wm_ID mv) (bd_journal db) then Inl DuplicateKey
         else Inr (db\<lparr>bd_wallets := AList.update (wm_TenantID mv) (w\<lparr>tw_balance := b\<rparr>) (bd_wallets db),
                bd_journal := bd_journal db @
                  [\<lparr>wt_id = wm_ID mv, wt_tenant_id = wm_TenantID mv, wt_kind = wm_Kind mv,
                    wt_amount = stored, wt_balance_after = b,
                    wt_billing_run_id = (if wm_BillingRunID mv = '''' then None else Some (wm_BillingRunID mv)),
                    wt_note = wm_Note mv, wt_created_at = pg_time now\<rparr>]\<rparr>,
              \<lparr>wtx_ID = wm_ID mv, wtx_TenantID = wm_TenantID mv, wtx_Kind = wm_Kind mv,
               wtx_Amount = wm_Amount mv, wtx_BalanceAfter = numeric_text b,
               wtx_BillingRunID = wm_BillingRunID mv, wtx_Note = wm_Note mv,
               wtx_CreatedAt = pg_time now\<rparr>)))))))"

definition ApplyMovement ::
  "tx_fate \<Rightarrow> time \<Rightarrow> WalletMovement \<Rightarrow> billing_db \<Rightarrow> billing_db \<times> (billing_error + WalletTransaction)" where
  "ApplyMovement fate now mv db = commit_as fate BillingDBFault db (applyMovement now mv db)"

text \<open>A tenant's journal, oldest first; entries of one instant are ordered by ID.\<close>

definition journal_before :: "journal_row \<Rightarrow> journal_row \<Rightarrow> bool" where
  "journal_before a b \<longleftrightarrow> wt_created_at a < wt_created_at b
     \<or> (wt_created_at a = wt_created_at b \<and> wt_id a \<le> wt_id b)"

fun insert_by :: "('a \<Rightarrow> 'a \<Rightarrow> bool) \<Rightarrow> 'a \<Rightarrow> 'a list \<Rightarrow> 'a list" where
  "insert_by le x [] = [x]"
| "insert_by le x (y # ys) = (if le x y then x # y # ys else y # insert_by le x ys)"

definition order_by :: "('a \<Rightarrow> 'a \<Rightarrow> bool) \<Rightarrow> 'a list \<Rightarrow> 'a list" where
  "order_by le xs = foldr (insert_by le) xs []"

definition ListWalletTransactions :: "billing_db \<Rightarrow> string \<Rightarrow> WalletTransaction list" where
  "ListWalletTransactions db tenantID =
     map (\<lambda>t. \<lparr>wtx_ID = wt_id t, wtx_TenantID = wt_tenant_id t, wtx_Kind = wt_kind t,
        wtx_Amount = numeric_text (wt_amount t), wtx_BalanceAfter = numeric_text (wt_balance_after t),
        wtx_BillingRunID = (case wt_billing_run_id t of None \<Rightarrow> '''' | Some r \<Rightarrow> r),
        wtx_Note = wt_note t, wtx_CreatedAt = wt_created_at t\<rparr>)
       (order_by journal_before (filter (\<lambda>t. wt_tenant_id t = tenantID) (bd_journal db)))"

section \<open>The guards and the numbers\<close>

lemma list_all_dropWhile: "list_all P xs \<Longrightarrow> list_all P (dropWhile Q xs)"
  by (auto simp: list_all_iff dest: set_dropWhileD)

lemma digits_val_Cons_zero: "digits_val (CHR ''0'' # s) = digits_val s"
  by (simp add: digits_val_def digit_val_def)

lemma digits_val_drop_zeros: "digits_val (dropWhile (\<lambda>c. c = CHR ''0'') s) = digits_val s"
  by (induction s) (simp_all add: digits_val_Cons_zero)

lemma digits_val_lower:
  assumes "list_all is_digit s" "s \<noteq> []" "hd s \<noteq> CHR ''0''"
  shows "10 ^ (length s - 1) \<le> digits_val s"
proof -
  obtain c t where s: "s = c # t" using assms(2) by (cases s) auto
  have "digit_val c \<noteq> 0"
  proof
    assume "digit_val c = 0"
    then have "(of_char c :: nat) = of_char (CHR ''0'')"
      using assms(1) by (simp add: s digit_val_def is_digit_def)
    then have "c = CHR ''0''" by (simp only: of_char_eq_iff)
    with assms(3) show False by (simp add: s)
  qed
  then have low: "10 ^ length t \<le> digit_val c * 10 ^ length t" by simp
  have "digits_val s = digit_val c * 10 ^ length t + digits_val t"
    using digits_val_append[of "[c]" t] by (simp add: s digits_val_def)
  then have "10 ^ length t \<le> digits_val s" using trans_le_add1[OF low] by (simp only:)
  then show ?thesis by (simp add: s)
qed

text \<open>Both guards in terms of the parts of the decimal.\<close>

lemma moneyPlaces_parts:
  assumes "parse_decimal (trim_space d) = Some p"
  shows "moneyPlaces d = max 0 (wrap64 (int (length (dp_frac p)) - dp_exponent p))"
proof -
  from parse_decimal_Some[OF assms] obtain c where
    c: "is_exp_mark c" and u: "trim_space d = unparse p c" and wf: "wf_parts p" by blast
  from wf have digits: "list_all is_digit (dp_int p)" by (simp add: wf_parts_def)
  define m where "m = mantissa_of (unparse p c)"
  have m: "m = (if dp_neg p then ''-'' else []) @ dp_int p @ (if dp_frac p = [] then [] else CHR ''.'' # dp_frac p)"
    unfolding m_def mantissa_of_def by (rule exponent_split(1)[OF c wf])
  have e: "exponent_of (unparse p c) = dp_exponent p"
    unfolding exponent_of_def by (rule exponent_split(2)[OF c wf])
  have "(if CHR ''.'' \<in> set m then int (length m) - int (length (takeWhile (\<lambda>c. c \<noteq> CHR ''.'') m)) - 1 else 0)
      = int (length (dp_frac p))"
  proof (cases "dp_frac p = []")
    case True
    then show ?thesis using no_dot[OF digits, of "dp_neg p"] by (simp add: m)
  next
    case False
    then have "m = (if dp_neg p then ''-'' else []) @ dp_int p @ CHR ''.'' # dp_frac p" by (simp add: m)
    from dot_split[OF digits this] show ?thesis by simp
  qed
  then show ?thesis
    unfolding moneyPlaces_def Let_def u m_def[symmetric] e by (simp only: max_def) simp
qed

lemma point_split:
  fixes f :: string
  assumes "list_all is_digit i"
  defines "m \<equiv> i @ (if f = [] then [] else CHR ''.'' # f)"
  shows "takeWhile (\<lambda>c. c \<noteq> CHR ''.'') m = i" "tl (dropWhile (\<lambda>c. c \<noteq> CHR ''.'') m) = f"
proof -
  have l: "list_all (\<lambda>c. c \<noteq> CHR ''.'') i" using assms(1) digit_facts(2) by (auto simp: list_all_iff)
  show "takeWhile (\<lambda>c. c \<noteq> CHR ''.'') m = i" "tl (dropWhile (\<lambda>c. c \<noteq> CHR ''.'') m) = f"
    using takeWhile_digits[OF l, of "if f = [] then [] else CHR ''.'' # f"] by (auto simp: m_def)
qed

lemma significant_empty:
  assumes "list_all is_digit s"
  shows "dropWhile (\<lambda>c. c = CHR ''0'') s = [] \<longleftrightarrow> digits_val s = 0"
proof
  assume "dropWhile (\<lambda>c. c = CHR ''0'') s = []"
  then show "digits_val s = 0" by (metis digits_val_drop_zeros digits_val_Nil)
next
  assume z: "digits_val s = 0"
  show "dropWhile (\<lambda>c. c = CHR ''0'') s = []"
  proof (rule ccontr)
    assume ne: "dropWhile (\<lambda>c. c = CHR ''0'') s \<noteq> []"
    from digits_val_lower[OF list_all_dropWhile[OF assms] ne hd_dropWhile[OF ne]]
    show False using z by (simp add: digits_val_drop_zeros)
  qed
qed

lemma moneyIntegerDigits_parts:
  assumes "parse_decimal (trim_space d) = Some p"
  shows "moneyIntegerDigits d =
    (if digits_val (dp_int p @ dp_frac p) = 0 then 0 else max 0 (wrap64 (integer_digits p)))"
proof -
  from parse_decimal_Some[OF assms] obtain c where
    c: "is_exp_mark c" and u: "trim_space d = unparse p c" and wf: "wf_parts p" by blast
  from wf have digits: "list_all is_digit (dp_int p)" "list_all is_digit (dp_frac p)" "dp_int p \<noteq> []"
    by (auto simp: wf_parts_def)
  define q where "q = p\<lparr>dp_neg := False\<rparr>"
  have wfq: "wf_parts q" using wf by (simp add: q_def wf_parts_def)
  have "dropWhile (\<lambda>c. c = CHR ''+'' \<or> c = CHR ''-'') (unparse p c) = unparse q c"
  proof -
    obtain x xs where i: "dp_int p = x # xs" using digits(3) by (cases "dp_int p") auto
    have "x \<noteq> CHR ''-''" "x \<noteq> CHR ''+''" using digits(1) digit_facts(3,4) by (auto simp: i)
    then show ?thesis by (simp add: unparse_def q_def i)
  qed
  then have raw: "dropWhile (\<lambda>c. c = CHR ''+'' \<or> c = CHR ''-'') (trim_space d) = unparse q c" by (simp add: u)
  have m: "mantissa_of (unparse q c) = dp_int p @ (if dp_frac p = [] then [] else CHR ''.'' # dp_frac p)"
    unfolding mantissa_of_def exponent_split(1)[OF c wfq] by (simp add: q_def)
  have e: "exponent_of (unparse q c) = dp_exponent p"
    unfolding exponent_of_def exponent_split(2)[OF c wfq] by (simp add: q_def dp_exponent_def)
  define all where "all = dp_int p @ dp_frac p"
  define sig where "sig = dropWhile (\<lambda>c. c = CHR ''0'') all"
  have z: "sig = [] \<longleftrightarrow> digits_val all = 0"
    unfolding sig_def by (rule significant_empty) (simp add: all_def digits)
  have len: "int (length all) - int (length sig) = int (length all - length sig)"
    using length_dropWhile_le[of "\<lambda>c. c = CHR ''0''" all] by (simp add: sig_def of_nat_diff)
  have "moneyIntegerDigits d = (if sig = [] then 0
      else if wrap64 (integer_digits p) > 0 then wrap64 (integer_digits p) else 0)"
    unfolding moneyIntegerDigits_def Let_def raw m e point_split[OF digits(1)] integer_digits_def
      all_def[symmetric] sig_def[symmetric] len by simp
  then show ?thesis using z by (simp add: all_def max_def)
qed

lemma trim_left_length: "length (trim_left seqs s) \<le> length s"
proof (induction seqs s rule: trim_left.induct)
  case (1 seqs s)
  then show ?case by (subst trim_left.simps) (force split: option.splits)
qed

lemma trim_space_length: "length (trim_space s) \<le> length s"
proof -
  have "length (trim_left (map rev space_seqs) (rev (trim_left space_seqs s))) \<le> length (trim_left space_seqs s)"
    using trim_left_length[of "map rev space_seqs" "rev (trim_left space_seqs s)"] by simp
  then show ?thesis using trim_left_length[of space_seqs s] by (simp add: trim_space_def)
qed

text \<open>A nonzero decimal has \<open>integer_digits\<close> digits before its point.\<close>

lemma integer_digits_magnitude:
  assumes wf: "wf_parts p" and nz: "digits_val (dp_int p @ dp_frac p) \<noteq> 0"
  defines "m \<equiv> of_nat (digits_val (dp_int p @ dp_frac p)) * pow10 (dp_exponent p - int (length (dp_frac p)))"
  shows "pow10 (integer_digits p - 1) \<le> m" and "m < pow10 (integer_digits p)"
proof -
  define all where "all = dp_int p @ dp_frac p"
  define sig where "sig = dropWhile (\<lambda>c. c = CHR ''0'') all"
  define e10 where "e10 = dp_exponent p - int (length (dp_frac p))"
  have da: "list_all is_digit all" using wf by (simp add: all_def wf_parts_def)
  have ds: "list_all is_digit sig" unfolding sig_def by (rule list_all_dropWhile[OF da])
  have ne: "sig \<noteq> []" using significant_empty[OF da] nz by (simp add: sig_def all_def)
  have v: "digits_val all = digits_val sig" by (simp add: sig_def digits_val_drop_zeros)
  have len: "length sig \<le> length all" by (simp add: sig_def length_dropWhile_le)
  have i: "integer_digits p = int (length sig) + e10"
    using len by (simp add: integer_digits_def Let_def all_def[symmetric] sig_def[symmetric] e10_def)
      (simp add: all_def)
  have up: "of_nat (digits_val sig) < (10 ^ length sig :: rat)"
    using digits_val_less[OF ds] by (metis of_nat_less_iff of_nat_numeral of_nat_power)
  have "10 ^ (length sig - 1) \<le> digits_val sig"
    by (rule digits_val_lower[OF ds ne hd_dropWhile[OF ne[unfolded sig_def], folded sig_def]])
  then have lo: "(10 ^ (length sig - 1) :: rat) \<le> of_nat (digits_val sig)"
    by (metis of_nat_le_iff of_nat_numeral of_nat_power)
  have "pow10 (integer_digits p) = 10 ^ length sig * pow10 e10"
    by (simp add: i pow10_add pow10_nat)
  moreover have "pow10 (integer_digits p - 1) = 10 ^ (length sig - 1) * pow10 e10"
  proof -
    have "integer_digits p - 1 = int (length sig - 1) + e10" using ne by (cases sig) (simp_all add: i)
    then show ?thesis by (simp add: pow10_add pow10_nat)
  qed
  moreover have "m = of_nat (digits_val sig) * pow10 e10" by (simp add: m_def all_def[symmetric] v e10_def)
  ultimately show "pow10 (integer_digits p - 1) \<le> m" and "m < pow10 (integer_digits p)"
    using lo up pow10_pos[of e10] by simp_all
qed

text \<open>A number the money columns hold as it is.\<close>

definition money_exact :: "rat \<Rightarrow> bool" where
  "money_exact v \<longleftrightarrow> (\<exists>z. v * 10 ^ moneyScale = of_int z)"

lemma money_exact_add: "money_exact a \<Longrightarrow> money_exact b \<Longrightarrow> money_exact (a + b)"
proof -
  assume "money_exact a" "money_exact b"
  then obtain x y where "a * 10 ^ moneyScale = of_int x" "b * 10 ^ moneyScale = of_int y"
    by (auto simp: money_exact_def)
  then have "(a + b) * 10 ^ moneyScale = of_int (x + y)" by (simp add: distrib_right)
  then show ?thesis unfolding money_exact_def by blast
qed

lemma money_exact_0 [simp]: "money_exact 0"
  by (auto simp: money_exact_def intro: exI[of _ 0])

lemma money_column_exact:
  "money_exact v \<Longrightarrow> money_column v = (if \<bar>v\<bar> < 10 ^ 26 then Some v else None)"
  using round_to_exact[of v moneyScale]
  by (auto simp: money_exact_def money_column_def moneyScale_def moneyPrecision_def Let_def)

lemma money_column_Some: "money_column v = Some r \<Longrightarrow> money_exact r \<and> \<bar>r\<bar> < 10 ^ 26"
  using round_to_scaled[of v moneyScale]
  by (auto simp: money_column_def money_exact_def moneyScale_def moneyPrecision_def Let_def split: if_splits)

lemma decimal_val_parts:
  assumes "decimal_val d = Some v"
  obtains p where "parse_decimal (trim_space d) = Some p" "wf_parts p"
    and "digits_val (dp_int p @ dp_frac p) = 0 \<and> v = 0 \<or>
      digits_val (dp_int p @ dp_frac p) \<noteq> 0 \<and> \<bar>dp_exponent p - int (length (dp_frac p))\<bar> \<le> 1000000 \<and>
      v = (if dp_neg p then -1 else 1) * of_nat (digits_val (dp_int p @ dp_frac p))
        * pow10 (dp_exponent p - int (length (dp_frac p)))"
proof -
  from assms have "rat_set_string (trim_space d) = Some v" by (simp add: decimal_val_Some)
  then show thesis
    by (rule rat_set_string_Some) (use that parse_decimal_Some in blast)
qed

lemma moneyPlaces_exact:
  assumes "decimal_val d = Some v" "moneyPlaces d \<le> int moneyScale"
  shows "money_exact v"
proof -
  from assms(1) obtain p where p: "parse_decimal (trim_space d) = Some p"
    and v: "digits_val (dp_int p @ dp_frac p) = 0 \<and> v = 0 \<or>
      digits_val (dp_int p @ dp_frac p) \<noteq> 0 \<and> \<bar>dp_exponent p - int (length (dp_frac p))\<bar> \<le> 1000000 \<and>
      v = (if dp_neg p then -1 else 1) * of_nat (digits_val (dp_int p @ dp_frac p))
        * pow10 (dp_exponent p - int (length (dp_frac p)))"
    by (rule decimal_val_parts)
  let ?m = "digits_val (dp_int p @ dp_frac p)" and ?e = "dp_exponent p - int (length (dp_frac p))"
  show ?thesis
  proof (cases "v = 0")
    case False
    with v have b: "\<bar>?e\<bar> \<le> 1000000" and v': "v = (if dp_neg p then -1 else 1) * of_nat ?m * pow10 ?e" by auto
    have "wrap64 (- ?e) = - ?e" using b by (intro wrap64_id) (auto simp: min_int64_def max_int64_def)
    then have "0 \<le> ?e + int moneyScale" using assms(2) moneyPlaces_parts[OF p] by simp
    from pow10_integer[OF this] have
      "v * 10 ^ moneyScale = of_int ((if dp_neg p then -1 else 1) * int ?m * 10 ^ nat (?e + int moneyScale))"
      by (simp add: v' mult.assoc)
    then show ?thesis unfolding money_exact_def by blast
  qed simp
qed

lemma parts_length:
  assumes "parse_decimal (trim_space d) = Some p"
  shows "length (dp_int p @ dp_frac p) \<le> length d"
proof -
  from parse_decimal_Some[OF assms] obtain c where u: "trim_space d = unparse p c" by blast
  have "length (dp_int p @ dp_frac p) \<le> length (unparse p c)" by (simp add: unparse_def)
  with u trim_space_length[of d] show ?thesis by simp
qed

text \<open>
  What the server makes of a text the code can read and whose places and digits the guard accepts:
  it refuses white space that is not ASCII and an exponent it cannot represent, and reads the rest.
\<close>

lemma numeric_of_text_accepted:
  assumes v: "decimal_val amount = Some v" and len: "int (length amount) < 2 ^ 62"
    and pl: "moneyPlaces amount \<le> 12" and dg: "moneyIntegerDigits amount \<le> 26"
  shows "numeric_of_text amount =
    (if ascii_trim amount \<noteq> trim_space amount \<or> \<bar>exponent_of (trim_space amount)\<bar> \<ge> 1073741823 then None else Some v)"
proof -
  from v obtain p where p: "parse_decimal (trim_space amount) = Some p" and wf: "wf_parts p"
    and val: "digits_val (dp_int p @ dp_frac p) = 0 \<and> v = 0 \<or>
      digits_val (dp_int p @ dp_frac p) \<noteq> 0 \<and> \<bar>dp_exponent p - int (length (dp_frac p))\<bar> \<le> 1000000 \<and>
      v = (if dp_neg p then -1 else 1) * of_nat (digits_val (dp_int p @ dp_frac p))
        * pow10 (dp_exponent p - int (length (dp_frac p)))"
    by (rule decimal_val_parts)
  let ?m = "digits_val (dp_int p @ dp_frac p)" and ?e = "dp_exponent p - int (length (dp_frac p))"
  from parse_decimal_Some[OF p] obtain c where c: "is_exp_mark c" "trim_space amount = unparse p c" by blast
  have ex: "exponent_of (trim_space amount) = dp_exponent p"
    unfolding c(2) exponent_of_def by (rule exponent_split(2)[OF c(1) wf])
  have bounds: "- ?e \<le> 12 \<and> integer_digits p \<le> 26" if "?m \<noteq> 0"
  proof -
    let ?all = "dp_int p @ dp_frac p"
    have e: "\<bar>?e\<bar> \<le> 1000000" using that val by (elim disjE conjE) (simp_all only:)
    have "wrap64 (- ?e) = - ?e" using e by (intro wrap64_id) (auto simp: min_int64_def max_int64_def)
    then have "- ?e \<le> 12" using pl moneyPlaces_parts[OF p] by simp
    moreover have l: "length (dropWhile (\<lambda>c. c = CHR ''0'') ?all) \<le> length ?all" by (rule length_dropWhile_le)
    have i: "integer_digits p = int (length (dropWhile (\<lambda>c. c = CHR ''0'') ?all)) + ?e"
      using l by (simp add: integer_digits_def Let_def)
    have "int (length ?all) < 2 ^ 62" using parts_length[OF p] len by linarith
    then have "wrap64 (integer_digits p) = integer_digits p"
      using e l by (intro wrap64_id) (auto simp: min_int64_def max_int64_def i)
    then have "integer_digits p \<le> 26" using dg moneyIntegerDigits_parts[OF p] that by simp
    ultimately show ?thesis by blast
  qed
  show ?thesis
  proof (cases "?m = 0")
    case True
    with val show ?thesis by (simp add: numeric_of_text_def p Let_def ex)
  next
    case False
    with val bounds show ?thesis by (auto simp: numeric_of_text_def p Let_def ex)
  qed
qed



section \<open>Prices apply forward\<close>

lemma latest_price_Some:
  "latest_price ps = Some p \<Longrightarrow>
     p \<in> set ps \<and> (\<forall>q \<in> set ps. pr_effective_from q \<le> pr_effective_from p)"
proof (induction ps arbitrary: p)
  case (Cons a ps)
  show ?case
  proof (cases "latest_price ps")
    case None
    then have "ps = []" by (cases ps) (auto split: option.splits if_splits)
    with Cons.prems show ?thesis by simp
  next
    case (Some q)
    have q: "q \<in> set ps" "\<And>x. x \<in> set ps \<Longrightarrow> pr_effective_from x \<le> pr_effective_from q"
      using Cons.IH[OF Some] by auto
    show ?thesis
    proof (cases "pr_effective_from q > pr_effective_from a")
      case True
      with Cons.prems Some q show ?thesis by auto
    next
      case False
      with Cons.prems Some have "p = a" by simp
      with False q(2) show ?thesis by (auto simp: not_less dest: q(2))
    qed
  qed
qed simp

lemma latest_price_None: "latest_price ps = None \<longleftrightarrow> ps = []"
  by (cases ps) (auto split: option.splits)

lemma InsertModelPrice_Inr:
  assumes "InsertModelPrice fault price now db = Inr db'"
  shows "mp_EffectiveFrom price > now"
    and "\<exists>p. db' = db\<lparr>bd_prices := bd_prices db @ [p]\<rparr> \<and> pr_effective_from p = pg_time (mp_EffectiveFrom price)
      \<and> pr_unit_scale p > 0 \<and> insert_price_row p db = Inr db'"
proof -
  from assms obtain p where p: "insert_price_row p db = Inr db'"
    "pr_effective_from p = pg_time (mp_EffectiveFrom price)" "mp_EffectiveFrom price > now"
    by (auto simp: InsertModelPrice_def simp del: check_prices.simps split: if_splits sum.splits)
  then show "mp_EffectiveFrom price > now"
    and "\<exists>p. db' = db\<lparr>bd_prices := bd_prices db @ [p]\<rparr> \<and> pr_effective_from p = pg_time (mp_EffectiveFrom price)
      \<and> pr_unit_scale p > 0 \<and> insert_price_row p db = Inr db'"
    by (auto simp: insert_price_row_def split: if_splits intro!: exI[of _ p])
qed

text \<open>
  A price applies forward only.  Inserting a price leaves the price in effect at every
  microsecond before the insertion as it was, so usage already billed would be billed the same
  again; and \<open>priceAt\<close> reads, of the prices of that model in effect at the instant, the one
  that took effect last, or none when there is none.
\<close>

theorem price_applies_forward:
  assumes "InsertModelPrice fault price now db = Inr db'"
  shows "(\<forall>provider model t. pg_time t < pg_time now \<longrightarrow> priceAt db' provider model t = priceAt db provider model t) \<and>
    (\<forall>provider model t. case price_row_at db' provider model t of
        None \<Rightarrow> \<forall>q \<in> set (bd_prices db'). \<not> (pr_provider q = provider \<and> pr_model q = model \<and> pr_effective_from q \<le> pg_time t)
      | Some p \<Rightarrow> p \<in> set (bd_prices db') \<and> pr_provider p = provider \<and> pr_model p = model
          \<and> pr_effective_from p \<le> pg_time t
          \<and> (\<forall>q \<in> set (bd_prices db'). pr_provider q = provider \<and> pr_model q = model
              \<and> pr_effective_from q \<le> pg_time t \<longrightarrow> pr_effective_from q \<le> pr_effective_from p))"
proof -
  from InsertModelPrice_Inr[OF assms] obtain p where now: "mp_EffectiveFrom price > now"
    and db': "db' = db\<lparr>bd_prices := bd_prices db @ [p]\<rparr>"
    and eff: "pr_effective_from p = pg_time (mp_EffectiveFrom price)" by blast
  have mono: "pg_time now \<le> pr_effective_from p"
  proof -
    have "pg_time t = t div 1000 * 1000" for t by (simp add: pg_time_def minus_mod_eq_div_mult)
    then show ?thesis using now zdiv_mono1[of now "mp_EffectiveFrom price" 1000] by (simp add: eff)
  qed
  have "priceAt db' provider model t = priceAt db provider model t" if "pg_time t < pg_time now" for provider model t
    using that mono by (simp add: priceAt_def price_row_at_def db')
  moreover have "case price_row_at db' provider model t of
        None \<Rightarrow> \<forall>q \<in> set (bd_prices db'). \<not> (pr_provider q = provider \<and> pr_model q = model \<and> pr_effective_from q \<le> pg_time t)
      | Some p \<Rightarrow> p \<in> set (bd_prices db') \<and> pr_provider p = provider \<and> pr_model p = model
          \<and> pr_effective_from p \<le> pg_time t
          \<and> (\<forall>q \<in> set (bd_prices db'). pr_provider q = provider \<and> pr_model q = model
              \<and> pr_effective_from q \<le> pg_time t \<longrightarrow> pr_effective_from q \<le> pr_effective_from p)" for provider model t
    by (auto simp: price_row_at_def latest_price_None filter_empty_conv split: option.splits
        dest!: latest_price_Some)
  ultimately show ?thesis by blast
qed

definition sample_price :: "time \<Rightarrow> ModelPrice" where
  "sample_price t = \<lparr>mp_ID = ''p1'', mp_Provider = ''kiro'', mp_Model = ''m'', mp_Currency = '''',
     mp_UnitScale = 1000, mp_PriceInput = ''0.5'', mp_PriceOutput = ''0.5'', mp_PriceCacheRead = ''0'',
     mp_PriceCacheWrite = ''0'', mp_EffectiveFrom = t, mp_CreatedAt = 0\<rparr>"

definition empty_billing :: billing_db where
  "empty_billing = \<lparr>bd_tenants = [''t1''], bd_prices = [], bd_wallets = [], bd_journal = [],
     bd_usage = [], bd_runs = []\<rparr>"

lemma checkMoney_ok:
  "Decimal_Valid a \<Longrightarrow> moneyPlaces a \<le> 12 \<Longrightarrow> moneyIntegerDigits a \<le> 26 \<Longrightarrow> checkMoney column a = Inr ()"
  by (simp add: checkMoney_def moneyScale_def moneyPrecision_def)

lemma store_amount_exact:
  "numeric_of_text a = Some v \<Longrightarrow> v * 10 ^ 12 = of_int z \<Longrightarrow> \<bar>v\<bar> < 10 ^ 26 \<Longrightarrow> store_amount a = Inr v"
  using money_column_exact[of v] by (auto simp: store_amount_def money_exact_def moneyScale_def)

lemma sample_amount_half:
  "checkMoney column ''0.5'' = Inr ()" "Decimal_Sign ''0.5'' = Some 1" "store_amount ''0.5'' = Inr (1 / 2)"
proof -
  show "checkMoney column ''0.5'' = Inr ()" by (rule checkMoney_ok; code_simp)
  show "Decimal_Sign ''0.5'' = Some 1" by code_simp
  have "numeric_of_text ''0.5'' = Some (1 / 2)" by code_simp
  then show "store_amount ''0.5'' = Inr (1 / 2)" by (rule store_amount_exact[of _ _ 500000000000]) simp_all
qed

lemma sample_amount_zero:
  "checkMoney column ''0'' = Inr ()" "Decimal_Sign ''0'' = Some 0" "store_amount ''0'' = Inr 0"
proof -
  show "checkMoney column ''0'' = Inr ()" by (rule checkMoney_ok; code_simp)
  show "Decimal_Sign ''0'' = Some 0" by code_simp
  have "numeric_of_text ''0'' = Some 0" by code_simp
  then show "store_amount ''0'' = Inr 0" by (rule store_amount_exact[of _ _ 0]) simp_all
qed

lemmas sample_amounts = sample_amount_half sample_amount_zero

lemma sample_price_inserted:
  "InsertModelPrice False (sample_price 9000) 5000 empty_billing =
     Inr (projr (InsertModelPrice False (sample_price 9000) 5000 empty_billing))"
  by (simp add: InsertModelPrice_def sample_price_def sample_amounts insert_price_row_def empty_billing_def)

theorem price_applies_forward_witness:
  "priceAt (projr (InsertModelPrice False (sample_price 9000) 5000 empty_billing)) ''kiro'' ''m'' 1000 = None"
proof -
  let ?r = "InsertModelPrice False (sample_price 9000) 5000 empty_billing"
  note fwd = price_applies_forward[OF sample_price_inserted]
  have "pg_time 1000 < pg_time 5000" by (simp add: pg_time_def)
  with fwd have "priceAt (projr ?r) ''kiro'' ''m'' 1000 = priceAt empty_billing ''kiro'' ''m'' 1000" by blast
  then show ?thesis by (simp add: priceAt_def price_row_at_def empty_billing_def)
qed

section \<open>A wallet equals its journal\<close>

definition tenant_sum :: "journal_row list \<Rightarrow> string \<Rightarrow> rat" where
  "tenant_sum rows tenant = sum_list (map wt_amount (filter (\<lambda>t. wt_tenant_id t = tenant) rows))"

text \<open>Every entry carries the balance right after it.\<close>

definition running_balance :: "journal_row list \<Rightarrow> bool" where
  "running_balance rows \<longleftrightarrow>
     (\<forall>i < length rows. wt_balance_after (rows ! i) = tenant_sum (take (Suc i) rows) (wt_tenant_id (rows ! i)))"

definition balance_ok :: "journal_row list \<Rightarrow> string \<Rightarrow> wallet_row \<Rightarrow> bool" where
  "balance_ok rows tenant w \<longleftrightarrow> tw_balance w = tenant_sum rows tenant \<and> money_exact (tw_balance w)"

definition wallet_inv :: "billing_db \<Rightarrow> bool" where
  "wallet_inv db \<longleftrightarrow>
     distinct (map fst (bd_wallets db)) \<and> distinct (map wt_id (bd_journal db)) \<and>
     (\<forall>tenant w. map_of (bd_wallets db) tenant = Some w \<longrightarrow> balance_ok (bd_journal db) tenant w) \<and>
     (\<forall>t \<in> set (bd_journal db). map_of (bd_wallets db) (wt_tenant_id t) \<noteq> None
        \<and> amount_check (wt_kind t) (wt_amount t)) \<and>
     running_balance (bd_journal db)"

lemma wallet_inv_balance:
  "wallet_inv db \<Longrightarrow> map_of (bd_wallets db) tenant = Some w \<Longrightarrow>
     tw_balance w = tenant_sum (bd_journal db) tenant \<and> money_exact (tw_balance w)"
  unfolding wallet_inv_def balance_ok_def by blast

lemma tenant_sum_snoc:
  "tenant_sum (rows @ [t]) tenant = tenant_sum rows tenant + (if wt_tenant_id t = tenant then wt_amount t else 0)"
  by (simp add: tenant_sum_def)

lemma running_balance_snoc:
  "running_balance rows \<Longrightarrow> wt_balance_after t = tenant_sum (rows @ [t]) (wt_tenant_id t) \<Longrightarrow>
     running_balance (rows @ [t])"
  by (auto simp: running_balance_def nth_append less_Suc_eq)

lemma numeric_of_text_val:
  assumes "numeric_of_text d = Some u" "decimal_val d = Some v"
  shows "u = v"
proof -
  from assms(2) obtain p where p: "parse_decimal (trim_space d) = Some p"
    and v: "digits_val (dp_int p @ dp_frac p) = 0 \<and> v = 0 \<or>
      digits_val (dp_int p @ dp_frac p) \<noteq> 0 \<and> \<bar>dp_exponent p - int (length (dp_frac p))\<bar> \<le> 1000000 \<and>
      v = (if dp_neg p then -1 else 1) * of_nat (digits_val (dp_int p @ dp_frac p))
        * pow10 (dp_exponent p - int (length (dp_frac p)))"
    by (rule decimal_val_parts)
  with assms(1) show ?thesis by (auto simp: numeric_of_text_def Let_def split: if_splits)
qed

text \<open>What a movement that goes through has done: everything about it is exact.\<close>

lemma applyMovement_Inr:
  assumes "applyMovement now mv db = Inr (db', tx)"
  obtains w v t where
    "map_of (bd_wallets db) (wm_TenantID mv) = Some w" "decimal_val (wm_Amount mv) = Some v"
    "money_exact v" "money_column (tw_balance w + v) = Some (wt_balance_after t)"
    "wt_id t = wm_ID mv" "wt_tenant_id t = wm_TenantID mv" "wt_kind t = wm_Kind mv" "wt_amount t = v"
    "wt_billing_run_id t = (if wm_BillingRunID mv = '''' then None else Some (wm_BillingRunID mv))"
    "amount_check (wm_Kind mv) v"
    "wm_ID mv \<notin> wt_id ` set (bd_journal db)"
    "db' = db\<lparr>bd_wallets := AList.update (wm_TenantID mv) (w\<lparr>tw_balance := wt_balance_after t\<rparr>) (bd_wallets db),
       bd_journal := bd_journal db @ [t]\<rparr>"
    "tx = \<lparr>wtx_ID = wm_ID mv, wtx_TenantID = wm_TenantID mv, wtx_Kind = wm_Kind mv,
       wtx_Amount = wm_Amount mv, wtx_BalanceAfter = numeric_text (wt_balance_after t),
       wtx_BillingRunID = wm_BillingRunID mv, wtx_Note = wm_Note mv, wtx_CreatedAt = pg_time now\<rparr>"
proof -
  define rid where "rid = (if wm_BillingRunID mv = '''' then None else Some (wm_BillingRunID mv))"
  note splits = if_splits sum.splits option.splits
  from assms have cm: "checkMoney ''amount'' (wm_Amount mv) = Inr ()"
    and ck: "checkMovementKind (wm_Kind mv) (wm_Amount mv) = Inr ()"
    and fresh: "wm_ID mv \<notin> wt_id ` set (bd_journal db)"
    by (auto simp: applyMovement_def list_ex_iff split: splits)
  from assms obtain w where w: "map_of (bd_wallets db) (wm_TenantID mv) = Some w"
    by (auto simp: applyMovement_def split: splits)
  from assms obtain u where u: "numeric_of_text (wm_Amount mv) = Some u"
    by (auto simp: applyMovement_def split: splits)
  from assms w u obtain b where b: "money_column (tw_balance w + u) = Some b"
    by (auto simp: applyMovement_def split: splits)
  from assms w u obtain stored where st: "money_column u = Some stored"
    by (auto simp: applyMovement_def split: splits)
  from assms have "amount_check (wm_Kind mv) stored \<and>
    db' = db\<lparr>bd_wallets := AList.update (wm_TenantID mv) (w\<lparr>tw_balance := b\<rparr>) (bd_wallets db),
                bd_journal := bd_journal db @
                  [\<lparr>wt_id = wm_ID mv, wt_tenant_id = wm_TenantID mv, wt_kind = wm_Kind mv,
                    wt_amount = stored, wt_balance_after = b, wt_billing_run_id = rid,
                    wt_note = wm_Note mv, wt_created_at = pg_time now\<rparr>]\<rparr> \<and>
      tx = \<lparr>wtx_ID = wm_ID mv, wtx_TenantID = wm_TenantID mv, wtx_Kind = wm_Kind mv,
       wtx_Amount = wm_Amount mv, wtx_BalanceAfter = numeric_text b,
       wtx_BillingRunID = wm_BillingRunID mv, wtx_Note = wm_Note mv, wtx_CreatedAt = pg_time now\<rparr>"
    unfolding applyMovement_def rid_def[symmetric] by (simp add: cm ck w u b st split: if_splits)
  then have ac: "amount_check (wm_Kind mv) stored"
    and rest: "db' = db\<lparr>bd_wallets := AList.update (wm_TenantID mv) (w\<lparr>tw_balance := b\<rparr>) (bd_wallets db),
                bd_journal := bd_journal db @
                  [\<lparr>wt_id = wm_ID mv, wt_tenant_id = wm_TenantID mv, wt_kind = wm_Kind mv,
                    wt_amount = stored, wt_balance_after = b, wt_billing_run_id = rid,
                    wt_note = wm_Note mv, wt_created_at = pg_time now\<rparr>]\<rparr>"
      "tx = \<lparr>wtx_ID = wm_ID mv, wtx_TenantID = wm_TenantID mv, wtx_Kind = wm_Kind mv,
       wtx_Amount = wm_Amount mv, wtx_BalanceAfter = numeric_text b,
       wtx_BillingRunID = wm_BillingRunID mv, wtx_Note = wm_Note mv, wtx_CreatedAt = pg_time now\<rparr>"
    by blast+
  from ck obtain v where v: "decimal_val (wm_Amount mv) = Some v"
    by (auto simp: checkMovementKind_def Decimal_Sign_def decimal_val_def split: if_splits option.splits)
  have uv: "u = v" using u v by (rule numeric_of_text_val)
  from cm have "moneyPlaces (wm_Amount mv) \<le> int moneyScale"
    by (auto simp: checkMoney_def split: if_splits)
  then have ex: "money_exact v" by (rule moneyPlaces_exact[OF v])
  then have "stored = v" using st money_column_exact[OF ex] uv by (simp split: if_splits)
  then show thesis using w v ex b uv fresh ac rest
    by (intro that[of w v "\<lparr>wt_id = wm_ID mv, wt_tenant_id = wm_TenantID mv, wt_kind = wm_Kind mv,
                    wt_amount = stored, wt_balance_after = b, wt_billing_run_id = rid,
                    wt_note = wm_Note mv, wt_created_at = pg_time now\<rparr>"]) (simp_all add: rid_def)
qed

lemma applyMovement_wallet_inv [keep_inv]:
  assumes inv: "wallet_inv db" and ok: "applyMovement now mv db = Inr (db', tx)"
  shows "wallet_inv db'"
proof -
  from ok obtain w v t where w: "map_of (bd_wallets db) (wm_TenantID mv) = Some w"
    and ex: "money_exact v" and b: "money_column (tw_balance w + v) = Some (wt_balance_after t)"
    and t: "wt_id t = wm_ID mv" "wt_tenant_id t = wm_TenantID mv" "wt_kind t = wm_Kind mv" "wt_amount t = v"
    and ac: "amount_check (wm_Kind mv) v" and fresh: "wm_ID mv \<notin> wt_id ` set (bd_journal db)"
    and db': "db' = db\<lparr>bd_wallets := AList.update (wm_TenantID mv) (w\<lparr>tw_balance := wt_balance_after t\<rparr>) (bd_wallets db),
       bd_journal := bd_journal db @ [t]\<rparr>"
    by (rule applyMovement_Inr)
  from inv w have w_ok: "tw_balance w = tenant_sum (bd_journal db) (wm_TenantID mv)" "money_exact (tw_balance w)"
    using wallet_inv_balance by blast+
  have exb: "money_exact (tw_balance w + v)" using w_ok(2) ex by (rule money_exact_add)
  have after: "wt_balance_after t = tw_balance w + v"
    using b money_column_exact[OF exb] by (simp split: if_splits)
  have sum: "wt_balance_after t = tenant_sum (bd_journal db @ [t]) (wm_TenantID mv)"
    by (simp add: tenant_sum_snoc t after w_ok(1))
  have "balance_ok (bd_journal db') tenant u"
    if "map_of (bd_wallets db') tenant = Some u" for tenant u
  proof (cases "tenant = wm_TenantID mv")
    case True
    then have "u = w\<lparr>tw_balance := wt_balance_after t\<rparr>" using that by (simp add: db' gomap_simps)
    with True sum exb after show ?thesis by (simp add: balance_ok_def db')
  next
    case False
    then have "map_of (bd_wallets db) tenant = Some u" using that by (simp add: db' gomap_simps)
    then have "balance_ok (bd_journal db) tenant u" using inv by (simp add: wallet_inv_def)
    with False show ?thesis unfolding balance_ok_def by (auto simp: db' tenant_sum_snoc t)
  qed
  moreover have "running_balance (bd_journal db')"
    using inv sum by (simp add: db' wallet_inv_def running_balance_snoc t)
  moreover have "\<forall>x \<in> set (bd_journal db'). map_of (bd_wallets db') (wt_tenant_id x) \<noteq> None
      \<and> amount_check (wt_kind x) (wt_amount x)"
    using inv ac by (auto simp: db' wallet_inv_def gomap_simps t)
  ultimately show ?thesis using inv fresh
    by (simp add: wallet_inv_def) (simp add: db' distinct_update t)
qed

lemma EnsureWallet_cases:
  assumes "EnsureWallet fate tenant currency db = (db', r)"
  obtains "db' = db"
    | w where "map_of (bd_wallets db) tenant = None" "tw_balance w = 0"
      "db' = db\<lparr>bd_wallets := AList.update tenant w (bd_wallets db)\<rparr>"
proof (cases "tenant = ''''")
  case True
  with assms that(1) show thesis by (simp add: EnsureWallet_def)
next
  case False
  with assms have "commit_as fate BillingDBFault db (insert_wallet tenant currency db) = (db', r)" by (simp add: EnsureWallet_def)
  then show thesis
  proof (cases rule: commit_as_cases)
    case (moved x)
    show thesis
    proof (cases "map_of (bd_wallets db) tenant")
      case None
      from moved(1) that(2)[OF None, of "\<lparr>tw_currency = (if currency = '''' then ''USD'' else currency), tw_balance = 0\<rparr>"] None
      show thesis by (simp add: insert_wallet_def split: if_splits)
    qed (use moved(1) that(1) in \<open>simp add: insert_wallet_def\<close>)
  qed (rule that(1))
qed

lemma EnsureWallet_wallet_inv [keep_inv]:
  assumes inv: "wallet_inv db" and ok: "EnsureWallet fate tenant currency db = (db', r)"
  shows "wallet_inv db'"
  using ok
proof (cases rule: EnsureWallet_cases)
  case 1
  with inv show ?thesis by simp
next
  case (2 w)
  note db' = 2(3) and w = 2(2)
  have "\<forall>t \<in> set (bd_journal db). wt_tenant_id t \<noteq> tenant" using inv 2(1) by (auto simp: wallet_inv_def)
  then have "tenant_sum (bd_journal db) tenant = 0" by (simp add: tenant_sum_def cong: filter_cong)
  then have "balance_ok (bd_journal db) k u"
    if "map_of (bd_wallets db') k = Some u" for k u
    using that inv w by (auto simp: db' gomap_simps balance_ok_def[of _ tenant] wallet_inv_def split: if_splits)
  moreover have "\<forall>x \<in> set (bd_journal db). map_of (bd_wallets db') (wt_tenant_id x) \<noteq> None"
    using inv by (auto simp: wallet_inv_def db' gomap_simps)
  ultimately show ?thesis using inv by (simp add: wallet_inv_def) (simp add: db' distinct_update)
qed

section \<open>Printed amounts pass the guards\<close>

lemma ascii_trim_id:
  assumes "s \<noteq> []" "\<not> ascii_space (hd s)" "\<not> ascii_space (last s)"
  shows "ascii_trim s = s"
proof -
  have "dropWhile ascii_space s = s" using assms by (cases s) auto
  moreover have "dropWhile ascii_space (rev s) = rev s"
    using assms by (cases "rev s") (auto simp: hd_rev[symmetric])
  ultimately show ?thesis by (simp add: ascii_trim_def)
qed

definition float12_parts :: "rat \<Rightarrow> decimal_parts" where
  "float12_parts x = \<lparr>dp_neg = x < 0, dp_int = show_nat (round_scaled x 12 div 10 ^ 12),
     dp_frac = show_fixed 12 (round_scaled x 12 mod 10 ^ 12), dp_exp = []\<rparr>"

lemma parse_float12:
  "parse_decimal (float_string x (int moneyScale)) = Some (float12_parts x)"
  "trim_space (float_string x (int moneyScale)) = float_string x (int moneyScale)"
  "ascii_trim (float_string x (int moneyScale)) = float_string x (int moneyScale)"
proof -
  show p: "parse_decimal (float_string x (int moneyScale)) = Some (float12_parts x)"
    by (simp add: parse_float_string moneyScale_def float12_parts_def)
  from parse_decimal_Some[OF p] obtain c where u: "float_string x (int moneyScale) = unparse (float12_parts x) c"
    and wf: "wf_parts (float12_parts x)" by blast
  note t = parse_decimal_trim[OF p]
  show "trim_space (float_string x (int moneyScale)) = float_string x (int moneyScale)" by (rule t(1))
  have ne: "dp_frac (float12_parts x) \<noteq> []"
    using show_fixed_length[of 12 "round_scaled x 12 mod 10 ^ 12"] by (auto simp: float12_parts_def simp del: show_fixed_length)
  then have "last (float_string x (int moneyScale)) = last (dp_frac (float12_parts x))"
    unfolding u by (simp add: unparse_def float12_parts_def)
  moreover have "is_digit (last (dp_frac (float12_parts x)))"
    using wf ne by (auto simp: wf_parts_def list_all_iff)
  ultimately have last: "is_digit (last (float_string x (int moneyScale)))" by simp
  show "ascii_trim (float_string x (int moneyScale)) = float_string x (int moneyScale)"
    using t(2,3) last by (intro ascii_trim_id) (auto simp: ascii_space_def is_digit_def)
qed

lemma float12_val:
  "digits_val (dp_int (float12_parts x) @ dp_frac (float12_parts x)) = round_scaled x 12"
  "dp_exponent (float12_parts x) = 0" "length (dp_frac (float12_parts x)) = 12" "wf_parts (float12_parts x)"
  using parse_decimal_Some[OF parse_float12(1)[of x]]
  by (simp_all add: float12_parts_def digits_val_append digits_val_show_fixed dp_exponent_def div_mult_mod_eq) blast

lemma round_scaled_exact:
  assumes "money_exact x"
  shows "of_nat (round_scaled x 12) = \<bar>x\<bar> * 10 ^ 12"
proof -
  from assms obtain z where z: "x * 10 ^ 12 = of_int z" by (auto simp: money_exact_def moneyScale_def)
  then have a: "\<bar>x\<bar> * 10 ^ 12 = of_int \<bar>z\<bar>" by (metis abs_mult abs_of_pos of_int_abs zero_less_numeral zero_less_power)
  moreover have "\<lfloor>of_int \<bar>z\<bar> + (1 / 2 :: rat)\<rfloor> = \<bar>z\<bar>" by (rule floor_unique) simp_all
  ultimately show ?thesis by (simp add: round_scaled_def)
qed

lemma float12_integer_digits:
  assumes "money_exact x" "\<bar>x\<bar> < 10 ^ 26" "round_scaled x 12 \<noteq> 0"
  shows "integer_digits (float12_parts x) \<le> 26" and "- 12 < integer_digits (float12_parts x)"
proof -
  let ?p = "float12_parts x"
  have "of_nat (round_scaled x 12) * pow10 (dp_exponent ?p - int (length (dp_frac ?p))) = \<bar>x\<bar>"
    using round_scaled_exact[OF assms(1)] pow10_neg_nat[of 12] by (simp add: float12_val)
  then have "pow10 (integer_digits ?p - 1) \<le> \<bar>x\<bar>"
    using integer_digits_magnitude(1)[OF float12_val(4)[of x]] assms(3) by (simp add: float12_val(1))
  then have lt: "pow10 (integer_digits ?p - 1) < 10 ^ 26" using assms(2) by linarith
  show "integer_digits ?p \<le> 26"
  proof (rule ccontr)
    assume "\<not> integer_digits ?p \<le> 26"
    then have "pow10 (integer_digits ?p - 1) = 10 ^ nat (integer_digits ?p - 1)" "26 \<le> nat (integer_digits ?p - 1)"
      by (auto simp: pow10_def)
    then show False using lt power_increasing[of 26 "nat (integer_digits ?p - 1)" "10 :: rat"] by simp
  qed
  let ?all = "dp_int ?p @ dp_frac ?p"
  have "list_all is_digit ?all" using float12_val(4)[of x] by (simp add: wf_parts_def)
  then have "dropWhile (\<lambda>c. c = CHR ''0'') ?all \<noteq> []"
    using significant_empty assms(3) float12_val(1)[of x] by metis
  moreover have "length (dropWhile (\<lambda>c. c = CHR ''0'') ?all) \<le> length ?all" by (rule length_dropWhile_le)
  moreover have "length (dropWhile (\<lambda>c. c = CHR ''0'') ?all) \<noteq> 0" using calculation(1) by simp
  ultimately show "- 12 < integer_digits ?p"
    using float12_val(2,3)[of x] by (simp add: integer_digits_def Let_def)
qed

lemma checkMoney_float12:
  assumes "money_exact x" "\<bar>x\<bar> < 10 ^ 26"
  shows "checkMoney column (float_string x (int moneyScale)) = Inr ()"
proof (rule checkMoney_ok)
  let ?s = "float_string x (int moneyScale)"
  have p: "parse_decimal (trim_space ?s) = Some (float12_parts x)" by (simp add: parse_float12)
  show "Decimal_Valid ?s" using parse_decimal_trim(2)[OF parse_float12(1)] by (simp add: Decimal_Valid_def parse_float12)
  show "moneyPlaces ?s \<le> 12" by (simp add: moneyPlaces_parts[OF p] float12_val wrap64_def)
  show "moneyIntegerDigits ?s \<le> 26"
  proof (cases "round_scaled x 12 = 0")
    case False
    note d = float12_integer_digits[OF assms False]
    then have "wrap64 (integer_digits (float12_parts x)) = integer_digits (float12_parts x)"
      by (intro wrap64_id) (auto simp: min_int64_def max_int64_def)
    with d False show ?thesis by (simp add: moneyIntegerDigits_parts[OF p] float12_val)
  qed (simp add: moneyIntegerDigits_parts[OF p] float12_val)
qed

lemma store_amount_float12:
  assumes "money_exact x" "\<bar>x\<bar> < 10 ^ 26"
  shows "numeric_of_text (float_string x (int moneyScale)) = Some x"
    and "store_amount (float_string x (int moneyScale)) = Inr x"
proof -
  have "round_scaled x 12 = 0 \<or> integer_digits (float12_parts x) \<le> 26"
    using float12_integer_digits(1)[OF assms] by blast
  then have "\<exists>v. numeric_of_text (float_string x (int moneyScale)) = Some v"
    by (auto simp: numeric_of_text_def parse_float12 Let_def float12_val)
  then obtain v where v: "numeric_of_text (float_string x (int moneyScale)) = Some v" by blast
  have "decimal_val (float_string x (int moneyScale)) = Some (round_to x 12)"
    by (simp add: decimal_val_float_string moneyScale_def)
  from numeric_of_text_val[OF v this] have "v = x"
    using round_to_exact[of x 12] assms(1) by (auto simp: money_exact_def moneyScale_def)
  with v show n: "numeric_of_text (float_string x (int moneyScale)) = Some x" by simp
  then show "store_amount (float_string x (int moneyScale)) = Inr x"
    using money_column_exact[OF assms(1)] assms(2) by (simp add: store_amount_def)
qed

end
