(* ===== verification/BillingJob.thy ===== *)
theory BillingJob
  imports Money "HOL-Library.Multiset"
begin

text \<open>
  \<^verbatim>\<open>internal/control/billing_policy.go\<close> and \<^verbatim>\<open>internal/control/billing_job.go\<close>: what the billing
  run does with every pending ledger row.  A tenant is settled in one transaction on the state
  \<open>billing_db\<close>; a run settles the tenants one after the other and a tenant that fails keeps its
  rows.  The lemmas show that a settlement is the row-by-row specification \<open>settled_row\<close>, that
  the debit is exactly the sum of what the rows were billed, and that running again changes
  nothing.
\<close>

section \<open>The policy\<close>

datatype billingDisposition = dispositionBill | dispositionHold | dispositionNotBillable

record usageClass =
  uc_source :: string
  uc_partial :: bool
  uc_succeeded :: bool

definition usageDispositions :: "(usageClass, billingDisposition) gomap" where
  "usageDispositions =
     [(\<lparr>uc_source = UsageSourceUpstream, uc_partial = False, uc_succeeded = True\<rparr>, dispositionBill),
      (\<lparr>uc_source = UsageSourceUpstream, uc_partial = True, uc_succeeded = True\<rparr>, dispositionBill),
      (\<lparr>uc_source = UsageSourceUpstream, uc_partial = False, uc_succeeded = False\<rparr>, dispositionNotBillable),
      (\<lparr>uc_source = UsageSourceUpstream, uc_partial = True, uc_succeeded = False\<rparr>, dispositionNotBillable),
      (\<lparr>uc_source = UsageSourceEstimated, uc_partial = False, uc_succeeded = True\<rparr>, dispositionHold),
      (\<lparr>uc_source = UsageSourceEstimated, uc_partial = True, uc_succeeded = True\<rparr>, dispositionHold),
      (\<lparr>uc_source = UsageSourceEstimated, uc_partial = False, uc_succeeded = False\<rparr>, dispositionHold),
      (\<lparr>uc_source = UsageSourceEstimated, uc_partial = True, uc_succeeded = False\<rparr>, dispositionHold),
      (\<lparr>uc_source = UsageSourceMissing, uc_partial = False, uc_succeeded = True\<rparr>, dispositionHold),
      (\<lparr>uc_source = UsageSourceMissing, uc_partial = True, uc_succeeded = True\<rparr>, dispositionHold),
      (\<lparr>uc_source = UsageSourceMissing, uc_partial = False, uc_succeeded = False\<rparr>, dispositionNotBillable),
      (\<lparr>uc_source = UsageSourceMissing, uc_partial = True, uc_succeeded = False\<rparr>, dispositionNotBillable)]"

definition dispositionFor :: "usageClass \<Rightarrow> billingDisposition \<times> bool" where
  "dispositionFor cls =
     (case map_of usageDispositions cls of
        None \<Rightarrow> (dispositionHold, False)
      | Some d \<Rightarrow> (d, True))"

definition releaseSucceeded :: "int \<Rightarrow> string \<Rightarrow> bool" where
  "releaseSucceeded statusCode errorClass \<longleftrightarrow>
     errorClass = ErrorOK \<and> statusCode \<ge> 200 \<and> statusCode < 400"

fun billingStateFor :: "billingDisposition \<Rightarrow> billing_error + string" where
  "billingStateFor dispositionHold = Inr ''held''"
| "billingStateFor dispositionNotBillable = Inr ''not_billable''"
| "billingStateFor dispositionBill = Inl (NoTerminalState ''bill'')"

definition row_class :: "ledger_row \<Rightarrow> usageClass" where
  "row_class u = \<lparr>uc_source = ul_usage_source u, uc_partial = ul_partial u,
     uc_succeeded = releaseSucceeded (ul_status_code u) (ul_error_class u)\<rparr>"

section \<open>The amount of a row\<close>

fun line_sum :: "(int \<times> decimal) list \<Rightarrow> rat \<Rightarrow> billing_error + rat" where
  "line_sum [] acc = Inr acc"
| "line_sum ((tokens, unit) # rest) acc =
     (if tokens = 0 then line_sum rest acc
      else if tokens < 0 then Inl NegativeTokens
      else case rat_set_string unit of
        None \<Rightarrow> Inl UnusableAmount
      | Some v \<Rightarrow> line_sum rest (acc + v * of_int tokens))"

definition lineAmount :: "ledger_row \<Rightarrow> ModelPrice \<Rightarrow> billing_error + rat" where
  "lineAmount u price =
     (if mp_UnitScale price \<le> 0 then Inl BadUnitScale
      else case line_sum [(ul_tokens_in u, mp_PriceInput price), (ul_tokens_out u, mp_PriceOutput price),
              (ul_cache_read_tokens u, mp_PriceCacheRead price),
              (ul_cache_write_tokens u, mp_PriceCacheWrite price)] 0 of
        Inl e \<Rightarrow> Inl e
      | Inr amount \<Rightarrow> Inr (amount / of_int (mp_UnitScale price)))"

section \<open>Settling a tenant\<close>

definition pending_before :: "time \<Rightarrow> ledger_row \<Rightarrow> bool" where
  "pending_before windowEnd u \<longleftrightarrow> ul_billing_state u = ''pending'' \<and> ul_occurred_at u < pg_time windowEnd"

definition occurred_before :: "ledger_row \<Rightarrow> ledger_row \<Rightarrow> bool" where
  "occurred_before a b \<longleftrightarrow> ul_occurred_at a < ul_occurred_at b
     \<or> (ul_occurred_at a = ul_occurred_at b \<and> ul_id a \<le> ul_id b)"

definition selectBillableRows :: "string \<Rightarrow> time \<Rightarrow> billing_db \<Rightarrow> ledger_row list" where
  "selectBillableRows tenantID windowEnd db =
     order_by occurred_before
       (filter (\<lambda>u. ul_tenant_id u = tenantID \<and> pending_before windowEnd u) (bd_usage db))"

text \<open>The local variables of the settlement loop; \<open>byState\<close> is split into its two states.\<close>

record settlement =
  st_billed :: "(int \<times> decimal) list"
  st_unpriced :: "int list"
  st_held :: "int list"
  st_not_billable :: "int list"
  st_unknown :: nat
  st_debited :: rat

definition settle_one :: "billing_db \<Rightarrow> ledger_row \<Rightarrow> settlement \<Rightarrow> billing_error + settlement" where
  "settle_one db u st0 =
     (let (disposition, known) = dispositionFor (row_class u);
          st = (if known then st0 else st0\<lparr>st_unknown := st_unknown st0 + 1\<rparr>)
      in if disposition \<noteq> dispositionBill then
           (case billingStateFor disposition of
              Inl e \<Rightarrow> Inl e
            | Inr state \<Rightarrow>
                if state = ''held'' then Inr (st\<lparr>st_held := st_held st @ [ul_id u]\<rparr>)
                else Inr (st\<lparr>st_not_billable := st_not_billable st @ [ul_id u]\<rparr>))
         else case priceAt db (ul_provider u) (ul_model u) (ul_occurred_at u) of
           None \<Rightarrow> Inr (st\<lparr>st_unpriced := st_unpriced st @ [ul_id u]\<rparr>)
         | Some price \<Rightarrow>
             (case lineAmount u price of
                Inl e \<Rightarrow> Inl e
              | Inr amount \<Rightarrow>
                  (let rounded = float_string amount (int moneyScale)
                   in case rat_set_string rounded of
                        None \<Rightarrow> Inl UnusableAmount
                      | Some exact \<Rightarrow> Inr (st\<lparr>st_debited := st_debited st + exact,
                          st_billed := st_billed st @ [(ul_id u, rounded)]\<rparr>))))"

fun settle_rows :: "billing_db \<Rightarrow> ledger_row list \<Rightarrow> settlement \<Rightarrow> billing_error + settlement" where
  "settle_rows db [] st = Inr st"
| "settle_rows db (u # us) st =
     (case settle_one db u st of Inl e \<Rightarrow> Inl e | Inr st' \<Rightarrow> settle_rows db us st')"

definition no_settlement :: settlement where
  "no_settlement = \<lparr>st_billed = [], st_unpriced = [], st_held = [], st_not_billable = [],
     st_unknown = 0, st_debited = 0\<rparr>"

fun mark_billed :: "string \<Rightarrow> (int \<times> decimal) list \<Rightarrow> ledger_row list \<Rightarrow> billing_error + ledger_row list" where
  "mark_billed runID [] us = Inr us"
| "mark_billed runID ((i, amount) # rest) us =
     (case store_amount amount of
        Inl e \<Rightarrow> Inl e
      | Inr v \<Rightarrow> mark_billed runID rest
          (map (\<lambda>u. if ul_id u = i then u\<lparr>ul_billing_state := ''billed'', ul_billed_amount := Some v,
             ul_billing_run_id := Some runID\<rparr> else u) us))"

definition mark_state :: "string \<Rightarrow> string \<Rightarrow> int list \<Rightarrow> ledger_row list \<Rightarrow> ledger_row list" where
  "mark_state runID state ids us =
     map (\<lambda>u. if ul_id u \<in> set ids
        then u\<lparr>ul_billing_state := state, ul_billing_run_id := Some runID\<rparr> else u) us"

definition debit_of :: "string \<Rightarrow> string \<Rightarrow> nat \<Rightarrow> rat \<Rightarrow> WalletMovement" where
  "debit_of runID tenantID n debited =
     \<lparr>wm_ID = runID @ '':'' @ tenantID, wm_TenantID = tenantID, wm_Kind = ''debit'',
      wm_Amount = ''-'' @ float_string debited (int moneyScale), wm_BillingRunID = runID,
      wm_Note = ''billing run '' @ runID @ '' settled '' @ show_nat n @ '' usage rows''\<rparr>"

definition settleTenant ::
  "bool \<Rightarrow> time \<Rightarrow> string \<Rightarrow> string \<Rightarrow> time \<Rightarrow> billing_db \<Rightarrow> billing_error + (billing_db \<times> settlement)" where
  "settleTenant fault now runID tenantID windowEnd db =
     (let rows = selectBillableRows tenantID windowEnd db in
      if fault then Inl BillingDBFault
      else if rows = [] then Inr (db, no_settlement)
      else case settle_rows db rows no_settlement of
        Inl e \<Rightarrow> Inl e
      | Inr st \<Rightarrow>
          (case (if st_debited st > 0
                 then map_sum id fst (applyMovement now
                   (debit_of runID tenantID (length (st_billed st)) (st_debited st)) db)
                 else Inr db) of
             Inl e \<Rightarrow> Inl e
           | Inr db1 \<Rightarrow>
               (case mark_billed runID (st_billed st) (bd_usage db1) of
                  Inl e \<Rightarrow> Inl e
                | Inr us \<Rightarrow>
                    Inr (db1\<lparr>bd_usage := mark_state runID ''not_billable'' (st_not_billable st)
                      (mark_state runID ''held'' (st_held st)
                        (mark_state runID ''unpriced'' (st_unpriced st) us))\<rparr>, st))))"

section \<open>A run\<close>

record BillingRunResult =
  rr_RunID :: string
  rr_WindowEnd :: time
  rr_Skipped :: bool
  rr_TenantsBilled :: nat
  rr_TenantsFailed :: nat
  rr_RowsBilled :: nat
  rr_RowsUnpriced :: nat
  rr_RowsHeld :: nat
  rr_RowsNotBillable :: nat
  rr_RowsUnknownClass :: nat
  rr_TotalDebited :: decimal

text \<open>Where the database or the connection fails a run.\<close>

record run_faults =
  rf_count :: bool
  rf_open :: bool
  rf_list :: bool
  rf_tenant :: "string \<Rightarrow> bool"
  rf_close :: bool

definition pendingTenants :: "time \<Rightarrow> billing_db \<Rightarrow> string list" where
  "pendingTenants windowEnd db =
     sort (remdups (map ul_tenant_id (filter (pending_before windowEnd) (bd_usage db))))"

definition new_run :: "time \<Rightarrow> string \<Rightarrow> run_row" where
  "new_run windowEnd status = \<lparr>br_window_end = pg_time windowEnd, br_status = status,
     br_tenants_billed = 0, br_tenants_failed = 0, br_rows_billed = 0, br_rows_unpriced = 0,
     br_total_debited = 0, br_rows_held = 0, br_rows_not_billable = 0\<rparr>"

definition open_run :: "string \<Rightarrow> run_row \<Rightarrow> billing_db \<Rightarrow> billing_error + billing_db" where
  "open_run runID row db =
     (if map_of (bd_runs db) runID \<noteq> None then Inl DuplicateKey
      else Inr (db\<lparr>bd_runs := AList.update runID row (bd_runs db)\<rparr>))"

definition closeRun :: "bool \<Rightarrow> BillingRunResult \<Rightarrow> string \<Rightarrow> billing_db \<Rightarrow> billing_error + billing_db" where
  "closeRun fault res status db =
     (if fault then Inl BillingDBFault
      else case store_amount (rr_TotalDebited res) of
        Inl e \<Rightarrow> Inl e
      | Inr debited \<Rightarrow>
          (case map_of (bd_runs db) (rr_RunID res) of
             None \<Rightarrow> Inr db
           | Some run \<Rightarrow> Inr (db\<lparr>bd_runs := AList.update (rr_RunID res)
               (run\<lparr>br_status := status, br_tenants_billed := int (rr_TenantsBilled res),
                 br_tenants_failed := int (rr_TenantsFailed res), br_rows_billed := int (rr_RowsBilled res),
                 br_rows_unpriced := int (rr_RowsUnpriced res), br_total_debited := debited,
                 br_rows_held := int (rr_RowsHeld res),
                 br_rows_not_billable := int (rr_RowsNotBillable res)\<rparr>) (bd_runs db)\<rparr>)))"

text \<open>The loop over the tenants: the state, the result so far, the total and the first error.\<close>

record run_loop =
  rl_db :: billing_db
  rl_result :: BillingRunResult
  rl_total :: rat
  rl_error :: "billing_error option"

definition first_error :: "billing_error option \<Rightarrow> billing_error \<Rightarrow> billing_error option" where
  "first_error old e = (case old of None \<Rightarrow> Some e | Some e0 \<Rightarrow> Some e0)"

definition add_settlement :: "settlement \<Rightarrow> BillingRunResult \<Rightarrow> BillingRunResult" where
  "add_settlement st r = r\<lparr>rr_RowsBilled := rr_RowsBilled r + length (st_billed st),
     rr_RowsUnpriced := rr_RowsUnpriced r + length (st_unpriced st),
     rr_RowsHeld := rr_RowsHeld r + length (st_held st),
     rr_RowsNotBillable := rr_RowsNotBillable r + length (st_not_billable st),
     rr_RowsUnknownClass := rr_RowsUnknownClass r + st_unknown st,
     rr_TenantsBilled := rr_TenantsBilled r
       + (if length (st_billed st) > 0 \<or> length (st_unpriced st) > 0 then 1 else 0)\<rparr>"

definition run_tenant :: "run_faults \<Rightarrow> time \<Rightarrow> time \<Rightarrow> string \<Rightarrow> run_loop \<Rightarrow> run_loop" where
  "run_tenant f now windowEnd tenantID l =
     (case settleTenant (rf_tenant f tenantID) now (rr_RunID (rl_result l)) tenantID windowEnd (rl_db l) of
        Inl e \<Rightarrow> l\<lparr>rl_result := (rl_result l)\<lparr>rr_TenantsFailed := rr_TenantsFailed (rl_result l) + 1\<rparr>,
                 rl_error := first_error (rl_error l) e\<rparr>
      | Inr (db, st) \<Rightarrow> l\<lparr>rl_db := db, rl_result := add_settlement st (rl_result l),
                 rl_total := rl_total l + st_debited st\<rparr>)"

definition RunOnce ::
  "run_faults \<Rightarrow> string \<Rightarrow> time \<Rightarrow> time \<Rightarrow> billing_db \<Rightarrow> billing_db \<times> BillingRunResult \<times> billing_error option" where
  "RunOnce f runID now windowEnd db =
     (let res = \<lparr>rr_RunID = runID, rr_WindowEnd = windowEnd, rr_Skipped = False, rr_TenantsBilled = 0,
            rr_TenantsFailed = 0, rr_RowsBilled = 0, rr_RowsUnpriced = 0, rr_RowsHeld = 0,
            rr_RowsNotBillable = 0, rr_RowsUnknownClass = 0, rr_TotalDebited = ''0''\<rparr>
      in if rf_count f then (db, res, Some BillingDBFault)
         else if bd_prices db = [] then
           (let res' = res\<lparr>rr_Skipped := True\<rparr> in
            if rf_open f then (db, res', Some BillingDBFault)
            else case open_run runID (new_run windowEnd ''skipped'') db of
              Inl e \<Rightarrow> (db, res', Some e)
            | Inr db' \<Rightarrow> (db', res', None))
         else if rf_open f then (db, res, Some BillingDBFault)
         else case open_run runID (new_run windowEnd ''running'') db of
           Inl e \<Rightarrow> (db, res, Some e)
         | Inr db1 \<Rightarrow>
             if rf_list f then
               ((case closeRun (rf_close f) res ''failed'' db1 of Inl _ \<Rightarrow> db1 | Inr db2 \<Rightarrow> db2),
                res, Some BillingDBFault)
             else
               (let l = fold (run_tenant f now windowEnd) (pendingTenants windowEnd db1)
                      \<lparr>rl_db = db1, rl_result = res, rl_total = 0, rl_error = None\<rparr>;
                    res1 = (rl_result l)\<lparr>rr_TotalDebited := float_string (rl_total l) (int moneyScale)\<rparr>;
                    status = (if rr_TenantsFailed res1 > 0 then ''failed'' else ''completed'')
                in case closeRun (rf_close f) res1 status (rl_db l) of
                     Inl e \<Rightarrow> (rl_db l, res1, first_error (rl_error l) e)
                   | Inr db2 \<Rightarrow> (db2, res1, rl_error l)))"

section \<open>The specification of a settlement\<close>

definition line_value :: "price_row \<Rightarrow> ledger_row \<Rightarrow> rat" where
  "line_value p u =
     (of_int (ul_tokens_in u) * pr_input p + of_int (ul_tokens_out u) * pr_output p
      + of_int (ul_cache_read_tokens u) * pr_cache_read p
      + of_int (ul_cache_write_tokens u) * pr_cache_write p) / of_int (pr_unit_scale p)"

definition row_price :: "billing_db \<Rightarrow> ledger_row \<Rightarrow> price_row option" where
  "row_price db u = price_row_at db (ul_provider u) (ul_model u) (ul_occurred_at u)"

definition disposition_of :: "ledger_row \<Rightarrow> billingDisposition" where
  "disposition_of u = fst (dispositionFor (row_class u))"

definition charged :: "billing_db \<Rightarrow> ledger_row \<Rightarrow> bool" where
  "charged db u \<longleftrightarrow> disposition_of u = dispositionBill \<and> row_price db u \<noteq> None"

text \<open>What a row costs: its exact amount, rounded once.\<close>

definition charge :: "billing_db \<Rightarrow> ledger_row \<Rightarrow> rat" where
  "charge db u = (if charged db u then round_to (line_value (the (row_price db u)) u) moneyScale else 0)"

definition settled_row :: "billing_db \<Rightarrow> string \<Rightarrow> ledger_row \<Rightarrow> ledger_row" where
  "settled_row db runID u =
     (case disposition_of u of
        dispositionHold \<Rightarrow> u\<lparr>ul_billing_state := ''held'', ul_billing_run_id := Some runID\<rparr>
      | dispositionNotBillable \<Rightarrow> u\<lparr>ul_billing_state := ''not_billable'', ul_billing_run_id := Some runID\<rparr>
      | dispositionBill \<Rightarrow>
          (case row_price db u of
             None \<Rightarrow> u\<lparr>ul_billing_state := ''unpriced'', ul_billing_run_id := Some runID\<rparr>
           | Some p \<Rightarrow> u\<lparr>ul_billing_state := ''billed'', ul_billed_amount := Some (charge db u),
               ul_billing_run_id := Some runID\<rparr>))"

definition price_ok :: "price_row \<Rightarrow> bool" where
  "price_ok p \<longleftrightarrow> pr_unit_scale p > 0 \<and>
     (\<forall>x \<in> {pr_input p, pr_output p, pr_cache_read p, pr_cache_write p}. money_exact x \<and> 0 \<le> x)"

definition price_inv :: "billing_db \<Rightarrow> bool" where
  "price_inv db \<longleftrightarrow> (\<forall>p \<in> set (bd_prices db). price_ok p)"

lemma store_amount_exact_result: "store_amount d = Inr v \<Longrightarrow> money_exact v"
  using money_column_Some by (auto simp: store_amount_def split: option.splits)

lemma InsertModelPrice_price_inv [keep_inv]:
  assumes "price_inv db" "InsertModelPrice fault price now db = Inr db'"
  shows "price_inv db'"
proof -
  from assms(2) obtain p where p: "insert_price_row p db = Inr db'"
    "money_exact (pr_input p)" "money_exact (pr_output p)" "money_exact (pr_cache_read p)"
    "money_exact (pr_cache_write p)"
    by (auto simp: InsertModelPrice_def simp del: check_prices.simps
        split: if_splits sum.splits dest!: store_amount_exact_result)
  then have "db' = db\<lparr>bd_prices := bd_prices db @ [p]\<rparr>" "price_ok p"
    by (auto simp: insert_price_row_def price_ok_def split: if_splits)
  with assms(1) show ?thesis by (auto simp: price_inv_def)
qed

lemma row_price_ok: "price_inv db \<Longrightarrow> row_price db u = Some p \<Longrightarrow> price_ok p"
  by (auto simp: price_inv_def row_price_def price_row_at_def dest!: latest_price_Some)

subsection \<open>Pricing is exact\<close>

lemma rat_set_string_numeric_text: "money_exact x \<Longrightarrow> rat_set_string (numeric_text x) = Some x"
  using round_to_exact[of x moneyScale]
  by (auto simp: numeric_text_def rat_set_string_float_string moneyScale_def money_exact_def)

lemma line_sum_exact:
  assumes "\<forall>(t, x) \<in> set l. money_exact x"
  shows "line_sum (map (\<lambda>(t, x). (t, numeric_text x)) l) acc =
    (if \<exists>(t, x) \<in> set l. t < 0 then Inl NegativeTokens
     else Inr (acc + sum_list (map (\<lambda>(t, x). of_int t * x) l)))"
  using assms
proof (induction l arbitrary: acc)
  case (Cons a l)
  obtain t x where a: "a = (t, x)" by (cases a)
  with Cons.prems have "rat_set_string (numeric_text x) = Some x" by (simp add: rat_set_string_numeric_text)
  with Cons show ?case by (auto simp: a add.assoc mult.commute[of "of_int t" x])
qed simp

lemma lineAmount_value:
  assumes "price_ok p"
  shows "lineAmount u (read_price p) =
    (if ul_tokens_in u < 0 \<or> ul_tokens_out u < 0 \<or> ul_cache_read_tokens u < 0 \<or> ul_cache_write_tokens u < 0
     then Inl NegativeTokens else Inr (line_value p u))"
proof -
  let ?l = "[(ul_tokens_in u, pr_input p), (ul_tokens_out u, pr_output p),
    (ul_cache_read_tokens u, pr_cache_read p), (ul_cache_write_tokens u, pr_cache_write p)]"
  have "\<forall>(t, x) \<in> set ?l. money_exact x" using assms by (auto simp: price_ok_def)
  from line_sum_exact[OF this, of 0] assms show ?thesis
    by (simp add: lineAmount_def read_price_def price_ok_def line_value_def add.assoc)
qed

lemma settle_one_spec:
  assumes pinv: "price_inv db" and ok: "settle_one db u st = Inr st'"
  shows "st_billed st' = st_billed st @
      (if charged db u then [(ul_id u, float_string (line_value (the (row_price db u)) u) (int moneyScale))] else [])"
    and "st_unpriced st' = st_unpriced st @
      (if disposition_of u = dispositionBill \<and> row_price db u = None then [ul_id u] else [])"
    and "st_held st' = st_held st @ (if disposition_of u = dispositionHold then [ul_id u] else [])"
    and "st_not_billable st' = st_not_billable st @
      (if disposition_of u = dispositionNotBillable then [ul_id u] else [])"
    and "st_debited st' = st_debited st + charge db u"
    and "charged db u \<Longrightarrow> 0 \<le> line_value (the (row_price db u)) u"
proof -
  obtain d known where d: "dispositionFor (row_class u) = (d, known)" by fastforce
  have "st_billed st' = st_billed st @
      (if charged db u then [(ul_id u, float_string (line_value (the (row_price db u)) u) (int moneyScale))] else [])
    \<and> st_unpriced st' = st_unpriced st @
      (if disposition_of u = dispositionBill \<and> row_price db u = None then [ul_id u] else [])
    \<and> st_held st' = st_held st @ (if disposition_of u = dispositionHold then [ul_id u] else [])
    \<and> st_not_billable st' = st_not_billable st @
      (if disposition_of u = dispositionNotBillable then [ul_id u] else [])
    \<and> st_debited st' = st_debited st + charge db u
    \<and> (charged db u \<longrightarrow> 0 \<le> line_value (the (row_price db u)) u)"
  proof (cases d)
    case dispositionBill
    show ?thesis
    proof (cases "row_price db u")
      case None
      with ok d dispositionBill show ?thesis
        by (auto simp: settle_one_def Let_def priceAt_def row_price_def disposition_of_def charged_def charge_def
            split: if_splits)
    next
      case (Some p)
      have pok: "price_ok p" using row_price_ok[OF pinv Some] .
      have rs: "rat_set_string (float_string x (int moneyScale)) = Some (round_to x moneyScale)" for x
        by (simp add: rat_set_string_float_string moneyScale_def)
      from ok d dispositionBill Some pok have nn: "0 \<le> ul_tokens_in u \<and> 0 \<le> ul_tokens_out u
          \<and> 0 \<le> ul_cache_read_tokens u \<and> 0 \<le> ul_cache_write_tokens u"
        by (auto simp: settle_one_def Let_def priceAt_def row_price_def lineAmount_value not_less split: if_splits)
      then have v: "0 \<le> line_value p u"
        using pok by (auto simp: line_value_def price_ok_def intro!: divide_nonneg_nonneg add_nonneg_nonneg)
      from ok d dispositionBill Some pok nn v show ?thesis
        by (auto simp: settle_one_def Let_def priceAt_def row_price_def disposition_of_def charged_def charge_def
            lineAmount_value rs split: if_splits)
    qed
  next
    case dispositionHold
    with ok d show ?thesis
      by (auto simp: settle_one_def Let_def disposition_of_def charged_def charge_def split: if_splits)
  next
    case dispositionNotBillable
    with ok d show ?thesis
      by (auto simp: settle_one_def Let_def disposition_of_def charged_def charge_def split: if_splits)
  qed
  then show "st_billed st' = st_billed st @
      (if charged db u then [(ul_id u, float_string (line_value (the (row_price db u)) u) (int moneyScale))] else [])"
    and "st_unpriced st' = st_unpriced st @
      (if disposition_of u = dispositionBill \<and> row_price db u = None then [ul_id u] else [])"
    and "st_held st' = st_held st @ (if disposition_of u = dispositionHold then [ul_id u] else [])"
    and "st_not_billable st' = st_not_billable st @
      (if disposition_of u = dispositionNotBillable then [ul_id u] else [])"
    and "st_debited st' = st_debited st + charge db u"
    and "charged db u \<Longrightarrow> 0 \<le> line_value (the (row_price db u)) u"
    by blast+
qed

lemma settle_rows_spec:
  assumes "price_inv db" "settle_rows db us st = Inr st'"
  shows "st_billed st' = st_billed st @
      map (\<lambda>u. (ul_id u, float_string (line_value (the (row_price db u)) u) (int moneyScale))) (filter (charged db) us)
    \<and> st_unpriced st' = st_unpriced st @
      map ul_id (filter (\<lambda>u. disposition_of u = dispositionBill \<and> row_price db u = None) us)
    \<and> st_held st' = st_held st @ map ul_id (filter (\<lambda>u. disposition_of u = dispositionHold) us)
    \<and> st_not_billable st' = st_not_billable st @
      map ul_id (filter (\<lambda>u. disposition_of u = dispositionNotBillable) us)
    \<and> st_debited st' = st_debited st + sum_list (map (charge db) us)
    \<and> (\<forall>u \<in> set us. charged db u \<longrightarrow> 0 \<le> line_value (the (row_price db u)) u)"
  using assms(2)
proof (induction us arbitrary: st)
  case (Cons u us)
  from Cons.prems obtain st1 where one: "settle_one db u st = Inr st1" and rest: "settle_rows db us st1 = Inr st'"
    by (auto split: sum.splits)
  note s = settle_one_spec[OF assms(1) one]
  from Cons.IH[OF rest] s(1-5) s(6) show ?case by (simp add: add.assoc)
qed simp

subsection \<open>Marking rows\<close>

lemma mset_order_by: "mset (order_by le xs) = mset xs"
proof -
  have "mset (insert_by le x ys) = add_mset x (mset ys)" for x ys
    by (induction ys) simp_all
  then show ?thesis by (induction xs) (simp_all add: order_by_def)
qed

lemma set_order_by [simp]: "set (order_by le xs) = set xs"
  by (metis mset_order_by set_mset_mset)

lemma sum_list_order_by: "sum_list (map f (order_by le xs)) = sum_list (map (f :: 'a \<Rightarrow> rat) xs)"
  by (metis mset_map mset_order_by sum_mset_sum_list)

lemma distinct_map_order_by: "distinct (map f (order_by le xs)) = distinct (map f xs)"
  by (metis mset_map mset_order_by mset_eq_imp_distinct_iff)

lemma order_by_Nil [simp]: "order_by le xs = [] \<longleftrightarrow> xs = []"
  by (metis mset_order_by mset_zero_iff)

lemma decimal_val_float12: "decimal_val (float_string x (int moneyScale)) = Some (round_to x moneyScale)"
  by (simp add: decimal_val_float_string moneyScale_def)

lemma store_amount_float:
  assumes "store_amount (float_string x (int moneyScale)) = Inr v"
  shows "v = round_to x moneyScale"
proof -
  from assms obtain u where u: "numeric_of_text (float_string x (int moneyScale)) = Some u"
    and v: "money_column u = Some v" by (auto simp: store_amount_def split: option.splits)
  have "u = round_to x moneyScale" using numeric_of_text_val[OF u decimal_val_float12] .
  moreover have "money_exact (round_to x moneyScale)"
    using round_to_scaled[of x moneyScale] by (simp add: money_exact_def)
  ultimately show ?thesis using v money_column_exact[of u] by (simp split: if_splits)
qed

definition billed_as :: "string \<Rightarrow> rat \<Rightarrow> ledger_row \<Rightarrow> ledger_row" where
  "billed_as runID v u = u\<lparr>ul_billing_state := ''billed'', ul_billed_amount := Some v, ul_billing_run_id := Some runID\<rparr>"

lemma billed_as_id [simp]: "ul_id (billed_as runID v u) = ul_id u"
  by (simp add: billed_as_def)

lemma mark_billed_Cons:
  "mark_billed runID ((i, amount) # rest) us =
     (case store_amount amount of
        Inl e \<Rightarrow> Inl e
      | Inr v \<Rightarrow> mark_billed runID rest (map (\<lambda>u. if ul_id u = i then billed_as runID v u else u) us))"
  unfolding mark_billed.simps(2) billed_as_def ..

lemma mark_billed_spec:
  assumes "mark_billed runID (map (\<lambda>b. (ul_id b, float_string (f b) (int moneyScale))) bs) us = Inr us'"
    and "distinct (map ul_id bs)"
  shows "us' = map (\<lambda>u. case find (\<lambda>b. ul_id b = ul_id u) bs of
      None \<Rightarrow> u | Some b \<Rightarrow> billed_as runID (round_to (f b) moneyScale) u) us"
  using assms
proof (induction bs arbitrary: us)
  case (Cons b bs)
  from Cons.prems(1) obtain v where v: "store_amount (float_string (f b) (int moneyScale)) = Inr v"
    and rest: "mark_billed runID (map (\<lambda>b. (ul_id b, float_string (f b) (int moneyScale))) bs)
      (map (\<lambda>u. if ul_id u = ul_id b then billed_as runID v u else u) us) = Inr us'"
    by (auto simp: mark_billed_Cons simp del: mark_billed.simps(2) split: sum.splits)
  have none: "find (\<lambda>c. ul_id c = ul_id b) bs = None"
    using Cons.prems(2) by (auto simp: find_None_iff image_iff)
  from Cons.IH[OF rest] Cons.prems(2) store_amount_float[OF v] show ?case
    by (auto simp: none split: option.splits)
qed simp

lemma mark_state_alt:
  "mark_state runID state (map ul_id bs) us =
     map (\<lambda>u. if \<exists>b \<in> set bs. ul_id b = ul_id u
        then u\<lparr>ul_billing_state := state, ul_billing_run_id := Some runID\<rparr> else u) us"
proof -
  have m: "ul_id u \<in> set (map ul_id bs) \<longleftrightarrow> (\<exists>b \<in> set bs. ul_id b = ul_id u)" for u by force
  show ?thesis unfolding mark_state_def m ..
qed

text \<open>A movement leaves the ledger and the prices alone.\<close>

lemma applyMovement_frame:
  assumes "applyMovement now mv db = Inr (db', tx)"
  shows "bd_usage db' = bd_usage db \<and> bd_prices db' = bd_prices db \<and> bd_runs db' = bd_runs db \<and> bd_tenants db' = bd_tenants db"
  using assms by (rule applyMovement_Inr) simp

lemma float_string_neg: "0 < x \<Longrightarrow> ''-'' @ float_string x k = float_string (- x) k"
  by (simp add: float_string_def round_scaled_def Let_def)

definition chosen :: "string \<Rightarrow> time \<Rightarrow> ledger_row \<Rightarrow> bool" where
  "chosen tenantID windowEnd u \<longleftrightarrow> ul_tenant_id u = tenantID \<and> pending_before windowEnd u"

text \<open>The sum the tenant owes for its chosen rows.\<close>

definition amount_due :: "billing_db \<Rightarrow> string \<Rightarrow> time \<Rightarrow> rat" where
  "amount_due db tenantID windowEnd = sum_list (map (charge db) (filter (chosen tenantID windowEnd) (bd_usage db)))"

definition usage_ids :: "billing_db \<Rightarrow> bool" where
  "usage_ids db \<longleftrightarrow> distinct (map ul_id (bd_usage db)) \<and> distinct (map ul_event_id (bd_usage db))"

lemma usage_id_eq: "usage_ids db \<Longrightarrow> u \<in> set (bd_usage db) \<Longrightarrow> v \<in> set (bd_usage db) \<Longrightarrow> ul_id u = ul_id v \<Longrightarrow> u = v"
  by (auto simp: usage_ids_def distinct_map dest: inj_onD)

lemma round_to_nonneg: "0 \<le> x \<Longrightarrow> 0 \<le> round_to x k"
  by (simp add: round_to_def sgn_if)

lemma money_exact_round: "money_exact (round_to x moneyScale)"
  using round_to_scaled[of x moneyScale] by (simp add: money_exact_def)

lemma charge_exact: "money_exact (charge db u)"
  by (simp add: charge_def money_exact_round)

lemma sum_list_exact: "(\<And>x. x \<in> set xs \<Longrightarrow> money_exact x) \<Longrightarrow> money_exact (sum_list xs)"
  by (induction xs) (simp_all add: money_exact_add)

lemma amount_due_exact: "money_exact (amount_due db t w)"
  unfolding amount_due_def by (rule sum_list_exact) (auto simp: charge_exact)

text \<open>The rows of one settlement, wherever they stand in the ledger.\<close>

lemma marked_rows:
  assumes ids: "usage_ids db" and sub: "set rows \<subseteq> set (bd_usage db)" and u: "u \<in> set (bd_usage db)"
  shows "(\<exists>b \<in> set (filter P rows). ul_id b = ul_id u) \<longleftrightarrow> u \<in> set rows \<and> P u"
    and "find (\<lambda>b. ul_id b = ul_id u) (filter P rows) = (if u \<in> set rows \<and> P u then Some u else None)"
proof -
  have e: "b = u" if "b \<in> set rows" "ul_id b = ul_id u" for b
    using usage_id_eq[OF ids _ u] sub that by blast
  then show "(\<exists>b \<in> set (filter P rows). ul_id b = ul_id u) \<longleftrightarrow> u \<in> set rows \<and> P u" by auto
  show "find (\<lambda>b. ul_id b = ul_id u) (filter P rows) = (if u \<in> set rows \<and> P u then Some u else None)"
  proof (cases "find (\<lambda>b. ul_id b = ul_id u) (filter P rows)")
    case None
    then show ?thesis by (auto simp: find_None_iff)
  next
    case (Some b)
    then obtain i where "i < length (filter P rows)" "b = filter P rows ! i" "ul_id b = ul_id u"
      by (auto simp: find_Some_iff)
    then have "b \<in> set (filter P rows)" "ul_id b = ul_id u" using nth_mem by blast+
    with e Some show ?thesis by auto
  qed
qed

lemma settleTenant_Inr:
  assumes "settleTenant fault now runID tenantID windowEnd db = Inr (db', st)"
    and "selectBillableRows tenantID windowEnd db \<noteq> []"
  obtains db1 us where "settle_rows db (selectBillableRows tenantID windowEnd db) no_settlement = Inr st"
    "if st_debited st > 0 then \<exists>tx. applyMovement now
       (debit_of runID tenantID (length (st_billed st)) (st_debited st)) db = Inr (db1, tx) else db1 = db"
    "mark_billed runID (st_billed st) (bd_usage db1) = Inr us"
    "db' = db1\<lparr>bd_usage := mark_state runID ''not_billable'' (st_not_billable st)
      (mark_state runID ''held'' (st_held st) (mark_state runID ''unpriced'' (st_unpriced st) us))\<rparr>"
proof -
  from assms obtain st1 where st1: "settle_rows db (selectBillableRows tenantID windowEnd db) no_settlement = Inr st1"
    by (auto simp: settleTenant_def Let_def split: if_splits sum.splits)
  let ?mv = "if st_debited st1 > 0
      then map_sum id fst (applyMovement now (debit_of runID tenantID (length (st_billed st1)) (st_debited st1)) db)
      else Inr db"
  from assms st1 obtain db1 where db1: "?mv = Inr db1"
    by (auto simp: settleTenant_def Let_def split: if_splits sum.splits)
  from assms st1 db1 obtain us where us: "mark_billed runID (st_billed st1) (bd_usage db1) = Inr us"
    by (auto simp: settleTenant_def Let_def split: if_splits sum.splits)
  from assms have "\<not> fault" by (auto simp: settleTenant_def Let_def split: if_splits)
  with assms st1 db1 us have fin: "st = st1" "db' = db1\<lparr>bd_usage := mark_state runID ''not_billable'' (st_not_billable st1)
      (mark_state runID ''held'' (st_held st1) (mark_state runID ''unpriced'' (st_unpriced st1) us))\<rparr>"
    by (auto simp: settleTenant_def Let_def split: if_splits)
  have "if st_debited st > 0 then \<exists>tx. applyMovement now
       (debit_of runID tenantID (length (st_billed st)) (st_debited st)) db = Inr (db1, tx) else db1 = db"
    using db1 fin(1) by (cases "applyMovement now (debit_of runID tenantID (length (st_billed st1)) (st_debited st1)) db")
      (auto split: if_splits)
  with st1 us fin show thesis by (intro that[of db1 us]) simp_all
qed

section \<open>A settlement is its specification\<close>

text \<open>The rows: each chosen row becomes what the policy and the price say, the others stay.\<close>

lemma settled_usage:
  assumes ids: "usage_ids db" and pinv: "price_inv db"
    and ok: "settleTenant fault now runID tenantID windowEnd db = Inr (db', st)"
  shows "bd_usage db' = map (\<lambda>u. if chosen tenantID windowEnd u then settled_row db runID u else u) (bd_usage db)"
proof (cases "selectBillableRows tenantID windowEnd db = []")
  case True
  then have "\<forall>u \<in> set (bd_usage db). \<not> chosen tenantID windowEnd u"
    by (auto simp: selectBillableRows_def chosen_def filter_empty_conv)
  moreover have "db' = db" using ok True by (auto simp: settleTenant_def split: if_splits)
  ultimately show ?thesis by (simp add: map_idI)
next
  case False
  define rows where "rows = selectBillableRows tenantID windowEnd db"
  have set_rows: "set rows = {u \<in> set (bd_usage db). chosen tenantID windowEnd u}"
    by (auto simp: rows_def selectBillableRows_def chosen_def)
  have drows: "distinct (map ul_id rows)"
    unfolding rows_def selectBillableRows_def distinct_map_order_by
    using ids by (intro distinct_map_filter) (simp add: usage_ids_def)
  from ok False obtain db1 us where sr: "settle_rows db rows no_settlement = Inr st"
    and mv: "if st_debited st > 0 then \<exists>tx. applyMovement now
       (debit_of runID tenantID (length (st_billed st)) (st_debited st)) db = Inr (db1, tx) else db1 = db"
    and mb: "mark_billed runID (st_billed st) (bd_usage db1) = Inr us"
    and db': "db' = db1\<lparr>bd_usage := mark_state runID ''not_billable'' (st_not_billable st)
      (mark_state runID ''held'' (st_held st) (mark_state runID ''unpriced'' (st_unpriced st) us))\<rparr>"
    unfolding rows_def by (rule settleTenant_Inr)
  have u1: "bd_usage db1 = bd_usage db" using mv applyMovement_frame by (auto split: if_splits)
  note spec = settle_rows_spec[OF pinv sr]
  have b: "st_billed st = map (\<lambda>u. (ul_id u, float_string (line_value (the (row_price db u)) u) (int moneyScale)))
      (filter (charged db) rows)"
    and un: "st_unpriced st = map ul_id (filter (\<lambda>u. disposition_of u = dispositionBill \<and> row_price db u = None) rows)"
    and he: "st_held st = map ul_id (filter (\<lambda>u. disposition_of u = dispositionHold) rows)"
    and nb: "st_not_billable st = map ul_id (filter (\<lambda>u. disposition_of u = dispositionNotBillable) rows)"
    using spec by (simp_all add: no_settlement_def)
  have "distinct (map ul_id (filter (charged db) rows))" using drows by (simp add: distinct_map_filter)
  note us = mark_billed_spec[OF mb[unfolded b u1] this]
  have sub: "set rows \<subseteq> set (bd_usage db)" using set_rows by blast
  note m = marked_rows[OF ids sub]
  have "bd_usage db' = map (\<lambda>u. if u \<in> set rows then settled_row db runID u else u) (bd_usage db)"
  proof -
    define mark where "mark = (\<lambda>state (bs :: ledger_row list) u. if \<exists>b \<in> set bs. ul_id b = ul_id u
        then u\<lparr>ul_billing_state := state, ul_billing_run_id := Some runID\<rparr> else (u :: ledger_row))"
    have mark: "mark_state runID state (map ul_id bs) xs = map (mark state bs) xs" for state bs xs
      by (simp add: mark_state_alt mark_def)
    define pay where "pay = (\<lambda>u :: ledger_row. case find (\<lambda>b. ul_id b = ul_id u) (filter (charged db) rows) of
        None \<Rightarrow> u | Some b \<Rightarrow> billed_as runID (round_to (line_value (the (row_price db b)) b) moneyScale) u)"
    have idm: "ul_id (mark state bs u) = ul_id u" for state bs u by (simp add: mark_def)
    have "mark ''not_billable'' (filter (\<lambda>u. disposition_of u = dispositionNotBillable) rows)
        (mark ''held'' (filter (\<lambda>u. disposition_of u = dispositionHold) rows)
        (mark ''unpriced'' (filter (\<lambda>u. disposition_of u = dispositionBill \<and> row_price db u = None) rows)
        (pay u))) = (if u \<in> set rows then settled_row db runID u else u)" (is "?lhs = _")
      if u: "u \<in> set (bd_usage db)" for u
    proof -
      have pay: "pay u = (if u \<in> set rows \<and> charged db u
          then billed_as runID (round_to (line_value (the (row_price db u)) u) moneyScale) u else u)"
        unfolding pay_def m(2)[OF u] by simp
      have mk: "mark state (filter P rows) v = (if u \<in> set rows \<and> P u
          then v\<lparr>ul_billing_state := state, ul_billing_run_id := Some runID\<rparr> else v)"
        if "ul_id v = ul_id u" for state P v unfolding mark_def that m(1)[OF u] ..
      have i: "ul_id (pay u) = ul_id u" by (simp add: pay)
      show ?thesis
        by (cases "disposition_of u"; cases "row_price db u")
          (simp_all add: mk idm i pay settled_row_def charged_def charge_def billed_as_def)
    qed
    then show ?thesis
      unfolding db' un he nb us by (simp add: mark pay_def[symmetric])
  qed
  also have "\<dots> = map (\<lambda>u. if chosen tenantID windowEnd u then settled_row db runID u else u) (bd_usage db)"
    using set_rows by auto
  finally show ?thesis .
qed

lemma amount_due_rows:
  "sum_list (map (charge db) (selectBillableRows tenantID windowEnd db)) = amount_due db tenantID windowEnd"
proof -
  have "chosen tenantID windowEnd = (\<lambda>u. ul_tenant_id u = tenantID \<and> pending_before windowEnd u)"
    by (simp add: chosen_def fun_eq_iff)
  then show ?thesis by (simp add: selectBillableRows_def sum_list_order_by amount_due_def)
qed

text \<open>The wallet: the debit is the exact sum, or there is none when nothing is due.\<close>

lemma settled_wallet:
  assumes winv: "wallet_inv db" and pinv: "price_inv db"
    and ok: "settleTenant fault now runID tenantID windowEnd db = Inr (db', st)"
  defines "due \<equiv> amount_due db tenantID windowEnd"
  shows "st_debited st = due" and "0 \<le> due"
    and "due = 0 \<Longrightarrow> bd_wallets db' = bd_wallets db \<and> bd_journal db' = bd_journal db"
    and "due \<noteq> 0 \<Longrightarrow> \<exists>w t. map_of (bd_wallets db) tenantID = Some w \<and>
      bd_wallets db' = AList.update tenantID (w\<lparr>tw_balance := tw_balance w - due\<rparr>) (bd_wallets db) \<and>
      bd_journal db' = bd_journal db @ [t] \<and> wt_tenant_id t = tenantID \<and> wt_kind t = ''debit'' \<and>
      wt_amount t = - due \<and> wt_balance_after t = tw_balance w - due \<and>
      wt_billing_run_id t = (if runID = '''' then None else Some runID)"
    and "wallet_inv db'" and "bd_prices db' = bd_prices db" and "bd_runs db' = bd_runs db"
proof -
  let ?rows = "selectBillableRows tenantID windowEnd db"
  have inv_usage: "wallet_inv (d\<lparr>bd_usage := x\<rparr>) = wallet_inv d" for d x by (simp add: wallet_inv_def)
  have "st_debited st = due \<and> 0 \<le> due \<and>
    (due = 0 \<longrightarrow> bd_wallets db' = bd_wallets db \<and> bd_journal db' = bd_journal db) \<and>
    (due \<noteq> 0 \<longrightarrow> (\<exists>w t. map_of (bd_wallets db) tenantID = Some w \<and>
      bd_wallets db' = AList.update tenantID (w\<lparr>tw_balance := tw_balance w - due\<rparr>) (bd_wallets db) \<and>
      bd_journal db' = bd_journal db @ [t] \<and> wt_tenant_id t = tenantID \<and> wt_kind t = ''debit'' \<and>
      wt_amount t = - due \<and> wt_balance_after t = tw_balance w - due \<and>
      wt_billing_run_id t = (if runID = '''' then None else Some runID))) \<and>
    wallet_inv db' \<and> bd_prices db' = bd_prices db \<and> bd_runs db' = bd_runs db"
  proof (cases "?rows = []")
    case True
    then have "db' = db" "st = no_settlement" using ok by (auto simp: settleTenant_def split: if_splits)
    moreover have "due = 0" using amount_due_rows[of db tenantID windowEnd] True by (simp add: due_def)
    ultimately show ?thesis using winv by (simp add: no_settlement_def)
  next
    case False
    from ok False obtain db1 us where sr: "settle_rows db ?rows no_settlement = Inr st"
      and mv: "if st_debited st > 0 then \<exists>tx. applyMovement now
         (debit_of runID tenantID (length (st_billed st)) (st_debited st)) db = Inr (db1, tx) else db1 = db"
      and db': "db' = db1\<lparr>bd_usage := mark_state runID ''not_billable'' (st_not_billable st)
        (mark_state runID ''held'' (st_held st) (mark_state runID ''unpriced'' (st_unpriced st) us))\<rparr>"
      by (rule settleTenant_Inr)
    note spec = settle_rows_spec[OF pinv sr]
    have deb: "st_debited st = due"
      using spec amount_due_rows[of db tenantID windowEnd] by (simp add: no_settlement_def due_def)
    have "0 \<le> charge db u" if "u \<in> set ?rows" for u
      using spec that by (simp add: charge_def round_to_nonneg)
    then have nn: "0 \<le> due"
      unfolding due_def amount_due_rows[symmetric] by (intro sum_list_nonneg) auto
    show ?thesis
    proof (cases "due = 0")
      case True
      with mv deb db' winv nn show ?thesis by (simp add: inv_usage)
    next
      case nz: False
      with mv deb nn obtain tx where am: "applyMovement now (debit_of runID tenantID (length (st_billed st)) due) db = Inr (db1, tx)"
        by (auto split: if_splits)
      from am obtain w v t where w: "map_of (bd_wallets db) tenantID = Some w"
        and v: "decimal_val (''-'' @ float_string due (int moneyScale)) = Some v"
        and col: "money_column (tw_balance w + v) = Some (wt_balance_after t)"
        and t: "wt_tenant_id t = tenantID" "wt_kind t = ''debit''" "wt_amount t = v"
          "wt_billing_run_id t = (if runID = '''' then None else Some runID)"
        and db1: "db1 = db\<lparr>bd_wallets := AList.update tenantID (w\<lparr>tw_balance := wt_balance_after t\<rparr>) (bd_wallets db),
          bd_journal := bd_journal db @ [t]\<rparr>"
        by (rule applyMovement_Inr) (simp add: debit_of_def)
      have ex: "money_exact (- due)"
        using amount_due_exact[of db tenantID windowEnd] unfolding due_def money_exact_def
        by (metis mult_minus_left of_int_minus)
      have "v = - due"
        using v float_string_neg[of due] nz nn decimal_val_float12[of "- due"] round_to_exact[of "- due" moneyScale] ex
        by (auto simp: money_exact_def)
      moreover have "money_exact (tw_balance w + - due)"
        using wallet_inv_balance[OF winv w] ex by (intro money_exact_add) auto
      ultimately have "wt_balance_after t = tw_balance w - due"
        using col money_column_exact[of "tw_balance w + - due"] by (simp split: if_splits)
      with w t db1 db' deb nn nz \<open>v = - due\<close> applyMovement_wallet_inv[OF winv am] show ?thesis
        by (simp add: inv_usage)
    qed
  qed
  then show "st_debited st = due" and "0 \<le> due"
    and "due = 0 \<Longrightarrow> bd_wallets db' = bd_wallets db \<and> bd_journal db' = bd_journal db"
    and "due \<noteq> 0 \<Longrightarrow> \<exists>w t. map_of (bd_wallets db) tenantID = Some w \<and>
      bd_wallets db' = AList.update tenantID (w\<lparr>tw_balance := tw_balance w - due\<rparr>) (bd_wallets db) \<and>
      bd_journal db' = bd_journal db @ [t] \<and> wt_tenant_id t = tenantID \<and> wt_kind t = ''debit'' \<and>
      wt_amount t = - due \<and> wt_balance_after t = tw_balance w - due \<and>
      wt_billing_run_id t = (if runID = '''' then None else Some runID)"
    and "wallet_inv db'" and "bd_prices db' = bd_prices db" and "bd_runs db' = bd_runs db"
    by blast+
qed

definition billing_inv :: "billing_db \<Rightarrow> bool" where
  "billing_inv db \<longleftrightarrow> usage_ids db \<and> price_inv db \<and> wallet_inv db"

lemma settled_row_keys [simp]:
  "ul_id (settled_row db runID u) = ul_id u" "ul_event_id (settled_row db runID u) = ul_event_id u"
  "ul_tenant_id (settled_row db runID u) = ul_tenant_id u"
  "ul_occurred_at (settled_row db runID u) = ul_occurred_at u"
  by (simp_all add: settled_row_def split: billingDisposition.splits option.splits)

lemma settled_row_state: "ul_billing_state (settled_row db runID u) \<in> {''held'', ''not_billable'', ''unpriced'', ''billed''}"
  by (simp add: settled_row_def split: billingDisposition.splits option.splits)

lemma usage_ids_map:
  assumes "usage_ids db" "bd_usage db' = map f (bd_usage db)"
    "\<And>u. ul_id (f u) = ul_id u" "\<And>u. ul_event_id (f u) = ul_event_id u"
  shows "usage_ids db'"
  using assms by (simp add: usage_ids_def o_def)

lemma settleTenant_inv [keep_inv]:
  assumes "billing_inv db" "settleTenant fault now runID tenantID windowEnd db = Inr (db', st)"
  shows "billing_inv db'"
proof -
  have inv: "usage_ids db" "price_inv db" "wallet_inv db" using assms(1) by (auto simp: billing_inv_def)
  have "usage_ids db'"
    by (rule usage_ids_map[OF inv(1) settled_usage[OF inv(1,2) assms(2)]]) auto
  with inv settled_wallet(5,6)[OF inv(3,2) assms(2)] show ?thesis
    by (simp add: billing_inv_def price_inv_def)
qed

text \<open>
  C3.  A settlement does exactly what the policy and the prices say, to the last digit.  Every
  pending row of the tenant before the window's end becomes billed with its amount rounded once
  to twelve places, unpriced, held or not billable; every other row of the ledger stays as it
  is; and the tenant's wallet and journal move by exactly the sum of the amounts just billed,
  in one debit that names the run, or not at all when nothing is due.
\<close>

theorem settlement_exact:
  assumes "billing_inv db" and "settleTenant fault now runID tenantID windowEnd db = Inr (db', st)"
  shows "bd_usage db' = map (\<lambda>u. if ul_tenant_id u = tenantID \<and> pending_before windowEnd u
        then settled_row db runID u else u) (bd_usage db)
    \<and> (let due = sum_list (map (charge db) (filter (\<lambda>u. ul_tenant_id u = tenantID \<and> pending_before windowEnd u) (bd_usage db)))
       in if due = 0 then bd_wallets db' = bd_wallets db \<and> bd_journal db' = bd_journal db
          else 0 < due \<and> (\<exists>w t. map_of (bd_wallets db) tenantID = Some w \<and>
            map_of (bd_wallets db') = (map_of (bd_wallets db))(tenantID \<mapsto> w\<lparr>tw_balance := tw_balance w - due\<rparr>) \<and>
            bd_journal db' = bd_journal db @ [t] \<and> wt_tenant_id t = tenantID \<and> wt_kind t = ''debit'' \<and>
            wt_amount t = - due \<and> wt_balance_after t = tw_balance w - due \<and>
            wt_billing_run_id t = (if runID = '''' then None else Some runID)))"
proof -
  have inv: "usage_ids db" "price_inv db" "wallet_inv db" using assms(1) by (auto simp: billing_inv_def)
  have c: "chosen tenantID windowEnd = (\<lambda>u. ul_tenant_id u = tenantID \<and> pending_before windowEnd u)"
    by (simp add: chosen_def fun_eq_iff)
  note w = settled_wallet[OF inv(3,2) assms(2), unfolded amount_due_def c]
  show ?thesis
    using settled_usage[OF inv(1,2) assms(2), unfolded c] w(2,3,4)
    by (auto simp: Let_def gomap_simps)
qed

section \<open>A whole run\<close>

lemma row_price_cong: "bd_prices db' = bd_prices db \<Longrightarrow> row_price db' = row_price db"
  by (simp add: row_price_def price_row_at_def fun_eq_iff)

lemma charge_cong:
  assumes "bd_prices db' = bd_prices db"
  shows "charge db' = charge db"
  by (rule ext) (simp only: charge_def charged_def row_price_cong[OF assms])

lemma settled_row_cong:
  assumes "bd_prices db' = bd_prices db"
  shows "settled_row db' = settled_row db"
  by (intro ext) (simp only: settled_row_def row_price_cong[OF assms] charge_cong[OF assms])

lemma chosen_settled: "\<not> chosen t w (settled_row db runID u)"
  using settled_row_state[of db runID u] by (auto simp: chosen_def pending_before_def)

text \<open>What a run has done once the tenants of \<open>S\<close> went through.\<close>

definition run_effect :: "string \<Rightarrow> time \<Rightarrow> string set \<Rightarrow> billing_db \<Rightarrow> billing_db \<Rightarrow> bool" where
  "run_effect runID windowEnd S db db' \<longleftrightarrow>
     bd_usage db' = map (\<lambda>u. if ul_tenant_id u \<in> S \<and> pending_before windowEnd u
        then settled_row db runID u else u) (bd_usage db) \<and>
     map_of (bd_wallets db') = (\<lambda>t. if t \<in> S
        then map_option (\<lambda>w. w\<lparr>tw_balance := tw_balance w - amount_due db t windowEnd\<rparr>) (map_of (bd_wallets db) t)
        else map_of (bd_wallets db) t) \<and>
     bd_prices db' = bd_prices db"

lemma run_effect_refl: "run_effect runID windowEnd {} db db"
  by (simp add: run_effect_def)

lemma run_effect_settle:
  assumes inv: "billing_inv db1" and e: "run_effect runID windowEnd S db db1" and t: "t \<notin> S"
    and ok: "settleTenant fault now runID t windowEnd db1 = Inr (db2, st)"
  shows "run_effect runID windowEnd (insert t S) db db2" and "st_debited st = amount_due db t windowEnd"
proof -
  have i: "usage_ids db1" "price_inv db1" "wallet_inv db1" using inv by (auto simp: billing_inv_def)
  have p: "bd_prices db1 = bd_prices db" using e by (simp add: run_effect_def)
  note u = settled_usage[OF i(1,2) ok] and w = settled_wallet[OF i(3,2) ok]
  have usage1: "bd_usage db1 = map (\<lambda>u. if ul_tenant_id u \<in> S \<and> pending_before windowEnd u
        then settled_row db runID u else u) (bd_usage db)" using e by (simp add: run_effect_def)
  have "filter (chosen t windowEnd) (map (\<lambda>u. if ul_tenant_id u \<in> S \<and> pending_before windowEnd u
        then settled_row db runID u else u) us) = filter (chosen t windowEnd) us" for us
    using t by (induction us) (auto simp: chosen_settled, auto simp: chosen_def)
  then have due: "amount_due db1 t windowEnd = amount_due db t windowEnd"
    using usage1 by (simp add: amount_due_def charge_cong[OF p])
  with w(1) show "st_debited st = amount_due db t windowEnd" by simp
  have usage2: "bd_usage db2 = map (\<lambda>u. if ul_tenant_id u \<in> insert t S \<and> pending_before windowEnd u
        then settled_row db runID u else u) (bd_usage db)"
    using t by (auto simp: u usage1 settled_row_cong[OF p] chosen_settled) (auto simp: chosen_def)
  have "map_of (bd_wallets db2) = (\<lambda>k. if k = t
        then map_option (\<lambda>w. w\<lparr>tw_balance := tw_balance w - amount_due db t windowEnd\<rparr>) (map_of (bd_wallets db1) t)
        else map_of (bd_wallets db1) k)"
  proof (cases "amount_due db t windowEnd = 0")
    case True
    then have "bd_wallets db2 = bd_wallets db1" using w(3) due by simp
    with True show ?thesis by (auto simp: fun_eq_iff option.map_ident)
  next
    case False
    with w(4) due show ?thesis by (auto simp: fun_eq_iff gomap_simps)
  qed
  with e t usage2 w(6) show "run_effect runID windowEnd (insert t S) db db2"
    by (auto simp: run_effect_def fun_eq_iff)
qed

lemma run_fold:
  fixes f :: run_faults and now :: time
  assumes "billing_inv (rl_db l)" "run_effect runID windowEnd S db (rl_db l)" "rr_RunID (rl_result l) = runID"
    "distinct ts" "set ts \<inter> S = {}"
  defines "l' \<equiv> fold (run_tenant f now windowEnd) ts l"
  shows "\<exists>T. T \<subseteq> set ts \<and> billing_inv (rl_db l') \<and> run_effect runID windowEnd (S \<union> T) db (rl_db l') \<and>
    rr_RunID (rl_result l') = runID \<and> bd_runs (rl_db l') = bd_runs (rl_db l) \<and>
    rr_TenantsFailed (rl_result l') = rr_TenantsFailed (rl_result l) + (length ts - card T) \<and>
    rl_total l' = rl_total l + (\<Sum>t \<in> T. amount_due db t windowEnd) \<and>
    rr_Skipped (rl_result l') = rr_Skipped (rl_result l)"
  using assms(1-5) unfolding l'_def
proof (induction ts arbitrary: l S)
  case Nil
  then show ?case by (intro exI[of _ "{}"]) simp
next
  case (Cons t ts)
  define l1 where "l1 = run_tenant f now windowEnd t l"
  have t: "t \<notin> S" and d: "distinct ts" "t \<notin> set ts" "set ts \<inter> insert t S = {}" "set ts \<inter> S = {}"
    using Cons.prems by auto
  show ?case
  proof (cases "settleTenant (rf_tenant f t) now (rr_RunID (rl_result l)) t windowEnd (rl_db l)")
    case (Inl e)
    then have l1: "rl_db l1 = rl_db l" "rr_RunID (rl_result l1) = runID" "rl_total l1 = rl_total l"
      "rr_TenantsFailed (rl_result l1) = rr_TenantsFailed (rl_result l) + 1"
      "rr_Skipped (rl_result l1) = rr_Skipped (rl_result l)"
      using Cons.prems(3) by (simp_all add: l1_def run_tenant_def)
    from Cons.IH[of l1 S] Cons.prems(1,2) l1 d obtain T where T: "T \<subseteq> set ts"
      "billing_inv (rl_db (fold (run_tenant f now windowEnd) ts l1))"
      "run_effect runID windowEnd (S \<union> T) db (rl_db (fold (run_tenant f now windowEnd) ts l1))"
      "rr_RunID (rl_result (fold (run_tenant f now windowEnd) ts l1)) = runID"
      "bd_runs (rl_db (fold (run_tenant f now windowEnd) ts l1)) = bd_runs (rl_db l)"
      "rr_TenantsFailed (rl_result (fold (run_tenant f now windowEnd) ts l1)) =
         rr_TenantsFailed (rl_result l) + 1 + (length ts - card T)"
      "rl_total (fold (run_tenant f now windowEnd) ts l1) = rl_total l + (\<Sum>t \<in> T. amount_due db t windowEnd)"
      "rr_Skipped (rl_result (fold (run_tenant f now windowEnd) ts l1)) = rr_Skipped (rl_result l)"
      by auto
    have "card T \<le> length ts" using card_mono[OF finite_set T(1)] d(1) by (simp add: distinct_card)
    with T show ?thesis by (intro exI[of _ T]) (auto simp: l1_def[symmetric])
  next
    case (Inr r)
    then obtain db2 st where ok: "settleTenant (rf_tenant f t) now runID t windowEnd (rl_db l) = Inr (db2, st)"
      using Cons.prems(3) by (cases r) auto
    note s = run_effect_settle[OF Cons.prems(1,2) t ok]
    note w = settled_wallet(7)[OF _ _ ok]
    have l1: "rl_db l1 = db2" "rr_RunID (rl_result l1) = runID"
      "rl_total l1 = rl_total l + amount_due db t windowEnd"
      "rr_TenantsFailed (rl_result l1) = rr_TenantsFailed (rl_result l)"
      "rr_Skipped (rl_result l1) = rr_Skipped (rl_result l)"
      using Cons.prems(3) ok s(2) by (simp_all add: l1_def run_tenant_def add_settlement_def)
    have runs: "bd_runs db2 = bd_runs (rl_db l)" using w Cons.prems(1) by (simp add: billing_inv_def)
    have inv2: "billing_inv db2" by (rule settleTenant_inv[OF Cons.prems(1) ok])
    from Cons.IH[of l1 "insert t S"] inv2 s(1) l1 d runs obtain T where T: "T \<subseteq> set ts"
      "billing_inv (rl_db (fold (run_tenant f now windowEnd) ts l1))"
      "run_effect runID windowEnd (insert t S \<union> T) db (rl_db (fold (run_tenant f now windowEnd) ts l1))"
      "rr_RunID (rl_result (fold (run_tenant f now windowEnd) ts l1)) = runID"
      "bd_runs (rl_db (fold (run_tenant f now windowEnd) ts l1)) = bd_runs (rl_db l)"
      "rr_TenantsFailed (rl_result (fold (run_tenant f now windowEnd) ts l1)) =
         rr_TenantsFailed (rl_result l) + (length ts - card T)"
      "rl_total (fold (run_tenant f now windowEnd) ts l1) =
         rl_total l + amount_due db t windowEnd + (\<Sum>t \<in> T. amount_due db t windowEnd)"
      "rr_Skipped (rl_result (fold (run_tenant f now windowEnd) ts l1)) = rr_Skipped (rl_result l)"
      by auto
    have tT: "t \<notin> T" "finite T" using T(1) d(2) finite_subset by auto
    with T show ?thesis by (intro exI[of _ "insert t T"]) (auto simp: l1_def[symmetric])
  qed
qed

text \<open>A tenant with a wallet of ten, one priced row and one row whose usage went missing.\<close>

definition sample_usage :: "int \<Rightarrow> string \<Rightarrow> string \<Rightarrow> ledger_row" where
  "sample_usage i event source =
     \<lparr>ul_id = i, ul_event_id = event, ul_attempt_id = event, ul_request_id = ''r'', ul_tenant_id = ''t1'',
      ul_account_id = ''k'', ul_provider = ''kiro'', ul_model = ''m'', ul_status_code = 200,
      ul_error_class = ErrorOK, ul_tokens_in = 2000, ul_tokens_out = 0, ul_cache_read_tokens = 0,
      ul_cache_write_tokens = 0, ul_usage_source = source, ul_partial = False, ul_occurred_at = 5000,
      ul_billing_state = ''pending'', ul_billed_amount = None, ul_billing_run_id = None\<rparr>"

definition sample_billing :: billing_db where
  "sample_billing =
     \<lparr>bd_tenants = [''t1''],
      bd_prices = [\<lparr>pr_id = ''p1'', pr_provider = ''kiro'', pr_model = ''m'', pr_currency = ''USD'',
        pr_unit_scale = 1000, pr_input = 1 / 2, pr_output = 1, pr_cache_read = 0, pr_cache_write = 0,
        pr_effective_from = 1000, pr_created_at = 0\<rparr>],
      bd_wallets = [(''t1'', \<lparr>tw_currency = ''USD'', tw_balance = 10\<rparr>)],
      bd_journal = [\<lparr>wt_id = ''top'', wt_tenant_id = ''t1'', wt_kind = ''topup'', wt_amount = 10,
        wt_balance_after = 10, wt_billing_run_id = None, wt_note = '''', wt_created_at = 0\<rparr>],
      bd_usage = [sample_usage 1 ''e1'' UsageSourceUpstream, sample_usage 2 ''e2'' UsageSourceMissing],
      bd_runs = []\<rparr>"

lemma money_exact_sample: "money_exact (1 / 2)" "money_exact 1" "money_exact 10" "money_exact 9" "money_exact (- 1)"
  unfolding money_exact_def moneyScale_def
  by (rule exI[of _ 500000000000], simp) (rule exI[of _ 1000000000000], simp,
      rule exI[of _ 10000000000000], simp, rule exI[of _ 9000000000000], simp,
      rule exI[of _ "- 1000000000000"], simp)

lemma sample_billing_inv: "billing_inv sample_billing"
  by (simp add: billing_inv_def sample_billing_def usage_ids_def price_inv_def price_ok_def wallet_inv_def
      balance_ok_def money_exact_sample tenant_sum_def running_balance_def amount_check_def sample_usage_def)

lemma sample_rows:
  "selectBillableRows ''t1'' 9000 sample_billing = bd_usage sample_billing"
  by (simp add: selectBillableRows_def sample_billing_def sample_usage_def pending_before_def pg_time_def
      order_by_def occurred_before_def)

subsection \<open>Settlements go through\<close>

definition tokens_ok :: "ledger_row \<Rightarrow> bool" where
  "tokens_ok u \<longleftrightarrow> 0 \<le> ul_tokens_in u \<and> 0 \<le> ul_tokens_out u \<and> 0 \<le> ul_cache_read_tokens u \<and> 0 \<le> ul_cache_write_tokens u"

lemma settle_one_succeeds:
  assumes "price_inv db" "tokens_ok u"
  shows "\<exists>st'. settle_one db u st = Inr st'"
proof -
  obtain d known where d: "dispositionFor (row_class u) = (d, known)" by fastforce
  have rs: "rat_set_string (float_string x (int moneyScale)) = Some (round_to x moneyScale)" for x
    by (simp add: rat_set_string_float_string moneyScale_def)
  show ?thesis
  proof (cases d)
    case dispositionBill
    with d assms(2) row_price_ok[OF assms(1), of u] show ?thesis
      by (cases "row_price db u")
        (auto simp: settle_one_def Let_def priceAt_def row_price_def rs lineAmount_value tokens_ok_def not_less)
  qed (use d in \<open>auto simp: settle_one_def Let_def\<close>)
qed

lemma settle_rows_succeeds:
  assumes "price_inv db" "\<forall>u \<in> set us. tokens_ok u"
  shows "\<exists>st'. settle_rows db us st = Inr st'"
  using assms(2)
proof (induction us arbitrary: st)
  case (Cons u us)
  then obtain st1 where "settle_one db u st = Inr st1" using settle_one_succeeds[OF assms(1)] by force
  with Cons show ?case by simp
qed simp

lemma store_rounded:
  "\<bar>round_to x moneyScale\<bar> < 10 ^ 26 \<Longrightarrow> \<exists>v. store_amount (float_string x (int moneyScale)) = Inr v"
proof -
  assume a: "\<bar>round_to x moneyScale\<bar> < 10 ^ 26"
  have same: "round_scaled (round_to x moneyScale) moneyScale = round_scaled x moneyScale"
  proof -
    have e: "money_exact (round_to x 12)"
      using round_to_scaled[of x 12] by (simp add: money_exact_def moneyScale_def)
    have "\<bar>round_to x 12\<bar> * 10 ^ 12 = of_nat (round_scaled x 12)"
    proof (cases "x = 0")
      case True
      then show ?thesis by (simp add: round_to_def round_scaled_zero_arg)
    qed (simp add: round_to_def abs_mult)
    with round_scaled_exact[OF e] have "(of_nat (round_scaled (round_to x 12) 12) :: rat) = of_nat (round_scaled x 12)"
      by simp
    then show ?thesis by (simp only: of_nat_eq_iff moneyScale_def)
  qed
  show ?thesis
  proof (cases "round_to x moneyScale = 0 \<and> x \<noteq> 0")
    case False
    define r :: rat where "r = of_nat (round_scaled x moneyScale) / 10 ^ moneyScale"
    have r: "round_to x moneyScale = sgn x * r" "0 \<le> r" by (simp_all add: round_to_def r_def)
    have "(round_to x moneyScale < 0) = (x < 0)"
    proof (cases "x < 0")
      case True
      then have "r \<noteq> 0" using False r(1) by auto
      with True r show ?thesis by simp
    next
      case nneg: False
      then have "0 \<le> sgn x" by (simp add: sgn_if)
      with nneg r show ?thesis by (simp add: mult_nonneg_nonneg not_less)
    qed
    then have "float_string x (int moneyScale) = float_string (round_to x moneyScale) (int moneyScale)"
      using same by (simp add: float_string_def Let_def)
    with store_amount_float12(2)[OF money_exact_round a] show ?thesis by simp
  next
    case True
    then have z: "round_scaled x 12 = 0" by (simp add: round_to_def moneyScale_def sgn_if split: if_splits)
    then have "numeric_of_text (float_string x (int moneyScale)) = Some 0"
      by (simp add: numeric_of_text_def parse_float12 Let_def float12_val)
    then show ?thesis by (simp add: store_amount_def money_column_exact)
  qed
qed

lemma mark_billed_succeeds:
  assumes "\<forall>b \<in> set bs. \<bar>round_to (f b) moneyScale\<bar> < 10 ^ 26"
  shows "\<exists>us'. mark_billed runID (map (\<lambda>b. (ul_id b, float_string (f b) (int moneyScale))) bs) us = Inr us'"
  using assms
proof (induction bs arbitrary: us)
  case (Cons b bs)
  then obtain v where "store_amount (float_string (f b) (int moneyScale)) = Inr v"
    using store_rounded[of "f b"] by auto
  with Cons show ?case by simp
qed simp

lemma movement_succeeds:
  assumes winv: "wallet_inv db" and ex: "money_exact due" and pos: "0 < due" "due < 10 ^ 26"
    and w: "map_of (bd_wallets db) tenantID = Some w" "\<bar>tw_balance w - due\<bar> < 10 ^ 26"
    and ne: "tenantID \<noteq> ''''" and fresh: "runID @ '':'' @ tenantID \<notin> wt_id ` set (bd_journal db)"
    and mv0: "wm_Amount mv = ''-'' @ float_string due (int moneyScale)" "wm_ID mv = runID @ '':'' @ tenantID"
      "wm_TenantID mv = tenantID" "wm_Kind mv = ''debit''"
  shows "\<exists>db1 tx. applyMovement now mv db = Inr (db1, tx)"
proof -
  have exn: "money_exact (- due)" using ex unfolding money_exact_def by (metis mult_minus_left of_int_minus)
  have lt: "\<bar>- due\<bar> < 10 ^ 26" using pos by simp
  have mv: "wm_Amount mv = float_string (- due) (int moneyScale)" "wm_ID mv = runID @ '':'' @ tenantID"
    "wm_TenantID mv = tenantID" "wm_Kind mv = ''debit''"
    using float_string_neg[OF pos(1)] mv0 by simp_all
  have "Decimal_Sign (float_string (- due) (int moneyScale)) = Some (- 1)"
  proof -
    have "decimal_val (float_string (- due) (int moneyScale)) = Some (- due)"
      using decimal_val_float12[of "- due"] round_to_exact[of "- due" moneyScale] exn by (auto simp: money_exact_def)
    then show ?thesis using pos by (auto simp: decimal_val_def Decimal_Sign_def split: if_splits)
  qed
  moreover have "money_exact (tw_balance w + - due)"
    using wallet_inv_balance[OF winv w(1)] exn by (intro money_exact_add) auto
  moreover have "\<not> list_ex (\<lambda>t. wt_id t = runID @ '':'' @ tenantID) (bd_journal db)"
    using fresh by (force simp: list_ex_iff)
  ultimately show ?thesis
    using checkMoney_float12[OF exn lt] store_amount_float12(1)[OF exn lt] w ne pos
      money_column_exact[OF exn] money_column_exact[of "tw_balance w + - due"] lt
    by (simp add: applyMovement_def mv checkMovementKind_def amount_check_def)
qed

lemma debit_succeeds:
  assumes "wallet_inv db" "money_exact due" "0 < due" "due < 10 ^ 26"
    "map_of (bd_wallets db) tenantID = Some w" "\<bar>tw_balance w - due\<bar> < 10 ^ 26"
    "tenantID \<noteq> ''''" "runID @ '':'' @ tenantID \<notin> wt_id ` set (bd_journal db)"
  shows "\<exists>db1 tx. applyMovement now (debit_of runID tenantID n due) db = Inr (db1, tx)"
  by (rule movement_succeeds[OF assms]) (simp_all add: debit_of_def)

lemma settleTenant_succeeds:
  assumes "billing_inv db" and "\<forall>u \<in> set (bd_usage db). chosen tenantID windowEnd u \<longrightarrow> tokens_ok u \<and> charge db u < 10 ^ 26"
    and "0 < amount_due db tenantID windowEnd \<longrightarrow>
      amount_due db tenantID windowEnd < 10 ^ 26 \<and> tenantID \<noteq> '''' \<and>
      runID @ '':'' @ tenantID \<notin> wt_id ` set (bd_journal db) \<and>
      (\<exists>w. map_of (bd_wallets db) tenantID = Some w \<and> \<bar>tw_balance w - amount_due db tenantID windowEnd\<bar> < 10 ^ 26)"
  shows "\<exists>db' st. settleTenant False now runID tenantID windowEnd db = Inr (db', st)"
proof (cases "selectBillableRows tenantID windowEnd db = []")
  case True
  then show ?thesis by (simp add: settleTenant_def)
next
  case False
  have inv: "usage_ids db" "price_inv db" "wallet_inv db" using assms(1) by (auto simp: billing_inv_def)
  let ?rows = "selectBillableRows tenantID windowEnd db" and ?due = "amount_due db tenantID windowEnd"
  have rows: "u \<in> set ?rows \<longleftrightarrow> u \<in> set (bd_usage db) \<and> chosen tenantID windowEnd u" for u
    by (auto simp: selectBillableRows_def chosen_def)
  then have "\<forall>u \<in> set ?rows. tokens_ok u" using assms(2) by blast
  from settle_rows_succeeds[OF inv(2) this] obtain st where sr: "settle_rows db ?rows no_settlement = Inr st" by blast
  note spec = settle_rows_spec[OF inv(2) sr]
  have due: "st_debited st = ?due" using spec amount_due_rows[of db tenantID windowEnd] by (simp add: no_settlement_def)
  have mv: "\<exists>db1. (if st_debited st > 0 then map_sum id fst (applyMovement now
        (debit_of runID tenantID (length (st_billed st)) (st_debited st)) db) else Inr db) = Inr db1
      \<and> bd_usage db1 = bd_usage db"
  proof (cases "0 < ?due")
    case True
    with assms(3) obtain w where "map_of (bd_wallets db) tenantID = Some w" "\<bar>tw_balance w - ?due\<bar> < 10 ^ 26" by blast
    with debit_succeeds[OF inv(3) amount_due_exact True] assms(3) True
    obtain db1 tx where "applyMovement now (debit_of runID tenantID (length (st_billed st)) ?due) db = Inr (db1, tx)" by blast
    with True due applyMovement_frame show ?thesis by auto
  qed (simp add: due)
  then obtain db1 where db1: "(if st_debited st > 0 then map_sum id fst (applyMovement now
        (debit_of runID tenantID (length (st_billed st)) (st_debited st)) db) else Inr db) = Inr db1" by blast
  have "\<bar>round_to (line_value (the (row_price db u)) u) moneyScale\<bar> < 10 ^ 26" if u: "u \<in> set (filter (charged db) ?rows)" for u
  proof -
    have "0 \<le> line_value (the (row_price db u)) u" using spec u by simp
    moreover have "charge db u < 10 ^ 26" using u rows assms(2) by auto
    ultimately show ?thesis using u by (simp add: charge_def round_to_nonneg)
  qed
  then have "\<exists>us'. mark_billed runID (st_billed st) (bd_usage db1) = Inr us'"
    using mark_billed_succeeds[of "filter (charged db) ?rows" "\<lambda>u. line_value (the (row_price db u)) u" runID "bd_usage db1"] spec
    by (simp add: no_settlement_def)
  with sr db1 False show ?thesis by (auto simp: settleTenant_def Let_def)
qed

text \<open>
  C28.  A tenant that can pay its rows is settled.  When the database answers, the rows carry no
  negative token count, every amount and the balance fit the money columns, and, where
  something is due, the tenant has a wallet and the run has not debited it yet, the settlement
  commits.
\<close>

theorem settlement_goes_through:
  assumes "billing_inv db" and "\<forall>u \<in> set (bd_usage db). chosen tenantID windowEnd u \<longrightarrow> tokens_ok u \<and> charge db u < 10 ^ 26"
    and "0 < amount_due db tenantID windowEnd \<longrightarrow>
      amount_due db tenantID windowEnd < 10 ^ 26 \<and> tenantID \<noteq> '''' \<and>
      runID @ '':'' @ tenantID \<notin> wt_id ` set (bd_journal db) \<and>
      (\<exists>w. map_of (bd_wallets db) tenantID = Some w \<and> \<bar>tw_balance w - amount_due db tenantID windowEnd\<bar> < 10 ^ 26)"
  shows "\<exists>db' st. settleTenant False now runID tenantID windowEnd db = Inr (db', st)"
  by (rule settleTenant_succeeds[OF assms])

lemma sample_row_price:
  "row_price sample_billing (sample_usage i e s) = Some (hd (bd_prices sample_billing))"
  by (simp add: row_price_def sample_usage_def price_row_at_def sample_billing_def pg_time_def)

lemma sample_charges:
  "charge sample_billing (sample_usage 1 ''e1'' UsageSourceUpstream) = 1"
  "charge sample_billing (sample_usage 2 ''e2'' UsageSourceMissing) = 0"
proof -
  have d: "disposition_of (sample_usage 1 ''e1'' UsageSourceUpstream) = dispositionBill"
    "disposition_of (sample_usage 2 ''e2'' UsageSourceMissing) = dispositionHold" by code_simp+
  have v: "line_value (hd (bd_prices sample_billing)) (sample_usage 1 ''e1'' UsageSourceUpstream) = 1"
    by (simp add: line_value_def sample_billing_def sample_usage_def)
  have "round_to 1 moneyScale = 1" using round_to_exact[of 1 moneyScale] money_exact_sample(2) by (auto simp: money_exact_def)
  then show "charge sample_billing (sample_usage 1 ''e1'' UsageSourceUpstream) = 1"
    by (simp add: charge_def charged_def d sample_row_price v)
  show "charge sample_billing (sample_usage 2 ''e2'' UsageSourceMissing) = 0"
    by (simp add: charge_def charged_def d)
qed

lemma sample_usage_rows:
  "bd_usage sample_billing = [sample_usage 1 ''e1'' UsageSourceUpstream, sample_usage 2 ''e2'' UsageSourceMissing]"
  by (simp add: sample_billing_def)

lemma sample_chosen: "chosen ''t1'' 9000 (sample_usage i e s)"
  by (simp add: chosen_def pending_before_def sample_usage_def pg_time_def)

theorem settlement_goes_through_witness:
  "\<exists>db' st. settleTenant False 9000 ''bill-1'' ''t1'' 9000 sample_billing = Inr (db', st)"
proof (rule settlement_goes_through[OF sample_billing_inv])
  show "\<forall>u \<in> set (bd_usage sample_billing). chosen ''t1'' 9000 u \<longrightarrow> tokens_ok u \<and> charge sample_billing u < 10 ^ 26"
    by (simp add: sample_usage_rows sample_charges) (simp add: tokens_ok_def sample_usage_def)
  have due: "amount_due sample_billing ''t1'' 9000 = 1"
    by (simp add: amount_due_def sample_usage_rows sample_chosen sample_charges)
  show "0 < amount_due sample_billing ''t1'' 9000 \<longrightarrow> amount_due sample_billing ''t1'' 9000 < 10 ^ 26 \<and> ''t1'' \<noteq> '''' \<and>
      ''bill-1'' @ '':'' @ ''t1'' \<notin> wt_id ` set (bd_journal sample_billing) \<and>
      (\<exists>w. map_of (bd_wallets sample_billing) ''t1'' = Some w \<and> \<bar>tw_balance w - amount_due sample_billing ''t1'' 9000\<bar> < 10 ^ 26)"
    unfolding due by (simp add: sample_billing_def)
qed

lemma sample_debit:
  "\<exists>db1 tx. applyMovement 9000 (debit_of ''bill-1'' ''t1'' n 1) sample_billing = Inr (db1, tx)"
  using sample_billing_inv money_exact_sample(2)
  by (intro debit_succeeds[where w = "\<lparr>tw_currency = ''USD'', tw_balance = 10\<rparr>"])
    (simp_all add: billing_inv_def, simp_all add: sample_billing_def)

theorem settlement_exact_witness:
  "\<exists>db' st. settleTenant False 9000 ''bill-1'' ''t1'' 9000 sample_billing = Inr (db', st) \<and>
     map ul_billing_state (bd_usage db') = [''billed'', ''held'']"
proof -
  let ?r = "settleTenant False 9000 ''bill-1'' ''t1'' 9000 sample_billing"
  have "\<exists>st. settle_rows sample_billing (bd_usage sample_billing) no_settlement = Inr st"
    using sample_billing_inv by (intro settle_rows_succeeds) (auto simp: billing_inv_def sample_usage_rows tokens_ok_def sample_usage_def)
  then obtain st where sr: "settle_rows sample_billing (bd_usage sample_billing) no_settlement = Inr st" by blast
  have pinv: "price_inv sample_billing" using sample_billing_inv by (simp add: billing_inv_def)
  note spec = settle_rows_spec[OF pinv sr]
  have deb: "st_debited st = 1" using spec by (simp add: no_settlement_def sample_usage_rows sample_charges)
  obtain db1 tx where am: "applyMovement 9000 (debit_of ''bill-1'' ''t1'' (length (st_billed st)) 1) sample_billing = Inr (db1, tx)"
    using sample_debit by blast
  have "\<forall>u \<in> set (filter (charged sample_billing) (bd_usage sample_billing)).
      \<bar>round_to (line_value (the (row_price sample_billing u)) u) moneyScale\<bar> < 10 ^ 26"
    using sample_charges by (auto simp: sample_usage_rows charge_def)
  then obtain us where "mark_billed ''bill-1'' (st_billed st) (bd_usage db1) = Inr us"
    using mark_billed_succeeds[of "filter (charged sample_billing) (bd_usage sample_billing)"
        "\<lambda>u. line_value (the (row_price sample_billing u)) u"] spec
    by (fastforce simp: no_settlement_def)
  then obtain db' where ok: "?r = Inr (db', st)"
    using sr am deb by (auto simp: settleTenant_def sample_rows sample_usage_rows)
  have "bd_usage db' = map (\<lambda>u. if ul_tenant_id u = ''t1'' \<and> pending_before 9000 u
        then settled_row sample_billing ''bill-1'' u else u) (bd_usage sample_billing)"
    using settlement_exact[OF sample_billing_inv ok] by blast
  moreover have "disposition_of (sample_usage 1 ''e1'' UsageSourceUpstream) = dispositionBill"
    "disposition_of (sample_usage 2 ''e2'' UsageSourceMissing) = dispositionHold" by code_simp+
  ultimately have "map ul_billing_state (bd_usage db') = [''billed'', ''held'']"
    using sample_chosen by (simp add: chosen_def sample_usage_rows settled_row_def sample_row_price)
  with ok show ?thesis by (intro exI conjI)
qed

subsection \<open>Runs\<close>

lemma runs_frame:
  "billing_inv (db\<lparr>bd_runs := x\<rparr>) = billing_inv db"
  "run_effect runID w S (db\<lparr>bd_runs := x\<rparr>) db' = run_effect runID w S db db'"
  "run_effect runID w S db (db'\<lparr>bd_runs := x\<rparr>) = run_effect runID w S db db'"
  "pendingTenants w (db\<lparr>bd_runs := x\<rparr>) = pendingTenants w db"
  "amount_due (db\<lparr>bd_runs := x\<rparr>) t w = amount_due db t w"
proof -
  have p: "bd_prices (db\<lparr>bd_runs := x\<rparr>) = bd_prices db" by simp
  show due: "amount_due (db\<lparr>bd_runs := x\<rparr>) t w = amount_due db t w" for t
    by (simp add: amount_due_def charge_cong[OF p])
  show "run_effect runID w S (db\<lparr>bd_runs := x\<rparr>) db' = run_effect runID w S db db'"
  proof -
    have f: "bd_wallets (db\<lparr>bd_runs := x\<rparr>) = bd_wallets db" "bd_usage (db\<lparr>bd_runs := x\<rparr>) = bd_usage db" by simp_all
    show ?thesis unfolding run_effect_def due settled_row_cong[OF p] f p ..
  qed
qed (simp_all add: billing_inv_def usage_ids_def price_inv_def wallet_inv_def run_effect_def pendingTenants_def)

lemma closeRun_Inr: "closeRun fault res status db = Inr db' \<Longrightarrow> \<exists>x. db' = db\<lparr>bd_runs := x\<rparr>"
proof -
  assume "closeRun fault res status db = Inr db'"
  then have "db' = db\<lparr>bd_runs := bd_runs db\<rparr> \<or> (\<exists>x. db' = db\<lparr>bd_runs := x\<rparr>)"
    by (auto simp: closeRun_def split: if_splits sum.splits option.splits)
  then show ?thesis by blast
qed

lemma pendingTenants_set:
  "set (pendingTenants w db) = ul_tenant_id ` {u \<in> set (bd_usage db). pending_before w u}"
  "distinct (pendingTenants w db)"
  by (auto simp: pendingTenants_def)

lemma RunOnce_effect:
  assumes "billing_inv db" and "RunOnce f runID now windowEnd db = (db', res, err)"
  shows "\<exists>S. S \<subseteq> set (pendingTenants windowEnd db) \<and>
    bd_usage db' = map (\<lambda>u. if ul_tenant_id u \<in> S \<and> pending_before windowEnd u
        then settled_row db runID u else u) (bd_usage db) \<and>
    map_of (bd_wallets db') = (\<lambda>t. if t \<in> S
        then map_option (\<lambda>w. w\<lparr>tw_balance := tw_balance w - amount_due db t windowEnd\<rparr>) (map_of (bd_wallets db) t)
        else map_of (bd_wallets db) t) \<and>
    decimal_val (rr_TotalDebited res) = Some (\<Sum>t \<in> S. amount_due db t windowEnd) \<and>
    (rr_TenantsFailed res = 0 \<and> err = None \<and> \<not> rr_Skipped res \<longrightarrow> S = set (pendingTenants windowEnd db))"
proof -
  define res0 where "res0 = \<lparr>rr_RunID = runID, rr_WindowEnd = windowEnd, rr_Skipped = False, rr_TenantsBilled = 0,
            rr_TenantsFailed = 0, rr_RowsBilled = 0, rr_RowsUnpriced = 0, rr_RowsHeld = 0,
            rr_RowsNotBillable = 0, rr_RowsUnknownClass = 0, rr_TotalDebited = ''0''\<rparr>"
  have zero: "decimal_val ''0'' = Some 0" by code_simp
  define ts where "ts = pendingTenants windowEnd db"
  consider (early) x where "db' = db\<lparr>bd_runs := x\<rparr>" "rr_TotalDebited res = ''0''" "err \<noteq> None \<or> rr_Skipped res"
    | (loop) x y l where "l = fold (run_tenant f now windowEnd) ts
        \<lparr>rl_db = db\<lparr>bd_runs := x\<rparr>, rl_result = res0, rl_total = 0, rl_error = None\<rparr>"
      "db' = (rl_db l)\<lparr>bd_runs := y\<rparr>" "res = (rl_result l)\<lparr>rr_TotalDebited := float_string (rl_total l) (int moneyScale)\<rparr>"
  proof (cases "rf_count f \<or> bd_prices db = [] \<or> rf_open f \<or> map_of (bd_runs db) runID \<noteq> None \<or> rf_list f")
    case True
    define db1 where "db1 = db\<lparr>bd_runs := AList.update runID (new_run windowEnd ''running'') (bd_runs db)\<rparr>"
    define closed where "closed = (case closeRun (rf_close f) res0 ''failed'' db1 of Inl _ \<Rightarrow> db1 | Inr db2 \<Rightarrow> db2)"
    have "\<exists>x. closed = db\<lparr>bd_runs := x\<rparr>"
    proof (cases "closeRun (rf_close f) res0 ''failed'' db1")
      case (Inr db2)
      with closeRun_Inr[OF Inr] show ?thesis by (auto simp: closed_def db1_def)
    qed (auto simp: closed_def db1_def)
    moreover have "\<exists>x. db = db\<lparr>bd_runs := x\<rparr>" by (rule exI[of _ "bd_runs db"]) simp
    moreover have "(db' = closed \<or> db' = db \<or> (\<exists>x. db' = db\<lparr>bd_runs := x\<rparr>)) \<and> rr_TotalDebited res = ''0''
        \<and> (err \<noteq> None \<or> rr_Skipped res)"
      using True assms(2)
      by (auto simp: RunOnce_def Let_def open_run_def res0_def[symmetric] db1_def[symmetric] closed_def[symmetric]
          split: if_splits) (auto simp: res0_def)
    ultimately show thesis using early by blast
  next
    case False
    define db1 where "db1 = db\<lparr>bd_runs := AList.update runID (new_run windowEnd ''running'') (bd_runs db)\<rparr>"
    define l where "l = fold (run_tenant f now windowEnd) ts \<lparr>rl_db = db1, rl_result = res0, rl_total = 0, rl_error = None\<rparr>"
    define res1 where "res1 = (rl_result l)\<lparr>rr_TotalDebited := float_string (rl_total l) (int moneyScale)\<rparr>"
    from False have "RunOnce f runID now windowEnd db =
        (case closeRun (rf_close f) res1 (if rr_TenantsFailed res1 > 0 then ''failed'' else ''completed'') (rl_db l) of
           Inl e \<Rightarrow> (rl_db l, res1, first_error (rl_error l) e)
         | Inr db2 \<Rightarrow> (db2, res1, rl_error l))"
    proof -
      have opn: "open_run runID (new_run windowEnd ''running'') db = Inr db1"
        using False by (simp add: open_run_def db1_def)
      have pt: "pendingTenants windowEnd db1 = ts" by (simp add: db1_def ts_def runs_frame(4))
      show ?thesis unfolding RunOnce_def Let_def res0_def[symmetric] opn sum.case pt l_def[symmetric] res1_def[symmetric]
        using False by simp
    qed
    then have "res = res1 \<and> (\<exists>y. db' = (rl_db l)\<lparr>bd_runs := y\<rparr>)"
      using assms(2) closeRun_Inr[of "rf_close f" res1 _ "rl_db l"]
      by (auto split: sum.splits intro: exI[of _ "bd_runs (rl_db l)"])
    then show thesis using loop[of l] by (auto simp: l_def db1_def res1_def)
  qed
  then show ?thesis
  proof cases
    case early
    then show ?thesis using zero by (intro exI[of _ "{}"]) auto
  next
    case loop
    define l0 where "l0 = \<lparr>rl_db = db\<lparr>bd_runs := x\<rparr>, rl_result = res0, rl_total = 0, rl_error = None\<rparr>"
    have "billing_inv (rl_db l0)" "run_effect runID windowEnd {} db (rl_db l0)" "rr_RunID (rl_result l0) = runID"
      using assms(1) by (simp_all add: l0_def runs_frame res0_def run_effect_refl)
    from run_fold[OF this pendingTenants_set(2)[of windowEnd db, folded ts_def], of f now]
    obtain T where T: "T \<subseteq> set ts" "run_effect runID windowEnd T db (rl_db l)"
      "rr_TenantsFailed (rl_result l) = length ts - card T" "rl_total l = (\<Sum>t \<in> T. amount_due db t windowEnd)"
      unfolding l0_def loop(1)[symmetric] by (auto simp: res0_def)
    have "T = set ts" if "rr_TenantsFailed res = 0"
    proof (rule card_seteq[OF finite_set T(1)])
      show "card (set ts) \<le> card T"
        using that T(3) loop(3) pendingTenants_set(2)[of windowEnd db] by (simp add: ts_def distinct_card)
    qed
    moreover have "run_effect runID windowEnd T db db'" using T(2) by (simp add: loop(2) runs_frame)
    moreover have "decimal_val (rr_TotalDebited res) = Some (\<Sum>t \<in> T. amount_due db t windowEnd)"
    proof -
      have "finite T" using T(1) finite_subset by blast
      then have "money_exact (\<Sum>t \<in> T. amount_due db t windowEnd)"
        by (induction T rule: finite_induct) (simp_all add: money_exact_add amount_due_exact)
      then show ?thesis using decimal_val_float12[of "rl_total l"] round_to_exact[of "rl_total l" moneyScale] T(4)
        by (auto simp: loop(3) money_exact_def)
    qed
    ultimately show ?thesis using T(1)
      by (intro exI[of _ T]) (simp only: run_effect_def ts_def simp_thms, simp)
  qed
qed


definition no_faults :: run_faults where
  "no_faults = \<lparr>rf_count = False, rf_open = False, rf_list = False, rf_tenant = (\<lambda>_. False), rf_close = False\<rparr>"


lemma run_nothing_pending:
  assumes "pendingTenants windowEnd db = []"
  shows "bd_usage (fst (RunOnce f runID now windowEnd db)) = bd_usage db \<and>
    bd_wallets (fst (RunOnce f runID now windowEnd db)) = bd_wallets db \<and>
    bd_journal (fst (RunOnce f runID now windowEnd db)) = bd_journal db"
proof -
  have pt: "pendingTenants windowEnd (db\<lparr>bd_runs := x\<rparr>) = []" for x using assms by (simp add: runs_frame)
  have cl: "closeRun c r s d = Inr d' \<Longrightarrow> bd_usage d' = bd_usage d \<and> bd_wallets d' = bd_wallets d \<and> bd_journal d' = bd_journal d"
    for c r s d d' using closeRun_Inr by fastforce
  show ?thesis
    by (auto simp: RunOnce_def Let_def open_run_def pt split: sum.splits dest!: cl)
qed

text \<open>
  C11.  Running the job again is safe.  After a run that settled every tenant, another run over
  the same window, with whatever run ID and failures, changes no ledger row, no wallet and no
  journal entry: nothing is billed twice.
\<close>

theorem rerun_changes_nothing:
  assumes "billing_inv db" and "RunOnce f runID now windowEnd db = (db', res, None)"
    and "rr_TenantsFailed res = 0" and "\<not> rr_Skipped res"
  shows "bd_usage (fst (RunOnce f' runID' now' windowEnd db')) = bd_usage db' \<and>
    bd_wallets (fst (RunOnce f' runID' now' windowEnd db')) = bd_wallets db' \<and>
    bd_journal (fst (RunOnce f' runID' now' windowEnd db')) = bd_journal db'"
proof (rule run_nothing_pending)
  from RunOnce_effect[OF assms(1,2)] assms(3,4)
  have u: "bd_usage db' = map (\<lambda>u. if ul_tenant_id u \<in> set (pendingTenants windowEnd db) \<and> pending_before windowEnd u
        then settled_row db runID u else u) (bd_usage db)" by auto
  have "\<not> pending_before windowEnd (if ul_tenant_id u \<in> set (pendingTenants windowEnd db) \<and> pending_before windowEnd u
        then settled_row db runID u else u)" if "u \<in> set (bd_usage db)" for u
    using that settled_row_state[of db runID u] by (auto simp: pendingTenants_set(1) pending_before_def)
  then have "filter (pending_before windowEnd) (bd_usage db') = []"
    unfolding u filter_empty_conv set_map by blast
  then show "pendingTenants windowEnd db' = []" by (simp add: pendingTenants_def)
qed


lemma sample_due: "amount_due sample_billing ''t1'' 9000 = 1"
  by (simp add: amount_due_def sample_usage_rows sample_chosen sample_charges)

text \<open>A run over the sample settles its only tenant.\<close>

lemma sample_run:
  "\<exists>db' res. RunOnce no_faults ''bill-1'' 9000 9000 sample_billing = (db', res, None) \<and>
     rr_TenantsFailed res = 0 \<and> \<not> rr_Skipped res"
proof -
  define db1 where "db1 = sample_billing\<lparr>bd_runs := AList.update ''bill-1'' (new_run 9000 ''running'') (bd_runs sample_billing)\<rparr>"
  have inv: "billing_inv db1" using sample_billing_inv by (simp add: db1_def runs_frame)
  have due: "amount_due db1 ''t1'' 9000 = 1" using sample_due by (simp add: db1_def runs_frame)
  have "charge db1 = charge sample_billing" by (rule charge_cong) (simp add: db1_def)
  then have "\<exists>db' st. settleTenant False 9000 ''bill-1'' ''t1'' 9000 db1 = Inr (db', st)"
    by (intro settleTenant_succeeds[OF inv])
      (simp_all add: due, simp_all add: db1_def sample_usage_rows sample_charges,
       simp_all add: tokens_ok_def sample_usage_def sample_billing_def)
  then obtain db2 st where st: "settleTenant False 9000 ''bill-1'' ''t1'' 9000 db1 = Inr (db2, st)" by blast
  have deb: "st_debited st = 1" using settled_wallet(1)[OF _ _ st] inv due by (simp add: billing_inv_def)
  have pt: "pendingTenants 9000 db1 = [''t1'']"
    using sample_chosen by (simp add: db1_def runs_frame pendingTenants_def sample_usage_rows chosen_def)
  have store: "store_amount (float_string 1 (int moneyScale)) = Inr 1"
    by (rule store_amount_float12(2)) (simp_all add: money_exact_sample)
  have opn: "open_run ''bill-1'' (new_run 9000 ''running'') sample_billing = Inr db1"
    by (simp add: open_run_def db1_def sample_billing_def)
  have pr: "bd_prices sample_billing \<noteq> []" by (simp add: sample_billing_def)
  show ?thesis
    unfolding RunOnce_def Let_def opn sum.case pt
    using pr by (simp add: no_faults_def run_tenant_def st add_settlement_def deb closeRun_def store split: option.splits)
qed

theorem rerun_changes_nothing_witness:
  "\<exists>db' res. RunOnce no_faults ''bill-1'' 9000 9000 sample_billing = (db', res, None) \<and>
     bd_wallets (fst (RunOnce no_faults ''bill-2'' 9900 9000 db')) = bd_wallets db'"
proof -
  obtain db' res where r: "RunOnce no_faults ''bill-1'' 9000 9000 sample_billing = (db', res, None)"
    "rr_TenantsFailed res = 0" "\<not> rr_Skipped res" using sample_run by blast
  from rerun_changes_nothing[OF sample_billing_inv r, of no_faults "''bill-2''" 9900] r(1) show ?thesis by blast
qed

section \<open>The policy table\<close>

text \<open>
  The policy table decides every row, and only reported usage of a served request is
  charged.  The class of a row is in the table exactly when its usage source is one of the three
  the contract allows; it is billed exactly when upstream reported the usage and the request
  succeeded; a served request whose usage is missing, an estimate and any unknown source are
  held for a human; reported or missing usage of a failed request is worth nothing.
\<close>

theorem policy_decides_every_row:
  "(snd (dispositionFor (row_class u)) \<longleftrightarrow>
      ul_usage_source u \<in> {UsageSourceUpstream, UsageSourceEstimated, UsageSourceMissing}) \<and>
   (fst (dispositionFor (row_class u)) = dispositionBill \<longleftrightarrow>
      ul_usage_source u = UsageSourceUpstream \<and> releaseSucceeded (ul_status_code u) (ul_error_class u)) \<and>
   (fst (dispositionFor (row_class u)) = dispositionNotBillable \<longleftrightarrow>
      ul_usage_source u \<in> {UsageSourceUpstream, UsageSourceMissing} \<and>
      \<not> releaseSucceeded (ul_status_code u) (ul_error_class u))"
  by (cases "releaseSucceeded (ul_status_code u) (ul_error_class u)"; cases "ul_partial u")
    (simp_all add: dispositionFor_def usageDispositions_def row_class_def split: option.splits)

end
