(* ===== verification/Reconcile.thy ===== *)
theory Reconcile
  imports BillingJob
begin

text \<open>
  \<^verbatim>\<open>internal/control/billing_reconcile.go\<close>: the read-only report that compares the ledger, the
  journal and the balances over a window.  The scan of the window rows and the loop over the
  tenants are folds over the local variables of \<open>Run\<close>; the grouped queries are functions of the
  tables.  The lemmas characterise the discrepancies of a report exactly, and show that no
  sequence of billing operations can produce one.
\<close>

section \<open>Reports\<close>

record windowRow =
  wr_tenantID :: string
  wr_eventID :: string
  wr_state :: string
  wr_amount :: "decimal option"
  wr_runID :: string

record UnsettledRow =
  ur_TenantID :: string
  ur_EventID :: string
  ur_State :: string

abbreviation "DiscrepancyBilledWithoutAmount \<equiv> ''billed_row_without_amount''"
abbreviation "DiscrepancyBilledWithoutRun \<equiv> ''billed_row_without_run''"
abbreviation "DiscrepancyAmountOnUnsettledRow \<equiv> ''amount_on_unsettled_row''"
abbreviation "DiscrepancyRunDebitMismatch \<equiv> ''run_debit_mismatch''"
abbreviation "DiscrepancyWalletBalanceDrift \<equiv> ''wallet_balance_drift''"
abbreviation "DiscrepancyMissingWallet \<equiv> ''missing_wallet''"

text \<open>The explanatory text of a discrepancy is left out.\<close>

record Discrepancy =
  dc_Kind :: string
  dc_TenantID :: string
  dc_RunID :: string
  dc_EventIDs :: "string list"
  dc_Expected :: decimal
  dc_Actual :: decimal

record RunReconciliation =
  rn_RunID :: string
  rn_WindowEventIDs :: "string list"
  rn_LedgerRows :: nat
  rn_LedgerAmount :: decimal
  rn_WalletDebit :: decimal
  rn_Difference :: decimal

record TenantReconciliation =
  tr_TenantID :: string
  tr_RowsByState :: "(string, nat) gomap"
  tr_BilledAmount :: decimal
  tr_Runs :: "RunReconciliation list"
  tr_WalletExists :: bool
  tr_WalletBalance :: decimal
  tr_JournalSum :: decimal

record ReconciliationReport =
  rp_Start :: time
  rp_End :: time
  rp_Tenants :: "TenantReconciliation list"
  rp_UnsettledRows :: "UnsettledRow list"
  rp_TotalBilled :: decimal
  rp_TotalDebited :: decimal
  rp_Discrepancies :: "Discrepancy list"

definition Balanced :: "ReconciliationReport \<Rightarrow> bool" where
  "Balanced r \<longleftrightarrow> length (rp_Discrepancies r) = 0"

definition zeroMoney :: decimal where
  "zeroMoney = float_string 0 (int moneyScale)"

definition sameMoney :: "decimal \<Rightarrow> decimal \<Rightarrow> bool" where
  "sameMoney left right =
     (case rat_set_string left of
        None \<Rightarrow> False
      | Some a \<Rightarrow> (case rat_set_string right of None \<Rightarrow> False | Some b \<Rightarrow> a = b))"

section \<open>Queries\<close>

definition window_order :: "ledger_row \<Rightarrow> ledger_row \<Rightarrow> bool" where
  "window_order a b \<longleftrightarrow> ul_tenant_id a < ul_tenant_id b
     \<or> (ul_tenant_id a = ul_tenant_id b \<and> occurred_before a b)"

definition in_window :: "time \<Rightarrow> time \<Rightarrow> ledger_row \<Rightarrow> bool" where
  "in_window start stop u \<longleftrightarrow> ul_occurred_at u \<ge> pg_time start \<and> ul_occurred_at u < pg_time stop"

definition window_row :: "ledger_row \<Rightarrow> windowRow" where
  "window_row u = \<lparr>wr_tenantID = ul_tenant_id u, wr_eventID = ul_event_id u, wr_state = ul_billing_state u,
     wr_amount = map_option numeric_text (ul_billed_amount u),
     wr_runID = (case ul_billing_run_id u of None \<Rightarrow> '''' | Some r \<Rightarrow> r)\<rparr>"

definition windowRows :: "time \<Rightarrow> time \<Rightarrow> billing_db \<Rightarrow> windowRow list" where
  "windowRows start stop db = map window_row (order_by window_order (filter (in_window start stop) (bd_usage db)))"

text \<open>\<^verbatim>\<open>COALESCE(sum(col),0)::text\<close>: the text of no values is a bare zero.\<close>

definition sum_text :: "rat list \<Rightarrow> decimal" where
  "sum_text vs = (if vs = [] then ''0'' else numeric_text (sum_list vs))"

definition run_rows :: "billing_db \<Rightarrow> string \<Rightarrow> string \<Rightarrow> ledger_row list" where
  "run_rows db tenant run =
     filter (\<lambda>u. ul_billing_state u = ''billed'' \<and> ul_tenant_id u = tenant \<and> ul_billing_run_id u = Some run) (bd_usage db)"

definition runLedgerTotals :: "billing_db \<Rightarrow> string list \<Rightarrow> string \<times> string \<Rightarrow> (nat \<times> decimal) option" where
  "runLedgerTotals db runIDs = (\<lambda>(tenant, run).
     let rows = run_rows db tenant run
     in if run \<notin> set runIDs \<or> rows = [] then None
        else Some (length rows, sum_text (List.map_filter ul_billed_amount rows)))"

definition run_debits :: "billing_db \<Rightarrow> string \<Rightarrow> string \<Rightarrow> journal_row list" where
  "run_debits db tenant run =
     filter (\<lambda>t. wt_kind t = ''debit'' \<and> wt_tenant_id t = tenant \<and> wt_billing_run_id t = Some run) (bd_journal db)"

definition runWalletDebits :: "billing_db \<Rightarrow> string list \<Rightarrow> string \<times> string \<Rightarrow> decimal option" where
  "runWalletDebits db runIDs = (\<lambda>(tenant, run).
     let rows = run_debits db tenant run
     in if run \<notin> set runIDs \<or> rows = [] then None else Some (sum_text (map (\<lambda>t. - wt_amount t) rows)))"

definition walletTotals :: "billing_db \<Rightarrow> string list \<Rightarrow> string \<Rightarrow> (decimal \<times> decimal) option" where
  "walletTotals db tenantIDs tenant =
     (if tenant \<notin> set tenantIDs then None
      else map_option (\<lambda>w. (numeric_text (tw_balance w),
          sum_text (map wt_amount (filter (\<lambda>t. wt_tenant_id t = tenant) (bd_journal db)))))
        (map_of (bd_wallets db) tenant))"

section \<open>The report\<close>

text \<open>
  The local variables of the scan: row counts by tenant and state, the billed total by tenant,
  the event IDs by tenant and run, the run IDs in the order they appear.
\<close>

record scan =
  sc_states :: "(string, (string, nat) gomap) gomap"
  sc_billed :: "(string, rat) gomap"
  sc_runs :: "(string, (string, string list) gomap) gomap"
  sc_runIDs :: "string list"
  sc_unsettled :: "UnsettledRow list"
  sc_discrepancies :: "Discrepancy list"

definition lookup :: "'v \<Rightarrow> ('k, 'v) gomap \<Rightarrow> 'k \<Rightarrow> 'v" where
  "lookup d m k = (case map_of m k of None \<Rightarrow> d | Some v \<Rightarrow> v)"

definition row_discrepancy :: "string \<Rightarrow> windowRow \<Rightarrow> Discrepancy" where
  "row_discrepancy kind row = \<lparr>dc_Kind = kind, dc_TenantID = wr_tenantID row,
     dc_RunID = (if kind = DiscrepancyBilledWithoutAmount then wr_runID row else ''''),
     dc_EventIDs = [wr_eventID row], dc_Expected = '''',
     dc_Actual = (case wr_amount row of None \<Rightarrow> '''' | Some a \<Rightarrow> a)\<rparr>"

definition count_row :: "windowRow \<Rightarrow> scan \<Rightarrow> scan" where
  "count_row row s =
     (let t = wr_tenantID row; states = lookup [] (sc_states s) t in
      s\<lparr>sc_states := AList.update t (AList.update (wr_state row) (lookup 0 states (wr_state row) + 1) states) (sc_states s),
        sc_billed := AList.update t (lookup 0 (sc_billed s) t) (sc_billed s)\<rparr>)"

definition scan_row :: "windowRow \<Rightarrow> scan \<Rightarrow> billing_error + scan" where
  "scan_row row s0 =
     (let s = count_row row s0; t = wr_tenantID row in
      if wr_state row \<noteq> ''billed'' then
        Inr (s\<lparr>sc_unsettled := sc_unsettled s @ [\<lparr>ur_TenantID = t, ur_EventID = wr_eventID row, ur_State = wr_state row\<rparr>],
               sc_discrepancies := sc_discrepancies s @
                 (if wr_amount row \<noteq> None then [row_discrepancy DiscrepancyAmountOnUnsettledRow row] else [])\<rparr>)
      else case wr_amount row of
        None \<Rightarrow> Inr (s\<lparr>sc_discrepancies := sc_discrepancies s @ [row_discrepancy DiscrepancyBilledWithoutAmount row]\<rparr>)
      | Some text \<Rightarrow>
          (case rat_set_string text of
             None \<Rightarrow> Inl UnusableAmount
           | Some amount \<Rightarrow>
               (let s1 = s\<lparr>sc_billed := AList.update t (lookup 0 (sc_billed s) t + amount) (sc_billed s)\<rparr> in
                if wr_runID row = '''' then
                  Inr (s1\<lparr>sc_discrepancies := sc_discrepancies s1 @ [row_discrepancy DiscrepancyBilledWithoutRun row]\<rparr>)
                else
                  (let runs = lookup [] (sc_runs s1) t;
                       runIDs = (if wr_runID row \<in> set (sc_runIDs s1) then sc_runIDs s1 else sc_runIDs s1 @ [wr_runID row])
                   in Inr (s1\<lparr>sc_runIDs := runIDs,
                        sc_runs := AList.update t
                          (AList.update (wr_runID row) (lookup [] runs (wr_runID row) @ [wr_eventID row]) runs) (sc_runs s1)\<rparr>)))))"

fun scan_rows :: "windowRow list \<Rightarrow> scan \<Rightarrow> billing_error + scan" where
  "scan_rows [] s = Inr s"
| "scan_rows (r # rs) s = (case scan_row r s of Inl e \<Rightarrow> Inl e | Inr s' \<Rightarrow> scan_rows rs s')"

definition run_discrepancy :: "bool \<Rightarrow> string \<Rightarrow> RunReconciliation \<Rightarrow> Discrepancy" where
  "run_discrepancy hasWallet tenant run =
     \<lparr>dc_Kind = (if hasWallet then DiscrepancyRunDebitMismatch else DiscrepancyMissingWallet),
      dc_TenantID = tenant, dc_RunID = rn_RunID run, dc_EventIDs = rn_WindowEventIDs run,
      dc_Expected = rn_LedgerAmount run, dc_Actual = (if hasWallet then rn_WalletDebit run else zeroMoney)\<rparr>"

definition reconcile_run ::
  "billing_db \<Rightarrow> string list \<Rightarrow> string \<Rightarrow> string \<times> string list \<Rightarrow> billing_error + RunReconciliation" where
  "reconcile_run db runIDs tenant = (\<lambda>(run, events).
     let ledger = runLedgerTotals db runIDs (tenant, run);
         ledgerRows = (case ledger of None \<Rightarrow> 0 | Some (n, _) \<Rightarrow> n);
         ledgerAmount = (case ledger of None \<Rightarrow> zeroMoney | Some (_, a) \<Rightarrow> a);
         debit = (case runWalletDebits db runIDs (tenant, run) of None \<Rightarrow> zeroMoney | Some a \<Rightarrow> a)
     in case Decimal_Sub ledgerAmount debit of
          None \<Rightarrow> Inl UnusableAmount
        | Some difference \<Rightarrow> Inr \<lparr>rn_RunID = run, rn_WindowEventIDs = events, rn_LedgerRows = ledgerRows,
            rn_LedgerAmount = ledgerAmount, rn_WalletDebit = debit, rn_Difference = difference\<rparr>)"

definition differs :: "decimal \<Rightarrow> bool" where
  "differs d \<longleftrightarrow> (case Decimal_Sign d of None \<Rightarrow> False | Some sign \<Rightarrow> sign \<noteq> 0)"

text \<open>The loop over one tenant's runs, in the order of their IDs, with the debits summed up.\<close>

fun reconcile_runs ::
  "billing_db \<Rightarrow> string list \<Rightarrow> string \<Rightarrow> bool \<Rightarrow> (string \<times> string list) list
     \<Rightarrow> billing_error + (RunReconciliation list \<times> Discrepancy list \<times> rat)" where
  "reconcile_runs db runIDs tenant hasWallet [] = Inr ([], [], 0)"
| "reconcile_runs db runIDs tenant hasWallet (r # rs) =
     (case reconcile_run db runIDs tenant r of
        Inl e \<Rightarrow> Inl e
      | Inr run \<Rightarrow>
          (case rat_set_string (rn_WalletDebit run) of
             None \<Rightarrow> Inl UnusableAmount
           | Some debit \<Rightarrow>
               (case reconcile_runs db runIDs tenant hasWallet rs of
                  Inl e \<Rightarrow> Inl e
                | Inr (runs, ds, debited) \<Rightarrow>
                    Inr (run # runs,
                      (if differs (rn_Difference run) then [run_discrepancy hasWallet tenant run] else []) @ ds,
                      debit + debited))))"

definition sorted_runs :: "(string, string list) gomap \<Rightarrow> (string \<times> string list) list" where
  "sorted_runs m = map (\<lambda>k. (k, lookup [] m k)) (sort (map fst m))"

definition drift :: "string \<Rightarrow> decimal \<times> decimal \<Rightarrow> Discrepancy list" where
  "drift tenant = (\<lambda>(balance, journal).
     if sameMoney balance journal then []
     else [\<lparr>dc_Kind = DiscrepancyWalletBalanceDrift, dc_TenantID = tenant, dc_RunID = '''',
            dc_EventIDs = [], dc_Expected = journal, dc_Actual = balance\<rparr>])"

definition reconcile_tenant ::
  "billing_db \<Rightarrow> scan \<Rightarrow> string list \<Rightarrow> string
     \<Rightarrow> billing_error + (TenantReconciliation \<times> Discrepancy list \<times> rat)" where
  "reconcile_tenant db s tenantIDs tenant =
     (let wallet = walletTotals db tenantIDs tenant
      in case reconcile_runs db (sc_runIDs s) tenant (wallet \<noteq> None) (sorted_runs (lookup [] (sc_runs s) tenant)) of
           Inl e \<Rightarrow> Inl e
         | Inr (runs, ds, debited) \<Rightarrow>
             Inr (\<lparr>tr_TenantID = tenant, tr_RowsByState = lookup [] (sc_states s) tenant,
                   tr_BilledAmount = float_string (lookup 0 (sc_billed s) tenant) (int moneyScale),
                   tr_Runs = runs, tr_WalletExists = (wallet \<noteq> None),
                   tr_WalletBalance = (case wallet of None \<Rightarrow> zeroMoney | Some (b, _) \<Rightarrow> b),
                   tr_JournalSum = (case wallet of None \<Rightarrow> zeroMoney | Some (_, j) \<Rightarrow> j)\<rparr>,
                  (case wallet of None \<Rightarrow> [] | Some w \<Rightarrow> drift tenant w) @ ds, debited))"

fun reconcile_tenants ::
  "billing_db \<Rightarrow> scan \<Rightarrow> string list \<Rightarrow> string list
     \<Rightarrow> billing_error + (TenantReconciliation list \<times> Discrepancy list \<times> rat \<times> rat)" where
  "reconcile_tenants db s tenantIDs [] = Inr ([], [], 0, 0)"
| "reconcile_tenants db s tenantIDs (t # ts) =
     (case reconcile_tenant db s tenantIDs t of
        Inl e \<Rightarrow> Inl e
      | Inr (tr, ds, debited) \<Rightarrow>
          (case reconcile_tenants db s tenantIDs ts of
             Inl e \<Rightarrow> Inl e
           | Inr (trs, ds', billedTotal, debitedTotal) \<Rightarrow>
               Inr (tr # trs, ds @ ds', lookup 0 (sc_billed s) t + billedTotal, debited + debitedTotal)))"

definition empty_scan :: scan where
  "empty_scan = \<lparr>sc_states = [], sc_billed = [], sc_runs = [], sc_runIDs = [], sc_unsettled = [], sc_discrepancies = []\<rparr>"

definition Reconciliation_Run :: "bool \<Rightarrow> time \<Rightarrow> time \<Rightarrow> billing_db \<Rightarrow> billing_error + ReconciliationReport" where
  "Reconciliation_Run fault start stop db =
     (if \<not> stop > start then Inl BadMovement
      else if fault then Inl BillingDBFault
      else case scan_rows (windowRows start stop db) empty_scan of
        Inl e \<Rightarrow> Inl e
      | Inr s \<Rightarrow>
          (let tenantIDs = sort (map fst (sc_states s))
           in case reconcile_tenants db s tenantIDs tenantIDs of
                Inl e \<Rightarrow> Inl e
              | Inr (trs, ds, billedTotal, debitedTotal) \<Rightarrow>
                  Inr \<lparr>rp_Start = start, rp_End = stop, rp_Tenants = trs, rp_UnsettledRows = sc_unsettled s,
                    rp_TotalBilled = float_string billedTotal (int moneyScale),
                    rp_TotalDebited = float_string debitedTotal (int moneyScale),
                    rp_Discrepancies = sc_discrepancies s @ ds\<rparr>))"

section \<open>Texts and values\<close>

lemma decimal_val_numeric_text: "money_exact x \<Longrightarrow> decimal_val (numeric_text x) = Some x"
  using decimal_val_float12[of x] round_to_exact[of x moneyScale] by (auto simp: numeric_text_def money_exact_def)

lemma decimal_places_numeric_text: "decimal_places (numeric_text x) = 12"
proof -
  have "parse_decimal (trim_space (numeric_text x)) = Some (float12_parts x)"
    by (simp add: numeric_text_def parse_float12)
  from decimal_places_parts[OF this] show ?thesis
    using float12_val(2,3)[of x] by (auto simp: wrap64_def)
qed

text \<open>A text of an exact amount, as the reports compare them.\<close>

definition money_text :: "decimal \<Rightarrow> rat \<Rightarrow> bool" where
  "money_text d x \<longleftrightarrow> decimal_val d = Some x \<and> rat_set_string d = Some x \<and> decimal_places d \<le> 12"

lemma money_text_numeric: "money_exact x \<Longrightarrow> money_text (numeric_text x) x"
  by (simp add: money_text_def decimal_val_numeric_text rat_set_string_numeric_text decimal_places_numeric_text)

lemma money_text_sum: "(\<And>v. v \<in> set vs \<Longrightarrow> money_exact v) \<Longrightarrow> money_text (sum_text vs) (sum_list vs)"
proof -
  assume ex: "\<And>v. v \<in> set vs \<Longrightarrow> money_exact v"
  have "money_text ''0'' 0" unfolding money_text_def by code_simp
  with money_text_numeric[OF sum_list_exact[OF ex]] show ?thesis by (auto simp: sum_text_def)
qed

lemma money_text_zero: "money_text zeroMoney 0"
  using money_text_numeric[of 0] by (simp add: zeroMoney_def numeric_text_def)

lemma sameMoney_iff: "money_text a x \<Longrightarrow> money_text b y \<Longrightarrow> sameMoney a b \<longleftrightarrow> x = y"
  by (simp add: sameMoney_def money_text_def)

lemma difference_text:
  assumes "money_text a x" "money_text b y"
  shows "\<exists>d. Decimal_Sub a b = Some d \<and> (differs d \<longleftrightarrow> x \<noteq> y)"
proof -
  from assms obtain d where d: "Decimal_Sub a b = Some d" "decimal_val d = Some (x - y)"
    using Decimal_Sub_val[of a x b y] by (auto simp: money_text_def)
  then have "Decimal_Sign d = Some (if x - y < 0 then -1 else if x - y = 0 then 0 else 1)"
    by (auto simp: decimal_val_def Decimal_Sign_def split: if_splits)
  then have "differs d \<longleftrightarrow> x \<noteq> y" by (auto simp: differs_def)
  with d show ?thesis by blast
qed

definition columns_ok :: "billing_db \<Rightarrow> bool" where
  "columns_ok db \<longleftrightarrow> distinct (map fst (bd_wallets db)) \<and>
     (\<forall>(t, w) \<in> set (bd_wallets db). money_exact (tw_balance w)) \<and>
     (\<forall>t \<in> set (bd_journal db). money_exact (wt_amount t)) \<and>
     (\<forall>u \<in> set (bd_usage db). \<forall>x. ul_billed_amount u = Some x \<longrightarrow> money_exact x)"

section \<open>The scan\<close>

definition row_discs :: "windowRow \<Rightarrow> Discrepancy list" where
  "row_discs r =
     (if wr_state r \<noteq> ''billed'' then
        (if wr_amount r \<noteq> None then [row_discrepancy DiscrepancyAmountOnUnsettledRow r] else [])
      else if wr_amount r = None then [row_discrepancy DiscrepancyBilledWithoutAmount r]
      else if wr_runID r = '''' then [row_discrepancy DiscrepancyBilledWithoutRun r] else [])"

definition settles :: "windowRow \<Rightarrow> bool" where
  "settles r \<longleftrightarrow> wr_state r = ''billed'' \<and> wr_amount r \<noteq> None \<and> wr_runID r \<noteq> ''''"

definition row_value :: "windowRow \<Rightarrow> rat" where
  "row_value r = (if wr_state r = ''billed'' then
     (case wr_amount r of None \<Rightarrow> 0 | Some a \<Rightarrow> (case rat_set_string a of None \<Rightarrow> 0 | Some v \<Rightarrow> v)) else 0)"

definition readable :: "windowRow \<Rightarrow> bool" where
  "readable r \<longleftrightarrow> (\<forall>a. wr_amount r = Some a \<longrightarrow> rat_set_string a \<noteq> None)"

definition run_keys :: "scan \<Rightarrow> string \<Rightarrow> string set" where
  "run_keys s t = fst ` set (lookup [] (sc_runs s) t)"

lemma lookup_update: "lookup d (AList.update k v m) k' = (if k' = k then v else lookup d m k')"
  by (simp add: lookup_def gomap_simps)

lemma fst_update: "fst ` set (AList.update k v m) = insert k (fst ` set m)"
  by (induction m) auto

definition scan_wf :: "scan \<Rightarrow> bool" where
  "scan_wf s \<longleftrightarrow> distinct (map fst (sc_states s)) \<and> (\<forall>t. distinct (map fst (lookup [] (sc_runs s) t)))
     \<and> (\<forall>t. run_keys s t \<subseteq> set (sc_runIDs s))"

lemma scan_row_spec:
  assumes "readable r" "scan_wf s"
  shows "\<exists>s'. scan_row r s = Inr s' \<and> scan_wf s' \<and>
    sc_discrepancies s' = sc_discrepancies s @ row_discs r \<and>
    fst ` set (sc_states s') = insert (wr_tenantID r) (fst ` set (sc_states s)) \<and>
    (\<forall>t. lookup 0 (sc_billed s') t = lookup 0 (sc_billed s) t + (if wr_tenantID r = t then row_value r else 0)) \<and>
    (\<forall>t. run_keys s' t = run_keys s t \<union> {wr_runID r |x. wr_tenantID r = t \<and> settles r})"
proof -
  define s1 where "s1 = count_row r s"
  have c: "sc_discrepancies s1 = sc_discrepancies s" "sc_runs s1 = sc_runs s" "sc_runIDs s1 = sc_runIDs s"
    "fst ` set (sc_states s1) = insert (wr_tenantID r) (fst ` set (sc_states s))"
    "distinct (map fst (sc_states s1))"
    "\<And>t. lookup 0 (sc_billed s1) t = lookup 0 (sc_billed s) t"
    using assms(2) by (simp_all add: s1_def count_row_def Let_def fst_update distinct_update lookup_update scan_wf_def)
  have kk: "run_keys s1 t = run_keys s t" for t by (simp add: run_keys_def c)
  show ?thesis
  proof (cases "wr_state r = ''billed'' \<and> wr_amount r \<noteq> None")
    case False
    with c kk assms(2) show ?thesis
      by (auto simp: scan_row_def Let_def s1_def[symmetric] scan_wf_def run_keys_def row_discs_def row_value_def settles_def
          split: option.splits)
  next
    case True
    then obtain a v where a: "wr_amount r = Some a" "rat_set_string a = Some v"
      using assms(1) by (auto simp: readable_def)
    have val: "row_value r = v" using True a by (simp add: row_value_def)
    define s2 where "s2 = s1\<lparr>sc_billed := AList.update (wr_tenantID r) (lookup 0 (sc_billed s1) (wr_tenantID r) + v) (sc_billed s1)\<rparr>"
    have b: "lookup 0 (sc_billed s2) t = lookup 0 (sc_billed s) t + (if wr_tenantID r = t then row_value r else 0)" for t
      by (simp add: s2_def lookup_update c val)
    show ?thesis
    proof (cases "wr_runID r = ''''")
      case empty: True
      have "scan_row r s = Inr (s2\<lparr>sc_discrepancies := sc_discrepancies s2 @ [row_discrepancy DiscrepancyBilledWithoutRun r]\<rparr>)"
        using True a empty by (simp add: scan_row_def Let_def s1_def[symmetric] s2_def)
      with True a empty b c kk assms(2) show ?thesis
        by (auto simp: scan_wf_def run_keys_def row_discs_def settles_def s2_def)
    next
      case ne: False
      define runs where "runs = lookup [] (sc_runs s) (wr_tenantID r)"
      define s3 where "s3 = s2\<lparr>sc_runIDs := (if wr_runID r \<in> set (sc_runIDs s) then sc_runIDs s else sc_runIDs s @ [wr_runID r]),
          sc_runs := AList.update (wr_tenantID r)
            (AList.update (wr_runID r) (lookup [] runs (wr_runID r) @ [wr_eventID r]) runs) (sc_runs s)\<rparr>"
      have e: "scan_row r s = Inr s3"
        using True a ne by (simp add: scan_row_def Let_def s1_def[symmetric] s2_def s3_def c runs_def)
      have k3: "run_keys s3 t = run_keys s t \<union> {wr_runID r |x. wr_tenantID r = t \<and> settles r}" for t
        using True a ne by (auto simp: run_keys_def s3_def lookup_update fst_update settles_def runs_def)
      have ids: "set (sc_runIDs s3) = insert (wr_runID r) (set (sc_runIDs s))" by (auto simp: s3_def)
      have "distinct (map fst (lookup [] (sc_runs s3) t))" for t
        using assms(2) by (auto simp: s3_def lookup_update runs_def scan_wf_def intro!: distinct_update)
      moreover have "run_keys s3 t \<subseteq> set (sc_runIDs s3)" for t
        using assms(2) k3[of t] ids by (auto simp: scan_wf_def)
      ultimately have "scan_wf s3" using c(5) by (simp add: scan_wf_def s3_def s2_def)
      moreover have "sc_discrepancies s3 = sc_discrepancies s @ row_discs r" "sc_states s3 = sc_states s1" "sc_billed s3 = sc_billed s2"
        using True a ne by (simp_all add: s3_def s2_def c row_discs_def)
      ultimately show ?thesis using e k3 b c(4) by (intro exI[of _ s3]) simp
    qed
  qed
qed

lemma scan_rows_spec:
  assumes "\<forall>r \<in> set rs. readable r" "scan_wf s"
  shows "\<exists>s'. scan_rows rs s = Inr s' \<and> scan_wf s' \<and>
    sc_discrepancies s' = sc_discrepancies s @ concat (map row_discs rs) \<and>
    fst ` set (sc_states s') = fst ` set (sc_states s) \<union> wr_tenantID ` set rs \<and>
    (\<forall>t. lookup 0 (sc_billed s') t = lookup 0 (sc_billed s) t
       + sum_list (map row_value (filter (\<lambda>r. wr_tenantID r = t) rs))) \<and>
    (\<forall>t. run_keys s' t = run_keys s t \<union> {wr_runID r |r. r \<in> set rs \<and> wr_tenantID r = t \<and> settles r})"
  using assms
proof (induction rs arbitrary: s)
  case Nil
  then show ?case by (intro exI[of _ s]) auto
next
  case (Cons r rs)
  from scan_row_spec[of r s] Cons.prems obtain s1 where s1: "scan_row r s = Inr s1" "scan_wf s1"
    "sc_discrepancies s1 = sc_discrepancies s @ row_discs r"
    "fst ` set (sc_states s1) = insert (wr_tenantID r) (fst ` set (sc_states s))"
    "\<forall>t. lookup 0 (sc_billed s1) t = lookup 0 (sc_billed s) t + (if wr_tenantID r = t then row_value r else 0)"
    "\<forall>t. run_keys s1 t = run_keys s t \<union> {wr_runID r |x. wr_tenantID r = t \<and> settles r}" by auto
  from Cons.IH[OF _ s1(2)] Cons.prems(1) obtain s2 where s2: "scan_rows rs s1 = Inr s2" "scan_wf s2"
    "sc_discrepancies s2 = sc_discrepancies s1 @ concat (map row_discs rs)"
    "fst ` set (sc_states s2) = fst ` set (sc_states s1) \<union> wr_tenantID ` set rs"
    "\<forall>t. lookup 0 (sc_billed s2) t = lookup 0 (sc_billed s1) t + sum_list (map row_value (filter (\<lambda>r. wr_tenantID r = t) rs))"
    "\<forall>t. run_keys s2 t = run_keys s1 t \<union> {wr_runID r |r. r \<in> set rs \<and> wr_tenantID r = t \<and> settles r}" by auto
  have "run_keys s2 t = run_keys s t \<union> {wr_runID x |x. x \<in> set (r # rs) \<and> wr_tenantID x = t \<and> settles x}" for t
    unfolding s2(6)[rule_format] s1(6)[rule_format] by auto
  moreover have "lookup 0 (sc_billed s2) t = lookup 0 (sc_billed s) t
       + sum_list (map row_value (filter (\<lambda>x. wr_tenantID x = t) (r # rs)))" for t
    unfolding s2(5)[rule_format] s1(5)[rule_format] by simp
  ultimately show ?case using s1(1,3,4) s2(1-4) by (intro exI[of _ s2]) auto
qed

section \<open>Runs and tenants\<close>

definition ledger_sum :: "billing_db \<Rightarrow> string \<Rightarrow> string \<Rightarrow> rat" where
  "ledger_sum db tenant run = sum_list (List.map_filter ul_billed_amount (run_rows db tenant run))"

definition debit_sum :: "billing_db \<Rightarrow> string \<Rightarrow> string \<Rightarrow> rat" where
  "debit_sum db tenant run = sum_list (map (\<lambda>t. - wt_amount t) (run_debits db tenant run))"

lemma money_exact_uminus: "money_exact x \<Longrightarrow> money_exact (- x)"
  unfolding money_exact_def by (metis mult_minus_left of_int_minus)

lemma ledger_text:
  assumes "columns_ok db" "run \<in> set runIDs"
  shows "money_text (case runLedgerTotals db runIDs (tenant, run) of None \<Rightarrow> zeroMoney | Some (_, a) \<Rightarrow> a) (ledger_sum db tenant run)"
proof -
  have "money_text (sum_text (List.map_filter ul_billed_amount (run_rows db tenant run))) (ledger_sum db tenant run)"
    unfolding ledger_sum_def by (rule money_text_sum)
      (use assms(1) in \<open>auto simp: columns_ok_def run_rows_def List.map_filter_def\<close>)
  with money_text_zero assms(2) show ?thesis
    by (auto simp: runLedgerTotals_def Let_def ledger_sum_def)
qed

lemma debit_text:
  assumes "columns_ok db" "run \<in> set runIDs"
  shows "money_text (case runWalletDebits db runIDs (tenant, run) of None \<Rightarrow> zeroMoney | Some a \<Rightarrow> a) (debit_sum db tenant run)"
proof -
  have "money_text (sum_text (map (\<lambda>t. - wt_amount t) (run_debits db tenant run))) (debit_sum db tenant run)"
    unfolding debit_sum_def by (rule money_text_sum)
      (use assms(1) in \<open>auto simp: columns_ok_def run_debits_def intro: money_exact_uminus\<close>)
  with money_text_zero assms(2) show ?thesis
    by (auto simp: runWalletDebits_def Let_def debit_sum_def)
qed

lemma reconcile_run_spec:
  assumes "columns_ok db" "run \<in> set runIDs"
  shows "\<exists>rn. reconcile_run db runIDs tenant (run, events) = Inr rn \<and>
    (differs (rn_Difference rn) \<longleftrightarrow> ledger_sum db tenant run \<noteq> debit_sum db tenant run) \<and>
    rat_set_string (rn_WalletDebit rn) = Some (debit_sum db tenant run)"
  using difference_text[OF ledger_text[OF assms, of tenant] debit_text[OF assms, of tenant]]
    debit_text[OF assms, of tenant]
  by (auto simp: reconcile_run_def Let_def money_text_def)

lemma reconcile_runs_spec:
  assumes "columns_ok db" "fst ` set rs \<subseteq> set runIDs"
  shows "\<exists>runs ds. reconcile_runs db runIDs tenant hw rs = Inr (runs, ds, sum_list (map (debit_sum db tenant \<circ> fst) rs)) \<and>
    (ds = [] \<longleftrightarrow> (\<forall>run \<in> fst ` set rs. ledger_sum db tenant run = debit_sum db tenant run))"
  using assms(2)
proof (induction rs)
  case (Cons r rs)
  obtain run events where r: "r = (run, events)" by (cases r)
  with Cons.prems have "run \<in> set runIDs" by auto
  from reconcile_run_spec[OF assms(1) this] obtain rn where rn:
    "reconcile_run db runIDs tenant (run, events) = Inr rn"
    "differs (rn_Difference rn) \<longleftrightarrow> ledger_sum db tenant run \<noteq> debit_sum db tenant run"
    "rat_set_string (rn_WalletDebit rn) = Some (debit_sum db tenant run)" by blast
  have "fst ` set rs \<subseteq> set runIDs" using Cons.prems by auto
  from Cons.IH[OF this] obtain runs ds where IH:
    "reconcile_runs db runIDs tenant hw rs = Inr (runs, ds, sum_list (map (debit_sum db tenant \<circ> fst) rs))"
    "ds = [] \<longleftrightarrow> (\<forall>run \<in> fst ` set rs. ledger_sum db tenant run = debit_sum db tenant run)" by blast
  from rn IH show ?case by (auto simp: r o_def)
qed simp

definition wallet_agrees :: "billing_db \<Rightarrow> string \<Rightarrow> bool" where
  "wallet_agrees db tenant \<longleftrightarrow>
     (\<forall>w. map_of (bd_wallets db) tenant = Some w \<longrightarrow> tw_balance w = tenant_sum (bd_journal db) tenant)"

lemma reconcile_tenant_spec:
  assumes ok: "columns_ok db" and wf: "scan_wf s" and t: "tenant \<in> set tenantIDs"
  shows "\<exists>tr ds x. reconcile_tenant db s tenantIDs tenant = Inr (tr, ds, x) \<and>
    (ds = [] \<longleftrightarrow> wallet_agrees db tenant \<and>
      (\<forall>run \<in> run_keys s tenant. ledger_sum db tenant run = debit_sum db tenant run))"
proof -
  let ?runs = "sorted_runs (lookup [] (sc_runs s) tenant)" and ?w = "walletTotals db tenantIDs tenant"
  have keys: "fst ` set ?runs = run_keys s tenant" by (simp add: sorted_runs_def run_keys_def image_image)
  then have "fst ` set ?runs \<subseteq> set (sc_runIDs s)" using wf by (simp add: scan_wf_def)
  from reconcile_runs_spec[OF ok this, of tenant "?w \<noteq> None", unfolded keys] obtain runs ds where rr:
    "reconcile_runs db (sc_runIDs s) tenant (?w \<noteq> None) ?runs =
       Inr (runs, ds, sum_list (map (debit_sum db tenant \<circ> fst) ?runs))"
    "ds = [] \<longleftrightarrow> (\<forall>run \<in> run_keys s tenant. ledger_sum db tenant run = debit_sum db tenant run)"
    by (elim exE conjE)
  have "(case ?w of None \<Rightarrow> [] | Some w \<Rightarrow> drift tenant w) = [] \<longleftrightarrow> wallet_agrees db tenant"
  proof (cases "map_of (bd_wallets db) tenant")
    case None
    then show ?thesis by (simp add: walletTotals_def wallet_agrees_def)
  next
    case (Some w)
    then have "(tenant, w) \<in> set (bd_wallets db)" by (rule map_of_SomeD)
    then have "money_exact (tw_balance w)" using ok by (auto simp: columns_ok_def)
    then have b: "money_text (numeric_text (tw_balance w)) (tw_balance w)" by (rule money_text_numeric)
    have j: "money_text (sum_text (map wt_amount (filter (\<lambda>t. wt_tenant_id t = tenant) (bd_journal db)))) (tenant_sum (bd_journal db) tenant)"
      unfolding tenant_sum_def by (rule money_text_sum) (use ok in \<open>auto simp: columns_ok_def\<close>)
    from Some t sameMoney_iff[OF b j] show ?thesis
      by (simp add: walletTotals_def wallet_agrees_def drift_def)
  qed
  with rr show ?thesis by (auto simp: reconcile_tenant_def Let_def)
qed

lemma reconcile_tenants_spec:
  assumes "columns_ok db" "scan_wf s" "set ts \<subseteq> set tenantIDs"
  shows "\<exists>trs ds y. reconcile_tenants db s tenantIDs ts =
      Inr (trs, ds, sum_list (map (lookup 0 (sc_billed s)) ts), y) \<and>
    (ds = [] \<longleftrightarrow> (\<forall>t \<in> set ts. wallet_agrees db t \<and>
      (\<forall>run \<in> run_keys s t. ledger_sum db t run = debit_sum db t run)))"
  using assms(3)
proof (induction ts)
  case (Cons t ts)
  then have "t \<in> set tenantIDs" by simp
  from reconcile_tenant_spec[OF assms(1,2) this] obtain tr ds x where one:
    "reconcile_tenant db s tenantIDs t = Inr (tr, ds, x)"
    "ds = [] \<longleftrightarrow> wallet_agrees db t \<and> (\<forall>run \<in> run_keys s t. ledger_sum db t run = debit_sum db t run)" by blast
  have "set ts \<subseteq> set tenantIDs" using Cons.prems by auto
  from Cons.IH[OF this] obtain trs ds' y where IH:
    "reconcile_tenants db s tenantIDs ts = Inr (trs, ds', sum_list (map (lookup 0 (sc_billed s)) ts), y)"
    "ds' = [] \<longleftrightarrow> (\<forall>t \<in> set ts. wallet_agrees db t \<and>
      (\<forall>run \<in> run_keys s t. ledger_sum db t run = debit_sum db t run))" by blast
  from one IH show ?case by auto
qed simp

section \<open>What a balanced report means\<close>

definition row_agrees :: "ledger_row \<Rightarrow> bool" where
  "row_agrees u \<longleftrightarrow>
     (if ul_billing_state u = ''billed'' then ul_billed_amount u \<noteq> None \<and> ul_billing_run_id u \<notin> {None, Some ''''}
      else ul_billed_amount u = None)"

text \<open>The three records agree on the rows of the window.\<close>

definition window_agrees :: "time \<Rightarrow> time \<Rightarrow> billing_db \<Rightarrow> bool" where
  "window_agrees start stop db \<longleftrightarrow>
     (\<forall>u \<in> set (bd_usage db). in_window start stop u \<longrightarrow>
        row_agrees u \<and> wallet_agrees db (ul_tenant_id u) \<and>
        (\<forall>run. ul_billing_state u = ''billed'' \<and> ul_billing_run_id u = Some run \<longrightarrow>
           ledger_sum db (ul_tenant_id u) run = debit_sum db (ul_tenant_id u) run))"

lemma row_discs_agree: "row_discs (window_row u) = [] \<longleftrightarrow> row_agrees u"
  by (auto simp: row_discs_def window_row_def row_agrees_def split: option.splits)

lemma settles_window_row:
  "settles (window_row u) \<longleftrightarrow> ul_billing_state u = ''billed'' \<and> ul_billed_amount u \<noteq> None \<and> ul_billing_run_id u \<notin> {None, Some ''''}"
  by (auto simp: settles_def window_row_def split: option.splits)

lemma reconciliation_spec:
  assumes ok: "columns_ok db" and w: "start < stop"
  shows "\<exists>rep. Reconciliation_Run False start stop db = Inr rep \<and> (Balanced rep \<longleftrightarrow> window_agrees start stop db)"
proof -
  let ?us = "order_by window_order (filter (in_window start stop) (bd_usage db))"
  have rows: "windowRows start stop db = map window_row ?us" by (simp add: windowRows_def)
  have us: "set ?us = {u \<in> set (bd_usage db). in_window start stop u}" by auto
  have read: "\<forall>r \<in> set (windowRows start stop db). readable r"
    using ok by (auto simp: rows readable_def window_row_def columns_ok_def rat_set_string_numeric_text)
  have wf: "scan_wf empty_scan" by (simp add: scan_wf_def empty_scan_def run_keys_def lookup_def)
  from scan_rows_spec[OF read wf] obtain s where s: "scan_rows (windowRows start stop db) empty_scan = Inr s" "scan_wf s"
    "sc_discrepancies s = concat (map row_discs (windowRows start stop db))"
    "fst ` set (sc_states s) = wr_tenantID ` set (windowRows start stop db)"
    "\<And>t. run_keys s t = {wr_runID r |r. r \<in> set (windowRows start stop db) \<and> wr_tenantID r = t \<and> settles r}"
    by (auto simp: empty_scan_def run_keys_def lookup_def)
  let ?ts = "sort (map fst (sc_states s))"
  have "wr_tenantID (window_row u) = ul_tenant_id u" for u by (simp add: window_row_def)
  then have ts: "set ?ts = ul_tenant_id ` set ?us" using s(4) unfolding rows by (simp add: image_image)
  from reconcile_tenants_spec[OF ok s(2) subset_refl, of ?ts] obtain trs ds y where rt:
    "reconcile_tenants db s ?ts ?ts = Inr (trs, ds, sum_list (map (lookup 0 (sc_billed s)) ?ts), y)"
    "ds = [] \<longleftrightarrow> (\<forall>t \<in> set ?ts. wallet_agrees db t \<and> (\<forall>run \<in> run_keys s t. ledger_sum db t run = debit_sum db t run))"
    by (elim exE conjE)
  have d1: "sc_discrepancies s = [] \<longleftrightarrow> (\<forall>u \<in> set ?us. row_agrees u)"
    by (simp add: s(3) rows row_discs_agree)
  have keys: "run_keys s t = {case ul_billing_run_id u of None \<Rightarrow> '''' | Some r \<Rightarrow> r |u. u \<in> set ?us \<and> ul_tenant_id u = t \<and> settles (window_row u)}" for t
  proof -
    have f: "wr_tenantID (window_row u) = ul_tenant_id u"
      "wr_runID (window_row u) = (case ul_billing_run_id u of None \<Rightarrow> '''' | Some r \<Rightarrow> r)" for u
      by (simp_all add: window_row_def)
    show ?thesis unfolding s(5) rows set_map f[symmetric] by blast
  qed
  have "sc_discrepancies s @ ds = [] \<longleftrightarrow> window_agrees start stop db"
  proof -
    have k: "run \<in> run_keys s (ul_tenant_id u)" if "u \<in> set ?us" "row_agrees u" "ul_billing_state u = ''billed''"
      "ul_billing_run_id u = Some run" for u run
      unfolding keys using that by (force simp: settles_window_row row_agrees_def)
    have k': "\<exists>u \<in> set ?us. ul_tenant_id u = t \<and> ul_billing_state u = ''billed'' \<and> ul_billing_run_id u = Some run"
      if "run \<in> run_keys s t" for run t
      using that unfolding keys by (auto simp: settles_window_row)
    show ?thesis
    proof
      assume a: "sc_discrepancies s @ ds = []"
      with d1 rt(2) have "\<forall>u \<in> set ?us. row_agrees u"
        and tt: "\<forall>t \<in> set ?ts. wallet_agrees db t \<and> (\<forall>run \<in> run_keys s t. ledger_sum db t run = debit_sum db t run)" by auto
      then have each: "row_agrees u \<and> wallet_agrees db (ul_tenant_id u) \<and> (\<forall>run. ul_billing_state u = ''billed'' \<and>
          ul_billing_run_id u = Some run \<longrightarrow> ledger_sum db (ul_tenant_id u) run = debit_sum db (ul_tenant_id u) run)"
        if "u \<in> set ?us" for u
        using that k[of u] ts by blast
      show "window_agrees start stop db"
        unfolding window_agrees_def using each us by blast
    next
      assume a: "window_agrees start stop db"
      then have "sc_discrepancies s = []" unfolding d1 us by (auto simp: window_agrees_def)
      moreover have "ds = []" unfolding rt(2) ts
      proof (intro ballI conjI)
        fix t assume "t \<in> ul_tenant_id ` set ?us"
        then show "wallet_agrees db t" using a by (auto simp: window_agrees_def)
      next
        fix t run assume "run \<in> run_keys s t"
        from k'[OF this] show "ledger_sum db t run = debit_sum db t run" using a by (auto simp: window_agrees_def)
      qed
      ultimately show "sc_discrepancies s @ ds = []" by simp
    qed
  qed
  moreover have "Reconciliation_Run False start stop db = Inr \<lparr>rp_Start = start, rp_End = stop, rp_Tenants = trs,
      rp_UnsettledRows = sc_unsettled s,
      rp_TotalBilled = float_string (sum_list (map (lookup 0 (sc_billed s)) ?ts)) (int moneyScale),
      rp_TotalDebited = float_string y (int moneyScale), rp_Discrepancies = sc_discrepancies s @ ds\<rparr>"
    using w s(1) rt(1) by (simp add: Reconciliation_Run_def Let_def)
  ultimately show ?thesis by (auto simp: Balanced_def)
qed

text \<open>A database in which a row was marked billed and no wallet was debited for it.\<close>

definition forged_billing :: billing_db where
  "forged_billing = sample_billing\<lparr>bd_usage :=
     [(sample_usage 1 ''e1'' UsageSourceUpstream)\<lparr>ul_billing_state := ''billed'', ul_billed_amount := Some 1,
        ul_billing_run_id := Some ''run''\<rparr>]\<rparr>"

text \<open>C5. A reconciliation of a window over well-formed money columns always produces a report, and the report is
  balanced exactly when the three records agree on the rows of the window: billed rows, and only they, carry an amount
  and a run; every tenant's wallet balance is the sum of its journal; and for every tenant and run that a billed row of
  the window names, the billed amounts of the run add up to what the run debited.\<close>

theorem balanced_report_exact:
  assumes "columns_ok db" "start < stop"
  shows "\<exists>rep. Reconciliation_Run False start stop db = Inr rep \<and> (Balanced rep \<longleftrightarrow> window_agrees start stop db)"
  by (rule reconciliation_spec[OF assms])

theorem balanced_report_exact_witness:
  "(\<exists>rep. Reconciliation_Run False 0 9000 sample_billing = Inr rep \<and> Balanced rep) \<and>
   (\<exists>rep. Reconciliation_Run False 0 9000 forged_billing = Inr rep \<and> \<not> Balanced rep)"
proof -
  have "columns_ok sample_billing" "columns_ok forged_billing"
    by (simp_all add: columns_ok_def sample_billing_def forged_billing_def sample_usage_def money_exact_sample)
  moreover have "window_agrees 0 9000 sample_billing"
    by (simp add: window_agrees_def sample_billing_def sample_usage_def row_agrees_def wallet_agrees_def tenant_sum_def)
  moreover have "\<not> window_agrees 0 9000 forged_billing"
    by (simp add: window_agrees_def forged_billing_def sample_billing_def sample_usage_def row_agrees_def in_window_def
        pg_time_def ledger_sum_def debit_sum_def run_rows_def run_debits_def)
  ultimately show ?thesis using balanced_report_exact[of sample_billing 0 9000] balanced_report_exact[of forged_billing 0 9000]
    by auto
qed

end
