(* ===== verification/HeldTray.thy ===== *)
theory HeldTray
  imports Reconcile
begin

text \<open>
  The held tray (\<^verbatim>\<open>internal/control/console_held.go\<close>): a human rules on a ledger row the policy
  would not decide.  \<open>resolveHeld\<close> is one transaction over the ledger, the wallet, its journal and
  the table of rulings, whose constraints (\<^verbatim>\<open>migrations/008_billing_resolutions.sql\<close>) are written
  out; \<open>handleResolveHeld\<close> is the endpoint around it.  The lemmas show what each ruling does to
  the books and that a row is ruled on once.
\<close>

section \<open>The tables and the answers\<close>

record resolution_row =
  rs_event_id :: string
  rs_tenant_id :: string
  rs_decision :: string
  rs_outcome :: string
  rs_amount :: "rat option"
  rs_billing_run_id :: "string option"
  rs_operator :: string
  rs_note :: string
  rs_created_at :: time

record tray_db =
  td_billing :: billing_db
  td_resolutions :: "resolution_row list"

record heldResolution =
  hr_EventID :: string
  hr_TenantID :: string
  hr_Decision :: string
  hr_Outcome :: string
  hr_Amount :: decimal
  hr_BillingRunID :: string
  hr_Operator :: string
  hr_Note :: string
  hr_CreatedAt :: time

datatype held_error =
    NotHeld string string
  | NoLedgerRow
  | NoEntropy
  | HeldFailed billing_error

text \<open>Why a row is in the tray, told from the policy table itself.\<close>

definition heldReason :: "string \<Rightarrow> bool \<Rightarrow> int \<Rightarrow> string \<Rightarrow> string" where
  "heldReason usageSource partial statusCode errorClass =
     (let cls = \<lparr>uc_source = usageSource, uc_partial = partial, uc_succeeded = releaseSucceeded statusCode errorClass\<rparr>
      in if map_of usageDispositions cls = None
         then ''no policy entry for this usage class; the policy table is behind the contract''
         else if usageSource = UsageSourceEstimated
         then ''usage is estimated, not measured; nothing in this platform produces it yet''
         else if usageSource = UsageSourceMissing
         then ''the request was served but the upstream never reported token counts''
         else ''held by policy'')"

section \<open>The ruling\<close>

definition set_row :: "string \<Rightarrow> string \<Rightarrow> rat option \<Rightarrow> string option \<Rightarrow> billing_db \<Rightarrow> billing_db" where
  "set_row eventID state amount run db =
     db\<lparr>bd_usage := map (\<lambda>u. if ul_event_id u = eventID
        then u\<lparr>ul_billing_state := state, ul_billed_amount := amount, ul_billing_run_id := run\<rparr> else u) (bd_usage db)\<rparr>"

definition lineAmountFromCounts :: "ledger_row \<Rightarrow> ModelPrice \<Rightarrow> billing_error + rat" where
  "lineAmountFromCounts u price = lineAmount u price"

definition held_debit :: "string \<Rightarrow> ledger_row \<Rightarrow> decimal \<Rightarrow> string \<Rightarrow> WalletMovement" where
  "held_debit runID u rounded who =
     \<lparr>wm_ID = runID @ '':'' @ ul_tenant_id u, wm_TenantID = ul_tenant_id u, wm_Kind = ''debit'',
      wm_Amount = ''-'' @ rounded, wm_BillingRunID = runID,
      wm_Note = ''held row '' @ ul_event_id u @ '' billed by '' @ who\<rparr>"

text \<open>A row priced by hand: the debit, where the amount is not zero, and the mark on the row.\<close>

definition bill_held ::
  "time \<Rightarrow> string \<Rightarrow> ledger_row \<Rightarrow> string \<Rightarrow> ModelPrice \<Rightarrow> billing_db \<Rightarrow> billing_error + (billing_db \<times> decimal)" where
  "bill_held now runID u who price db =
     (case lineAmountFromCounts u price of
        Inl e \<Rightarrow> Inl e
      | Inr amount \<Rightarrow>
          (let rounded = float_string amount (int moneyScale) in
           case (if case_option False (\<lambda>sign. sign > 0) (Decimal_Sign rounded)
                 then map_sum id fst (applyMovement now (held_debit runID u rounded who) db)
                 else Inr db) of
             Inl e \<Rightarrow> Inl e
           | Inr db1 \<Rightarrow>
               (case store_amount rounded of
                  Inl e \<Rightarrow> Inl e
                | Inr v \<Rightarrow> Inr (set_row (ul_event_id u) ''billed'' (Some v) (Some runID) db1, rounded))))"

text \<open>The decision on a locked row: the books after it, the outcome, the amount and the run ID.\<close>

definition decide ::
  "time \<Rightarrow> string option \<Rightarrow> ledger_row \<Rightarrow> string \<Rightarrow> string \<Rightarrow> billing_db
     \<Rightarrow> held_error + (billing_db \<times> string \<times> decimal \<times> string)" where
  "decide now entropy u decision who db =
     (if decision = ''write_off''
      then Inr (set_row (ul_event_id u) ''not_billable'' None None db, ''not_billable'', '''', '''')
      else case entropy of
        None \<Rightarrow> Inl NoEntropy
      | Some random \<Rightarrow>
          (let runID = ''held-'' @ random in
           case priceAt db (ul_provider u) (ul_model u) (ul_occurred_at u) of
             None \<Rightarrow> Inr (set_row (ul_event_id u) ''unpriced'' None (Some runID) db, ''unpriced'', '''', runID)
           | Some price \<Rightarrow>
               (case bill_held now runID u who price db of
                  Inl e \<Rightarrow> Inl (HeldFailed e)
                | Inr (db', rounded) \<Rightarrow> Inr (db', ''billed'', rounded, runID))))"

definition resolution_check :: "resolution_row \<Rightarrow> bool" where
  "resolution_check r \<longleftrightarrow>
     rs_decision r \<in> {''bill'', ''write_off''} \<and> rs_outcome r \<in> {''billed'', ''unpriced'', ''not_billable''} \<and>
     (if rs_outcome r = ''billed'' then case_option False (\<lambda>v. 0 \<le> v) (rs_amount r) else rs_amount r = None) \<and>
     (rs_outcome r = ''not_billable'' \<longleftrightarrow> rs_billing_run_id r = None)"

definition insert_resolution :: "resolution_row \<Rightarrow> tray_db \<Rightarrow> billing_error + tray_db" where
  "insert_resolution r t =
     (if \<not> resolution_check r then Inl CheckViolation
      else if list_ex (\<lambda>q. rs_event_id q = rs_event_id r) (td_resolutions t) then Inl DuplicateKey
      else Inr (t\<lparr>td_resolutions := td_resolutions t @ [r]\<rparr>))"

text \<open>The amount column of a ruling: NULL unless the row was billed.\<close>

definition stored_amount :: "string \<Rightarrow> decimal \<Rightarrow> billing_error + rat option" where
  "stored_amount outcome amount =
     (if outcome = ''billed'' then map_sum id Some (store_amount amount) else Inr None)"

definition resolveHeld ::
  "bool \<Rightarrow> time \<Rightarrow> string option \<Rightarrow> string \<Rightarrow> string \<Rightarrow> string \<Rightarrow> string \<Rightarrow> tray_db
     \<Rightarrow> held_error + (tray_db \<times> heldResolution)" where
  "resolveHeld fault now entropy eventID decision who note t =
     (if fault then Inl (HeldFailed BillingDBFault)
      else case find (\<lambda>u. ul_event_id u = eventID) (bd_usage (td_billing t)) of
        None \<Rightarrow> Inl NoLedgerRow
      | Some u \<Rightarrow>
          if ul_billing_state u \<noteq> ''held'' then Inl (NotHeld eventID (ul_billing_state u))
          else (let operator = (if who = '''' then ''unknown'' else who) in
            case decide now entropy u decision operator (td_billing t) of
              Inl e \<Rightarrow> Inl e
            | Inr (db, outcome, amount, runID) \<Rightarrow>
                (case stored_amount outcome amount of
                   Inl e \<Rightarrow> Inl (HeldFailed e)
                 | Inr stored \<Rightarrow>
                     (case insert_resolution
                        \<lparr>rs_event_id = eventID, rs_tenant_id = ul_tenant_id u, rs_decision = decision,
                         rs_outcome = outcome, rs_amount = stored,
                         rs_billing_run_id = (if runID = '''' then None else Some runID),
                         rs_operator = operator, rs_note = trim_space note, rs_created_at = pg_time now\<rparr>
                        (t\<lparr>td_billing := db\<rparr>) of
                        Inl e \<Rightarrow> Inl (HeldFailed e)
                      | Inr t' \<Rightarrow>
                          Inr (t', \<lparr>hr_EventID = eventID, hr_TenantID = ul_tenant_id u, hr_Decision = decision,
                            hr_Outcome = outcome, hr_Amount = amount, hr_BillingRunID = runID,
                            hr_Operator = operator, hr_Note = trim_space note, hr_CreatedAt = pg_time now\<rparr>)))))"

text \<open>The endpoint; the decoded body is an argument, absent where it is not valid JSON.\<close>

record resolveHeldRequest =
  rq_Decision :: string
  rq_Note :: string

definition handleResolveHeld ::
  "bool \<Rightarrow> bool \<Rightarrow> time \<Rightarrow> string option \<Rightarrow> string \<Rightarrow> resolveHeldRequest option \<Rightarrow> string \<Rightarrow> tray_db
     \<Rightarrow> tray_db \<times> int \<times> heldResolution option" where
  "handleResolveHeld db_nil fault now entropy path_event body who t =
     (let eventID = trim_space path_event in
      if eventID = '''' then (t, 400, None)
      else case body of
        None \<Rightarrow> (t, 400, None)
      | Some request \<Rightarrow>
          (let decision = trim_space (rq_Decision request) in
           if decision \<noteq> ''bill'' \<and> decision \<noteq> ''write_off'' then (t, 400, None)
           else if db_nil then (t, 503, None)
           else case resolveHeld fault now entropy eventID decision who (rq_Note request) t of
             Inl (NotHeld _ _) \<Rightarrow> (t, 409, None)
           | Inl NoLedgerRow \<Rightarrow> (t, 404, None)
           | Inl _ \<Rightarrow> (t, 500, None)
           | Inr (t', resolution) \<Rightarrow> (t', 200, Some resolution)))"

section \<open>What a ruling does to the books\<close>

text \<open>The wallet of a tenant and its journal move by \<open>due\<close> in one debit that names the run, or not at all.\<close>

definition debited :: "string \<Rightarrow> string \<Rightarrow> rat \<Rightarrow> billing_db \<Rightarrow> billing_db \<Rightarrow> bool" where
  "debited tenantID runID due db db' \<longleftrightarrow>
     (if due = 0 then bd_wallets db' = bd_wallets db \<and> bd_journal db' = bd_journal db
      else 0 < due \<and> (\<exists>w t. map_of (bd_wallets db) tenantID = Some w \<and>
        bd_wallets db' = AList.update tenantID (w\<lparr>tw_balance := tw_balance w - due\<rparr>) (bd_wallets db) \<and>
        bd_journal db' = bd_journal db @ [t] \<and> wt_tenant_id t = tenantID \<and> wt_kind t = ''debit'' \<and>
        wt_amount t = - due \<and> wt_balance_after t = tw_balance w - due \<and>
        wt_billing_run_id t = (if runID = '''' then None else Some runID)))"

lemma settleTenant_debited:
  assumes "billing_inv db" "settleTenant fault now runID tenantID windowEnd db = Inr (db', st)"
  shows "debited tenantID runID (amount_due db tenantID windowEnd) db db'"
proof -
  have "wallet_inv db" "price_inv db" using assms(1) by (auto simp: billing_inv_def)
  note w = settled_wallet[OF this assms(2)]
  show ?thesis using w(2,3,4) by (simp add: debited_def less_le)
qed

lemma round_to_uminus: "round_to (- x) k = - round_to x k"
  by (simp add: round_to_def round_scaled_def sgn_minus)

lemma Decimal_Sign_val: "decimal_val d = Some v \<Longrightarrow> Decimal_Sign d = Some (if v > 0 then 1 else if v < 0 then -1 else 0)"
  by (auto simp: decimal_val_def Decimal_Sign_def split: if_splits option.splits)

lemma debit_moves:
  assumes winv: "wallet_inv db" and am: "applyMovement now (held_debit runID u (float_string x (int moneyScale)) who) db = Inr (db1, tx)"
    and pos: "0 < round_to x moneyScale"
  shows "debited (ul_tenant_id u) runID (round_to x moneyScale) db db1 \<and>
    wallet_inv db1 \<and> bd_usage db1 = bd_usage db \<and> bd_prices db1 = bd_prices db"
proof -
  let ?due = "round_to x moneyScale"
  from am obtain w v t where w: "map_of (bd_wallets db) (ul_tenant_id u) = Some w"
    and v: "decimal_val (''-'' @ float_string x (int moneyScale)) = Some v"
    and col: "money_column (tw_balance w + v) = Some (wt_balance_after t)"
    and t: "wt_tenant_id t = ul_tenant_id u" "wt_kind t = ''debit''" "wt_amount t = v"
      "wt_billing_run_id t = (if runID = '''' then None else Some runID)"
    and db1: "db1 = db\<lparr>bd_wallets := AList.update (ul_tenant_id u) (w\<lparr>tw_balance := wt_balance_after t\<rparr>) (bd_wallets db),
      bd_journal := bd_journal db @ [t]\<rparr>"
    by (rule applyMovement_Inr) (simp add: held_debit_def)
  have x: "0 < x"
  proof (rule ccontr)
    assume "\<not> 0 < x"
    then have "sgn x \<le> 0" by (simp add: sgn_if)
    then have "round_to x moneyScale \<le> 0" unfolding round_to_def by (simp add: divide_nonpos_pos mult_nonpos_nonneg)
    with pos show False by simp
  qed
  have vd: "v = - ?due"
    using v float_string_neg[OF x] decimal_val_float12[of "- x"] by (simp add: round_to_uminus)
  have "money_exact (- ?due)" using money_exact_round[of "- x"] by (simp add: round_to_uminus)
  then have "money_exact (tw_balance w + - ?due)"
    using wallet_inv_balance[OF winv w] by (intro money_exact_add) auto
  then have "wt_balance_after t = tw_balance w - ?due"
    using col vd money_column_exact[of "tw_balance w + - ?due"] by (simp split: if_splits)
  with w t db1 vd pos applyMovement_wallet_inv[OF winv am] show ?thesis by (auto simp: debited_def)
qed

lemma set_row_simps [simp]:
  "bd_wallets (set_row e s a r db) = bd_wallets db" "bd_journal (set_row e s a r db) = bd_journal db"
  "bd_prices (set_row e s a r db) = bd_prices db"
  "wallet_inv (set_row e s a r db) = wallet_inv db" "price_inv (set_row e s a r db) = price_inv db"
  "debited t run due db0 (set_row e s a r db) = debited t run due db0 db"
  by (simp_all add: set_row_def wallet_inv_def price_inv_def debited_def)

lemma set_row_usage_ids: "usage_ids db \<Longrightarrow> usage_ids (set_row e s a r db)"
  by (rule usage_ids_map[where f = "\<lambda>u. if ul_event_id u = e
        then u\<lparr>ul_billing_state := s, ul_billed_amount := a, ul_billing_run_id := r\<rparr> else u"]) (auto simp: set_row_def)

lemma map_sum_fst_Inr: "map_sum id fst r = Inr x \<longleftrightarrow> (\<exists>y. r = Inr (x, y))"
  by (cases r) auto

lemma bill_held_Inr:
  assumes inv: "wallet_inv db" "price_inv db" and p: "row_price db u = Some p"
    and ok: "bill_held now runID u who (read_price p) db = Inr (db', rounded)"
  defines "due \<equiv> round_to (line_value p u) moneyScale"
  shows "decimal_val rounded = Some due \<and> store_amount rounded = Inr due \<and> 0 \<le> due \<and>
    (\<exists>db1. debited (ul_tenant_id u) runID due db db1 \<and> wallet_inv db1 \<and> bd_usage db1 = bd_usage db \<and>
      bd_prices db1 = bd_prices db \<and> db' = set_row (ul_event_id u) ''billed'' (Some due) (Some runID) db1)"
proof -
  have pok: "price_ok p" using row_price_ok[OF inv(2) p] .
  from ok have tok: "\<not> (ul_tokens_in u < 0 \<or> ul_tokens_out u < 0 \<or> ul_cache_read_tokens u < 0 \<or> ul_cache_write_tokens u < 0)"
    by (auto simp: bill_held_def lineAmountFromCounts_def lineAmount_value[OF pok] split: if_splits)
  let ?s = "float_string (line_value p u) (int moneyScale)"
  have la: "lineAmountFromCounts u (read_price p) = Inr (line_value p u)"
    using tok by (simp add: lineAmountFromCounts_def lineAmount_value[OF pok])
  have "0 \<le> line_value p u" using tok pok
    by (auto simp: line_value_def price_ok_def intro!: divide_nonneg_pos add_nonneg_nonneg mult_nonneg_nonneg)
  then have nn: "0 \<le> due" unfolding due_def by (rule round_to_nonneg)
  have val: "decimal_val ?s = Some due" unfolding due_def by (rule decimal_val_float12)
  from ok obtain db1 v where r: "rounded = ?s" and st: "store_amount ?s = Inr v"
    and mv0: "if 0 < due then map_sum id fst (applyMovement now (held_debit runID u ?s who) db) = Inr db1 else db1 = db"
    and db': "db' = set_row (ul_event_id u) ''billed'' (Some v) (Some runID) db1"
    by (auto simp: bill_held_def la Let_def Decimal_Sign_val[OF val] split: sum.splits if_splits)
  have mv: "if 0 < due then \<exists>tx. applyMovement now (held_debit runID u ?s who) db = Inr (db1, tx) else db1 = db"
    using mv0 by (auto simp: map_sum_fst_Inr split: if_splits)
  have v: "v = due" using store_amount_float[OF st] by (simp add: due_def)
  have "debited (ul_tenant_id u) runID due db db1 \<and> wallet_inv db1 \<and> bd_usage db1 = bd_usage db \<and> bd_prices db1 = bd_prices db"
  proof (cases "0 < due")
    case True
    with mv debit_moves[OF inv(1)] show ?thesis by (auto simp: due_def)
  next
    case False
    with mv nn inv show ?thesis by (auto simp: debited_def)
  qed
  with r val st v nn db' show ?thesis by blast
qed

text \<open>The specification of a ruling: the row's new state, amount and run, and what the tenant pays.\<close>

definition ruling :: "billing_db \<Rightarrow> ledger_row \<Rightarrow> string \<Rightarrow> string \<Rightarrow> string \<times> rat option \<times> string option \<times> rat" where
  "ruling db u decision runID =
     (if decision = ''write_off'' then (''not_billable'', None, None, 0)
      else case row_price db u of
        None \<Rightarrow> (''unpriced'', None, Some runID, 0)
      | Some p \<Rightarrow> (let v = round_to (line_value p u) moneyScale in (''billed'', Some v, Some runID, v)))"

lemma find_event:
  assumes "usage_ids db" "find (\<lambda>u. ul_event_id u = e) (bd_usage db) = Some u"
  shows "u \<in> set (bd_usage db)" "ul_event_id u = e"
    "v \<in> set (bd_usage db) \<Longrightarrow> ul_event_id v = e \<Longrightarrow> v = u"
  using assms by (auto simp: find_Some_iff usage_ids_def distinct_map dest: inj_onD)

lemma decide_Inr:
  assumes inv: "billing_inv db" and ok: "decide now entropy u decision who db = Inr (db', outcome, amount, runID)"
  shows "\<exists>state a run due db1. ruling db u decision runID = (state, a, run, due) \<and> outcome = state \<and>
    (decision = ''write_off'' \<longrightarrow> runID = '''') \<and> (decision \<noteq> ''write_off'' \<longrightarrow> runID = ''held-'' @ the entropy) \<and>
    (state = ''billed'' \<longrightarrow> store_amount amount = Inr due \<and> a = Some due) \<and> (state \<noteq> ''billed'' \<longrightarrow> a = None \<and> due = 0) \<and>
    debited (ul_tenant_id u) runID due db db1 \<and> wallet_inv db1 \<and> bd_usage db1 = bd_usage db \<and> bd_prices db1 = bd_prices db \<and>
    db' = set_row (ul_event_id u) state a run db1"
proof -
  have i: "wallet_inv db" "price_inv db" using inv by (auto simp: billing_inv_def)

  show ?thesis
  proof (cases "decision = ''write_off''")
    case True
    with ok i show ?thesis
      by (intro exI[of _ "''not_billable''"] exI[of _ None] exI[of _ 0] exI[of _ db])
        (auto simp: decide_def ruling_def debited_def)
  next
    case False
    with ok obtain r where r: "entropy = Some r" by (auto simp: decide_def split: option.splits)
    show ?thesis
    proof (cases "row_price db u")
      case None
      then have "priceAt db (ul_provider u) (ul_model u) (ul_occurred_at u) = None"
        by (simp add: priceAt_def row_price_def)
      with False ok r i None show ?thesis
        by (intro exI[of _ "''unpriced''"] exI[of _ None] exI[of _ "Some runID"] exI[of _ 0] exI[of _ db])
          (auto simp: decide_def ruling_def Let_def debited_def)
    next
      case (Some p)
      then have "priceAt db (ul_provider u) (ul_model u) (ul_occurred_at u) = Some (read_price p)"
        by (simp add: priceAt_def row_price_def)
      with False ok r have b: "bill_held now (''held-'' @ r) u who (read_price p) db = Inr (db', amount)"
        and o: "outcome = ''billed''" "runID = ''held-'' @ r"
        by (auto simp: decide_def Let_def split: sum.splits)
      from bill_held_Inr[OF i Some b] False Some r o show ?thesis by (auto simp: ruling_def Let_def)
    qed
  qed
qed

lemma resolveHeld_Inr:
  assumes inv: "billing_inv (td_billing t)"
    and ok: "resolveHeld fault now entropy e decision who note t = Inr (t', res)"
  obtains u state a run due db1 where
    "u \<in> set (bd_usage (td_billing t))" "ul_event_id u = e" "ul_billing_state u = ''held''"
    "ruling (td_billing t) u decision (hr_BillingRunID res) = (state, a, run, due)"
    "decision = ''write_off'' \<or> hr_BillingRunID res \<noteq> ''''" "decision \<in> {''bill'', ''write_off''}"
    "debited (ul_tenant_id u) (hr_BillingRunID res) due (td_billing t) db1" "wallet_inv db1"
    "bd_usage db1 = bd_usage (td_billing t)" "bd_prices db1 = bd_prices (td_billing t)"
    "td_billing t' = set_row e state a run db1" "hr_Outcome res = state"
    "td_resolutions t' = td_resolutions t @ [\<lparr>rs_event_id = e, rs_tenant_id = ul_tenant_id u, rs_decision = decision,
       rs_outcome = state, rs_amount = a, rs_billing_run_id = run,
       rs_operator = (if who = '''' then ''unknown'' else who), rs_note = trim_space note, rs_created_at = pg_time now\<rparr>]"
proof -
  let ?op = "if who = '''' then ''unknown'' else who"
  from ok obtain u where u: "find (\<lambda>u. ul_event_id u = e) (bd_usage (td_billing t)) = Some u"
    and held: "ul_billing_state u = ''held''"
    by (auto simp: resolveHeld_def split: option.splits if_splits)
  from ok u held obtain db' outcome amount runID where d: "decide now entropy u decision ?op (td_billing t) = Inr (db', outcome, amount, runID)"
    by (auto simp: resolveHeld_def Let_def split: sum.splits if_splits)
  from ok u held d obtain stored where s: "stored_amount outcome amount = Inr stored"
    by (auto simp: resolveHeld_def Let_def split: sum.splits if_splits)
  let ?row = "\<lparr>rs_event_id = e, rs_tenant_id = ul_tenant_id u, rs_decision = decision, rs_outcome = outcome,
    rs_amount = stored, rs_billing_run_id = (if runID = '''' then None else Some runID), rs_operator = ?op,
    rs_note = trim_space note, rs_created_at = pg_time now\<rparr>"
  from ok u held d s have ins: "insert_resolution ?row (t\<lparr>td_billing := db'\<rparr>) = Inr t'"
    and res: "hr_BillingRunID res = runID" "hr_Outcome res = outcome"
    by (auto simp: resolveHeld_def Let_def split: sum.splits if_splits)
  have ids: "usage_ids (td_billing t)" using inv by (simp add: billing_inv_def)
  note f = find_event(1,2)[OF ids u]
  from decide_Inr[OF inv d] obtain state a run due db1 where
    r: "ruling (td_billing t) u decision runID = (state, a, run, due)" "outcome = state"
    "decision = ''write_off'' \<longrightarrow> runID = ''''" "decision \<noteq> ''write_off'' \<longrightarrow> runID = ''held-'' @ the entropy"
    and am: "state = ''billed'' \<longrightarrow> store_amount amount = Inr due \<and> a = Some due" "state \<noteq> ''billed'' \<longrightarrow> a = None \<and> due = 0"
    and db: "debited (ul_tenant_id u) runID due (td_billing t) db1" "wallet_inv db1"
      "bd_usage db1 = bd_usage (td_billing t)" "bd_prices db1 = bd_prices (td_billing t)"
      "db' = set_row (ul_event_id u) state a run db1"
    by (elim exE conjE)
  have "stored = a" using s am r(2) by (auto simp: stored_amount_def split: if_splits)
  moreover have "(if runID = '''' then None else Some runID) = run"
    using r by (auto simp: ruling_def Let_def split: if_splits option.splits)
  moreover have "decision \<in> {''bill'', ''write_off''}" "t' = t\<lparr>td_billing := db', td_resolutions := td_resolutions t @ [?row]\<rparr>"
    using ins by (auto simp: insert_resolution_def resolution_check_def split: if_splits)
  moreover have "decision = ''write_off'' \<or> hr_BillingRunID res \<noteq> ''''" using r(4) res(1) by auto
  ultimately show thesis
    using r db res f(2) by (intro that[OF f held, of state a run due db1]) simp_all
qed

text \<open>
  C10.  A ruling on a held row does exactly what it says, once.  A ruling that is recorded named a
  row that was held; a write-off makes the row not billable and moves no money; a bill charges
  the price in effect when the usage occurred, rounded once, to the tenant's wallet and journal
  under a run of its own, or marks the row unpriced when there was none.  No other row changes,
  the ruling is appended to the record with that outcome and amount, and whoever rules on the
  same event again is told that the row is not held.
\<close>

theorem ruling_exact:
  assumes "billing_inv (td_billing t)" and "resolveHeld fault now entropy e decision who note t = Inr (t', res)"
  shows "\<exists>u state a run due. u \<in> set (bd_usage (td_billing t)) \<and> ul_event_id u = e \<and> ul_billing_state u = ''held'' \<and>
    ruling (td_billing t) u decision (hr_BillingRunID res) = (state, a, run, due) \<and>
    bd_usage (td_billing t') = map (\<lambda>v. if v = u
       then v\<lparr>ul_billing_state := state, ul_billed_amount := a, ul_billing_run_id := run\<rparr> else v) (bd_usage (td_billing t)) \<and>
    debited (ul_tenant_id u) (hr_BillingRunID res) due (td_billing t) (td_billing t') \<and>
    (\<exists>r. td_resolutions t' = td_resolutions t @ [r] \<and> rs_event_id r = e \<and> rs_outcome r = state \<and> rs_amount r = a) \<and>
    (\<forall>now' entropy' decision' who' note'.
       resolveHeld False now' entropy' e decision' who' note' t' = Inl (NotHeld e state))"
proof -
  from assms obtain u state a run due db1 where
    u: "u \<in> set (bd_usage (td_billing t))" "ul_event_id u = e" "ul_billing_state u = ''held''"
    and r: "ruling (td_billing t) u decision (hr_BillingRunID res) = (state, a, run, due)"
    and db: "debited (ul_tenant_id u) (hr_BillingRunID res) due (td_billing t) db1"
      "bd_usage db1 = bd_usage (td_billing t)" "td_billing t' = set_row e state a run db1"
    and res: "td_resolutions t' = td_resolutions t @ [\<lparr>rs_event_id = e, rs_tenant_id = ul_tenant_id u, rs_decision = decision,
       rs_outcome = state, rs_amount = a, rs_billing_run_id = run,
       rs_operator = (if who = '''' then ''unknown'' else who), rs_note = trim_space note, rs_created_at = pg_time now\<rparr>]"
    by (rule resolveHeld_Inr)
  have ids: "distinct (map ul_event_id (bd_usage (td_billing t)))" using assms(1) by (simp add: billing_inv_def usage_ids_def)
  let ?f = "\<lambda>v. v\<lparr>ul_billing_state := state, ul_billed_amount := a, ul_billing_run_id := run\<rparr>"
  have e: "ul_event_id v = e \<longleftrightarrow> v = u" if "v \<in> set (bd_usage (td_billing t))" for v
    using ids that u by (auto simp: distinct_map dest: inj_onD)
  have us: "bd_usage (td_billing t') = map (\<lambda>v. if v = u then ?f v else v) (bd_usage (td_billing t))"
    by (simp add: db set_row_def e)
  have find_mapped: "find (\<lambda>v. ul_event_id v = e) (map (\<lambda>v. if ul_event_id v = e then ?f v else v) us) = Some (?f u)"
    if "u \<in> set us" "\<And>v. v \<in> set us \<Longrightarrow> ul_event_id v = e \<longleftrightarrow> v = u" for us
    using that
  proof (induction us)
    case (Cons v us)
    then show ?case using Cons.prems(2)[of v] by (cases "v = u") (simp_all add: u(2))
  qed simp
  have st: "state \<noteq> ''held''" using r by (auto simp: ruling_def Let_def split: if_splits option.splits)
  have "find (\<lambda>v. ul_event_id v = e) (bd_usage (td_billing t')) = Some (?f u)"
    using find_mapped[OF u(1) e] by (simp add: db set_row_def)
  then have again: "resolveHeld False now' entropy' e decision' who' note' t' = Inl (NotHeld e state)"
    for now' entropy' decision' who' note' using st by (simp add: resolveHeld_def)
  have paid: "debited (ul_tenant_id u) (hr_BillingRunID res) due (td_billing t) (td_billing t')"
    using db by simp
  show ?thesis
    by (rule exI[of _ u], rule exI[of _ state], rule exI[of _ a], rule exI[of _ run], rule exI[of _ due])
      (intro conjI allI u r us paid again exI[of _ "last (td_resolutions t')"], simp_all add: res)
qed

text \<open>A tray with one held row, worth one unit at the price of its time.\<close>

definition held_usage :: ledger_row where
  "held_usage = (sample_usage 2 ''e2'' UsageSourceMissing)\<lparr>ul_billing_state := ''held'', ul_billing_run_id := Some ''bill-1''\<rparr>"

definition sample_tray :: tray_db where
  "sample_tray = \<lparr>td_billing = sample_billing\<lparr>bd_usage := [held_usage]\<rparr>, td_resolutions = []\<rparr>"

lemma sample_tray_inv: "billing_inv (td_billing sample_tray)"
proof -
  have "wallet_inv (sample_billing\<lparr>bd_usage := x\<rparr>) = wallet_inv sample_billing" for x unfolding wallet_inv_def by simp
  with sample_billing_inv show ?thesis by (simp add: billing_inv_def sample_tray_def usage_ids_def price_inv_def)
qed

lemma sample_tray_row:
  "bd_usage (td_billing sample_tray) = [held_usage]" "ul_event_id held_usage = ''e2''" "ul_billing_state held_usage = ''held''"
  "ul_tenant_id held_usage = ''t1''"
  "row_price (td_billing sample_tray) held_usage = Some (hd (bd_prices sample_billing))"
  "line_value (hd (bd_prices sample_billing)) held_usage = 1"
  using sample_row_price[of 2 "''e2''" UsageSourceMissing]
  by (simp_all add: sample_tray_def held_usage_def sample_usage_def row_price_def price_row_at_def line_value_def sample_billing_def)

lemma sample_bill: "\<exists>db'. bill_held 9000 ''held-ab'' held_usage ''ann'' (read_price (hd (bd_prices sample_billing)))
    (td_billing sample_tray) = Inr (db', float_string 1 (int moneyScale))"
proof -
  have pinv: "price_inv (td_billing sample_tray)" and winv: "wallet_inv (td_billing sample_tray)"
    using sample_tray_inv by (simp_all add: billing_inv_def)
  have one: "decimal_val (float_string 1 (int moneyScale)) = Some 1"
    using decimal_val_float12[of 1] round_to_exact[of 1 moneyScale] money_exact_sample(2) by (auto simp: money_exact_def)
  have la: "lineAmountFromCounts held_usage (read_price (hd (bd_prices sample_billing))) = Inr 1"
    using lineAmount_value[OF row_price_ok[OF pinv sample_tray_row(5)], of held_usage] sample_tray_row(6)
    by (simp add: lineAmountFromCounts_def held_usage_def sample_usage_def)
  have "\<exists>db1 tx. applyMovement 9000 (held_debit ''held-ab'' held_usage (float_string 1 (int moneyScale)) ''ann'')
      (td_billing sample_tray) = Inr (db1, tx)"
    by (rule movement_succeeds[OF winv money_exact_sample(2), where w = "\<lparr>tw_currency = ''USD'', tw_balance = 10\<rparr>"
          and tenantID = "''t1''" and runID = "''held-ab''"])
      (simp_all add: held_debit_def sample_tray_row(4), simp_all add: sample_tray_def sample_billing_def)
  moreover have "store_amount (float_string 1 (int moneyScale)) = Inr 1"
    using store_amount_float12(2)[OF money_exact_sample(2)] by simp
  ultimately show ?thesis by (auto simp: bill_held_def la Let_def Decimal_Sign_val[OF one])
qed

theorem ruling_exact_witness:
  "\<exists>t' res. resolveHeld False 9000 (Some ''ab'') ''e2'' ''bill'' ''ann'' '''' sample_tray = Inr (t', res) \<and>
     debited ''t1'' (hr_BillingRunID res) 1 (td_billing sample_tray) (td_billing t')"
proof -
  have pr: "priceAt (td_billing sample_tray) (ul_provider held_usage) (ul_model held_usage) (ul_occurred_at held_usage) =
      Some (read_price (hd (bd_prices sample_billing)))"
    using sample_tray_row(5) by (simp add: priceAt_def row_price_def)
  have st: "store_amount (float_string 1 (int moneyScale)) = Inr 1"
    using store_amount_float12(2)[OF money_exact_sample(2)] by simp
  from sample_bill obtain db' where b: "bill_held 9000 ''held-ab'' held_usage ''ann'' (read_price (hd (bd_prices sample_billing)))
    (td_billing sample_tray) = Inr (db', float_string 1 (int moneyScale))" by blast
  have d: "decide 9000 (Some ''ab'') held_usage ''bill'' ''ann'' (td_billing sample_tray) =
      Inr (db', ''billed'', float_string 1 (int moneyScale), ''held-ab'')"
    by (simp add: decide_def pr b)
  have ins: "\<exists>t'. insert_resolution r (sample_tray\<lparr>td_billing := db'\<rparr>) = Inr t'" if "resolution_check r" for r
    using that by (simp add: insert_resolution_def sample_tray_def)
  have "\<exists>t' res. resolveHeld False 9000 (Some ''ab'') ''e2'' ''bill'' ''ann'' '''' sample_tray = Inr (t', res)"
    using ins[of "\<lparr>rs_event_id = ''e2'', rs_tenant_id = ''t1'', rs_decision = ''bill'', rs_outcome = ''billed'',
      rs_amount = Some 1, rs_billing_run_id = Some ''held-ab'', rs_operator = ''ann'', rs_note = trim_space '''',
      rs_created_at = pg_time 9000\<rparr>"]
    by (auto simp: resolveHeld_def sample_tray_row d stored_amount_def st resolution_check_def)
  then obtain t' res where r:
    "resolveHeld False 9000 (Some ''ab'') ''e2'' ''bill'' ''ann'' '''' sample_tray = Inr (t', res)" by blast
  from ruling_exact[OF sample_tray_inv r] obtain u state a run due where
    "u \<in> set (bd_usage (td_billing sample_tray))" "ruling (td_billing sample_tray) u ''bill'' (hr_BillingRunID res) = (state, a, run, due)"
    "debited (ul_tenant_id u) (hr_BillingRunID res) due (td_billing sample_tray) (td_billing t')"
    by (elim exE conjE)
  moreover have "round_to 1 moneyScale = 1" using round_to_exact[of 1 moneyScale] money_exact_sample(2) by (auto simp: money_exact_def)
  ultimately show ?thesis using r by (auto simp: sample_tray_row ruling_def Let_def)
qed

end
