(* ===== verification/Books.thy ===== *)
theory Books
  imports Console
begin

text \<open>
  The books: usage rows, wallets, journal and prices together.  \<open>books_inv\<close> says that they agree,
  for every tenant and every run and not only for one window; every operation that writes to
  them keeps it: prices, top-ups, adjustments, billing runs, rulings on held rows and new usage.
  What a billing run keeps is proved once, in the locale \<open>settlement_invariant\<close>.  The scheduled
  reconciliation (\<^verbatim>\<open>internal/control/billing_reconcile_loop.go\<close>) reads the books, and so must find
  them balanced.
\<close>

section \<open>What rows and debits contribute to a run\<close>

definition contribution :: "string \<Rightarrow> string \<Rightarrow> ledger_row \<Rightarrow> rat" where
  "contribution tenant run u =
     (if ul_billing_state u = ''billed'' \<and> ul_tenant_id u = tenant \<and> ul_billing_run_id u = Some run
      then (case ul_billed_amount u of None \<Rightarrow> 0 | Some x \<Rightarrow> x) else 0)"

lemma ledger_sum_contributions: "ledger_sum db tenant run = sum_list (map (contribution tenant run) (bd_usage db))"
proof -
  have "sum_list (List.map_filter ul_billed_amount (filter (\<lambda>u. ul_billing_state u = ''billed'' \<and>
      ul_tenant_id u = tenant \<and> ul_billing_run_id u = Some run) us)) = sum_list (map (contribution tenant run) us)" for us
    by (induction us) (auto simp: contribution_def List.map_filter_def split: option.splits)
  then show ?thesis by (simp add: ledger_sum_def run_rows_def)
qed

definition books_inv :: "billing_db \<Rightarrow> bool" where
  "books_inv db \<longleftrightarrow> billing_inv db \<and> columns_ok db \<and> (\<forall>u \<in> set (bd_usage db). row_agrees u) \<and>
     (\<forall>tenant run. ledger_sum db tenant run = debit_sum db tenant run)"

lemma books_window: "books_inv db \<Longrightarrow> window_agrees start stop db"
  by (auto simp: books_inv_def window_agrees_def wallet_agrees_def billing_inv_def dest: wallet_inv_balance)

lemma books_inv_cong:
  assumes "bd_usage db' = bd_usage db" "bd_wallets db' = bd_wallets db" "bd_journal db' = bd_journal db" "bd_prices db' = bd_prices db"
  shows "books_inv db' = books_inv db"
  using assms by (simp add: books_inv_def billing_inv_def usage_ids_def price_inv_def wallet_inv_def columns_ok_def
      ledger_sum_contributions debit_sum_def run_debits_def)

lemma debit_sum_debited:
  assumes "debited tenantID runID due db db'" "runID \<noteq> ''''"
  shows "debit_sum db' tenant run = debit_sum db tenant run + (if tenant = tenantID \<and> run = runID then due else 0)"
  using assms by (auto simp: debited_def debit_sum_def run_debits_def split: if_splits)

lemma columns_debited:
  assumes "debited tenantID runID due db db'" "money_exact due" "columns_ok db"
    "\<And>u x. u \<in> set (bd_usage db') \<Longrightarrow> ul_billed_amount u = Some x \<Longrightarrow> money_exact x"
  shows "columns_ok db'"
proof (cases "due = 0")
  case True
  with assms show ?thesis by (auto simp: debited_def columns_ok_def)
next
  case False
  with assms(1) obtain w t where d: "map_of (bd_wallets db) tenantID = Some w"
    "bd_wallets db' = AList.update tenantID (w\<lparr>tw_balance := tw_balance w - due\<rparr>) (bd_wallets db)"
    "bd_journal db' = bd_journal db @ [t]" "wt_amount t = - due" by (auto simp: debited_def)
  have "money_exact (tw_balance w)" using assms(3) map_of_SomeD[OF d(1)] by (auto simp: columns_ok_def)
  then have "money_exact (tw_balance w - due)"
    using money_exact_add[OF _ money_exact_uminus[OF assms(2)]] by fastforce
  then show ?thesis
    using assms d set_update_subset[of tenantID "w\<lparr>tw_balance := tw_balance w - due\<rparr>" "bd_wallets db"] distinct_update
    by (auto simp: columns_ok_def money_exact_uminus)
qed

lemma wallet_inv_cong:
  "bd_wallets db' = bd_wallets db \<Longrightarrow> bd_journal db' = bd_journal db \<Longrightarrow> wallet_inv db' = wallet_inv db"
  unfolding wallet_inv_def by (simp only:)

section \<open>Every operation keeps the books\<close>

lemma contribution_pending: "ul_billing_state u \<noteq> ''billed'' \<Longrightarrow> contribution tenant run u = 0"
  by (simp add: contribution_def)

lemma contribution_settled:
  "contribution tenant run (settled_row db runID u) = (if ul_tenant_id u = tenant \<and> run = runID then charge db u else 0)"
  by (auto simp: settled_row_def contribution_def charge_def charged_def split: billingDisposition.splits option.splits)

lemma sum_list_map_if:
  "(\<And>u. u \<in> set us \<Longrightarrow> P u \<Longrightarrow> f u = 0) \<Longrightarrow>
     sum_list (map f (map (\<lambda>u. if P u then g u else u) us)) = sum_list (map f us) + (sum_list (map (\<lambda>u. f (g u)) (filter P us)) :: rat)"
  by (induction us) (auto simp: algebra_simps)

lemma row_agrees_settled:
  assumes "row_agrees u" "pending_before w u" "runID \<noteq> ''''"
  shows "row_agrees (settled_row db runID u)"
  using assms by (auto simp: row_agrees_def settled_row_def pending_before_def split: billingDisposition.splits option.splits)

lemma settleTenant_books [keep_inv]:
  assumes inv: "books_inv db" and run: "runID \<noteq> ''''"
    and ok: "settleTenant fault now runID tenantID windowEnd db = Inr (db', st)"
  shows "books_inv db'"
proof -
  have b: "billing_inv db" and i: "usage_ids db" "price_inv db" and c: "columns_ok db"
    using inv by (auto simp: books_inv_def billing_inv_def)
  note us = settled_usage[OF i ok] and d = settleTenant_debited[OF b ok]
  have amounts: "money_exact x" if "u \<in> set (bd_usage db')" "ul_billed_amount u = Some x" for u x
    using that c charge_exact
    by (auto simp: us columns_ok_def settled_row_def split: if_splits billingDisposition.splits option.splits)
  have "columns_ok db'" by (rule columns_debited[OF d amount_due_exact c amounts])
  moreover have "row_agrees u" if "u \<in> set (bd_usage db')" for u
    using that inv run by (auto simp: us books_inv_def chosen_def intro: row_agrees_settled)
  moreover have "ledger_sum db' tenant run = debit_sum db' tenant run" for tenant run
  proof -
    have "ledger_sum db' tenant run = ledger_sum db tenant run +
      sum_list (map (\<lambda>u. contribution tenant run (settled_row db runID u)) (filter (chosen tenantID windowEnd) (bd_usage db)))"
      unfolding ledger_sum_contributions us
      by (rule sum_list_map_if) (auto simp: chosen_def pending_before_def contribution_pending)
    also have "sum_list (map (\<lambda>u. contribution tenant run (settled_row db runID u)) (filter (chosen tenantID windowEnd) (bd_usage db)))
      = (if tenant = tenantID \<and> run = runID then amount_due db tenantID windowEnd else 0)"
    proof -
      have "map (\<lambda>u. contribution tenant run (settled_row db runID u)) (filter (chosen tenantID windowEnd) (bd_usage db)) =
        map (\<lambda>u. if tenant = tenantID \<and> run = runID then charge db u else 0) (filter (chosen tenantID windowEnd) (bd_usage db))"
        by (rule map_cong) (auto simp: contribution_settled chosen_def)
      then show ?thesis unfolding amount_due_def by (cases "tenant = tenantID \<and> run = runID") (simp_all only: simp_thms if_True if_False, simp)
    qed
    finally show ?thesis using debit_sum_debited[OF d run, of tenant run] inv by (simp add: books_inv_def)
  qed
  ultimately show ?thesis using settleTenant_inv[OF b ok] by (simp add: books_inv_def)
qed
text \<open>
  What a billing run keeps.  A run writes its own row and settles tenants, so it keeps whatever
  the settlement of one tenant keeps and the table of runs does not touch.
\<close>

locale settlement_invariant =
  fixes I :: "billing_db \<Rightarrow> bool" and runID :: string
  assumes opens: "I db \<Longrightarrow> open_run runID (new_run windowEnd status) db = Inr db' \<Longrightarrow> I db'"
    and settle: "I db \<Longrightarrow> settleTenant fault now runID tenantID windowEnd db = Inr (db', st) \<Longrightarrow> I db'"
    and closes: "I db \<Longrightarrow> closeRun fault res status db = Inr db' \<Longrightarrow> rr_RunID res = runID \<Longrightarrow> I db'"
begin

lemma run_tenant_keeps:
  assumes "I (rl_db l)" "rr_RunID (rl_result l) = runID"
  shows "I (rl_db (run_tenant f now windowEnd tenantID l))" "rr_RunID (rl_result (run_tenant f now windowEnd tenantID l)) = runID"
  using assms settle by (auto simp: run_tenant_def add_settlement_def split: sum.splits)

lemma fold_keeps:
  "I (rl_db l) \<Longrightarrow> rr_RunID (rl_result l) = runID \<Longrightarrow> I (rl_db (fold (run_tenant f now windowEnd) ts l)) \<and>
     rr_RunID (rl_result (fold (run_tenant f now windowEnd) ts l)) = runID"
  by (induction ts arbitrary: l) (auto simp: run_tenant_keeps)

lemma RunOnce_keeps:
  assumes "I db"
  shows "I (fst (RunOnce f runID now windowEnd db))"
proof -
  have skipped: "I (fst (case open_run runID (new_run windowEnd st) db of Inl e \<Rightarrow> (db, res, Some e) | Inr db' \<Rightarrow> (db', res, None)))"
    for st and res :: BillingRunResult
    using assms opens by (auto split: sum.splits)
  show ?thesis
  proof (cases "open_run runID (new_run windowEnd ''running'') db")
    case (Inl e)
    with assms skipped show ?thesis by (simp add: RunOnce_def Let_def)
  next
    case (Inr db1)
    with assms have i1: "I db1" by (rule opens)
    let ?l = "\<lambda>res. fold (run_tenant f now windowEnd) (pendingTenants windowEnd db1)
      \<lparr>rl_db = db1, rl_result = res, rl_total = 0, rl_error = None\<rparr>"
    have l: "I (rl_db (?l res)) \<and> rr_RunID (rl_result (?l res)) = runID" if "rr_RunID res = runID" for res
      using that i1 by (simp add: fold_keeps)
    have "I (case closeRun c ((rl_result (?l res))\<lparr>rr_TotalDebited := d\<rparr>) status (rl_db (?l res)) of Inl e \<Rightarrow> rl_db (?l res) | Inr db2 \<Rightarrow> db2)"
      if "rr_RunID res = runID" for c d status res using l[OF that] by (auto split: sum.splits intro: closes)
    moreover have "I (case closeRun c r status db1 of Inl _ \<Rightarrow> db1 | Inr db2 \<Rightarrow> db2)" if "rr_RunID r = runID" for c r status
      using i1 closes that by (auto split: sum.splits)
    ultimately show ?thesis using assms skipped Inr
      by (simp add: RunOnce_def Let_def sum.case_distrib[of fst] cong: sum.case_cong)
  qed
qed

end

lemma open_run_Inr: "open_run runID r db = Inr db' \<Longrightarrow> \<exists>x. db' = db\<lparr>bd_runs := x\<rparr>"
  by (auto simp: open_run_def split: if_splits option.splits)

lemma run_row_books:
  assumes "books_inv db" "db' = db\<lparr>bd_runs := x\<rparr>"
  shows "books_inv db'"
  using assms books_inv_cong[of db' db] by simp

lemma open_run_books [keep_inv]: "books_inv db \<Longrightarrow> open_run runID r db = Inr db' \<Longrightarrow> books_inv db'"
  using open_run_Inr run_row_books by blast

lemma closeRun_books [keep_inv]: "books_inv db \<Longrightarrow> closeRun fault res status db = Inr db' \<Longrightarrow> books_inv db'"
  using closeRun_Inr run_row_books by blast

interpretation run_books: settlement_invariant "\<lambda>db. books_inv db \<and> runID \<noteq> ''''" runID for runID
  by unfold_locales (use settleTenant_books open_run_books closeRun_books in blast)+

lemma RunOnce_books [keep_inv]:
  "books_inv db \<Longrightarrow> runID \<noteq> '''' \<Longrightarrow> RunOnce f runID now windowEnd db = (db', res, err) \<Longrightarrow> books_inv db'"
  using run_books.RunOnce_keeps[of db runID f now windowEnd] by simp

lemma set_row_contribution:
  assumes ids: "usage_ids db" and u: "u \<in> set (bd_usage db)" "ul_event_id u = e" "ul_billing_state u \<noteq> ''billed''"
  shows "ledger_sum (set_row e state a run0 db) tenant run = ledger_sum db tenant run +
    (if state = ''billed'' \<and> ul_tenant_id u = tenant \<and> run0 = Some run then (case a of None \<Rightarrow> 0 | Some x \<Rightarrow> x) else 0)"
proof -
  let ?g = "\<lambda>v. v\<lparr>ul_billing_state := state, ul_billed_amount := a, ul_billing_run_id := run0\<rparr>"
  have d: "distinct (map ul_event_id (bd_usage db))" using ids by (simp add: usage_ids_def)
  then have eq: "v = u" if "v \<in> set (bd_usage db)" "ul_event_id v = e" for v
    using that u by (auto simp: distinct_map dest: inj_onD)
  have one: "filter (\<lambda>v. ul_event_id v = e) us = [u]" if "u \<in> set us" "distinct (map ul_event_id us)" for us
    using that u(2)
  proof (induction us)
    case (Cons v us)
    show ?case
    proof (cases "v = u")
      case True
      with Cons.prems have "filter (\<lambda>v. ul_event_id v = e) us = []"
        by (auto simp: filter_empty_conv) (metis imageI)
      with True u(2) show ?thesis by simp
    next
      case False
      with Cons.prems have "ul_event_id v \<noteq> e" by auto
      with False Cons show ?thesis by simp
    qed
  qed simp
  have "ledger_sum (set_row e state a run0 db) tenant run = ledger_sum db tenant run +
    sum_list (map (\<lambda>v. contribution tenant run (?g v)) (filter (\<lambda>v. ul_event_id v = e) (bd_usage db)))"
    unfolding ledger_sum_contributions set_row_def
    using u(3) eq by (simp del: map_map) (rule sum_list_map_if, metis contribution_pending)
  then show ?thesis using one[OF u(1) d] by (simp add: contribution_def)
qed

lemma set_row_books:
  assumes inv: "books_inv db" and u: "u \<in> set (bd_usage db)" "ul_event_id u = e" "ul_billing_state u \<noteq> ''billed''"
    and d: "debited (ul_tenant_id u) runID due db db1" "wallet_inv db1" "bd_usage db1 = bd_usage db" "bd_prices db1 = bd_prices db"
    and ex: "money_exact due" and row: "(state, a, run) = (''billed'', Some due, Some runID) \<and> runID \<noteq> '''' \<or> state \<noteq> ''billed'' \<and> a = None \<and> due = 0"
  shows "books_inv (set_row e state a run db1)"
proof -
  have c: "columns_ok db" and ids: "usage_ids db1" and p: "price_inv db1"
    using inv d(3,4) by (auto simp: books_inv_def billing_inv_def usage_ids_def price_inv_def)
  let ?db = "set_row e state a run db1"
  have amounts: "money_exact x" if "v \<in> set (bd_usage ?db)" "ul_billed_amount v = Some x" for v x
    using that c row ex d(3) by (auto simp: set_row_def columns_ok_def split: if_splits)
  have "columns_ok ?db" by (rule columns_debited[OF _ ex c amounts]) (use d(1) in simp_all)
  moreover have "row_agrees v" if "v \<in> set (bd_usage ?db)" for v
    using that inv row d(3) by (auto simp: set_row_def books_inv_def row_agrees_def split: if_splits)
  moreover have "ledger_sum ?db tenant r = debit_sum ?db tenant r" for tenant r
  proof -
    have u1: "u \<in> set (bd_usage db1)" using u d(3) by simp
    have "ledger_sum db1 tenant r = ledger_sum db tenant r" by (simp add: ledger_sum_contributions d(3))
    moreover have "debit_sum ?db tenant r = debit_sum db1 tenant r" by (simp add: debit_sum_def run_debits_def)
    moreover have "ledger_sum db tenant r = debit_sum db tenant r" using inv by (simp add: books_inv_def)
    moreover have "debit_sum db1 tenant r = debit_sum db tenant r + (if tenant = ul_tenant_id u \<and> r = runID \<and> state = ''billed'' then due else 0)"
    proof (cases "state = ''billed''")
      case True
      then show ?thesis using row debit_sum_debited[OF d(1)] by auto
    next
      case False
      then have "bd_journal db1 = bd_journal db" using row d(1) by (auto simp: debited_def)
      with False show ?thesis by (simp add: debit_sum_def run_debits_def)
    qed
    ultimately show ?thesis using set_row_contribution[OF ids u1 u(2,3), of state a run tenant r] row by auto
  qed
  ultimately show ?thesis using d(2) p set_row_usage_ids[OF ids] by (simp add: books_inv_def billing_inv_def)
qed

lemma resolveHeld_books [keep_inv]:
  assumes inv: "books_inv (td_billing t)" and ok: "resolveHeld fault now entropy e decision who note t = Inr (t', res)"
  shows "books_inv (td_billing t')"
proof -
  have b: "billing_inv (td_billing t)" using inv by (simp add: books_inv_def)
  from b ok obtain u state a run due db1 where u: "u \<in> set (bd_usage (td_billing t))" "ul_event_id u = e" "ul_billing_state u = ''held''"
    and r: "ruling (td_billing t) u decision (hr_BillingRunID res) = (state, a, run, due)"
    "decision = ''write_off'' \<or> hr_BillingRunID res \<noteq> ''''"
    and d: "debited (ul_tenant_id u) (hr_BillingRunID res) due (td_billing t) db1" "wallet_inv db1"
      "bd_usage db1 = bd_usage (td_billing t)" "bd_prices db1 = bd_prices (td_billing t)"
    and t': "td_billing t' = set_row e state a run db1"
    by (rule resolveHeld_Inr)
  have "money_exact due \<and> ((state, a, run) = (''billed'', Some due, Some (hr_BillingRunID res)) \<and> hr_BillingRunID res \<noteq> '''' \<or>
      state \<noteq> ''billed'' \<and> a = None \<and> due = 0)"
    using r by (auto simp: ruling_def Let_def money_exact_round split: if_splits option.splits)
  then show ?thesis unfolding t' using u d by (intro set_row_books[OF inv u(1,2) _ d]) auto
qed

lemma handleResolveHeld_books [keep_inv]:
  "books_inv (td_billing t) \<Longrightarrow> handleResolveHeld db_nil fault now entropy path body who t = (t', status, ans) \<Longrightarrow> books_inv (td_billing t')"
  using resolveHeld_books by (auto simp: handleResolveHeld_def Let_def split: if_splits option.splits sum.splits held_error.splits)

text \<open>A movement of an operator is no debit of a run.\<close>

lemma ApplyMovement_books [keep_inv]:
  assumes inv: "books_inv db" and ok: "ApplyMovement fate now mv db = (db', r)" and mv: "wm_BillingRunID mv = ''''"
  shows "books_inv db'"
proof -
  have w: "wallet_inv db" using inv by (simp add: books_inv_def billing_inv_def)
  from w ok show ?thesis
  proof (cases rule: ApplyMovement_cases)
    case (kept e)
    with inv show ?thesis by simp
  next
    case (moved v wal t)
    have "wallet_inv db'" by (rule ApplyMovement_wallet_inv[OF w ok])
    moreover have "columns_ok db'"
    proof -
      have c: "columns_ok db" using inv by (simp add: books_inv_def)
      have "money_exact (tw_balance wal + v)" using wallet_inv_balance[OF w moved(7)] moved(3) by (intro money_exact_add) auto
      then show ?thesis
        using c moved set_update_subset[of "wm_TenantID mv" "wal\<lparr>tw_balance := tw_balance wal + v\<rparr>" "bd_wallets db"] distinct_update
        by (auto simp: columns_ok_def movement_of_def)
    qed
    moreover have "debit_sum db' tenant run = debit_sum db tenant run" for tenant run
      using moved(6,8) mv by (simp add: debit_sum_def run_debits_def)
    ultimately show ?thesis using inv moved(10,11)
      by (simp add: books_inv_def billing_inv_def usage_ids_def price_inv_def ledger_sum_contributions)
  qed
qed

lemma EnsureWallet_books [keep_inv]:
  assumes inv: "books_inv db" and ok: "EnsureWallet fate tenant currency db = (db', r)"
  shows "books_inv db'"
proof -
  note f = EnsureWallet_frame[OF ok]
  have c: "distinct (map fst (bd_wallets db))" "\<forall>(t, w) \<in> set (bd_wallets db). money_exact (tw_balance w)"
    using inv by (simp_all add: books_inv_def columns_ok_def)
  from ok obtain x where "bd_wallets db' = bd_wallets db \<or> bd_wallets db' = AList.update tenant x (bd_wallets db) \<and> tw_balance x = 0"
    by (cases rule: EnsureWallet_cases) auto
  with c set_update_subset[of tenant x "bd_wallets db"]
  have "distinct (map fst (bd_wallets db'))" "\<forall>(t, w) \<in> set (bd_wallets db'). money_exact (tw_balance w)"
    by (auto simp: distinct_update)
  moreover have "wallet_inv db'" using inv EnsureWallet_wallet_inv[OF _ ok] by (simp add: books_inv_def billing_inv_def)
  ultimately show ?thesis using inv
    by (simp add: books_inv_def billing_inv_def columns_ok_def usage_ids_def price_inv_def ledger_sum_contributions
        debit_sum_def run_debits_def f)
qed

lemma movement_answer_db: "movement_answer f mv r = (db', status, ans) \<Longrightarrow> db' = fst r"
  by (auto simp: movement_answer_def split: prod.splits sum.splits if_splits)

text \<open>
  What the three writing endpoints of money do to the database: nothing, or what the one or two
  statements they run do, whatever they answer.
\<close>

lemma handleTopup_cases:
  assumes "handleTopup db_nil f now tenant body who db = (db', status, ans)"
  shows "db' = db \<or> (\<exists>db1 x. EnsureWallet (cf_wallet f) (trim_space tenant) ''USD'' db = (db1, x) \<and>
      (db' = db1 \<or> (\<exists>mv y. wm_BillingRunID mv = '''' \<and> ApplyMovement (cf_move f) now mv db1 = (db', y))))"
proof (cases "db' = db")
  case False
  from assms False obtain q db1 x where e: "body = Some q" "EnsureWallet (cf_wallet f) (trim_space tenant) ''USD'' db = (db1, x)"
    and r: "db' = db1 \<or> move_answer f now \<lparr>wm_ID = tq_ID q, wm_TenantID = trim_space tenant, wm_Kind = ''topup'',
       wm_Amount = tq_Amount q, wm_BillingRunID = '''', wm_Note = topupNote (operator who) (tq_Note q)\<rparr> db1 = (db', status, ans)"
    by (auto simp: handleTopup_def Let_def split: if_splits option.splits sum.splits prod.splits)
  let ?mv = "\<lparr>wm_ID = tq_ID q, wm_TenantID = trim_space tenant, wm_Kind = ''topup'',
       wm_Amount = tq_Amount q, wm_BillingRunID = '''', wm_Note = topupNote (operator who) (tq_Note q)\<rparr>"
  obtain y where "db' = db1 \<or> ApplyMovement (cf_move f) now ?mv db1 = (db', y)"
    using r movement_answer_db by (metis move_answer_def prod.collapse)
  with e(2) show ?thesis by (auto intro!: exI[of _ ?mv])
qed simp

lemma handleAdjust_cases:
  assumes ok: "handleAdjust db_nil f now tenant body who db = (db', status, ans)"
  shows "db' = db \<or> (\<exists>mv y. wm_BillingRunID mv = '''' \<and> ApplyMovement (cf_move f) now mv db = (db', y))"
proof (cases body)
  case None
  with ok show ?thesis by (simp add: handleAdjust_def Let_def split: if_splits)
next
  case (Some q)
  let ?mv = "\<lparr>wm_ID = jq_ID q, wm_TenantID = trim_space tenant, wm_Kind = ''adjustment'',
    wm_Amount = jq_Amount q, wm_BillingRunID = '''', wm_Note = adjustmentNote (operator who) (jq_Reason q)\<rparr>"
  obtain db1 y where y: "ApplyMovement (cf_move f) now ?mv db = (db1, y)" by fastforce
  from ok Some have "db' = db \<or> db' = db1 \<or> movement_answer f ?mv (db1, y) = (db', status, ans)"
    by (auto simp: handleAdjust_def Let_def y split: if_splits option.splits sum.splits billing_error.splits)
  then have "db' = db \<or> db' = db1" using movement_answer_db by fastforce
  with y show ?thesis by (auto intro!: exI[of _ ?mv])
qed

lemma handleTopup_books [keep_inv]:
  "books_inv db \<Longrightarrow> handleTopup db_nil f now tenant body who db = (db', status, ans) \<Longrightarrow> books_inv db'"
  using handleTopup_cases EnsureWallet_books ApplyMovement_books by metis

lemma handleAdjust_books [keep_inv]:
  "books_inv db \<Longrightarrow> handleAdjust db_nil f now tenant body who db = (db', status, ans) \<Longrightarrow> books_inv db'"
  using handleAdjust_cases ApplyMovement_books by metis

lemma InsertModelPrice_books [keep_inv]:
  assumes inv: "books_inv db" and ok: "InsertModelPrice fault price now db = Inr db'"
  shows "books_inv db'"
proof -
  have f: "bd_usage db' = bd_usage db" "bd_wallets db' = bd_wallets db" "bd_journal db' = bd_journal db"
    using ok by (auto simp: InsertModelPrice_def insert_price_row_def split: if_splits sum.splits)
  moreover have "price_inv db'" using inv InsertModelPrice_price_inv[OF _ ok] by (simp add: books_inv_def billing_inv_def)
  ultimately show ?thesis using inv wallet_inv_cong[OF f(2,3)]
    by (simp add: books_inv_def billing_inv_def columns_ok_def usage_ids_def ledger_sum_contributions
        debit_sum_def run_debits_def)
qed

lemma handleInsertPrice_cases:
  assumes ok: "handleInsertPrice rfc3339 db_nil fault now body db = (db', status, ans)"
  shows "db' = db \<or> (\<exists>p. InsertModelPrice fault p now db = Inr db')"
proof (cases body)
  case None
  with ok show ?thesis by (simp add: handleInsertPrice_def)
next
  case (Some q)
  show ?thesis
  proof (cases "parseConsoleTime rfc3339 (ip_EffectiveFrom q)")
    case None
    with ok Some show ?thesis by (simp add: handleInsertPrice_def split: if_splits)
  next
    case from_: (Some t)
    show ?thesis
    proof (cases "InsertModelPrice fault (price_of_request q t) now db")
      case (Inl e)
      with ok Some from_ show ?thesis by (cases e) (simp_all add: handleInsertPrice_def split: if_splits)
    next
      case (Inr d)
      with ok Some from_ show ?thesis by (auto simp: handleInsertPrice_def split: if_splits)
    qed
  qed
qed

lemma handleInsertPrice_books [keep_inv]:
  "books_inv db \<Longrightarrow> handleInsertPrice rfc3339 db_nil fault now body db = (db', status, ans) \<Longrightarrow> books_inv db'"
  using handleInsertPrice_cases InsertModelPrice_books by blast

text \<open>None of the three writes to the usage table.\<close>

lemma ApplyMovement_usage: "ApplyMovement fate now mv db = (db', r) \<Longrightarrow> bd_usage db' = bd_usage db"
  unfolding ApplyMovement_def by (erule commit_as_cases) (auto elim: applyMovement_Inr)

lemma InsertModelPrice_usage: "InsertModelPrice fault p now db = Inr db' \<Longrightarrow> bd_usage db' = bd_usage db"
  by (auto simp: InsertModelPrice_def insert_price_row_def split: if_splits sum.splits)

lemma console_usage:
  "handleTopup db_nil f now tenant q who db = (db', status, ans) \<Longrightarrow> bd_usage db' = bd_usage db"
  "handleAdjust db_nil f now tenant a who db = (db', status, ans) \<Longrightarrow> bd_usage db' = bd_usage db"
  "handleInsertPrice rfc3339 db_nil fault now body db = (db', status, ans') \<Longrightarrow> bd_usage db' = bd_usage db"
proof -
  show "handleTopup db_nil f now tenant q who db = (db', status, ans) \<Longrightarrow> bd_usage db' = bd_usage db"
    using handleTopup_cases ApplyMovement_usage EnsureWallet_frame(3) by metis
  show "handleAdjust db_nil f now tenant a who db = (db', status, ans) \<Longrightarrow> bd_usage db' = bd_usage db"
    using handleAdjust_cases ApplyMovement_usage by metis
  show "handleInsertPrice rfc3339 db_nil fault now body db = (db', status, ans') \<Longrightarrow> bd_usage db' = bd_usage db"
    using handleInsertPrice_cases InsertModelPrice_usage by metis
qed

text \<open>New usage comes in pending, without an amount and without a run.\<close>

definition fresh_usage :: "ledger_row \<Rightarrow> bool" where
  "fresh_usage u \<longleftrightarrow> ul_billing_state u = ''pending'' \<and> ul_billed_amount u = None \<and> ul_billing_run_id u = None"

lemma usage_books [keep_inv]:
  assumes inv: "books_inv db" and rows: "list_all fresh_usage rows" and ids: "usage_ids (db\<lparr>bd_usage := bd_usage db @ rows\<rparr>)"
  shows "books_inv (db\<lparr>bd_usage := bd_usage db @ rows\<rparr>)"
proof -
  have "sum_list (map (contribution tenant run) rows) = 0" for tenant run
    using rows by (induction rows) (auto simp: fresh_usage_def contribution_def)
  then show ?thesis using inv ids rows wallet_inv_cong[of "db\<lparr>bd_usage := bd_usage db @ rows\<rparr>" db]
    by (auto simp: books_inv_def billing_inv_def columns_ok_def price_inv_def ledger_sum_contributions
        debit_sum_def run_debits_def list_all_iff fresh_usage_def row_agrees_def)
qed

section \<open>The scheduled reconciliation\<close>

definition billingRunInterval :: duration where
  "billingRunInterval = 5 * 60 * second"

definition reconcileWindow :: duration where
  "reconcileWindow = 60 * 60 * second"

definition reconcileLag :: duration where
  "reconcileLag = 15 * 60 * second"

record ReconciliationLoop =
  lp_Window :: duration
  lp_Lag :: duration

record ReconciliationRunResult =
  rn_Start :: time
  rn_End :: time
  rn_Balanced :: bool
  rn_Discrepancies :: "(string, nat) gomap"
  rn_UnsettledRows :: nat
  rn_TenantCount :: nat

definition count_kinds :: "Discrepancy list \<Rightarrow> (string, nat) gomap" where
  "count_kinds ds = fold (\<lambda>d m. AList.update (dc_Kind d) (lookup 0 m (dc_Kind d) + 1) m) ds []"

datatype loop_error = LagTooShort | ReconcileFailed billing_error

definition ReconciliationLoop_RunOnce ::
  "ReconciliationLoop \<Rightarrow> bool \<Rightarrow> time \<Rightarrow> billing_db \<Rightarrow> loop_error + ReconciliationRunResult" where
  "ReconciliationLoop_RunOnce l fault now db =
     (let window = (if lp_Window l \<le> 0 then reconcileWindow else lp_Window l);
          lag = (if lp_Lag l \<le> 0 then reconcileLag else lp_Lag l)
      in if lag \<le> billingRunInterval then Inl LagTooShort
         else (let stop = now - lag; start = stop - window in
           case Reconciliation_Run fault start stop db of
             Inl e \<Rightarrow> Inl (ReconcileFailed e)
           | Inr report \<Rightarrow> Inr \<lparr>rn_Start = start, rn_End = stop, rn_Balanced = Balanced report,
               rn_Discrepancies = count_kinds (rp_Discrepancies report),
               rn_UnsettledRows = length (rp_UnsettledRows report), rn_TenantCount = length (rp_Tenants report)\<rparr>))"

text \<open>The gauge of every known kind, written on every run, the kinds that found nothing included.\<close>

definition reconciliationKinds :: "string list" where
  "reconciliationKinds = [DiscrepancyBilledWithoutAmount, DiscrepancyBilledWithoutRun, DiscrepancyAmountOnUnsettledRow,
     DiscrepancyRunDebitMismatch, DiscrepancyWalletBalanceDrift, DiscrepancyMissingWallet]"

definition reconcile_gauges :: "ReconciliationRunResult \<Rightarrow> (string \<times> nat) list" where
  "reconcile_gauges r = map (\<lambda>kind. (kind, lookup 0 (rn_Discrepancies r) kind)) reconciliationKinds"

lemma loop_balanced:
  assumes "books_inv db" "lp_Lag l \<le> 0 \<or> lp_Lag l > billingRunInterval"
  shows "\<exists>r. ReconciliationLoop_RunOnce l False now db = Inr r \<and> rn_Balanced r \<and> (\<forall>(kind, n) \<in> set (reconcile_gauges r). n = 0)"
proof -
  define window where "window = (if lp_Window l \<le> 0 then reconcileWindow else lp_Window l)"
  define lag where "lag = (if lp_Lag l \<le> 0 then reconcileLag else lp_Lag l)"
  have w: "0 < window" by (simp add: window_def reconcileWindow_def second_def)
  have lag: "\<not> lag \<le> billingRunInterval"
    using assms(2) by (auto simp: lag_def reconcileLag_def billingRunInterval_def second_def)
  have "columns_ok db" using assms(1) by (simp add: books_inv_def)
  from reconciliation_spec[OF this, of "now - lag - window" "now - lag"] w books_window[OF assms(1)]
  obtain rep where rep: "Reconciliation_Run False (now - lag - window) (now - lag) db = Inr rep" "Balanced rep" by auto
  then have "rp_Discrepancies rep = []" by (simp add: Balanced_def)
  with rep lag show ?thesis
    by (simp add: ReconciliationLoop_RunOnce_def Let_def window_def[symmetric] lag_def[symmetric] count_kinds_def
        reconcile_gauges_def lookup_def)
qed

end
