(* ===== verification/Platform.thy ===== *)
theory Platform
  imports Books
begin

text \<open>
  Control as a whole: the ledger that meters attempts, the billing job, the console and the
  reconciliation work on one database.  \<open>platform_step\<close> interleaves their operations in any order
  and with any failure; the usage table is the one both the ledger and the billing side write.
  A step is what the source commits at once: a billing run is opened, settles its tenants one by
  one and is closed in steps of their own, with anything in between, another run included.
  The lemmas show that what each component keeps of its own invariant survives the others.
\<close>

section \<open>The shared database\<close>

record platform =
  pf_ledger :: ledger_db
  pf_tray :: tray_db

text \<open>Both views carry the usage table; a step writes it through to the other view.\<close>

definition with_ledger :: "ledger_db \<Rightarrow> platform \<Rightarrow> platform" where
  "with_ledger l s = s\<lparr>pf_ledger := l,
     pf_tray := (pf_tray s)\<lparr>td_billing := (td_billing (pf_tray s))\<lparr>bd_usage := ld_usage l\<rparr>\<rparr>\<rparr>"

definition with_tray :: "tray_db \<Rightarrow> platform \<Rightarrow> platform" where
  "with_tray t s = s\<lparr>pf_tray := t, pf_ledger := (pf_ledger s)\<lparr>ld_usage := bd_usage (td_billing t)\<rparr>\<rparr>"

definition with_books :: "billing_db \<Rightarrow> platform \<Rightarrow> platform" where
  "with_books db s = with_tray ((pf_tray s)\<lparr>td_billing := db\<rparr>) s"

abbreviation pf_books :: "platform \<Rightarrow> billing_db" where
  "pf_books s \<equiv> td_billing (pf_tray s)"

inductive platform_step :: "(string \<Rightarrow> string) \<Rightarrow> platform \<Rightarrow> platform \<Rightarrow> bool" for sha where
  ledger: "ledger_step sha (pf_ledger s) l \<Longrightarrow> platform_step sha s (with_ledger l s)"
| tenants: "platform_step sha s (with_books ((pf_books s)\<lparr>bd_tenants := ts\<rparr>) s)"
| price: "handleInsertPrice rfc3339 db_nil fault now body (pf_books s) = (db, status, ans) \<Longrightarrow>
    platform_step sha s (with_books db s)"
| topup: "handleTopup db_nil f now tenant request who (pf_books s) = (db, status, ans) \<Longrightarrow>
    platform_step sha s (with_books db s)"
| adjust: "handleAdjust db_nil f now tenant request' who (pf_books s) = (db, status, ans) \<Longrightarrow>
    platform_step sha s (with_books db s)"
| price_lost: "InsertModelPrice False price now (pf_books s) = Inr db \<Longrightarrow> platform_step sha s (with_books db s)"
| bill_open: "open_run (''bill-'' @ random) (new_run windowEnd status') (pf_books s) = Inr db \<Longrightarrow>
    platform_step sha s (with_books db s)"
| bill_tenant: "settleTenant fault now (''bill-'' @ random) tenantID windowEnd (pf_books s) = Inr (db, st) \<Longrightarrow>
    platform_step sha s (with_books db s)"
| bill_close: "closeRun fault res status' (pf_books s) = Inr db \<Longrightarrow> platform_step sha s (with_books db s)"
| resolve: "handleResolveHeld db_nil fault now entropy event ruling_body who (pf_tray s) = (t, status, answer) \<Longrightarrow>
    platform_step sha s (with_tray t s)"
| resolve_lost: "resolveHeld False now entropy event decision who remark (pf_tray s) = Inr (t, held) \<Longrightarrow>
    platform_step sha s (with_tray t s)"

text \<open>
  \<open>price_lost\<close> and \<open>resolve_lost\<close> are the commits whose reply is lost: the operator is told of a
  failure and the database has moved.  The top-up and the adjustment carry that outcome themselves.
\<close>

definition initial :: "account_table \<Rightarrow> string list \<Rightarrow> platform" where
  "initial accounts ts =
     \<lparr>pf_ledger = \<lparr>ld_attempts = [], ld_usage = [], ld_seq = 1, ld_accounts = accounts\<rparr>,
      pf_tray = \<lparr>td_billing = \<lparr>bd_tenants = ts, bd_prices = [], bd_wallets = [], bd_journal = [], bd_usage = [], bd_runs = []\<rparr>,
        td_resolutions = []\<rparr>\<rparr>"

inductive platform_reachable :: "(string \<Rightarrow> string) \<Rightarrow> platform \<Rightarrow> bool" for sha where
  start: "distinct (map fst accounts) \<Longrightarrow> platform_reachable sha (initial accounts ts)"
| step: "platform_reachable sha s \<Longrightarrow> platform_step sha s s' \<Longrightarrow> platform_reachable sha s'"

inductive_cases platform_step_cases: "platform_step sha s s'"

section \<open>What billing never touches in a usage row\<close>

definition usage_key :: "ledger_row \<Rightarrow> int \<times> string \<times> string \<times> usageClass" where
  "usage_key u = (ul_id u, ul_event_id u, ul_attempt_id u, row_class u)"

text \<open>
  Why a row may be in the state it is in: it is held because the policy holds its class, and it
  was billed because the policy bills its class or because a ruling on record says so.
\<close>

definition caused :: "resolution_row list \<Rightarrow> ledger_row \<Rightarrow> bool" where
  "caused rs u \<longleftrightarrow>
     (ul_billing_state u = ''held'' \<longrightarrow> disposition_of u = dispositionHold) \<and>
     (ul_billing_state u = ''billed'' \<longrightarrow> disposition_of u = dispositionBill \<or>
        disposition_of u = dispositionHold \<and>
        (\<exists>r \<in> set rs. rs_event_id r = ul_event_id u \<and> rs_decision r = ''bill'' \<and> rs_amount r = ul_billed_amount u))"

definition causes_inv :: "tray_db \<Rightarrow> bool" where
  "causes_inv t \<longleftrightarrow> (\<forall>u \<in> set (bd_usage (td_billing t)). caused (td_resolutions t) u)"

lemma marked_row [simp]:
  "usage_key (u\<lparr>ul_billing_state := s\<rparr>) = usage_key u" "usage_key (u\<lparr>ul_billed_amount := a\<rparr>) = usage_key u"
  "usage_key (u\<lparr>ul_billing_run_id := r\<rparr>) = usage_key u"
  "disposition_of (u\<lparr>ul_billing_state := s\<rparr>) = disposition_of u"
  "disposition_of (u\<lparr>ul_billed_amount := a\<rparr>) = disposition_of u"
  "disposition_of (u\<lparr>ul_billing_run_id := r\<rparr>) = disposition_of u"
  by (simp_all add: usage_key_def row_class_def disposition_of_def)

lemma usage_key_settled [simp]: "usage_key (settled_row db runID u) = usage_key u"
  by (simp add: usage_key_def settled_row_def row_class_def split: billingDisposition.splits option.splits)

lemma disposition_settled [simp]: "disposition_of (settled_row db runID u) = disposition_of u"
  using usage_key_settled[of db runID u] by (simp add: usage_key_def disposition_of_def)

lemma caused_settled: "caused rs (settled_row db runID u)"
proof -
  have "ul_billing_state (settled_row db runID u) = ''held'' \<Longrightarrow> disposition_of u = dispositionHold"
    "ul_billing_state (settled_row db runID u) = ''billed'' \<Longrightarrow> disposition_of u = dispositionBill"
    by (auto simp: settled_row_def split: billingDisposition.splits option.splits)
  then show ?thesis by (auto simp: caused_def)
qed

lemma settle_row_facts:
  assumes "billing_inv db" "settleTenant fault now runID tenantID windowEnd db = Inr (db', st)"
  shows "map usage_key (bd_usage db') = map usage_key (bd_usage db)"
    and "(\<forall>u \<in> set (bd_usage db). caused rs u) \<Longrightarrow> (\<forall>u \<in> set (bd_usage db'). caused rs u)"
proof -
  have i: "usage_ids db" "price_inv db" using assms(1) by (auto simp: billing_inv_def)
  note us = settled_usage[OF i assms(2)]
  show "map usage_key (bd_usage db') = map usage_key (bd_usage db)" by (simp add: us)
  show "(\<forall>u \<in> set (bd_usage db). caused rs u) \<Longrightarrow> (\<forall>u \<in> set (bd_usage db'). caused rs u)"
    by (auto simp: us caused_settled)
qed

lemma handleResolveHeld_cases:
  assumes "handleResolveHeld db_nil fault now entropy event body who t = (t', status, ans)"
  shows "t' = t \<or> (\<exists>decision note res. resolveHeld fault now entropy (trim_space event) decision who note t = Inr (t', res))"
proof (cases body)
  case None
  with assms show ?thesis by (simp add: handleResolveHeld_def Let_def split: if_splits)
next
  case (Some q)
  with assms show ?thesis
    by (auto simp: handleResolveHeld_def Let_def split: if_splits sum.splits held_error.splits)
qed

lemma resolveHeld_rows:
  assumes inv: "billing_inv (td_billing t)" "causes_inv t"
    and ok: "resolveHeld fault now entropy e decision who note t = Inr (t', res)"
  shows "map usage_key (bd_usage (td_billing t')) = map usage_key (bd_usage (td_billing t)) \<and> causes_inv t'"
proof -
  from inv(1) ok obtain u state a run due db1 where u: "u \<in> set (bd_usage (td_billing t))" "ul_event_id u = e" "ul_billing_state u = ''held''"
    and r: "ruling (td_billing t) u decision (hr_BillingRunID res) = (state, a, run, due)" "decision \<in> {''bill'', ''write_off''}"
    and t': "bd_usage db1 = bd_usage (td_billing t)" "td_billing t' = set_row e state a run db1"
      "td_resolutions t' = td_resolutions t @ [\<lparr>rs_event_id = e, rs_tenant_id = ul_tenant_id u, rs_decision = decision,
       rs_outcome = state, rs_amount = a, rs_billing_run_id = run,
       rs_operator = (if who = '''' then ''unknown'' else who), rs_note = trim_space note, rs_created_at = pg_time now\<rparr>]"
    by (rule resolveHeld_Inr)
  let ?g = "\<lambda>v. v\<lparr>ul_billing_state := state, ul_billed_amount := a, ul_billing_run_id := run\<rparr>"
  have st: "state \<noteq> ''held''" "state = ''billed'' \<Longrightarrow> decision \<noteq> ''write_off''"
    using r(1) by (auto simp: ruling_def Let_def split: if_splits option.splits)
  have ids: "distinct (map ul_event_id (bd_usage (td_billing t)))" using inv(1) by (simp add: billing_inv_def usage_ids_def)
  have "caused (td_resolutions t') v'" if "v' \<in> set (bd_usage (td_billing t'))" for v'
  proof -
    from that obtain v where v: "v \<in> set (bd_usage (td_billing t))" "v' = (if ul_event_id v = e then ?g v else v)"
      by (auto simp: t' set_row_def)
    have c: "caused (td_resolutions t) v" using inv(2) v(1) by (simp add: causes_inv_def)
    show ?thesis
    proof (cases "ul_event_id v = e")
      case True
      then have "v = u" using ids u v(1) by (auto simp: distinct_map dest: inj_onD)
      then have "disposition_of v = dispositionHold" using c u(3) by (simp add: caused_def)
      with True v(2) st r(2) show ?thesis by (auto simp: caused_def t'(3))
    next
      case False
      with v(2) c show ?thesis by (auto simp: caused_def t'(3))
    qed
  qed
  moreover have "map usage_key (bd_usage (td_billing t')) = map usage_key (bd_usage (td_billing t))"
    by (simp add: t' set_row_def)
  ultimately show ?thesis by (simp add: causes_inv_def)
qed

section \<open>What the ledger adds\<close>

lemma ledger_inv_keys:
  assumes inv: "ledger_inv l" and k: "map usage_key us = map usage_key (ld_usage l)"
  shows "ledger_inv (l\<lparr>ld_usage := us\<rparr>)"
proof -
  have part: "map (g \<circ> usage_key) us = map (g \<circ> usage_key) (ld_usage l)" for g :: "int \<times> string \<times> string \<times> usageClass \<Rightarrow> 'x"
    using arg_cong[OF k, of "map g"] by simp
  have e: "map ul_id us = map ul_id (ld_usage l)" "map ul_event_id us = map ul_event_id (ld_usage l)"
    "map ul_attempt_id us = map ul_attempt_id (ld_usage l)"
    using part[of fst] part[of "fst \<circ> snd"] part[of "fst \<circ> snd \<circ> snd"] by (simp_all add: usage_key_def o_def)
  have img: "usage_key ` set us = usage_key ` set (ld_usage l)" by (metis k set_map)
  have old: "\<exists>v \<in> set (ld_usage l). ul_id v = ul_id u \<and> ul_event_id v = ul_event_id u \<and> ul_attempt_id v = ul_attempt_id u"
    if "u \<in> set us" for u
  proof -
    from that img have "usage_key u \<in> usage_key ` set (ld_usage l)" by blast
    then show ?thesis by (auto simp: usage_key_def)
  qed
  have "metered k' us = metered k' (ld_usage l)" for k'
  proof -
    have "metered k' rows \<longleftrightarrow> k' \<in> ul_attempt_id ` set rows" for rows by (auto simp: metered_def)
    then show ?thesis using arg_cong[OF e(3), of set] by simp
  qed
  then have "attempt_consistent us = attempt_consistent (ld_usage l)" by (simp add: attempt_consistent_def fun_eq_iff)
  moreover have "\<forall>u \<in> set us. ul_id u < ld_seq l \<and> row_consistent (ld_attempts l) u"
    using inv old unfolding ledger_inv_def row_consistent_def by metis
  ultimately show ?thesis using inv e unfolding ledger_inv_def by simp
qed

text \<open>A step of the ledger only appends usage, pending and with nothing billed.\<close>

lemma release_row_fresh [simp]: "fresh_usage (release_row i r)"
  by (simp add: fresh_usage_def release_row_def)

lemma ledger_step_usage:
  assumes inv: "ledger_inv l" and st: "ledger_step sha l l'"
  shows "\<exists>rows. ld_usage l' = ld_usage l @ rows \<and> list_all fresh_usage rows"
  using st
proof cases
  case (started fault e)
  then show ?thesis by (auto simp: HandleAttemptStarted_def split: if_splits option.splits)
next
  case (released fault r fresh)
  then obtain a db1 db2 where ins: "insert_usage r l = Inr (db1, fresh)"
    and set: "set_attempt (rel_AttemptID r) (close_attempt r a) db1 = Inr db2"
    and l': "if fresh then \<exists>t. applyReleaseAuthority r (ld_accounts db2) = Inr t \<and> l' = db2\<lparr>ld_accounts := t\<rparr> else l' = db2"
    by (rule HandleRelease_Inr)
  from l' have "ld_usage l' = ld_usage db2" by (auto split: if_splits)
  also have "\<dots> = ld_usage db1" using set_attempt_Inr[OF set] by simp
  also have "\<dots> = ld_usage l @ (if fresh then [release_row (ld_seq l) r] else [])" using insert_usage_Inr(2)[OF ins] by simp
  finally show ?thesis by (intro exI[of _ "if fresh then [release_row (ld_seq l) r] else []"]) simp
next
  case (recovered fault locked now before n)
  from recover_all_step[OF inv expired_open_candidates[OF inv] RecoverAttempts_Inr(1)[OF recovered]]
  obtain new where "ld_usage l' = ld_usage l @ new"
    "\<forall>u \<in> set new. \<exists>i k a. u = release_row i (synthetic_release sha now k a)" by blast
  then show ?thesis by (auto simp: list_all_iff)
qed

section \<open>Every history of the platform\<close>

definition platform_inv :: "platform \<Rightarrow> bool" where
  "platform_inv s \<longleftrightarrow> ledger_inv (pf_ledger s) \<and> books_inv (pf_books s) \<and> causes_inv (pf_tray s) \<and>
     ld_usage (pf_ledger s) = bd_usage (pf_books s)"

lemma ledger_step_inv: "ledger_inv l \<Longrightarrow> ledger_step sha l l' \<Longrightarrow> ledger_inv l'"
  by (elim ledger_step_cases) (auto intro: keep_inv)

lemma with_ledger_inv:
  assumes inv: "platform_inv s" and st: "ledger_step sha (pf_ledger s) l"
  shows "platform_inv (with_ledger l s)"
proof -
  have i: "ledger_inv (pf_ledger s)" "books_inv (pf_books s)" "causes_inv (pf_tray s)"
    and u: "ld_usage (pf_ledger s) = bd_usage (pf_books s)" using inv by (auto simp: platform_inv_def)
  have l: "ledger_inv l" by (rule ledger_step_inv[OF i(1) st])
  from ledger_step_usage[OF i(1) st] u obtain rows where r: "ld_usage l = bd_usage (pf_books s) @ rows" "list_all fresh_usage rows"
    by auto
  have "usage_ids ((pf_books s)\<lparr>bd_usage := bd_usage (pf_books s) @ rows\<rparr>)" using l r(1) by (simp add: usage_ids_def ledger_inv_def)
  from usage_books[OF i(2) r(2) this] have "books_inv ((pf_books s)\<lparr>bd_usage := ld_usage l\<rparr>)" by (simp add: r(1))
  moreover have "caused rs v" if "v \<in> set rows" for rs v using that r(2) by (auto simp: list_all_iff fresh_usage_def caused_def)
  ultimately show ?thesis using l i(3) by (auto simp: platform_inv_def with_ledger_def causes_inv_def r(1))
qed

lemma with_tray_inv:
  assumes inv: "platform_inv s" and b: "books_inv (td_billing t)" "causes_inv t"
    and k: "map usage_key (bd_usage (td_billing t)) = map usage_key (bd_usage (pf_books s))"
  shows "platform_inv (with_tray t s)"
  using inv b ledger_inv_keys[of "pf_ledger s" "bd_usage (td_billing t)"] k by (simp add: platform_inv_def with_tray_def)

lemma with_books_inv:
  assumes inv: "platform_inv s" and b: "books_inv db" "bd_usage db = bd_usage (pf_books s)"
  shows "platform_inv (with_books db s)"
  unfolding with_books_def using b(2) inv
  by (intro with_tray_inv[OF inv]) (simp_all add: b(1) causes_inv_def platform_inv_def)

lemma platform_step_inv:
  assumes st: "platform_step sha s s'" and inv: "platform_inv s"
  shows "platform_inv s'"
proof -
  have i: "books_inv (pf_books s)" "causes_inv (pf_tray s)" "billing_inv (pf_books s)"
    using inv by (auto simp: platform_inv_def books_inv_def)
  from st show ?thesis
  proof cases
    case (ledger l)
    with with_ledger_inv[OF inv] show ?thesis by simp
  next
    case (tenants ts)
    have "books_inv ((pf_books s)\<lparr>bd_tenants := ts\<rparr>)" using i(1) books_inv_cong[of "(pf_books s)\<lparr>bd_tenants := ts\<rparr>" "pf_books s"] by simp
    with tenants with_books_inv[OF inv] show ?thesis by simp
  next
    case (price rfc3339 db_nil fault now body db status ans)
    with with_books_inv[OF inv handleInsertPrice_books[OF i(1)] console_usage(3)] show ?thesis by blast
  next
    case (topup db_nil f now tenant request who db status ans)
    with with_books_inv[OF inv handleTopup_books[OF i(1)] console_usage(1)] show ?thesis by blast
  next
    case (adjust db_nil f now tenant request' who db status ans)
    with with_books_inv[OF inv handleAdjust_books[OF i(1)] console_usage(2)] show ?thesis by blast
  next
    case (price_lost price now db)
    with with_books_inv[OF inv InsertModelPrice_books[OF i(1)] InsertModelPrice_usage] show ?thesis by blast
  next
    case (bill_open random windowEnd status' db)
    with with_books_inv[OF inv open_run_books[OF i(1)]] open_run_Inr show ?thesis by fastforce
  next
    case (bill_tenant fault now random tenantID windowEnd db st)
    have "books_inv db" by (rule settleTenant_books[OF i(1) _ bill_tenant(2)]) simp
    moreover have "map usage_key (bd_usage db) = map usage_key (bd_usage (pf_books s))"
      "\<forall>u \<in> set (bd_usage db). caused (td_resolutions (pf_tray s)) u"
      using settle_row_facts[OF i(3) bill_tenant(2)] i(2) by (simp_all add: causes_inv_def)
    ultimately show ?thesis unfolding bill_tenant(1) with_books_def
      by (intro with_tray_inv[OF inv]) (simp_all add: causes_inv_def)
  next
    case (bill_close fault res status' db)
    with with_books_inv[OF inv closeRun_books[OF i(1)]] closeRun_Inr show ?thesis by fastforce
  next
    case (resolve db_nil fault now entropy event ruling_body who t status answer)
    have "books_inv (td_billing t)" by (rule handleResolveHeld_books[OF i(1) resolve(2)])
    moreover have "map usage_key (bd_usage (td_billing t)) = map usage_key (bd_usage (pf_books s)) \<and> causes_inv t"
      using handleResolveHeld_cases[OF resolve(2)] resolveHeld_rows[OF i(3,2)] i(2) by blast
    ultimately show ?thesis using resolve(1) with_tray_inv[OF inv] by simp
  next
    case (resolve_lost now entropy event decision who remark t held)
    have "books_inv (td_billing t)" by (rule resolveHeld_books[OF i(1) resolve_lost(2)])
    with resolve_lost(1) with_tray_inv[OF inv] resolveHeld_rows[OF i(3,2) resolve_lost(2)] show ?thesis by simp
  qed
qed

lemma platform_reachable_inv: "platform_reachable sha s \<Longrightarrow> platform_inv s"
proof (induction rule: platform_reachable.induct)
  case (start accounts ts)
  then show ?case
    by (simp add: platform_inv_def initial_def ledger_inv_def books_inv_def billing_inv_def usage_ids_def price_inv_def
        wallet_inv_def columns_ok_def running_balance_def ledger_sum_contributions debit_sum_def run_debits_def causes_inv_def)
next
  case (step s s')
  then show ?case using platform_step_inv by blast
qed

text \<open>A whole run of the billing job is a history of its steps.\<close>

lemma with_books_twice [simp]: "with_books db' (with_books db s) = with_books db' s" "pf_books (with_books db s) = db"
  by (simp_all add: with_books_def with_tray_def)

interpretation run_steps: settlement_invariant "\<lambda>db. platform_reachable sha (with_books db s)" "''bill-'' @ random" for sha s random
proof unfold_locales
  fix db db' windowEnd status assume "platform_reachable sha (with_books db s)"
    "open_run (''bill-'' @ random) (new_run windowEnd status) db = Inr db'"
  then show "platform_reachable sha (with_books db' s)"
    using platform_reachable.step[OF _ platform_step.bill_open] by fastforce
next
  fix db db' fault now tenantID windowEnd st assume "platform_reachable sha (with_books db s)"
    "settleTenant fault now (''bill-'' @ random) tenantID windowEnd db = Inr (db', st)"
  then show "platform_reachable sha (with_books db' s)"
    using platform_reachable.step[OF _ platform_step.bill_tenant] by fastforce
next
  fix db db' fault res status assume "platform_reachable sha (with_books db s)" "closeRun fault res status db = Inr db'"
  then show "platform_reachable sha (with_books db' s)"
    using platform_reachable.step[OF _ platform_step.bill_close] by fastforce
qed

lemma RunOnce_history:
  assumes "platform_reachable sha s" "RunOnce f (''bill-'' @ random) now windowEnd (pf_books s) = (db, res, err)"
  shows "platform_reachable sha (with_books db s)"
proof -
  have "with_books (pf_books s) s = s"
    using platform_reachable_inv[OF assms(1)] by (simp add: with_books_def with_tray_def platform_inv_def)
  then show ?thesis using run_steps.RunOnce_keeps[of sha "pf_books s" s f random now windowEnd] assms by simp
qed

text \<open>Every history of the ledger alone is one of the platform.\<close>

lemma ledger_history:
  "ledger_reachable sha l \<Longrightarrow> \<exists>s. platform_reachable sha s \<and> pf_ledger s = l \<and> bd_usage (pf_books s) = ld_usage l"
proof (induction rule: ledger_reachable.induct)
  case (init accounts)
  then have "platform_reachable sha (initial accounts [])" by (rule platform_reachable.start)
  then show ?case by (intro exI[of _ "initial accounts []"]) (simp add: initial_def)
next
  case (step l l')
  then obtain s where s: "platform_reachable sha s" "pf_ledger s = l" by blast
  with step.hyps(2) have "platform_reachable sha (with_ledger l' s)"
    by (intro platform_reachable.step[OF s(1)] platform_step.ledger) simp
  then show ?case by (intro exI[of _ "with_ledger l' s"]) (simp add: with_ledger_def)
qed

section \<open>A history that ends with a charge\<close>

lemma policy_bills:
  "disposition_of u = dispositionBill \<longleftrightarrow>
     ul_usage_source u = UsageSourceUpstream \<and> releaseSucceeded (ul_status_code u) (ul_error_class u)"
  by (cases "releaseSucceeded (ul_status_code u) (ul_error_class u)"; cases "ul_partial u")
    (simp_all add: disposition_of_def dispositionFor_def usageDispositions_def row_class_def split: option.splits)

lemma free_run:
  assumes inv: "billing_inv db" and pr: "bd_prices db \<noteq> []" and pt: "pendingTenants windowEnd db = [t]"
    and fresh: "map_of (bd_runs db) runID = None" and due: "amount_due db t windowEnd = 0"
    and tok: "\<forall>u \<in> set (bd_usage db). chosen t windowEnd u \<longrightarrow> tokens_ok u \<and> charge db u < 10 ^ 26"
  shows "\<exists>db' res. RunOnce no_faults runID now windowEnd db = (db', res, None) \<and>
    bd_usage db' = map (\<lambda>u. if ul_tenant_id u = t \<and> pending_before windowEnd u then settled_row db runID u else u) (bd_usage db)"
proof -
  define db1 where "db1 = db\<lparr>bd_runs := AList.update runID (new_run windowEnd ''running'') (bd_runs db)\<rparr>"
  have inv1: "billing_inv db1" and due1: "amount_due db1 t windowEnd = 0" using inv due by (simp_all add: db1_def runs_frame)
  have "charge db1 = charge db" by (rule charge_cong) (simp add: db1_def)
  with tok due1 have "\<exists>db' st. settleTenant False now runID t windowEnd db1 = Inr (db', st)"
    by (intro settleTenant_succeeds[OF inv1]) (simp_all add: db1_def)
  then obtain db2 st where st: "settleTenant False now runID t windowEnd db1 = Inr (db2, st)" by blast
  have deb: "st_debited st = 0" using settled_wallet(1)[OF _ _ st] inv1 due1 by (simp add: billing_inv_def)
  have pt1: "pendingTenants windowEnd db1 = [t]" using pt by (simp add: db1_def runs_frame)
  have store: "store_amount (float_string 0 (int moneyScale)) = Inr 0" by (rule store_amount_float12(2)) simp_all
  have opn: "open_run runID (new_run windowEnd ''running'') db = Inr db1" using fresh by (simp add: open_run_def db1_def)
  have "\<exists>db' res. RunOnce no_faults runID now windowEnd db = (db', res, None) \<and> rr_TenantsFailed res = 0 \<and> \<not> rr_Skipped res"
    unfolding RunOnce_def Let_def opn sum.case pt1
    using pr by (simp add: no_faults_def run_tenant_def st add_settlement_def deb closeRun_def store split: option.splits)
  then obtain db' res where r: "RunOnce no_faults runID now windowEnd db = (db', res, None)" "rr_TenantsFailed res = 0" "\<not> rr_Skipped res"
    by blast
  from RunOnce_effect[OF inv r(1)] r(2,3) pt show ?thesis using r(1) by auto
qed

text \<open>An account, a price, and one request that the upstream served and reported with no tokens.\<close>

definition story_release :: Release where
  "story_release = (sample_release ''a1'' ''k'' ErrorOK 3000)\<lparr>rel_TokensIn := 0, rel_TokensOut := 0\<rparr>"

definition story_price :: insertPriceRequest where
  "story_price = \<lparr>ip_ID = ''p1'', ip_Provider = ''kiro'', ip_Model = ''m'', ip_Currency = '''', ip_UnitScale = 1000,
     ip_PriceInput = ''0.5'', ip_PriceOutput = ''0.5'', ip_PriceCacheRead = ''0'', ip_PriceCacheWrite = ''0'',
     ip_EffectiveFrom = ''t''\<rparr>"

definition story_ledger :: ledger_db where
  "story_ledger = fst (projr (HandleRelease False story_release
     (projr (HandleAttemptStarted False (sample_started ''a1'' ''k'' 1000 5000) (empty_ledger [(''k'', sample_row ''p'' None)])))))"

lemma story_ledger_reachable: "ledger_reachable (\<lambda>s. s) story_ledger"
proof -
  let ?d0 = "empty_ledger [(''k'', sample_row ''p'' None)]"
  let ?d1 = "projr (HandleAttemptStarted False (sample_started ''a1'' ''k'' 1000 5000) ?d0)"
  let ?r = "HandleRelease False story_release ?d1"
  have "ledger_reachable (\<lambda>s. s) ?d0" unfolding empty_ledger_def by (rule ledger_reachable.init) simp
  moreover have "HandleAttemptStarted False (sample_started ''a1'' ''k'' 1000 5000) ?d0 = Inr ?d1" by code_simp
  moreover have "?r = Inr (story_ledger, snd (projr ?r))" by code_simp
  ultimately show ?thesis by (meson ledger_reachable.step ledger_step.intros)
qed

lemma story_row: "ld_usage story_ledger = [release_row 1 story_release]"
  by code_simp

text \<open>The price is entered before the attempt starts; the run follows the release.\<close>

definition story_prices :: "price_row list" where
  "story_prices = [\<lparr>pr_id = ''p1'', pr_provider = ''kiro'', pr_model = ''m'', pr_currency = ''USD'', pr_unit_scale = 1000,
     pr_input = 1 / 2, pr_output = 1 / 2, pr_cache_read = 0, pr_cache_write = 0, pr_effective_from = 2000, pr_created_at = 1000\<rparr>]"

definition story_start :: platform where
  "story_start = initial [(''k'', sample_row ''p'' None)] [''t1'']"

lemma story_price_step:
  "platform_step sha story_start (with_books ((pf_books story_start)\<lparr>bd_prices := story_prices\<rparr>) story_start)"
proof (rule platform_step.price)
  have t: "trim_space ''p1'' = ''p1''" "trim_space ''kiro'' = ''kiro''" "trim_space ''m'' = ''m''" "trim_space ''t'' = ''t''"
    by code_simp+
  show "handleInsertPrice (\<lambda>_. Some 2000) False False 1000 (Some story_price) (pf_books story_start) =
      ((pf_books story_start)\<lparr>bd_prices := story_prices\<rparr>, 201, Some ''p1'')"
    by (simp add: handleInsertPrice_def story_price_def t parseConsoleTime_def is_zero_time_def price_of_request_def
        InsertModelPrice_def sample_amounts insert_price_row_def story_prices_def story_start_def initial_def pg_time_def)
qed

lemma story_history:
  "\<exists>s. platform_reachable (\<lambda>x. x) s \<and> pf_ledger s = story_ledger \<and>
     pf_tray s = \<lparr>td_billing = \<lparr>bd_tenants = [''t1''], bd_prices = story_prices, bd_wallets = [], bd_journal = [],
       bd_usage = ld_usage story_ledger, bd_runs = []\<rparr>, td_resolutions = []\<rparr>"
proof -
  let ?d0 = "empty_ledger [(''k'', sample_row ''p'' None)]"
  let ?d1 = "projr (HandleAttemptStarted False (sample_started ''a1'' ''k'' 1000 5000) ?d0)"
  let ?r = "HandleRelease False story_release ?d1"
  let ?s1 = "with_books ((pf_books story_start)\<lparr>bd_prices := story_prices\<rparr>) story_start"
  have "platform_reachable (\<lambda>x. x) story_start" unfolding story_start_def by (rule platform_reachable.start) simp
  then have r1: "platform_reachable (\<lambda>x. x) ?s1" using story_price_step by (rule platform_reachable.step)
  have l1: "pf_ledger ?s1 = ?d0"
    by (simp add: with_books_def with_tray_def story_start_def initial_def empty_ledger_def)
  have "HandleAttemptStarted False (sample_started ''a1'' ''k'' 1000 5000) ?d0 = Inr ?d1" by code_simp
  then have r2: "platform_reachable (\<lambda>x. x) (with_ledger ?d1 ?s1)"
    by (intro platform_reachable.step[OF r1] platform_step.ledger) (simp add: l1 ledger_step.started)
  have "?r = Inr (story_ledger, snd (projr ?r))" by code_simp
  then have r3: "platform_reachable (\<lambda>x. x) (with_ledger story_ledger (with_ledger ?d1 ?s1))"
    by (intro platform_reachable.step[OF r2] platform_step.ledger) (simp add: with_ledger_def ledger_step.released)
  show ?thesis
    by (intro exI[of _ "with_ledger story_ledger (with_ledger ?d1 ?s1)"] conjI r3)
      (simp_all add: with_ledger_def with_books_def with_tray_def story_start_def initial_def)
qed

lemma story_charge:
  "\<exists>s u. platform_reachable (\<lambda>x. x) s \<and> u \<in> set (bd_usage (pf_books s)) \<and> ul_billing_state u = ''billed'' \<and> ul_attempt_id u = ''a1''"
proof -
  obtain s where s: "platform_reachable (\<lambda>x. x) s" "pf_tray s = \<lparr>td_billing = \<lparr>bd_tenants = [''t1''], bd_prices = story_prices,
      bd_wallets = [], bd_journal = [], bd_usage = ld_usage story_ledger, bd_runs = []\<rparr>, td_resolutions = []\<rparr>"
    using story_history by blast
  let ?db = "pf_books s" and ?u = "release_row 1 story_release"
  have us: "bd_usage ?db = [?u]" "bd_prices ?db = story_prices" by (simp_all add: s(2) story_row)
  have inv: "billing_inv ?db" using platform_reachable_inv[OF s(1)] by (simp add: platform_inv_def books_inv_def)
  have f: "ul_tenant_id ?u = ''t1''" "ul_attempt_id ?u = ''a1''" "pending_before 9000 ?u" "tokens_ok ?u"
    by (simp_all add: release_row_def story_release_def sample_release_def pending_before_def tokens_ok_def pg_time_def)
  have p: "row_price ?db ?u = Some (hd story_prices)"
    by (simp add: row_price_def price_row_at_def us story_prices_def release_row_def story_release_def sample_release_def pg_time_def)
  have d: "disposition_of ?u = dispositionBill" by code_simp
  have c: "charge ?db ?u = 0"
    by (simp add: charge_def charged_def d p line_value_def release_row_def story_release_def sample_release_def round_to_def)
  have ch: "chosen ''t1'' 9000 ?u" using f by (simp add: chosen_def)
  have "\<exists>db' res. RunOnce no_faults ''bill-1'' 9000 9000 ?db = (db', res, None) \<and>
    bd_usage db' = map (\<lambda>u. if ul_tenant_id u = ''t1'' \<and> pending_before 9000 u then settled_row ?db ''bill-1'' u else u) (bd_usage ?db)"
    by (rule free_run[OF inv]) (simp_all add: us pendingTenants_def f amount_due_def ch c, simp_all add: s(2) story_prices_def)
  then obtain db' res where run: "RunOnce no_faults ''bill-1'' 9000 9000 ?db = (db', res, None)"
    and u': "bd_usage db' = [settled_row ?db ''bill-1'' ?u]" by (auto simp: us f)
  have "platform_reachable (\<lambda>x. x) (with_books db' s)"
    using RunOnce_history[OF s(1), of no_faults "''1''" 9000 9000 db' res None] run by simp
  moreover have "ul_billing_state (settled_row ?db ''bill-1'' ?u) = ''billed''" "ul_attempt_id (settled_row ?db ''bill-1'' ?u) = ''a1''"
    by (simp_all add: settled_row_def d p f)
  ultimately show ?thesis
    by (intro exI[of _ "with_books db' s"] exI[of _ "settled_row ?db ''bill-1'' ?u"]) (simp add: with_books_def with_tray_def u')
qed

end
