(* ===== verification/Chooser.thy ===== *)
theory Chooser
  imports Contracts
begin

text \<open>
  \<^verbatim>\<open>internal/gateway/chooser.go\<close>: the in-memory scheduler of the gateway.  Its state is the
  record \<open>chooser\<close>, one field per field of the Go struct (the mutex is gone: every operation
  runs under it, so operations are atomic steps).  The clock is the argument \<open>now\<close>, the byte
  read from \<^verbatim>\<open>crypto/rand\<close> the argument \<open>rnd\<close> (\<open>None\<close> when the read fails).  The lemmas show
  what an acquired lease guarantees, that the result does not depend on the iteration order of
  Go maps, that buckets do not disturb one another, and how long cooldowns last.
\<close>

section \<open>State\<close>

type_synonym cooldown_key = "string \<times> string"

record cooldown =
  cd_until :: time
  cd_credentialVersion :: int

record bucketState =
  bk_epoch :: int
  bk_validUntil :: time
  bk_ids :: "string list"

record chooser =
  ch_accounts :: "(string, Account) gomap"
  ch_buckets :: "(string, bucketState) gomap"
  ch_owner :: "(string, string) gomap"
  ch_cooling :: "(cooldown_key, cooldown) gomap"
  ch_failures :: "(cooldown_key, int) gomap"
  ch_egress :: "(string, time) gomap"
  ch_egressSeen :: "(string, (string, time) gomap) gomap"
  ch_epoch :: int

datatype gateway_error =
    ErrNoAccount | ErrQuotaExhausted | ErrSnapshotStale | ErrEgressBlocked

definition NewChooser :: chooser where
  "NewChooser = \<lparr>ch_accounts = [], ch_buckets = [], ch_owner = [], ch_cooling = [],
     ch_failures = [], ch_egress = [], ch_egressSeen = [], ch_epoch = 0\<rparr>"

definition bucketKey :: "string \<Rightarrow> string \<Rightarrow> string" where
  "bucketKey platform grp = platform @ [CHR 0x00] @ grp"

section \<open>Installing snapshots\<close>

text \<open>
  \<^verbatim>\<open>for key, value := range c.cooling { if P { delete(c.cooling, key); delete(c.failures, key) } }\<close>
\<close>

definition forget_cooling :: "(cooldown_key \<Rightarrow> cooldown \<Rightarrow> bool) \<Rightarrow> chooser \<Rightarrow> chooser" where
  "forget_cooling P c = c\<lparr>
     ch_cooling := filter (\<lambda>(k, v). \<not> P k v) (ch_cooling c),
     ch_failures := filter (\<lambda>(k, n). \<not> (case map_of (ch_cooling c) k of
        Some v \<Rightarrow> P k v | None \<Rightarrow> False)) (ch_failures c)\<rparr>"

definition with_default_limits :: "Account \<Rightarrow> Account" where
  "with_default_limits a = a\<lparr>ac_Limits := WithDefaults (ac_Limits a)\<rparr>"

definition previous_bucket :: "chooser \<Rightarrow> string \<Rightarrow> bucketState" where
  "previous_bucket c key = (case map_of (ch_buckets c) key of
     Some b \<Rightarrow> b | None \<Rightarrow> \<lparr>bk_epoch = 0, bk_validUntil = 0, bk_ids = []\<rparr>)"

definition drop_ids :: "string list \<Rightarrow> chooser \<Rightarrow> chooser" where
  "drop_ids ids c = c\<lparr>
     ch_accounts := filter (\<lambda>(aid, a). aid \<notin> set ids) (ch_accounts c),
     ch_owner := filter (\<lambda>(aid, k). aid \<notin> set ids) (ch_owner c)\<rparr>"

definition install_account ::
  "string \<Rightarrow> string \<Rightarrow> Account \<Rightarrow> chooser \<times> string list \<Rightarrow> chooser \<times> string list" where
  "install_account platform grp account0 st =
     (case st of (c, ids) \<Rightarrow>
        let key = bucketKey platform grp; account = with_default_limits account0 in
        if ac_Platform account0 \<noteq> platform \<or> ac_Group account0 \<noteq> grp then (c, ids)
        else if (case map_of (ch_owner c) (ac_ID account) of Some k \<Rightarrow> k \<noteq> key | None \<Rightarrow> False)
        then (c, ids)
        else (forget_cooling
                (\<lambda>k v. fst k = ac_ID account
                   \<and> cd_credentialVersion v \<noteq> cred_Version (ac_Credential account))
                (c\<lparr>ch_accounts := AList.update (ac_ID account) account (ch_accounts c),
                   ch_owner := AList.update (ac_ID account) key (ch_owner c)\<rparr>),
              List.insert (ac_ID account) ids))"

definition ReplaceBucket ::
  "string \<Rightarrow> string \<Rightarrow> Account list \<Rightarrow> int \<Rightarrow> time \<Rightarrow> chooser \<Rightarrow> chooser" where
  "ReplaceBucket platform grp accounts epoch validUntil c =
     (let key = bucketKey platform grp;
          existed = (map_of (ch_buckets c) key \<noteq> None);
          previous = previous_bucket c key;
          c1 = (if existed \<and> epoch > 0 \<and> bk_epoch previous > 0 \<and> epoch \<noteq> bk_epoch previous
                then forget_cooling (\<lambda>k v. fst k \<in> set (bk_ids previous)) c else c);
          c2 = drop_ids (bk_ids previous) c1;
          (c3, ids) = fold (install_account platform grp) accounts (c2, [])
      in c3\<lparr>ch_buckets := AList.update key
             \<lparr>bk_epoch = epoch, bk_validUntil = validUntil, bk_ids = ids\<rparr> (ch_buckets c3)\<rparr>)"

definition RemoveBucket :: "string \<Rightarrow> string \<Rightarrow> chooser \<Rightarrow> chooser" where
  "RemoveBucket platform grp c =
     (let key = bucketKey platform grp;
          c1 = drop_ids (bk_ids (previous_bucket c key)) c
      in c1\<lparr>ch_buckets := AList.delete key (ch_buckets c1)\<rparr>)"

definition cut_nul :: "string \<Rightarrow> string \<times> string" where
  "cut_nul key = (takeWhile (\<lambda>ch. ch \<noteq> CHR 0x00) key, tl (dropWhile (\<lambda>ch. ch \<noteq> CHR 0x00) key))"

definition Buckets :: "chooser \<Rightarrow> (string \<times> string) list" where
  "Buckets c = sort_key (\<lambda>(p, g). p @ g) (map (cut_nul \<circ> fst) (ch_buckets c))"

definition snapshot_account ::
  "Account \<Rightarrow> chooser \<times> (string, Account) gomap \<Rightarrow> chooser \<times> (string, Account) gomap" where
  "snapshot_account account0 st =
     (case st of (c, next) \<Rightarrow>
        let account = with_default_limits account0 in
        (forget_cooling (\<lambda>k v. fst k = ac_ID account
           \<and> cd_credentialVersion v \<noteq> cred_Version (ac_Credential account)) c,
         AList.update (ac_ID account) account next))"

definition ReplaceAtEpoch :: "Account list \<Rightarrow> int \<Rightarrow> chooser \<Rightarrow> chooser" where
  "ReplaceAtEpoch snapshot epoch c =
     (let c1 = (if epoch > 0 \<and> ch_epoch c > 0 \<and> epoch \<noteq> ch_epoch c
                then c\<lparr>ch_cooling := [], ch_failures := []\<rparr> else c);
          c2 = c1\<lparr>ch_buckets := [], ch_owner := []\<rparr>;
          (c3, next) = fold snapshot_account snapshot (c2, []);
          c4 = c3\<lparr>ch_accounts := next\<rparr>
      in if epoch > 0 then c4\<lparr>ch_epoch := epoch\<rparr> else c4)"

definition Replace :: "Account list \<Rightarrow> chooser \<Rightarrow> chooser" where
  "Replace snapshot c = ReplaceAtEpoch snapshot 0 c"

section \<open>Selection\<close>

definition quotaApplies :: "QuotaItem \<Rightarrow> string \<Rightarrow> bool" where
  "quotaApplies item model =
     (if qi_Scope item = ''account'' then True
      else if qi_Scope item = ''model'' then qi_Model item \<noteq> '''' \<and> qi_Model item = model
      else False)"

text \<open>A sign that can be read decides; otherwise the next representation is tried.\<close>

definition positive_sign :: "decimal option \<Rightarrow> bool option" where
  "positive_sign d = (case d of None \<Rightarrow> None | Some v \<Rightarrow> map_option (\<lambda>s. s > 0) (Decimal_Sign v))"

definition quotaRemainingPositive :: "QuotaItem \<Rightarrow> bool" where
  "quotaRemainingPositive item =
     (case positive_sign (qi_RemainingExact item) of Some b \<Rightarrow> b
      | None \<Rightarrow>
     (case positive_sign (qi_RemainingFraction item) of Some b \<Rightarrow> b
      | None \<Rightarrow>
     (case positive_sign (case qi_Precision item of None \<Rightarrow> None | Some p \<Rightarrow> qp_Remaining p) of
        Some b \<Rightarrow> b
      | None \<Rightarrow> (case qi_Remaining item of None \<Rightarrow> True | Some n \<Rightarrow> n > 0))))"

definition hasQuota :: "Account \<Rightarrow> string \<Rightarrow> bool" where
  "hasQuota account model = list_all (\<lambda>item.
     \<not> quotaApplies item model \<or> quotaRemainingPositive item \<or>
     \<not> (qi_RemainingExact item \<noteq> None \<or> qi_RemainingFraction item \<noteq> None
        \<or> (\<exists>p \<in> set_option (qi_Precision item). qp_Remaining p \<noteq> None)
        \<or> qi_Remaining item \<noteq> None)) (ac_Quota account)"

definition supports :: "Account \<Rightarrow> string \<Rightarrow> bool" where
  "supports account model =
     (if model \<noteq> '''' \<and> model \<in> set (ac_ExcludedModels account) then False
      else if model = '''' \<or> ac_Capabilities account = [] then True
      else model \<in> set (ac_Capabilities account))"

definition egressKey :: "UpstreamProfile \<Rightarrow> string" where
  "egressKey profile = trim_space (pf_Proxy profile)"

datatype verdict = Skip | Stale | Blocked | Exhausted | Eligible

definition judge :: "chooser \<Rightarrow> time \<Rightarrow> Criteria \<Rightarrow> string list \<Rightarrow> string \<times> Account \<Rightarrow> verdict" where
  "judge c now criteria excluded entry =
     (case entry of (aid, account) \<Rightarrow>
        if aid \<in> set excluded then Skip
        else if (case map_of (ch_owner c) aid of
            None \<Rightarrow> False
          | Some owner \<Rightarrow> (let validUntil = bk_validUntil (previous_bucket c owner)
                           in \<not> is_zero_time validUntil \<and> \<not> validUntil > now))
        then Stale
        else if cr_Platform criteria \<noteq> '''' \<and> ac_Provider account \<noteq> cr_Platform criteria
                \<and> ac_Platform account \<noteq> cr_Platform criteria
        then Skip
        else if ac_Group account \<noteq> cr_Group criteria \<or> ac_Status account \<noteq> ''active'' then Skip
        else if cred_Kind (ac_Credential account) \<noteq> ''static''
                \<and> \<not> is_zero_time (cred_ExpiresAt (ac_Credential account))
                \<and> \<not> cred_ExpiresAt (ac_Credential account) > now
        then Skip
        else if \<not> supports account (cr_Model criteria) then Skip
        else if (case map_of (ch_cooling c) (aid, cr_Model criteria) of
            None \<Rightarrow> False | Some blocked \<Rightarrow> cd_until blocked > now)
        then Skip
        else if (case map_of (ch_egress c) (egressKey (ac_Profile account)) of
            None \<Rightarrow> False | Some until \<Rightarrow> until > now)
        then Blocked
        else if \<not> hasQuota account (cr_Model criteria) then Exhausted
        else Eligible)"

definition lease_of :: "time \<Rightarrow> Account \<Rightarrow> Lease" where
  "lease_of now account =
     (let expires = cred_ExpiresAt (ac_Credential account);
          ttl = (if is_zero_time expires then 0
                 else max 0 (time_sub expires now sdiv second))
      in \<lparr>ls_AccountID = ac_ID account, ls_Provider = ac_Provider account,
          ls_Credential = ac_Credential account, ls_Profile = ac_Profile account,
          ls_Limits = WithDefaults (ac_Limits account), ls_TTL = ttl,
          ls_UsageIntegrity = ac_UsageIntegrity account\<rparr>)"

text \<open>
  The seconds of the lease's time to live are the whole seconds of the duration; Go passes them
  through \<^verbatim>\<open>float64\<close>, which is exact for lives below some 48 days.
\<close>

definition AcquirePreferring ::
  "chooser \<Rightarrow> time \<Rightarrow> Criteria \<Rightarrow> string \<Rightarrow> string list \<Rightarrow> gateway_error + Lease" where
  "AcquirePreferring c now criteria preferred excluded =
     (let verdicts = map (judge c now criteria excluded) (ch_accounts c);
          ids = sort (map fst (filter (\<lambda>e. judge c now criteria excluded e = Eligible) (ch_accounts c)))
      in if ids = [] then
           (if Exhausted \<in> set verdicts then Inl ErrQuotaExhausted
            else if Stale \<in> set verdicts then Inl ErrSnapshotStale
            else if Blocked \<in> set verdicts then Inl ErrEgressBlocked
            else Inl ErrNoAccount)
         else
           (let chosen = (if preferred \<noteq> '''' \<and> preferred \<in> set ids then preferred else hd ids)
            in case map_of (ch_accounts c) chosen of
                 None \<Rightarrow> Inl ErrNoAccount
               | Some account \<Rightarrow> Inr (lease_of now account)))"

definition AcquireExcluding ::
  "chooser \<Rightarrow> time \<Rightarrow> Criteria \<Rightarrow> string list \<Rightarrow> gateway_error + Lease" where
  "AcquireExcluding c now criteria excluded = AcquirePreferring c now criteria '''' excluded"

definition Acquire :: "chooser \<Rightarrow> time \<Rightarrow> Criteria \<Rightarrow> gateway_error + Lease" where
  "Acquire c now criteria = AcquireExcluding c now criteria []"

section \<open>Penalties\<close>

definition egressShortCircuit :: duration where
  "egressShortCircuit = 7 * second"

definition egressSignalWindow :: duration where
  "egressSignalWindow = 60 * second"

definition egressSignalAccounts :: nat where
  "egressSignalAccounts = 2"

definition withJitter :: "nat option \<Rightarrow> duration \<Rightarrow> duration" where
  "withJitter rnd base =
     (if base \<le> 0 then base
      else case rnd of
          None \<Rightarrow> base
        | Some raw \<Rightarrow> (let pct = int (raw mod 41) - 20 in wrap64 (base * (100 + pct)) sdiv 100))"

definition cooldownDuration :: "error_class \<Rightarrow> duration" where
  "cooldownDuration class =
     (if class = ErrorAuthExpired then 60 * second
      else if class = ErrorRateLimitedKnown then 30 * second
      else if class = ErrorRateLimitedUnknown then 15 * second
      else if class = ErrorUpstream5xx then 3 * second
      else if class = ErrorBlocked then 60 * second
      else 0)"

definition MarkEgressRejected ::
  "time \<Rightarrow> nat option \<Rightarrow> Lease \<Rightarrow> chooser \<Rightarrow> chooser \<times> bool" where
  "MarkEgressRejected now rnd lease c =
     (let key = egressKey (ls_Profile lease);
          seen0 = (case map_of (ch_egressSeen c) key of None \<Rightarrow> [] | Some s \<Rightarrow> s);
          seen1 = AList.update (ls_AccountID lease) now seen0;
          seen = filter (\<lambda>(aid, seenAt). \<not> time_sub now seenAt > egressSignalWindow) seen1;
          c1 = c\<lparr>ch_egressSeen := AList.update key seen (ch_egressSeen c)\<rparr>;
          until = now + withJitter rnd egressShortCircuit
      in if length seen < egressSignalAccounts then (c1, False)
         else if (case map_of (ch_egress c1) key of None \<Rightarrow> False | Some current \<Rightarrow> current > until)
         then (c1, True)
         else (c1\<lparr>ch_egress := AList.update key until (ch_egress c1)\<rparr>, True))"

definition MarkFailure ::
  "time \<Rightarrow> nat option \<Rightarrow> string \<Rightarrow> string \<Rightarrow> error_class \<Rightarrow> duration \<Rightarrow> chooser \<Rightarrow> chooser" where
  "MarkFailure now rnd accountID model class reset c =
     (if class = ErrorForbiddenTransport \<or> class = ErrorNetwork then c
      else
        (let key = (accountID, model);
             count = (case map_of (ch_failures c) key of None \<Rightarrow> 0 | Some n \<Rightarrow> n) + 1;
             c1 = (if class = ErrorRateLimitedUnknown
                   then c\<lparr>ch_failures := AList.update key count (ch_failures c)\<rparr> else c);
             base0 = (if class = ErrorRateLimitedUnknown
                      then (if count = 1 then 5 * second else if count = 2 then 15 * second
                            else 60 * second)
                      else cooldownDuration class);
             base = withJitter rnd (if reset > 0 then reset else base0);
             until = (if class = ErrorAuthInvalid then now + 365 * 24 * 3600 * second else now + base);
             version = (case map_of (ch_accounts c1) accountID of
                None \<Rightarrow> 0 | Some a \<Rightarrow> cred_Version (ac_Credential a))
         in c1\<lparr>ch_cooling := AList.update key
                 \<lparr>cd_until = until, cd_credentialVersion = version\<rparr> (ch_cooling c1)\<rparr>))"

definition ClearAccount :: "string \<Rightarrow> int \<Rightarrow> chooser \<Rightarrow> chooser" where
  "ClearAccount accountID version c = c\<lparr>
     ch_cooling := filter (\<lambda>(k, v). \<not> (fst k = accountID \<and> cd_credentialVersion v \<noteq> version))
       (ch_cooling c)\<rparr>"

definition markTransportOrAccount ::
  "time \<Rightarrow> nat option \<Rightarrow> Lease \<Rightarrow> string \<Rightarrow> error_class \<Rightarrow> duration \<Rightarrow> chooser \<Rightarrow> chooser" where
  "markTransportOrAccount now rnd lease model class reset c =
     (if class = ErrorForbiddenTransport then fst (MarkEgressRejected now rnd lease c)
      else MarkFailure now rnd (ls_AccountID lease) model class reset c)"

section \<open>Abstract specification of selection\<close>

text \<open>
  What the documentation promises of a selected account, read off the maps: the order of the
  checks and of the map is gone.
\<close>

definition live_credential :: "time \<Rightarrow> Credential \<Rightarrow> bool" where
  "live_credential now cr \<longleftrightarrow>
     cred_Kind cr = ''static'' \<or> cred_ExpiresAt cr = 0 \<or> now < cred_ExpiresAt cr"

definition fresh_owner :: "chooser \<Rightarrow> time \<Rightarrow> string \<Rightarrow> bool" where
  "fresh_owner c now aid \<longleftrightarrow> (\<forall>key b. map_of (ch_owner c) aid = Some key \<longrightarrow>
     map_of (ch_buckets c) key = Some b \<longrightarrow> bk_validUntil b = 0 \<or> now < bk_validUntil b)"

definition schedulable :: "chooser \<Rightarrow> time \<Rightarrow> Criteria \<Rightarrow> string list \<Rightarrow> string \<Rightarrow> Account \<Rightarrow> bool" where
  "schedulable c now cr excluded aid a \<longleftrightarrow>
     aid \<notin> set excluded \<and> fresh_owner c now aid \<and>
     (cr_Platform cr = '''' \<or> ac_Provider a = cr_Platform cr \<or> ac_Platform a = cr_Platform cr) \<and>
     ac_Group a = cr_Group cr \<and> ac_Status a = ''active'' \<and>
     live_credential now (ac_Credential a) \<and> supports a (cr_Model cr) \<and>
     (\<forall>cd. map_of (ch_cooling c) (aid, cr_Model cr) = Some cd \<longrightarrow> cd_until cd \<le> now) \<and>
     (\<forall>u. map_of (ch_egress c) (egressKey (ac_Profile a)) = Some u \<longrightarrow> u \<le> now) \<and>
     hasQuota a (cr_Model cr)"

definition schedulable_ids :: "chooser \<Rightarrow> time \<Rightarrow> Criteria \<Rightarrow> string list \<Rightarrow> string set" where
  "schedulable_ids c now cr excluded =
     {aid. \<exists>a. map_of (ch_accounts c) aid = Some a \<and> schedulable c now cr excluded aid a}"

definition pick :: "string \<Rightarrow> string set \<Rightarrow> string" where
  "pick preferred ids = (if preferred \<noteq> '''' \<and> preferred \<in> ids then preferred else Min ids)"

section \<open>Invariant\<close>

text \<open>
  Keys are distinct, accounts are filed under their own ID, and the buckets and the owner table
  say the same: every ID of a bucket is owned by it, every owned ID is in its bucket and installed.
\<close>

definition maps_wf :: "chooser \<Rightarrow> bool" where
  "maps_wf c \<longleftrightarrow> distinct (map fst (ch_accounts c)) \<and> distinct (map fst (ch_buckets c)) \<and>
     distinct (map fst (ch_owner c)) \<and> distinct (map fst (ch_cooling c)) \<and>
     distinct (map fst (ch_failures c)) \<and>
     (\<forall>aid a. map_of (ch_accounts c) aid = Some a \<longrightarrow> ac_ID a = aid)"

definition in_bucket :: "(string \<rightharpoonup> bucketState) \<Rightarrow> string \<Rightarrow> string \<Rightarrow> bool" where
  "in_bucket B key aid \<longleftrightarrow> (\<exists>b. B key = Some b \<and> aid \<in> set (bk_ids b))"

definition chooser_inv :: "chooser \<Rightarrow> bool" where
  "chooser_inv c \<longleftrightarrow> maps_wf c \<and> dom (map_of (ch_owner c)) \<subseteq> dom (map_of (ch_accounts c)) \<and>
     (\<forall>aid key. map_of (ch_owner c) aid = Some key \<longleftrightarrow> in_bucket (map_of (ch_buckets c)) key aid)"

inductive chooser_step :: "chooser \<Rightarrow> chooser \<Rightarrow> bool" where
  replace_bucket: "chooser_step c (ReplaceBucket platform grp accounts epoch validUntil c)"
| remove_bucket: "chooser_step c (RemoveBucket platform grp c)"
| replace_all: "chooser_step c (ReplaceAtEpoch snapshot epoch c)"
| mark_failure: "chooser_step c (MarkFailure now rnd accountID model class reset c)"
| mark_egress: "chooser_step c (fst (MarkEgressRejected now rnd lease c))"
| clear_account: "chooser_step c (ClearAccount accountID version c)"

inductive chooser_reachable :: "chooser \<Rightarrow> bool" where
  start: "chooser_reachable NewChooser"
| step: "chooser_reachable c \<Longrightarrow> chooser_step c c' \<Longrightarrow> chooser_reachable c'"

section \<open>Selection meets its specification\<close>

lemma stale_iff:
  "(case map_of (ch_owner c) aid of None \<Rightarrow> False
    | Some owner \<Rightarrow> (let validUntil = bk_validUntil (previous_bucket c owner)
                     in \<not> is_zero_time validUntil \<and> \<not> validUntil > now)) \<longleftrightarrow> \<not> fresh_owner c now aid"
  by (auto simp: fresh_owner_def previous_bucket_def is_zero_time_def Let_def split: option.splits)

lemma judge_Eligible: "judge c now cr ex (aid, a) = Eligible \<longleftrightarrow> schedulable c now cr ex aid a"
  unfolding judge_def prod.case stale_iff schedulable_def live_credential_def
  by (auto simp: is_zero_time_def not_less split: option.splits)

lemma eligible_ids:
  assumes "maps_wf c"
  shows "set (map fst (filter (\<lambda>e. judge c now cr ex e = Eligible) (ch_accounts c)))
    = schedulable_ids c now cr ex"
proof -
  have "map_of (ch_accounts c) aid = Some a \<longleftrightarrow> (aid, a) \<in> set (ch_accounts c)" for aid a
    using assms by (simp add: maps_wf_def map_of_eq_Some_iff)
  then show ?thesis by (auto simp: schedulable_ids_def judge_Eligible intro: rev_image_eqI)
qed

lemma acquire_picks:
  assumes "maps_wf c" and "schedulable_ids c now cr ex \<noteq> {}"
  shows "\<exists>a. map_of (ch_accounts c) (pick preferred (schedulable_ids c now cr ex)) = Some a \<and>
    pick preferred (schedulable_ids c now cr ex) \<in> schedulable_ids c now cr ex \<and>
    AcquirePreferring c now cr preferred ex = Inr (lease_of now a)"
proof -
  define l where "l = map fst (filter (\<lambda>e. judge c now cr ex e = Eligible) (ch_accounts c))"
  define E where "E = schedulable_ids c now cr ex"
  have l: "set l = E" using eligible_ids[OF assms(1)] by (simp add: l_def E_def)
  with assms(2) have ne: "l \<noteq> []" "E \<noteq> {}" by (auto simp: E_def simp flip: l)
  have fin: "finite E" using l by (metis List.finite_set)
  have hd: "hd (sort l) = Min E" using ne(1) by (simp add: hd_sort_Min l)
  have chosen: "(if preferred \<noteq> '''' \<and> preferred \<in> set (sort l) then preferred else hd (sort l))
      = pick preferred E" by (simp add: pick_def hd l)
  have "pick preferred E \<in> E" using ne(2) fin by (simp add: pick_def)
  then obtain a where a: "map_of (ch_accounts c) (pick preferred E) = Some a"
    by (auto simp: E_def schedulable_ids_def)
  have "AcquirePreferring c now cr preferred ex = Inr (lease_of now a)"
    unfolding AcquirePreferring_def Let_def l_def[symmetric] chosen
    using ne(1) a by simp
  with a \<open>pick preferred E \<in> E\<close> show ?thesis by (auto simp: E_def)
qed

lemma acquire_fails:
  assumes "maps_wf c" and "schedulable_ids c now cr ex = {}"
  shows "\<exists>e. AcquirePreferring c now cr preferred ex = Inl e"
proof -
  have "map fst (filter (\<lambda>e. judge c now cr ex e = Eligible) (ch_accounts c)) = []"
    using eligible_ids[OF assms(1), of now cr ex] assms(2) by (metis set_empty)
  then show ?thesis by (simp add: AcquirePreferring_def Let_def)
qed

lemma acquire_Inr_iff:
  "maps_wf c \<Longrightarrow>
     (\<exists>l. AcquirePreferring c now cr preferred ex = Inr l) \<longleftrightarrow> schedulable_ids c now cr ex \<noteq> {}"
  using acquire_picks acquire_fails by (metis Inl_Inr_False)

lemma acquired_lease:
  assumes "maps_wf c" and "AcquirePreferring c now cr preferred ex = Inr lease"
  obtains a where "map_of (ch_accounts c) (ls_AccountID lease) = Some a"
    and "ls_AccountID lease = pick preferred (schedulable_ids c now cr ex)"
    and "schedulable c now cr ex (ls_AccountID lease) a"
    and "lease = lease_of now a"
proof -
  from assms have "schedulable_ids c now cr ex \<noteq> {}" using acquire_Inr_iff by blast
  from acquire_picks[OF assms(1) this, of preferred] assms(2) obtain a where
    a: "map_of (ch_accounts c) (pick preferred (schedulable_ids c now cr ex)) = Some a"
      "pick preferred (schedulable_ids c now cr ex) \<in> schedulable_ids c now cr ex"
      "lease = lease_of now a" by auto
  then have "ls_AccountID lease = pick preferred (schedulable_ids c now cr ex)"
    using assms(1) by (auto simp: lease_of_def Let_def maps_wf_def)
  with a show thesis by (intro that[of a]) (auto simp: schedulable_ids_def)
qed

section \<open>Every operation keeps the invariant\<close>

lemma forget_cooling_fields [simp]:
  "ch_accounts (forget_cooling P c) = ch_accounts c" "ch_owner (forget_cooling P c) = ch_owner c"
  "ch_buckets (forget_cooling P c) = ch_buckets c" "ch_egress (forget_cooling P c) = ch_egress c"
  "ch_egressSeen (forget_cooling P c) = ch_egressSeen c" "ch_epoch (forget_cooling P c) = ch_epoch c"
  by (simp_all add: forget_cooling_def)

lemma forget_cooling_distinct [keep_inv]:
  "distinct (map fst (ch_cooling c)) \<Longrightarrow> distinct (map fst (ch_cooling (forget_cooling P c)))"
  "distinct (map fst (ch_failures c)) \<Longrightarrow> distinct (map fst (ch_failures (forget_cooling P c)))"
  by (simp_all add: forget_cooling_def distinct_filter_fst)

lemma chooser_inv_cong:
  "chooser_inv c \<Longrightarrow> ch_accounts c' = ch_accounts c \<Longrightarrow> ch_owner c' = ch_owner c \<Longrightarrow>
     ch_buckets c' = ch_buckets c \<Longrightarrow> distinct (map fst (ch_cooling c')) \<Longrightarrow>
     distinct (map fst (ch_failures c')) \<Longrightarrow> chooser_inv c'"
  by (simp add: chooser_inv_def maps_wf_def)

lemma chooser_inv_distinct:
  "chooser_inv c \<Longrightarrow> distinct (map fst (ch_cooling c)) \<and> distinct (map fst (ch_failures c))"
  by (simp add: chooser_inv_def maps_wf_def)

definition install_inv :: "string \<Rightarrow> (string \<rightharpoonup> bucketState) \<Rightarrow> chooser \<times> string list \<Rightarrow> bool" where
  "install_inv key B st \<longleftrightarrow> (case st of (c, ids) \<Rightarrow>
     maps_wf c \<and> map_of (ch_buckets c) = B \<and>
     dom (map_of (ch_owner c)) \<subseteq> dom (map_of (ch_accounts c)) \<and>
     (\<forall>aid k. map_of (ch_owner c) aid = Some k \<longleftrightarrow>
        (if k = key then aid \<in> set ids else in_bucket B k aid)))"

lemma in_bucket_update:
  "in_bucket (B(key \<mapsto> b)) k aid \<longleftrightarrow> (if k = key then aid \<in> set (bk_ids b) else in_bucket B k aid)"
  "in_bucket (B(key := None)) k aid \<longleftrightarrow> k \<noteq> key \<and> in_bucket B k aid"
  by (auto simp: in_bucket_def)

lemma in_bucket_empty [simp]: "\<not> in_bucket (\<lambda>_. None) k aid"
  by (simp add: in_bucket_def)

lemma install_account_inv:
  assumes "install_inv (bucketKey platform grp) B st"
  shows "install_inv (bucketKey platform grp) B (install_account platform grp a st)"
proof (cases st)
  case (Pair c ids)
  have acid: "ac_ID (with_default_limits a) = ac_ID a" by (simp add: with_default_limits_def)
  let ?key = "bucketKey platform grp"
  from assms have wf: "maps_wf c" and B: "map_of (ch_buckets c) = B"
    and d: "dom (map_of (ch_owner c)) \<subseteq> dom (map_of (ch_accounts c))"
    and own: "\<And>aid k. map_of (ch_owner c) aid = Some k \<longleftrightarrow>
        (if k = ?key then aid \<in> set ids else in_bucket B k aid)"
    by (simp_all add: Pair install_inv_def)
  show ?thesis
  proof (cases "map_of (ch_owner c) (ac_ID a) \<in> {None, Some ?key} \<and> ac_Platform a = platform \<and> ac_Group a = grp")
    case False
    then have "install_account platform grp a st = st"
      by (auto simp: Pair install_account_def Let_def acid split: option.splits)
    with assms show ?thesis by simp
  next
    case True
    have notin: "\<not> in_bucket B k (ac_ID a)" if "k \<noteq> ?key" for k
      using own[of "ac_ID a" k] True that by auto
    have "install_inv ?key B (forget_cooling P
        (c\<lparr>ch_accounts := AList.update (ac_ID a) (with_default_limits a) (ch_accounts c),
           ch_owner := AList.update (ac_ID a) ?key (ch_owner c)\<rparr>), List.insert (ac_ID a) ids)" for P
      using wf B d own notin
      by (auto simp: install_inv_def gomap_simps maps_wf_def forget_cooling_distinct distinct_update acid)
    with True show ?thesis
      by (auto simp: Pair install_account_def Let_def acid)
  qed
qed

lemma fold_install_inv:
  "install_inv (bucketKey platform grp) B st \<Longrightarrow>
     install_inv (bucketKey platform grp) B (fold (install_account platform grp) accounts st)"
  by (induction accounts arbitrary: st) (simp_all add: install_account_inv)

lemma drop_previous_inv:
  assumes "chooser_inv c"
  shows "install_inv key (map_of (ch_buckets c)) (drop_ids (bk_ids (previous_bucket c key)) c, [])"
proof -
  let ?ids = "bk_ids (previous_bucket c key)"
  have own: "map_of (ch_owner c) aid = Some key \<longleftrightarrow> aid \<in> set ?ids" for aid
    using assms
    by (auto simp: chooser_inv_def previous_bucket_def in_bucket_def split: option.splits)
  have wf: "maps_wf c" using assms by (simp add: chooser_inv_def)
  then have "maps_wf (drop_ids ?ids c)"
    by (auto simp: drop_ids_def maps_wf_def map_of_filter_key distinct_filter_fst split: if_splits)
  moreover have "map_of (ch_owner (drop_ids ?ids c)) aid = Some k \<longleftrightarrow>
      (if k = key then aid \<in> set [] else in_bucket (map_of (ch_buckets c)) k aid)"
    for aid k
  proof -
    have "map_of (ch_owner c) aid = Some k \<longleftrightarrow> in_bucket (map_of (ch_buckets c)) k aid"
      using assms by (simp add: chooser_inv_def)
    with own[of aid] show ?thesis by (auto simp: drop_ids_def map_of_filter_key)
  qed
  moreover have "dom (map_of (ch_owner (drop_ids ?ids c))) \<subseteq> dom (map_of (ch_accounts (drop_ids ?ids c)))"
  proof -
    have "dom (map_of (ch_owner c)) \<subseteq> dom (map_of (ch_accounts c))"
      using assms by (simp add: chooser_inv_def)
    then show ?thesis by (auto simp: drop_ids_def dom_filter_key)
  qed
  ultimately show ?thesis by (simp add: install_inv_def drop_ids_def)
qed

lemma previous_bucket_forget [simp]: "previous_bucket (forget_cooling P c) key = previous_bucket c key"
  by (simp add: previous_bucket_def)

lemma chooser_inv_forget [keep_inv]: "chooser_inv c \<Longrightarrow> chooser_inv (forget_cooling P c)"
  by (rule chooser_inv_cong[of c]) (simp_all add: chooser_inv_distinct forget_cooling_distinct)

lemma ReplaceBucket_inv [keep_inv]:
  assumes "chooser_inv c"
  shows "chooser_inv (ReplaceBucket platform grp accounts epoch validUntil c)"
proof -
  define key where "key = bucketKey platform grp"
  define c1 where "c1 = (if map_of (ch_buckets c) key \<noteq> None \<and> epoch > 0
      \<and> bk_epoch (previous_bucket c key) > 0 \<and> epoch \<noteq> bk_epoch (previous_bucket c key)
    then forget_cooling (\<lambda>k v. fst k \<in> set (bk_ids (previous_bucket c key))) c else c)"
  have c1: "chooser_inv c1" "previous_bucket c1 key = previous_bucket c key"
    using assms by (simp_all add: c1_def chooser_inv_forget)
  obtain c3 ids where st: "fold (install_account platform grp) accounts
      (drop_ids (bk_ids (previous_bucket c key)) c1, []) = (c3, ids)" by fastforce
  have inv: "install_inv key (map_of (ch_buckets c1)) (c3, ids)"
    using fold_install_inv[of platform grp, folded key_def, OF drop_previous_inv[OF c1(1), of key], of accounts]
    by (simp add: c1(2) st)
  have "ReplaceBucket platform grp accounts epoch validUntil c = c3\<lparr>ch_buckets := AList.update key
      \<lparr>bk_epoch = epoch, bk_validUntil = validUntil, bk_ids = ids\<rparr> (ch_buckets c3)\<rparr>"
    unfolding ReplaceBucket_def Let_def key_def[symmetric] c1_def[symmetric] by (simp add: st)
  with inv show ?thesis
    by (simp add: install_inv_def chooser_inv_def maps_wf_def gomap_simps distinct_update in_bucket_update)
qed

lemma RemoveBucket_inv [keep_inv]:
  assumes "chooser_inv c"
  shows "chooser_inv (RemoveBucket platform grp c)"
  using drop_previous_inv[OF assms, of "bucketKey platform grp"]
  by (auto simp: RemoveBucket_def Let_def install_inv_def chooser_inv_def maps_wf_def map_of_delete
      distinct_delete in_bucket_update drop_ids_def split: if_splits)

lemma ReplaceAtEpoch_inv [keep_inv]:
  assumes "chooser_inv c"
  shows "chooser_inv (ReplaceAtEpoch snapshot epoch c)"
proof -
  define wf :: "chooser \<times> (string, Account) gomap \<Rightarrow> bool" where
    "wf = (\<lambda>(c, next). ch_buckets c = [] \<and> ch_owner c = [] \<and>
      distinct (map fst (ch_cooling c)) \<and> distinct (map fst (ch_failures c)) \<and>
      distinct (map fst next) \<and> (\<forall>aid a. map_of next aid = Some a \<longrightarrow> ac_ID a = aid))"
  have step: "wf (snapshot_account a st)" if "wf st" for a st
    using that by (auto simp: wf_def snapshot_account_def Let_def gomap_simps forget_cooling_distinct distinct_update
        split: prod.splits)
  have fold: "wf (fold snapshot_account as st)" if "wf st" for as st
    using that by (induction as arbitrary: st) (simp_all add: step)
  define c2 where "c2 = (if epoch > 0 \<and> ch_epoch c > 0 \<and> epoch \<noteq> ch_epoch c
    then c\<lparr>ch_cooling := [], ch_failures := []\<rparr> else c)\<lparr>ch_buckets := [], ch_owner := []\<rparr>"
  obtain c3 nxt where st: "fold snapshot_account snapshot (c2, []) = (c3, nxt)" by fastforce
  have "wf (c2, [])"
    using chooser_inv_distinct[OF assms] by (simp add: wf_def c2_def)
  from fold[OF this, of snapshot] have "wf (c3, nxt)" by (simp add: st)
  moreover have "ReplaceAtEpoch snapshot epoch c =
      (if epoch > 0 then c3\<lparr>ch_accounts := nxt, ch_epoch := epoch\<rparr> else c3\<lparr>ch_accounts := nxt\<rparr>)"
    unfolding ReplaceAtEpoch_def Let_def c2_def[symmetric]
    by (simp add: st)
  ultimately show ?thesis by (simp add: wf_def chooser_inv_def maps_wf_def)
qed

lemma MarkFailure_inv [keep_inv]:
  "chooser_inv c \<Longrightarrow> chooser_inv (MarkFailure now rnd accountID model class reset c)"
  by (rule chooser_inv_cong[of c])
    (simp_all add: MarkFailure_def Let_def chooser_inv_distinct distinct_update)

lemma MarkEgressRejected_inv [keep_inv]:
  "chooser_inv c \<Longrightarrow> chooser_inv (fst (MarkEgressRejected now rnd lease c))"
  by (rule chooser_inv_cong[of c])
    (auto simp: MarkEgressRejected_def Let_def chooser_inv_distinct)

lemma ClearAccount_inv [keep_inv]: "chooser_inv c \<Longrightarrow> chooser_inv (ClearAccount accountID version c)"
  by (rule chooser_inv_cong[of c])
    (simp_all add: ClearAccount_def chooser_inv_distinct distinct_filter_fst)

lemma chooser_step_inv: "chooser_step c c' \<Longrightarrow> chooser_inv c \<Longrightarrow> chooser_inv c'"
  by (induction rule: chooser_step.induct) (simp_all add: keep_inv)

lemma chooser_reachable_inv: "chooser_reachable c \<Longrightarrow> chooser_inv c"
proof (induction rule: chooser_reachable.induct)
  case start
  show ?case by (simp add: NewChooser_def chooser_inv_def maps_wf_def)
next
  case (step c c')
  then show ?case by (blast intro: chooser_step_inv)
qed

section \<open>Iteration order\<close>

definition same_maps :: "chooser \<Rightarrow> chooser \<Rightarrow> bool" where
  "same_maps c c' \<longleftrightarrow> map_of (ch_accounts c) = map_of (ch_accounts c') \<and>
     map_option bk_validUntil \<circ> map_of (ch_buckets c) = map_option bk_validUntil \<circ> map_of (ch_buckets c') \<and>
     map_of (ch_owner c) = map_of (ch_owner c') \<and> map_of (ch_cooling c) = map_of (ch_cooling c') \<and> map_of (ch_egress c) = map_of (ch_egress c')"

lemma judge_same_maps:
  assumes "same_maps c c'"
  shows "judge c = judge c'"
proof -
  have m: "map_of (ch_owner c) = map_of (ch_owner c')" "map_of (ch_cooling c) = map_of (ch_cooling c')"
    "map_of (ch_egress c) = map_of (ch_egress c')"
    using assms by (simp_all add: same_maps_def)
  have v: "bk_validUntil (previous_bucket x k) =
      (case (map_option bk_validUntil \<circ> map_of (ch_buckets x)) k of None \<Rightarrow> 0 | Some t \<Rightarrow> t)" for x k
    by (simp add: previous_bucket_def split: option.splits)
  have b: "bk_validUntil (previous_bucket c k) = bk_validUntil (previous_bucket c' k)" for k
    unfolding v using assms by (simp add: same_maps_def)
  show ?thesis by (intro ext) (unfold judge_def b m, rule refl)
qed

lemma sort_ids_unique:
  assumes "distinct (map fst m)" "distinct (map fst m')" "set m = set m'"
  shows "sort (map fst (filter P m)) = sort (map fst (filter P m'))"
  by (rule sorted_distinct_set_unique) (use assms in \<open>simp_all add: distinct_filter_fst\<close>)

lemma acquire_order_independent:
  assumes "maps_wf c" "maps_wf c'" "same_maps c c'"
  shows "AcquirePreferring c now cr preferred ex = AcquirePreferring c' now cr preferred ex"
proof -
  have d: "distinct (map fst (ch_accounts c))" "distinct (map fst (ch_accounts c'))"
    using assms(1,2) by (simp_all add: maps_wf_def)
  have m: "map_of (ch_accounts c) = map_of (ch_accounts c')" using assms(3) by (simp add: same_maps_def)
  then have s: "set (ch_accounts c) = set (ch_accounts c')"
    using d by (simp add: map_of_inject_set)
  note ids = sort_ids_unique[OF d s]
  show ?thesis
    unfolding AcquirePreferring_def Let_def judge_same_maps[OF assms(3)] ids m
    by (simp add: s)
qed

section \<open>Isolation of buckets\<close>

text \<open>What the installation of one bucket leaves alone: everything another bucket owns.\<close>

definition untouched :: "string \<Rightarrow> chooser \<Rightarrow> chooser \<Rightarrow> bool" where
  "untouched aid c c' \<longleftrightarrow> map_of (ch_accounts c') aid = map_of (ch_accounts c) aid \<and>
     map_of (ch_owner c') aid = map_of (ch_owner c) aid \<and>
     (\<forall>model. map_of (ch_cooling c') (aid, model) = map_of (ch_cooling c) (aid, model)) \<and>
     distinct (map fst (ch_cooling c'))"

lemma untouched_forget:
  assumes "untouched aid c0 c" and "\<And>k v. fst k = aid \<Longrightarrow> \<not> P k v"
  shows "untouched aid c0 (forget_cooling P c)"
  using assms
  by (auto simp: untouched_def forget_cooling_def map_of_filter distinct_filter_fst split: option.splits)

lemma untouched_install:
  assumes "untouched aid c0 c" and "map_of (ch_owner c0) aid = Some other"
    and "other \<noteq> bucketKey platform grp"
  shows "untouched aid c0 (fst (install_account platform grp a (c, ids)))"
proof (cases "ac_ID a = aid")
  case True
  have "map_of (ch_owner c) aid = Some other" using assms(1,2) by (simp add: untouched_def)
  with True assms show ?thesis
    by (simp add: install_account_def Let_def with_default_limits_def)
next
  case False
  then have "untouched aid c0 (c\<lparr>ch_accounts := AList.update (ac_ID a) v (ch_accounts c),
      ch_owner := AList.update (ac_ID a) k (ch_owner c)\<rparr>)" for v k
    using assms(1) by (simp add: untouched_def gomap_simps)
  from untouched_forget[OF this] False assms(1) show ?thesis
    by (auto simp: install_account_def Let_def with_default_limits_def split: option.splits)
qed

lemma untouched_fold_install:
  assumes "map_of (ch_owner c0) aid = Some other" and "other \<noteq> bucketKey platform grp"
  shows "untouched aid c0 c \<Longrightarrow> untouched aid c0 (fst (fold (install_account platform grp) as (c, ids)))"
proof (induction as arbitrary: c ids)
  case Nil
  then show ?case by simp
next
  case (Cons a as)
  obtain c1 ids1 where e: "install_account platform grp a (c, ids) = (c1, ids1)" by fastforce
  with untouched_install[OF Cons.prems assms, of a ids] Cons.IH[of c1 ids1] show ?case by simp
qed

lemma ReplaceBucket_untouched:
  assumes inv: "chooser_inv c" and own: "map_of (ch_owner c) aid = Some other"
    and other: "other \<noteq> bucketKey platform grp"
  shows "untouched aid c (ReplaceBucket platform grp accounts epoch validUntil c)"
proof -
  define key where "key = bucketKey platform grp"
  let ?prev = "previous_bucket c key"
  have notin: "aid \<notin> set (bk_ids ?prev)"
  proof
    assume "aid \<in> set (bk_ids ?prev)"
    then have "in_bucket (map_of (ch_buckets c)) key aid"
      by (auto simp: in_bucket_def previous_bucket_def split: option.splits)
    then have "map_of (ch_owner c) aid = Some key" using inv by (simp add: chooser_inv_def)
    with own other show False by (simp add: key_def)
  qed
  define c1 where "c1 = (if map_of (ch_buckets c) key \<noteq> None \<and> epoch > 0
      \<and> bk_epoch ?prev > 0 \<and> epoch \<noteq> bk_epoch ?prev
    then forget_cooling (\<lambda>k v. fst k \<in> set (bk_ids ?prev)) c else c)"
  have "untouched aid c c"
    using chooser_inv_distinct[OF inv] by (simp add: untouched_def)
  then have "untouched aid c c1" using notin untouched_forget[of aid c c] by (auto simp: c1_def)
  then have "untouched aid c (drop_ids (bk_ids ?prev) c1)"
    using notin by (simp add: untouched_def drop_ids_def map_of_filter_key)
  then have "untouched aid c (fst (fold (install_account platform grp) accounts
      (drop_ids (bk_ids ?prev) c1, [])))"
    by (rule untouched_fold_install[OF own other])
  moreover obtain c3 ids where st: "fold (install_account platform grp) accounts
      (drop_ids (bk_ids ?prev) c1, []) = (c3, ids)" by fastforce
  moreover have "ReplaceBucket platform grp accounts epoch validUntil c = c3\<lparr>ch_buckets := AList.update key
      \<lparr>bk_epoch = epoch, bk_validUntil = validUntil, bk_ids = ids\<rparr> (ch_buckets c3)\<rparr>"
    unfolding ReplaceBucket_def Let_def key_def[symmetric] c1_def[symmetric] by (simp add: st)
  ultimately show ?thesis by (simp add: untouched_def)
qed

section \<open>Jitter\<close>

lemma withJitter_bounds:
  assumes "0 < base" and "base * 120 \<le> max_int64"
  shows "base * 4 div 5 \<le> withJitter rnd base" and "withJitter rnd base \<le> base * 6 div 5"
proof -
  have "base * 4 div 5 \<le> withJitter rnd base \<and> withJitter rnd base \<le> base * 6 div 5"
  proof (cases rnd)
    case None
    have "base * 4 div 5 \<le> base" "base \<le> base * 6 div 5" using assms(1) by presburger+
    with None assms(1) show ?thesis by (simp add: withJitter_def)
  next
    case (Some raw)
    let ?p = "100 + (int (raw mod 41) - 20)"
    define p where "p = 100 + (int (raw mod 41) - 20)"
    have p: "80 \<le> p" "p \<le> 120" by (simp_all add: p_def)
    have b: "base * p \<le> base * 120" "base * 80 \<le> base * p"
      using assms(1) p by (simp_all only: mult_le_cancel_left_pos)
    have "0 \<le> base * p" using assms(1) p by simp
    with b(1) assms(2) have w: "wrap64 (base * p) = base * p"
      by (intro wrap64_id) (auto simp: min_int64_def)
    have e: "withJitter rnd base = base * p div 100"
      using assms(1) p w by (simp add: Some withJitter_def p_def[symmetric] sdiv_nonneg)
    have "base * 80 div 100 \<le> base * p div 100" "base * p div 100 \<le> base * 120 div 100"
      using b by (simp_all only: zdiv_mono1)
    moreover have "base * 80 div 100 = base * 4 div 5" "base * 120 div 100 = base * 6 div 5" by arith+
    ultimately show ?thesis by (simp add: e)
  qed
  then show "base * 4 div 5 \<le> withJitter rnd base" "withJitter rnd base \<le> base * 6 div 5" by simp_all
qed

section \<open>Penalties and selection\<close>

lemma MarkFailure_cooling:
  assumes "class \<noteq> ErrorForbiddenTransport" "class \<noteq> ErrorNetwork"
  shows "\<exists>cd. map_of (ch_cooling (MarkFailure now rnd aid model class reset c)) (aid, model) = Some cd"
  using assms by (simp add: MarkFailure_def Let_def gomap_simps)

lemma MarkFailure_until:
  assumes "class \<notin> {ErrorForbiddenTransport, ErrorNetwork, ErrorAuthInvalid}" "0 < reset"
    and "map_of (ch_cooling (MarkFailure now rnd aid model class reset c)) (aid, model) = Some cd"
  shows "cd_until cd = now + withJitter rnd reset"
  using assms by (auto simp: MarkFailure_def Let_def gomap_simps)

lemma MarkFailure_accounts [simp]:
  "ch_accounts (MarkFailure now rnd aid model class reset c) = ch_accounts c"
  "ch_egress (MarkFailure now rnd aid model class reset c) = ch_egress c"
  "ch_owner (MarkFailure now rnd aid model class reset c) = ch_owner c"
  "ch_buckets (MarkFailure now rnd aid model class reset c) = ch_buckets c"
  by (simp_all add: MarkFailure_def Let_def)

lemma cooling_not_schedulable:
  "map_of (ch_cooling c) (aid, cr_Model cr) = Some cd \<Longrightarrow> now < cd_until cd \<Longrightarrow>
     \<not> schedulable c now cr ex aid a"
  by (auto simp: schedulable_def)

section \<open>Evidence against an egress\<close>

definition seen_on :: "chooser \<Rightarrow> string \<Rightarrow> (string, time) gomap" where
  "seen_on c key = (case map_of (ch_egressSeen c) key of None \<Rightarrow> [] | Some s \<Rightarrow> s)"

definition seen_inv :: "chooser \<Rightarrow> bool" where
  "seen_inv c \<longleftrightarrow> (\<forall>key. distinct (map fst (seen_on c key)))"

lemma seen_on_cong: "ch_egressSeen c' = ch_egressSeen c \<Longrightarrow> seen_on c' = seen_on c"
  by (rule ext) (simp add: seen_on_def)

lemma fold_install_egressSeen:
  "ch_egressSeen (fst (fold (install_account platform grp) as st)) = ch_egressSeen (fst st)"
proof (induction as arbitrary: st)
  case Nil
  then show ?case by simp
next
  case (Cons a as)
  have "ch_egressSeen (fst (install_account platform grp a st)) = ch_egressSeen (fst st)"
    by (cases st) (simp add: install_account_def Let_def split: option.splits)
  with Cons.IH show ?case by simp
qed

lemma ReplaceBucket_egressSeen:
  "ch_egressSeen (ReplaceBucket platform grp accounts epoch validUntil c) = ch_egressSeen c"
proof -
  have d: "ch_egressSeen (drop_ids ids c) = ch_egressSeen c" for ids c by (simp add: drop_ids_def)
  show ?thesis
    using fold_install_egressSeen[of platform grp accounts]
    by (simp add: ReplaceBucket_def Let_def split_def d)
qed

lemma ReplaceAtEpoch_egressSeen: "ch_egressSeen (ReplaceAtEpoch snapshot epoch c) = ch_egressSeen c"
proof -
  have "ch_egressSeen (fst (fold snapshot_account as st)) = ch_egressSeen (fst st)" for as st
    by (induction as arbitrary: st) (simp_all add: snapshot_account_def Let_def split_def)
  then show ?thesis by (simp add: ReplaceAtEpoch_def Let_def split_def)
qed

lemma egress_entries:
  "map_of (ch_egressSeen (fst (MarkEgressRejected now rnd lease c))) =
     (map_of (ch_egressSeen c))(egressKey (ls_Profile lease) \<mapsto>
        filter (\<lambda>(aid, seenAt). \<not> time_sub now seenAt > egressSignalWindow)
          (AList.update (ls_AccountID lease) now (seen_on c (egressKey (ls_Profile lease)))))"
  by (auto simp: MarkEgressRejected_def Let_def gomap_simps seen_on_def)

lemma MarkEgressRejected_seen_inv: "seen_inv c \<Longrightarrow> seen_inv (fst (MarkEgressRejected now rnd lease c))"
  unfolding seen_inv_def seen_on_def[of "fst (MarkEgressRejected now rnd lease c)"] egress_entries
  by (auto simp: distinct_filter_fst distinct_update seen_on_def split: option.splits)

lemma chooser_step_seen_inv: "chooser_step c c' \<Longrightarrow> seen_inv c \<Longrightarrow> seen_inv c'"
proof (induction rule: chooser_step.induct)
  case (mark_egress c now rnd lease)
  then show ?case by (rule MarkEgressRejected_seen_inv)
qed (simp_all add: seen_inv_def seen_on_def ReplaceBucket_egressSeen ReplaceAtEpoch_egressSeen
    RemoveBucket_def drop_ids_def MarkFailure_def ClearAccount_def Let_def)

lemma chooser_reachable_seen_inv: "chooser_reachable c \<Longrightarrow> seen_inv c"
proof (induction rule: chooser_reachable.induct)
  case start
  show ?case by (simp add: NewChooser_def seen_inv_def seen_on_def)
next
  case (step c c')
  then show ?case by (blast intro: chooser_step_seen_inv)
qed

lemma two_entries:
  assumes "distinct (map fst m)" and "(k, v) \<in> set m"
  shows "length m < 2 \<longleftrightarrow> (\<forall>k' v'. (k', v') \<in> set m \<longrightarrow> k' = k)"
proof
  assume "length m < 2"
  with assms(2) show "\<forall>k' v'. (k', v') \<in> set m \<longrightarrow> k' = k"
    by (cases m) auto
next
  assume *: "\<forall>k' v'. (k', v') \<in> set m \<longrightarrow> k' = k"
  then have "set (map fst m) \<subseteq> {k}" by auto
  then have "card (set (map fst m)) \<le> 1" using card_mono[of "{k}" "set (map fst m)"] by simp
  with distinct_card[OF assms(1)] show "length m < 2" by simp
qed

lemma egress_trips_iff:
  assumes "seen_inv c"
  shows "snd (MarkEgressRejected now rnd lease c) \<longleftrightarrow>
    (\<exists>other seenAt. other \<noteq> ls_AccountID lease \<and> now - seenAt \<le> egressSignalWindow \<and>
      map_of (seen_on c (egressKey (ls_Profile lease))) other = Some seenAt)"
proof -
  define m where "m = AList.update (ls_AccountID lease) now (seen_on c (egressKey (ls_Profile lease)))"
  define seen where "seen = filter (\<lambda>(aid, seenAt). \<not> time_sub now seenAt > egressSignalWindow) m"
  have dm: "distinct (map fst m)" using assms by (simp add: m_def seen_inv_def distinct_update)
  have w: "egressSignalWindow < time_sub now t \<longleftrightarrow> egressSignalWindow < now - t" for t
    by (rule time_sub_gt) (simp_all add: egressSignalWindow_def second_def max_int64_def min_int64_def)
  have mem: "(aid, t) \<in> set seen \<longleftrightarrow> map_of m aid = Some t \<and> now - t \<le> egressSignalWindow" for aid t
    using dm by (auto simp: seen_def w map_of_eq_Some_iff)
  have own: "(ls_AccountID lease, now) \<in> set seen"
    by (simp add: mem m_def gomap_simps egressSignalWindow_def second_def)
  have "snd (MarkEgressRejected now rnd lease c) \<longleftrightarrow> \<not> length seen < 2"
    by (simp add: MarkEgressRejected_def Let_def egressSignalAccounts_def seen_on_def[symmetric]
        m_def[symmetric] seen_def[symmetric])
  also have "\<dots> \<longleftrightarrow> (\<exists>k t. (k, t) \<in> set seen \<and> k \<noteq> ls_AccountID lease)"
    using two_entries[OF _ own] dm by (auto simp: seen_def distinct_filter_fst)
  finally show ?thesis by (auto simp: mem m_def gomap_simps)
qed

lemma egress_until:
  assumes "snd (MarkEgressRejected now rnd lease c)"
  shows "\<exists>u. map_of (ch_egress (fst (MarkEgressRejected now rnd lease c))) (egressKey (ls_Profile lease)) = Some u
    \<and> now + withJitter rnd egressShortCircuit \<le> u"
  using assms
  by (auto simp: MarkEgressRejected_def Let_def gomap_simps split: if_splits option.splits)

lemma egress_jitter: "56 * second div 10 \<le> withJitter rnd egressShortCircuit"
  using withJitter_bounds(1)[of egressShortCircuit rnd]
  by (simp add: egressShortCircuit_def second_def max_int64_def)

section \<open>The interface the request handler uses\<close>

text \<open>
  The handler only relies on this: a lease is for an account that was not excluded, and the
  penalties it reports leave the scheduler well formed.  Its retry loop therefore never attempts
  one account twice.
\<close>

locale account_source =
  fixes acquire :: "'s \<Rightarrow> time \<Rightarrow> Criteria \<Rightarrow> string \<Rightarrow> string list \<Rightarrow> gateway_error + Lease"
    and penalise :: "time \<Rightarrow> nat option \<Rightarrow> Lease \<Rightarrow> string \<Rightarrow> error_class \<Rightarrow> duration \<Rightarrow> 's \<Rightarrow> 's"
    and wf :: "'s \<Rightarrow> bool"
  assumes acquire_fresh: "wf s \<Longrightarrow> acquire s now cr preferred ex = Inr l \<Longrightarrow> ls_AccountID l \<notin> set ex"
    and penalise_wf: "wf s \<Longrightarrow> wf (penalise now rnd l model class reset s)"
begin

text \<open>A request's attempts: each excludes the accounts of the earlier ones.\<close>

inductive attempts :: "Criteria \<Rightarrow> string list \<Rightarrow> 's \<Rightarrow> string list \<Rightarrow> bool" where
  no_more: "attempts cr ex s []"
| again: "acquire s now cr preferred ex = Inr l \<Longrightarrow>
    attempts cr (ls_AccountID l # ex) (penalise now' rnd l model class reset s) ids \<Longrightarrow>
    attempts cr ex s (ls_AccountID l # ids)"

lemma attempts_distinct: "attempts cr ex s ids \<Longrightarrow> wf s \<Longrightarrow> distinct ids \<and> set ids \<inter> set ex = {}"
proof (induction rule: attempts.induct)
  case (no_more cr ex s)
  show ?case by simp
next
  case (again s now cr preferred ex l now' rnd model cls reset ids)
  then have "distinct ids \<and> set ids \<inter> set (ls_AccountID l # ex) = {}" by (simp add: penalise_wf)
  moreover have "ls_AccountID l \<notin> set ex" using again acquire_fresh by blast
  ultimately show ?case by auto
qed

end

lemma markTransportOrAccount_inv [keep_inv]:
  "chooser_inv c \<Longrightarrow> chooser_inv (markTransportOrAccount now rnd lease model class reset c)"
  by (simp add: markTransportOrAccount_def keep_inv)

lemma acquired_not_excluded:
  "chooser_inv c \<Longrightarrow> AcquirePreferring c now cr preferred ex = Inr l \<Longrightarrow> ls_AccountID l \<notin> set ex"
  by (elim acquired_lease[rotated]) (simp_all add: chooser_inv_def schedulable_def)

interpretation scheduler: account_source AcquirePreferring markTransportOrAccount chooser_inv
  by unfold_locales (rule acquired_not_excluded, assumption+, rule markTransportOrAccount_inv)

section \<open>Properties\<close>

text \<open>A small pool for the witnesses: two accounts of one bucket.\<close>

definition demo_account :: "string \<Rightarrow> Account" where
  "demo_account aid = \<lparr>ac_ID = aid, ac_Provider = ''claude'', ac_Platform = ''claude'',
     ac_Group = ''default'',
     ac_Credential = \<lparr>cred_Kind = ''oauth'', cred_AccessToken = ''t'', cred_Proxy = '''',
       cred_Metadata = [], cred_ExpiresAt = 5000, cred_Version = 3\<rparr>,
     ac_Profile = \<lparr>pf_BaseURL = ''https://x'', pf_Proxy = '''', pf_Protocol = '''',
       pf_InferencePath = '''', pf_TLSFingerprint = '''', pf_UserAgent = '''', pf_ExtraHeaders = [],
       pf_Metadata = [], pf_WS = False\<rparr>,
     ac_Limits = \<lparr>lim_MaxConcurrency = 2, lim_RPM = 0, lim_StickyTTL = 0, lim_DegradePolicy = ''''\<rparr>,
     ac_Status = ''active'', ac_FenceEpoch = 1, ac_Quota = [], ac_Capabilities = [],
     ac_ExcludedModels = [], ac_UsageIntegrity = UsageIntegrityFailover\<rparr>"

definition demo_criteria :: Criteria where
  "demo_criteria = \<lparr>cr_Platform = '''', cr_Model = ''m'', cr_Group = ''default'', cr_SessionKey = ''''\<rparr>"

definition demo_pool :: chooser where
  "demo_pool = ReplaceBucket ''claude'' ''default'' [demo_account ''b'', demo_account ''a''] 1 9000 NewChooser"

definition demo_pool_reversed :: chooser where
  "demo_pool_reversed =
     ReplaceBucket ''claude'' ''default'' [demo_account ''a'', demo_account ''b''] 1 9000 NewChooser"

lemma demo_pools:
  "demo_pool = \<lparr>ch_accounts = [(''b'', with_default_limits (demo_account ''b'')),
       (''a'', with_default_limits (demo_account ''a''))],
     ch_buckets = [(bucketKey ''claude'' ''default'', \<lparr>bk_epoch = 1, bk_validUntil = 9000, bk_ids = [''a'', ''b'']\<rparr>)],
     ch_owner = [(''b'', bucketKey ''claude'' ''default''), (''a'', bucketKey ''claude'' ''default'')],
     ch_cooling = [], ch_failures = [], ch_egress = [], ch_egressSeen = [], ch_epoch = 0\<rparr>"
  "demo_pool_reversed = \<lparr>ch_accounts = [(''a'', with_default_limits (demo_account ''a'')),
       (''b'', with_default_limits (demo_account ''b''))],
     ch_buckets = [(bucketKey ''claude'' ''default'', \<lparr>bk_epoch = 1, bk_validUntil = 9000, bk_ids = [''b'', ''a'']\<rparr>)],
     ch_owner = [(''a'', bucketKey ''claude'' ''default''), (''b'', bucketKey ''claude'' ''default'')],
     ch_cooling = [], ch_failures = [], ch_egress = [], ch_egressSeen = [], ch_epoch = 0\<rparr>"
  by code_simp+

lemma demo_pool_reachable: "chooser_reachable demo_pool"
  unfolding demo_pool_def by (rule chooser_reachable.step[OF chooser_reachable.start replace_bucket])

lemma demo_pool_owner: "map_of (ch_owner demo_pool) ''a'' = Some (bucketKey ''claude'' ''default'')"
  by code_simp

text \<open>
  C6.  Whatever snapshots, failures and rejections the chooser has been through, an acquired lease
  is for an installed account that satisfies every scheduling condition at that moment (not
  excluded, its bucket fresh, active, in the group, credential live, model supported, not cooling,
  its egress not short-circuited, quota left), and it is the pinned account when that one is
  schedulable, else the schedulable account with the least ID.
\<close>

theorem acquire_sound:
  assumes "chooser_reachable c" and "AcquirePreferring c now criteria preferred excluded = Inr lease"
  shows "\<exists>a. map_of (ch_accounts c) (ls_AccountID lease) = Some a \<and>
    schedulable c now criteria excluded (ls_AccountID lease) a \<and> lease = lease_of now a \<and>
    ls_AccountID lease = (if preferred \<noteq> '''' \<and> preferred \<in> schedulable_ids c now criteria excluded
      then preferred else Min (schedulable_ids c now criteria excluded))"
proof -
  have "maps_wf c" using chooser_reachable_inv[OF assms(1)] by (simp add: chooser_inv_def)
  from this assms(2) show ?thesis
    by (elim acquired_lease) (auto simp: pick_def)
qed

theorem acquire_sound_witness:
  "\<exists>a. map_of (ch_accounts demo_pool) (ls_AccountID (lease_of 10 (demo_account ''a''))) = Some a \<and>
    schedulable demo_pool 10 demo_criteria [''b''] (ls_AccountID (lease_of 10 (demo_account ''a''))) a"
proof -
  have "AcquirePreferring demo_pool 10 demo_criteria '''' [''b''] =
      Inr (lease_of 10 (demo_account ''a''))" by code_simp
  from acquire_sound[OF demo_pool_reachable this] show ?thesis by blast
qed

text \<open>
  C30.  Selection is complete and deterministic: it succeeds exactly when some account is
  schedulable, and two choosers whose maps hold the same entries, in whatever iteration order,
  give the same lease or the same error.
\<close>

theorem acquire_complete_deterministic:
  assumes "chooser_reachable c" and "chooser_reachable c'" and "same_maps c c'"
  shows "((\<exists>lease. AcquirePreferring c now criteria preferred excluded = Inr lease)
      \<longleftrightarrow> schedulable_ids c now criteria excluded \<noteq> {}) \<and>
    AcquirePreferring c now criteria preferred excluded
      = AcquirePreferring c' now criteria preferred excluded"
proof -
  have wf: "maps_wf c" "maps_wf c'"
    using chooser_reachable_inv[OF assms(1)] chooser_reachable_inv[OF assms(2)]
    by (simp_all add: chooser_inv_def)
  from acquire_Inr_iff[OF wf(1)] acquire_order_independent[OF wf assms(3)] show ?thesis by blast
qed

theorem acquire_complete_deterministic_witness:
  "AcquirePreferring demo_pool 10 demo_criteria ''b'' []
     = AcquirePreferring demo_pool_reversed 10 demo_criteria ''b'' []"
proof -
  have r: "chooser_reachable demo_pool_reversed"
    unfolding demo_pool_reversed_def
    by (rule chooser_reachable.step[OF chooser_reachable.start replace_bucket])
  have "same_maps demo_pool demo_pool_reversed"
    unfolding same_maps_def demo_pools
    by (auto simp: fun_eq_iff)
  from acquire_complete_deterministic[OF demo_pool_reachable r this] show ?thesis by blast
qed

text \<open>
  C35.  Installing one bucket disturbs no other: an account owned by another bucket keeps its
  entry, its owner and all its cooldowns, whatever accounts, epoch and freshness the installed
  bucket carries.
\<close>

theorem bucket_isolation:
  assumes "chooser_reachable c" and "map_of (ch_owner c) aid = Some other"
    and "other \<noteq> bucketKey platform grp"
  shows "map_of (ch_accounts (ReplaceBucket platform grp accounts epoch validUntil c)) aid
      = map_of (ch_accounts c) aid \<and>
    map_of (ch_owner (ReplaceBucket platform grp accounts epoch validUntil c)) aid = Some other \<and>
    (\<forall>model. map_of (ch_cooling (ReplaceBucket platform grp accounts epoch validUntil c)) (aid, model)
      = map_of (ch_cooling c) (aid, model))"
  using ReplaceBucket_untouched[OF chooser_reachable_inv[OF assms(1)] assms(2,3)] assms(2)
  by (simp add: untouched_def)

theorem bucket_isolation_witness:
  "map_of (ch_owner (ReplaceBucket ''codex'' ''default'' [demo_account ''a''] 2 0 demo_pool)) ''a''
     = Some (bucketKey ''claude'' ''default'')"
  using bucket_isolation[OF demo_pool_reachable demo_pool_owner, of "''codex''" "''default''"
      "[demo_account ''a'']" 2 0]
  by (simp add: bucketKey_def)

text \<open>
  A reported failure takes the account out of selection for that model: with a reset
  duration of up to two years, no acquisition for the model returns the account before four
  fifths of the reset have passed.
\<close>

theorem failure_cools_account:
  assumes "chooser_reachable c"
    and "class \<notin> {ErrorForbiddenTransport, ErrorNetwork, ErrorAuthInvalid}"
    and "0 < reset" and "reset * 120 \<le> max_int64" and "later < now + reset * 4 div 5"
    and "AcquirePreferring (MarkFailure now rnd aid (cr_Model criteria) class reset c)
      later criteria preferred excluded = Inr lease"
  shows "ls_AccountID lease \<noteq> aid"
proof
  assume eq: "ls_AccountID lease = aid"
  let ?c = "MarkFailure now rnd aid (cr_Model criteria) class reset c"
  have "chooser_reachable ?c" by (rule chooser_reachable.step[OF assms(1) mark_failure])
  then have "maps_wf ?c" using chooser_reachable_inv by (simp add: chooser_inv_def)
  from this assms(6) obtain a where a: "schedulable ?c later criteria excluded aid a"
    using acquired_lease eq by metis
  obtain cd where cd: "map_of (ch_cooling ?c) (aid, cr_Model criteria) = Some cd"
    using MarkFailure_cooling assms(2) by blast
  with assms(2,3) have "cd_until cd = now + withJitter rnd reset" by (intro MarkFailure_until)
  with withJitter_bounds(1)[OF assms(3,4), of rnd] assms(5) have "later < cd_until cd" by simp
  with cooling_not_schedulable[OF cd] a show False by blast
qed

theorem failure_cools_account_witness:
  "ls_AccountID (lease_of 10 (demo_account ''b'')) \<noteq> ''a''"
proof (rule failure_cools_account[OF demo_pool_reachable])
  show "AcquirePreferring (MarkFailure 5 (Some 0) ''a'' (cr_Model demo_criteria) ErrorRateLimitedKnown
      (30 * second) demo_pool) 10 demo_criteria ''a'' [] = Inr (lease_of 10 (demo_account ''b''))"
    by code_simp
qed (simp_all add: second_def max_int64_def)

text \<open>
  A rejection by the transport short-circuits an egress exactly when another account was
  rejected on the same egress within the last minute: one account alone never does, however often
  it is rejected; and the short circuit then lasts at least 5.6 seconds.
\<close>

theorem egress_needs_two_accounts:
  assumes "chooser_reachable c"
  shows "(snd (MarkEgressRejected now rnd lease c) \<longleftrightarrow>
      (\<exists>other seenAt. other \<noteq> ls_AccountID lease \<and> now - seenAt \<le> egressSignalWindow \<and>
        map_of (seen_on c (egressKey (ls_Profile lease))) other = Some seenAt)) \<and>
    (snd (MarkEgressRejected now rnd lease c) \<longrightarrow>
      (\<exists>u. map_of (ch_egress (fst (MarkEgressRejected now rnd lease c))) (egressKey (ls_Profile lease))
          = Some u \<and> now + 56 * second div 10 \<le> u))"
  using egress_trips_iff[OF chooser_reachable_seen_inv[OF assms]] egress_until[of now rnd lease c]
    egress_jitter[of rnd] by fastforce

theorem egress_needs_two_accounts_witness:
  "snd (MarkEgressRejected 20 None (lease_of 20 (demo_account ''b''))
     (fst (MarkEgressRejected 10 None (lease_of 10 (demo_account ''a'')) demo_pool)))"
proof -
  let ?c = "fst (MarkEgressRejected 10 None (lease_of 10 (demo_account ''a'')) demo_pool)"
  have "chooser_reachable ?c" by (rule chooser_reachable.step[OF demo_pool_reachable mark_egress])
  moreover have "map_of (seen_on ?c (egressKey (ls_Profile (lease_of 20 (demo_account ''b''))))) ''a'' = Some 10"
    by code_simp
  moreover have "''a'' \<noteq> ls_AccountID (lease_of 20 (demo_account ''b''))" by code_simp
  ultimately show ?thesis
    using egress_needs_two_accounts[of ?c 20 None "lease_of 20 (demo_account ''b'')"]
    by (fastforce simp: egressSignalWindow_def second_def)
qed

text \<open>
  The jitter overflows for a reset the upstream puts too far ahead: for the largest duration,
  which the subtraction of times saturates to, and an even jitter, \<open>withJitter\<close> is not positive,
  so the failure just reported leaves the account schedulable at once.
\<close>

theorem saturated_reset_gives_no_cooldown:
  assumes "even (raw mod 41)" and "class \<notin> {ErrorForbiddenTransport, ErrorNetwork, ErrorAuthInvalid}"
    and "map_of (ch_cooling (MarkFailure now (Some raw) aid model class max_int64 c)) (aid, model) = Some cd"
  shows "cd_until cd \<le> now"
proof -
  have "cd_until cd = now + withJitter (Some raw) max_int64"
    by (rule MarkFailure_until[OF assms(2) _ assms(3)]) (simp add: max_int64_def)
  moreover have "withJitter (Some raw) max_int64 \<le> 0"
  proof -
    from assms(1) obtain k where k: "raw mod 41 = 2 * k" by (rule evenE)
    then have kb: "k \<le> 20" using mod_less_divisor[of 41 raw] by simp
    have eq: "max_int64 * (100 + (int (raw mod 41) - 20)) + 2 ^ 63
        = (2 ^ 63 - (80 + 2 * int k)) + (40 + int k) * 2 ^ 64"
      by (simp add: k max_int64_def algebra_simps)
    have "(2 ^ 63 - (80 + 2 * int k)) mod 2 ^ 64 = 2 ^ 63 - (80 + 2 * int k)"
      using kb by (intro mod_pos_pos_trivial) simp_all
    then have "wrap64 (max_int64 * (100 + (int (raw mod 41) - 20))) = - (80 + 2 * int k)"
      unfolding wrap64_def eq mod_mult_self1 by simp
    then show ?thesis
      using kb by (simp add: withJitter_def Let_def signed_divide_int_def max_int64_def)
  qed
  ultimately show ?thesis by simp
qed

theorem saturated_reset_gives_no_cooldown_witness:
  "\<exists>lease. AcquirePreferring (MarkFailure 5 (Some 20) ''a'' ''m'' ErrorRateLimitedKnown max_int64 demo_pool)
     5 demo_criteria ''a'' [] = Inr lease \<and> ls_AccountID lease = ''a''"
proof -
  let ?c = "MarkFailure 5 (Some 20) ''a'' ''m'' ErrorRateLimitedKnown max_int64 demo_pool"
  obtain cd where cd: "map_of (ch_cooling ?c) (''a'', ''m'') = Some cd"
    using MarkFailure_cooling[of ErrorRateLimitedKnown] by fastforce
  have "cd_until cd \<le> 5"
    by (rule saturated_reset_gives_no_cooldown[OF _ _ cd]) simp_all
  moreover have "ch_accounts ?c = ch_accounts demo_pool" by simp
  moreover have "AcquirePreferring ?c 5 demo_criteria ''a'' [] = Inr (lease_of 5 (demo_account ''a''))"
    by code_simp
  moreover have "ls_AccountID (lease_of 5 (demo_account ''a'')) = ''a''" by code_simp
  ultimately show ?thesis by blast
qed

end
