(* ===== verification/Redis.thy ===== *)
theory Redis
  imports Contracts
begin

text \<open>
  The part of Redis the gateway and control share: keys with a value and an expiry, and the
  commands the sources issue.  An expired key is invisible to every command; counters are
  strings in decimal form, as Redis keeps them.  A command on a value of another type is an
  error and changes nothing.
\<close>

section \<open>Keys and values\<close>

datatype redis_data =
    RString string
  | RHash "(string, string) gomap"

record redis_entry =
  re_data :: redis_data
  re_expires :: "time option"

type_synonym redis = "string \<rightharpoonup> redis_entry"

definition redis_live :: "time \<Rightarrow> redis \<Rightarrow> string \<Rightarrow> redis_entry option" where
  "redis_live now r k =
     (case r k of
        None \<Rightarrow> None
      | Some e \<Rightarrow> (case re_expires e of
            None \<Rightarrow> Some e
          | Some t \<Rightarrow> if t \<le> now then None else Some e))"

section \<open>Commands\<close>

text \<open>\<^verbatim>\<open>GET\<close>: an error on a hash, otherwise the string, absent where there is no key.\<close>

definition redis_get :: "time \<Rightarrow> string \<Rightarrow> redis \<Rightarrow> unit + string option" where
  "redis_get now k r =
     (case redis_live now r k of
        None \<Rightarrow> Inr None
      | Some e \<Rightarrow> (case re_data e of RString s \<Rightarrow> Inr (Some s) | RHash h \<Rightarrow> Inl ()))"

text \<open>Redis reads a string as an integer only where it is the text it would write itself.\<close>

definition redis_int :: "string \<Rightarrow> int option" where
  "redis_int s = (case parse_int64 s of None \<Rightarrow> None | Some n \<Rightarrow> if show_int n = s then Some n else None)"

text \<open>
  \<^verbatim>\<open>INCR\<close> and \<^verbatim>\<open>DECR\<close>: a missing key counts from zero and has no expiry, an existing one keeps
  its expiry; an overflow is an error.
\<close>

definition redis_incrby :: "int \<Rightarrow> time \<Rightarrow> string \<Rightarrow> redis \<Rightarrow> (int \<times> redis) option" where
  "redis_incrby d now k r =
     (case redis_live now r k of
        None \<Rightarrow> Some (d, r(k \<mapsto> \<lparr>re_data = RString (show_int d), re_expires = None\<rparr>))
      | Some e \<Rightarrow> (case re_data e of
            RHash h \<Rightarrow> None
          | RString s \<Rightarrow> (case redis_int s of
                None \<Rightarrow> None
              | Some n \<Rightarrow> if n + d < min_int64 \<or> n + d > max_int64 then None
                  else Some (n + d, r(k \<mapsto> e\<lparr>re_data := RString (show_int (n + d))\<rparr>)))))"

definition redis_incr :: "time \<Rightarrow> string \<Rightarrow> redis \<Rightarrow> (int \<times> redis) option" where
  "redis_incr = redis_incrby 1"

definition redis_decr :: "time \<Rightarrow> string \<Rightarrow> redis \<Rightarrow> (int \<times> redis) option" where
  "redis_decr = redis_incrby (- 1)"

definition redis_pexpire :: "time \<Rightarrow> string \<Rightarrow> int \<Rightarrow> redis \<Rightarrow> redis" where
  "redis_pexpire now k ms r =
     (case redis_live now r k of
        None \<Rightarrow> r
      | Some e \<Rightarrow> r(k \<mapsto> e\<lparr>re_expires := Some (now + ms * 1000000)\<rparr>))"

definition redis_del :: "string \<Rightarrow> redis \<Rightarrow> redis" where
  "redis_del k r = r(k := None)"

definition redis_set :: "time \<Rightarrow> string \<Rightarrow> string \<Rightarrow> duration \<Rightarrow> redis \<Rightarrow> redis" where
  "redis_set now k v ttl r = r(k \<mapsto> \<lparr>re_data = RString v, re_expires = Some (now + ttl)\<rparr>)"

text \<open>\<^verbatim>\<open>HSET\<close> of several fields, \<^verbatim>\<open>HGETALL\<close> and \<^verbatim>\<open>RENAME\<close>.\<close>

definition redis_hset :: "time \<Rightarrow> string \<Rightarrow> (string \<times> string) list \<Rightarrow> redis \<Rightarrow> redis option" where
  "redis_hset now k fvs r =
     (case redis_live now r k of
        None \<Rightarrow> Some (r(k \<mapsto> \<lparr>re_data = RHash (fold (\<lambda>(f, v). AList.update f v) fvs []), re_expires = None\<rparr>))
      | Some e \<Rightarrow> (case re_data e of
            RString s \<Rightarrow> None
          | RHash h \<Rightarrow> Some (r(k \<mapsto> e\<lparr>re_data := RHash (fold (\<lambda>(f, v). AList.update f v) fvs h)\<rparr>))))"

definition redis_hgetall :: "time \<Rightarrow> string \<Rightarrow> redis \<Rightarrow> unit + (string, string) gomap" where
  "redis_hgetall now k r =
     (case redis_live now r k of
        None \<Rightarrow> Inr []
      | Some e \<Rightarrow> (case re_data e of RString s \<Rightarrow> Inl () | RHash h \<Rightarrow> Inr h))"

definition redis_rename :: "time \<Rightarrow> string \<Rightarrow> string \<Rightarrow> redis \<Rightarrow> redis option" where
  "redis_rename now k k' r =
     (case redis_live now r k of
        None \<Rightarrow> None
      | Some e \<Rightarrow> Some (r(k := None, k' \<mapsto> e)))"

section \<open>Counters\<close>

lemma strip_sign_digits: "list_all is_digit s \<Longrightarrow> strip_sign s = s"
  by (cases s) (auto simp: strip_sign_def has_prefix_def is_digit_def)

lemma parse_int64_show_int:
  assumes "min_int64 \<le> n" "n \<le> max_int64"
  shows "parse_int64 (show_int n) = Some n"
proof (cases "n < 0")
  case True
  have "strip_sign (show_int n) = show_nat (nat (- n))" using True by (simp add: show_int_def strip_sign_def)
  moreover have "has_prefix (show_int n) ''-''" using True by (simp add: show_int_def has_prefix_def)
  ultimately show ?thesis using assms True show_nat_digits show_nat_nonempty
    by (simp add: parse_int64_def signed_val_def)
next
  case False
  have "strip_sign (show_int n) = show_nat (nat n)" "\<not> has_prefix (show_int n) ''-''"
    using False show_nat_digits[of "nat n"] show_nat_nonempty[of "nat n"]
    by (simp add: show_int_def strip_sign_digits, cases "show_nat (nat n)",
        auto simp: show_int_def has_prefix_def is_digit_def)
  then show ?thesis using assms False show_nat_digits show_nat_nonempty
    by (simp add: parse_int64_def signed_val_def)
qed

lemma redis_int_show [simp]: "min_int64 \<le> n \<Longrightarrow> n \<le> max_int64 \<Longrightarrow> redis_int (show_int n) = Some n"
  by (simp add: redis_int_def parse_int64_show_int)

lemma show_nat_eq [simp]: "show_nat m = show_nat n \<longleftrightarrow> m = n"
  by (metis digits_val_show_nat)

lemma show_nat_not_minus [simp]: "show_nat m \<noteq> CHR ''-'' # xs" "CHR ''-'' # xs \<noteq> show_nat m"
  using show_nat_digits[of m] by (auto simp: is_digit_def dest: sym)

lemma show_int_eq [simp]: "show_int a = show_int b \<longleftrightarrow> a = b"
  by (auto simp: show_int_def)

text \<open>A counter with an expiry, the only shape the scripts leave behind.\<close>

definition cell :: "int \<Rightarrow> time \<Rightarrow> redis_entry" where
  "cell n e = \<lparr>re_data = RString (show_int n), re_expires = Some e\<rparr>"

lemma cell_simps [simp]: "re_expires (cell n e) = Some e" "re_data (cell n e) = RString (show_int n)"
  by (simp_all add: cell_def)

lemma cell_eq [simp]: "cell n e = cell n' e' \<longleftrightarrow> n = n' \<and> e = e'"
  by (simp add: cell_def)

lemma cell_live: "r k = Some (cell n e) \<Longrightarrow> redis_live now r k = (if e \<le> now then None else Some (cell n e))"
  by (simp add: redis_live_def)

lemma incrby_cell:
  assumes "r k = Some (cell n e)" "now < e" "min_int64 \<le> n" "n \<le> max_int64" "min_int64 \<le> n + d"
  shows "redis_incrby d now k r =
    (if n + d > max_int64 then None else Some (n + d, r(k \<mapsto> cell (n + d) e)))"
  using assms by (simp add: redis_incrby_def cell_live) (simp add: cell_def)

end
