(* ===== verification/Limiter.thy ===== *)
theory Limiter
  imports Redis
begin

text \<open>
  Rate limits and session pins of the gateway (\<^verbatim>\<open>internal/gateway/limiter.go\<close>, \<^verbatim>\<open>sticky.go\<close>):
  the two Lua scripts as functions on Redis, the limiter around them and the pins.  The process
  clock, which names the minute, and Redis's own clock, which expires keys, are different
  arguments.  The lemmas show what ceiling the scripts keep, and for how long.
\<close>

section \<open>Scripts\<close>

datatype limit_error = ErrRateLimited | ErrTenantRateLimited | RedisUnavailable

text \<open>
  \<^verbatim>\<open>INCR\<close>, with the expiry set by whoever counts to one.  The script uses it for both keys; its
  third argument is two minutes in milliseconds.
\<close>

definition limitTTL :: int where
  "limitTTL = 2 * 60 * 1000"

definition bump :: "time \<Rightarrow> string \<Rightarrow> redis \<Rightarrow> (int \<times> redis) option" where
  "bump now k r =
     (case redis_incr now k r of
        None \<Rightarrow> None
      | Some (n, r') \<Rightarrow> Some (n, if n = 1 then redis_pexpire now k limitTTL r' else r'))"

text \<open>
  \<^verbatim>\<open>DECR\<close> whose result is ignored.  It cannot fail where the scripts use it: the key was counted up,
  or read as a number above one, just before.
\<close>

definition drop_one :: "time \<Rightarrow> string \<Rightarrow> redis \<Rightarrow> redis" where
  "drop_one now k r = (case redis_decr now k r of None \<Rightarrow> r | Some (n, r') \<Rightarrow> r')"

definition acquireScript :: "time \<Rightarrow> string \<Rightarrow> string \<Rightarrow> int \<Rightarrow> int \<Rightarrow> redis \<Rightarrow> int option \<times> redis" where
  "acquireScript now key rpmKey maxConcurrency rpm r =
     (case bump now key r of
        None \<Rightarrow> (None, r)
      | Some (concurrency, r1) \<Rightarrow>
          if maxConcurrency > 0 \<and> concurrency > maxConcurrency then (Some (- 1), drop_one now key r1)
          else if rpm > 0 then
            (case bump now rpmKey r1 of
               None \<Rightarrow> (None, r1)
             | Some (n, r2) \<Rightarrow> if n > rpm then (Some (- 2), drop_one now key r2) else (Some concurrency, r2))
          else (Some concurrency, r1))"

definition releaseScript :: "time \<Rightarrow> string \<Rightarrow> redis \<Rightarrow> redis" where
  "releaseScript now key r =
     (case redis_get now key r of
        Inl _ \<Rightarrow> r
      | Inr None \<Rightarrow> r
      | Inr (Some current) \<Rightarrow> (case redis_int current of
            None \<Rightarrow> r
          | Some n \<Rightarrow> if n \<le> 1 then redis_del key r else drop_one now key r))"

section \<open>The limiter\<close>

text \<open>
  How a call to Redis goes: there is no client, the command never ran, it ran and the answer was
  lost, or it was answered.
\<close>

datatype redis_conn = NoClient | NotRun | ReplyLost | Answered

text \<open>What the returned closure does: nothing, or give back the count of a key.\<close>

type_synonym release_fn = "string option"

abbreviation (input) noopRelease :: release_fn where
  "noopRelease \<equiv> None"

definition limiter_fallback :: "bool \<Rightarrow> limit_error + release_fn" where
  "limiter_fallback failOpen = (if failOpen then Inr noopRelease else Inl RedisUnavailable)"

definition acquireKeys ::
  "redis_conn \<Rightarrow> time \<Rightarrow> string \<Rightarrow> string \<Rightarrow> int \<Rightarrow> int \<Rightarrow> bool \<Rightarrow> redis \<Rightarrow> (limit_error + release_fn) \<times> redis"
where
  "acquireKeys conn rnow key rpmKey maxConcurrency rpm failOpen r =
     (case conn of
        NoClient \<Rightarrow> (limiter_fallback failOpen, r)
      | NotRun \<Rightarrow> (limiter_fallback failOpen, r)
      | ReplyLost \<Rightarrow> (limiter_fallback failOpen, snd (acquireScript rnow key rpmKey maxConcurrency rpm r))
      | Answered \<Rightarrow>
          (case acquireScript rnow key rpmKey maxConcurrency rpm r of
             (None, r') \<Rightarrow> (limiter_fallback failOpen, r')
           | (Some n, r') \<Rightarrow> (if n < 0 then Inl ErrRateLimited else Inr (Some key), r')))"

text \<open>The closure swallows its error: whether the script ran is an argument.\<close>

definition run_release :: "bool \<Rightarrow> time \<Rightarrow> release_fn \<Rightarrow> redis \<Rightarrow> redis" where
  "run_release sent rnow f r = (case f of Some key \<Rightarrow> if sent then releaseScript rnow key r else r | None \<Rightarrow> r)"

definition unix_minute :: "time \<Rightarrow> int" where
  "unix_minute now = unix_seconds now sdiv 60"

definition concurrency_key :: "string \<Rightarrow> string" where
  "concurrency_key accountID = ''gateway:concurrency:'' @ accountID"

definition rpm_key :: "string \<Rightarrow> int \<Rightarrow> string" where
  "rpm_key accountID minute = ''gateway:rpm:'' @ accountID @ '':'' @ show_int minute"

definition tenant_concurrency_key :: "string \<Rightarrow> string" where
  "tenant_concurrency_key tenantID = ''gateway:tenant:concurrency:'' @ tenantID"

definition tenant_rpm_key :: "string \<Rightarrow> int \<Rightarrow> string" where
  "tenant_rpm_key tenantID minute = ''gateway:tenant:rpm:'' @ tenantID @ '':'' @ show_int minute"

definition Limiter_Acquire ::
  "redis_conn \<Rightarrow> time \<Rightarrow> time \<Rightarrow> Lease \<Rightarrow> redis \<Rightarrow> (limit_error + release_fn) \<times> redis" where
  "Limiter_Acquire conn now rnow lease r =
     (let limits = WithDefaults (ls_Limits lease) in
      acquireKeys conn rnow (concurrency_key (ls_AccountID lease)) (rpm_key (ls_AccountID lease) (unix_minute now))
        (lim_MaxConcurrency limits) (lim_RPM limits) (lim_DegradePolicy limits = DegradeFailOpen) r)"

record TenantLimits =
  tl_MaxConcurrency :: int
  tl_RPM :: int

definition AcquireTenant ::
  "redis_conn \<Rightarrow> time \<Rightarrow> time \<Rightarrow> string \<Rightarrow> TenantLimits \<Rightarrow> redis \<Rightarrow> (limit_error + release_fn) \<times> redis" where
  "AcquireTenant conn now rnow tenantID limits r =
     (if tenantID = '''' \<or> tl_MaxConcurrency limits \<le> 0 \<and> tl_RPM limits \<le> 0 then (Inr noopRelease, r)
      else (case acquireKeys conn rnow (tenant_concurrency_key tenantID) (tenant_rpm_key tenantID (unix_minute now))
                  (tl_MaxConcurrency limits) (tl_RPM limits) False r of
          (Inl ErrRateLimited, r') \<Rightarrow> (Inl ErrTenantRateLimited, r')
        | res \<Rightarrow> res))"

section \<open>Session pins\<close>

definition stickyPrefix :: string where
  "stickyPrefix = ''gateway:sticky:''"

definition defaultStickyTTL :: duration where
  "defaultStickyTTL = 5 * 60 * second"

definition maxSessionKeyLen :: nat where
  "maxSessionKeyLen = 256"

text \<open>\<open>digest16\<close> is the hexadecimal form of the first sixteen bytes of SHA-256.\<close>

definition stickyKey :: "(string \<Rightarrow> string) \<Rightarrow> string \<Rightarrow> string \<Rightarrow> string" where
  "stickyKey digest16 tenantID sessionKey = stickyPrefix @ tenantID @ '':'' @ digest16 sessionKey"

definition Sticky_Lookup :: "(string \<Rightarrow> string) \<Rightarrow> redis_conn \<Rightarrow> time \<Rightarrow> string \<Rightarrow> string \<Rightarrow> redis \<Rightarrow> string" where
  "Sticky_Lookup digest16 conn rnow tenantID sessionKey r =
     (if conn = NoClient \<or> tenantID = '''' \<or> sessionKey = '''' then ''''
      else if conn \<noteq> Answered then ''''
      else (case redis_get rnow (stickyKey digest16 tenantID sessionKey) r of
          Inl _ \<Rightarrow> '''' | Inr None \<Rightarrow> '''' | Inr (Some v) \<Rightarrow> v))"

definition Sticky_Pin ::
  "(string \<Rightarrow> string) \<Rightarrow> redis_conn \<Rightarrow> time \<Rightarrow> string \<Rightarrow> string \<Rightarrow> string \<Rightarrow> duration \<Rightarrow> redis \<Rightarrow> redis" where
  "Sticky_Pin digest16 conn rnow tenantID sessionKey accountID ttl r =
     (if conn = NoClient \<or> tenantID = '''' \<or> sessionKey = '''' \<or> accountID = '''' then r
      else if conn = NotRun then r
      else redis_set rnow (stickyKey digest16 tenantID sessionKey) accountID
             (if ttl \<le> 0 then defaultStickyTTL else ttl) r)"

text \<open>
  The loop ranges over runes; bytes of a multi-byte rune, and an invalid byte, which reads as
  U+FFFD, are all at least \<^verbatim>\<open>0x80\<close>, so the test on bytes is the same.
\<close>

definition normalizeSessionKey :: "string \<Rightarrow> string option" where
  "normalizeSessionKey raw0 =
     (let raw = trim_space raw0 in
      if raw = '''' then Some ''''
      else if length raw > maxSessionKeyLen then None
      else if list_ex (\<lambda>c. (of_char c :: nat) < 32 \<or> (of_char c :: nat) = 127) raw then None
      else Some raw)"

section \<open>Keys do not collide\<close>

lemma append_last_separator:
  assumes "c \<notin> set v" "c \<notin> set v'"
  shows "u @ c # v = u' @ c # v' \<longleftrightarrow> u = u' \<and> v = v'"
proof -
  have last: "takeWhile (\<lambda>x. x \<noteq> c) (rev (w @ c # z)) = rev z" if "c \<notin> set z" for w z
    using that by (subst rev_append, simp, subst takeWhile_append2) auto
  have "v = v'" if "u @ c # v = u' @ c # v'" using last assms that by (metis rev_rev_ident)
  then show ?thesis by auto
qed

lemma show_int_no_colon: "CHR '':'' \<notin> set (show_int m)"
  using show_nat_digits[of "nat m"] show_nat_digits[of "nat (- m)"]
  by (auto simp: show_int_def list_all_iff is_digit_def)

text \<open>Who is limited, and under which keys.\<close>

datatype subject = OfAccount string | OfTenant string

fun ckey :: "subject \<Rightarrow> string" where
  "ckey (OfAccount a) = concurrency_key a"
| "ckey (OfTenant t) = tenant_concurrency_key t"

fun rkey :: "subject \<Rightarrow> int \<Rightarrow> string" where
  "rkey (OfAccount a) m = rpm_key a m"
| "rkey (OfTenant t) m = tenant_rpm_key t m"

lemmas key_defs = concurrency_key_def tenant_concurrency_key_def rpm_key_def tenant_rpm_key_def
  stickyKey_def stickyPrefix_def

lemma ckey_eq [simp]: "ckey s = ckey s' \<longleftrightarrow> s = s'"
  by (cases s; cases s') (simp_all add: key_defs)

lemma rkey_eq [simp]: "rkey s m = rkey s' m' \<longleftrightarrow> s = s' \<and> m = m'"
  by (cases s; cases s') (simp_all add: key_defs append_last_separator show_int_no_colon)

lemma keys_apart [simp]:
  "ckey s \<noteq> rkey s' m" "rkey s' m \<noteq> ckey s"
  "ckey s \<noteq> stickyKey h t k" "rkey s m \<noteq> stickyKey h t k" "stickyKey h t k \<noteq> ckey s" "stickyKey h t k \<noteq> rkey s m"
  by (cases s; cases s'; simp add: key_defs; fail)+

section \<open>What the scripts do to counters\<close>

definition counter_ok :: "redis \<Rightarrow> string \<Rightarrow> bool" where
  "counter_ok r k \<longleftrightarrow> r k = None \<or> (\<exists>n e. r k = Some (cell n e) \<and> 0 \<le> n \<and> n \<le> max_int64)"

definition level :: "time \<Rightarrow> redis \<Rightarrow> string \<Rightarrow> int" where
  "level now r k =
     (case redis_live now r k of
        Some e \<Rightarrow> (case re_data e of RString s \<Rightarrow> (case redis_int s of Some n \<Rightarrow> n | None \<Rightarrow> 0) | RHash h \<Rightarrow> 0)
      | None \<Rightarrow> 0)"

text \<open>The expiry of a key that is counted up now.\<close>

definition renewed :: "time \<Rightarrow> redis \<Rightarrow> string \<Rightarrow> time" where
  "renewed now r k =
     (if level now r k = 0 then now + limitTTL * 1000000
      else case r k of Some e \<Rightarrow> (case re_expires e of Some t \<Rightarrow> t | None \<Rightarrow> 0) | None \<Rightarrow> 0)"

lemma level_cell: "r k = Some (cell n e) \<Longrightarrow> 0 \<le> n \<Longrightarrow> n \<le> max_int64 \<Longrightarrow> level now r k = (if e \<le> now then 0 else n)"
  by (simp add: level_def cell_live min_int64_def)

lemma level_none: "r k = None \<Longrightarrow> level now r k = 0"
  by (simp add: level_def redis_live_def)

lemma counter_okE:
  assumes "counter_ok r k"
  obtains (absent) "redis_live now r k = None" "level now r k = 0"
  | (live) n e where "r k = Some (cell n e)" "now < e" "0 \<le> n" "n \<le> max_int64" "level now r k = n"
  using assms by (fastforce simp: counter_ok_def level_def cell_live redis_live_def min_int64_def)

lemma level_range: "counter_ok r k \<Longrightarrow> 0 \<le> level now r k \<and> level now r k \<le> max_int64"
  by (erule counter_okE[of r k now]) (auto simp: max_int64_def)

lemma bump_ok:
  assumes "counter_ok r k"
  shows "bump now k r =
    (if level now r k = max_int64 then None
     else Some (level now r k + 1, r(k \<mapsto> cell (level now r k + 1) (renewed now r k))))"
  using assms
proof (cases rule: counter_okE[where now = now])
  case absent
  then show ?thesis
    by (simp add: bump_def redis_incr_def redis_incrby_def redis_pexpire_def redis_live_def renewed_def max_int64_def)
      (simp add: cell_def)
next
  case (live n e)
  then show ?thesis
    by (auto simp: bump_def redis_incr_def incrby_cell redis_pexpire_def cell_live renewed_def min_int64_def cell_def)
qed

lemma renewed_later: "counter_ok r k \<Longrightarrow> now < renewed now r k"
  by (erule counter_okE[of r k now]) (auto simp: renewed_def limitTTL_def)

lemma drop_one_cell:
  "r k = Some (cell n e) \<Longrightarrow> now < e \<Longrightarrow> 1 \<le> n \<Longrightarrow> n \<le> max_int64 \<Longrightarrow>
     drop_one now k r = r(k \<mapsto> cell (n - 1) e)"
  by (simp add: drop_one_def redis_decr_def incrby_cell min_int64_def)

text \<open>One call counts one key up by at most one, and never past its ceiling.\<close>

definition took :: "time \<Rightarrow> string \<Rightarrow> redis \<Rightarrow> redis \<Rightarrow> int \<Rightarrow> bool" where
  "took now k r r' d \<longleftrightarrow> r' k = Some (cell (level now r k + d) (renewed now r k)) \<and> level now r k + d \<le> max_int64"

lemma acquireScript_eq:
  assumes "counter_ok r key" "counter_ok r rpmKey" "key \<noteq> rpmKey"
  shows "acquireScript now key rpmKey mc rpm r =
    (let l = level now r key; e = renewed now r key; m = level now r rpmKey;
         r1 = r(key \<mapsto> cell (l + 1) e); r2 = r1(rpmKey \<mapsto> cell (m + 1) (renewed now r rpmKey))
     in if l = max_int64 then (None, r)
        else if mc > 0 \<and> l + 1 > mc then (Some (- 1), r(key \<mapsto> cell l e))
        else if rpm > 0 then
          (if m = max_int64 then (None, r1)
           else if m + 1 > rpm then (Some (- 2), r2(key \<mapsto> cell l e)) else (Some (l + 1), r2))
        else (Some (l + 1), r1))"
proof -
  let ?l = "level now r key" and ?e = "renewed now r key"
  let ?r1 = "r(key \<mapsto> cell (?l + 1) ?e)"
  have l: "0 \<le> ?l" "?l \<le> max_int64" using level_range[OF assms(1)] by auto
  have e: "now < ?e" by (rule renewed_later[OF assms(1)])
  have rk: "counter_ok ?r1 rpmKey" "level now ?r1 rpmKey = level now r rpmKey" "renewed now ?r1 rpmKey = renewed now r rpmKey"
    using assms(2,3) by (auto simp: counter_ok_def level_def renewed_def redis_live_def)
  have drop1: "drop_one now key ?r1 = r(key \<mapsto> cell ?l ?e)" if "?l \<noteq> max_int64"
    using that l e drop_one_cell[of ?r1 key "?l + 1" ?e now] by simp
  have drop2: "drop_one now key (?r1(rpmKey \<mapsto> x)) = ?r1(rpmKey \<mapsto> x, key \<mapsto> cell ?l ?e)" if "?l \<noteq> max_int64" for x
    using that l e assms(3) drop_one_cell[of "?r1(rpmKey \<mapsto> x)" key "?l + 1" ?e now] by simp
  show ?thesis
    using drop1 drop2 by (simp add: acquireScript_def bump_ok[OF assms(1)] bump_ok[OF rk(1)] rk(2,3) Let_def)
qed

lemma acquireScript_effect:
  assumes "counter_ok r key" "counter_ok r rpmKey" "key \<noteq> rpmKey"
    and "acquireScript now key rpmKey mc rpm r = (res, r')"
  shows acquireScript_frame: "k \<noteq> key \<Longrightarrow> k \<noteq> rpmKey \<Longrightarrow> r' k = r k"
    and acquireScript_key: "r' key = r key \<or> took now key r r' 0 \<or>
      (took now key r r' 1 \<and> (mc > 0 \<longrightarrow> level now r key + 1 \<le> mc))"
    and acquireScript_rpm: "r' rpmKey = r rpmKey \<or> took now rpmKey r r' 1"
    and acquireScript_granted: "res = Some n \<Longrightarrow> 0 \<le> n \<Longrightarrow> took now key r r' 1 \<and>
      (mc > 0 \<longrightarrow> level now r key + 1 \<le> mc) \<and>
      (rpm > 0 \<longrightarrow> took now rpmKey r r' 1 \<and> level now r rpmKey + 1 \<le> rpm)"
  using assms(3,4) level_range[OF assms(1), of now] level_range[OF assms(2), of now]
  by (auto simp: acquireScript_eq[OF assms(1-3)] took_def Let_def split: if_splits)

lemma acquireKeys_script:
  assumes "acquireKeys conn now key rpmKey mc rpm fo r = (res, r')"
  obtains "r' = r" "res = limiter_fallback fo"
  | n where "acquireScript now key rpmKey mc rpm r = (n, r')"
      "res = limiter_fallback fo \<or> (\<exists>c. n = Some c \<and> 0 \<le> c \<and> res = Inr (Some key)) \<or> res = Inl ErrRateLimited"
  using assms
  by (cases conn; cases "acquireScript now key rpmKey mc rpm r")
    (auto simp: acquireKeys_def split: option.splits if_splits)

section \<open>Histories\<close>

text \<open>
  The gateways of a cluster share one Redis: any sequence of acquisitions, refusals, failures,
  releases and pins.  An account's leases carry its limits; the clock that names the minute is
  less than thirty seconds from Redis's clock.  The leases held and the grants given are
  recorded beside the store.
\<close>

record limiter_world =
  lw_redis :: redis
  lw_held :: "(subject \<times> release_fn) list"
  lw_granted :: "(subject \<times> int) list"
  lw_time :: time

definition answered :: "time \<Rightarrow> subject \<Rightarrow> int \<Rightarrow> limit_error + release_fn \<Rightarrow> redis \<Rightarrow> limiter_world \<Rightarrow> limiter_world" where
  "answered rnow s m res r' w =
     (case res of
        Inl _ \<Rightarrow> w\<lparr>lw_redis := r', lw_time := rnow\<rparr>
      | Inr f \<Rightarrow> w\<lparr>lw_redis := r', lw_held := (s, f) # lw_held w, lw_granted := (s, m) # lw_granted w, lw_time := rnow\<rparr>)"

definition clocks_agree :: "time \<Rightarrow> time \<Rightarrow> bool" where
  "clocks_agree now rnow \<longleftrightarrow> unix_epoch \<le> now \<and> \<bar>now - rnow\<bar> < 30 * second"

inductive limiter_history ::
  "(string \<Rightarrow> AccountLimits) \<Rightarrow> (string \<Rightarrow> TenantLimits) \<Rightarrow> time \<Rightarrow> limiter_world \<Rightarrow> bool"
  for acc ten start where
  boot: "limiter_history acc ten start \<lparr>lw_redis = Map.empty, lw_held = [], lw_granted = [], lw_time = start\<rparr>"
| account: "limiter_history acc ten start w \<Longrightarrow> lw_time w \<le> rnow \<Longrightarrow> clocks_agree now rnow \<Longrightarrow>
    ls_Limits lease = acc (ls_AccountID lease) \<Longrightarrow>
    Limiter_Acquire conn now rnow lease (lw_redis w) = (res, r') \<Longrightarrow>
    limiter_history acc ten start (answered rnow (OfAccount (ls_AccountID lease)) (unix_minute now) res r' w)"
| tenant: "limiter_history acc ten start w \<Longrightarrow> lw_time w \<le> rnow \<Longrightarrow> clocks_agree now rnow \<Longrightarrow>
    AcquireTenant conn now rnow t (ten t) (lw_redis w) = (res, r') \<Longrightarrow>
    limiter_history acc ten start (answered rnow (OfTenant t) (unix_minute now) res r' w)"
| give_back: "limiter_history acc ten start w \<Longrightarrow> lw_time w \<le> rnow \<Longrightarrow> (s, f) \<in> set (lw_held w) \<Longrightarrow>
    limiter_history acc ten start (w\<lparr>lw_redis := run_release sent rnow f (lw_redis w),
      lw_held := remove1 (s, f) (lw_held w), lw_time := rnow\<rparr>)"
| pin: "limiter_history acc ten start w \<Longrightarrow> lw_time w \<le> rnow \<Longrightarrow>
    limiter_history acc ten start (w\<lparr>lw_redis := Sticky_Pin h conn rnow t k a ttl (lw_redis w), lw_time := rnow\<rparr>)"

fun ceiling_of :: "(string \<Rightarrow> AccountLimits) \<Rightarrow> (string \<Rightarrow> TenantLimits) \<Rightarrow> subject \<Rightarrow> int" where
  "ceiling_of acc ten (OfAccount a) = lim_MaxConcurrency (acc a)"
| "ceiling_of acc ten (OfTenant t) = tl_MaxConcurrency (ten t)"

fun rate_of :: "(string \<Rightarrow> AccountLimits) \<Rightarrow> (string \<Rightarrow> TenantLimits) \<Rightarrow> subject \<Rightarrow> int" where
  "rate_of acc ten (OfAccount a) = lim_RPM (acc a)"
| "rate_of acc ten (OfTenant t) = tl_RPM (ten t)"

text \<open>Limits are kept without Redis: an account's unless it is fail-open, a tenant's always.\<close>

fun fail_closed :: "(string \<Rightarrow> AccountLimits) \<Rightarrow> subject \<Rightarrow> bool" where
  "fail_closed acc (OfAccount a) = (lim_DegradePolicy (acc a) \<noteq> DegradeFailOpen)"
| "fail_closed acc (OfTenant t) = (t \<noteq> '''')"

definition counters_ok :: "redis \<Rightarrow> bool" where
  "counters_ok r \<longleftrightarrow> (\<forall>s. counter_ok r (ckey s) \<and> (\<forall>m. counter_ok r (rkey s m)))"

text \<open>What any acquisition may do to the store, and must do to be granted.\<close>

definition take_effect ::
  "(string \<Rightarrow> AccountLimits) \<Rightarrow> (string \<Rightarrow> TenantLimits) \<Rightarrow> time \<Rightarrow> subject \<Rightarrow> int \<Rightarrow> limit_error + release_fn \<Rightarrow> redis \<Rightarrow> redis \<Rightarrow> bool"
where
  "take_effect acc ten rnow s m res r r' \<longleftrightarrow>
     (\<forall>k. k \<noteq> ckey s \<longrightarrow> k \<noteq> rkey s m \<longrightarrow> r' k = r k) \<and>
     (r' (ckey s) = r (ckey s) \<or> took rnow (ckey s) r r' 0 \<or>
       (took rnow (ckey s) r r' 1 \<and> (ceiling_of acc ten s > 0 \<longrightarrow> level rnow r (ckey s) + 1 \<le> ceiling_of acc ten s))) \<and>
     (r' (rkey s m) = r (rkey s m) \<or> took rnow (rkey s m) r r' 1) \<and>
     (\<forall>f. res = Inr f \<longrightarrow>
        (f \<noteq> None \<or> fail_closed acc s \<and> (ceiling_of acc ten s > 0 \<or> rate_of acc ten s > 0) \<longrightarrow>
          f = Some (ckey s) \<and> took rnow (ckey s) r r' 1 \<and>
          (ceiling_of acc ten s > 0 \<longrightarrow> level rnow r (ckey s) + 1 \<le> ceiling_of acc ten s) \<and>
          (rate_of acc ten s > 0 \<longrightarrow> took rnow (rkey s m) r r' 1 \<and> level rnow r (rkey s m) + 1 \<le> rate_of acc ten s)))"

lemma take_frame:
  "take_effect acc ten rnow s m res r r' \<Longrightarrow> k \<noteq> ckey s \<Longrightarrow> k \<noteq> rkey s m \<Longrightarrow> r' k = r k"
  unfolding take_effect_def by blast

lemma take_closure:
  assumes "take_effect acc ten rnow s m (Inr f) r r'"
  shows "(f = None \<or> f = Some (ckey s)) \<and> (fail_closed acc s \<longrightarrow> ceiling_of acc ten s > 0 \<longrightarrow> f \<noteq> None)"
  using assms unfolding take_effect_def by (cases f) blast+

lemma take_moves_key:
  assumes "take_effect acc ten rnow s m res r r'"
  shows "r' (ckey s) = r (ckey s) \<and> res \<noteq> Inr (Some (ckey s)) \<or>
    took rnow (ckey s) r r' 0 \<and> res \<noteq> Inr (Some (ckey s)) \<or>
    took rnow (ckey s) r r' 1 \<and> (ceiling_of acc ten s > 0 \<longrightarrow> level rnow r (ckey s) + 1 \<le> ceiling_of acc ten s)"
proof (cases "res = Inr (Some (ckey s))")
  case True
  then show ?thesis using assms unfolding take_effect_def by blast
next
  case False
  then show ?thesis using assms unfolding take_effect_def by blast
qed

lemma take_moves_rate:
  assumes "take_effect acc ten rnow s m res r r'" "fail_closed acc s" "rate_of acc ten s > 0"
  shows "r' (rkey s m) = r (rkey s m) \<and> isl res \<or>
    took rnow (rkey s m) r r' 1 \<and> (isl res \<or> level rnow r (rkey s m) + 1 \<le> rate_of acc ten s)"
proof (cases res)
  case (Inl e)
  then show ?thesis using assms(1) unfolding take_effect_def by force
next
  case (Inr f)
  then show ?thesis using assms unfolding take_effect_def by blast
qed

lemma acquireKeys_take_effect:
  assumes "counters_ok r"
    and "acquireKeys conn rnow (ckey s) (rkey s m) (ceiling_of acc ten s) (rate_of acc ten s) fo r = (res, r')"
    and "fail_closed acc s \<Longrightarrow> \<not> fo"
  shows "take_effect acc ten rnow s m res r r'"
  using assms(2)
proof (cases rule: acquireKeys_script)
  case 1
  then show ?thesis using assms(3) by (auto simp: take_effect_def limiter_fallback_def)
next
  case (2 n)
  have c: "counter_ok r (ckey s)" "counter_ok r (rkey s m)" "ckey s \<noteq> rkey s m"
    using assms(1) by (simp_all add: counters_ok_def)
  note eff = acquireScript_frame[OF c 2(1)] acquireScript_key[OF c 2(1)] acquireScript_rpm[OF c 2(1)]
    acquireScript_granted[OF c 2(1)]
  from 2(2) consider "res = limiter_fallback fo" | k where "n = Some k" "0 \<le> k" "res = Inr (Some (ckey s))"
    | "res = Inl ErrRateLimited" by blast
  then show ?thesis
  proof cases
    case 1
    then show ?thesis using eff(1-3) assms(3) by (auto simp: take_effect_def limiter_fallback_def)
  next
    case (2 k)
    then show ?thesis using eff(1-3) eff(4)[OF 2(1,2)] by (auto simp: take_effect_def)
  next
    case 3
    then show ?thesis using eff(1-3) by (auto simp: take_effect_def)
  qed
qed

lemma WithDefaults_simps [simp]:
  "lim_MaxConcurrency (WithDefaults l) = lim_MaxConcurrency l" "lim_RPM (WithDefaults l) = lim_RPM l"
  "lim_DegradePolicy (WithDefaults l) = DegradeFailOpen \<longleftrightarrow> lim_DegradePolicy l = DegradeFailOpen"
  by (simp_all add: WithDefaults_def)

lemma account_take_effect:
  assumes "counters_ok r" "ls_Limits lease = acc (ls_AccountID lease)"
    and "Limiter_Acquire conn now rnow lease r = (res, r')"
  shows "take_effect acc ten rnow (OfAccount (ls_AccountID lease)) (unix_minute now) res r r'"
proof (rule acquireKeys_take_effect[OF assms(1)])
  show "acquireKeys conn rnow (ckey (OfAccount (ls_AccountID lease))) (rkey (OfAccount (ls_AccountID lease)) (unix_minute now))
      (ceiling_of acc ten (OfAccount (ls_AccountID lease))) (rate_of acc ten (OfAccount (ls_AccountID lease)))
      (lim_DegradePolicy (WithDefaults (ls_Limits lease)) = DegradeFailOpen) r = (res, r')"
    using assms(2,3) by (simp add: Limiter_Acquire_def Let_def)
  show "\<not> lim_DegradePolicy (WithDefaults (ls_Limits lease)) = DegradeFailOpen"
    if "fail_closed acc (OfAccount (ls_AccountID lease))"
    using that assms(2) by simp
qed

lemma tenant_take_effect:
  assumes "counters_ok r" and "AcquireTenant conn now rnow t (ten t) r = (res, r')"
  shows "take_effect acc ten rnow (OfTenant t) (unix_minute now) res r r'"
proof (cases "t = '''' \<or> tl_MaxConcurrency (ten t) \<le> 0 \<and> tl_RPM (ten t) \<le> 0")
  case True
  then show ?thesis using assms(2) by (auto simp: AcquireTenant_def take_effect_def)
next
  case False
  obtain res0 r0 where k: "acquireKeys conn rnow (ckey (OfTenant t)) (rkey (OfTenant t) (unix_minute now))
      (ceiling_of acc ten (OfTenant t)) (rate_of acc ten (OfTenant t)) False r = (res0, r0)" by fastforce
  have eff: "take_effect acc ten rnow (OfTenant t) (unix_minute now) res0 r r0"
    by (rule acquireKeys_take_effect[OF assms(1) k]) simp
  have "r' = r0" "res = res0 \<or> (\<exists>e. res = Inl e)"
    using assms(2) k False by (auto simp: AcquireTenant_def split: prod.splits sum.splits limit_error.splits)
  then show ?thesis using eff by (auto simp: take_effect_def)
qed

lemma run_release_frame: "f = None \<or> f = Some key \<Longrightarrow> k \<noteq> key \<Longrightarrow> run_release sent rnow f r k = r k"
  by (auto simp: run_release_def releaseScript_def drop_one_def redis_decr_def redis_incrby_def redis_del_def
      split: option.splits sum.splits redis_data.splits if_splits)

lemma run_release_cell:
  assumes "r key = Some (cell n e)" "rnow < e" "0 \<le> n" "n \<le> max_int64"
  shows "run_release True rnow (Some key) r = (if n \<le> 1 then r(key := None) else r(key \<mapsto> cell (n - 1) e))"
  using assms by (simp add: run_release_def releaseScript_def redis_get_def cell_live redis_int_show min_int64_def
      redis_del_def drop_one_cell)

lemma run_release_expired:
  "r key = Some (cell n e) \<Longrightarrow> e \<le> rnow \<Longrightarrow> run_release sent rnow (Some key) r = r"
  "r key = None \<Longrightarrow> run_release sent rnow (Some key) r = r"
  by (simp_all add: run_release_def releaseScript_def redis_get_def redis_live_def)


section \<open>Invariants of a history\<close>

definition held_by :: "subject \<Rightarrow> limiter_world \<Rightarrow> int" where
  "held_by s w = int (length (filter (\<lambda>(s', f). s' = s) (lw_held w)))"

definition counted_for :: "subject \<Rightarrow> limiter_world \<Rightarrow> int" where
  "counted_for s w = int (count_list (lw_held w) (s, Some (ckey s)))"

definition granted_in :: "subject \<Rightarrow> int \<Rightarrow> limiter_world \<Rightarrow> int" where
  "granted_in s m w = int (count_list (lw_granted w) (s, m))"

abbreviation two_minutes :: duration where
  "two_minutes \<equiv> limitTTL * 1000000"

definition closures_inv :: "(string \<Rightarrow> AccountLimits) \<Rightarrow> (string \<Rightarrow> TenantLimits) \<Rightarrow> limiter_world \<Rightarrow> bool" where
  "closures_inv acc ten w \<longleftrightarrow> (\<forall>(s, f) \<in> set (lw_held w). (f = None \<or> f = Some (ckey s)) \<and>
     (fail_closed acc s \<longrightarrow> ceiling_of acc ten s > 0 \<longrightarrow> f \<noteq> None))"

definition ceiling_inv :: "(string \<Rightarrow> AccountLimits) \<Rightarrow> (string \<Rightarrow> TenantLimits) \<Rightarrow> time \<Rightarrow> limiter_world \<Rightarrow> bool" where
  "ceiling_inv acc ten start w \<longleftrightarrow> lw_time w < start + two_minutes \<longrightarrow>
     (\<forall>s. lw_redis w (ckey s) = None \<and> counted_for s w = 0 \<or>
       (\<exists>n e. lw_redis w (ckey s) = Some (cell n e) \<and> counted_for s w \<le> n \<and> start + two_minutes \<le> e \<and>
          (ceiling_of acc ten s > 0 \<longrightarrow> n \<le> ceiling_of acc ten s)))"

text \<open>A minute's counter outlives the minute by thirty seconds, whatever the skew.\<close>

definition minute_end :: "int \<Rightarrow> time" where
  "minute_end m = unix_epoch + (60 * m + 90) * second"

definition rate_inv :: "(string \<Rightarrow> AccountLimits) \<Rightarrow> (string \<Rightarrow> TenantLimits) \<Rightarrow> limiter_world \<Rightarrow> bool" where
  "rate_inv acc ten w \<longleftrightarrow> (\<forall>s m. fail_closed acc s \<longrightarrow> rate_of acc ten s > 0 \<longrightarrow>
     lw_redis w (rkey s m) = None \<and> granted_in s m w = 0 \<or>
     (\<exists>n e. lw_redis w (rkey s m) = Some (cell n e) \<and> 1 \<le> n \<and> granted_in s m w \<le> n \<and>
        granted_in s m w \<le> rate_of acc ten s \<and> minute_end m \<le> e))"

definition limits_inv :: "(string \<Rightarrow> AccountLimits) \<Rightarrow> (string \<Rightarrow> TenantLimits) \<Rightarrow> time \<Rightarrow> limiter_world \<Rightarrow> bool" where
  "limits_inv acc ten start w \<longleftrightarrow> start \<le> lw_time w \<and> counters_ok (lw_redis w) \<and> closures_inv acc ten w \<and>
     ceiling_inv acc ten start w \<and> rate_inv acc ten w"

lemma counters_okD: "counters_ok r \<Longrightarrow> counter_ok r (ckey s)" "counters_ok r \<Longrightarrow> counter_ok r (rkey s m)"
  by (simp_all add: counters_ok_def)

lemma took_counter_ok: "counter_ok r k \<Longrightarrow> took now k r r' d \<Longrightarrow> 0 \<le> d \<Longrightarrow> counter_ok r' k"
  using level_range[of r k now] by (auto simp: took_def counter_ok_def)

lemma counter_ok_same: "r' k = r k \<Longrightarrow> counter_ok r k \<Longrightarrow> counter_ok r' k"
  by (simp add: counter_ok_def)

lemma take_counters_ok:
  assumes "counters_ok r" "take_effect acc ten rnow s m res r r'"
  shows "counters_ok r'"
proof -
  have frame: "k \<noteq> ckey s \<Longrightarrow> k \<noteq> rkey s m \<Longrightarrow> r' k = r k" for k using assms(2) by (simp add: take_effect_def)
  have ok: "counter_ok r (ckey s)" "counter_ok r (rkey s m)" using assms(1) by (simp_all add: counters_ok_def)
  have c: "counter_ok r' (ckey s)"
    using assms(2) took_counter_ok[OF ok(1)] counter_ok_same[OF _ ok(1)] unfolding take_effect_def by fastforce
  have d: "counter_ok r' (rkey s m)"
    using assms(2) took_counter_ok[OF ok(2)] counter_ok_same[OF _ ok(2)] unfolding take_effect_def by fastforce
  show ?thesis
    unfolding counters_ok_def
  proof (intro allI conjI)
    fix s' m'
    show "counter_ok r' (ckey s')"
      using c counter_ok_same[of r' "ckey s'" r] frame[of "ckey s'"] counters_okD(1)[OF assms(1)] by (cases "s' = s") simp_all
    show "counter_ok r' (rkey s' m')"
      using d counter_ok_same[of r' "rkey s' m'" r] frame[of "rkey s' m'"] counters_okD(2)[OF assms(1)] by (cases "s' = s \<and> m' = m") auto
  qed
qed

lemma answered_simps [simp]:
  "lw_redis (answered rnow s m res r' w) = r'" "lw_time (answered rnow s m res r' w) = rnow"
  by (simp_all add: answered_def split: sum.splits)

lemma answered_counts:
  "counted_for s' (answered rnow s m res r' w) = counted_for s' w + (if s' = s \<and> res = Inr (Some (ckey s)) then 1 else 0)"
  "granted_in s' m' (answered rnow s m res r' w) = granted_in s' m' w + (if s' = s \<and> m' = m \<and> \<not> isl res then 1 else 0)"
  by (auto simp: answered_def counted_for_def granted_in_def split: sum.splits)

lemma took_level:
  assumes "r k = Some (cell n e)" "0 \<le> n" "n \<le> max_int64" "rnow < e" "took rnow k r r' d"
  shows "r' k = Some (cell (n + d) (if n = 0 then rnow + two_minutes else e))" "level rnow r k = n"
  using assms by (auto simp: took_def level_cell renewed_def)

lemma took_level_none: "r k = None \<Longrightarrow> took rnow k r r' d \<Longrightarrow> r' k = Some (cell d (rnow + two_minutes))"
  by (simp add: took_def level_none renewed_def)


lemma counters_cell:
  assumes "counter_ok r k" "r k = Some (cell n e)"
  shows "0 \<le> n \<and> n \<le> max_int64"
  using assms by (auto simp: counter_ok_def)

lemma take_closures:
  assumes "closures_inv acc ten w" "take_effect acc ten rnow s m res (lw_redis w) r'"
  shows "closures_inv acc ten (answered rnow s m res r' w)"
proof (cases res)
  case (Inl e)
  then show ?thesis using assms(1) by (simp add: closures_inv_def answered_def)
next
  case (Inr f)
  then show ?thesis using assms(1) take_closure assms(2) by (fastforce simp: closures_inv_def answered_def)
qed

lemma take_ceiling:
  assumes "counters_ok (lw_redis w)" "ceiling_inv acc ten start w" "start \<le> lw_time w" "lw_time w \<le> rnow"
    and eff: "take_effect acc ten rnow s m res (lw_redis w) r'"
  shows "ceiling_inv acc ten start (answered rnow s m res r' w)"
  unfolding ceiling_inv_def answered_simps
proof (intro impI allI)
  let ?r = "lw_redis w" and ?c = "\<lambda>s. counted_for s w" and ?w = "answered rnow s m res r' w"
  fix s' assume t: "rnow < start + two_minutes"
  have inv: "?r (ckey s') = None \<and> ?c s' = 0 \<or>
      (\<exists>n e. ?r (ckey s') = Some (cell n e) \<and> ?c s' \<le> n \<and> start + two_minutes \<le> e \<and>
        (ceiling_of acc ten s' > 0 \<longrightarrow> n \<le> ceiling_of acc ten s'))"
    using assms(2,4) t by (simp add: ceiling_inv_def)
  show "r' (ckey s') = None \<and> counted_for s' ?w = 0 \<or>
      (\<exists>n e. r' (ckey s') = Some (cell n e) \<and> counted_for s' ?w \<le> n \<and> start + two_minutes \<le> e \<and>
        (ceiling_of acc ten s' > 0 \<longrightarrow> n \<le> ceiling_of acc ten s'))"
  proof (cases "s' = s")
    case False
    then have "r' (ckey s') = ?r (ckey s')" using take_frame[OF eff] by simp
    then show ?thesis using inv False by (simp add: answered_counts)
  next
    case True
    have cnt: "counted_for s' ?w = ?c s' + (if res = Inr (Some (ckey s)) then 1 else 0)"
      using True by (simp add: answered_counts)
    note moves = take_moves_key[OF eff]
    from inv consider "?r (ckey s) = None" "?c s = 0"
      | n e where "?r (ckey s) = Some (cell n e)" "?c s \<le> n" "start + two_minutes \<le> e"
          "ceiling_of acc ten s > 0 \<longrightarrow> n \<le> ceiling_of acc ten s" using True by auto
    then show ?thesis
    proof cases
      case 1
      then show ?thesis using moves True cnt t assms(3,4)
        by (auto simp: took_level_none level_none)
    next
      case (2 n e)
      then have n: "0 \<le> n" "n \<le> max_int64" using counters_cell[OF counters_okD(1)[OF assms(1)]] by blast+
      have live: "rnow < e" using t 2 by simp
      note tl = took_level[of ?r "ckey s", OF 2(1) n live]
      from moves show ?thesis
      proof (elim disjE conjE)
        assume "took rnow (ckey s) ?r r' 1" "ceiling_of acc ten s > 0 \<longrightarrow> level rnow ?r (ckey s) + 1 \<le> ceiling_of acc ten s"
        then show ?thesis using 2 tl[of r' 1] True cnt assms(3,4) by auto
      next
        assume "took rnow (ckey s) ?r r' 0" "res \<noteq> Inr (Some (ckey s))"
        then show ?thesis using 2 tl[of r' 0] True cnt assms(3,4) by auto
      qed (use 2 True cnt in auto)
    qed
  qed
qed

lemma minute_bounds:
  assumes "clocks_agree now rnow"
  shows "rnow < minute_end (unix_minute now)" "minute_end (unix_minute now) \<le> rnow + two_minutes"
proof -
  define t where "t = now - unix_epoch"
  have t: "0 \<le> t" using assms by (simp add: t_def clocks_agree_def)
  have "unix_seconds now = t div second" by (simp add: t_def unix_seconds_def unix_epoch_def second_def)
  then have u: "unix_minute now = t div second div 60"
    using t by (simp add: unix_minute_def sdiv_nonneg second_def pos_imp_zdiv_nonneg_iff)
  have "t div second div 60 = t div (second * 60)" by (simp add: second_def zdiv_zmult2_eq)
  then have "t = (second * 60) * unix_minute now + t mod (second * 60)" using u by simp
  moreover have "0 \<le> t mod (second * 60)" "t mod (second * 60) < second * 60" by (simp_all add: second_def)
  ultimately show "rnow < minute_end (unix_minute now)" "minute_end (unix_minute now) \<le> rnow + two_minutes"
    using assms by (auto simp: minute_end_def clocks_agree_def second_def limitTTL_def t_def)
qed

lemma take_rate:
  assumes "counters_ok (lw_redis w)" "rate_inv acc ten w" "clocks_agree now rnow"
    and eff: "take_effect acc ten rnow s (unix_minute now) res (lw_redis w) r'"
  shows "rate_inv acc ten (answered rnow s (unix_minute now) res r' w)"
  unfolding rate_inv_def answered_simps
proof (intro impI allI)
  let ?m = "unix_minute now" and ?r = "lw_redis w"
  fix s' m' assume en: "fail_closed acc s'" "rate_of acc ten s' > 0"
  let ?g = "granted_in s' m' w" and ?g' = "granted_in s' m' (answered rnow s ?m res r' w)"
  have inv: "?r (rkey s' m') = None \<and> ?g = 0 \<or> (\<exists>n e. ?r (rkey s' m') = Some (cell n e) \<and> 1 \<le> n \<and> ?g \<le> n \<and>
      ?g \<le> rate_of acc ten s' \<and> minute_end m' \<le> e)"
    using assms(2) en by (simp add: rate_inv_def)
  show "r' (rkey s' m') = None \<and> ?g' = 0 \<or> (\<exists>n e. r' (rkey s' m') = Some (cell n e) \<and> 1 \<le> n \<and> ?g' \<le> n \<and>
      ?g' \<le> rate_of acc ten s' \<and> minute_end m' \<le> e)"
  proof (cases "s' = s \<and> m' = ?m")
    case False
    then have "r' (rkey s' m') = ?r (rkey s' m')" using take_frame[OF eff] by auto
    then show ?thesis using inv False by (auto simp: answered_counts)
  next
    case True
    have g: "?g' = ?g + (if isl res then 0 else 1)" using True by (simp add: answered_counts)
    have moves: "r' (rkey s ?m) = ?r (rkey s ?m) \<and> isl res \<or> took rnow (rkey s ?m) ?r r' 1 \<and>
        (isl res \<or> level rnow ?r (rkey s ?m) + 1 \<le> rate_of acc ten s)"
      using take_moves_rate[OF eff] en True by blast
    have mb: "rnow < minute_end m'" "minute_end m' \<le> rnow + two_minutes" using minute_bounds[OF assms(3)] True by auto
    from inv consider "?r (rkey s ?m) = None" "?g = 0" | n e where "?r (rkey s ?m) = Some (cell n e)" "1 \<le> n" "?g \<le> n"
        "?g \<le> rate_of acc ten s" "minute_end m' \<le> e" using True by auto
    then show ?thesis
    proof cases
      case 1
      then show ?thesis using moves True g mb en by (auto simp: took_level_none level_none)
    next
      case (2 n e)
      then have n: "0 \<le> n" "n \<le> max_int64" using counters_cell[OF counters_okD(2)[OF assms(1)]] by auto
      have live: "rnow < e" using mb 2 by simp
      from moves show ?thesis
      proof (elim disjE)
        assume "took rnow (rkey s ?m) ?r r' 1 \<and> (isl res \<or> level rnow ?r (rkey s ?m) + 1 \<le> rate_of acc ten s)"
        then show ?thesis using took_level[of ?r "rkey s ?m", OF 2(1) n live, of r' 1] 2 True g by auto
      qed (use 2 True g in auto)
    qed
  qed
qed


lemma count_remove1: "x \<in> set xs \<Longrightarrow> count_list (remove1 x xs) y = count_list xs y - (if x = y then 1 else 0)"
  by (induction xs) (auto simp: count_list_0_iff)

lemma count_member: "x \<in> set xs \<Longrightarrow> 0 < count_list xs x"
  using count_list_0_iff[of xs x] by auto

lemma give_back_inv:
  assumes "limits_inv acc ten start w" "lw_time w \<le> rnow" "(s, f) \<in> set (lw_held w)"
  shows "limits_inv acc ten start (w\<lparr>lw_redis := run_release sent rnow f (lw_redis w),
    lw_held := remove1 (s, f) (lw_held w), lw_time := rnow\<rparr>)" (is "limits_inv acc ten start ?w")
proof -
  let ?r = "lw_redis w" and ?r' = "run_release sent rnow f (lw_redis w)"
  have inv: "start \<le> lw_time w" "counters_ok ?r" "closures_inv acc ten w" "ceiling_inv acc ten start w" "rate_inv acc ten w"
    using assms(1) by (simp_all add: limits_inv_def)
  have f: "f = None \<or> f = Some (ckey s)" using inv(3) assms(3) by (auto simp: closures_inv_def)
  have frame: "k \<noteq> ckey s \<Longrightarrow> ?r' k = ?r k" for k using run_release_frame[OF f] by simp
  have ok: "counter_ok ?r (ckey s)" using inv(2) by (rule counters_okD)
  have step: "?r' (ckey s) = ?r (ckey s) \<or> (f \<noteq> None \<and> (\<exists>n e. ?r (ckey s) = Some (cell n e) \<and> rnow < e \<and>
      ?r' (ckey s) = (if n \<le> 1 then None else Some (cell (n - 1) e))))"
  proof (cases "sent \<and> f \<noteq> None")
    case False
    then have "?r' = ?r" by (cases f) (auto simp: run_release_def)
    then show ?thesis by simp
  next
    case True
    then have sf: "sent = True" "f = Some (ckey s)" using f by auto
    from ok show ?thesis
    proof (cases rule: counter_okE[where now = rnow])
      case absent
      then show ?thesis using sf by (simp add: run_release_def releaseScript_def redis_get_def)
    next
      case (live n e)
      then show ?thesis using sf run_release_cell[of ?r "ckey s" n e rnow] by auto
    qed
  qed
  have "counter_ok ?r' (ckey s)" using step ok by (auto simp: counter_ok_def split: if_splits)
  moreover have "counter_ok ?r' (ckey s')" if "s' \<noteq> s" for s'
    using counter_ok_same[of ?r' "ckey s'" ?r] frame that inv(2) by (simp add: counters_okD)
  moreover have "counter_ok ?r' (rkey s' m)" for s' m
    using counter_ok_same[of ?r' "rkey s' m" ?r] frame inv(2) by (simp add: counters_okD)
  ultimately have "counters_ok ?r'" unfolding counters_ok_def by metis
  moreover have "closures_inv acc ten ?w"
    using inv(3) set_remove1_subset[of "(s, f)" "lw_held w"] by (auto simp: closures_inv_def)
  moreover have "rate_inv acc ten ?w" using inv(5) frame by (simp add: rate_inv_def granted_in_def)
  moreover have "ceiling_inv acc ten start ?w"
    unfolding ceiling_inv_def
  proof (intro impI allI)
    fix s' assume t: "lw_time ?w < start + two_minutes"
    let ?ok = "\<lambda>r c. r (ckey s') = None \<and> c = 0 \<or> (\<exists>n e. r (ckey s') = Some (cell n e) \<and> c \<le> n \<and>
        start + two_minutes \<le> e \<and> (ceiling_of acc ten s' > 0 \<longrightarrow> n \<le> ceiling_of acc ten s'))"
    have old: "?ok ?r (counted_for s' w)" using inv(4) assms(2) t by (simp add: ceiling_inv_def)
    have cnt: "counted_for s' ?w = counted_for s' w - (if (s, f) = (s', Some (ckey s')) then 1 else 0)"
      using count_remove1[OF assms(3)] count_member[OF assms(3)] by (auto simp: counted_for_def)
    have low: "0 \<le> counted_for s' ?w" by (simp add: counted_for_def)
    show "?ok (lw_redis ?w) (counted_for s' ?w)"
    proof (cases "s' = s")
      case False
      then show ?thesis using old frame[of "ckey s'"] cnt by simp
    next
      case True
      then show ?thesis using old step cnt low f t by (auto split: if_splits)
    qed
  qed
  ultimately show ?thesis using inv(1) assms(2) by (simp add: limits_inv_def)
qed

lemma pin_inv:
  assumes "limits_inv acc ten start w" "lw_time w \<le> rnow"
  shows "limits_inv acc ten start (w\<lparr>lw_redis := Sticky_Pin h conn rnow t k a ttl (lw_redis w), lw_time := rnow\<rparr>)"
proof -
  let ?r' = "Sticky_Pin h conn rnow t k a ttl (lw_redis w)"
  have frame: "?r' (ckey s) = lw_redis w (ckey s)" "?r' (rkey s m) = lw_redis w (rkey s m)" for s m
    by (auto simp: Sticky_Pin_def redis_set_def)
  then have "counters_ok ?r'" using assms(1) by (simp add: limits_inv_def counters_ok_def counter_ok_def)
  then show ?thesis using assms frame
    by (auto simp: limits_inv_def closures_inv_def ceiling_inv_def rate_inv_def counted_for_def granted_in_def)
qed

lemma take_inv:
  assumes "limits_inv acc ten start w" "lw_time w \<le> rnow" "clocks_agree now rnow"
    and "take_effect acc ten rnow s (unix_minute now) res (lw_redis w) r'"
  shows "limits_inv acc ten start (answered rnow s (unix_minute now) res r' w)"
  using assms take_counters_ok take_closures take_ceiling take_rate
  unfolding limits_inv_def answered_simps by (meson order_trans)

lemma limiter_history_inv: "limiter_history acc ten start w \<Longrightarrow> limits_inv acc ten start w"
proof (induction rule: limiter_history.induct)
  case boot
  show ?case by (simp add: limits_inv_def counters_ok_def counter_ok_def closures_inv_def ceiling_inv_def
      rate_inv_def counted_for_def granted_in_def)
next
  case (account w rnow now lease conn res r')
  then show ?case by (blast intro: take_inv account_take_effect dest: limits_inv_def[THEN iffD1])
next
  case (tenant w rnow now conn t res r')
  then show ?case by (blast intro: take_inv tenant_take_effect dest: limits_inv_def[THEN iffD1])
next
  case (give_back w rnow s f sent)
  then show ?case by (blast intro: give_back_inv)
next
  case (pin w rnow h conn t k a ttl)
  then show ?case by (blast intro: pin_inv)
qed

lemma held_counted:
  assumes "closures_inv acc ten w" "fail_closed acc s" "ceiling_of acc ten s > 0"
  shows "held_by s w = counted_for s w"
proof -
  have "length (filter (\<lambda>(s', f). s' = s) xs) = count_list xs (s, Some (ckey s))"
    if "\<forall>(s', f) \<in> set xs. (f = None \<or> f = Some (ckey s')) \<and>
      (fail_closed acc s' \<longrightarrow> ceiling_of acc ten s' > 0 \<longrightarrow> f \<noteq> None)" for xs
    using that assms(2,3) by (induction xs) auto
  then show ?thesis using assms(1) by (simp add: held_by_def counted_for_def closures_inv_def)
qed


section \<open>Properties\<close>

text \<open>Below its limits a lease is granted, where Redis answers.\<close>

lemma below_limits_granted:
  assumes "counters_ok r" "lim_RPM (ls_Limits lease) \<le> 0"
    and "level rnow r (concurrency_key (ls_AccountID lease)) < lim_MaxConcurrency (ls_Limits lease)"
    and "lim_MaxConcurrency (ls_Limits lease) \<le> max_int64"
  shows "Limiter_Acquire Answered now rnow lease r =
    (Inr (Some (concurrency_key (ls_AccountID lease))),
     r(concurrency_key (ls_AccountID lease) \<mapsto> cell (level rnow r (concurrency_key (ls_AccountID lease)) + 1)
         (renewed rnow r (concurrency_key (ls_AccountID lease)))))"
proof -
  have c: "counter_ok r (concurrency_key (ls_AccountID lease))"
    using counters_okD(1)[OF assms(1), of "OfAccount (ls_AccountID lease)"] by simp
  have d: "counter_ok r (rpm_key (ls_AccountID lease) (unix_minute now))"
    using counters_okD(2)[OF assms(1), of "OfAccount (ls_AccountID lease)"] by simp
  have k: "concurrency_key (ls_AccountID lease) \<noteq> rpm_key (ls_AccountID lease) (unix_minute now)"
    using keys_apart(1)[of "OfAccount (ls_AccountID lease)" "OfAccount (ls_AccountID lease)"] by simp
  show ?thesis using assms(2-4) level_range[OF c, of rnow]
    by (simp add: Limiter_Acquire_def Let_def acquireKeys_def acquireScript_eq[OF c d k])
qed

text \<open>
  C27.  Limits hold across every gateway of the cluster.  Whatever the interleaving of
  acquisitions, refusals, lost answers, releases that never arrive and pins, a fail-closed
  account, and every tenant, is granted at most its RPM leases in any one minute, even where the
  clocks differ by up to thirty seconds; and in the first two minutes it never has more
  leases outstanding than its concurrency ceiling.
\<close>

theorem limits_hold:
  assumes "limiter_history acc ten start w" and "fail_closed acc s"
  shows "(rate_of acc ten s > 0 \<longrightarrow> granted_in s m w \<le> rate_of acc ten s) \<and>
    (ceiling_of acc ten s > 0 \<longrightarrow> lw_time w < start + two_minutes \<longrightarrow> held_by s w \<le> ceiling_of acc ten s)"
proof -
  have inv: "closures_inv acc ten w" "ceiling_inv acc ten start w" "rate_inv acc ten w"
    using limiter_history_inv[OF assms(1)] by (simp_all add: limits_inv_def)
  have "granted_in s m w \<le> rate_of acc ten s" if "rate_of acc ten s > 0"
    using inv(3) assms(2) that unfolding rate_inv_def by force
  moreover have "held_by s w \<le> ceiling_of acc ten s" if "ceiling_of acc ten s > 0" "lw_time w < start + two_minutes"
  proof -
    have "counted_for s w \<le> ceiling_of acc ten s" using inv(2) that unfolding ceiling_inv_def by force
    then show ?thesis using held_counted[OF inv(1) assms(2) that(1)] by simp
  qed
  ultimately show ?thesis by simp
qed

text \<open>An account that takes two requests at a time, and its leases over three minutes.\<close>

definition pair_limits :: AccountLimits where
  "pair_limits = \<lparr>lim_MaxConcurrency = 2, lim_RPM = 0, lim_StickyTTL = 0, lim_DegradePolicy = ''''\<rparr>"

definition pair_lease :: Lease where
  "pair_lease = \<lparr>ls_AccountID = ''a'', ls_Provider = ''claude'',
     ls_Credential = \<lparr>cred_Kind = ''oauth'', cred_AccessToken = ''t'', cred_Proxy = '''',
       cred_Metadata = [], cred_ExpiresAt = 0, cred_Version = 1\<rparr>,
     ls_Profile = \<lparr>pf_BaseURL = ''https://x'', pf_Proxy = '''', pf_Protocol = '''',
       pf_InferencePath = '''', pf_TLSFingerprint = '''', pf_UserAgent = '''', pf_ExtraHeaders = [],
       pf_Metadata = [], pf_WS = False\<rparr>,
     ls_Limits = pair_limits, ls_TTL = 0, ls_UsageIntegrity = ''failover''\<rparr>"

lemma pair_counters_ok: "0 \<le> n \<Longrightarrow> n \<le> max_int64 \<Longrightarrow> counters_ok [concurrency_key ''a'' \<mapsto> cell n e]"
  by (auto simp: counters_ok_def counter_ok_def)

lemma counters_ok_empty: "counters_ok Map.empty"
  by (simp add: counters_ok_def counter_ok_def)

lemma pair_grant:
  assumes "limiter_history (\<lambda>_. pair_limits) ten unix_epoch w" "lw_time w \<le> t" "unix_epoch \<le> t"
    and "lw_redis w = Map.empty \<and> n = 0 \<or> lw_redis w = [concurrency_key ''a'' \<mapsto> cell k e] \<and>
      n = (if e \<le> t then 0 else k) \<and> 0 \<le> k \<and> k \<le> max_int64" "n < 2"
  shows "\<exists>w'. limiter_history (\<lambda>_. pair_limits) ten unix_epoch w' \<and> lw_time w' = t \<and>
    lw_redis w' = [concurrency_key ''a'' \<mapsto> cell (n + 1) (if n = 0 then t + two_minutes else e)] \<and>
    lw_held w' = (OfAccount ''a'', Some (concurrency_key ''a'')) # lw_held w"
proof -
  have ok: "counters_ok (lw_redis w)" using assms(4) pair_counters_ok counters_ok_empty by auto
  have lv: "level t (lw_redis w) (concurrency_key ''a'') = n" using assms(4) by (auto simp: level_none level_cell)
  have rn: "renewed t (lw_redis w) (concurrency_key ''a'') = (if n = 0 then t + two_minutes else e)"
    using assms(4) lv by (auto simp: renewed_def)
  have "Limiter_Acquire Answered t t pair_lease (lw_redis w) = (Inr (Some (concurrency_key ''a'')),
      (lw_redis w)(concurrency_key ''a'' \<mapsto> cell (n + 1) (if n = 0 then t + two_minutes else e)))"
    using below_limits_granted[OF ok, of pair_lease t t] lv rn assms(5)
    by (simp add: pair_lease_def pair_limits_def max_int64_def)
  from limiter_history.account[OF assms(1,2) _ _ this]
  have "limiter_history (\<lambda>_. pair_limits) ten unix_epoch (answered t (OfAccount ''a'') (unix_minute t)
      (Inr (Some (concurrency_key ''a''))) ((lw_redis w)(concurrency_key ''a'' \<mapsto> cell (n + 1) (if n = 0 then t + two_minutes else e))) w)"
    using assms(3) by (simp add: clocks_agree_def second_def pair_lease_def)
  moreover have "(lw_redis w)(concurrency_key ''a'' \<mapsto> c) = [concurrency_key ''a'' \<mapsto> c]" for c
    using assms(4) by auto
  ultimately show ?thesis by (intro exI conjI) (assumption, simp_all add: answered_def)
qed

lemma pair_history:
  "\<exists>w. limiter_history (\<lambda>_. pair_limits) ten unix_epoch w \<and> lw_time w = unix_epoch + 100 * second \<and>
     lw_redis w = [concurrency_key ''a'' \<mapsto> cell 2 (unix_epoch + two_minutes)] \<and>
     lw_held w = replicate 2 (OfAccount ''a'', Some (concurrency_key ''a''))"
proof -
  let ?w0 = "\<lparr>lw_redis = Map.empty, lw_held = [], lw_granted = [], lw_time = unix_epoch\<rparr>"
  from pair_grant[OF limiter_history.boot, where t = unix_epoch and n = 0 and ten = ten]
  obtain w1 where w1: "limiter_history (\<lambda>_. pair_limits) ten unix_epoch w1" "lw_time w1 = unix_epoch"
    "lw_redis w1 = [concurrency_key ''a'' \<mapsto> cell 1 (unix_epoch + two_minutes)]"
    "lw_held w1 = [(OfAccount ''a'', Some (concurrency_key ''a''))]" by auto
  from pair_grant[OF w1(1), where t = "unix_epoch + 100 * second" and n = 1 and k = 1 and e = "unix_epoch + two_minutes"] w1
  show ?thesis by (auto simp: second_def limitTTL_def max_int64_def numeral_2_eq_2)
qed

theorem limits_hold_witness:
  "\<exists>w. limiter_history (\<lambda>_. pair_limits) (\<lambda>_. \<lparr>tl_MaxConcurrency = 0, tl_RPM = 0\<rparr>) unix_epoch w \<and>
     held_by (OfAccount ''a'') w = 2 \<and> held_by (OfAccount ''a'') w \<le> lim_MaxConcurrency pair_limits"
proof -
  obtain w where w: "limiter_history (\<lambda>_. pair_limits) (\<lambda>_. \<lparr>tl_MaxConcurrency = 0, tl_RPM = 0\<rparr>) unix_epoch w"
    "lw_time w = unix_epoch + 100 * second" "lw_held w = replicate 2 (OfAccount ''a'', Some (concurrency_key ''a''))"
    using pair_history by blast
  with limits_hold[OF w(1), of "OfAccount ''a''"] show ?thesis
    by (intro exI[of _ w]) (simp add: pair_limits_def held_by_def second_def limitTTL_def)
qed

text \<open>
  The ceiling lapses.  The concurrency key is given two minutes when it is first counted to
  one and is not renewed while leases overlap: an account limited to two requests at a time, with
  leases of less than two minutes each, ends up with three outstanding.
\<close>

theorem ceiling_lapses:
  "\<exists>w. limiter_history (\<lambda>_. pair_limits) ten unix_epoch w \<and> lw_time w = unix_epoch + 122 * second \<and>
     held_by (OfAccount ''a'') w = 3 \<and> ceiling_of (\<lambda>_. pair_limits) ten (OfAccount ''a'') = 2"
proof -
  let ?k = "concurrency_key ''a''"
  obtain w2 where w2: "limiter_history (\<lambda>_. pair_limits) ten unix_epoch w2" "lw_time w2 = unix_epoch + 100 * second"
    "lw_redis w2 = [?k \<mapsto> cell 2 (unix_epoch + two_minutes)]" "lw_held w2 = replicate 2 (OfAccount ''a'', Some ?k)"
    using pair_history by blast
  let ?w3 = "w2\<lparr>lw_redis := run_release True (unix_epoch + 110 * second) (Some ?k) (lw_redis w2),
    lw_held := remove1 (OfAccount ''a'', Some ?k) (lw_held w2), lw_time := unix_epoch + 110 * second\<rparr>"
  have w3: "limiter_history (\<lambda>_. pair_limits) ten unix_epoch ?w3"
    using limiter_history.give_back[OF w2(1), of "unix_epoch + 110 * second"] w2 by (simp add: second_def)
  have r3: "lw_redis ?w3 = [?k \<mapsto> cell 1 (unix_epoch + two_minutes)]"
    using run_release_cell[of "lw_redis w2" ?k 2 "unix_epoch + two_minutes" "unix_epoch + 110 * second"] w2(3)
    by (simp add: second_def limitTTL_def max_int64_def)
  from pair_grant[OF w3, where t = "unix_epoch + 121 * second" and n = 0 and k = 1 and e = "unix_epoch + two_minutes"] r3
  obtain w4 where w4: "limiter_history (\<lambda>_. pair_limits) ten unix_epoch w4" "lw_time w4 = unix_epoch + 121 * second"
    "lw_redis w4 = [?k \<mapsto> cell 1 (unix_epoch + 121 * second + two_minutes)]"
    "lw_held w4 = replicate 2 (OfAccount ''a'', Some ?k)"
    by (auto simp: second_def limitTTL_def max_int64_def w2(4) numeral_2_eq_2)
  from pair_grant[OF w4(1), where t = "unix_epoch + 122 * second" and n = 1 and k = 1 and e = "unix_epoch + 121 * second + two_minutes"] w4
  obtain w5 where "limiter_history (\<lambda>_. pair_limits) ten unix_epoch w5" "lw_time w5 = unix_epoch + 122 * second"
    "lw_held w5 = replicate 3 (OfAccount ''a'', Some ?k)"
    by (auto simp: second_def limitTTL_def max_int64_def numeral_3_eq_3 numeral_2_eq_2)
  then show ?thesis by (intro exI[of _ w5]) (simp add: held_by_def pair_limits_def)
qed

lemma stickyKey_tenants:
  assumes "\<And>x. length (h x) = 32"
  shows "stickyKey h t k = stickyKey h t' k' \<longleftrightarrow> t = t' \<and> h k = h k'"
  using append_eq_append_conv[of t t' "CHR '':'' # h k" "CHR '':'' # h k'"] assms by (simp add: stickyKey_def)

text \<open>
  A session stays with its account and stays private.  A pin is read back until its time to
  live has passed and not after; it never shows up under another tenant, whatever session keys
  the two clients choose.  The digest is only assumed to have thirty-two characters, as sixteen
  bytes in hexadecimal do.
\<close>

theorem pins_are_private:
  assumes "\<And>x. length (h x) = 32" and "t \<noteq> ''''" "k \<noteq> ''''" "a \<noteq> ''''"
  shows "(rnow \<le> later \<longrightarrow> Sticky_Lookup h Answered later t k (Sticky_Pin h Answered rnow t k a ttl r) =
      (if later < rnow + (if ttl \<le> 0 then defaultStickyTTL else ttl) then a else '''')) \<and>
    (t' \<noteq> t \<longrightarrow> Sticky_Lookup h conn later t' k' (Sticky_Pin h conn' rnow t k a ttl r) =
      Sticky_Lookup h conn later t' k' r)"
  using assms(2-4)
  by (auto simp: Sticky_Lookup_def Sticky_Pin_def redis_set_def redis_get_def redis_live_def stickyKey_tenants[OF assms(1)])

theorem pins_are_private_witness:
  "Sticky_Lookup (\<lambda>_. replicate 32 CHR ''f'') Answered 7 ''acme'' ''s''
     (Sticky_Pin (\<lambda>_. replicate 32 CHR ''f'') Answered 5 ''acme'' ''s'' ''acc-1'' 0 Map.empty) = ''acc-1''"
  using pins_are_private[of "\<lambda>_. replicate 32 CHR ''f''" "''acme''" "''s''" "''acc-1''" 5 7 0 Map.empty]
  by (simp add: defaultStickyTTL_def second_def)


end
