(* ===== verification/TenantAuth.thy ===== *)
theory TenantAuth
  imports Limiter Money
begin

text \<open>
  Who may use the gateway.  Control keeps tenants, principals and tokens in PostgreSQL
  (\<^verbatim>\<open>internal/control/tenants.go\<close>) and publishes the active tokens to Redis
  (\<^verbatim>\<open>internal/snapshot/auth.go\<close>); the gateway loads them and authenticates requests against its copy
  (\<^verbatim>\<open>internal/gateway/auth.go\<close>), and the router turns the verdict into a status
  (\<^verbatim>\<open>internal/gateway/run.go\<close>).  The JSON of a token record and the token digest are arguments.  The
  lemmas follow a token from the row that control wrote to the request the gateway admits.
\<close>

section \<open>Control's tables\<close>

record tenant_row =
  tn_name :: string
  tn_status :: string
  tn_max_concurrency :: int
  tn_rpm :: int

record principal_row =
  pn_tenant_id :: string
  pn_status :: string

record token_row =
  tk_id :: string
  tk_tenant_id :: string
  tk_principal_id :: string
  tk_token_hash :: string
  tk_group :: string
  tk_status :: string
  tk_expires_at :: "time option"
  tk_revoked_at :: "time option"

record identity_db =
  id_tenants :: "(string, tenant_row) gomap"
  id_principals :: "(string, principal_row) gomap"
  id_tokens :: "token_row list"

record TokenRecord =
  tr_TokenID :: string
  tr_TenantID :: string
  tr_PrincipalID :: string
  tr_Group :: string
  tr_ExpiresAt :: time
  tr_MaxConcurrency :: int
  tr_RPM :: int
  tr_BillingBlocked :: bool

definition TokenRecord_Validate :: "TokenRecord \<Rightarrow> bool" where
  "TokenRecord_Validate r \<longleftrightarrow>
     \<not> is_blank (tr_TokenID r) \<and> \<not> is_blank (tr_TenantID r) \<and> \<not> is_blank (tr_PrincipalID r) \<and>
     \<not> is_blank (tr_Group r) \<and> \<not> (tr_MaxConcurrency r < 0 \<or> tr_RPM r < 0)"

text \<open>The rows of the query: a token with its tenant and its principal, all of them active.\<close>

definition active_token :: "time \<Rightarrow> identity_db \<Rightarrow> token_row \<Rightarrow> bool" where
  "active_token now idb k \<longleftrightarrow>
     tk_status k = ''active'' \<and> tk_revoked_at k = None \<and>
     (case map_of (id_tenants idb) (tk_tenant_id k) of Some t \<Rightarrow> tn_status t = ''active'' | None \<Rightarrow> False) \<and>
     (case map_of (id_principals idb) (tk_principal_id k) of Some p \<Rightarrow> pn_status p = ''active'' | None \<Rightarrow> False) \<and>
     (case tk_expires_at k of None \<Rightarrow> True | Some e \<Rightarrow> e > pg_time now)"

definition billing_blocked :: "(string, wallet_row) gomap \<Rightarrow> string \<Rightarrow> bool" where
  "billing_blocked wallets tenantID \<longleftrightarrow>
     (case map_of wallets tenantID of None \<Rightarrow> False | Some w \<Rightarrow> tw_balance w \<le> 0)"

definition token_record :: "identity_db \<Rightarrow> (string, wallet_row) gomap \<Rightarrow> token_row \<Rightarrow> TokenRecord" where
  "token_record idb wallets k =
     (let t = map_of (id_tenants idb) (tk_tenant_id k) in
      \<lparr>tr_TokenID = tk_id k, tr_TenantID = tk_tenant_id k, tr_PrincipalID = tk_principal_id k,
       tr_Group = tk_group k, tr_ExpiresAt = (case tk_expires_at k of None \<Rightarrow> 0 | Some e \<Rightarrow> e),
       tr_MaxConcurrency = (case t of Some row \<Rightarrow> tn_max_concurrency row | None \<Rightarrow> 0),
       tr_RPM = (case t of Some row \<Rightarrow> tn_rpm row | None \<Rightarrow> 0),
       tr_BillingBlocked = billing_blocked wallets (tk_tenant_id k)\<rparr>)"

datatype auth_error = DatabaseFailure | InvalidArgument | EntropyFailure | ForeignPrincipal | DuplicateToken
  | NilRedis | InvalidTokenRecord | BadTokenHash | JSONFailure | RedisFailure

definition ListActiveTokens ::
  "bool \<Rightarrow> time \<Rightarrow> identity_db \<Rightarrow> (string, wallet_row) gomap \<Rightarrow> auth_error + (string, TokenRecord) gomap" where
  "ListActiveTokens fault now idb wallets =
     (if fault then Inl DatabaseFailure
      else Inr (fold (\<lambda>k. AList.update (tk_token_hash k) (token_record idb wallets k))
                  (filter (active_token now idb) (id_tokens idb)) []))"

section \<open>Minting a token\<close>

record TenantLimitSpec =
  sp_MaxConcurrency :: "int option"
  sp_RPM :: "int option"

definition HashToken :: "(string \<Rightarrow> string) \<Rightarrow> string \<Rightarrow> string" where
  "HashToken sha256_hex raw = sha256_hex raw"

text \<open>The statements of the transaction; a conflicting insert of a tenant or principal is ignored.\<close>

definition ensure_tenant :: "string \<Rightarrow> string \<Rightarrow> identity_db \<Rightarrow> identity_db" where
  "ensure_tenant tenantID name idb =
     (if map_of (id_tenants idb) tenantID \<noteq> None then idb
      else idb\<lparr>id_tenants := AList.update tenantID
        \<lparr>tn_name = name, tn_status = ''active'', tn_max_concurrency = 0, tn_rpm = 0\<rparr> (id_tenants idb)\<rparr>)"

definition set_limits :: "string \<Rightarrow> TenantLimitSpec \<Rightarrow> identity_db \<Rightarrow> identity_db" where
  "set_limits tenantID limits idb =
     (case map_of (id_tenants idb) tenantID of
        None \<Rightarrow> idb
      | Some t \<Rightarrow> idb\<lparr>id_tenants := AList.update tenantID
          (t\<lparr>tn_max_concurrency := (case sp_MaxConcurrency limits of None \<Rightarrow> tn_max_concurrency t | Some n \<Rightarrow> n),
             tn_rpm := (case sp_RPM limits of None \<Rightarrow> tn_rpm t | Some n \<Rightarrow> n)\<rparr>) (id_tenants idb)\<rparr>)"

definition ensure_principal :: "string \<Rightarrow> string \<Rightarrow> identity_db \<Rightarrow> identity_db" where
  "ensure_principal principalID tenantID idb =
     (if map_of (id_principals idb) principalID \<noteq> None then idb
      else idb\<lparr>id_principals := AList.update principalID
        \<lparr>pn_tenant_id = tenantID, pn_status = ''active''\<rparr> (id_principals idb)\<rparr>)"

definition insert_token :: "token_row \<Rightarrow> identity_db \<Rightarrow> auth_error + identity_db" where
  "insert_token k idb =
     (if list_ex (\<lambda>k'. tk_id k' = tk_id k \<or> tk_token_hash k' = tk_token_hash k) (id_tokens idb) then Inl DuplicateToken
      else Inr (idb\<lparr>id_tokens := id_tokens idb @ [k]\<rparr>))"

definition negative :: "int option \<Rightarrow> bool" where
  "negative n = (case n of None \<Rightarrow> False | Some i \<Rightarrow> i < 0)"

definition too_wide :: "int option \<Rightarrow> bool" where
  "too_wide n = (case n of None \<Rightarrow> False | Some i \<Rightarrow> \<not> int4 i)"

text \<open>
  \<open>secret\<close> and \<open>idBytes\<close> are the hexadecimal forms of the random bytes, absent where reading them
  failed.  An error anywhere rolls the transaction back.
\<close>

definition CreateTenantTokenWithLimits ::
  "(string \<Rightarrow> string) \<Rightarrow> bool \<Rightarrow> string option \<Rightarrow> string option \<Rightarrow> string \<Rightarrow> string \<Rightarrow> string \<Rightarrow> string \<Rightarrow> time option \<Rightarrow>
   TenantLimitSpec \<Rightarrow> identity_db \<Rightarrow> auth_error + (string \<times> string \<times> identity_db)"
where
  "CreateTenantTokenWithLimits sha256_hex fault secret idBytes tenantID0 tenantName principalID0 group0 expiresAt limits idb =
     (let tenantID = trim_space tenantID0; principalID = trim_space principalID0; group1 = trim_space group0;
          grp = (if group1 = '''' then ''default'' else group1)
      in if tenantID = '''' \<or> principalID = '''' then Inl InvalidArgument
      else if length tenantID > 128 \<or> length principalID > 128 \<or> length grp > 128 then Inl InvalidArgument
      else case (secret, idBytes) of
          (None, _) \<Rightarrow> Inl EntropyFailure
        | (_, None) \<Rightarrow> Inl EntropyFailure
        | (Some sec, Some ib) \<Rightarrow>
          (let rawToken = ''gwt_'' @ sec; hash = HashToken sha256_hex rawToken; tokenID = ''token-'' @ ib;
               idb1 = ensure_tenant tenantID (if tenantName = '''' then tenantID else tenantName) idb;
               limited = (sp_MaxConcurrency limits \<noteq> None \<or> sp_RPM limits \<noteq> None)
           in if fault then Inl DatabaseFailure
           else if limited \<and> (negative (sp_MaxConcurrency limits) \<or> negative (sp_RPM limits)) then Inl InvalidArgument
           else if limited \<and> (too_wide (sp_MaxConcurrency limits) \<or> too_wide (sp_RPM limits)) then Inl DatabaseFailure
           else
             (let idb2 = (if limited then set_limits tenantID limits idb1 else idb1);
                  idb3 = ensure_principal principalID tenantID idb2
              in case map_of (id_principals idb3) principalID of
                  None \<Rightarrow> Inl DatabaseFailure
                | Some p \<Rightarrow>
                    if pn_tenant_id p \<noteq> tenantID then Inl ForeignPrincipal
                    else (case insert_token \<lparr>tk_id = tokenID, tk_tenant_id = tenantID, tk_principal_id = principalID,
                              tk_token_hash = hash, tk_group = grp, tk_status = ''active'',
                              tk_expires_at = map_option pg_time expiresAt, tk_revoked_at = None\<rparr> idb3 of
                        Inl e \<Rightarrow> Inl e
                      | Inr idb4 \<Rightarrow> Inr (tokenID, rawToken, idb4)))))"

definition CreateTenantToken ::
  "(string \<Rightarrow> string) \<Rightarrow> bool \<Rightarrow> string option \<Rightarrow> string option \<Rightarrow> string \<Rightarrow> string \<Rightarrow> string \<Rightarrow> string \<Rightarrow> time option \<Rightarrow>
   identity_db \<Rightarrow> auth_error + (string \<times> string \<times> identity_db)"
where
  "CreateTenantToken sha256_hex fault secret idBytes tenantID tenantName principalID grp expiresAt idb =
     CreateTenantTokenWithLimits sha256_hex fault secret idBytes tenantID tenantName principalID grp expiresAt
       \<lparr>sp_MaxConcurrency = None, sp_RPM = None\<rparr> idb"

section \<open>Publishing and loading\<close>

definition TokenKey :: string where
  "TokenKey = ''snap:auth:tokens:v1''"

text \<open>
  The transaction sets the staging hash and renames it over the live one.  A failed command, or
  a lost answer, is reported, and the staging key is deleted.
\<close>

definition publish_tx :: "time \<Rightarrow> string \<Rightarrow> (string \<times> string) list \<Rightarrow> redis \<Rightarrow> bool \<times> redis" where
  "publish_tx rnow staging vals r =
     (let set = redis_hset rnow staging vals r;
          r1 = (case set of None \<Rightarrow> r | Some r' \<Rightarrow> r');
          ren = redis_rename rnow staging TokenKey r1;
          r2 = (case ren of None \<Rightarrow> r1 | Some r' \<Rightarrow> r')
      in (set \<noteq> None \<and> ren \<noteq> None, r2))"

definition PublishTokens ::
  "(TokenRecord \<Rightarrow> string option) \<Rightarrow> redis_conn \<Rightarrow> time \<Rightarrow> string option \<Rightarrow> string \<Rightarrow> (string, TokenRecord) gomap \<Rightarrow>
   redis \<Rightarrow> (auth_error + unit) \<times> redis"
where
  "PublishTokens marshal conn rnow nonce publishedAt records r =
     (if conn = NoClient then (Inl NilRedis, r)
      else case nonce of
          None \<Rightarrow> (Inl EntropyFailure, r)
        | Some n \<Rightarrow>
          (let staging = TokenKey @ '':staging:'' @ n in
           if \<not> list_all (\<lambda>(hash, record). TokenRecord_Validate record) records then (Inl InvalidTokenRecord, r)
           else if \<not> list_all (\<lambda>(hash, record). length hash = 64) records then (Inl BadTokenHash, r)
           else if \<not> list_all (\<lambda>(hash, record). marshal record \<noteq> None) records then (Inl JSONFailure, r)
           else
             (let vals = (''__published_at'', publishedAt) # map (\<lambda>(hash, record). (hash, the (marshal record))) records
              in case conn of
                  Answered \<Rightarrow> (case publish_tx rnow staging vals r of
                      (True, r') \<Rightarrow> (Inr (), r')
                    | (False, r') \<Rightarrow> (Inl RedisFailure, redis_del staging r'))
                | ReplyLost \<Rightarrow> (Inl RedisFailure, redis_del staging (snd (publish_tx rnow staging vals r)))
                | _ \<Rightarrow> (Inl RedisFailure, r))))"

fun decode_tokens :: "(string \<Rightarrow> TokenRecord option) \<Rightarrow> (string \<times> string) list \<Rightarrow> auth_error + (string, TokenRecord) gomap" where
  "decode_tokens unmarshal [] = Inr []"
| "decode_tokens unmarshal ((hash, raw) # rest) =
     (if has_prefix hash ''__'' then decode_tokens unmarshal rest
      else case unmarshal raw of
          None \<Rightarrow> Inl JSONFailure
        | Some record \<Rightarrow>
            if \<not> TokenRecord_Validate record then Inl InvalidTokenRecord
            else (case decode_tokens unmarshal rest of
                Inl e \<Rightarrow> Inl e
              | Inr records \<Rightarrow> Inr ((hash, record) # records)))"

definition LoadTokens ::
  "(string \<Rightarrow> TokenRecord option) \<Rightarrow> redis_conn \<Rightarrow> time \<Rightarrow> redis \<Rightarrow> auth_error + (string, TokenRecord) gomap" where
  "LoadTokens unmarshal conn rnow r =
     (if conn = NoClient then Inl NilRedis
      else if conn \<noteq> Answered then Inl RedisFailure
      else (case redis_hgetall rnow TokenKey r of
          Inl _ \<Rightarrow> Inl RedisFailure
        | Inr values \<Rightarrow> decode_tokens unmarshal values))"

text \<open>The control loop: list, publish.\<close>

definition TokenLoop_RunOnce ::
  "(TokenRecord \<Rightarrow> string option) \<Rightarrow> bool \<Rightarrow> redis_conn \<Rightarrow> time \<Rightarrow> time \<Rightarrow> string option \<Rightarrow> string \<Rightarrow> identity_db \<Rightarrow>
   (string, wallet_row) gomap \<Rightarrow> redis \<Rightarrow> (auth_error + (string, TokenRecord) gomap) \<times> redis"
where
  "TokenLoop_RunOnce marshal fault conn now rnow nonce publishedAt idb wallets r =
     (if conn = NoClient then (Inl NilRedis, r)
      else case ListActiveTokens fault now idb wallets of
          Inl e \<Rightarrow> (Inl e, r)
        | Inr records \<Rightarrow>
            (case PublishTokens marshal conn rnow nonce publishedAt records r of
               (Inl e, r') \<Rightarrow> (Inl e, r')
             | (Inr _, r') \<Rightarrow> (Inr records, r')))"

text \<open>The gauges: tenants refused for lack of money, and prepaid tenants without a rate limit.\<close>

definition blocked_tenants :: "(string, TokenRecord) gomap \<Rightarrow> string list" where
  "blocked_tenants records = remdups (map (tr_TenantID \<circ> snd) (filter (tr_BillingBlocked \<circ> snd) records))"

definition UncappedWalletTenants :: "bool \<Rightarrow> identity_db \<Rightarrow> (string, wallet_row) gomap \<Rightarrow> auth_error + string list" where
  "UncappedWalletTenants fault idb wallets =
     (if fault then Inl DatabaseFailure
      else Inr (sort (map fst (filter (\<lambda>(t, row). tn_status row = ''active'' \<and> tn_rpm row = 0 \<and>
             map_of wallets t \<noteq> None) (id_tenants idb)))))"

section \<open>The gateway's authenticator\<close>

record AuthContext =
  ax_TenantID :: string
  ax_PrincipalID :: string
  ax_TokenID :: string
  ax_Group :: string
  ax_Limits :: TenantLimits
  ax_BillingBlocked :: bool
  ax_SessionKey :: string

record Authenticator =
  au_records :: "(string, TokenRecord) gomap"
  au_loaded :: bool

definition NewAuthenticator :: Authenticator where
  "NewAuthenticator = \<lparr>au_records = [], au_loaded = False\<rparr>"

definition Authenticator_Refresh ::
  "(string \<Rightarrow> TokenRecord option) \<Rightarrow> redis_conn \<Rightarrow> time \<Rightarrow> redis \<Rightarrow> Authenticator \<Rightarrow> (auth_error + unit) \<times> Authenticator"
where
  "Authenticator_Refresh unmarshal conn rnow r a =
     (case LoadTokens unmarshal conn rnow r of
        Inl e \<Rightarrow> (Inl e, a)
      | Inr records \<Rightarrow> (Inr (), a\<lparr>au_records := records, au_loaded := True\<rparr>))"

definition Authenticator_Replace :: "(string, TokenRecord) gomap \<Rightarrow> Authenticator \<Rightarrow> Authenticator" where
  "Authenticator_Replace records a = a\<lparr>au_records := records, au_loaded := True\<rparr>"

text \<open>The only failure is \<^verbatim>\<open>ErrUnauthorized\<close>.\<close>

definition Authenticate :: "(string \<Rightarrow> string) \<Rightarrow> time \<Rightarrow> string \<Rightarrow> Authenticator \<Rightarrow> AuthContext option" where
  "Authenticate sha256_hex now raw0 a =
     (let raw = trim_space raw0 in
      if raw = '''' then None
      else case map_of (au_records a) (HashToken sha256_hex raw) of
          None \<Rightarrow> None
        | Some record \<Rightarrow>
            if \<not> is_zero_time (tr_ExpiresAt record) \<and> \<not> tr_ExpiresAt record > now then None
            else Some \<lparr>ax_TenantID = tr_TenantID record, ax_PrincipalID = tr_PrincipalID record,
              ax_TokenID = tr_TokenID record,
              ax_Group = (if tr_Group record = '''' then ''default'' else tr_Group record),
              ax_Limits = \<lparr>tl_MaxConcurrency = tr_MaxConcurrency record, tl_RPM = tr_RPM record\<rparr>,
              ax_BillingBlocked = tr_BillingBlocked record, ax_SessionKey = ''''\<rparr>)"

text \<open>\<open>Header.Get\<close> answers the empty string for a missing header.\<close>

definition AuthenticateRequest :: "(string \<Rightarrow> string) \<Rightarrow> time \<Rightarrow> string \<Rightarrow> string \<Rightarrow> Authenticator \<Rightarrow> AuthContext option" where
  "AuthenticateRequest sha256_hex now authorization apiKey a =
     (if has_prefix (to_lower authorization) ''bearer '' then Authenticate sha256_hex now (drop 7 authorization) a
      else if authorization = '''' then Authenticate sha256_hex now apiKey a
      else None)"

text \<open>The middleware of every inference route: refused with a status, or handed on.\<close>

definition router_middleware ::
  "(string \<Rightarrow> string) \<Rightarrow> time \<Rightarrow> string \<Rightarrow> string \<Rightarrow> string \<Rightarrow> Authenticator \<Rightarrow> int + AuthContext" where
  "router_middleware sha256_hex now authorization apiKey sessionHeader a =
     (case AuthenticateRequest sha256_hex now authorization apiKey a of
        None \<Rightarrow> Inl 401
      | Some ax \<Rightarrow>
          if ax_BillingBlocked ax then Inl 402
          else (case normalizeSessionKey sessionHeader of
              None \<Rightarrow> Inl 400
            | Some sk \<Rightarrow> Inr (ax\<lparr>ax_SessionKey := sk\<rparr>)))"

section \<open>Trimmed text\<close>

lemma trim_left_None: "find (\<lambda>p. p \<noteq> [] \<and> has_prefix s p) seqs = None \<Longrightarrow> trim_left seqs s = s"
  and trim_left_Some: "find (\<lambda>p. p \<noteq> [] \<and> has_prefix s p) seqs = Some p \<Longrightarrow>
    trim_left seqs s = trim_left seqs (drop (length p) s)"
  by (subst trim_left.simps, simp)+

lemma trim_left_suffix: "\<exists>u. s = u @ trim_left seqs s"
proof (induction seqs s rule: trim_left.induct)
  case (1 seqs s)
  show ?case
  proof (cases "find (\<lambda>p. p \<noteq> [] \<and> has_prefix s p) seqs")
    case (Some p)
    with "1.IH"[OF Some] obtain u where "drop (length p) s = u @ trim_left seqs (drop (length p) s)" by auto
    then have "s = (take (length p) s @ u) @ trim_left seqs s"
      by (metis append.assoc append_take_drop_id trim_left_Some[OF Some])
    then show ?thesis by blast
  qed (simp add: trim_left_None)
qed

lemma trim_left_done: "p \<in> set seqs \<Longrightarrow> p \<noteq> [] \<Longrightarrow> \<not> has_prefix (trim_left seqs s) p"
proof (induction seqs s rule: trim_left.induct)
  case (1 seqs s)
  show ?case
  proof (cases "find (\<lambda>p. p \<noteq> [] \<and> has_prefix s p) seqs")
    case None
    then show ?thesis using "1.prems" trim_left_None[OF None] by (auto simp: find_None_iff)
  next
    case (Some q)
    then show ?thesis using "1.IH"[OF Some] "1.prems" trim_left_Some[OF Some] by simp
  qed
qed

lemma has_prefix_append: "has_prefix s p \<Longrightarrow> has_prefix (s @ t) p"
  unfolding has_prefix_def by (metis append_eq_conv_conj append_take_drop_id append.assoc)

lemma trim_space_idem [simp]: "trim_space (trim_space s) = trim_space s"
proof -
  let ?l = "trim_left space_seqs s" and ?right = "map rev space_seqs"
  have "\<exists>u. rev ?l = u @ rev (trim_space s)"
    using trim_left_suffix[of "rev ?l" ?right] by (simp add: trim_space_def)
  then obtain v where v: "?l = trim_space s @ v" by (metis rev_append rev_rev_ident)
  have "\<not> has_prefix (trim_space s) p" if "p \<in> set space_seqs" "p \<noteq> []" for p
    using trim_left_done[OF that, of s] has_prefix_append[of "trim_space s" p v] v by auto
  then have "trim_left space_seqs (trim_space s) = trim_space s" by (intro trim_left_stop) auto
  moreover have "trim_left ?right (rev (trim_space s)) = rev (trim_space s)"
    using trim_left_done[of _ ?right "rev ?l"] by (intro trim_left_stop) (auto simp: trim_space_def)
  ultimately show ?thesis by (simp add: trim_space_def)
qed

lemma blank_trimmed [simp]: "is_blank (trim_space s) \<longleftrightarrow> trim_space s = ''''"
  by (simp add: is_blank_def)

text \<open>Text that neither starts nor ends like a space is its own trimmed form.\<close>

definition is_graphic :: "char \<Rightarrow> bool" where
  "is_graphic c \<longleftrightarrow> 32 < (of_char c :: nat) \<and> (of_char c :: nat) < 127"

lemma trim_space_graphic:
  assumes "list_all is_graphic s"
  shows "trim_space s = s"
proof -
  have "\<not> has_prefix s p" if "p \<in> set space_seqs" for p
    using that assms by (cases s) (auto simp: space_seqs_def has_prefix_def is_graphic_def)
  then have "trim_left space_seqs s = s" by (intro trim_left_stop) auto
  moreover have "list_all is_graphic (rev s)" using assms by simp
  then have "\<not> has_prefix (rev s) p" if "p \<in> set (map rev space_seqs)" for p
    using that by (cases "rev s") (auto simp: space_seqs_def has_prefix_def is_graphic_def)
  then have "trim_left (map rev space_seqs) (rev s) = rev s" by (intro trim_left_stop) auto
  ultimately show ?thesis by (simp add: trim_space_def)
qed

section \<open>From the table to the published map\<close>

definition is_hex :: "char \<Rightarrow> bool" where
  "is_hex c \<longleftrightarrow> c \<in> set ''0123456789abcdef''"

definition identity_inv :: "identity_db \<Rightarrow> bool" where
  "identity_inv idb \<longleftrightarrow>
     distinct (map tk_token_hash (id_tokens idb)) \<and>
     (\<forall>k \<in> set (id_tokens idb). \<not> is_blank (tk_id k) \<and> \<not> is_blank (tk_tenant_id k) \<and> \<not> is_blank (tk_principal_id k) \<and>
        \<not> is_blank (tk_group k) \<and> length (tk_token_hash k) = 64 \<and> list_all is_hex (tk_token_hash k)) \<and>
     (\<forall>t row. map_of (id_tenants idb) t = Some row \<longrightarrow> 0 \<le> tn_max_concurrency row \<and> 0 \<le> tn_rpm row)"

lemma hex_not_reserved: "length s = 64 \<Longrightarrow> list_all is_hex s \<Longrightarrow> \<not> has_prefix s ''__''"
  by (cases s) (auto simp: has_prefix_def is_hex_def)

lemma map_of_fold_update:
  "map_of (fold (\<lambda>(f, v). AList.update f v) fvs m) = map_of m ++ map_of (rev fvs)"
  by (induction fvs arbitrary: m) (auto simp: map_of_update map_add_def fun_eq_iff split: option.splits)

lemma map_of_rev_distinct: "distinct (map fst m) \<Longrightarrow> map_of (rev m) = map_of m"
  by (rule map_of_eqI) (simp, metis distinct_rev map_of_eq_Some_iff rev_map set_rev map_of_SomeD weak_map_of_SomeI option.exhaust)

lemma listed_tokens:
  assumes "identity_inv idb" "ListActiveTokens False now idb wallets = Inr records"
  shows "distinct (map fst records)"
    and "(hash, record) \<in> set records \<longleftrightarrow>
      (\<exists>k \<in> set (id_tokens idb). active_token now idb k \<and> tk_token_hash k = hash \<and> record = token_record idb wallets k)"
proof -
  let ?ks = "filter (active_token now idb) (id_tokens idb)"
  let ?fvs = "map (\<lambda>k. (tk_token_hash k, token_record idb wallets k)) ?ks"
  have r: "records = fold (\<lambda>(f, v). AList.update f v) ?fvs []"
    using assms(2) by (simp add: ListActiveTokens_def fold_map comp_def)
  have "distinct (map fst (fold (\<lambda>(f, v). AList.update f v) fvs m))" if "distinct (map fst m)"
    for fvs :: "(string \<times> TokenRecord) list" and m
    using that by (induction fvs arbitrary: m) (auto simp: distinct_update)
  then show d: "distinct (map fst records)" by (simp add: r)
  have df: "distinct (map fst ?fvs)" using assms(1) by (auto simp: identity_inv_def distinct_map comp_def inj_on_def)
  have "map_of records = map_of ?fvs" by (simp add: r map_of_fold_update map_of_rev_distinct[OF df])
  then show "(hash, record) \<in> set records \<longleftrightarrow> (\<exists>k \<in> set (id_tokens idb). active_token now idb k \<and>
      tk_token_hash k = hash \<and> record = token_record idb wallets k)"
    using d df by (subst map_of_eq_Some_iff[symmetric]) (auto simp: map_of_eq_Some_iff)
qed

lemma token_record_valid:
  assumes "identity_inv idb" "k \<in> set (id_tokens idb)"
  shows "TokenRecord_Validate (token_record idb wallets k)"
  using assms by (fastforce simp: identity_inv_def TokenRecord_Validate_def token_record_def Let_def split: option.splits)

lemma decode_published:
  assumes "\<And>h s. (h, s) \<in> set m \<Longrightarrow> \<not> has_prefix h ''__'' \<Longrightarrow> \<exists>rec. unmarshal s = Some rec \<and> TokenRecord_Validate rec"
  shows "\<exists>m'. decode_tokens unmarshal m = Inr m' \<and>
    map_of m' = (\<lambda>h. if has_prefix h ''__'' then None else Option.bind (map_of m h) unmarshal)"
  using assms
proof (induction m)
  case Nil
  then show ?case by (auto simp: fun_eq_iff)
next
  case (Cons p m)
  obtain h s where p: "p = (h, s)" by (cases p)
  from Cons obtain m' where m': "decode_tokens unmarshal m = Inr m'"
    "map_of m' = (\<lambda>h. if has_prefix h ''__'' then None else Option.bind (map_of m h) unmarshal)" by auto
  show ?case
  proof (cases "has_prefix h ''__''")
    case True
    then show ?thesis using m' p by (auto simp: fun_eq_iff)
  next
    case False
    then obtain rec where "unmarshal s = Some rec" "TokenRecord_Validate rec" using Cons.prems p by auto
    then show ?thesis using False m' p by (auto simp: fun_eq_iff)
  qed
qed


text \<open>What is published is what every gateway then loads, whenever it loads it.\<close>

lemma publish_load:
  assumes codec: "\<And>h rc. (h, rc) \<in> set records \<Longrightarrow> \<exists>s. marshal rc = Some s \<and> unmarshal s = Some rc"
    and recs: "distinct (map fst records)"
      "\<And>h rc. (h, rc) \<in> set records \<Longrightarrow> TokenRecord_Validate rc \<and> length h = 64 \<and> list_all is_hex h"
    and fresh: "r (TokenKey @ '':staging:'' @ n) = None"
  obtains r' m where "PublishTokens marshal Answered rnow (Some n) publishedAt records r = (Inr (), r')"
    "\<forall>later. LoadTokens unmarshal Answered later r' = Inr m" "map_of m = map_of records"
proof -
  let ?staging = "TokenKey @ '':staging:'' @ n"
  let ?recs = "map (\<lambda>(hash, rc). (hash, the (marshal rc))) records"
  let ?vals = "(''__published_at'', publishedAt) # ?recs"
  let ?h = "fold (\<lambda>(f, v). AList.update f v) ?vals []"
  let ?e = "\<lparr>re_data = RHash ?h, re_expires = None\<rparr>"
  let ?r = "r(?staging := None, TokenKey \<mapsto> ?e)"
  have ok: "list_all (\<lambda>(hash, rc). TokenRecord_Validate rc) records"
    "list_all (\<lambda>(hash, rc). length hash = 64) records" "list_all (\<lambda>(hash, rc). marshal rc \<noteq> None) records"
    using recs(2) codec by (fastforce simp: list_all_iff)+
  have tx: "publish_tx rnow ?staging ?vals r = (True, ?r)"
    using fresh by (simp add: publish_tx_def redis_hset_def redis_rename_def redis_live_def Let_def)
  then have pub: "PublishTokens marshal Answered rnow (Some n) publishedAt records r = (Inr (), ?r)"
    using ok by (simp add: PublishTokens_def Let_def)
  have keys: "h \<noteq> ''__published_at''" if "(h, rc) \<in> set records" for h rc
    using recs(2)[OF that] by auto
  have dv: "distinct (map fst ?vals)" using recs(1) keys by (force simp: comp_def case_prod_unfold)
  have h: "map_of ?h = map_of ?vals" by (simp only: map_of_fold_update map_of_rev_distinct[OF dv] map_of.simps(1) empty_map_add)
  have hd: "distinct (map fst ?h)"
  proof -
    have "distinct (map fst (fold (\<lambda>(f, v). AList.update f v) fvs m))" if "distinct (map fst m)"
      for fvs :: "(string \<times> string) list" and m
      using that by (induction fvs arbitrary: m) (auto simp: distinct_update)
    then show ?thesis by simp
  qed
  have dec: "\<exists>rec. unmarshal s = Some rec \<and> TokenRecord_Validate rec"
    if "(k, s) \<in> set ?h" "\<not> has_prefix k ''__''" for k s
  proof -
    have "map_of ?vals k = Some s" using that(1) hd h by (metis map_of_eq_Some_iff)
    then have "(k, s) \<in> set ?recs" using that(2) by (auto simp: has_prefix_def dest: map_of_SomeD split: if_splits)
    then obtain rc where "(k, rc) \<in> set records" "s = the (marshal rc)" by auto
    then show ?thesis using recs(2) codec[of k rc] by fastforce
  qed
  obtain m where m: "decode_tokens unmarshal ?h = Inr m"
    "map_of m = (\<lambda>k. if has_prefix k ''__'' then None else Option.bind (map_of ?h k) unmarshal)"
    using decode_published[of ?h unmarshal] dec by blast
  have "map_of m k = map_of records k" for k
  proof (cases "has_prefix k ''__''")
    case True
    then have "map_of records k = None"
      using recs(2) hex_not_reserved by (metis map_of_SomeD not_None_eq)
    then show ?thesis using True m(2) by simp
  next
    case False
    then have "map_of ?h k = map_option (\<lambda>rc. the (marshal rc)) (map_of records k)"
      unfolding h by (auto simp: map_of_map has_prefix_def)
    then show ?thesis using False m(2) codec by (cases "map_of records k") (auto dest!: map_of_SomeD, metis option.sel)
  qed
  then have "map_of m = map_of records" by auto
  moreover have "LoadTokens unmarshal Answered later ?r = Inr m" for later
    using m(1) by (simp add: LoadTokens_def redis_hgetall_def redis_live_def)
  ultimately show thesis using pub by (intro that[of ?r m]) simp_all
qed

section \<open>Properties\<close>

text \<open>The bearer token of a request, empty where it carries none.\<close>

definition presented :: "string \<Rightarrow> string \<Rightarrow> string" where
  "presented authorization apiKey =
     (if has_prefix (to_lower authorization) ''bearer '' then trim_space (drop 7 authorization)
      else if authorization = '''' then trim_space apiKey else '''')"

text \<open>A token row that admits the request: active when it was published, not expired now.\<close>

definition admits :: "(string \<Rightarrow> string) \<Rightarrow> time \<Rightarrow> time \<Rightarrow> identity_db \<Rightarrow> string \<Rightarrow> token_row \<Rightarrow> bool" where
  "admits sha256_hex published now idb token k \<longleftrightarrow>
     token \<noteq> '''' \<and> k \<in> set (id_tokens idb) \<and> tk_token_hash k = sha256_hex token \<and>
     tk_status k = ''active'' \<and> tk_revoked_at k = None \<and>
     (\<exists>t. map_of (id_tenants idb) (tk_tenant_id k) = Some t \<and> tn_status t = ''active'') \<and>
     (\<exists>p. map_of (id_principals idb) (tk_principal_id k) = Some p \<and> pn_status p = ''active'') \<and>
     (\<forall>e. tk_expires_at k = Some e \<longrightarrow> pg_time published < e \<and> (e = 0 \<or> now < e))"

lemma admits_iff:
  "admits sha256_hex published now idb token k \<longleftrightarrow>
     token \<noteq> '''' \<and> k \<in> set (id_tokens idb) \<and> active_token published idb k \<and>
     tk_token_hash k = sha256_hex token \<and> (\<forall>e. tk_expires_at k = Some e \<longrightarrow> e = 0 \<or> now < e)"
  by (auto simp: admits_def active_token_def split: option.splits)

definition context_of :: "identity_db \<Rightarrow> token_row \<Rightarrow> string \<Rightarrow> AuthContext" where
  "context_of idb k sessionKey = \<lparr>ax_TenantID = tk_tenant_id k, ax_PrincipalID = tk_principal_id k,
     ax_TokenID = tk_id k, ax_Group = tk_group k,
     ax_Limits = (case map_of (id_tenants idb) (tk_tenant_id k) of
        Some t \<Rightarrow> \<lparr>tl_MaxConcurrency = tn_max_concurrency t, tl_RPM = tn_rpm t\<rparr>
      | None \<Rightarrow> \<lparr>tl_MaxConcurrency = 0, tl_RPM = 0\<rparr>),
     ax_BillingBlocked = False, ax_SessionKey = sessionKey\<rparr>"

lemma is_blank_empty: "is_blank ''''"
  by code_simp

lemma AuthenticateRequest_presented:
  "AuthenticateRequest sha now authorization apiKey a =
     (if presented authorization apiKey = '''' then None else Authenticate sha now (presented authorization apiKey) a)"
  by (auto simp: AuthenticateRequest_def presented_def Authenticate_def Let_def)

lemma authenticate_loaded:
  assumes "identity_inv idb" "ListActiveTokens False published idb wallets = Inr records" "map_of (au_records a) = map_of records"
    and "token \<noteq> ''''" "trim_space token = token"
  shows "admits sha published now idb token k \<Longrightarrow> Authenticate sha now token a =
      Some ((context_of idb k '''')\<lparr>ax_BillingBlocked := billing_blocked wallets (tk_tenant_id k)\<rparr>)"
    and "\<nexists>k. admits sha published now idb token k \<Longrightarrow> Authenticate sha now token a = None"
proof -
  note listed = listed_tokens[OF assms(1,2)]
  have look: "map_of (au_records a) h = Some rc \<longleftrightarrow> (\<exists>k \<in> set (id_tokens idb). active_token published idb k \<and>
      tk_token_hash k = h \<and> rc = token_record idb wallets k)" for h rc
    using listed assms(3) by (metis map_of_eq_Some_iff)
  {
    assume adm: "admits sha published now idb token k"
    then have "map_of (au_records a) (sha token) = Some (token_record idb wallets k)"
      using look by (auto simp: admits_iff)
    moreover have "tk_group k \<noteq> ''''" using adm assms(1) by (auto simp: admits_iff identity_inv_def is_blank_empty)
    ultimately show "Authenticate sha now token a =
        Some ((context_of idb k '''')\<lparr>ax_BillingBlocked := billing_blocked wallets (tk_tenant_id k)\<rparr>)"
      using adm assms(4,5) by (auto simp: Authenticate_def Let_def HashToken_def token_record_def context_of_def admits_iff
          is_zero_time_def split: option.splits)
  next
    assume none: "\<nexists>k. admits sha published now idb token k"
    show "Authenticate sha now token a = None"
    proof (cases "map_of (au_records a) (sha token)")
      case None
      then show ?thesis using assms(5) by (simp add: Authenticate_def Let_def HashToken_def)
    next
      case (Some rc)
      then obtain k where k: "k \<in> set (id_tokens idb)" "active_token published idb k" "tk_token_hash k = sha token"
        "rc = token_record idb wallets k" using look by blast
      with none assms(4) obtain e where "tk_expires_at k = Some e" "e \<noteq> 0" "\<not> now < e" by (auto simp: admits_iff)
      then show ?thesis using Some k assms(5)
        by (simp add: Authenticate_def Let_def HashToken_def token_record_def is_zero_time_def)
    qed
  }
qed


lemma loaded_after_publish:
  assumes codec: "\<And>k. k \<in> set (id_tokens idb) \<Longrightarrow> \<exists>s. marshal (token_record idb wallets k) = Some s \<and>
      unmarshal s = Some (token_record idb wallets k)"
    and inv: "identity_inv idb" and fresh: "r (TokenKey @ '':staging:'' @ n) = None"
    and pub: "TokenLoop_RunOnce marshal False Answered published rnow (Some n) stamp idb wallets r = (res, r')"
    and ref: "Authenticator_Refresh unmarshal Answered later r' a = (res', a')"
  obtains records where "ListActiveTokens False published idb wallets = Inr records" "res = Inr records"
    "res' = Inr ()" "map_of (au_records a') = map_of records"
proof -
  obtain records where l: "ListActiveTokens False published idb wallets = Inr records" by (simp add: ListActiveTokens_def)
  note listed = listed_tokens[OF inv l]
  have valid: "TokenRecord_Validate rc \<and> length h = 64 \<and> list_all is_hex h" if "(h, rc) \<in> set records" for h rc
    using that listed(2) token_record_valid[OF inv] inv by (auto simp: identity_inv_def)
  have code: "\<exists>s. marshal rc = Some s \<and> unmarshal s = Some rc" if "(h, rc) \<in> set records" for h rc
    using that listed(2) codec by auto
  obtain r1 m where "PublishTokens marshal Answered rnow (Some n) stamp records r = (Inr (), r1)"
    "\<forall>later. LoadTokens unmarshal Answered later r1 = Inr m" "map_of m = map_of records"
    by (rule publish_load[where rnow = rnow and publishedAt = stamp and r = r and n = n, OF code listed(1) valid fresh])
  then show thesis using pub ref l that[OF l] by (auto simp: TokenLoop_RunOnce_def Authenticator_Refresh_def)
qed

text \<open>
  C26.  Admission is exactly what control last published.  Once the token loop has run and a
  gateway has refreshed, the router admits a request if and only if its bearer token belongs to a
  row that was active, of an active tenant and an active principal, and has not expired since; the
  identity, group and limits are the ones of that row and never the client's.  A tenant whose
  wallet was at or below zero is answered 402 whatever the session header, and every other request
  is answered 401.
\<close>

theorem admission_exact:
  assumes "\<And>k. k \<in> set (id_tokens idb) \<Longrightarrow> \<exists>s. marshal (token_record idb wallets k) = Some s \<and>
      unmarshal s = Some (token_record idb wallets k)"
    and "identity_inv idb" and "r (TokenKey @ '':staging:'' @ n) = None"
    and "TokenLoop_RunOnce marshal False Answered published rnow (Some n) stamp idb wallets r = (res, r')"
    and "Authenticator_Refresh unmarshal Answered later r' a = (res', a')"
  shows "(admits sha published now idb (presented authorization apiKey) k \<longrightarrow>
      router_middleware sha now authorization apiKey session a' =
        (if billing_blocked wallets (tk_tenant_id k) then Inl 402
         else case normalizeSessionKey session of None \<Rightarrow> Inl 400 | Some sk \<Rightarrow> Inr (context_of idb k sk))) \<and>
    ((\<nexists>k. admits sha published now idb (presented authorization apiKey) k) \<longrightarrow>
      router_middleware sha now authorization apiKey session a' = Inl 401)"
proof -
  let ?token = "presented authorization apiKey"
  obtain records where l: "ListActiveTokens False published idb wallets = Inr records" "map_of (au_records a') = map_of records"
    using loaded_after_publish[OF assms] by blast
  have t: "trim_space ?token = ?token" by (simp add: presented_def trim_space_graphic)
  show ?thesis
  proof (cases "?token = ''''")
    case True
    then show ?thesis by (simp add: router_middleware_def AuthenticateRequest_presented admits_iff)
  next
    case False
    note auth = authenticate_loaded[OF assms(2) l False t, of sha now]
    show ?thesis using False auth
      by (auto simp: router_middleware_def AuthenticateRequest_presented context_of_def split: option.splits)
  qed
qed

section \<open>Minted tokens\<close>

lemma ensure_tenant_limits:
  "map_of (id_tenants (ensure_tenant t name idb)) u = Some row \<Longrightarrow>
     map_of (id_tenants idb) u = Some row \<or> tn_max_concurrency row = 0 \<and> tn_rpm row = 0"
  by (auto simp: ensure_tenant_def map_of_update split: if_splits)

lemma set_limits_limits:
  assumes "map_of (id_tenants (set_limits t spec idb)) u = Some row" "\<not> negative (sp_MaxConcurrency spec)" "\<not> negative (sp_RPM spec)"
    and "\<And>u row. map_of (id_tenants idb) u = Some row \<Longrightarrow> 0 \<le> tn_max_concurrency row \<and> 0 \<le> tn_rpm row"
  shows "0 \<le> tn_max_concurrency row \<and> 0 \<le> tn_rpm row"
  using assms by (fastforce simp: set_limits_def negative_def map_of_update split: option.splits if_splits)

lemma ensure_principal_tenants: "id_tenants (ensure_principal p t idb) = id_tenants idb"
  by (simp add: ensure_principal_def)

lemma if_Inl_Inr: "(if c then Inl e else x) = Inr y \<longleftrightarrow> \<not> c \<and> x = Inr y"
  by simp

lemma minted_row:
  assumes "CreateTenantTokenWithLimits sha False (Some secret) idBytes tenant name princ grp expires spec idb = Inr (tid, raw, idb')"
  obtains ib k idb3 where "idBytes = Some ib" "raw = ''gwt_'' @ secret" "tid = ''token-'' @ ib"
    "k = \<lparr>tk_id = tid, tk_tenant_id = trim_space tenant, tk_principal_id = trim_space princ,
       tk_token_hash = sha raw, tk_group = (if trim_space grp = '''' then ''default'' else trim_space grp),
       tk_status = ''active'', tk_expires_at = map_option pg_time expires, tk_revoked_at = None\<rparr>"
    "insert_token k idb3 = Inr idb'" "id_tokens idb3 = id_tokens idb"
    "trim_space tenant \<noteq> ''''" "trim_space princ \<noteq> ''''"
    "\<And>u row. map_of (id_tenants idb3) u = Some row \<Longrightarrow>
      (\<forall>u row. map_of (id_tenants idb) u = Some row \<longrightarrow> 0 \<le> tn_max_concurrency row \<and> 0 \<le> tn_rpm row) \<Longrightarrow>
      0 \<le> tn_max_concurrency row \<and> 0 \<le> tn_rpm row"
proof -
  let ?t = "trim_space tenant" and ?p = "trim_space princ"
  let ?idb1 = "ensure_tenant ?t (if name = '''' then ?t else name) idb"
  let ?limited = "sp_MaxConcurrency spec \<noteq> None \<or> sp_RPM spec \<noteq> None"
  let ?idb2 = "if ?limited then set_limits ?t spec ?idb1 else ?idb1"
  let ?idb3 = "ensure_principal ?p ?t ?idb2"
  obtain ib where ib: "idBytes = Some ib"
    using assms by (cases idBytes) (auto simp: CreateTenantTokenWithLimits_def Let_def split: if_splits)
  let ?k = "\<lparr>tk_id = ''token-'' @ ib, tk_tenant_id = ?t, tk_principal_id = ?p,
       tk_token_hash = sha (''gwt_'' @ secret), tk_group = (if trim_space grp = '''' then ''default'' else trim_space grp),
       tk_status = ''active'', tk_expires_at = map_option pg_time expires, tk_revoked_at = None\<rparr>"
  note run = assms[unfolded CreateTenantTokenWithLimits_def Let_def HashToken_def ib]
  have ne: "?t \<noteq> ''''" "?p \<noteq> ''''" using run by (auto split: if_split_asm)
  have lim: "?limited \<longrightarrow> \<not> negative (sp_MaxConcurrency spec) \<and> \<not> negative (sp_RPM spec)"
    using run by (auto split: if_split_asm)
  have ins: "insert_token ?k ?idb3 = Inr idb'" and ids: "raw = ''gwt_'' @ secret" "tid = ''token-'' @ ib"
    using run by (auto simp: if_Inl_Inr split: option.split_asm sum.split_asm split del: if_split)
  note facts = ne ids ins lim
  have tok: "id_tokens ?idb3 = id_tokens idb"
    by (simp add: ensure_principal_def ensure_tenant_def set_limits_def split: option.splits)
  have bound: "0 \<le> tn_max_concurrency row \<and> 0 \<le> tn_rpm row"
    if "map_of (id_tenants ?idb3) u = Some row"
      "\<forall>u row. map_of (id_tenants idb) u = Some row \<longrightarrow> 0 \<le> tn_max_concurrency row \<and> 0 \<le> tn_rpm row" for u row
  proof -
    have base: "map_of (id_tenants ?idb1) u = Some row \<Longrightarrow> 0 \<le> tn_max_concurrency row \<and> 0 \<le> tn_rpm row" for u row
      using that(2) by (auto dest!: ensure_tenant_limits)
    have "map_of (id_tenants ?idb2) u = Some row" using that(1) by (simp only: ensure_principal_tenants)
    then show ?thesis using base facts(6) set_limits_limits[of ?t spec ?idb1 u row] by (auto split: if_splits)
  qed
  show thesis
  proof (rule that[OF ib facts(3,4) _ facts(5) tok facts(1,2)])
    show "?k = \<lparr>tk_id = tid, tk_tenant_id = ?t, tk_principal_id = ?p, tk_token_hash = sha raw,
        tk_group = (if trim_space grp = [] then ''default'' else trim_space grp), tk_status = ''active'',
        tk_expires_at = map_option pg_time expires, tk_revoked_at = None\<rparr>"
      by (simp only: facts(3,4))
  qed (rule bound, assumption+)
qed

lemma hex_char_graphic: "is_hex c \<Longrightarrow> is_graphic c"
  by (simp add: is_hex_def, elim disjE; simp add: is_graphic_def)

lemma hex_graphic: "list_all is_hex s \<Longrightarrow> list_all is_graphic s"
  by (auto simp: list_all_iff intro: hex_char_graphic)

lemma token_prefix_not_blank: "\<not> is_blank (''token-'' @ s)"
proof
  assume "is_blank (''token-'' @ s)"
  moreover have "trim_left space_seqs (''token-'' @ s) = ''token-'' @ s"
    by (intro trim_left_stop) (auto simp: space_seqs_def has_prefix_def)
  ultimately have tr: "trim_left (map rev space_seqs) (rev s @ rev ''token-'') = []" by (simp add: is_blank_def trim_space_def)
  have "trim_left seqs (u @ [CHR ''t'']) \<noteq> []" if "\<And>p. p \<in> set seqs \<Longrightarrow> CHR ''t'' \<notin> set p" for seqs u
    using that
  proof (induction "length u" arbitrary: u rule: less_induct)
    case less
    show ?case
    proof (cases "find (\<lambda>p. p \<noteq> [] \<and> has_prefix (u @ [CHR ''t'']) p) seqs")
      case None
      then show ?thesis by (simp add: trim_left_None)
    next
      case (Some p)
      then have p: "p \<in> set seqs" "p \<noteq> []" "take (length p) (u @ [CHR ''t'']) = p"
        by (auto simp: find_Some_iff has_prefix_def)
      then have "length p \<le> length u" using less.prems[OF p(1)] by (cases "length p \<le> length u") auto
      moreover from this p(2) have "length (drop (length p) u) < length u" by (cases p) auto
      ultimately show ?thesis using less.hyps[of "drop (length p) u"] less.prems trim_left_Some[OF Some] by simp
    qed
  qed
  moreover have "CHR ''t'' \<notin> set p" if "p \<in> set (map rev space_seqs)" for p
    using that by (auto simp: space_seqs_def)
  ultimately have "trim_left (map rev space_seqs) ((rev s @ rev (tl ''token-'')) @ [CHR ''t'']) \<noteq> []" by blast
  moreover have "(rev s @ rev (tl ''token-'')) @ [CHR ''t''] = rev s @ rev ''token-''" by simp
  ultimately show False using tr by metis
qed

lemma minted_identity_inv:
  assumes sha: "length (sha raw) = 64 \<and> list_all is_hex (sha raw)" and inv: "identity_inv idb"
    and mint: "CreateTenantTokenWithLimits sha False (Some secret) idBytes tenant name princ grp expires spec idb = Inr (tid, raw, idb')"
  shows "identity_inv idb'"
  using mint
proof (cases rule: minted_row)
  case (1 ib k idb3)
  have "tk_token_hash k \<notin> set (map tk_token_hash (id_tokens idb))" "idb' = idb3\<lparr>id_tokens := id_tokens idb @ [k]\<rparr>"
    using 1(5,6) by (auto simp: insert_token_def list_ex_iff split: if_splits)
  moreover have "\<not> is_blank ''default''" by code_simp
  ultimately show ?thesis using inv 1(3,4,7,8,9) sha token_prefix_not_blank by (auto simp: identity_inv_def)
qed

definition sample_sha :: "string \<Rightarrow> string" where
  "sample_sha x = replicate 64 CHR ''a''"

definition sample_token :: token_row where
  "sample_token = \<lparr>tk_id = ''token-01'', tk_tenant_id = ''acme'', tk_principal_id = ''acme-default'',
     tk_token_hash = replicate 64 CHR ''a'', tk_group = ''default'', tk_status = ''active'',
     tk_expires_at = None, tk_revoked_at = None\<rparr>"

definition sample_idb :: identity_db where
  "sample_idb = \<lparr>id_tenants = [(''acme'', \<lparr>tn_name = ''acme'', tn_status = ''active'', tn_max_concurrency = 0, tn_rpm = 0\<rparr>)],
     id_principals = [(''acme-default'', \<lparr>pn_tenant_id = ''acme'', pn_status = ''active''\<rparr>)],
     id_tokens = [sample_token]\<rparr>"

lemma sample_mint:
  "CreateTenantTokenWithLimits sample_sha False (Some ''ab'') (Some ''01'') ''acme'' '''' ''acme-default'' '''' None
     \<lparr>sp_MaxConcurrency = None, sp_RPM = None\<rparr> \<lparr>id_tenants = [], id_principals = [], id_tokens = []\<rparr> =
   Inr (''token-01'', ''gwt_ab'', sample_idb)"
  by code_simp

lemma sample_identity:
  "identity_inv \<lparr>id_tenants = [], id_principals = [], id_tokens = []\<rparr>" "identity_inv sample_idb"
proof -
  show e: "identity_inv \<lparr>id_tenants = [], id_principals = [], id_tokens = []\<rparr>" by (simp add: identity_inv_def)
  show "identity_inv sample_idb"
    by (rule minted_identity_inv[OF _ e sample_mint]) (simp add: sample_sha_def list_all_iff is_hex_def)
qed

lemma sample_presented: "presented ''Bearer gwt_ab'' '''' = ''gwt_ab''" "normalizeSessionKey '''' = Some ''''"
  by code_simp+

theorem admission_exact_witness:
  "\<exists>a. router_middleware sample_sha 5 ''Bearer gwt_ab'' '''' '''' a = Inr (context_of sample_idb sample_token '''') \<and>
     router_middleware sample_sha 5 ''Bearer '' '''' '''' a = Inl 401"
proof -
  let ?m = "\<lambda>_. Some ''x''" and ?u = "\<lambda>_. Some (token_record sample_idb [] sample_token)"
  obtain res r' where p: "TokenLoop_RunOnce ?m False Answered 1 1 (Some ''n'') ''now'' sample_idb [] Map.empty = (res, r')" by fastforce
  obtain res' a where a: "Authenticator_Refresh ?u Answered 2 r' NewAuthenticator = (res', a)" by fastforce
  have ids: "id_tokens sample_idb = [sample_token]" by (simp add: sample_idb_def)
  have adm: "admits sample_sha 1 5 sample_idb ''gwt_ab'' sample_token"
    by (simp add: admits_iff sample_idb_def sample_sha_def active_token_def sample_token_def)
  have none: "presented ''Bearer '' '''' = ''''" by code_simp
  show ?thesis
    using admission_exact[of sample_idb ?m "[]" ?u Map.empty "''n''" 1 1 "''now''" res r' 2 NewAuthenticator res' a sample_sha 5
        "''Bearer gwt_ab''" "''''" sample_token "''''"]
      admission_exact[of sample_idb ?m "[]" ?u Map.empty "''n''" 1 1 "''now''" res r' 2 NewAuthenticator res' a sample_sha 5
        "''Bearer ''" "''''" sample_token "''''"]
      sample_identity(2) p a adm none
    by (intro exI[of _ a]) (simp add: ids sample_presented billing_blocked_def admits_iff)
qed

lemma presented_bearer: "presented (''Bearer '' @ t) '''' = trim_space t"
proof -
  have "to_lower (''Bearer '' @ t) = ''bearer '' @ to_lower t" by (simp add: to_lower_def, code_simp)
  then show ?thesis by (simp add: presented_def has_prefix_def)
qed

text \<open>
  C37.  A minted token works, and only for its tenant.  Creating a token keeps the tables well
  formed, adds exactly one row and stores the digest and not the token; after the next
  publication and refresh the raw token is admitted as that tenant and group, for as long as the
  tenant and the principal are active, the token has not expired and the wallet is not exhausted.
\<close>

theorem minted_token_works:
  assumes "\<And>k. k \<in> set (id_tokens idb') \<Longrightarrow> \<exists>s. marshal (token_record idb' wallets k) = Some s \<and>
      unmarshal s = Some (token_record idb' wallets k)"
    and "length (sha raw) = 64 \<and> list_all is_hex (sha raw)" and "list_all is_hex secret"
    and "identity_inv idb"
    and "CreateTenantTokenWithLimits sha False (Some secret) idBytes tenant name princ grp expires spec idb = Inr (tid, raw, idb')"
    and "r (TokenKey @ '':staging:'' @ n) = None"
    and "TokenLoop_RunOnce marshal False Answered published rnow (Some n) stamp idb' wallets r = (res, r')"
    and "Authenticator_Refresh unmarshal Answered later r' a = (res', a')"
    and "\<exists>t p. map_of (id_tenants idb') (trim_space tenant) = Some t \<and> tn_status t = ''active'' \<and>
      map_of (id_principals idb') (trim_space princ) = Some p \<and> pn_status p = ''active''"
    and "\<forall>e. expires = Some e \<longrightarrow> pg_time published < pg_time e \<and> now < pg_time e"
    and "\<not> billing_blocked wallets (trim_space tenant)"
  shows "identity_inv idb' \<and> (\<exists>k. id_tokens idb' = id_tokens idb @ [k] \<and> tk_token_hash k = sha raw) \<and>
    (\<exists>ax. router_middleware sha now (''Bearer '' @ raw) '''' '''' a' = Inr ax \<and> ax_TokenID ax = tid \<and>
       ax_TenantID ax = trim_space tenant \<and> ax_PrincipalID ax = trim_space princ \<and>
       ax_Group ax = (if trim_space grp = '''' then ''default'' else trim_space grp))"
proof -
  have inv: "identity_inv idb'" by (rule minted_identity_inv[OF assms(2,4,5)])
  from assms(5) show ?thesis
  proof (cases rule: minted_row)
    case (1 ib k idb3)
    have ks: "id_tokens idb' = id_tokens idb @ [k]" using 1(5,6) by (auto simp: insert_token_def split: if_splits)
    have raw: "trim_space raw = raw" "raw \<noteq> ''''"
      using 1(2) hex_graphic[OF assms(3)] by (auto intro!: trim_space_graphic simp: is_graphic_def)
    have act: "active_token published idb' k" using 1(4) assms(9,10) by (auto simp: active_token_def split: option.splits)
    have pres: "presented (''Bearer '' @ raw) '''' = raw" using presented_bearer[of raw] raw(1) by (rule trans)
    have adm: "admits sha published now idb' (presented (''Bearer '' @ raw) '''') k"
      unfolding pres using act ks 1(4) raw assms(10) by (auto simp: admits_iff)
    have "normalizeSessionKey '''' = Some ''''" by code_simp
    then have "router_middleware sha now (''Bearer '' @ raw) '''' '''' a' = Inr (context_of idb' k '''')"
      using admission_exact[OF assms(1) inv assms(6,7,8), of sha now "''Bearer '' @ raw" "''''" k "''''"] adm assms(11) 1(4) by simp
    then show ?thesis using inv ks 1(4) by (simp add: context_of_def)
  qed
qed


theorem minted_token_works_witness:
  "\<exists>a ax. router_middleware sample_sha 5 (''Bearer '' @ ''gwt_ab'') '''' '''' a = Inr ax \<and> ax_TenantID ax = ''acme''"
proof -
  let ?m = "\<lambda>_. Some ''x''" and ?u = "\<lambda>_. Some (token_record sample_idb [] sample_token)"
  obtain res r' where p: "TokenLoop_RunOnce ?m False Answered 1 1 (Some ''n'') ''now'' sample_idb [] Map.empty = (res, r')" by fastforce
  obtain res' a where a: "Authenticator_Refresh ?u Answered 2 r' NewAuthenticator = (res', a)" by fastforce
  have t: "trim_space ''acme'' = ''acme''" "trim_space ''acme-default'' = ''acme-default''" by code_simp+
  have "\<exists>ax. router_middleware sample_sha 5 (''Bearer '' @ ''gwt_ab'') '''' '''' a = Inr ax \<and> ax_TenantID ax = trim_space ''acme''"
    using minted_token_works[OF _ _ _ sample_identity(1) sample_mint _ p a, of 5]
    by (simp add: t sample_idb_def sample_sha_def list_all_iff is_hex_def billing_blocked_def) blast
  then show ?thesis unfolding t by blast
qed

end
