(* ===== verification/Upstream.thy ===== *)
theory Upstream
  imports Chooser TenantAuth
begin

text \<open>
  The upstream call of the gateway (\<^verbatim>\<open>internal/gateway/server.go\<close>): which protocol and path a
  lease uses, which headers the request carries, and how the reply is read and classified.  What
  JSON, the protocol converters and the transport do is an argument (\<open>upstream_env\<close>): a converter
  or decoder that fails answers \<open>None\<close>.
\<close>

section \<open>Requests\<close>

abbreviation OpenAIChat :: string where
  "OpenAIChat \<equiv> ''openai_chat''"

abbreviation OpenAIResponses :: string where
  "OpenAIResponses \<equiv> ''openai_responses''"

abbreviation AnthropicMessages :: string where
  "AnthropicMessages \<equiv> ''anthropic_messages''"

abbreviation GeminiGenerate :: string where
  "GeminiGenerate \<equiv> ''gemini_generate''"

text \<open>A decoded JSON value; numbers keep their text.\<close>

datatype json =
    JNull
  | JBool bool
  | JNumber string
  | JString string
  | JArray "json list"
  | JObject "(string \<times> json) list"

record ChatCompletionRequest =
  rq_Model :: string
  rq_Messages :: "(string, json) gomap list"
  rq_Stream :: bool
  rq_Tools :: "(string, json) gomap list"
  rq_MaxTokens :: "int option"
  rq_Temperature :: "json option"
  rq_TopP :: "json option"
  rq_Stop :: json

definition part_type :: "(string, json) gomap \<Rightarrow> string" where
  "part_type part = (case map_of part ''type'' of Some (JString s) \<Rightarrow> s | _ \<Rightarrow> '''')"

definition unsupported_part :: "json \<Rightarrow> bool" where
  "unsupported_part rawPart =
     (case rawPart of
        JObject part \<Rightarrow> part_type part \<noteq> ''text'' \<and> part_type part \<noteq> ''image_url''
      | _ \<Rightarrow> True)"

definition containsUnsupportedMessageFields :: "(string, json) gomap list \<Rightarrow> bool" where
  "containsUnsupportedMessageFields messages =
     list_ex (\<lambda>message. map_of message ''thinking'' \<noteq> None \<or> map_of message ''images'' \<noteq> None \<or>
       (case map_of message ''content'' of
          Some (JArray parts) \<Rightarrow> list_ex unsupported_part parts
        | _ \<Rightarrow> False)) messages"

definition image_part :: "json \<Rightarrow> bool" where
  "image_part rawPart =
     (case rawPart of JObject part \<Rightarrow> map_of part ''type'' = Some (JString ''image_url'') | _ \<Rightarrow> False)"

definition containsImageMessageFields :: "(string, json) gomap list \<Rightarrow> bool" where
  "containsImageMessageFields messages =
     list_ex (\<lambda>message. case map_of message ''content'' of Some (JArray parts) \<Rightarrow> list_ex image_part parts | _ \<Rightarrow> False)
       messages"

section \<open>Where the request goes\<close>

definition selectedProtocol :: "string \<Rightarrow> UpstreamProfile \<Rightarrow> string option" where
  "selectedProtocol provider profile =
     (if pf_Protocol profile \<noteq> '''' then
        (if pf_Protocol profile \<in> {OpenAIChat, OpenAIResponses, AnthropicMessages, GeminiGenerate}
         then Some (pf_Protocol profile) else None)
      else if equal_fold provider ''claude'' then Some AnthropicMessages
      else Some OpenAIChat)"

function replace_all :: "string \<Rightarrow> string \<Rightarrow> string \<Rightarrow> string" where
  "replace_all old new s =
     (if s = [] \<or> old = [] then s
      else if has_prefix s old then new @ replace_all old new (drop (length old) s)
      else hd s # replace_all old new (tl s))"
  by pat_completeness auto
termination
  by (relation "measure (\<lambda>(old, new, s). length s)") (auto simp: has_prefix_def)

declare replace_all.simps [simp del]

fun replace_first :: "string \<Rightarrow> string \<Rightarrow> string \<Rightarrow> string" where
  "replace_first old new [] = []"
| "replace_first old new (c # cs) =
     (if has_prefix (c # cs) old then new @ drop (length old) (c # cs) else c # replace_first old new cs)"

definition trim_right_char :: "char \<Rightarrow> string \<Rightarrow> string" where
  "trim_right_char c s = rev (dropWhile (\<lambda>x. x = c) (rev s))"

text \<open>\<^verbatim>\<open>url.PathEscape\<close>: a path segment's unreserved bytes stay, the others become upper-case hex.\<close>

definition hex_digit :: "nat \<Rightarrow> char" where
  "hex_digit n = ''0123456789ABCDEF'' ! n"

definition is_alnum :: "char \<Rightarrow> bool" where
  "is_alnum c \<longleftrightarrow> (let n = (of_char c :: nat) in (48 \<le> n \<and> n \<le> 57) \<or> (65 \<le> n \<and> n \<le> 90) \<or> (97 \<le> n \<and> n \<le> 122))"

definition path_escape :: "string \<Rightarrow> string" where
  "path_escape s = concat (map (\<lambda>c.
     if is_alnum c \<or> c \<in> set ''-_.~$&+=:@'' then [c]
     else [CHR ''%'', hex_digit ((of_char c :: nat) div 16), hex_digit ((of_char c :: nat) mod 16)]) s)"

definition resolveInferencePath :: "string \<Rightarrow> string \<Rightarrow> string" where
  "resolveInferencePath path model = replace_all ''{model}'' (path_escape model) path"

definition providerStreamingPath :: "string \<Rightarrow> string \<Rightarrow> string" where
  "providerStreamingPath provider path0 =
     (if \<not> equal_fold provider ''antigravity'' then path0
      else (let path = replace_first '':generateContent'' '':streamGenerateContent'' path0 in
        if \<not> contains path ''?'' then path @ ''?alt=sse''
        else if \<not> contains path ''alt='' then path @ ''&alt=sse''
        else path))"

text \<open>
  The default paths of the two handlers; for Gemini the plain one must be configured, and its
  absence is an error.
\<close>

definition inference_path :: "UpstreamProfile \<Rightarrow> string \<Rightarrow> string option" where
  "inference_path profile protocol =
     (if pf_InferencePath profile \<noteq> '''' then Some (pf_InferencePath profile)
      else if protocol = AnthropicMessages then Some ''/v1/messages''
      else if protocol = OpenAIResponses then Some ''/responses''
      else if protocol = GeminiGenerate then None
      else Some ''/v1/chat/completions'')"

definition streaming_path :: "UpstreamProfile \<Rightarrow> string \<Rightarrow> string" where
  "streaming_path profile protocol =
     (if pf_InferencePath profile \<noteq> '''' then pf_InferencePath profile
      else if protocol = AnthropicMessages then ''/v1/messages''
      else if protocol = OpenAIResponses then ''/responses''
      else if protocol = GeminiGenerate then ''/v1beta/models/{model}:streamGenerateContent?alt=sse''
      else ''/v1/chat/completions'')"

definition endpoint_of :: "UpstreamProfile \<Rightarrow> string \<Rightarrow> string \<Rightarrow> string" where
  "endpoint_of profile path model = trim_right_char (CHR ''/'') (pf_BaseURL profile) @ resolveInferencePath path model"

section \<open>Headers\<close>

text \<open>
  \<^verbatim>\<open>http.Header\<close> keys are canonical: upper case at the start and after a hyphen, unless a byte is
  not allowed in a header name.
\<close>

definition upper_byte :: "char \<Rightarrow> char" where
  "upper_byte c = (if 97 \<le> (of_char c :: nat) \<and> (of_char c :: nat) \<le> 122
     then char_of ((of_char c :: nat) - 32) else c)"

fun capitalise :: "bool \<Rightarrow> string \<Rightarrow> string" where
  "capitalise up [] = []"
| "capitalise up (c # cs) = (if up then upper_byte c else lower_byte c) # capitalise (c = CHR ''-'') cs"

definition token_byte :: "char \<Rightarrow> bool" where
  "token_byte c \<longleftrightarrow> is_alnum c \<or> c \<in> set ''!#$%&*+-.^_`|~'' \<or> c = CHR 0x27"

definition canonical_key :: "string \<Rightarrow> string" where
  "canonical_key k = (if list_all token_byte k then capitalise True k else k)"

type_synonym header = "(string, string) gomap"

definition header_set :: "string \<Rightarrow> string \<Rightarrow> header \<Rightarrow> header" where
  "header_set k v h = AList.update (canonical_key k) v h"

definition header_get :: "string \<Rightarrow> header \<Rightarrow> string" where
  "header_get k h = (case map_of h (canonical_key k) of None \<Rightarrow> '''' | Some v \<Rightarrow> v)"

definition header_default :: "string \<Rightarrow> string \<Rightarrow> header \<Rightarrow> header" where
  "header_default k v h = (if header_get k h = '''' then header_set k v h else h)"

text \<open>The roles of the decoded messages are an argument, absent where decoding failed.\<close>

definition copilotInitiator :: "string list option \<Rightarrow> string" where
  "copilotInitiator roles =
     (case roles of
        None \<Rightarrow> ''user''
      | Some rs \<Rightarrow> if list_ex (\<lambda>r. r = ''assistant'' \<or> r = ''tool'') rs then ''agent'' else ''user'')"

text \<open>\<open>fresh\<close> is the random part of the request's ID.\<close>

definition applyProviderRequestHeaders :: "string \<Rightarrow> string list option \<Rightarrow> string \<Rightarrow> header \<Rightarrow> header" where
  "applyProviderRequestHeaders fresh roles provider h =
     (if equal_fold provider ''windsurf'' then
        header_set ''X-Codeium-Request-Id'' (''windsurf-'' @ fresh)
          (header_default ''User-Agent'' ''Windsurf/1.20.9 Codeium/1.20.9'' h)
      else if equal_fold provider ''kiro'' then
        (let h1 = header_set ''amz-sdk-request'' ''attempt=1; max=3''
               (header_set ''amz-sdk-invocation-id'' (''kiro-'' @ fresh) (header_set ''Accept'' ''*/*'' h))
         in header_default ''X-Amz-Target'' ''AmazonCodeWhispererStreamingService.GenerateAssistantResponse''
              (header_default ''x-amzn-codewhisperer-optout'' ''true''
                (header_default ''x-amzn-kiro-agent-mode'' ''vibe'' h1)))
      else if equal_fold provider ''antigravity'' then header_default ''User-Agent'' ''antigravity/1.20.5 linux/x64'' h
      else if \<not> equal_fold provider ''copilot'' then h
      else
        (let h1 = fold (\<lambda>(k, v). header_default k v)
               [(''User-Agent'', ''GitHubCopilotChat/0.44.0''), (''copilot-integration-id'', ''vscode-chat''),
                (''editor-version'', ''vscode/1.109.3''), (''editor-plugin-version'', ''copilot-chat/0.44.0''),
                (''openai-intent'', ''conversation-panel''), (''x-github-api-version'', ''2025-05-01''),
                (''x-vscode-user-agent-library-version'', ''electron-fetch'')] h;
             requestID = ''copilot-'' @ fresh;
             h2 = header_set ''x-agent-task-id'' requestID
               (header_set ''x-interaction-id'' requestID (header_set ''x-request-id'' requestID h1))
         in header_set ''X-Initiator'' (copilotInitiator roles)
              (header_set ''x-interaction-type'' (header_get ''openai-intent'' h2) h2)))"

definition upstream_headers :: "string \<Rightarrow> string list option \<Rightarrow> string \<Rightarrow> string \<Rightarrow> Lease \<Rightarrow> header" where
  "upstream_headers fresh roles provider protocol lease =
     (let cr = ls_Credential lease; pr = ls_Profile lease;
          h0 = header_set ''Content-Type'' ''application/json'' [];
          h1 = (if cred_AccessToken cr = '''' then h0
                else if protocol = AnthropicMessages \<and> cred_Kind cr = ''static''
                then header_set ''x-api-key'' (cred_AccessToken cr) h0
                else if protocol = GeminiGenerate \<and> cred_Kind cr = ''static''
                then header_set ''x-goog-api-key'' (cred_AccessToken cr) h0
                else header_set ''Authorization'' (''Bearer '' @ cred_AccessToken cr) h0);
          h2 = (if pf_UserAgent pr = '''' then h1 else header_set ''User-Agent'' (pf_UserAgent pr) h1);
          h3 = fold (\<lambda>(k, v). header_set k v) (pf_ExtraHeaders pr) h2;
          h4 = applyProviderRequestHeaders fresh roles provider h3
      in if protocol = AnthropicMessages then header_set ''anthropic-version'' ''2023-06-01'' h4 else h4)"

section \<open>The reply\<close>

definition classifyHTTPWithReset :: "int \<Rightarrow> string \<Rightarrow> duration \<Rightarrow> error_class" where
  "classifyHTTPWithReset status body reset =
     (if status = 401 then ErrorAuthExpired
      else if status = 403 then
        (if contains (to_lower body) ''<html'' \<or> contains (to_lower body) ''<!doctype'' then ErrorForbiddenTransport
         else ErrorForbiddenCapability)
      else if status = 429 then (if reset > 0 then ErrorRateLimitedKnown else ErrorRateLimitedUnknown)
      else if status \<ge> 500 then ErrorUpstream5xx
      else ErrorBlocked)"

definition shouldFailoverStatus :: "int \<Rightarrow> bool" where
  "shouldFailoverStatus status \<longleftrightarrow> status = 401 \<or> status = 403 \<or> status = 429 \<or> status \<ge> 500"

text \<open>
  \<^verbatim>\<open>time.Unix(epoch, 0)\<close> keeps seconds since the year 1 in an \<^verbatim>\<open>int64\<close>, which a huge epoch wraps.
  The duration and date parsers of the standard library are arguments.
\<close>

definition time_unix :: "int \<Rightarrow> time" where
  "time_unix epoch = wrap64 (epoch + 62135596800) * second"

definition retryAfter ::
  "(string \<Rightarrow> duration option) \<Rightarrow> (string \<Rightarrow> time option) \<Rightarrow> string \<Rightarrow> string \<Rightarrow> time \<Rightarrow> duration" where
  "retryAfter parse_duration parse_http_time retry_after_header reset_header now =
     (let value = trim_space retry_after_header;
          by_seconds = (if value = '''' then None
            else case parse_duration (value @ ''s'') of Some d \<Rightarrow> if d > 0 then Some d else None | None \<Rightarrow> None);
          by_date = (if value = '''' then None
            else case parse_http_time value of Some t \<Rightarrow> if t > now then Some (time_sub t now) else None | None \<Rightarrow> None);
          reset = trim_space reset_header;
          by_reset = (if reset = '''' then None
            else case parse_int64 reset of
                Some epoch \<Rightarrow> if time_unix epoch > now then Some (time_sub (time_unix epoch) now) else None
              | None \<Rightarrow> None)
      in case by_seconds of Some d \<Rightarrow> d
       | None \<Rightarrow> (case by_date of Some d \<Rightarrow> d | None \<Rightarrow> (case by_reset of Some d \<Rightarrow> d | None \<Rightarrow> 0)))"

record usage =
  us_Input :: int
  us_Output :: int
  us_CacheRead :: int
  us_CacheWrite :: int

record upstream_request =
  uq_URL :: string
  uq_Header :: header
  uq_Body :: string

record http_reply =
  hr_StatusCode :: int
  hr_RetryAfter :: string
  hr_RateLimitReset :: string
  hr_Body :: string
  hr_ReadErr :: bool

record upstream_env =
  ue_marshalRequest :: "ChatCompletionRequest \<Rightarrow> string option"
  ue_convertRequest :: "string \<Rightarrow> string \<Rightarrow> string \<Rightarrow> string option"
  ue_convertResponse :: "string \<Rightarrow> string \<Rightarrow> string \<Rightarrow> string option"
  ue_parseUsage :: "string \<Rightarrow> string \<Rightarrow> usage option"
  ue_kiroPayload :: "UpstreamProfile \<Rightarrow> string \<Rightarrow> string \<Rightarrow> string option"
  ue_antigravityEnvelope :: "string \<Rightarrow> string \<Rightarrow> string \<Rightarrow> string \<Rightarrow> string option"
  ue_kiroResponse :: "string \<Rightarrow> string \<Rightarrow> string option"
  ue_antigravityResponse :: "string \<Rightarrow> string option"
  ue_roles :: "string \<Rightarrow> string list option"
  ue_fresh :: string
  ue_validURL :: "string \<Rightarrow> bool"
  ue_proxyClient :: "string \<Rightarrow> bool"
  ue_tlsClient :: "string \<Rightarrow> bool"
  ue_do :: "upstream_request \<Rightarrow> http_reply option"
  ue_parseDuration :: "string \<Rightarrow> duration option"
  ue_parseHTTPTime :: "string \<Rightarrow> time option"
  ue_now :: time

definition prepareProviderPayload :: "upstream_env \<Rightarrow> string \<Rightarrow> UpstreamProfile \<Rightarrow> string \<Rightarrow> string \<Rightarrow> string option" where
  "prepareProviderPayload env provider profile model payload =
     (if equal_fold provider ''kiro'' then ue_kiroPayload env profile model payload
      else if \<not> equal_fold provider ''antigravity'' then Some payload
      else
        (let projectID = trim_space (case map_of (pf_ExtraHeaders profile) ''X-Goog-User-Project'' of Some v \<Rightarrow> v | None \<Rightarrow> '''');
             userAgent = (if pf_UserAgent profile = '''' then ''antigravity/1.20.5 linux/x64'' else pf_UserAgent profile)
         in if projectID = '''' then None
            else ue_antigravityEnvelope env model projectID userAgent payload))"

definition normalizeProviderResponse :: "upstream_env \<Rightarrow> string \<Rightarrow> string \<Rightarrow> string \<Rightarrow> string option" where
  "normalizeProviderResponse env provider model body =
     (if equal_fold provider ''kiro'' then ue_kiroResponse env body model
      else if \<not> equal_fold provider ''antigravity'' then Some body
      else ue_antigravityResponse env body)"

definition normalizeProviderStreamEvent :: "upstream_env \<Rightarrow> string \<Rightarrow> string \<Rightarrow> string" where
  "normalizeProviderStreamEvent env provider data =
     (if \<not> equal_fold provider ''antigravity'' \<or> data = ''[DONE]'' then data
      else (case normalizeProviderResponse env provider '''' data of None \<Rightarrow> data | Some r \<Rightarrow> r))"

datatype call_error = MarshalError | UnsupportedProtocol | ConvertRequestError | PayloadError | MissingPath
  | RequestError | ProxyError | TLSProfileError | TransportError | ReadError | UpstreamHTTP int
  | NormalizeError | ConvertResponseError

record upstream_result =
  ur_Body :: string
  ur_Status :: int
  ur_Usage :: "usage option"
  ur_NetworkErr :: bool
  ur_Reset :: duration
  ur_Err :: "call_error option"

definition call_failed :: "int \<Rightarrow> bool \<Rightarrow> call_error \<Rightarrow> upstream_result" where
  "call_failed status network e = \<lparr>ur_Body = '''', ur_Status = status, ur_Usage = None,
     ur_NetworkErr = network, ur_Reset = 0, ur_Err = Some e\<rparr>"

definition maxBody :: int where
  "maxBody = 16 * 2 ^ 20"

definition limit_read :: "string \<Rightarrow> string" where
  "limit_read s = (if int (length s) \<le> maxBody then s else take (nat maxBody) s)"

text \<open>What the reply of the upstream becomes.\<close>

definition read_reply ::
  "upstream_env \<Rightarrow> string \<Rightarrow> string \<Rightarrow> string \<Rightarrow> string \<Rightarrow> http_reply \<Rightarrow> upstream_result" where
  "read_reply env provider model upstreamProtocol inboundProtocol reply =
     (let body = limit_read (hr_Body reply); status = hr_StatusCode reply;
          reset = retryAfter (ue_parseDuration env) (ue_parseHTTPTime env) (hr_RetryAfter reply) (hr_RateLimitReset reply) (ue_now env)
      in if hr_ReadErr reply then
           \<lparr>ur_Body = body, ur_Status = status, ur_Usage = None, ur_NetworkErr = True, ur_Reset = 0, ur_Err = Some ReadError\<rparr>
         else if status \<ge> 400 then
           \<lparr>ur_Body = body, ur_Status = status, ur_Usage = None, ur_NetworkErr = False, ur_Reset = reset,
            ur_Err = Some (UpstreamHTTP status)\<rparr>
         else (case normalizeProviderResponse env provider model body of
             None \<Rightarrow> (call_failed 502 False NormalizeError)\<lparr>ur_Reset := reset\<rparr>
           | Some body1 \<Rightarrow>
               (let parsedUsage = ue_parseUsage env upstreamProtocol body1;
                    converted = (if upstreamProtocol = inboundProtocol then Some body1
                      else ue_convertResponse env upstreamProtocol inboundProtocol body1)
                in case converted of
                    None \<Rightarrow> (call_failed 502 False ConvertResponseError)\<lparr>ur_Usage := parsedUsage, ur_Reset := reset\<rparr>
                  | Some body2 \<Rightarrow> \<lparr>ur_Body = body2, ur_Status = status, ur_Usage = parsedUsage, ur_NetworkErr = False,
                      ur_Reset = reset, ur_Err = None\<rparr>)))"

definition callUpstream ::
  "upstream_env \<Rightarrow> string \<Rightarrow> Lease \<Rightarrow> ChatCompletionRequest \<Rightarrow> string \<Rightarrow> upstream_result" where
  "callUpstream env provider lease request inboundProtocol =
     (let profile = ls_Profile lease; model = rq_Model request in
      case ue_marshalRequest env request of
        None \<Rightarrow> call_failed 400 False MarshalError
      | Some payload0 \<Rightarrow>
      (case selectedProtocol provider profile of
         None \<Rightarrow> call_failed 502 False UnsupportedProtocol
       | Some upstreamProtocol \<Rightarrow>
       (case (if upstreamProtocol = OpenAIChat then Some payload0
              else ue_convertRequest env OpenAIChat upstreamProtocol payload0) of
          None \<Rightarrow> call_failed 400 False ConvertRequestError
        | Some payload1 \<Rightarrow>
        (case prepareProviderPayload env provider profile model payload1 of
           None \<Rightarrow> call_failed 502 False PayloadError
         | Some payload \<Rightarrow>
         (case inference_path profile upstreamProtocol of
            None \<Rightarrow> call_failed 502 False MissingPath
          | Some path \<Rightarrow>
            (let endpoint = endpoint_of profile path model in
             if \<not> ue_validURL env endpoint then call_failed 502 False RequestError
             else if \<not> ue_proxyClient env (pf_Proxy profile) then call_failed 0 True ProxyError
             else if \<not> ue_tlsClient env (pf_TLSFingerprint profile) then call_failed 0 True TLSProfileError
             else (case ue_do env \<lparr>uq_URL = endpoint,
                     uq_Header = upstream_headers (ue_fresh env) (ue_roles env payload) provider upstreamProtocol lease,
                     uq_Body = payload\<rparr> of
                 None \<Rightarrow> call_failed 0 True TransportError
               | Some reply \<Rightarrow> read_reply env provider model upstreamProtocol inboundProtocol reply)))))))"

section \<open>Facts\<close>

lemma classify_valid: "ErrorClass_Valid (classifyHTTPWithReset status body reset)"
  by (simp add: classifyHTTPWithReset_def ErrorClass_Valid_def)

lemma classify_not_ok: "classifyHTTPWithReset status body reset \<noteq> ErrorOK"
  by (simp add: classifyHTTPWithReset_def)

text \<open>Unless the transport failed, a status below 400 means a reply, and an error status carries its error.\<close>

lemma read_reply_error:
  "ur_Status (read_reply env provider model up inb reply) \<ge> 400 \<Longrightarrow> ur_Err (read_reply env provider model up inb reply) \<noteq> None"
  by (auto simp: read_reply_def call_failed_def Let_def split: option.splits if_splits)

lemma callUpstream_error:
  "ur_Status (callUpstream env provider lease request inb) \<ge> 400 \<Longrightarrow> ur_Err (callUpstream env provider lease request inb) \<noteq> None"
  using read_reply_error
  by (auto simp: callUpstream_def call_failed_def Let_def split: option.splits if_splits)

lemma read_reply_status:
  "0 \<le> hr_StatusCode reply \<Longrightarrow> 0 \<le> ur_Status (read_reply env provider model up inb reply)"
  by (auto simp: read_reply_def call_failed_def Let_def split: option.splits if_splits)

lemma callUpstream_status:
  assumes "\<And>q reply. ue_do env q = Some reply \<Longrightarrow> 0 \<le> hr_StatusCode reply"
  shows "0 \<le> ur_Status (callUpstream env provider lease request inb)"
  using read_reply_status assms
  by (auto simp: callUpstream_def call_failed_def Let_def split: option.splits if_splits)

end
