(* ===== verification/Gateway.thy ===== *)
theory Gateway
  imports Upstream "HOL-Library.Multiset"
begin

text \<open>
  The request handler of the gateway (\<^verbatim>\<open>internal/gateway/server.go\<close>, \<^verbatim>\<open>internal/events/stream.go\<close>
  for the producer): a request takes its tenant's slot, leases an account, takes the account's
  slot, records that the attempt starts, calls the upstream, records how it ended, and retries at
  most once on another account.  The state is the scheduler, Redis, the event stream and the
  slots taken; clocks, random IDs, failures and the upstream are arguments, one set for each
  attempt.
\<close>

section \<open>Events\<close>

datatype gateway_event = Started AttemptStarted | Released Release

record event_env =
  ee_marshal :: "gateway_event \<Rightarrow> string option"
  ee_jsonValid :: "string \<Rightarrow> bool"

definition envelope :: "event_env \<Rightarrow> gateway_event \<Rightarrow> contract_error + StreamEvent" where
  "envelope ee ev =
     (case ev of
        Started s \<Rightarrow> NewStreamEvent EventTypeAttemptStarted (as_EventID s) (as_RequestID s) (as_AttemptID s)
          (as_ProducerID s) (as_OccurredAt s) (ee_marshal ee ev)
      | Released r \<Rightarrow> NewStreamEvent EventTypeRelease (rel_EventID r) (rel_RequestID r) (rel_AttemptID r)
          (rel_ProducerID r) (rel_OccurredAt r) (ee_marshal ee ev))"

text \<open>The producer validates the envelope and appends it; a lost answer is an error too.\<close>

definition Producer_Add ::
  "event_env \<Rightarrow> redis_conn \<Rightarrow> StreamEvent \<Rightarrow> gateway_event \<Rightarrow> gateway_event list \<Rightarrow> bool \<times> gateway_event list" where
  "Producer_Add ee conn e ev stream =
     (if conn = NoClient then (False, stream)
      else case StreamEvent_Validate (ee_jsonValid ee) e of
          Inl _ \<Rightarrow> (False, stream)
        | Inr _ \<Rightarrow> (case conn of
              Answered \<Rightarrow> (True, stream @ [ev])
            | ReplyLost \<Rightarrow> (False, stream @ [ev])
            | _ \<Rightarrow> (False, stream)))"

section \<open>The server\<close>

record Server =
  sv_Provider :: string
  sv_ChooseAllPlatforms :: bool
  sv_RequestTimeout :: duration
  sv_ProducerID :: string
  sv_snapshotFresh :: bool

text \<open>
  Beside the state, and not stored by the code, the release closures its acquire calls have returned
  and those it has called, each in order.  Whether the script a closure sends reaches Redis is
  \<open>run_release\<close>'s business, and so is a count whose answer was lost: no closure was returned for it,
  and it expires with its key.
\<close>

record gateway =
  gw_chooser :: chooser
  gw_redis :: redis
  gw_stream :: "gateway_event list"
  gw_granted :: "release_fn list"
  gw_called :: "release_fn list"

datatype handler_error = TenantRequired | ModelRequired | UnsupportedCapability | StaleSnapshot
  | LimitRefused limit_error | NoLease gateway_error | EventRejected | AttemptFailed | ReleaseFailed
  | NetworkError | CallFailed call_error | UsageUnavailable | BadRequest | BadPayload | UnsupportedUpstream
  | StreamFailed | Panicked

text \<open>The body, the status and the error a handler returns.\<close>

type_synonym answer = "string option \<times> int \<times> handler_error option"

record attempt_env =
  ae_chooseAt :: time
  ae_pinConn :: redis_conn
  ae_pinAt :: time
  ae_limitConn :: redis_conn
  ae_limitNow :: time
  ae_limitAt :: time
  ae_attemptID :: string
  ae_startID :: string
  ae_startedAt :: time
  ae_startConn :: redis_conn
  ae_upstream :: upstream_env
  ae_releasedAt :: time
  ae_latencyMS :: int
  ae_releaseConn :: redis_conn
  ae_slotSent :: bool
  ae_slotAt :: time
  ae_markAt :: time
  ae_markRandom :: "nat option"

record request_env =
  re_digest16 :: "string \<Rightarrow> string"
  re_sha256 :: "string \<Rightarrow> string"
  re_events :: event_env
  re_requestID :: string
  re_tenantConn :: redis_conn
  re_tenantNow :: time
  re_tenantAt :: time
  re_tenantSent :: bool
  re_tenantDone :: time
  re_lookupConn :: redis_conn
  re_lookupAt :: time
  re_attempt :: "int \<Rightarrow> attempt_env"

definition leaseProvider :: "Server \<Rightarrow> Lease \<Rightarrow> string" where
  "leaseProvider srv lease = (if ls_Provider lease \<noteq> '''' then ls_Provider lease else sv_Provider srv)"

definition criteriaPlatform :: "Server \<Rightarrow> string" where
  "criteriaPlatform srv = (if sv_ChooseAllPlatforms srv then '''' else sv_Provider srv)"

definition request_deadline :: "Server \<Rightarrow> duration" where
  "request_deadline srv = (if sv_RequestTimeout srv \<le> 0 then 120 * second else sv_RequestTimeout srv)"

definition pinSession ::
  "request_env \<Rightarrow> attempt_env \<Rightarrow> string \<Rightarrow> string \<Rightarrow> Lease \<Rightarrow> gateway \<Rightarrow> gateway" where
  "pinSession env ae tenantID sessionKey lease g =
     (if sessionKey = '''' then g
      else g\<lparr>gw_redis := Sticky_Pin (re_digest16 env) (ae_pinConn ae) (ae_pinAt ae) tenantID sessionKey
        (ls_AccountID lease) (wrap64 (lim_StickyTTL (ls_Limits lease) * second)) (gw_redis g)\<rparr>)"

definition take_slot :: "(limit_error + release_fn) \<times> redis \<Rightarrow> gateway \<Rightarrow> (limit_error + release_fn) \<times> gateway" where
  "take_slot res g =
     (fst res, g\<lparr>gw_redis := snd res, gw_granted := (case fst res of Inl _ \<Rightarrow> gw_granted g | Inr f \<Rightarrow> gw_granted g @ [f])\<rparr>)"

definition give_slot :: "bool \<Rightarrow> time \<Rightarrow> release_fn \<Rightarrow> gateway \<Rightarrow> gateway" where
  "give_slot sent rnow f g =
     g\<lparr>gw_redis := run_release sent rnow f (gw_redis g), gw_called := gw_called g @ [f]\<rparr>"

section \<open>Attempts\<close>

definition attempt_started ::
  "Server \<Rightarrow> request_env \<Rightarrow> attempt_env \<Rightarrow> Lease \<Rightarrow> string \<Rightarrow> string \<Rightarrow> int \<Rightarrow> AttemptStarted" where
  "attempt_started srv env ae lease model tenantID attemptNo =
     \<lparr>as_SchemaVersion = SchemaVersion, as_EventID = ae_startID ae, as_RequestID = re_requestID env,
      as_AttemptID = ae_attemptID ae, as_AttemptNo = attemptNo, as_ProducerID = sv_ProducerID srv,
      as_OccurredAt = ae_startedAt ae, as_AccountID = ls_AccountID lease, as_Provider = leaseProvider srv lease,
      as_Model = model, as_TenantID = tenantID, as_DeadlineAt = ae_startedAt ae + request_deadline srv\<rparr>"

definition release_of ::
  "Server \<Rightarrow> request_env \<Rightarrow> attempt_env \<Rightarrow> Lease \<Rightarrow> string \<Rightarrow> string \<Rightarrow> int \<Rightarrow> string \<Rightarrow> int \<Rightarrow> usage option \<Rightarrow> bool \<Rightarrow> error_class \<Rightarrow> Release"
where
  "release_of srv env ae lease model tenantID attemptNo inboundProtocol status parsed partial class =
     \<lparr>rel_SchemaVersion = SchemaVersion, rel_EventID = TerminalEventID (re_sha256 env) (ae_attemptID ae),
      rel_RequestID = re_requestID env, rel_AttemptID = ae_attemptID ae, rel_AttemptNo = attemptNo,
      rel_ProducerID = sv_ProducerID srv, rel_OccurredAt = ae_releasedAt ae, rel_AccountID = ls_AccountID lease,
      rel_Provider = leaseProvider srv lease, rel_StatusCode = status, rel_LatencyMS = ae_latencyMS ae,
      rel_TokensIn = (case parsed of Some u \<Rightarrow> us_Input u | None \<Rightarrow> 0),
      rel_TokensOut = (case parsed of Some u \<Rightarrow> us_Output u | None \<Rightarrow> 0),
      rel_CacheReadTokens = (case parsed of Some u \<Rightarrow> us_CacheRead u | None \<Rightarrow> 0),
      rel_CacheWriteTokens = (case parsed of Some u \<Rightarrow> us_CacheWrite u | None \<Rightarrow> 0),
      rel_Model = model, rel_TenantID = tenantID, rel_ErrorClass = class,
      rel_UsageSource = (if parsed = None then UsageSourceMissing else UsageSourceUpstream),
      rel_Partial = partial, rel_InboundProtocol = inboundProtocol\<rparr>"

text \<open>A whole response without usage, of an account that did not opt out.\<close>

definition integrity_failover :: "Lease \<Rightarrow> upstream_result \<Rightarrow> bool" where
  "integrity_failover lease ur \<longleftrightarrow> \<not> ur_NetworkErr ur \<and> ur_Status ur < 400 \<and> ur_Usage ur = None \<and>
     ls_UsageIntegrity lease \<noteq> UsageIntegrityZero \<and> ls_UsageIntegrity lease \<noteq> UsageIntegrityEstimated"

definition attempt_class :: "Lease \<Rightarrow> upstream_result \<Rightarrow> error_class" where
  "attempt_class lease ur =
     (if integrity_failover lease ur then ErrorUsageMissing
      else if ur_NetworkErr ur then ErrorNetwork
      else if ur_Status ur \<ge> 400 then
        (if ur_Status ur = 401 \<and> cred_Kind (ls_Credential lease) = ''static'' then ErrorAuthInvalid
         else classifyHTTPWithReset (ur_Status ur) (ur_Body ur) (ur_Reset ur))
      else ErrorOK)"

text \<open>What follows a recorded attempt: an answer, or the status and error to carry into a retry.\<close>

definition after_release ::
  "attempt_env \<Rightarrow> Lease \<Rightarrow> string \<Rightarrow> int \<Rightarrow> upstream_result \<Rightarrow> gateway \<Rightarrow> (answer + int \<times> handler_error) \<times> gateway"
where
  "after_release ae lease model attemptNo ur g =
     (if ur_NetworkErr ur then (Inl (None, 502, Some NetworkError), g)
      else if ur_Status ur \<ge> 400 then
        (let g1 = g\<lparr>gw_chooser := markTransportOrAccount (ae_markAt ae) (ae_markRandom ae) lease model
               (attempt_class lease ur) (ur_Reset ur) (gw_chooser g)\<rparr>;
             err = CallFailed (case ur_Err ur of Some e \<Rightarrow> e | None \<Rightarrow> UpstreamHTTP (ur_Status ur))
         in if shouldFailoverStatus (ur_Status ur) \<and> attemptNo < 2 then (Inr (ur_Status ur, err), g1)
            else (Inl (None, ur_Status ur, Some err), g1))
      else if ur_Usage ur = None \<and> integrity_failover lease ur then
        (if attemptNo < 2 then (Inr (502, UsageUnavailable), g) else (Inl (None, 502, Some UsageUnavailable), g))
      else (Inl (Some (ur_Body ur), 200, None), g))"

text \<open>One round of the loop, from the lease on: the account's slot, the two events and the call.\<close>

definition leased_attempt ::
  "Server \<Rightarrow> request_env \<Rightarrow> attempt_env \<Rightarrow> string \<Rightarrow> ChatCompletionRequest \<Rightarrow> string \<Rightarrow> int \<Rightarrow> Lease \<Rightarrow> gateway \<Rightarrow>
   (answer + int \<times> handler_error) \<times> gateway"
where
  "leased_attempt srv env ae tenantID request inboundProtocol attemptNo lease g0 =
     (case take_slot (Limiter_Acquire (ae_limitConn ae) (ae_limitNow ae) (ae_limitAt ae) lease (gw_redis g0)) g0 of
        (Inl e, g1) \<Rightarrow> (Inl (None, 429, Some (LimitRefused e)), g1)
      | (Inr slot, g1) \<Rightarrow>
          (let model = rq_Model request; ee = re_events env;
               give = give_slot (ae_slotSent ae) (ae_slotAt ae) slot;
               started = Started (attempt_started srv env ae lease model tenantID attemptNo)
           in case envelope ee started of
               Inl _ \<Rightarrow> (Inl (None, 500, Some EventRejected), give g1)
             | Inr e1 \<Rightarrow>
               (case Producer_Add ee (ae_startConn ae) e1 started (gw_stream g1) of
                  (False, stream1) \<Rightarrow> (Inl (None, 503, Some AttemptFailed), give (g1\<lparr>gw_stream := stream1\<rparr>))
                | (True, stream1) \<Rightarrow>
                  (let g2 = g1\<lparr>gw_stream := stream1\<rparr>;
                       ur = callUpstream (ae_upstream ae) (leaseProvider srv lease) lease request inboundProtocol;
                       released = Released (release_of srv env ae lease model tenantID attemptNo inboundProtocol
                         (ur_Status ur) (ur_Usage ur) False (attempt_class lease ur))
                   in case envelope ee released of
                       Inl _ \<Rightarrow> (Inl (None, 500, Some Panicked), g2)
                     | Inr e2 \<Rightarrow>
                       (case Producer_Add ee (ae_releaseConn ae) e2 released (gw_stream g2) of
                          (False, stream2) \<Rightarrow> (Inl (None, 503, Some ReleaseFailed), give (g2\<lparr>gw_stream := stream2\<rparr>))
                        | (True, stream2) \<Rightarrow>
                            after_release ae lease model attemptNo ur (give (g2\<lparr>gw_stream := stream2\<rparr>)))))))"

text \<open>The loop over the attempt numbers; the accounts already attempted are excluded.\<close>

fun attempt_loop ::
  "Server \<Rightarrow> request_env \<Rightarrow> AuthContext \<Rightarrow> string \<Rightarrow> Criteria \<Rightarrow> ChatCompletionRequest \<Rightarrow> string \<Rightarrow> string \<Rightarrow>
   int list \<Rightarrow> (int \<times> handler_error) option \<Rightarrow> string list \<Rightarrow> gateway \<Rightarrow> answer \<times> gateway"
where
  "attempt_loop srv env auth tenantID criteria request inboundProtocol pinned [] lastErr attempted g =
     ((None, 502, map_option snd lastErr), g)"
| "attempt_loop srv env auth tenantID criteria request inboundProtocol pinned (attemptNo # rest) lastErr attempted g =
     (let ae = re_attempt env attemptNo in
      case AcquirePreferring (gw_chooser g) (ae_chooseAt ae) criteria pinned attempted of
        Inl e \<Rightarrow>
          (case lastErr of
             Some (status, err) \<Rightarrow> ((None, if status = 0 then 502 else status, Some err), g)
           | None \<Rightarrow> ((None, if e = ErrQuotaExhausted then 429 else 503, Some (NoLease e)), g))
      | Inr lease \<Rightarrow>
          (let g1 = pinSession env ae tenantID (ax_SessionKey auth) lease g in
           case leased_attempt srv env ae tenantID request inboundProtocol attemptNo lease g1 of
             (Inl ans, g2) \<Rightarrow> (ans, g2)
           | (Inr next, g2) \<Rightarrow>
               attempt_loop srv env auth tenantID criteria request inboundProtocol pinned rest (Some next)
                 (ls_AccountID lease # attempted) g2))"

definition handleNonStreaming ::
  "Server \<Rightarrow> request_env \<Rightarrow> AuthContext \<Rightarrow> string \<Rightarrow> string \<Rightarrow> ChatCompletionRequest \<Rightarrow> string \<Rightarrow> gateway \<Rightarrow> answer \<times> gateway"
where
  "handleNonStreaming srv env auth tenantID group0 request inboundProtocol g =
     (if tenantID = '''' then ((None, 401, Some TenantRequired), g)
      else if rq_Model request = '''' then ((None, 400, Some ModelRequired), g)
      else if rq_Stream request \<or> containsUnsupportedMessageFields (rq_Messages request)
      then ((None, 400, Some UnsupportedCapability), g)
      else if \<not> sv_snapshotFresh srv then ((None, 503, Some StaleSnapshot), g)
      else
        (case take_slot (AcquireTenant (re_tenantConn env) (re_tenantNow env) (re_tenantAt env) tenantID (ax_Limits auth) (gw_redis g)) g of
           (Inl e, g1) \<Rightarrow> ((None, 429, Some (LimitRefused e)), g1)
         | (Inr slot, g1) \<Rightarrow>
             (let pinned = Sticky_Lookup (re_digest16 env) (re_lookupConn env) (re_lookupAt env) tenantID (ax_SessionKey auth) (gw_redis g1);
                  criteria = \<lparr>cr_Platform = criteriaPlatform srv, cr_Model = rq_Model request,
                    cr_Group = (if group0 = '''' then ''default'' else group0), cr_SessionKey = ''''\<rparr>;
                  (ans, g2) = attempt_loop srv env auth tenantID criteria request inboundProtocol pinned [1, 2] None [] g1
              in (ans, give_slot (re_tenantSent env) (re_tenantDone env) slot g2))))"

section \<open>What one attempt leaves behind\<close>

definition attempt_result :: "Server \<Rightarrow> request_env \<Rightarrow> ChatCompletionRequest \<Rightarrow> string \<Rightarrow> int \<times> Lease \<Rightarrow> upstream_result" where
  "attempt_result srv env request inb p =
     callUpstream (ae_upstream (re_attempt env (fst p))) (leaseProvider srv (snd p)) (snd p) request inb"

definition start_of :: "Server \<Rightarrow> request_env \<Rightarrow> string \<Rightarrow> ChatCompletionRequest \<Rightarrow> int \<times> Lease \<Rightarrow> gateway_event" where
  "start_of srv env tenantID request p =
     Started (attempt_started srv env (re_attempt env (fst p)) (snd p) (rq_Model request) tenantID (fst p))"

definition end_of :: "Server \<Rightarrow> request_env \<Rightarrow> string \<Rightarrow> ChatCompletionRequest \<Rightarrow> string \<Rightarrow> int \<times> Lease \<Rightarrow> gateway_event" where
  "end_of srv env tenantID request inb p =
     (let ur = attempt_result srv env request inb p in
      Released (release_of srv env (re_attempt env (fst p)) (snd p) (rq_Model request) tenantID (fst p) inb
        (ur_Status ur) (ur_Usage ur) False (attempt_class (snd p) ur)))"

lemma Producer_Add_stream:
  "Producer_Add ee conn e ev stream = (ok, stream') \<Longrightarrow> stream' = stream @ [ev] \<or> \<not> ok \<and> stream' = stream"
  by (auto simp: Producer_Add_def split: if_splits sum.splits redis_conn.splits)

lemma give_slot_simps [simp]:
  "gw_stream (give_slot sent rnow f g) = gw_stream g" "gw_chooser (give_slot sent rnow f g) = gw_chooser g"
  "gw_granted (give_slot sent rnow f g) = gw_granted g" "gw_called (give_slot sent rnow f g) = gw_called g @ [f]"
  by (simp_all add: give_slot_def)

lemma take_slot_simps:
  "take_slot res g = (Inl e, g') \<Longrightarrow> gw_stream g' = gw_stream g \<and> gw_chooser g' = gw_chooser g \<and>
     gw_granted g' = gw_granted g \<and> gw_called g' = gw_called g"
  "take_slot res g = (Inr f, g') \<Longrightarrow> gw_stream g' = gw_stream g \<and> gw_chooser g' = gw_chooser g \<and>
     gw_granted g' = gw_granted g @ [f] \<and> gw_called g' = gw_called g"
  by (auto simp: take_slot_def split: sum.splits)

text \<open>
  Between two states, every closure returned was called exactly once; or none was called that had
  not been returned, and none twice.
\<close>

definition slots_even :: "gateway \<Rightarrow> gateway \<Rightarrow> bool" where
  "slots_even g g' \<longleftrightarrow> (\<exists>slots calls. gw_granted g' = gw_granted g @ slots \<and> gw_called g' = gw_called g @ calls \<and> mset calls = mset slots)"

definition slots_within :: "gateway \<Rightarrow> gateway \<Rightarrow> bool" where
  "slots_within g g' \<longleftrightarrow> (\<exists>slots calls. gw_granted g' = gw_granted g @ slots \<and> gw_called g' = gw_called g @ calls \<and> mset calls \<subseteq># mset slots)"

lemma slots_even_within: "slots_even g g' \<Longrightarrow> slots_within g g'"
  by (auto simp: slots_even_def slots_within_def)

lemma slots_same:
  "gw_granted g' = gw_granted g \<Longrightarrow> gw_called g' = gw_called g \<Longrightarrow> slots_even g g'"
  "gw_granted g' = gw_granted g @ [f] \<Longrightarrow> gw_called g' = gw_called g @ [f] \<Longrightarrow> slots_even g g'"
  "gw_granted g' = gw_granted g @ fs \<Longrightarrow> gw_called g' = gw_called g \<Longrightarrow> slots_within g g'"
  by (auto simp: slots_even_def slots_within_def)

lemma slots_trans:
  "slots_even g g1 \<Longrightarrow> slots_even g1 g' \<Longrightarrow> slots_even g g'"
  "slots_within g g1 \<Longrightarrow> slots_within g1 g' \<Longrightarrow> slots_within g g'"
  unfolding slots_even_def slots_within_def by (fastforce simp: subset_mset.add_mono)+

lemma slots_around:
  assumes "gw_granted g1 = gw_granted g @ [f]" "gw_called g1 = gw_called g" "gw_granted g' = gw_granted g2" "gw_called g' = gw_called g2 @ [f]"
  shows "slots_even g1 g2 \<Longrightarrow> slots_even g g'" "slots_within g1 g2 \<Longrightarrow> slots_within g g'"
proof -
  show "slots_even g g'" if even: "slots_even g1 g2"
  proof -
    obtain slots calls where "gw_granted g2 = gw_granted g @ f # slots" "gw_called g2 = gw_called g @ calls" "mset calls = mset slots"
      using even assms(1,2) by (auto simp: slots_even_def)
    then show ?thesis using assms(3,4) unfolding slots_even_def by (intro exI[of _ "f # slots"] exI[of _ "calls @ [f]"]) simp
  qed
  show "slots_within g g'" if within: "slots_within g1 g2"
  proof -
    obtain slots calls where "gw_granted g2 = gw_granted g @ f # slots" "gw_called g2 = gw_called g @ calls" "mset calls \<subseteq># mset slots"
      using within assms(1,2) by (auto simp: slots_within_def)
    then show ?thesis using assms(3,4) unfolding slots_within_def by (intro exI[of _ "f # slots"] exI[of _ "calls @ [f]"]) simp
  qed
qed

lemma leased_attempt_cases:
  fixes srv env tenantID request inb n lease
  defines "p \<equiv> (n, lease)"
  assumes "leased_attempt srv env (re_attempt env n) tenantID request inb n lease g = (res, g')"
  obtains (unrecorded) st e where "res = Inl (None, st, Some e)" "st \<noteq> 200" "e \<noteq> ReleaseFailed" "e \<noteq> Panicked"
      "e \<notin> range CallFailed"
      "gw_stream g' = gw_stream g \<or> gw_stream g' = gw_stream g @ [start_of srv env tenantID request p] \<and> e = AttemptFailed"
      "slots_even g g'" "gw_chooser g' = gw_chooser g"
  | (unreleased) st e where "res = Inl (None, st, Some e)" "st \<noteq> 200" "e = ReleaseFailed \<or> e = Panicked"
      "gw_stream g' = gw_stream g @ [start_of srv env tenantID request p]"
      "e \<noteq> Panicked \<Longrightarrow> slots_even g g'" "slots_within g g'" "gw_chooser g' = gw_chooser g"
  | (unacknowledged) "res = Inl (None, 503, Some ReleaseFailed)"
      "gw_stream g' = gw_stream g @ [start_of srv env tenantID request p, end_of srv env tenantID request inb p]"
      "slots_even g g'" "gw_chooser g' = gw_chooser g"
  | (recorded) g1 where
      "(res, g') = after_release (re_attempt env n) lease (rq_Model request) n (attempt_result srv env request inb p) g1"
      "gw_stream g1 = gw_stream g @ [start_of srv env tenantID request p, end_of srv env tenantID request inb p]"
      "slots_even g g1" "gw_chooser g1 = gw_chooser g"
proof -
  let ?ae = "re_attempt env n" and ?ee = "re_events env"
  let ?s = "start_of srv env tenantID request p" and ?r = "end_of srv env tenantID request inb p"
  let ?ur = "attempt_result srv env request inb p"
  let ?give = "give_slot (ae_slotSent ?ae) (ae_slotAt ?ae)"
  obtain tk g1 where tk: "take_slot (Limiter_Acquire (ae_limitConn ?ae) (ae_limitNow ?ae) (ae_limitAt ?ae) lease (gw_redis g)) g = (tk, g1)"
    by fastforce
  have s: "Started (attempt_started srv env ?ae lease (rq_Model request) tenantID n) = ?s"
    by (simp add: start_of_def p_def)
  have u: "callUpstream (ae_upstream ?ae) (leaseProvider srv lease) lease request inb = ?ur"
    by (simp add: attempt_result_def p_def)
  have r: "Released (release_of srv env ?ae lease (rq_Model request) tenantID n inb (ur_Status ?ur) (ur_Usage ?ur) False
      (attempt_class lease ?ur)) = ?r" by (simp add: end_of_def p_def Let_def)
  note run = assms(2)[unfolded leased_attempt_def tk prod.case Let_def s u r]
  show thesis
  proof (cases tk)
    case (Inl e)
    then show thesis using run take_slot_simps(1)[OF tk[unfolded Inl]] by (intro unrecorded) (auto intro: slots_same)
  next
    case (Inr slot)
    note g1 = take_slot_simps(2)[OF tk[unfolded Inr]]
    show thesis
    proof (cases "envelope ?ee ?s")
      case (Inl e)
      then show thesis using run Inr g1 by (intro unrecorded) (auto intro: slots_same)
    next
      case e1: (Inr e1)
      obtain ok1 st1 where a1: "Producer_Add ?ee (ae_startConn ?ae) e1 ?s (gw_stream g1) = (ok1, st1)" by fastforce
      show thesis
      proof (cases ok1)
        case False
        then show thesis using run Inr g1 e1 a1 Producer_Add_stream[OF a1] by (intro unrecorded) (auto intro: slots_same)
      next
        case ok1: True
        have st1: "st1 = gw_stream g @ [?s]" using Producer_Add_stream[OF a1] ok1 g1 by simp
        show thesis
        proof (cases "envelope ?ee ?r")
          case (Inl e)
          then show thesis using run Inr g1 e1 a1 ok1 st1 by (intro unreleased[where e = Panicked]) (auto intro: slots_same)
        next
          case e2: (Inr e2)
          obtain ok2 st2 where a2: "Producer_Add ?ee (ae_releaseConn ?ae) e2 ?r st1 = (ok2, st2)" by fastforce
          show thesis
          proof (cases ok2)
            case False
            then have out: "res = Inl (None, 503, Some ReleaseFailed)" "g' = ?give slot (g1\<lparr>gw_stream := st2\<rparr>)"
              using run Inr g1 e1 a1 ok1 e2 a2 by simp_all
            from Producer_Add_stream[OF a2] False consider "st2 = st1 @ [?r]" | "st2 = st1" by blast
            then show thesis
            proof cases
              case 1
              then show thesis using out g1 st1 by (intro unacknowledged) (auto intro: slots_same)
            next
              case 2
              have even: "slots_even g g'" using out g1 by (simp add: slots_same(2))
              show thesis by (rule unreleased[where e = ReleaseFailed and st = 503]) (use 2 out g1 st1 even slots_even_within[OF even] in simp_all)
            qed
          next
            case True
            have st2: "st2 = gw_stream g @ [?s, ?r]" using Producer_Add_stream[OF a2] True st1 by simp
            have "(res, g') = after_release ?ae lease (rq_Model request) n ?ur (?give slot (g1\<lparr>gw_stream := st2\<rparr>))"
              using run Inr g1 e1 a1 ok1 e2 a2 True by simp
            then show thesis by (rule recorded) (use g1 st2 in \<open>auto intro: slots_same\<close>)
          qed
        qed
      qed
    qed
  qed
qed


text \<open>The reply the client is answered with: whole, metered or opted out, and recorded as served.\<close>

definition served :: "Lease \<Rightarrow> upstream_result \<Rightarrow> string \<Rightarrow> bool" where
  "served lease ur body \<longleftrightarrow> \<not> ur_NetworkErr ur \<and> ur_Status ur < 400 \<and> ur_Body ur = body \<and>
     attempt_class lease ur = ErrorOK \<and>
     (ur_Usage ur \<noteq> None \<or> ls_UsageIntegrity lease \<in> {UsageIntegrityZero, UsageIntegrityEstimated})"

lemma attempt_class_OK:
  "attempt_class lease ur = ErrorOK \<longleftrightarrow>
     \<not> ur_NetworkErr ur \<and> ur_Status ur < 400 \<and> \<not> integrity_failover lease ur"
  using classify_not_ok by (auto simp: attempt_class_def)

lemma after_release_cases:
  assumes "(res, g') = after_release ae lease model n ur g"
  obtains (serve) "res = Inl (Some (ur_Body ur), 200, None)" "served lease ur (ur_Body ur)" "g' = g"
  | (refuse) st e where "res = Inl (None, st, Some e)" "st \<noteq> 200" "e \<noteq> ReleaseFailed" "e \<noteq> Panicked"
      "attempt_class lease ur \<noteq> ErrorOK" "gw_stream g' = gw_stream g" "gw_granted g' = gw_granted g \<and> gw_called g' = gw_called g"
  | (retry) st e where "res = Inr (st, e)" "st \<noteq> 200" "e \<noteq> ReleaseFailed" "e \<noteq> Panicked" "n < 2"
      "attempt_class lease ur \<noteq> ErrorOK" "gw_stream g' = gw_stream g" "gw_granted g' = gw_granted g \<and> gw_called g' = gw_called g"
      "gw_chooser g' = gw_chooser g \<or> (\<exists>class. gw_chooser g' = markTransportOrAccount (ae_markAt ae)
         (ae_markRandom ae) lease model class (ur_Reset ur) (gw_chooser g))"
proof (cases "ur_NetworkErr ur")
  case True
  then show thesis using assms by (intro refuse) (auto simp: after_release_def attempt_class_OK)
next
  case net: False
  show thesis
  proof (cases "ur_Status ur \<ge> 400")
    case st: True
    show thesis
    proof (cases "shouldFailoverStatus (ur_Status ur) \<and> n < 2")
      case True
      then show thesis using assms net st by (intro retry) (auto simp: after_release_def attempt_class_OK Let_def)
    next
      case False
      then show thesis using assms net st by (intro refuse) (auto simp: after_release_def attempt_class_OK Let_def)
    qed
  next
    case False
    then show thesis using assms net
      by (cases "integrity_failover lease ur"; cases "n < 2")
        (auto simp: after_release_def attempt_class_OK served_def integrity_failover_def intro: refuse retry serve)
  qed
qed

lemma pinSession_simps [simp]:
  "gw_stream (pinSession env ae t k lease g) = gw_stream g" "gw_granted (pinSession env ae t k lease g) = gw_granted g"
  "gw_called (pinSession env ae t k lease g) = gw_called g"
  "gw_chooser (pinSession env ae t k lease g) = gw_chooser g"
  by (simp_all add: pinSession_def)

section \<open>What a request leaves behind\<close>

text \<open>
  The attempts of a request, each with its number and lease: those recorded from start to end,
  and the start of a last one without an end: Redis did not acknowledge one of its events, or the
  handler panicked.
\<close>

definition accounted ::
  "Server \<Rightarrow> request_env \<Rightarrow> string \<Rightarrow> ChatCompletionRequest \<Rightarrow> string \<Rightarrow> int list \<Rightarrow> (int \<times> Lease) list \<Rightarrow> gateway_event list \<Rightarrow> answer \<Rightarrow> bool"
where
  "accounted srv env tenantID request inb ns done tail ans \<longleftrightarrow>
     map fst done = take (length done) ns \<and> distinct (map (ls_AccountID \<circ> snd) done) \<and>
     (tail = [] \<or> fst (snd ans) \<noteq> 200 \<and> length done < length ns \<and>
        snd (snd ans) \<in> {Some AttemptFailed, Some ReleaseFailed, Some Panicked} \<and>
        (\<exists>lease. tail = [start_of srv env tenantID request (ns ! length done, lease)])) \<and>
     (\<forall>p \<in> set done. attempt_class (snd p) (attempt_result srv env request inb p) = ErrorOK \<longrightarrow>
        p = last done \<and> tail = [] \<and> (fst (snd ans) = 200 \<or> snd (snd ans) = Some ReleaseFailed)) \<and>
     (fst (snd ans) = 200 \<longrightarrow> done \<noteq> [] \<and> snd (snd ans) = None \<and>
        (\<exists>body. fst ans = Some body \<and> served (snd (last done)) (attempt_result srv env request inb (last done)) body))"

text \<open>A lease on an account of the pool.\<close>

definition leased_from :: "chooser \<Rightarrow> Lease \<Rightarrow> bool" where
  "leased_from c lease \<longleftrightarrow> (\<exists>now a. a \<in> snd ` set (ch_accounts c) \<and> lease = lease_of now a)"

lemma acquired_from:
  assumes "chooser_inv c" "AcquirePreferring c now cr preferred ex = Inr lease"
  shows "leased_from c lease"
proof -
  have "maps_wf c" using assms(1) by (simp add: chooser_inv_def)
  then obtain a where "map_of (ch_accounts c) (ls_AccountID lease) = Some a" "lease = lease_of now a"
    using assms(2) by (rule acquired_lease)
  then show ?thesis unfolding leased_from_def by (force dest: map_of_SomeD)
qed

lemma marked_accounts: "ch_accounts (markTransportOrAccount now rnd lease model class reset c) = ch_accounts c"
  by (simp add: markTransportOrAccount_def MarkEgressRejected_def Let_def)

lemma attempt_loop_accounted:
  assumes "chooser_inv (gw_chooser g)"
    and "attempt_loop srv env auth tenantID criteria request inb pinned ns lastErr attempted g = (ans, g')"
    and "\<And>st e. lastErr = Some (st, e) \<Longrightarrow> st \<noteq> 200 \<and> e \<noteq> ReleaseFailed \<and> e \<noteq> Panicked"
  shows "\<exists>done tail. accounted srv env tenantID request inb ns done tail ans \<and>
    set (map (ls_AccountID \<circ> snd) done) \<inter> set attempted = {} \<and>
    gw_stream g' = gw_stream g @ concat (map (\<lambda>p. [start_of srv env tenantID request p, end_of srv env tenantID request inb p]) done) @ tail \<and>
    (\<forall>p \<in> set done. leased_from (gw_chooser g) (snd p)) \<and>
    (snd (snd ans) \<noteq> Some Panicked \<longrightarrow> slots_even g g') \<and> slots_within g g'"
  using assms
proof (induction ns arbitrary: lastErr attempted g)
  case Nil
  then show ?case by (intro exI[of _ "[]"]) (auto simp: accounted_def slots_same slots_even_within)
next
  case (Cons n ns)
  show ?case
  proof (cases "AcquirePreferring (gw_chooser g) (ae_chooseAt (re_attempt env n)) criteria pinned attempted")
    case (Inl e)
    then show ?thesis using Cons.prems
      by (intro exI[of _ "[]"]) (auto simp: accounted_def Let_def slots_same slots_even_within split: option.splits prod.splits if_splits)
  next
    case (Inr lease)
    let ?g1 = "pinSession env (re_attempt env n) tenantID (ax_SessionKey auth) lease g"
    let ?p = "(n, lease)"
    have from0: "leased_from (gw_chooser g) lease" by (rule acquired_from[OF Cons.prems(1) Inr])
    have pin: "slots_even g ?g1" by (simp add: slots_same)
    have fresh: "ls_AccountID lease \<notin> set attempted" by (rule acquired_not_excluded[OF Cons.prems(1) Inr])
    obtain res g2 where la: "leased_attempt srv env (re_attempt env n) tenantID request inb n lease ?g1 = (res, g2)" by fastforce
    have run: "(case res of Inl a \<Rightarrow> (a, g2) | Inr nx \<Rightarrow> attempt_loop srv env auth tenantID criteria request inb pinned ns
        (Some nx) (ls_AccountID lease # attempted) g2) = (ans, g')"
      using Cons.prems(2) by (simp add: Let_def Inr la)
    show ?thesis
      using la
    proof (cases rule: leased_attempt_cases)
      case (unrecorded st e)
      then show ?thesis using run
        by (intro exI[of _ "[]"] exI[of _ "if gw_stream g2 = gw_stream g then [] else [start_of srv env tenantID request ?p]"])
          (auto simp: accounted_def intro: slots_trans(1)[OF pin] slots_even_within)
    next
      case (unreleased st e)
      then show ?thesis using run slots_trans(1)[OF pin] slots_trans(2)[OF slots_even_within[OF pin]]
        by (intro exI[of _ "[]"] exI[of _ "[start_of srv env tenantID request ?p]"]) (auto simp: accounted_def)
    next
      case unacknowledged
      then show ?thesis using run fresh from0 slots_trans(1)[OF pin]
        by (intro exI[of _ "[?p]"] exI[of _ "[]"]) (auto simp: accounted_def intro: slots_even_within)
    next
      case (recorded g3)
      have even: "slots_even g g2" if "gw_granted g2 = gw_granted g3 \<and> gw_called g2 = gw_called g3"
        using slots_trans(1)[OF slots_trans(1)[OF pin recorded(3)] slots_same(1)] that by simp
      from recorded(1) show ?thesis
      proof (cases rule: after_release_cases)
        case serve
        then show ?thesis using run fresh from0 recorded even
          by (intro exI[of _ "[?p]"] exI[of _ "[]"]) (auto simp: accounted_def intro: slots_even_within)
      next
        case (refuse st e)
        then show ?thesis using run fresh from0 recorded even
          by (intro exI[of _ "[?p]"] exI[of _ "[]"]) (auto simp: accounted_def intro: slots_even_within)
      next
        case (retry st e)
        have inv: "chooser_inv (gw_chooser g2)" using retry(9) recorded(4) Cons.prems(1) markTransportOrAccount_inv by auto
        have rest: "attempt_loop srv env auth tenantID criteria request inb pinned ns (Some (st, e))
            (ls_AccountID lease # attempted) g2 = (ans, g')" using run retry by simp
        from Cons.IH[OF inv rest] retry obtain ds tail where ih: "accounted srv env tenantID request inb ns ds tail ans"
          "set (map (ls_AccountID \<circ> snd) ds) \<inter> set (ls_AccountID lease # attempted) = {}"
          "gw_stream g' = gw_stream g2 @ concat (map (\<lambda>p. [start_of srv env tenantID request p, end_of srv env tenantID request inb p]) ds) @ tail"
          "\<forall>p \<in> set ds. leased_from (gw_chooser g2) (snd p)"
          "snd (snd ans) \<noteq> Some Panicked \<longrightarrow> slots_even g2 g'" "slots_within g2 g'" by auto
        have acc: "ch_accounts (gw_chooser g2) = ch_accounts (gw_chooser g)" using retry(9) recorded(4) marked_accounts by auto
        have lf: "\<forall>p \<in> set (?p # ds). leased_from (gw_chooser g) (snd p)" using ih(4) from0 by (simp add: leased_from_def acc)
        have ev: "slots_even g g2" using even retry(8) by blast
        have sl: "snd (snd ans) \<noteq> Some Panicked \<longrightarrow> slots_even g g'" "slots_within g g'"
          using ih(5,6) slots_trans(1)[OF ev] slots_trans(2)[OF slots_even_within[OF ev]] by blast+
        have "accounted srv env tenantID request inb (n # ns) (?p # ds) tail ans"
          using ih(1,2) retry(6) unfolding accounted_def by (auto simp: image_iff)
        then show ?thesis using ih(2,3) fresh retry recorded lf sl
          by (intro exI[of _ "?p # ds"] exI[of _ tail]) auto
      qed
    qed
  qed
qed


section \<open>Properties\<close>

text \<open>A server, and an upstream that answers each attempt with a given status.\<close>

definition sample_server :: Server where
  "sample_server = \<lparr>sv_Provider = ''apikey'', sv_ChooseAllPlatforms = True, sv_RequestTimeout = 0,
     sv_ProducerID = ''gateway-1'', sv_snapshotFresh = True\<rparr>"

definition sample_upstream :: "int \<Rightarrow> upstream_env" where
  "sample_upstream status = \<lparr>ue_marshalRequest = (\<lambda>q. Some ''{}''), ue_convertRequest = (\<lambda>from to p. Some p),
     ue_convertResponse = (\<lambda>from to b. Some b),
     ue_parseUsage = (\<lambda>protocol b. Some \<lparr>us_Input = 3, us_Output = 4, us_CacheRead = 0, us_CacheWrite = 0\<rparr>),
     ue_kiroPayload = (\<lambda>profile model p. None), ue_antigravityEnvelope = (\<lambda>model project agent p. None),
     ue_kiroResponse = (\<lambda>b model. None), ue_antigravityResponse = (\<lambda>b. None), ue_roles = (\<lambda>p. None), ue_fresh = ''0'',
     ue_validURL = (\<lambda>u. True), ue_proxyClient = (\<lambda>x. True), ue_tlsClient = (\<lambda>x. True),
     ue_do = (\<lambda>q. Some \<lparr>hr_StatusCode = status, hr_RetryAfter = '''', hr_RateLimitReset = '''',
       hr_Body = ''hello'', hr_ReadErr = False\<rparr>),
     ue_parseDuration = (\<lambda>s. None), ue_parseHTTPTime = (\<lambda>s. None), ue_now = 0\<rparr>"

definition sample_attempt :: "upstream_env \<Rightarrow> string \<Rightarrow> attempt_env" where
  "sample_attempt up n = \<lparr>ae_chooseAt = 10, ae_pinConn = Answered, ae_pinAt = 10, ae_limitConn = Answered,
     ae_limitNow = unix_epoch, ae_limitAt = 10, ae_attemptID = ''attempt-'' @ n, ae_startID = ''start-'' @ n,
     ae_startedAt = 11, ae_startConn = Answered, ae_upstream = up, ae_releasedAt = 12, ae_latencyMS = 0,
     ae_releaseConn = Answered, ae_slotSent = True, ae_slotAt = 12, ae_markAt = 12, ae_markRandom = None\<rparr>"

definition sample_env :: "upstream_env \<Rightarrow> upstream_env \<Rightarrow> request_env" where
  "sample_env up1 up2 = \<lparr>re_digest16 = (\<lambda>x. replicate 32 CHR ''0''), re_sha256 = (\<lambda>x. x),
     re_events = \<lparr>ee_marshal = (\<lambda>e. Some ''{}''), ee_jsonValid = (\<lambda>s. True)\<rparr>, re_requestID = ''req-1'',
     re_tenantConn = Answered, re_tenantNow = unix_epoch, re_tenantAt = 9, re_tenantSent = True, re_tenantDone = 13,
     re_lookupConn = Answered, re_lookupAt = 9,
     re_attempt = (\<lambda>n. if n = 1 then sample_attempt up1 ''1'' else sample_attempt up2 ''2'')\<rparr>"

definition sample_auth :: AuthContext where
  "sample_auth = \<lparr>ax_TenantID = ''t1'', ax_PrincipalID = ''p1'', ax_TokenID = ''k1'', ax_Group = ''default'',
     ax_Limits = \<lparr>tl_MaxConcurrency = 4, tl_RPM = 60\<rparr>, ax_BillingBlocked = False, ax_SessionKey = ''s''\<rparr>"

definition sample_request :: ChatCompletionRequest where
  "sample_request = \<lparr>rq_Model = ''m'', rq_Messages = [], rq_Stream = False, rq_Tools = [], rq_MaxTokens = None,
     rq_Temperature = None, rq_TopP = None, rq_Stop = JNull\<rparr>"

definition sample_gateway :: gateway where
  "sample_gateway = \<lparr>gw_chooser = demo_pool, gw_redis = Map.empty, gw_stream = [], gw_granted = [], gw_called = []\<rparr>"

lemma sample_retry_serves:
  "fst (handleNonStreaming sample_server (sample_env (sample_upstream 503) (sample_upstream 200)) sample_auth
     ''t1'' '''' sample_request OpenAIChat sample_gateway) = (Some ''hello'', 200, None)"
  by code_simp

lemma sample_chooser_inv: "chooser_inv (gw_chooser sample_gateway)"
  using chooser_reachable_inv[OF demo_pool_reachable] by (simp add: sample_gateway_def)

text \<open>Without its loop, the handler refuses, or runs the loop between the tenant's slot.\<close>

lemma handler_cases:
  assumes "handleNonStreaming srv env auth tenantID grp request inb g = (ans, g')"
  obtains (refused) e where "fst ans = None" "fst (snd ans) \<in> {400, 401, 429, 503}" "snd (snd ans) = Some e"
      "e \<in> {TenantRequired, ModelRequired, UnsupportedCapability, StaleSnapshot} \<union> range LimitRefused"
      "gw_stream g' = gw_stream g" "slots_even g g'" "gw_chooser g' = gw_chooser g"
  | (looped) g1 g2 criteria pinned where
      "attempt_loop srv env auth tenantID criteria request inb pinned [1, 2] None [] g1 = (ans, g2)"
      "gw_stream g1 = gw_stream g" "gw_chooser g1 = gw_chooser g" "gw_stream g' = gw_stream g2" "gw_chooser g' = gw_chooser g2"
      "slots_even g1 g2 \<longrightarrow> slots_even g g'" "slots_within g1 g2 \<longrightarrow> slots_within g g'"
proof (cases "tenantID = '''' \<or> rq_Model request = '''' \<or> rq_Stream request \<or>
    containsUnsupportedMessageFields (rq_Messages request) \<or> \<not> sv_snapshotFresh srv")
  case True
  then have "\<exists>e. snd (snd ans) = Some e \<and> e \<in> {TenantRequired, ModelRequired, UnsupportedCapability, StaleSnapshot} \<and>
      fst ans = None \<and> fst (snd ans) \<in> {400, 401, 429, 503} \<and> g' = g"
    using assms by (auto simp: handleNonStreaming_def split: if_splits)
  then show thesis by (auto intro!: refused simp: slots_same(1))
next
  case False
  obtain tk g1 where tk: "take_slot (AcquireTenant (re_tenantConn env) (re_tenantNow env) (re_tenantAt env) tenantID
      (ax_Limits auth) (gw_redis g)) g = (tk, g1)" by fastforce
  show thesis
  proof (cases tk)
    case (Inl e)
    then show thesis using assms False tk take_slot_simps(1)[OF tk[unfolded Inl]]
      by (intro refused) (auto simp: handleNonStreaming_def slots_same)
  next
    case (Inr slot)
    let ?pinned = "Sticky_Lookup (re_digest16 env) (re_lookupConn env) (re_lookupAt env) tenantID (ax_SessionKey auth) (gw_redis g1)"
    let ?criteria = "\<lparr>cr_Platform = criteriaPlatform srv, cr_Model = rq_Model request,
      cr_Group = (if grp = '''' then ''default'' else grp), cr_SessionKey = ''''\<rparr>"
    obtain a g2 where l: "attempt_loop srv env auth tenantID ?criteria request inb ?pinned [1, 2] None [] g1 = (a, g2)" by fastforce
    have a: "ans = a" and g': "g' = give_slot (re_tenantSent env) (re_tenantDone env) slot g2"
      using assms False tk Inr l by (simp_all add: handleNonStreaming_def Let_def del: attempt_loop.simps)
    note g1 = take_slot_simps(2)[OF tk[unfolded Inr]]
    have around: "gw_granted g1 = gw_granted g @ [slot]" "gw_called g1 = gw_called g" "gw_granted g' = gw_granted g2"
      "gw_called g' = gw_called g2 @ [slot]" using g1 g' by simp_all
    show thesis by (rule looped[OF l[folded a]]) (use g1 g' slots_around[OF around] in simp_all)
  qed
qed

lemma handler_accounted:
  assumes "chooser_inv (gw_chooser g)"
    and "handleNonStreaming srv env auth tenantID grp request inb g = (ans, g')"
  shows "\<exists>done tail. accounted srv env tenantID request inb [1, 2] done tail ans \<and>
    gw_stream g' = gw_stream g @ concat (map (\<lambda>p. [start_of srv env tenantID request p,
      end_of srv env tenantID request inb p]) done) @ tail \<and>
    (\<forall>p \<in> set done. leased_from (gw_chooser g) (snd p)) \<and>
    (\<exists>slots calls. gw_granted g' = gw_granted g @ slots \<and> gw_called g' = gw_called g @ calls \<and> mset calls \<subseteq># mset slots \<and>
       (snd (snd ans) \<noteq> Some Panicked \<longrightarrow> mset calls = mset slots))"
  using assms(2)
proof (cases rule: handler_cases)
  case (refused e)
  then show ?thesis by (intro exI[of _ "[]"]) (auto simp: accounted_def slots_even_def)
next
  case (looped g1 g2 criteria pinned)
  from looped(3) assms(1) have "chooser_inv (gw_chooser g1)" by simp
  from attempt_loop_accounted[OF this looped(1)] obtain ds tail where l: "accounted srv env tenantID request inb [1, 2] ds tail ans"
    "gw_stream g2 = gw_stream g1 @ concat (map (\<lambda>p. [start_of srv env tenantID request p,
      end_of srv env tenantID request inb p]) ds) @ tail"
    "\<forall>p \<in> set ds. leased_from (gw_chooser g1) (snd p)"
    "snd (snd ans) \<noteq> Some Panicked \<longrightarrow> slots_even g1 g2" "slots_within g1 g2" by blast
  then have "\<exists>slots calls. gw_granted g' = gw_granted g @ slots \<and> gw_called g' = gw_called g @ calls \<and> mset calls \<subseteq># mset slots \<and>
       (snd (snd ans) \<noteq> Some Panicked \<longrightarrow> mset calls = mset slots)"
    using looped(6,7) by (cases "snd (snd ans) = Some Panicked") (auto simp: slots_even_def slots_within_def)
  with l show ?thesis using looped(2-4) by (intro exI[of _ ds] exI[of _ tail]) simp
qed



section \<open>Who pays for a request that cannot be converted\<close>

lemma read_reply_not_convert: "ur_Err (read_reply env provider model up inb reply) \<noteq> Some ConvertRequestError"
  by (auto simp: read_reply_def call_failed_def Let_def split: option.splits)

lemma callUpstream_shape:
  "(\<exists>st net e. callUpstream env provider lease request inb = call_failed st net e \<and>
      (e = ConvertRequestError \<longrightarrow> st = 400 \<and> \<not> net)) \<or>
   (\<exists>model up reply. callUpstream env provider lease request inb = read_reply env provider model up inb reply)"
  (is "?P (callUpstream env provider lease request inb)")
proof -
  have f: "e = ConvertRequestError \<longrightarrow> st = 400 \<and> \<not> net \<Longrightarrow> ?P (call_failed st net e)" for st net e by blast
  have r: "?P (read_reply env provider model up inb reply)" for model up reply by blast
  show ?thesis unfolding callUpstream_def Let_def
    by (intro option.split[of ?P, THEN iffD2] if_split[of ?P, THEN iffD2] conjI impI allI f r) simp_all
qed

lemma callUpstream_convert:
  assumes "ur_Err (callUpstream env provider lease request inb) = Some ConvertRequestError"
  shows "ur_Status (callUpstream env provider lease request inb) = 400 \<and>
    \<not> ur_NetworkErr (callUpstream env provider lease request inb) \<and> ur_Reset (callUpstream env provider lease request inb) = 0"
  using callUpstream_shape[of env provider lease request inb] assms read_reply_not_convert[of env provider]
  by (elim disjE exE conjE) (simp_all add: call_failed_def)

text \<open>The account of an attempt is cooled as if it had been blocked.\<close>

definition cooled_as_blocked :: "time \<Rightarrow> string \<Rightarrow> string \<Rightarrow> chooser \<Rightarrow> bool" where
  "cooled_as_blocked now accountID model c \<longleftrightarrow>
     (\<exists>cd. map_of (ch_cooling c) (accountID, model) = Some cd \<and> now + 48 * second \<le> cd_until cd)"

lemma blocked_cools: "cooled_as_blocked now a model (MarkFailure now rnd a model ErrorBlocked 0 c)"
  using withJitter_bounds(1)[of "60 * second" rnd]
  by (auto simp: cooled_as_blocked_def MarkFailure_def Let_def gomap_simps cooldownDuration_def second_def max_int64_def)

lemma convert_attempt_cools:
  assumes "leased_attempt srv env (re_attempt env n) tenantID request inb n lease g = (Inl (body, st, Some (CallFailed ConvertRequestError)), g')"
  shows "st = 400 \<and> cooled_as_blocked (ae_markAt (re_attempt env n)) (ls_AccountID lease) (rq_Model request) (gw_chooser g') \<and>
    (\<exists>r. last (gw_stream g') = Released r \<and> rel_ErrorClass r = ErrorBlocked \<and> rel_AccountID r = ls_AccountID lease)"
  using assms
proof (cases rule: leased_attempt_cases)
  case (recorded g1)
  let ?ur = "attempt_result srv env request inb (n, lease)"
  have err: "ur_Err ?ur = Some ConvertRequestError"
    using recorded(1) by (auto simp: after_release_def Let_def split: if_splits option.splits)
  have st: "ur_Status ?ur = 400" "\<not> ur_NetworkErr ?ur" "ur_Reset ?ur = 0"
    using callUpstream_convert err unfolding attempt_result_def by blast+
  have cl: "attempt_class lease ?ur = ErrorBlocked"
    using st by (simp add: attempt_class_def integrity_failover_def classifyHTTPWithReset_def)
  have "st = 400" "gw_chooser g' = MarkFailure (ae_markAt (re_attempt env n)) (ae_markRandom (re_attempt env n))
      (ls_AccountID lease) (rq_Model request) ErrorBlocked 0 (gw_chooser g1)" "gw_stream g' = gw_stream g1"
    using recorded(1) st cl by (auto simp: after_release_def Let_def shouldFailoverStatus_def markTransportOrAccount_def)
  then show ?thesis using blocked_cools recorded(2) cl by (simp add: end_of_def Let_def release_of_def)
qed auto

lemma convert_loop_cools:
  assumes "attempt_loop srv env auth tenantID criteria request inb pinned ns lastErr attempted g =
      ((body, st, Some (CallFailed ConvertRequestError)), g')"
    and "\<And>st. lastErr \<noteq> Some (st, CallFailed ConvertRequestError)"
  shows "st = 400 \<and> (\<exists>r. last (gw_stream g') = Released r \<and> rel_ErrorClass r = ErrorBlocked \<and>
    (\<exists>now. cooled_as_blocked now (rel_AccountID r) (rq_Model request) (gw_chooser g')))"
  using assms
proof (induction ns arbitrary: lastErr attempted g)
  case Nil
  then show ?case by auto
next
  case (Cons n ns)
  show ?case
  proof (cases "AcquirePreferring (gw_chooser g) (ae_chooseAt (re_attempt env n)) criteria pinned attempted")
    case (Inl e)
    then show ?thesis using Cons.prems by (auto simp: Let_def split: option.splits)
  next
    case (Inr lease)
    let ?g1 = "pinSession env (re_attempt env n) tenantID (ax_SessionKey auth) lease g"
    obtain res g2 where la: "leased_attempt srv env (re_attempt env n) tenantID request inb n lease ?g1 = (res, g2)" by fastforce
    have run: "(case res of Inl a \<Rightarrow> (a, g2) | Inr nx \<Rightarrow> attempt_loop srv env auth tenantID criteria request inb pinned ns
        (Some nx) (ls_AccountID lease # attempted) g2) = ((body, st, Some (CallFailed ConvertRequestError)), g')"
      using Cons.prems(1) by (simp add: Let_def Inr la)
    show ?thesis
    proof (cases res)
      case (Inl a)
      then have "a = (body, st, Some (CallFailed ConvertRequestError))" "g2 = g'" using run by simp_all
      then show ?thesis using convert_attempt_cools[of srv env n tenantID request inb lease ?g1 body st g'] la Inl by auto
    next
      case (Inr nx)
      obtain st' e where nx: "nx = (st', e)" by (cases nx)
      have "e \<noteq> CallFailed ConvertRequestError"
        using la[unfolded Inr nx]
      proof (cases rule: leased_attempt_cases)
        case (recorded g3)
        have "st' = 400" "shouldFailoverStatus st'" if "e = CallFailed ConvertRequestError"
          using recorded(1) that callUpstream_convert[of _ _ lease request inb]
          by (auto simp: after_release_def Let_def attempt_result_def split: if_splits option.splits)
        then show ?thesis by (auto simp: shouldFailoverStatus_def)
      qed simp_all
      then show ?thesis using Cons.IH[of "Some nx" "ls_AccountID lease # attempted" g2] run Inr nx by simp
    qed
  qed
qed

text \<open>
  The account pays for a request the gateway itself cannot convert.  A client's request that
  the protocol converter refuses is answered 400 without an upstream call; but the attempt is
  recorded against the leased account as \<open>blocked\<close>, the class of risk control, and the account is
  cooled for at least 48 seconds.
\<close>

theorem unconvertible_request_cools:
  assumes "handleNonStreaming srv env auth tenantID grp request inb g =
    ((body, st, Some (CallFailed ConvertRequestError)), g')"
  shows "st = 400 \<and> (\<exists>r. last (gw_stream g') = Released r \<and> rel_ErrorClass r = ErrorBlocked \<and>
    (\<exists>now. cooled_as_blocked now (rel_AccountID r) (rq_Model request) (gw_chooser g')))"
  using assms
proof (cases rule: handler_cases)
  case (looped g1 g2 criteria pinned)
  from convert_loop_cools[OF looped(1)] looped show ?thesis by simp
qed auto

definition refusing_upstream :: upstream_env where
  "refusing_upstream = (sample_upstream 200)\<lparr>ue_convertRequest := \<lambda>from to p. None\<rparr>"

theorem unconvertible_request_cools_witness:
  "\<exists>g'. handleNonStreaming sample_server (sample_env refusing_upstream refusing_upstream) sample_auth
     ''t1'' '''' sample_request OpenAIChat sample_gateway = ((None, 400, Some (CallFailed ConvertRequestError)), g') \<and>
     (\<exists>r. last (gw_stream g') = Released r \<and> rel_ErrorClass r = ErrorBlocked)"
proof -
  have "fst (handleNonStreaming sample_server (sample_env refusing_upstream refusing_upstream) sample_auth
     ''t1'' '''' sample_request OpenAIChat sample_gateway) = (None, 400, Some (CallFailed ConvertRequestError))" by code_simp
  then obtain g' where "handleNonStreaming sample_server (sample_env refusing_upstream refusing_upstream) sample_auth
     ''t1'' '''' sample_request OpenAIChat sample_gateway = ((None, 400, Some (CallFailed ConvertRequestError)), g')"
    by (metis prod.collapse)
  with unconvertible_request_cools[OF this] show ?thesis by blast
qed

end
