(* ===== verification/EventStream.thy ===== *)
theory EventStream
  imports Limiter Ledger "HOL-Library.Product_Lexorder"
begin

text \<open>
  The event stream between the gateways and control (\<^verbatim>\<open>internal/events/stream.go\<close>): the producer's
  fields, the consumer group with redelivery, the retry counters, the dead-letter queue and the
  trimming.  The stream commands of Redis are functions on the stream with their documented
  meaning; how each call goes is an argument.  The handler is an interface: its laws are a locale,
  interpreted on control's ledger.
\<close>

section \<open>Redis streams\<close>

text \<open>An entry's ID is a time in milliseconds and a sequence number, printed \<^verbatim>\<open>ms-seq\<close>.\<close>

type_synonym stream_id = "int \<times> int"
type_synonym stream_fields = "(string, string) gomap"
type_synonym message = "stream_id \<times> stream_fields"

definition show_id :: "stream_id \<Rightarrow> string" where
  "show_id i = show_int (fst i) @ ''-'' @ show_int (snd i)"

record pending_entry =
  xp_id :: stream_id
  xp_consumer :: string
  xp_since :: time

record consumer_group =
  cg_last :: stream_id
  cg_pending :: "pending_entry list"

record dead_letter =
  dl_original_id :: string
  dl_category :: string
  dl_attempts :: string
  dl_values :: stream_fields

record event_stream =
  xs_entries :: "message list"
  xs_last :: stream_id
  xs_group :: "consumer_group option"
  xs_dlq :: "dead_letter list"
  xs_keys :: redis

text \<open>\<^verbatim>\<open>XADD *\<close>: the server's clock in milliseconds, or the next sequence number after the last ID.\<close>

definition unix_milli :: "time \<Rightarrow> int" where
  "unix_milli t = (t - unix_epoch) div 1000000"

definition next_id :: "time \<Rightarrow> stream_id \<Rightarrow> stream_id" where
  "next_id now l = (if fst l < unix_milli now then (unix_milli now, 0) else (fst l, snd l + 1))"

definition xadd :: "time \<Rightarrow> stream_fields \<Rightarrow> event_stream \<Rightarrow> event_stream" where
  "xadd now fs s =
     (let i = next_id now (xs_last s) in s\<lparr>xs_entries := xs_entries s @ [(i, fs)], xs_last := i\<rparr>)"

text \<open>\<^verbatim>\<open>XGROUP CREATE ... 0 MKSTREAM\<close>; an existing group is the \<^verbatim>\<open>BUSYGROUP\<close> error.\<close>

definition xgroup_create :: "event_stream \<Rightarrow> event_stream" where
  "xgroup_create s = (case xs_group s of
     None \<Rightarrow> s\<lparr>xs_group := Some \<lparr>cg_last = (0, 0), cg_pending = []\<rparr>\<rparr> | Some _ \<Rightarrow> s)"

text \<open>\<^verbatim>\<open>XREADGROUP ... >\<close>: the entries never delivered to the group, now pending for the consumer.\<close>

definition unread :: "event_stream \<Rightarrow> consumer_group \<Rightarrow> message list" where
  "unread s g = filter (\<lambda>m. cg_last g < fst m) (xs_entries s)"

definition xreadgroup :: "time \<Rightarrow> string \<Rightarrow> nat \<Rightarrow> event_stream \<Rightarrow> (message list \<times> event_stream) option" where
  "xreadgroup now who count s =
     (case xs_group s of
        None \<Rightarrow> None
      | Some g \<Rightarrow>
          (let ms = take count (unread s g) in
           Some (ms, if ms = [] then s else s\<lparr>xs_group := Some \<lparr>cg_last = fst (last ms),
             cg_pending = cg_pending g @ map (\<lambda>m. \<lparr>xp_id = fst m, xp_consumer = who, xp_since = now\<rparr>) ms\<rparr>\<rparr>)))"

text \<open>\<^verbatim>\<open>XPENDING - + count IDLE\<close>, in the order of the IDs, and \<^verbatim>\<open>XCLAIM\<close>, which drops pending
  entries that are no longer in the stream.\<close>

definition xpending :: "time \<Rightarrow> duration \<Rightarrow> nat \<Rightarrow> event_stream \<Rightarrow> stream_id list option" where
  "xpending now idle count s =
     map_option (\<lambda>g. take count (map xp_id (filter (\<lambda>p. now - xp_since p \<ge> idle) (cg_pending g)))) (xs_group s)"

definition xclaim :: "time \<Rightarrow> string \<Rightarrow> duration \<Rightarrow> stream_id list \<Rightarrow> event_stream \<Rightarrow> (message list \<times> event_stream) option" where
  "xclaim now who idle ids s =
     (case xs_group s of
        None \<Rightarrow> None
      | Some g \<Rightarrow>
          (let due = (\<lambda>p. xp_id p \<in> set ids \<and> now - xp_since p \<ge> idle);
               kept = (\<lambda>p. xp_id p \<in> fst ` set (xs_entries s));
               claimed = map xp_id (filter (\<lambda>p. due p \<and> kept p) (cg_pending g))
           in Some (filter (\<lambda>m. fst m \<in> set claimed) (xs_entries s),
                s\<lparr>xs_group := Some (g\<lparr>cg_pending :=
                  map (\<lambda>p. if due p then p\<lparr>xp_consumer := who, xp_since := now\<rparr> else p)
                    (filter (\<lambda>p. due p \<longrightarrow> kept p) (cg_pending g))\<rparr>)\<rparr>)))"

definition xack :: "stream_id \<Rightarrow> event_stream \<Rightarrow> event_stream" where
  "xack i s = s\<lparr>xs_group := map_option (\<lambda>g. g\<lparr>cg_pending := filter (\<lambda>p. xp_id p \<noteq> i) (cg_pending g)\<rparr>) (xs_group s)\<rparr>"

definition xtrim_minid :: "stream_id \<Rightarrow> event_stream \<Rightarrow> event_stream" where
  "xtrim_minid i s = s\<lparr>xs_entries := filter (\<lambda>m. i \<le> fst m) (xs_entries s)\<rparr>"


section \<open>Events on the stream\<close>

text \<open>
  JSON, the text of a time and the digest are arguments.  The consumer formats an integer field
  and reads it back with \<^verbatim>\<open>strconv.Atoi\<close>.
\<close>

record codec =
  cd_formatTime :: "time \<Rightarrow> string"
  cd_parseTime :: "string \<Rightarrow> time option"
  cd_jsonValid :: "string \<Rightarrow> bool"
  cd_started :: "string \<Rightarrow> AttemptStarted option"
  cd_release :: "string \<Rightarrow> Release option"
  cd_sha :: "string \<Rightarrow> string"

definition event_fields :: "codec \<Rightarrow> StreamEvent \<Rightarrow> stream_fields" where
  "event_fields cd e =
     [(''event_type'', ev_EventType e), (''schema_version'', show_int (ev_SchemaVersion e)),
      (''event_id'', ev_EventID e), (''request_id'', ev_RequestID e), (''attempt_id'', ev_AttemptID e),
      (''producer_id'', ev_ProducerID e), (''occurred_at'', cd_formatTime cd (ev_OccurredAt e)),
      (''payload'', ev_Payload e)]"

definition Producer_XAdd :: "codec \<Rightarrow> redis_conn \<Rightarrow> time \<Rightarrow> StreamEvent \<Rightarrow> event_stream \<Rightarrow> bool \<times> event_stream" where
  "Producer_XAdd cd conn rnow e s =
     (if conn = NoClient then (False, s)
      else case StreamEvent_Validate (cd_jsonValid cd) e of
          Inl _ \<Rightarrow> (False, s)
        | Inr _ \<Rightarrow> (conn = Answered, if conn = NotRun then s else xadd rnow (event_fields cd e) s))"

datatype envelope_error = MissingStreamField string | BadSchemaVersion | BadOccurredAt

fun get_fields :: "string list \<Rightarrow> stream_fields \<Rightarrow> envelope_error + string list" where
  "get_fields [] values = Inr []"
| "get_fields (k # ks) values =
     (case map_of values k of
        None \<Rightarrow> Inl (MissingStreamField k)
      | Some v \<Rightarrow> map_sum id (Cons v) (get_fields ks values))"

definition decode :: "codec \<Rightarrow> stream_fields \<Rightarrow> envelope_error + StreamEvent" where
  "decode cd values =
     (case get_fields [''event_type'', ''schema_version'', ''event_id'', ''request_id'', ''attempt_id'',
         ''producer_id'', ''occurred_at'', ''payload''] values of
        Inl e \<Rightarrow> Inl e
      | Inr f \<Rightarrow>
          (case parse_int64 (f ! 1) of
             None \<Rightarrow> Inl BadSchemaVersion
           | Some schema \<Rightarrow>
               (case cd_parseTime cd (f ! 6) of
                  None \<Rightarrow> Inl BadOccurredAt
                | Some occurred \<Rightarrow> Inr \<lparr>ev_EventType = f ! 0, ev_SchemaVersion = schema, ev_EventID = f ! 2,
                    ev_RequestID = f ! 3, ev_AttemptID = f ! 4, ev_ProducerID = f ! 5,
                    ev_OccurredAt = occurred, ev_Payload = f ! 7\<rparr>)))"

definition validateAttemptIdentity :: "StreamEvent \<Rightarrow> AttemptStarted \<Rightarrow> bool" where
  "validateAttemptIdentity e p \<longleftrightarrow> ev_EventID e = as_EventID p \<and> ev_RequestID e = as_RequestID p \<and>
     ev_AttemptID e = as_AttemptID p \<and> ev_ProducerID e = as_ProducerID p"

definition validateReleaseIdentity :: "StreamEvent \<Rightarrow> Release \<Rightarrow> bool" where
  "validateReleaseIdentity e p \<longleftrightarrow> ev_EventID e = rel_EventID p \<and> ev_RequestID e = rel_RequestID p \<and>
     ev_AttemptID e = rel_AttemptID p \<and> ev_ProducerID e = rel_ProducerID p"

text \<open>What a message asks of the handler, or the category it is parked under.\<close>

datatype work = OpenAttempt AttemptStarted | CloseAttempt Release

definition work_of :: "codec \<Rightarrow> stream_fields \<Rightarrow> string + work" where
  "work_of cd values =
     (case decode cd values of
        Inl _ \<Rightarrow> Inl ''invalid_envelope''
      | Inr e \<Rightarrow>
          (case StreamEvent_Validate (cd_jsonValid cd) e of
             Inl _ \<Rightarrow> Inl ''invalid_contract''
           | Inr _ \<Rightarrow>
               if ev_EventType e = EventTypeAttemptStarted then
                 (case cd_started cd (ev_Payload e) of
                    None \<Rightarrow> Inl ''invalid_json''
                  | Some p \<Rightarrow>
                      if \<not> validateAttemptIdentity e p then Inl ''invalid_contract''
                      else (case AttemptStarted_Validate p of Inl _ \<Rightarrow> Inl ''invalid_contract'' | Inr _ \<Rightarrow> Inr (OpenAttempt p)))
               else
                 (case cd_release cd (ev_Payload e) of
                    None \<Rightarrow> Inl ''invalid_json''
                  | Some p \<Rightarrow>
                      if \<not> validateReleaseIdentity e p then Inl ''invalid_contract''
                      else (case Release_Validate (cd_sha cd) p of Inl _ \<Rightarrow> Inl ''invalid_contract'' | Inr _ \<Rightarrow> Inr (CloseAttempt p)))))"

definition dlqCategories :: "string list" where
  "dlqCategories = [''invalid_envelope'', ''invalid_contract'', ''invalid_json'', ''retry_exhausted'']"

section \<open>The consumer\<close>

definition MaxRetries :: int where
  "MaxRetries = 5"

definition ReclaimIdle :: duration where
  "ReclaimIdle = 60 * second"

definition Retention :: duration where
  "Retention = 7 * 24 * 3600 * second"

text \<open>The expiry of a counter, in milliseconds.\<close>

definition retryTTL :: int where
  "retryTTL = 7 * 24 * 3600 * 1000"

definition retryKey :: "stream_id \<Rightarrow> string" where
  "retryKey i = ''gateway:events:retry:'' @ show_id i"

text \<open>The consumer's side of the world: the stream, and the state of its handler.\<close>

record 'h pipeline =
  pl_stream :: event_stream
  pl_handler :: 'h

datatype consume_error = RedisError | HandlerError | MissingDependency

text \<open>How the calls of one message go; \<open>mv_fault\<close> is the handler's own failure.\<close>

record message_env =
  mv_now :: time
  mv_incr :: redis_conn
  mv_expire :: redis_conn
  mv_get :: redis_conn
  mv_dlq :: redis_conn
  mv_ack :: redis_conn
  mv_del :: redis_conn
  mv_fault :: bool
  mv_handledAt :: time

definition ran_on :: "redis_conn \<Rightarrow> bool" where
  "ran_on conn \<longleftrightarrow> conn = Answered \<or> conn = ReplyLost"

definition on_keys :: "redis_conn \<Rightarrow> (redis \<Rightarrow> redis) \<Rightarrow> event_stream \<Rightarrow> event_stream" where
  "on_keys conn f s = (if ran_on conn then s\<lparr>xs_keys := f (xs_keys s)\<rparr> else s)"

definition on_stream :: "redis_conn \<Rightarrow> (event_stream \<Rightarrow> event_stream) \<Rightarrow> event_stream \<Rightarrow> event_stream" where
  "on_stream conn f s = (if ran_on conn then f s else s)"

text \<open>Acknowledging: the message leaves the pending list, then its counter is deleted.\<close>

definition acknowledge :: "message_env \<Rightarrow> stream_id \<Rightarrow> event_stream \<Rightarrow> event_stream \<times> consume_error option" where
  "acknowledge mv i s =
     (let s1 = on_stream (mv_ack mv) (xack i) s in
      if mv_ack mv \<noteq> Answered then (s1, Some RedisError)
      else (on_keys (mv_del mv) (redis_del (retryKey i)) s1, None))"

definition deadLetter :: "message_env \<Rightarrow> message \<Rightarrow> string \<Rightarrow> event_stream \<Rightarrow> event_stream \<times> consume_error option" where
  "deadLetter mv m category s =
     (let retries = (if mv_get mv \<noteq> Answered then ''''
            else case redis_get (mv_now mv) (retryKey (fst m)) (xs_keys s) of Inr (Some v) \<Rightarrow> v | _ \<Rightarrow> '''');
          s1 = on_stream (mv_dlq mv) (\<lambda>s. s\<lparr>xs_dlq := xs_dlq s @
            [\<lparr>dl_original_id = show_id (fst m), dl_category = category, dl_attempts = retries, dl_values = snd m\<rparr>]\<rparr>) s
      in if mv_dlq mv \<noteq> Answered then (s1, Some RedisError) else acknowledge mv (fst m) s1)"

definition process ::
  "codec \<Rightarrow> (bool \<Rightarrow> time \<Rightarrow> work \<Rightarrow> 'h \<Rightarrow> 'h option) \<Rightarrow> message_env \<Rightarrow> message \<Rightarrow> 'h pipeline \<Rightarrow> 'h pipeline \<times> consume_error option"
where
  "process cd handle mv m pl =
     (let s = pl_stream pl; park = (\<lambda>category s. case deadLetter mv m category s of (s', e) \<Rightarrow> (pl\<lparr>pl_stream := s'\<rparr>, e)) in
      case work_of cd (snd m) of
        Inl category \<Rightarrow> park category s
      | Inr w \<Rightarrow>
          (case redis_incr (mv_now mv) (retryKey (fst m)) (xs_keys s) of
             None \<Rightarrow> (pl, Some RedisError)
           | Some (attempt, keys) \<Rightarrow>
               if \<not> ran_on (mv_incr mv) then (pl, Some RedisError)
               else if mv_incr mv \<noteq> Answered then (pl\<lparr>pl_stream := s\<lparr>xs_keys := keys\<rparr>\<rparr>, Some RedisError)
               else
                 (let s1 = on_keys (mv_expire mv) (redis_pexpire (mv_now mv) (retryKey (fst m)) retryTTL)
                        (s\<lparr>xs_keys := keys\<rparr>)
                  in if attempt > MaxRetries then park ''retry_exhausted'' s1
                     else (case handle (mv_fault mv) (mv_handledAt mv) w (pl_handler pl) of
                         None \<Rightarrow> (pl\<lparr>pl_stream := s1\<rparr>, Some HandlerError)
                       | Some h \<Rightarrow> (case acknowledge mv (fst m) s1 of
                             (s2, e) \<Rightarrow> (\<lparr>pl_stream = s2, pl_handler = h\<rparr>, e))))))"

fun process_all ::
  "codec \<Rightarrow> (bool \<Rightarrow> time \<Rightarrow> work \<Rightarrow> 'h \<Rightarrow> 'h option) \<Rightarrow> (stream_id \<Rightarrow> message_env) \<Rightarrow> message list \<Rightarrow> 'h pipeline \<Rightarrow>
   'h pipeline \<times> consume_error option"
where
  "process_all cd handle mv [] pl = (pl, None)"
| "process_all cd handle mv (m # ms) pl =
     (case process cd handle (mv (fst m)) m pl of
        (pl', None) \<Rightarrow> process_all cd handle mv ms pl'
      | (pl', Some e) \<Rightarrow> (pl', Some e))"


record run_env =
  rv_name :: string
  rv_group :: redis_conn
  rv_pending :: redis_conn
  rv_pendingAt :: time
  rv_claim :: redis_conn
  rv_claimAt :: time
  rv_reclaimed :: "stream_id \<Rightarrow> message_env"
  rv_read :: redis_conn
  rv_readAt :: time
  rv_fresh :: "stream_id \<Rightarrow> message_env"
  rv_now :: time

definition reclaim ::
  "codec \<Rightarrow> (bool \<Rightarrow> time \<Rightarrow> work \<Rightarrow> 'h \<Rightarrow> 'h option) \<Rightarrow> run_env \<Rightarrow> string \<Rightarrow> 'h pipeline \<Rightarrow> 'h pipeline \<times> consume_error option"
where
  "reclaim cd handle rv who pl =
     (if rv_pending rv \<noteq> Answered then (pl, Some RedisError)
      else case xpending (rv_pendingAt rv) ReclaimIdle 32 (pl_stream pl) of
        None \<Rightarrow> (pl, Some RedisError)
      | Some ids \<Rightarrow>
          if ids = [] then (pl, None)
          else if \<not> ran_on (rv_claim rv) then (pl, Some RedisError)
          else (case xclaim (rv_claimAt rv) who ReclaimIdle ids (pl_stream pl) of
              None \<Rightarrow> (pl, Some RedisError)
            | Some (claimed, s) \<Rightarrow>
                if rv_claim rv \<noteq> Answered then (pl\<lparr>pl_stream := s\<rparr>, Some RedisError)
                else process_all cd handle (rv_reclaimed rv) claimed (pl\<lparr>pl_stream := s\<rparr>)))"

definition read_new ::
  "codec \<Rightarrow> (bool \<Rightarrow> time \<Rightarrow> work \<Rightarrow> 'h \<Rightarrow> 'h option) \<Rightarrow> run_env \<Rightarrow> string \<Rightarrow> 'h pipeline \<Rightarrow> 'h pipeline \<times> consume_error option"
where
  "read_new cd handle rv who pl =
     (if \<not> ran_on (rv_read rv) then (pl, Some RedisError)
      else case xreadgroup (rv_readAt rv) who 32 (pl_stream pl) of
        None \<Rightarrow> (pl, Some RedisError)
      | Some (ms, s) \<Rightarrow>
          if rv_read rv \<noteq> Answered then (pl\<lparr>pl_stream := s\<rparr>, Some RedisError)
          else process_all cd handle (rv_fresh rv) ms (pl\<lparr>pl_stream := s\<rparr>))"

text \<open>\<open>recover\<close> closes what expired before a given time; it has the calls' failures as its own.\<close>

definition Consumer_RunOnce ::
  "codec \<Rightarrow> (bool \<Rightarrow> time \<Rightarrow> work \<Rightarrow> 'h \<Rightarrow> 'h option) \<Rightarrow> (time \<Rightarrow> 'h \<Rightarrow> 'h option) \<Rightarrow> run_env \<Rightarrow> 'h pipeline \<Rightarrow>
   'h pipeline \<times> consume_error option"
where
  "Consumer_RunOnce cd handle recover rv pl =
     (let who = (if rv_name rv = '''' then ''control-1'' else rv_name rv);
          pl1 = pl\<lparr>pl_stream := on_stream (rv_group rv) xgroup_create (pl_stream pl)\<rparr>
      in if rv_group rv = NoClient then (pl, Some MissingDependency)
         else if rv_group rv \<noteq> Answered then (pl1, Some RedisError)
         else case reclaim cd handle rv who pl1 of
             (pl2, Some e) \<Rightarrow> (pl2, Some e)
           | (pl2, None) \<Rightarrow>
               (case read_new cd handle rv who pl2 of
                  (pl3, Some e) \<Rightarrow> (pl3, Some e)
                | (pl3, None) \<Rightarrow>
                    (case recover (rv_now rv - 5 * 60 * second) (pl_handler pl3) of
                       None \<Rightarrow> (pl3, Some HandlerError)
                     | Some h \<Rightarrow> (pl3\<lparr>pl_handler := h\<rparr>, None))))"

text \<open>Trimming: seven days back, and never past the oldest pending entry.\<close>

definition parse_id :: "string \<Rightarrow> stream_id option" where
  "parse_id s =
     (let ms = takeWhile (\<lambda>c. c \<noteq> CHR ''-'') s; rest = dropWhile (\<lambda>c. c \<noteq> CHR ''-'') s in
      if rest = [] then None
      else case parse_int64 ms of
          None \<Rightarrow> None
        | Some m \<Rightarrow> map_option (Pair m) (parse_int64 (tl rest)))"

definition streamIDBefore :: "string \<Rightarrow> string \<Rightarrow> bool" where
  "streamIDBefore l r =
     (case (parse_id l, parse_id r) of
        (Some (lm, ls), Some (rm, rs)) \<Rightarrow> lm < rm \<or> lm = rm \<and> ls < rs
      | _ \<Rightarrow> False)"

definition trim_threshold :: "time \<Rightarrow> stream_id list \<Rightarrow> string" where
  "trim_threshold now pending =
     (let threshold = show_int (unix_milli (now - Retention)) @ ''-0'' in
      case pending of
        [p] \<Rightarrow> if streamIDBefore (show_id p) threshold then show_id p else threshold
      | _ \<Rightarrow> threshold)"

definition Trim :: "redis_conn \<Rightarrow> redis_conn \<Rightarrow> time \<Rightarrow> event_stream \<Rightarrow> event_stream \<times> bool" where
  "Trim pendingConn trimConn now s =
     (if pendingConn \<noteq> Answered then (s, False)
      else case map_option (\<lambda>g. take 1 (map xp_id (cg_pending g))) (xs_group s) of
        None \<Rightarrow> (s, False)
      | Some pending \<Rightarrow>
          (case parse_id (trim_threshold now pending) of
             None \<Rightarrow> (s, False)
           | Some t \<Rightarrow> (on_stream trimConn (xtrim_minid t) s, trimConn = Answered)))"


section \<open>Histories\<close>

text \<open>
  Any number of producers, consumers and trims, with any failures.  The history carries every
  entry ever appended, and every entry a trim removed before it was delivered, with the time of
  the trim.  A consumer that was delivered a message may process it at any later time, however
  often; a sequence number stays within an \<^verbatim>\<open>int64\<close>.
\<close>

definition empty_stream :: "redis \<Rightarrow> event_stream" where
  "empty_stream keys = \<lparr>xs_entries = [], xs_last = (0, 0), xs_group = None, xs_dlq = [], xs_keys = keys\<rparr>"

definition undelivered :: "event_stream \<Rightarrow> stream_id \<Rightarrow> bool" where
  "undelivered s i \<longleftrightarrow> (case xs_group s of None \<Rightarrow> True | Some g \<Rightarrow> cg_last g < i)"

definition id_ok :: "stream_id \<Rightarrow> bool" where
  "id_ok i \<longleftrightarrow> 0 \<le> fst i \<and> fst i \<le> max_int64 \<and> 0 \<le> snd i \<and> snd i \<le> max_int64"

inductive pipeline_run ::
  "codec \<Rightarrow> (bool \<Rightarrow> time \<Rightarrow> work \<Rightarrow> 'h \<Rightarrow> 'h option) \<Rightarrow> ('r \<Rightarrow> time \<Rightarrow> 'h \<Rightarrow> 'h option) \<Rightarrow> 'h \<Rightarrow>
   message list \<Rightarrow> (time \<times> message) list \<Rightarrow> 'h pipeline \<Rightarrow> bool"
  for cd handle recover h0 where
  start: "pipeline_run cd handle recover h0 [] [] \<lparr>pl_stream = empty_stream keys, pl_handler = h0\<rparr>"
| produced: "pipeline_run cd handle recover h0 A D pl \<Longrightarrow>
    Producer_XAdd cd conn rnow e (pl_stream pl) = (ok, s) \<Longrightarrow> id_ok (xs_last s) \<Longrightarrow>
    pipeline_run cd handle recover h0 (A @ drop (length (xs_entries (pl_stream pl))) (xs_entries s)) D (pl\<lparr>pl_stream := s\<rparr>)"
| consumed: "pipeline_run cd handle recover h0 A D pl \<Longrightarrow>
    Consumer_RunOnce cd handle (recover r) rv pl = (pl', e) \<Longrightarrow>
    pipeline_run cd handle recover h0 A D pl'"
| processed: "pipeline_run cd handle recover h0 A D pl \<Longrightarrow> m \<in> set A \<Longrightarrow> \<not> undelivered (pl_stream pl) (fst m) \<Longrightarrow>
    process cd handle mv m pl = (pl', e) \<Longrightarrow>
    pipeline_run cd handle recover h0 A D pl'"
| trimmed: "pipeline_run cd handle recover h0 A D pl \<Longrightarrow> Trim c1 c2 now (pl_stream pl) = (s, ok) \<Longrightarrow>
    pipeline_run cd handle recover h0 A
      (D @ map (Pair now) (filter (\<lambda>m. undelivered s (fst m) \<and> m \<notin> set (xs_entries s)) (xs_entries (pl_stream pl))))
      (pl\<lparr>pl_stream := s\<rparr>)"

definition pend_ids :: "event_stream \<Rightarrow> stream_id list" where
  "pend_ids s = (case xs_group s of None \<Rightarrow> [] | Some g \<Rightarrow> map xp_id (cg_pending g))"

definition parked :: "event_stream \<Rightarrow> message \<Rightarrow> bool" where
  "parked s m \<longleftrightarrow> (\<exists>d \<in> set (xs_dlq s). dl_original_id d = show_id (fst m) \<and> dl_values d = snd m)"

text \<open>The IDs grow, the group is behind the stream, and what is pending is in the stream.\<close>

definition stream_inv :: "message list \<Rightarrow> event_stream \<Rightarrow> bool" where
  "stream_inv A s \<longleftrightarrow> sorted_wrt (<) (map fst A) \<and>
     (\<forall>m \<in> set A. (0, 0) < fst m \<and> fst m \<le> xs_last s \<and> id_ok (fst m)) \<and>
     (0, 0) \<le> xs_last s \<and> set (xs_entries s) \<subseteq> set A \<and> sorted_wrt (<) (map fst (xs_entries s))"

definition group_inv :: "event_stream \<Rightarrow> bool" where
  "group_inv s \<longleftrightarrow> sorted_wrt (<) (pend_ids s) \<and> set (pend_ids s) \<subseteq> fst ` set (xs_entries s) \<and>
     (\<forall>i \<in> set (pend_ids s). \<not> undelivered s i) \<and> (\<forall>g. xs_group s = Some g \<longrightarrow> cg_last g \<le> xs_last s)"

definition discards_inv :: "message list \<Rightarrow> (time \<times> message) list \<Rightarrow> bool" where
  "discards_inv A D \<longleftrightarrow> (\<forall>(t, m) \<in> set D. m \<in> set A \<and> fst (fst m) < unix_milli (t - Retention))"

text \<open>
  What the consumer relies on in its handler: a call that succeeds leaves the work recorded, and
  nothing that was recorded is ever lost.
\<close>

locale event_handler =
  fixes cd :: codec
    and handle :: "bool \<Rightarrow> time \<Rightarrow> work \<Rightarrow> 'h \<Rightarrow> 'h option"
    and recover :: "'r \<Rightarrow> time \<Rightarrow> 'h \<Rightarrow> 'h option"
    and inv :: "'h \<Rightarrow> bool"
    and recorded :: "work \<Rightarrow> 'h \<Rightarrow> bool"
  assumes handle_keeps: "inv h \<Longrightarrow> handle fault now w h = Some h' \<Longrightarrow> inv h' \<and> recorded w h'"
    and handle_monotone: "inv h \<Longrightarrow> handle fault now w h = Some h' \<Longrightarrow> recorded w0 h \<Longrightarrow> recorded w0 h'"
    and recover_keeps: "inv h \<Longrightarrow> recover r before h = Some h' \<Longrightarrow> inv h'"
    and recover_monotone: "inv h \<Longrightarrow> recover r before h = Some h' \<Longrightarrow> recorded w0 h \<Longrightarrow> recorded w0 h'"
begin

definition settled :: "'h pipeline \<Rightarrow> message \<Rightarrow> bool" where
  "settled pl m \<longleftrightarrow> parked (pl_stream pl) m \<or> (\<exists>w. work_of cd (snd m) = Inr w \<and> recorded w (pl_handler pl))"

definition covered :: "message list \<Rightarrow> (time \<times> message) list \<Rightarrow> 'h pipeline \<Rightarrow> bool" where
  "covered A D pl \<longleftrightarrow> (\<forall>m \<in> set A. m \<notin> snd ` set D \<longrightarrow>
     (if undelivered (pl_stream pl) (fst m) then m \<in> set (xs_entries (pl_stream pl))
      else fst m \<in> set (pend_ids (pl_stream pl)) \<or> settled pl m))"

definition pipe_inv :: "message list \<Rightarrow> (time \<times> message) list \<Rightarrow> 'h pipeline \<Rightarrow> bool" where
  "pipe_inv A D pl \<longleftrightarrow> stream_inv A (pl_stream pl) \<and> group_inv (pl_stream pl) \<and> covered A D pl \<and>
     discards_inv A D \<and> inv (pl_handler pl)"

text \<open>Processing moves messages out of the pending list, and only settled ones.\<close>

definition advances :: "message list \<Rightarrow> 'h pipeline \<Rightarrow> 'h pipeline \<Rightarrow> bool" where
  "advances A pl pl' \<longleftrightarrow> (let s = pl_stream pl; s' = pl_stream pl' in
     xs_entries s' = xs_entries s \<and> xs_last s' = xs_last s \<and>
     map_option cg_last (xs_group s') = map_option cg_last (xs_group s) \<and>
     (\<exists>P. pend_ids s' = filter P (pend_ids s)) \<and> set (xs_dlq s) \<subseteq> set (xs_dlq s') \<and>
     (\<forall>w. recorded w (pl_handler pl) \<longrightarrow> recorded w (pl_handler pl')) \<and>
     (\<forall>m \<in> set A. fst m \<in> set (pend_ids s) \<longrightarrow> fst m \<in> set (pend_ids s') \<or> settled pl' m) \<and>
     inv (pl_handler pl'))"

lemma settled_advances: "advances A pl pl' \<Longrightarrow> settled pl m \<Longrightarrow> settled pl' m"
  by (auto simp: settled_def advances_def parked_def Let_def)

lemma advances_trans:
  assumes 1: "advances A pl pl1" and 2: "advances A pl1 pl2"
  shows "advances A pl pl2"
proof -
  have "\<exists>P. pend_ids (pl_stream pl2) = filter P (pend_ids (pl_stream pl))"
    using 1 2 by (auto simp: advances_def Let_def)
  moreover have "fst m \<in> set (pend_ids (pl_stream pl2)) \<or> settled pl2 m"
    if "m \<in> set A" "fst m \<in> set (pend_ids (pl_stream pl))" for m
    using that 1 2 settled_advances[OF 2, of m] unfolding advances_def Let_def by blast
  ultimately show ?thesis using 1 2 by (auto simp: advances_def Let_def)
qed

end


context event_handler begin

lemma advances_refl: "inv (pl_handler pl) \<Longrightarrow> advances A pl pl"
  by (auto simp: advances_def Let_def intro!: exI[of _ "\<lambda>_. True"])

lemma pend_ids_xack: "pend_ids (xack i s) = filter (\<lambda>j. j \<noteq> i) (pend_ids s)"
  by (auto simp: pend_ids_def xack_def filter_map o_def split: option.splits)

text \<open>A change of the stream that leaves the messages and the group as they are.\<close>

lemma advances_stream:
  assumes "inv (pl_handler pl)" "xs_entries s = xs_entries (pl_stream pl)" "xs_last s = xs_last (pl_stream pl)"
    "xs_group s = xs_group (pl_stream pl)" "set (xs_dlq (pl_stream pl)) \<subseteq> set (xs_dlq s)"
  shows "advances A pl (pl\<lparr>pl_stream := s\<rparr>)"
  using assms by (auto simp: advances_def Let_def pend_ids_def intro!: exI[of _ "\<lambda>_. True"])

lemma acknowledge_advances:
  assumes "inv (pl_handler pl)" "settled pl m" "\<And>m'. m' \<in> set A \<Longrightarrow> fst m' = fst m \<Longrightarrow> m' = m"
    and "acknowledge mv (fst m) (pl_stream pl) = (s, e)"
  shows "advances A pl (pl\<lparr>pl_stream := s\<rparr>)"
proof -
  have s: "xs_entries s = xs_entries (pl_stream pl)" "xs_last s = xs_last (pl_stream pl)" "xs_dlq s = xs_dlq (pl_stream pl)"
    "map_option cg_last (xs_group s) = map_option cg_last (xs_group (pl_stream pl))"
    "pend_ids s = pend_ids (pl_stream pl) \<or> pend_ids s = filter (\<lambda>j. j \<noteq> fst m) (pend_ids (pl_stream pl))"
  proof -
    define s1 where "s1 = on_stream (mv_ack mv) (xack (fst m)) (pl_stream pl)"
    have k: "s = s1 \<or> s = on_keys (mv_del mv) (redis_del (retryKey (fst m))) s1"
      using assms(4) by (auto simp: acknowledge_def s1_def Let_def split: if_splits)
    have "xs_entries s = xs_entries s1" "xs_last s = xs_last s1" "xs_dlq s = xs_dlq s1" "xs_group s = xs_group s1"
      using k by (auto simp: on_keys_def)
    moreover have "s1 = pl_stream pl \<or> s1 = xack (fst m) (pl_stream pl)" by (simp add: s1_def on_stream_def)
    moreover have "pend_ids s = pend_ids s1" using \<open>xs_group s = xs_group s1\<close> by (simp add: pend_ids_def)
    ultimately show "xs_entries s = xs_entries (pl_stream pl)" "xs_last s = xs_last (pl_stream pl)"
      "xs_dlq s = xs_dlq (pl_stream pl)" "map_option cg_last (xs_group s) = map_option cg_last (xs_group (pl_stream pl))"
      "pend_ids s = pend_ids (pl_stream pl) \<or> pend_ids s = filter (\<lambda>j. j \<noteq> fst m) (pend_ids (pl_stream pl))"
      using pend_ids_xack[of "fst m" "pl_stream pl"] by (auto simp: xack_def option.map_comp o_def)
  qed
  have "\<exists>P. pend_ids s = filter P (pend_ids (pl_stream pl))"
    using s(5) by (elim disjE) (auto intro: exI[of _ "\<lambda>_. True"])
  moreover have "settled (pl\<lparr>pl_stream := s\<rparr>) m" using assms(2) s(3) by (simp add: settled_def parked_def)
  then have "fst m' \<in> set (pend_ids s) \<or> settled (pl\<lparr>pl_stream := s\<rparr>) m'"
    if "m' \<in> set A" "fst m' \<in> set (pend_ids (pl_stream pl))" for m'
    using that s(5) assms(3)[of m'] by (cases "fst m' = fst m") auto
  ultimately show ?thesis using s(1-4) assms(1) by (simp add: advances_def Let_def)
qed

lemma deadLetter_advances:
  assumes "inv (pl_handler pl)" "\<And>m'. m' \<in> set A \<Longrightarrow> fst m' = fst m \<Longrightarrow> m' = m"
    and "deadLetter mv m category (pl_stream pl) = (s, e)"
  shows "advances A pl (pl\<lparr>pl_stream := s\<rparr>)"
proof -
  define d where "d = \<lparr>dl_original_id = show_id (fst m), dl_category = category, dl_attempts =
      (if mv_get mv \<noteq> Answered then '''' else case redis_get (mv_now mv) (retryKey (fst m)) (xs_keys (pl_stream pl)) of
        Inr (Some v) \<Rightarrow> v | _ \<Rightarrow> ''''), dl_values = snd m\<rparr>"
  define s1 where "s1 = on_stream (mv_dlq mv) (\<lambda>s. s\<lparr>xs_dlq := xs_dlq s @ [d]\<rparr>) (pl_stream pl)"
  have run: "(if mv_dlq mv \<noteq> Answered then (s1, Some RedisError) else acknowledge mv (fst m) s1) = (s, e)"
    using assms(3) by (simp only: deadLetter_def Let_def s1_def d_def)
  have s1: "set (xs_dlq (pl_stream pl)) \<subseteq> set (xs_dlq s1)" "xs_entries s1 = xs_entries (pl_stream pl)"
    "xs_last s1 = xs_last (pl_stream pl)" "xs_group s1 = xs_group (pl_stream pl)"
    by (auto simp: s1_def on_stream_def)
  have pk: "mv_dlq mv = Answered \<Longrightarrow> parked s1 m" by (simp add: s1_def on_stream_def ran_on_def parked_def d_def)
  let ?pl1 = "pl\<lparr>pl_stream := s1\<rparr>"
  have 1: "advances A pl ?pl1" using assms(1) s1 by (intro advances_stream) auto
  show ?thesis
  proof (cases "mv_dlq mv = Answered")
    case True
    have "advances A ?pl1 (?pl1\<lparr>pl_stream := s\<rparr>)"
      by (rule acknowledge_advances) (use assms run pk True in \<open>auto simp: settled_def\<close>)
    with 1 show ?thesis using advances_trans by fastforce
  qed (use 1 run in simp)
qed

lemma process_advances:
  assumes i: "inv (pl_handler pl)" and u: "\<And>m'. m' \<in> set A \<Longrightarrow> fst m' = fst m \<Longrightarrow> m' = m"
    and run: "process cd handle mv m pl = (pl', e)"
  shows "advances A pl pl'"
proof (cases "work_of cd (snd m)")
  case (Inl category)
  obtain s e' where "deadLetter mv m category (pl_stream pl) = (s, e')" by fastforce
  then show ?thesis using run Inl deadLetter_advances[OF i u] by (auto simp: process_def)
next
  case (Inr w)
  show ?thesis
  proof (cases "redis_incr (mv_now mv) (retryKey (fst m)) (xs_keys (pl_stream pl))")
    case None
    then show ?thesis using run Inr advances_refl[OF i] by (auto simp: process_def)
  next
    case (Some p)
    obtain attempt keys where p: "p = (attempt, keys)" by (cases p)
    define s1 where "s1 = on_keys (mv_expire mv) (redis_pexpire (mv_now mv) (retryKey (fst m)) retryTTL)
        ((pl_stream pl)\<lparr>xs_keys := keys\<rparr>)"
    have same: "xs_entries s1 = xs_entries (pl_stream pl)" "xs_last s1 = xs_last (pl_stream pl)"
      "xs_group s1 = xs_group (pl_stream pl)" "xs_dlq s1 = xs_dlq (pl_stream pl)"
      by (simp_all add: s1_def on_keys_def)
    have 1: "advances A pl (pl\<lparr>pl_stream := s1\<rparr>)" using same i by (intro advances_stream) auto
    show ?thesis
    proof (cases "mv_incr mv = Answered")
      case False
      then show ?thesis using run Inr Some p advances_refl[OF i]
          advances_stream[OF i, of "(pl_stream pl)\<lparr>xs_keys := keys\<rparr>" A]
        by (auto simp: process_def ran_on_def Let_def split: if_splits)
    next
      case True
      show ?thesis
      proof (cases "attempt > MaxRetries")
        case exhausted: True
        obtain s e' where dl: "deadLetter mv m ''retry_exhausted'' s1 = (s, e')" by fastforce
        have "advances A (pl\<lparr>pl_stream := s1\<rparr>) (pl\<lparr>pl_stream := s1\<rparr>\<lparr>pl_stream := s\<rparr>)"
          by (rule deadLetter_advances) (use i u dl in auto)
        moreover have "pl' = pl\<lparr>pl_stream := s\<rparr>"
          using run Inr Some p True exhausted dl by (simp add: process_def ran_on_def s1_def[symmetric])
        ultimately show ?thesis using advances_trans[OF 1] by simp
      next
        case False
        show ?thesis
        proof (cases "handle (mv_fault mv) (mv_handledAt mv) w (pl_handler pl)")
          case None
          then show ?thesis using run Inr Some p True False 1 by (simp add: process_def ran_on_def s1_def[symmetric])
        next
          case h: (Some h)
          obtain s e' where ack: "acknowledge mv (fst m) s1 = (s, e')" by fastforce
          let ?pl1 = "\<lparr>pl_stream = s1, pl_handler = h\<rparr>"
          have h': "inv h" "recorded w h" "\<And>w0. recorded w0 (pl_handler pl) \<Longrightarrow> recorded w0 h"
            using handle_keeps[OF i h] handle_monotone[OF i h] by auto
          have 2: "advances A pl ?pl1"
            using same h' by (auto simp: advances_def Let_def pend_ids_def intro!: exI[of _ "\<lambda>_. True"])
          have "advances A ?pl1 (?pl1\<lparr>pl_stream := s\<rparr>)"
            by (rule acknowledge_advances) (use u ack h' Inr in \<open>auto simp: settled_def\<close>)
          moreover have "pl' = \<lparr>pl_stream = s, pl_handler = h\<rparr>"
            using run Inr Some p True False h ack by (simp add: process_def ran_on_def s1_def[symmetric])
          ultimately show ?thesis using advances_trans[OF 2] by simp
        qed
      qed
    qed
  qed
qed

lemma process_all_advances:
  assumes "inv (pl_handler pl)" "distinct (map fst A)" "set ms \<subseteq> set A"
    and "process_all cd handle mv ms pl = (pl', e)"
  shows "advances A pl pl'"
  using assms
proof (induction ms arbitrary: pl)
  case Nil
  then show ?case using advances_refl by simp
next
  case (Cons m ms)
  obtain pl1 e1 where p: "process cd handle (mv (fst m)) m pl = (pl1, e1)" by fastforce
  have u: "m' = m" if "m' \<in> set A" "fst m' = fst m" for m'
    using that Cons.prems(2,3) by (auto simp: distinct_map dest: inj_onD)
  have 1: "advances A pl pl1" by (rule process_advances[OF Cons.prems(1) u p])
  then have "inv (pl_handler pl1)" by (simp add: advances_def Let_def)
  then show ?case using Cons p 1 advances_trans[OF 1] by (auto split: option.splits)
qed

end


lemma show_int_digits: "0 \<le> n \<Longrightarrow> list_all is_digit (show_int n)"
  using show_nat_digits by (simp add: show_int_def)

lemma parse_id_show:
  assumes "0 \<le> m" "m \<le> max_int64" "0 \<le> q" "q \<le> max_int64"
  shows "parse_id (show_int m @ CHR ''-'' # show_int q) = Some (m, q)"
proof -
  let ?P = "\<lambda>c. c \<noteq> CHR ''-''"
  have d: "list_all ?P (show_int m)" using show_int_digits[OF assms(1)] by (auto simp: list_all_iff is_digit_def)
  have "takeWhile ?P (show_int m @ CHR ''-'' # show_int q) = show_int m"
    "dropWhile ?P (show_int m @ CHR ''-'' # show_int q) = CHR ''-'' # show_int q"
    using takeWhile_digits[OF d, of "CHR ''-'' # show_int q"] by simp_all
  moreover have "min_int64 \<le> m" "min_int64 \<le> q" using assms by (simp_all add: min_int64_def)
  ultimately show ?thesis using assms by (simp add: parse_id_def Let_def parse_int64_show_int)
qed

lemma parse_id_show_id: "id_ok i \<Longrightarrow> parse_id (show_id i) = Some i"
  using parse_id_show[of "fst i" "snd i"] by (simp add: id_ok_def show_id_def)

lemma parse_threshold:
  assumes "parse_id (show_int m @ ''-0'') = Some t"
  shows "t = (m, 0)"
proof (cases "0 \<le> m")
  case True
  have z: "show_int 0 = ''0''" by code_simp
  show ?thesis
  proof (cases "m \<le> max_int64")
    case True
    then show ?thesis using assms parse_id_show[of m 0] \<open>0 \<le> m\<close> z by (simp add: max_int64_def)
  next
    case False
    let ?P = "\<lambda>c. c \<noteq> CHR ''-''"
    have d: "list_all ?P (show_int m)" using show_int_digits[OF \<open>0 \<le> m\<close>] by (auto simp: list_all_iff is_digit_def)
    have "parse_int64 (show_int m) = None"
      using False \<open>0 \<le> m\<close> show_nat_digits[of "nat m"] show_nat_nonempty[of "nat m"]
      by (simp add: parse_int64_def signed_val_def show_int_def strip_sign_digits, cases "show_nat (nat m)",
          auto simp: has_prefix_def is_digit_def)
    then show ?thesis using assms takeWhile_digits[OF d, of "''-0''"] by (simp add: parse_id_def Let_def)
  qed
next
  case False
  then show ?thesis using assms by (simp add: show_int_def parse_id_def Let_def, code_simp)
qed

lemma streamIDBefore_iff: "parse_id l = Some a \<Longrightarrow> parse_id r = Some b \<Longrightarrow> streamIDBefore l r \<longleftrightarrow> a < b"
  by (cases a; cases b) (auto simp: streamIDBefore_def less_prod_simp)

lemma trim_threshold_bounds:
  assumes "parse_id (trim_threshold now (take 1 (map xp_id ps))) = Some t" "\<forall>p \<in> set ps. id_ok (xp_id p)"
    "sorted_wrt (<) (map xp_id ps)"
  shows "t \<le> (unix_milli (now - Retention), 0)" "p \<in> set ps \<Longrightarrow> t \<le> xp_id p"
proof -
  let ?T = "unix_milli (now - Retention)"
  have "t \<le> (?T, 0) \<and> (\<forall>p \<in> set ps. t \<le> xp_id p)"
  proof (cases ps)
    case Nil
    then show ?thesis using assms(1) parse_threshold[of ?T t] by (simp add: trim_threshold_def)
  next
    case (Cons q qs)
    have q: "parse_id (show_id (xp_id q)) = Some (xp_id q)" using assms(2) Cons parse_id_show_id by simp
    have le: "\<forall>p \<in> set ps. xp_id q \<le> xp_id p" using assms(3) Cons by auto
    show ?thesis
    proof (cases "streamIDBefore (show_id (xp_id q)) (show_int ?T @ ''-0'')")
      case True
      then have t: "t = xp_id q" using assms(1) Cons q by (simp add: trim_threshold_def)
      from True obtain u where u: "parse_id (show_int ?T @ ''-0'') = Some u"
        by (auto simp: streamIDBefore_def split: option.splits)
      have "xp_id q < u" using True streamIDBefore_iff[OF q u] by blast
      then show ?thesis using le parse_threshold[OF u] t by simp
    next
      case False
      then have p: "parse_id (show_int ?T @ ''-0'') = Some t" using assms(1) Cons by (simp add: trim_threshold_def)
      have "t \<le> xp_id q" using False streamIDBefore_iff[OF q p] by simp
      then have "\<forall>p \<in> set ps. t \<le> xp_id p" using le by (meson order_trans)
      then show ?thesis using parse_threshold[OF p] by simp
    qed
  qed
  then show "t \<le> (?T, 0)" "p \<in> set ps \<Longrightarrow> t \<le> xp_id p" by auto
qed

context event_handler begin

lemma stream_inv_distinct: "stream_inv A s \<Longrightarrow> distinct (map fst A)"
  by (auto simp: stream_inv_def strict_sorted_iff)

lemma undelivered_same_last:
  "map_option cg_last (xs_group s') = map_option cg_last (xs_group s) \<Longrightarrow> undelivered s' i = undelivered s i"
  by (auto simp: undelivered_def split: option.splits)

lemma advances_inv:
  assumes inv: "pipe_inv A D pl" and adv: "advances A pl pl'"
  shows "pipe_inv A D pl'"
proof -
  let ?s = "pl_stream pl" and ?s' = "pl_stream pl'"
  have same: "xs_entries ?s' = xs_entries ?s" "xs_last ?s' = xs_last ?s"
    "map_option cg_last (xs_group ?s') = map_option cg_last (xs_group ?s)" "inv (pl_handler pl')"
    using adv by (simp_all add: advances_def Let_def)
  note u = undelivered_same_last[OF same(3)]
  obtain P where P: "pend_ids ?s' = filter P (pend_ids ?s)" using adv by (auto simp: advances_def Let_def)
  have "stream_inv A ?s'" using inv same by (simp add: pipe_inv_def stream_inv_def)
  moreover have "group_inv ?s'"
  proof -
    have g: "group_inv ?s" using inv by (simp add: pipe_inv_def)
    have "cg_last g' \<le> xs_last ?s'" if "xs_group ?s' = Some g'" for g'
      using g same(2,3) that by (cases "xs_group ?s") (auto simp: group_inv_def)
    then show ?thesis using g u same(1) by (auto simp: group_inv_def P sorted_wrt_filter)
  qed
  moreover have "covered A D pl'"
    unfolding covered_def u same(1)
  proof (intro ballI impI)
    fix m assume m: "m \<in> set A" "m \<notin> snd ` set D"
    have "fst m \<in> set (pend_ids ?s) \<longrightarrow> fst m \<in> set (pend_ids ?s') \<or> settled pl' m"
      using adv m by (simp add: advances_def Let_def)
    moreover have "if undelivered ?s (fst m) then m \<in> set (xs_entries ?s)
        else fst m \<in> set (pend_ids ?s) \<or> settled pl m" using inv m by (simp add: pipe_inv_def covered_def)
    ultimately show "if undelivered ?s (fst m) then m \<in> set (xs_entries ?s)
        else fst m \<in> set (pend_ids ?s') \<or> settled pl' m"
      using settled_advances[OF adv, of m] by (cases "undelivered ?s (fst m)") auto
  qed
  ultimately show ?thesis using inv same(4) by (simp add: pipe_inv_def)
qed

end


context event_handler begin

text \<open>Redis' own moves: creating the group, claiming and reading keep the invariant.\<close>

lemma create_inv:
  assumes "pipe_inv A D pl"
  shows "pipe_inv A D (pl\<lparr>pl_stream := xgroup_create (pl_stream pl)\<rparr>)"
proof (cases "xs_group (pl_stream pl)")
  case (Some g)
  then show ?thesis using assms by (simp add: xgroup_create_def)
next
  case None
  let ?s = "xgroup_create (pl_stream pl)"
  have s: "?s = (pl_stream pl)\<lparr>xs_group := Some \<lparr>cg_last = (0, 0), cg_pending = []\<rparr>\<rparr>" using None by (simp add: xgroup_create_def)
  have u: "undelivered ?s (fst m)" if "m \<in> set A" for m
    using that assms by (simp add: s undelivered_def pipe_inv_def stream_inv_def)
  have "covered A D (pl\<lparr>pl_stream := ?s\<rparr>)"
    using assms u None by (auto simp: pipe_inv_def covered_def s undelivered_def)
  then show ?thesis using assms by (simp add: pipe_inv_def s stream_inv_def group_inv_def pend_ids_def)
qed

lemma claim_advances:
  assumes "inv (pl_handler pl)" "group_inv (pl_stream pl)" "xclaim now who idle ids (pl_stream pl) = Some (ms, s)"
  shows "advances A pl (pl\<lparr>pl_stream := s\<rparr>)" "set ms \<subseteq> set (xs_entries (pl_stream pl))"
proof -
  obtain g where g: "xs_group (pl_stream pl) = Some g" using assms(3) by (auto simp: xclaim_def split: option.splits)
  have "xp_id p \<in> fst ` set (xs_entries (pl_stream pl))" if "p \<in> set (cg_pending g)" for p
    using assms(2) g that by (auto simp: group_inv_def pend_ids_def)
  then have "filter (\<lambda>p. (xp_id p \<in> set ids \<and> now - xp_since p \<ge> idle) \<longrightarrow> xp_id p \<in> fst ` set (xs_entries (pl_stream pl)))
      (cg_pending g) = cg_pending g" by (simp add: filter_id_conv)
  then have "s = (pl_stream pl)\<lparr>xs_group := Some (g\<lparr>cg_pending := map (\<lambda>p. if xp_id p \<in> set ids \<and> now - xp_since p \<ge> idle
      then p\<lparr>xp_consumer := who, xp_since := now\<rparr> else p) (cg_pending g)\<rparr>)\<rparr>"
    using assms(3) g by (simp add: xclaim_def Let_def)
  then have "pend_ids s = pend_ids (pl_stream pl)" "xs_entries s = xs_entries (pl_stream pl)" "xs_last s = xs_last (pl_stream pl)"
    "xs_dlq s = xs_dlq (pl_stream pl)" "map_option cg_last (xs_group s) = map_option cg_last (xs_group (pl_stream pl))"
    using g by (simp_all add: pend_ids_def o_def if_distrib cong: if_cong)
  then show "advances A pl (pl\<lparr>pl_stream := s\<rparr>)"
    using assms(1) by (auto simp: advances_def Let_def intro!: exI[of _ "\<lambda>_. True"])
  show "set ms \<subseteq> set (xs_entries (pl_stream pl))" using assms(3) g by (auto simp: xclaim_def Let_def)
qed

lemma read_inv:
  assumes inv: "pipe_inv A D pl" and run: "xreadgroup now who n (pl_stream pl) = Some (ms, s)"
  shows "pipe_inv A D (pl\<lparr>pl_stream := s\<rparr>)" "set ms \<subseteq> set A"
proof -
  let ?s = "pl_stream pl"
  obtain g where g: "xs_group ?s = Some g" using run by (auto simp: xreadgroup_def split: option.splits)
  have ms: "ms = take n (unread ?s g)" using run g by (simp add: xreadgroup_def Let_def)
  have sub: "set ms \<subseteq> {m \<in> set (xs_entries ?s). cg_last g < fst m}"
    using ms set_take_subset[of n "unread ?s g"] by (auto simp: unread_def)
  show "set ms \<subseteq> set A" using sub inv by (auto simp: pipe_inv_def stream_inv_def)
  show "pipe_inv A D (pl\<lparr>pl_stream := s\<rparr>)"
  proof (cases "ms = []")
    case True
    then have "s = ?s" using run g by (simp add: xreadgroup_def Let_def ms split: if_splits)
    then show ?thesis using inv by simp
  next
    case False
    have s: "s = ?s\<lparr>xs_group := Some \<lparr>cg_last = fst (last ms),
        cg_pending = cg_pending g @ map (\<lambda>m. \<lparr>xp_id = fst m, xp_consumer = who, xp_since = now\<rparr>) ms\<rparr>\<rparr>"
      using run g False by (simp add: xreadgroup_def Let_def ms)
    have es: "xs_entries s = xs_entries ?s" by (simp add: s)
    have pend: "pend_ids s = pend_ids ?s @ map fst ms" by (simp add: s pend_ids_def g o_def)
    have srt: "sorted_wrt (<) (map fst ms)" "sorted_wrt (<) (map fst (unread ?s g))"
      using inv by (simp_all add: pipe_inv_def stream_inv_def ms unread_def take_map[symmetric] sorted_wrt_take
          sorted_wrt_filter sorted_wrt_map)
    have lm: "last ms \<in> set ms" using False by simp
    have le: "fst m \<le> fst (last ms)" if "m \<in> set ms" for m
      using that False srt(1) by (auto simp: sorted_wrt_iff_nth_less in_set_conv_nth last_conv_nth le_less)
        (metis One_nat_def Suc_pred diff_Suc_less length_greater_0_conv less_SucE)
    have gi: "group_inv ?s" using inv by (simp add: pipe_inv_def)
    have below: "i \<le> cg_last g" if "i \<in> set (pend_ids ?s)" for i
      using gi that g by (auto simp: group_inv_def undelivered_def not_less)
    have read: "m \<in> set ms" if "m \<in> set (xs_entries ?s)" "cg_last g < fst m" "fst m \<le> fst (last ms)" for m
    proof (rule ccontr)
      assume "m \<notin> set ms"
      moreover have "m \<in> set (unread ?s g)" using that by (simp add: unread_def)
      ultimately have "m \<in> set (drop n (unread ?s g))" using ms by (metis append_take_drop_id UnE set_append)
      then have "fst (last ms) < fst m" using lm srt(2) ms sorted_wrt_append[of "(<)" "map fst ms" "map fst (drop n (unread ?s g))"]
        by (simp add: append_take_drop_id map_append[symmetric] del: map_append)
      then show False using that(3) by simp
    qed
    have "stream_inv A s" using inv by (simp add: pipe_inv_def stream_inv_def s)
    moreover have "group_inv s"
    proof -
      have "sorted_wrt (<) (pend_ids s)"
        using gi srt(1) below sub by (auto simp: pend sorted_wrt_append group_inv_def intro: le_less_trans)
      moreover have "\<not> undelivered s i" if "i \<in> set (pend_ids s)" for i
      proof -
        have "cg_last g < fst (last ms)" using sub lm by auto
        moreover have "i \<in> set (pend_ids ?s) \<or> (\<exists>m \<in> set ms. i = fst m)" using that by (auto simp: pend)
        ultimately have "i \<le> fst (last ms)" using below[of i] le by (elim disjE bexE) (meson less_imp_le order_trans, simp)
        then show ?thesis by (simp add: s undelivered_def not_less)
      qed
      moreover have "fst (last ms) \<le> xs_last ?s" using inv lm sub by (auto simp: pipe_inv_def stream_inv_def)
      moreover have "set (pend_ids s) \<subseteq> fst ` set (xs_entries s)" using gi sub by (auto simp: group_inv_def pend es)
      ultimately show ?thesis by (simp add: group_inv_def, simp add: s)
    qed
    moreover have "covered A D (pl\<lparr>pl_stream := s\<rparr>)"
      unfolding covered_def
    proof (intro ballI impI)
      fix m assume m: "m \<in> set A" "m \<notin> snd ` set D"
      have c: "if undelivered ?s (fst m) then m \<in> set (xs_entries ?s)
          else fst m \<in> set (pend_ids ?s) \<or> settled pl m" using inv m by (simp add: pipe_inv_def covered_def)
      have "settled (pl\<lparr>pl_stream := s\<rparr>) m = settled pl m" by (simp add: settled_def parked_def s)
      moreover have "fst m \<in> set (map fst ms)" if "m \<in> set ms" using that by simp
      moreover have "undelivered s (fst m) \<longleftrightarrow> fst (last ms) < fst m" by (simp add: s undelivered_def)
      moreover have "undelivered ?s (fst m) \<longleftrightarrow> cg_last g < fst m" by (simp add: g undelivered_def)
      moreover have "cg_last g < fst (last ms)" using sub lm by auto
      ultimately show "if undelivered (pl_stream (pl\<lparr>pl_stream := s\<rparr>)) (fst m)
          then m \<in> set (xs_entries (pl_stream (pl\<lparr>pl_stream := s\<rparr>)))
          else fst m \<in> set (pend_ids (pl_stream (pl\<lparr>pl_stream := s\<rparr>))) \<or> settled (pl\<lparr>pl_stream := s\<rparr>) m"
        using c read[of m] less_trans[of "cg_last g" "fst (last ms)" "fst m"]
        by (cases "fst (last ms) < fst m"; cases "cg_last g < fst m") (auto simp: es pend not_less)
    qed
    ultimately show ?thesis using inv by (simp add: pipe_inv_def)
  qed
qed

end


context event_handler begin

lemma pipe_inv_process_all:
  assumes "pipe_inv A D pl" "set ms \<subseteq> set A" "process_all cd handle mv ms pl = (pl', e)"
  shows "pipe_inv A D pl'"
proof (rule advances_inv[OF assms(1)])
  show "advances A pl pl'"
    by (rule process_all_advances[OF _ stream_inv_distinct assms(2,3)]) (use assms(1) in \<open>auto simp: pipe_inv_def\<close>)
qed

lemma reclaim_inv:
  assumes inv: "pipe_inv A D pl" and run: "reclaim cd handle rv who pl = (pl', e)"
  shows "pipe_inv A D pl'"
proof (cases "xclaim (rv_claimAt rv) who ReclaimIdle (the (xpending (rv_pendingAt rv) ReclaimIdle 32 (pl_stream pl))) (pl_stream pl)")
  case None
  then show ?thesis using assms by (auto simp: reclaim_def split: if_splits option.splits)
next
  case (Some p)
  obtain ms s where p: "p = (ms, s)" by (cases p)
  have i: "inv (pl_handler pl)" "group_inv (pl_stream pl)" using inv by (simp_all add: pipe_inv_def)
  note c = claim_advances[OF i Some[unfolded p]]
  have 1: "pipe_inv A D (pl\<lparr>pl_stream := s\<rparr>)" by (rule advances_inv[OF inv c(1)])
  have "set ms \<subseteq> set A" using c(2) inv by (auto simp: pipe_inv_def stream_inv_def)
  with 1 show ?thesis using run inv Some p pipe_inv_process_all[OF 1]
    by (auto simp: reclaim_def split: if_splits option.splits)
qed

lemma read_new_inv:
  assumes inv: "pipe_inv A D pl" and run: "read_new cd handle rv who pl = (pl', e)"
  shows "pipe_inv A D pl'"
proof (cases "xreadgroup (rv_readAt rv) who 32 (pl_stream pl)")
  case None
  then show ?thesis using assms by (auto simp: read_new_def split: if_splits)
next
  case (Some p)
  obtain ms s where p: "p = (ms, s)" by (cases p)
  note r = read_inv[OF inv Some[unfolded p]]
  show ?thesis using run inv Some p r pipe_inv_process_all[OF r(1)] by (auto simp: read_new_def split: if_splits)
qed

lemma RunOnce_inv:
  assumes inv: "pipe_inv A D pl" and run: "Consumer_RunOnce cd handle (recover r) rv pl = (pl', e)"
  shows "pipe_inv A D pl'"
proof -
  let ?who = "if rv_name rv = '''' then ''control-1'' else rv_name rv"
  let ?pl1 = "pl\<lparr>pl_stream := on_stream (rv_group rv) xgroup_create (pl_stream pl)\<rparr>"
  have 1: "pipe_inv A D ?pl1" using create_inv[OF inv] inv by (simp add: on_stream_def)
  obtain pl2 e2 where r2: "reclaim cd handle rv ?who ?pl1 = (pl2, e2)" by fastforce
  have 2: "pipe_inv A D pl2" by (rule reclaim_inv[OF 1 r2])
  obtain pl3 e3 where r3: "read_new cd handle rv ?who pl2 = (pl3, e3)" by fastforce
  have 3: "pipe_inv A D pl3" by (rule read_new_inv[OF 2 r3])
  have 4: "pipe_inv A D (pl3\<lparr>pl_handler := h\<rparr>)" if "recover r (rv_now rv - 5 * 60 * second) (pl_handler pl3) = Some h" for h
  proof (rule advances_inv[OF 3])
    have "inv (pl_handler pl3)" using 3 by (simp add: pipe_inv_def)
    then show "advances A pl3 (pl3\<lparr>pl_handler := h\<rparr>)" using recover_keeps[OF _ that] recover_monotone[OF _ that]
      by (auto simp: advances_def Let_def intro!: exI[of _ "\<lambda>_. True"])
  qed
  show ?thesis using run inv 1 2 3 4 r2 r3
    by (auto simp: Consumer_RunOnce_def Let_def split: if_splits option.splits)
qed

lemma trim_inv:
  assumes inv: "pipe_inv A D pl" and run: "Trim c1 c2 now (pl_stream pl) = (s, ok)"
  shows "pipe_inv A (D @ map (Pair now) (filter (\<lambda>m. undelivered s (fst m) \<and> m \<notin> set (xs_entries s)) (xs_entries (pl_stream pl))))
    (pl\<lparr>pl_stream := s\<rparr>)"
proof (cases "s = pl_stream pl")
  case True
  then show ?thesis using inv by (simp add: pipe_inv_def)
next
  case False
  let ?s = "pl_stream pl"
  obtain g t where g: "xs_group ?s = Some g" and t: "parse_id (trim_threshold now (take 1 (map xp_id (cg_pending g)))) = Some t"
    and s: "s = xtrim_minid t ?s"
    using run False by (auto simp: Trim_def on_stream_def split: if_splits option.splits)
  have si: "stream_inv A ?s" and gi: "group_inv ?s" using inv by (simp_all add: pipe_inv_def)
  have ids: "id_ok (xp_id p)" if "p \<in> set (cg_pending g)" for p
  proof -
    have "xp_id p \<in> fst ` set (xs_entries ?s)" using gi g that by (auto simp: group_inv_def pend_ids_def)
    then obtain m where m: "m \<in> set (xs_entries ?s)" "fst m = xp_id p" by auto
    then have "m \<in> set A" using si by (auto simp: stream_inv_def)
    then have "id_ok (fst m)" using si by (simp add: stream_inv_def)
    then show ?thesis using m by simp
  qed
  have srt: "sorted_wrt (<) (map xp_id (cg_pending g))" using gi g by (simp add: group_inv_def pend_ids_def)
  note tb = trim_threshold_bounds[OF t _ srt]
  have same: "pend_ids s = pend_ids ?s" "undelivered s = undelivered ?s" "xs_last s = xs_last ?s" "xs_group s = xs_group ?s"
    "xs_dlq s = xs_dlq ?s" by (auto simp: s xtrim_minid_def pend_ids_def undelivered_def)
  have es: "set (xs_entries s) = {m \<in> set (xs_entries ?s). t \<le> fst m}" by (auto simp: s xtrim_minid_def)
  have old: "fst (fst m) < unix_milli (now - Retention)" if "m \<in> set (xs_entries ?s)" "m \<notin> set (xs_entries s)" for m
  proof -
    have "fst m < (unix_milli (now - Retention), 0)" using that es tb(1) ids by (auto intro: less_le_trans)
    moreover have "0 \<le> snd (fst m)" using si that(1) by (auto simp: stream_inv_def id_ok_def)
    ultimately show ?thesis by (cases "fst m") (auto simp: less_prod_simp)
  qed
  have "stream_inv A s" using si es by (auto simp: stream_inv_def same s xtrim_minid_def sorted_wrt_filter sorted_wrt_map)
  moreover have "group_inv s"
  proof -
    have "i \<in> fst ` set (xs_entries s)" if i: "i \<in> set (pend_ids ?s)" for i
    proof -
      obtain p where p: "p \<in> set (cg_pending g)" "i = xp_id p" using i g by (auto simp: pend_ids_def)
      have "t \<le> i" using tb(2)[OF _ p(1)] ids p(2) by blast
      moreover have "i \<in> fst ` set (xs_entries ?s)" using gi i by (auto simp: group_inv_def)
      ultimately show ?thesis by (auto simp: es)
    qed
    then show ?thesis using gi by (auto simp: group_inv_def same)
  qed
  moreover have "covered A (D @ map (Pair now) (filter (\<lambda>m. undelivered s (fst m) \<and> m \<notin> set (xs_entries s)) (xs_entries ?s)))
      (pl\<lparr>pl_stream := s\<rparr>)"
    (is "covered A ?D' ?pl'") unfolding covered_def
  proof (intro ballI impI)
    fix m assume m: "m \<in> set A" "m \<notin> snd ` set ?D'"
    then have d: "m \<notin> snd ` set D" "undelivered ?s (fst m) \<Longrightarrow> m \<in> set (xs_entries ?s) \<Longrightarrow> m \<in> set (xs_entries s)"
      by (auto simp: same image_Un image_image)
    have "settled ?pl' m = settled pl m" by (simp add: settled_def parked_def same)
    moreover have "if undelivered ?s (fst m) then m \<in> set (xs_entries ?s)
        else fst m \<in> set (pend_ids ?s) \<or> settled pl m" using inv m(1) d(1) by (simp add: pipe_inv_def covered_def)
    ultimately show "if undelivered (pl_stream ?pl') (fst m) then m \<in> set (xs_entries (pl_stream ?pl'))
        else fst m \<in> set (pend_ids (pl_stream ?pl')) \<or> settled ?pl' m"
      using d(2) by (cases "undelivered ?s (fst m)") (simp_all add: same)
  qed
  moreover have "discards_inv A (D @ map (Pair now) (filter (\<lambda>m. undelivered s (fst m) \<and> m \<notin> set (xs_entries s)) (xs_entries ?s)))"
    using inv old si by (auto simp: pipe_inv_def discards_inv_def stream_inv_def)
  ultimately show ?thesis using inv by (simp add: pipe_inv_def)
qed

lemma next_id_less: "l < next_id now l"
  by (cases l) (auto simp: next_id_def less_prod_simp)

lemma produced_inv:
  assumes inv: "pipe_inv A D pl" and run: "Producer_XAdd cd conn rnow e (pl_stream pl) = (ok, s)" and ok: "id_ok (xs_last s)"
  shows "pipe_inv (A @ drop (length (xs_entries (pl_stream pl))) (xs_entries s)) D (pl\<lparr>pl_stream := s\<rparr>)"
proof (cases "s = pl_stream pl")
  case True
  then show ?thesis using inv by simp
next
  case False
  let ?s = "pl_stream pl" and ?i = "next_id rnow (xs_last (pl_stream pl))"
  have s: "s = xadd rnow (event_fields cd e) ?s"
    using run False by (auto simp: Producer_XAdd_def split: if_splits sum.splits)
  let ?m = "(?i, event_fields cd e)"
  have es: "xs_entries s = xs_entries ?s @ [?m]" "xs_last s = ?i" "xs_group s = xs_group ?s" "xs_dlq s = xs_dlq ?s"
    by (simp_all add: s xadd_def Let_def)
  have si: "stream_inv A ?s" using inv by (simp add: pipe_inv_def)
  have lt: "fst m < ?i" if "m \<in> set A" for m
    using si that next_id_less[of "xs_last ?s" rnow] by (auto simp: stream_inv_def intro: le_less_trans)
  have pos: "(0, 0) < ?i" using si next_id_less[of "xs_last ?s" rnow] by (auto simp: stream_inv_def intro: le_less_trans)
  have "stream_inv (A @ [?m]) s"
    using si lt pos ok by (fastforce simp: stream_inv_def es sorted_wrt_append intro: less_imp_le)
  moreover have gi: "group_inv s" using inv next_id_less[of "xs_last ?s" rnow]
    by (auto simp: pipe_inv_def group_inv_def es pend_ids_def undelivered_def split: option.splits intro: order_trans less_imp_le)
  moreover have "covered (A @ [?m]) D (pl\<lparr>pl_stream := s\<rparr>)"
  proof -
    have "undelivered s ?i" using inv next_id_less[of "xs_last ?s" rnow]
      by (auto simp: undelivered_def es pipe_inv_def group_inv_def split: option.splits intro: le_less_trans)
    moreover have "undelivered s = undelivered ?s" "pend_ids s = pend_ids ?s" by (simp_all add: fun_eq_iff undelivered_def pend_ids_def es)
    moreover have "settled (pl\<lparr>pl_stream := s\<rparr>) m = settled pl m" for m by (simp add: settled_def parked_def es)
    ultimately show ?thesis using inv by (auto simp: pipe_inv_def covered_def es)
  qed
  ultimately show ?thesis using inv by (auto simp: pipe_inv_def es discards_inv_def)
qed

lemma pipeline_inv:
  assumes "pipeline_run cd handle recover h0 A D pl" "inv h0"
  shows "pipe_inv A D pl"
  using assms
proof (induction rule: pipeline_run.induct)
  case (start keys)
  then show ?case by (simp add: pipe_inv_def stream_inv_def group_inv_def covered_def discards_inv_def empty_stream_def pend_ids_def)
next
  case (produced A D pl conn rnow e ok s)
  then show ?case using produced_inv by blast
next
  case (consumed A D pl r rv pl' e)
  then show ?case using RunOnce_inv by blast
next
  case (processed A D pl m mv pl' e)
  then have i: "pipe_inv A D pl" by blast
  then have "distinct (map fst A)" "inv (pl_handler pl)" by (auto simp: pipe_inv_def stream_inv_distinct)
  then have "advances A pl pl'" using processed.hyps
    by (intro process_advances) (auto simp: distinct_map dest: inj_onD)
  then show ?case by (rule advances_inv[OF i])
next
  case (trimmed A D pl c1 c2 now s ok)
  then show ?case using trim_inv by blast
qed

lemma nothing_lost:
  assumes "pipeline_run cd handle recover h0 A D pl" "inv h0" "m \<in> set A"
  shows "m \<in> set (xs_entries (pl_stream pl)) \<and> (undelivered (pl_stream pl) (fst m) \<or> fst m \<in> set (pend_ids (pl_stream pl))) \<or>
    parked (pl_stream pl) m \<or> (\<exists>w. work_of cd (snd m) = Inr w \<and> recorded w (pl_handler pl)) \<or>
    (\<exists>t. (t, m) \<in> set D \<and> fst (fst m) < unix_milli (t - Retention))"
proof -
  have i: "pipe_inv A D pl" by (rule pipeline_inv[OF assms(1,2)])
  have "m \<in> set (xs_entries (pl_stream pl))" if p: "fst m \<in> set (pend_ids (pl_stream pl))"
  proof -
    obtain m' where m': "m' \<in> set (xs_entries (pl_stream pl))" "fst m' = fst m"
      using p i by (auto simp: pipe_inv_def group_inv_def dest!: subsetD)
    then have "m' \<in> set A" using i by (auto simp: pipe_inv_def stream_inv_def)
    moreover have "inj_on fst (set A)" using i stream_inv_distinct by (auto simp: pipe_inv_def distinct_map)
    ultimately have "m' = m" using assms(3) m'(2) by (auto dest: inj_onD)
    then show ?thesis using m' by simp
  qed
  moreover have "m \<notin> snd ` set D \<longrightarrow> (if undelivered (pl_stream pl) (fst m) then m \<in> set (xs_entries (pl_stream pl))
      else fst m \<in> set (pend_ids (pl_stream pl)) \<or> settled pl m)" using i assms(3) by (simp add: pipe_inv_def covered_def)
  moreover have "\<exists>t. (t, m) \<in> set D \<and> fst (fst m) < unix_milli (t - Retention)" if "m \<in> snd ` set D"
    using that i by (force simp: pipe_inv_def discards_inv_def)
  ultimately show ?thesis unfolding settled_def by (auto split: if_splits)
qed

end


section \<open>The ledger as the handler\<close>

definition ledger_handle :: "bool \<Rightarrow> time \<Rightarrow> work \<Rightarrow> ledger_service \<Rightarrow> ledger_service option" where
  "ledger_handle fault now w s =
     (case w of
        OpenAttempt e \<Rightarrow> (case HandleAttemptStarted fault e (sv_db s) of Inl _ \<Rightarrow> None | Inr db \<Rightarrow> Some (s\<lparr>sv_db := db\<rparr>))
      | CloseAttempt r \<Rightarrow> (case Ledger_HandleRelease fault now r s of (s', None) \<Rightarrow> Some s' | (_, Some e) \<Rightarrow> None))"

text \<open>The failures of the recovery: the database, the locked attempts and the clock.\<close>

definition ledger_recover ::
  "(string \<Rightarrow> string) \<Rightarrow> bool \<times> string list \<times> time \<Rightarrow> time \<Rightarrow> ledger_service \<Rightarrow> ledger_service option" where
  "ledger_recover sha = (\<lambda>(fault, locked, now) before s.
     (case RecoverAttempts sha fault locked now before (sv_db s) of Inl _ \<Rightarrow> None | Inr (db, n) \<Rightarrow> Some (s\<lparr>sv_db := db\<rparr>)))"

definition metered_once :: "string \<Rightarrow> ledger_db \<Rightarrow> bool" where
  "metered_once k db \<longleftrightarrow> (\<exists>!u. u \<in> set (ld_usage db) \<and> ul_attempt_id u = k)"

fun ledger_recorded :: "work \<Rightarrow> ledger_db \<Rightarrow> bool" where
  "ledger_recorded (OpenAttempt e) db = (map_of (ld_attempts db) (as_AttemptID e) \<noteq> None)"
| "ledger_recorded (CloseAttempt r) db = metered_once (rel_AttemptID r) db"

lemma metered_once_iff: "ledger_inv db \<Longrightarrow> metered_once k db \<longleftrightarrow> metered k (ld_usage db)"
  using inj_onD[of ul_attempt_id "set (ld_usage db)"] unfolding metered_once_def metered_def ledger_inv_def distinct_map
  by metis

text \<open>The tables only grow.\<close>

definition grows :: "ledger_db \<Rightarrow> ledger_db \<Rightarrow> bool" where
  "grows db db' \<longleftrightarrow> dom (map_of (ld_attempts db)) \<subseteq> dom (map_of (ld_attempts db')) \<and>
     (\<forall>k. metered k (ld_usage db) \<longrightarrow> metered k (ld_usage db'))"

lemma grows_trans: "grows a b \<Longrightarrow> grows b c \<Longrightarrow> grows a c"
  unfolding grows_def by (meson order_trans)

lemma insert_usage_grows: "insert_usage r db = Inr (db', fresh) \<Longrightarrow> grows db db'"
  using insert_usage_Inr(2)[of r db db' fresh] by (auto simp: grows_def metered_def)

lemma set_attempt_grows: "set_attempt k a db = Inr db' \<Longrightarrow> grows db db'"
  by (auto dest!: set_attempt_Inr simp: grows_def gomap_simps)

lemma HandleAttemptStarted_grows: "HandleAttemptStarted fault e db = Inr db' \<Longrightarrow> grows db db'"
  by (auto simp: HandleAttemptStarted_def grows_def gomap_simps split: if_splits option.splits)

lemma HandleAttemptStarted_opens:
  "HandleAttemptStarted fault e db = Inr db' \<Longrightarrow> map_of (ld_attempts db') (as_AttemptID e) \<noteq> None"
  by (auto simp: HandleAttemptStarted_def gomap_simps split: if_splits option.splits)

lemma HandleRelease_grows:
  assumes "HandleRelease fault r db = Inr (db', fresh)"
  shows "grows db db'"
  using assms
proof (rule HandleRelease_Inr)
  fix a db1 db2
  assume "insert_usage r db = Inr (db1, fresh)" "set_attempt (rel_AttemptID r) (close_attempt r a) db1 = Inr db2"
    and d: "if fresh then \<exists>t. applyReleaseAuthority r (ld_accounts db2) = Inr t \<and> db' = db2\<lparr>ld_accounts := t\<rparr> else db' = db2"
  then have "grows db db2" using insert_usage_grows set_attempt_grows grows_trans by blast
  then show ?thesis using d by (auto simp: grows_def split: if_splits)
qed

lemma recover_all_grows: "recover_all sha now cs db = Inr db' \<Longrightarrow> grows db db'"
proof (induction cs arbitrary: db)
  case Nil
  then show ?case by (simp add: grows_def)
next
  case (Cons c cs)
  obtain k a where c: "c = (k, a)" by (cases c)
  from Cons.prems obtain db1 where 1: "recover_one sha now (k, a) db = Inr db1" "recover_all sha now cs db1 = Inr db'"
    by (auto simp: c split: sum.splits)
  from 1(1) obtain db0 f where "insert_usage (synthetic_release sha now k a) db = Inr (db0, f)"
    "grows db0 db1" using set_attempt_grows by (fastforce simp: recover_one_def split: sum.splits prod.splits)
  then show ?case using Cons.IH[OF 1(2)] insert_usage_grows grows_trans by blast
qed

lemma RecoverAttempts_grows: "RecoverAttempts sha fault locked now before db = Inr (db', n) \<Longrightarrow> grows db db'"
  by (auto simp: RecoverAttempts_def Let_def split: if_splits sum.splits intro: recover_all_grows)

lemma HandleRelease_metered:
  assumes "ledger_inv db" "HandleRelease fault r db = Inr (db', fresh)"
  shows "metered (rel_AttemptID r) (ld_usage db')"
  using assms(2)
proof (rule HandleRelease_Inr)
  fix a db1 db2
  assume "set_attempt (rel_AttemptID r) (close_attempt r a) db1 = Inr db2"
    and d: "if fresh then \<exists>t. applyReleaseAuthority r (ld_accounts db2) = Inr t \<and> db' = db2\<lparr>ld_accounts := t\<rparr> else db' = db2"
  then have "map_of (ld_attempts db') (rel_AttemptID r) = Some (close_attempt r a)"
    by (auto dest!: set_attempt_Inr simp: gomap_simps split: if_splits)
  moreover have "\<exists>e. ra_terminal_event_id (close_attempt r a) = Some e"
    by (auto simp: close_attempt_def split: option.splits)
  ultimately show ?thesis using closed_metered[OF HandleRelease_inv[OF assms]] by blast
qed

lemma ledger_handle_cases:
  assumes "ledger_handle fault now w s = Some s'"
  obtains (opened) e where "w = OpenAttempt e" "HandleAttemptStarted fault e (sv_db s) = Inr (sv_db s')"
  | (closed) r fresh where "w = CloseAttempt r" "HandleRelease fault r (sv_db s) = Inr (sv_db s', fresh)"
proof (cases w)
  case (OpenAttempt e)
  then show thesis using assms opened by (auto simp: ledger_handle_def split: sum.splits)
next
  case (CloseAttempt r)
  then show thesis using assms closed
    by (auto simp: ledger_handle_def Ledger_HandleRelease_def split: sum.splits prod.splits option.splits)
qed

lemma ledger_handle_step:
  assumes "ledger_handle fault now w s = Some s'" "ledger_inv (sv_db s)"
  shows "ledger_inv (sv_db s') \<and> ledger_recorded w (sv_db s') \<and> grows (sv_db s) (sv_db s')"
  using assms(1)
proof (cases rule: ledger_handle_cases)
  case (opened e)
  then have "ledger_recorded w (sv_db s')"
    using HandleAttemptStarted_opens by fastforce
  with opened show ?thesis using HandleAttemptStarted_inv[OF assms(2)] HandleAttemptStarted_grows by blast
next
  case (closed r fresh)
  note i = HandleRelease_inv[OF assms(2) closed(2)]
  have "ledger_recorded w (sv_db s')"
    using closed(1) HandleRelease_metered[OF assms(2) closed(2)] metered_once_iff[OF i] by simp
  with closed(2) i show ?thesis using HandleRelease_grows by blast
qed

lemma recorded_grows:
  "ledger_inv db \<Longrightarrow> ledger_inv db' \<Longrightarrow> grows db db' \<Longrightarrow> ledger_recorded w db \<Longrightarrow> ledger_recorded w db'"
  by (cases w) (auto simp: grows_def metered_once_iff)

lemma ledger_recover_step:
  assumes "ledger_recover sha r before s = Some s'" "ledger_inv (sv_db s)"
  shows "ledger_inv (sv_db s') \<and> grows (sv_db s) (sv_db s')"
  using assms RecoverAttempts_inv RecoverAttempts_grows
  by (fastforce simp: ledger_recover_def split: prod.splits sum.splits)

interpretation control: event_handler cd ledger_handle "ledger_recover sha" "\<lambda>s. ledger_inv (sv_db s)"
  "\<lambda>w s. ledger_recorded w (sv_db s)" for cd sha
  by unfold_locales (use ledger_handle_step ledger_recover_step recorded_grows in blast)+


section \<open>Properties\<close>

text \<open>
  C12.  No event is lost between a gateway and the ledger.  Whatever fails on the way, whichever
  consumers run and crash, redeliver and trim, an entry that was ever appended is still in the
  stream, waiting to be delivered or pending; or it is in the dead-letter queue with its fields;
  or it is in the ledger, an attempt opened or a release metered by exactly one row; or a trim
  removed it before anyone had read it, more than seven days after it was written.
\<close>

theorem no_event_lost:
  assumes "pipeline_run cd ledger_handle (ledger_recover sha) h0 A D pl" and "ledger_inv (sv_db h0)" and "m \<in> set A"
  shows "m \<in> set (xs_entries (pl_stream pl)) \<and> (undelivered (pl_stream pl) (fst m) \<or> fst m \<in> set (pend_ids (pl_stream pl))) \<or>
    parked (pl_stream pl) m \<or>
    (\<exists>w. work_of cd (snd m) = Inr w \<and> ledger_recorded w (sv_db (pl_handler pl))) \<or>
    (\<exists>t. (t, m) \<in> set D \<and> fst (fst m) < unix_milli (t - Retention))"
  by (rule control.nothing_lost[OF assms])

text \<open>Processing never makes a message pending again, and counts every try.\<close>

definition goes_through :: "message_env \<Rightarrow> bool" where
  "goes_through mv \<longleftrightarrow> mv_incr mv = Answered \<and> mv_expire mv = Answered \<and> mv_dlq mv = Answered \<and> mv_ack mv = Answered"

definition tries :: "time \<Rightarrow> stream_id \<Rightarrow> event_stream \<Rightarrow> int \<Rightarrow> bool" where
  "tries now i s n \<longleftrightarrow> (n = 0 \<and> xs_keys s (retryKey i) = None \<or>
     (\<exists>e. now < e \<and> xs_keys s (retryKey i) = Some (cell n e)))"

lemma pend_ids_updates [simp]:
  "pend_ids (s\<lparr>xs_dlq := d\<rparr>) = pend_ids s" "pend_ids (s\<lparr>xs_keys := k\<rparr>) = pend_ids s"
  "pend_ids (on_keys conn f s) = pend_ids s"
  by (simp_all add: pend_ids_def on_keys_def)

lemma acknowledge_settles:
  "mv_ack mv = Answered \<Longrightarrow> i \<notin> set (pend_ids (fst (acknowledge mv i s)))"
  "set (pend_ids (fst (acknowledge mv i s))) \<subseteq> set (pend_ids s)"
  by (auto simp: acknowledge_def on_stream_def ran_on_def control.pend_ids_xack Let_def)

lemma deadLetter_settles:
  "mv_dlq mv = Answered \<Longrightarrow> mv_ack mv = Answered \<Longrightarrow> fst m \<notin> set (pend_ids (fst (deadLetter mv m category s)))"
  "set (pend_ids (fst (deadLetter mv m category s))) \<subseteq> set (pend_ids s)"
proof -
  define s1 where "s1 = fst (deadLetter (mv\<lparr>mv_dlq := ReplyLost\<rparr>) m category s)"
  have p: "pend_ids s1 = pend_ids s" by (simp add: s1_def deadLetter_def Let_def on_stream_def)
  have d: "deadLetter mv m category s = (if mv_dlq mv = Answered then acknowledge mv (fst m) s1
      else (if ran_on (mv_dlq mv) then s1 else s, Some RedisError))"
    by (simp add: s1_def deadLetter_def Let_def on_stream_def ran_on_def)
  show "mv_dlq mv = Answered \<Longrightarrow> mv_ack mv = Answered \<Longrightarrow> fst m \<notin> set (pend_ids (fst (deadLetter mv m category s)))"
    using acknowledge_settles(1)[of mv "fst m" s1] by (simp add: d)
  show "set (pend_ids (fst (deadLetter mv m category s))) \<subseteq> set (pend_ids s)"
    using acknowledge_settles(2)[of mv "fst m" s1] p by (simp add: d)
qed

lemma process_shrinks: "set (pend_ids (pl_stream (fst (process cd handle mv m pl)))) \<subseteq> set (pend_ids (pl_stream pl))"
proof -
  have a: "set (pend_ids (fst (acknowledge mv (fst m) (on_keys c f (pl_stream pl\<lparr>xs_keys := k\<rparr>))))) \<subseteq> set (pend_ids (pl_stream pl))"
    "set (pend_ids (fst (deadLetter mv m x (on_keys c f (pl_stream pl\<lparr>xs_keys := k\<rparr>))))) \<subseteq> set (pend_ids (pl_stream pl))"
    "set (pend_ids (fst (deadLetter mv m x (pl_stream pl)))) \<subseteq> set (pend_ids (pl_stream pl))" for c f k x
    using acknowledge_settles(2)[of mv "fst m" "on_keys c f (pl_stream pl\<lparr>xs_keys := k\<rparr>)"]
      deadLetter_settles(2)[of mv m x] by (metis pend_ids_updates(2,3))+
  show ?thesis
    by (simp add: process_def Let_def case_prod_unfold a split: sum.split option.split)
qed

lemma retry_counted:
  assumes "tries (mv_now mv) i s n" "0 \<le> n" "n \<le> MaxRetries"
  shows "\<exists>keys. redis_incr (mv_now mv) (retryKey i) (xs_keys s) = Some (n + 1, keys) \<and>
    redis_pexpire (mv_now mv) (retryKey i) retryTTL keys (retryKey i) = Some (cell (n + 1) (mv_now mv + Retention))"
proof -
  have n: "min_int64 \<le> n" "n \<le> max_int64" "min_int64 \<le> n + 1" "\<not> n + 1 > max_int64"
    using assms(2,3) by (simp_all add: MaxRetries_def min_int64_def max_int64_def)
  have ttl: "retryTTL * 1000000 = Retention" by (simp add: retryTTL_def Retention_def second_def)
  from assms(1) show ?thesis unfolding tries_def
  proof (elim disjE exE conjE)
    assume "n = 0" "xs_keys s (retryKey i) = None"
    then show ?thesis by (simp add: redis_incr_def redis_incrby_def redis_live_def redis_pexpire_def cell_def ttl)
  next
    fix e assume e: "mv_now mv < e" "xs_keys s (retryKey i) = Some (cell n e)"
    then show ?thesis using incrby_cell[where r = "xs_keys s" and k = "retryKey i" and d = 1, OF e(2,1) n(1-3)] n(4)
      by (simp add: redis_incr_def redis_pexpire_def redis_live_def ttl cell_def)
  qed
qed

lemma process_once:
  assumes "goes_through mv" "tries (mv_now mv) (fst m) (pl_stream pl) n" "0 \<le> n" "n \<le> MaxRetries"
    and "process cd handle mv m pl = (pl', e)"
  shows "fst m \<notin> set (pend_ids (pl_stream pl')) \<or>
    n < MaxRetries \<and> (\<forall>later < mv_now mv + Retention. tries later (fst m) (pl_stream pl') (n + 1))"
proof (cases "work_of cd (snd m)")
  case (Inl category)
  then show ?thesis using assms(1,5) deadLetter_settles(1)[of mv m category "pl_stream pl"]
    by (auto simp: process_def goes_through_def split: prod.splits)
next
  case (Inr w)
  obtain keys where k: "redis_incr (mv_now mv) (retryKey (fst m)) (xs_keys (pl_stream pl)) = Some (n + 1, keys)"
    "redis_pexpire (mv_now mv) (retryKey (fst m)) retryTTL keys (retryKey (fst m)) = Some (cell (n + 1) (mv_now mv + Retention))"
    using retry_counted[OF assms(2-4)] by blast
  define s1 where "s1 = on_keys (mv_expire mv) (redis_pexpire (mv_now mv) (retryKey (fst m)) retryTTL) ((pl_stream pl)\<lparr>xs_keys := keys\<rparr>)"
  have t: "tries later (fst m) s1 (n + 1)" if "later < mv_now mv + Retention" for later
    using that k(2) assms(1) by (auto simp: tries_def s1_def on_keys_def ran_on_def goes_through_def)
  show ?thesis
  proof (cases "n + 1 > MaxRetries")
    case True
    then show ?thesis using assms(1,5) Inr k(1) deadLetter_settles(1)[of mv m "''retry_exhausted''" s1]
      by (auto simp: process_def Let_def ran_on_def goes_through_def s1_def split: prod.splits)
  next
    case False
    show ?thesis
    proof (cases "handle (mv_fault mv) (mv_handledAt mv) w (pl_handler pl)")
      case None
      then have "pl' = pl\<lparr>pl_stream := s1\<rparr>"
        using assms(1,5) Inr k(1) False by (simp add: process_def Let_def ran_on_def goes_through_def s1_def)
      then show ?thesis using t False by auto
    next
      case (Some h)
      then show ?thesis using assms(1,5) Inr k(1) False acknowledge_settles(1)[of mv "fst m" s1]
        by (auto simp: process_def Let_def ran_on_def goes_through_def s1_def split: prod.splits)
    qed
  qed
qed


fun spaced :: "message_env list \<Rightarrow> bool" where
  "spaced (a # b # mvs) = (mv_now b < mv_now a + Retention \<and> spaced (b # mvs))"
| "spaced mvs = True"

definition process_again ::
  "codec \<Rightarrow> (bool \<Rightarrow> time \<Rightarrow> work \<Rightarrow> 'h \<Rightarrow> 'h option) \<Rightarrow> message \<Rightarrow> message_env list \<Rightarrow> 'h pipeline \<Rightarrow> 'h pipeline" where
  "process_again cd handle m mvs pl = fold (\<lambda>mv pl. fst (process cd handle mv m pl)) mvs pl"

lemma process_again_shrinks: "set (pend_ids (pl_stream (process_again cd handle m mvs pl))) \<subseteq> set (pend_ids (pl_stream pl))"
proof (induction mvs arbitrary: pl)
  case (Cons mv mvs)
  then show ?case using process_shrinks[of cd handle mv m pl] by (auto simp: process_again_def)
qed (simp add: process_again_def)

lemma process_again_bound:
  assumes "\<forall>mv \<in> set mvs. goes_through mv" "spaced mvs" "mvs \<noteq> []"
    "tries (mv_now (hd mvs)) (fst m) (pl_stream pl) n" "0 \<le> n" "n \<le> MaxRetries" "MaxRetries < n + int (length mvs)"
  shows "fst m \<notin> set (pend_ids (pl_stream (process_again cd handle m mvs pl)))"
  using assms
proof (induction mvs arbitrary: pl n)
  case (Cons mv mvs)
  obtain pl' e where p: "process cd handle mv m pl = (pl', e)" by fastforce
  have again: "process_again cd handle m (mv # mvs) pl = process_again cd handle m mvs pl'" by (simp add: process_again_def p)
  from process_once[OF _ _ Cons.prems(5,6) p] Cons.prems(1,4)
  consider "fst m \<notin> set (pend_ids (pl_stream pl'))"
    | "n < MaxRetries" "\<forall>later < mv_now mv + Retention. tries later (fst m) (pl_stream pl') (n + 1)" by fastforce
  then show ?case
  proof cases
    case 1
    then show ?thesis using process_again_shrinks[of cd handle m mvs pl'] by (auto simp: again)
  next
    case 2
    then have "mvs \<noteq> []" using Cons.prems(7) by auto
    moreover have "spaced mvs" "mv_now (hd mvs) < mv_now mv + Retention"
      using Cons.prems(2) \<open>mvs \<noteq> []\<close> by (cases mvs; simp)+
    ultimately show ?thesis using Cons.IH[of pl' "n + 1"] 2 Cons.prems by (simp add: again)
  qed
qed simp

text \<open>
  C36.  A poison message cannot block the stream.  However its handler fails, a message that is
  processed six times while Redis answers, each time within seven days of the last, is no longer
  pending: it was handled, or parked in the dead-letter queue.
\<close>

theorem settled_by_the_sixth_try:
  assumes "\<forall>mv \<in> set mvs. goes_through mv" and "spaced mvs" and "6 \<le> length mvs"
    and "xs_keys (pl_stream pl) (retryKey (fst m)) = None"
  shows "fst m \<notin> set (pend_ids (pl_stream (process_again cd handle m mvs pl)))"
  by (rule process_again_bound[where n = 0]) (use assms in \<open>auto simp: tries_def MaxRetries_def\<close>)

definition sample_codec :: codec where
  "sample_codec = \<lparr>cd_formatTime = show_int, cd_parseTime = parse_int64, cd_jsonValid = (\<lambda>p. True),
     cd_started = (\<lambda>p. None), cd_release = (\<lambda>p. None), cd_sha = (\<lambda>x. x)\<rparr>"

definition sample_event :: StreamEvent where
  "sample_event = \<lparr>ev_EventType = EventTypeRelease, ev_SchemaVersion = SchemaVersion, ev_EventID = ''e1'', ev_RequestID = ''r1'',
     ev_AttemptID = ''a1'', ev_ProducerID = ''g1'', ev_OccurredAt = 1, ev_Payload = ''{}''\<rparr>"

definition sample_message_env :: "time \<Rightarrow> message_env" where
  "sample_message_env now = \<lparr>mv_now = now, mv_incr = Answered, mv_expire = Answered, mv_get = Answered, mv_dlq = Answered,
     mv_ack = Answered, mv_del = Answered, mv_fault = False, mv_handledAt = now\<rparr>"

definition sample_run_env :: "time \<Rightarrow> run_env" where
  "sample_run_env now = \<lparr>rv_name = '''', rv_group = Answered, rv_pending = Answered, rv_pendingAt = now, rv_claim = Answered,
     rv_claimAt = now, rv_reclaimed = (\<lambda>i. sample_message_env now), rv_read = Answered, rv_readAt = now,
     rv_fresh = (\<lambda>i. sample_message_env now), rv_now = now\<rparr>"

definition grouped_stream :: event_stream where
  "grouped_stream = (empty_stream Map.empty)\<lparr>xs_group := Some \<lparr>cg_last = (0, 0), cg_pending = []\<rparr>\<rparr>"

definition sample_stream :: event_stream where
  "sample_stream = grouped_stream\<lparr>xs_entries := [((1000, 0), event_fields sample_codec sample_event)], xs_last := (1000, 0)\<rparr>"

lemma grouped_run:
  "pipeline_run sample_codec ledger_handle (ledger_recover sha) h0 [] [] \<lparr>pl_stream = grouped_stream, pl_handler = h0\<rparr>"
proof (rule pipeline_run.consumed[OF pipeline_run.start[where keys = Map.empty]])
  show "Consumer_RunOnce sample_codec ledger_handle (ledger_recover sha (True, [], 0)) (sample_run_env unix_epoch)
      \<lparr>pl_stream = empty_stream Map.empty, pl_handler = h0\<rparr> = (\<lparr>pl_stream = grouped_stream, pl_handler = h0\<rparr>, Some HandlerError)"
    by (simp add: Consumer_RunOnce_def sample_run_env_def on_stream_def ran_on_def xgroup_create_def empty_stream_def
        grouped_stream_def reclaim_def xpending_def read_new_def xreadgroup_def unread_def ledger_recover_def
        RecoverAttempts_def Let_def)
qed

lemma sample_event_valid: "StreamEvent_Validate (cd_jsonValid sample_codec) sample_event = Inr ()"
  by code_simp

lemma sample_stream_run:
  "pipeline_run sample_codec ledger_handle (ledger_recover sha) h0 (xs_entries sample_stream) []
     \<lparr>pl_stream = sample_stream, pl_handler = h0\<rparr>"
proof -
  have m: "unix_milli (unix_epoch + second) = 1000" by (simp add: unix_milli_def second_def)
  have p: "Producer_XAdd sample_codec Answered (unix_epoch + second) sample_event grouped_stream = (True, sample_stream)"
    by (simp add: Producer_XAdd_def sample_event_valid xadd_def Let_def next_id_def m grouped_stream_def empty_stream_def sample_stream_def)
  have "id_ok (xs_last sample_stream)" by (simp add: sample_stream_def id_ok_def max_int64_def)
  from pipeline_run.produced[OF grouped_run, simplified, OF p this] show ?thesis
    by (simp add: grouped_stream_def empty_stream_def)
qed

theorem no_event_lost_witness:
  "\<exists>pl. pipeline_run sample_codec ledger_handle (ledger_recover (\<lambda>x. x))
      \<lparr>sv_db = sample_ledger, sv_signals = NewPlatformSignals, sv_detail = []\<rparr> (xs_entries sample_stream) [] pl \<and>
    hd (xs_entries sample_stream) \<in> set (xs_entries (pl_stream pl))"
proof -
  let ?h = "\<lparr>sv_db = sample_ledger, sv_signals = NewPlatformSignals, sv_detail = []\<rparr>"
  let ?pl = "\<lparr>pl_stream = sample_stream, pl_handler = ?h\<rparr>" and ?m = "hd (xs_entries sample_stream)"
  have r: "pipeline_run sample_codec ledger_handle (ledger_recover (\<lambda>x. x)) ?h (xs_entries sample_stream) [] ?pl"
    by (rule sample_stream_run)
  have i: "ledger_inv (sv_db ?h)" using ledger_reachable_inv[OF sample_ledger_reachable] by simp
  have m: "?m \<in> set (xs_entries sample_stream)" by (simp add: sample_stream_def)
  have "work_of sample_codec (snd ?m) = Inl ''invalid_json''" by code_simp
  then have "?m \<in> set (xs_entries (pl_stream ?pl))" using no_event_lost[OF r i m]
    by (auto simp: sample_stream_def parked_def grouped_stream_def empty_stream_def)
  then show ?thesis using r by blast
qed

theorem settled_by_the_sixth_try_witness:
  "fst (hd (xs_entries sample_stream)) \<notin> set (pend_ids (pl_stream (process_again sample_codec (\<lambda>f t w h. None)
     (hd (xs_entries sample_stream)) (replicate 6 (sample_message_env 5)) \<lparr>pl_stream = sample_stream, pl_handler = ()\<rparr>)))"
  by (rule settled_by_the_sixth_try)
    (simp_all add: sample_message_env_def goes_through_def sample_stream_def grouped_stream_def empty_stream_def
      Retention_def second_def numeral_eq_Suc)

text \<open>
  Work that nobody has read is trimmed away.  The trim stops at the oldest pending entry,
  but an entry that was never delivered is not pending: there is a history in which a producer's
  release was acknowledged, and after a trim it is in no stream, no queue and no ledger.
\<close>

theorem unread_work_is_trimmed:
  "\<exists>D pl. pipeline_run sample_codec ledger_handle (ledger_recover sha) h0 (xs_entries sample_stream) D pl \<and>
     xs_entries sample_stream \<noteq> [] \<and> xs_entries (pl_stream pl) = [] \<and> xs_dlq (pl_stream pl) = [] \<and>
     pend_ids (pl_stream pl) = [] \<and> pl_handler pl = h0"
proof -
  let ?now = "unix_epoch + Retention + 2 * second"
  have t: "parse_id (trim_threshold ?now []) = Some (2000, 0)" by code_simp
  then have "Trim Answered Answered ?now sample_stream = (sample_stream\<lparr>xs_entries := []\<rparr>, True)"
    by (simp add: Trim_def sample_stream_def grouped_stream_def on_stream_def ran_on_def xtrim_minid_def less_eq_prod_simp)
  from pipeline_run.trimmed[OF sample_stream_run, simplified, OF this] show ?thesis
    by (intro exI conjI) (assumption, simp_all add: sample_stream_def grouped_stream_def empty_stream_def pend_ids_def)
qed

end
