(* ===== verification/Delivery.thy ===== *)
theory Delivery
  imports Gateway EventStream
begin

text \<open>
  From the gateway to the ledger: what the request handler writes to the event stream, and what
  control's consumer makes of it (\<^verbatim>\<open>internal/gateway/server.go\<close>, \<^verbatim>\<open>internal/events/stream.go\<close>,
  \<^verbatim>\<open>internal/control/events_adapter.go\<close>).  The two sides share the JSON encoding and the text of a
  time; that a value is read back as it was written is assumed of the events at hand only.
\<close>

section \<open>An event on the wire\<close>

definition fields_of :: "event_env \<Rightarrow> codec \<Rightarrow> gateway_event \<Rightarrow> stream_fields option" where
  "fields_of ee cd ev = (case envelope ee ev of Inl _ \<Rightarrow> None | Inr e \<Rightarrow> Some (event_fields cd e))"

fun payload_read :: "codec \<Rightarrow> string \<Rightarrow> gateway_event \<Rightarrow> bool" where
  "payload_read cd b (gateway_event.Started s) =
     (cd_started cd b = Some s \<and> cd_parseTime cd (cd_formatTime cd (as_OccurredAt s)) = Some (as_OccurredAt s))"
| "payload_read cd b (gateway_event.Released r) =
     (cd_release cd b = Some r \<and> cd_parseTime cd (cd_formatTime cd (rel_OccurredAt r)) = Some (rel_OccurredAt r))"

definition agrees :: "event_env \<Rightarrow> codec \<Rightarrow> gateway_event \<Rightarrow> bool" where
  "agrees ee cd ev \<longleftrightarrow>
     (case ee_marshal ee ev of None \<Rightarrow> False | Some b \<Rightarrow> b \<noteq> '''' \<and> cd_jsonValid cd b \<and> payload_read cd b ev)"

lemma decode_event_fields:
  assumes "cd_parseTime cd (cd_formatTime cd (ev_OccurredAt e)) = Some (ev_OccurredAt e)"
    and "min_int64 \<le> ev_SchemaVersion e" "ev_SchemaVersion e \<le> max_int64"
  shows "decode cd (event_fields cd e) = Inr e"
  using assms by (simp add: decode_def event_fields_def parse_int64_show_int)

lemma schema_version_ok: "supportedSchemaVersion SchemaVersion" "min_int64 \<le> SchemaVersion" "SchemaVersion \<le> max_int64"
  by (simp_all add: supportedSchemaVersion_def SchemaVersion_def min_int64_def max_int64_def)

lemma work_of_started:
  assumes "agrees ee cd (gateway_event.Started s)" "AttemptStarted_Validate s = Inr ()" "as_SchemaVersion s = SchemaVersion"
  obtains fs where "fields_of ee cd (gateway_event.Started s) = Some fs" "work_of cd fs = Inr (OpenAttempt s)"
proof -
  obtain b where b: "ee_marshal ee (gateway_event.Started s) = Some b" "b \<noteq> ''''" "cd_jsonValid cd b" "cd_started cd b = Some s"
    "cd_parseTime cd (cd_formatTime cd (as_OccurredAt s)) = Some (as_OccurredAt s)" using assms(1) by (auto simp: agrees_def split: option.splits)
  let ?e = "\<lparr>ev_EventType = EventTypeAttemptStarted, ev_SchemaVersion = SchemaVersion, ev_EventID = as_EventID s,
    ev_RequestID = as_RequestID s, ev_AttemptID = as_AttemptID s, ev_ProducerID = as_ProducerID s,
    ev_OccurredAt = as_OccurredAt s, ev_Payload = b\<rparr>"
  have f: "fields_of ee cd (gateway_event.Started s) = Some (event_fields cd ?e)"
    by (simp add: fields_of_def envelope_def NewStreamEvent_def b)
  have d: "decode cd (event_fields cd ?e) = Inr ?e" by (rule decode_event_fields) (simp_all add: b schema_version_ok)
  have v: "\<not> is_blank (as_EventID s)" "\<not> is_blank (as_RequestID s)" "\<not> is_blank (as_AttemptID s)"
    "\<not> is_blank (as_ProducerID s)" "\<not> is_zero_time (as_OccurredAt s)"
    using assms(2) by (auto simp: AttemptStarted_Validate_def missing_fields_def Let_def split: if_splits)
  have "StreamEvent_Validate (cd_jsonValid cd) ?e = Inr ()"
    using v b by (simp add: StreamEvent_Validate_def missing_fields_def schema_version_ok)
  then have "work_of cd (event_fields cd ?e) = Inr (OpenAttempt s)"
    using d b assms(2) by (simp add: work_of_def validateAttemptIdentity_def)
  with f show thesis by (rule that)
qed

lemma work_of_released:
  assumes "agrees ee cd (gateway_event.Released r)" "Release_Validate (cd_sha cd) r = Inr ()"
  obtains fs where "fields_of ee cd (gateway_event.Released r) = Some fs" "work_of cd fs = Inr (CloseAttempt r)"
proof -
  obtain b where b: "ee_marshal ee (gateway_event.Released r) = Some b" "b \<noteq> ''''" "cd_jsonValid cd b" "cd_release cd b = Some r"
    "cd_parseTime cd (cd_formatTime cd (rel_OccurredAt r)) = Some (rel_OccurredAt r)" using assms(1) by (auto simp: agrees_def split: option.splits)
  let ?e = "\<lparr>ev_EventType = EventTypeRelease, ev_SchemaVersion = SchemaVersion, ev_EventID = rel_EventID r,
    ev_RequestID = rel_RequestID r, ev_AttemptID = rel_AttemptID r, ev_ProducerID = rel_ProducerID r,
    ev_OccurredAt = rel_OccurredAt r, ev_Payload = b\<rparr>"
  have f: "fields_of ee cd (gateway_event.Released r) = Some (event_fields cd ?e)"
    by (simp add: fields_of_def envelope_def NewStreamEvent_def b)
  have d: "decode cd (event_fields cd ?e) = Inr ?e" by (rule decode_event_fields) (simp_all add: b schema_version_ok)
  have v: "\<not> is_blank (rel_EventID r)" "\<not> is_blank (rel_RequestID r)" "\<not> is_blank (rel_AttemptID r)"
    "\<not> is_blank (rel_ProducerID r)" "\<not> is_zero_time (rel_OccurredAt r)"
    using assms(2) by (auto simp: Release_Validate_def missing_fields_def Let_def split: if_splits)
  have "StreamEvent_Validate (cd_jsonValid cd) ?e = Inr ()"
    using v b by (simp add: StreamEvent_Validate_def missing_fields_def schema_version_ok)
  then have "work_of cd (event_fields cd ?e) = Inr (CloseAttempt r)"
    using d b assms(2) by (simp add: work_of_def validateReleaseIdentity_def)
  with f show thesis by (rule that)
qed


section \<open>An attempt in the ledger\<close>

definition started_of :: "Server \<Rightarrow> request_env \<Rightarrow> string \<Rightarrow> ChatCompletionRequest \<Rightarrow> int \<times> Lease \<Rightarrow> AttemptStarted" where
  "started_of srv env tenantID request p =
     attempt_started srv env (re_attempt env (fst p)) (snd p) (rq_Model request) tenantID (fst p)"

definition released_of ::
  "Server \<Rightarrow> request_env \<Rightarrow> string \<Rightarrow> ChatCompletionRequest \<Rightarrow> string \<Rightarrow> int \<times> Lease \<Rightarrow> Release" where
  "released_of srv env tenantID request inb p =
     (let ur = attempt_result srv env request inb p in
      release_of srv env (re_attempt env (fst p)) (snd p) (rq_Model request) tenantID (fst p) inb
        (ur_Status ur) (ur_Usage ur) False (attempt_class (snd p) ur))"

lemma event_of_attempt:
  "start_of srv env tenantID request p = gateway_event.Started (started_of srv env tenantID request p)"
  "end_of srv env tenantID request inb p = gateway_event.Released (released_of srv env tenantID request inb p)"
  by (simp_all add: start_of_def end_of_def started_of_def released_of_def Let_def)

definition attempt_id :: "request_env \<Rightarrow> int \<times> Lease \<Rightarrow> string" where
  "attempt_id env p = ae_attemptID (re_attempt env (fst p))"

text \<open>
  An attempt control can record: its names are not blank, its clocks run, and the numbers the
  upstream reported fit the columns.
\<close>

definition recordable :: "Server \<Rightarrow> request_env \<Rightarrow> string \<Rightarrow> ChatCompletionRequest \<Rightarrow> string \<Rightarrow> int \<times> Lease \<Rightarrow> bool" where
  "recordable srv env tenantID request inb p \<longleftrightarrow>
     (let ae = re_attempt env (fst p); ur = attempt_result srv env request inb p in
      list_all (\<lambda>s. \<not> is_blank s) [ae_startID ae, re_requestID env, ae_attemptID ae, sv_ProducerID srv,
        ls_AccountID (snd p), leaseProvider srv (snd p), rq_Model request, tenantID,
        TerminalEventID (re_sha256 env) (ae_attemptID ae)] \<and>
      0 < fst p \<and> ae_startedAt ae \<noteq> 0 \<and> ae_releasedAt ae \<noteq> 0 \<and> 0 \<le> ae_latencyMS ae \<and>
      0 \<le> ur_Status ur \<and> int4 (ur_Status ur) \<and>
      (\<forall>u. ur_Usage ur = Some u \<longrightarrow>
        list_all (\<lambda>n. 0 \<le> n \<and> int4 n) [us_Input u, us_Output u, us_CacheRead u, us_CacheWrite u]))"

lemma attempt_class_valid: "ErrorClass_Valid (attempt_class lease ur)"
  using classify_valid by (simp add: attempt_class_def ErrorClass_Valid_def)

lemma recordable_valid:
  assumes "recordable srv env tenantID request inb p"
  shows "AttemptStarted_Validate (started_of srv env tenantID request p) = Inr ()"
    and "Release_Validate (re_sha256 env) (released_of srv env tenantID request inb p) = Inr ()"
    and "list_all int4 [rel_StatusCode (released_of srv env tenantID request inb p),
      rel_TokensIn (released_of srv env tenantID request inb p), rel_TokensOut (released_of srv env tenantID request inb p),
      rel_CacheReadTokens (released_of srv env tenantID request inb p), rel_CacheWriteTokens (released_of srv env tenantID request inb p)]"
proof -
  have dl: "0 < request_deadline srv" by (simp add: request_deadline_def second_def)
  show "AttemptStarted_Validate (started_of srv env tenantID request p) = Inr ()"
    using assms dl schema_version_ok(1)
    by (simp add: recordable_def AttemptStarted_Validate_def started_of_def attempt_started_def missing_fields_def Let_def is_zero_time_def)
  show "Release_Validate (re_sha256 env) (released_of srv env tenantID request inb p) = Inr ()"
    using assms schema_version_ok(1) attempt_class_valid
    by (simp add: recordable_def Release_Validate_def released_of_def release_of_def missing_fields_def Let_def is_zero_time_def
        not_less split: option.splits)
  show "list_all int4 [rel_StatusCode (released_of srv env tenantID request inb p),
      rel_TokensIn (released_of srv env tenantID request inb p), rel_TokensOut (released_of srv env tenantID request inb p),
      rel_CacheReadTokens (released_of srv env tenantID request inb p), rel_CacheWriteTokens (released_of srv env tenantID request inb p)]"
    using assms by (auto simp: recordable_def released_of_def release_of_def Let_def int4_def split: option.splits)
qed

text \<open>Room in the ledger: the attempt is new, and no failure counter is about to overflow.\<close>

definition room_for :: "(string \<Rightarrow> string) \<Rightarrow> string list \<Rightarrow> ledger_db \<Rightarrow> bool" where
  "room_for sha ks db \<longleftrightarrow>
     (\<forall>k \<in> set ks. map_of (ld_attempts db) k = None \<and>
        (\<forall>k' a. map_of (ld_attempts db) k' = Some a \<longrightarrow> ra_terminal_event_id a \<noteq> Some (TerminalEventID sha k))) \<and>
     (\<forall>k a. map_of (ld_accounts db) k = Some a \<longrightarrow>
        0 \<le> ah_consecutive_failures a \<and> ah_consecutive_failures a + int (length ks) < 2 ^ 31)"

lemma authority_failures:
  "ah_consecutive_failures (authority_row cls t model a) \<in> {0, ah_consecutive_failures a, ah_consecutive_failures a + 1}"
  by (simp add: authority_row_def)

lemma authority_applies:
  assumes "\<And>k a. map_of t k = Some a \<Longrightarrow> 0 \<le> ah_consecutive_failures a \<and> ah_consecutive_failures a + m < 2 ^ 31" "1 \<le> m"
  obtains t' where "applyReleaseAuthority r t = Inr t'"
    "\<And>k a. map_of t' k = Some a \<Longrightarrow> 0 \<le> ah_consecutive_failures a \<and> ah_consecutive_failures a + (m - 1) < 2 ^ 31"
proof (cases "map_of t (rel_AccountID r)")
  case None
  then show thesis using assms that[of t] by (fastforce simp: applyReleaseAuthority_def)
next
  case (Some a)
  let ?a = "authority_row (rel_ErrorClass r) (pg_time (rel_OccurredAt r)) (rel_Model r) a"
  have b: "0 \<le> ah_consecutive_failures ?a" "ah_consecutive_failures ?a + (m - 1) < 2 ^ 31"
    using authority_failures[of "rel_ErrorClass r" "pg_time (rel_OccurredAt r)" "rel_Model r" a] assms(1)[OF Some] assms(2)
    by auto
  then have "int4 (ah_consecutive_failures ?a)" using assms(2) by (simp add: int4_def)
  then have "applyReleaseAuthority r t = Inr (AList.update (rel_AccountID r) ?a t)"
    using Some by (simp add: applyReleaseAuthority_def Let_def)
  then show thesis by (rule that) (use b assms(1) in \<open>fastforce simp: gomap_simps split: if_splits\<close>)
qed

lemma attempt_recorded:
  assumes inv: "ledger_inv (sv_db s)" and room: "room_for sha (k # ks) (sv_db s)"
    and ids: "as_AttemptID e = k" "rel_AttemptID r = k" "rel_EventID r = TerminalEventID sha k"
    and num: "list_all int4 [rel_StatusCode r, rel_TokensIn r, rel_TokensOut r, rel_CacheReadTokens r, rel_CacheWriteTokens r]"
    and dist: "k \<notin> set ks" "TerminalEventID sha k \<notin> TerminalEventID sha ` set ks"
  obtains s1 s2 i where "ledger_handle False now (OpenAttempt e) s = Some s1" "ledger_handle False now (CloseAttempt r) s1 = Some s2"
    "ld_usage (sv_db s2) = ld_usage (sv_db s) @ [release_row i r]" "ledger_inv (sv_db s2)" "room_for sha ks (sv_db s2)"
proof -
  let ?db = "sv_db s" and ?T = "TerminalEventID sha k"
  have new: "map_of (ld_attempts ?db) k = None" using room by (simp add: room_for_def)
  obtain b where b: "HandleAttemptStarted False e ?db = Inr (?db\<lparr>ld_attempts := AList.update k b (ld_attempts ?db)\<rparr>)"
    and bt: "ra_terminal_event_id b = None" using new ids(1) by (auto simp: HandleAttemptStarted_def)
  let ?db1 = "?db\<lparr>ld_attempts := AList.update k b (ld_attempts ?db)\<rparr>"
  have inv1: "ledger_inv ?db1" by (rule HandleAttemptStarted_inv[OF inv b])
  have noterm: "ra_terminal_event_id a \<noteq> Some ?T" if "map_of (ld_attempts ?db1) k' = Some a" for k' a
    using that room bt by (auto simp: room_for_def gomap_simps split: if_splits)
  have "\<not> conflicts ?T k (ld_usage ?db)"
    using ledger_inv_row[OF inv] new room by (fastforce simp: conflicts_def list_ex_iff room_for_def)
  then have ins: "insert_usage r ?db1 = Inr (?db1\<lparr>ld_usage := ld_usage ?db @ [release_row (ld_seq ?db) r], ld_seq := ld_seq ?db + 1\<rparr>, True)"
    using num ids by (simp add: insert_usage_def)
  let ?db2 = "?db1\<lparr>ld_usage := ld_usage ?db @ [release_row (ld_seq ?db) r], ld_seq := ld_seq ?db + 1\<rparr>"
  have ct: "ra_terminal_event_id (close_attempt r b) = Some ?T" using bt ids by (simp add: close_attempt_def)
  have "\<not> list_ex (\<lambda>(k', c). k' \<noteq> k \<and> ra_terminal_event_id c = Some ?T) (ld_attempts ?db2)"
    using noterm inv1 by (auto simp: list_ex_iff ledger_inv_def dest!: map_of_is_SomeI)
  then have set: "set_attempt k (close_attempt r b) ?db2 =
      Inr (?db2\<lparr>ld_attempts := AList.update k (close_attempt r b) (ld_attempts ?db2)\<rparr>)"
    by (simp add: set_attempt_def ct)
  have acc: "0 \<le> ah_consecutive_failures a \<and> ah_consecutive_failures a + (int (length ks) + 1) < 2 ^ 31"
    if "map_of (ld_accounts ?db) k' = Some a" for k' a
    using room that unfolding room_for_def by fastforce
  obtain t where t: "applyReleaseAuthority r (ld_accounts ?db) = Inr t"
    and tb: "\<And>k a. map_of t k = Some a \<Longrightarrow> 0 \<le> ah_consecutive_failures a \<and> ah_consecutive_failures a + int (length ks) < 2 ^ 31"
    by (rule authority_applies[where t = "ld_accounts ?db" and m = "int (length ks) + 1" and r = r]) (use acc in auto)
  let ?db3 = "?db2\<lparr>ld_attempts := AList.update k (close_attempt r b) (ld_attempts ?db2), ld_accounts := t\<rparr>"
  have h: "HandleRelease False r ?db1 = Inr (?db3, True)"
    using ins set t ids by (simp add: HandleRelease_def gomap_simps)
  let ?s1 = "s\<lparr>sv_db := ?db1\<rparr>"
  obtain s2 where s2: "ledger_handle False now (CloseAttempt r) ?s1 = Some s2" "sv_db s2 = ?db3"
    using h by (simp add: ledger_handle_def Ledger_HandleRelease_def)
  have "room_for sha ks ?db3"
    unfolding room_for_def
  proof (intro conjI ballI allI impI)
    fix k' assume k': "k' \<in> set ks"
    then show "map_of (ld_attempts ?db3) k' = None" using room dist(1) by (auto simp: room_for_def gomap_simps)
    fix k'' a assume "map_of (ld_attempts ?db3) k'' = Some a"
    then show "ra_terminal_event_id a \<noteq> Some (TerminalEventID sha k')"
      using room k' dist(2) ct by (auto simp: room_for_def gomap_simps split: if_splits)
  qed (use tb in auto)
  moreover have "ledger_inv ?db3" by (rule HandleRelease_inv[OF inv1 h])
  moreover have "ledger_handle False now (OpenAttempt e) s = Some ?s1" using b by (simp add: ledger_handle_def)
  ultimately show thesis using s2 by (intro that[of ?s1 s2 "ld_seq ?db"]) simp_all
qed


section \<open>A request in the ledger\<close>

text \<open>The consumer's calls for a batch of entries when nothing fails.\<close>

fun deliver :: "codec \<Rightarrow> time \<Rightarrow> stream_fields list \<Rightarrow> ledger_service \<Rightarrow> ledger_service option" where
  "deliver cd now [] s = Some s"
| "deliver cd now (fs # fss) s =
     (case work_of cd fs of
        Inl _ \<Rightarrow> None
      | Inr w \<Rightarrow> (case ledger_handle False now w s of None \<Rightarrow> None | Some s' \<Rightarrow> deliver cd now fss s'))"

definition attempt_events :: "Server \<Rightarrow> request_env \<Rightarrow> string \<Rightarrow> ChatCompletionRequest \<Rightarrow> string \<Rightarrow> (int \<times> Lease) list \<Rightarrow> gateway_event list" where
  "attempt_events srv env tenantID request inb ps =
     concat (map (\<lambda>p. [start_of srv env tenantID request p, end_of srv env tenantID request inb p]) ps)"

text \<open>The row of a recorded attempt.\<close>

definition row_of :: "Server \<Rightarrow> request_env \<Rightarrow> string \<Rightarrow> ChatCompletionRequest \<Rightarrow> string \<Rightarrow> int \<times> Lease \<Rightarrow> ledger_row \<Rightarrow> bool" where
  "row_of srv env tenantID request inb p u \<longleftrightarrow> (\<exists>i. u = release_row i (released_of srv env tenantID request inb p))"

definition own_ids :: "request_env \<Rightarrow> (int \<times> Lease) list \<Rightarrow> bool" where
  "own_ids env ps \<longleftrightarrow> distinct (map (attempt_id env) ps) \<and>
     distinct (map (TerminalEventID (re_sha256 env) \<circ> attempt_id env) ps)"

lemma attempts_recorded:
  assumes "ledger_inv (sv_db s)" "room_for (re_sha256 env) (map (attempt_id env) ps) (sv_db s)" "own_ids env ps"
    and "cd_sha cd = re_sha256 env" "\<forall>p \<in> set ps. recordable srv env tenantID request inb p"
    and "\<forall>ev \<in> set (attempt_events srv env tenantID request inb ps). agrees (re_events env) cd ev"
  shows "\<exists>fss s' rows. map (fields_of (re_events env) cd) (attempt_events srv env tenantID request inb ps) = map Some fss \<and>
    deliver cd now fss s = Some s' \<and> ledger_inv (sv_db s') \<and> ld_usage (sv_db s') = ld_usage (sv_db s) @ rows \<and>
    list_all2 (row_of srv env tenantID request inb) ps rows"
  using assms
proof (induction ps arbitrary: s)
  case Nil
  then show ?case by (simp add: attempt_events_def)
next
  case (Cons p ps)
  let ?e = "started_of srv env tenantID request p" and ?r = "released_of srv env tenantID request inb p"
  have ev: "attempt_events srv env tenantID request inb (p # ps) =
      gateway_event.Started ?e # gateway_event.Released ?r # attempt_events srv env tenantID request inb ps"
    by (simp add: attempt_events_def event_of_attempt)
  have ok: "recordable srv env tenantID request inb p" using Cons.prems(5) by simp
  obtain f1 where f1: "fields_of (re_events env) cd (gateway_event.Started ?e) = Some f1" "work_of cd f1 = Inr (OpenAttempt ?e)"
    by (rule work_of_started[OF _ recordable_valid(1)[OF ok], of "re_events env" cd])
      (use Cons.prems(6) in \<open>auto simp: ev started_of_def attempt_started_def\<close>)
  obtain f2 where f2: "fields_of (re_events env) cd (gateway_event.Released ?r) = Some f2" "work_of cd f2 = Inr (CloseAttempt ?r)"
    by (rule work_of_released[of "re_events env" cd ?r]) (use Cons.prems(4,6) recordable_valid(2)[OF ok] in \<open>auto simp: ev\<close>)
  obtain s1 s2 i where h: "ledger_handle False now (OpenAttempt ?e) s = Some s1" "ledger_handle False now (CloseAttempt ?r) s1 = Some s2"
    "ld_usage (sv_db s2) = ld_usage (sv_db s) @ [release_row i ?r]" "ledger_inv (sv_db s2)"
    "room_for (re_sha256 env) (map (attempt_id env) ps) (sv_db s2)"
  proof (rule attempt_recorded[OF Cons.prems(1), of "re_sha256 env" "attempt_id env p" "map (attempt_id env) ps" ?e ?r now])
    show "room_for (re_sha256 env) (attempt_id env p # map (attempt_id env) ps) (sv_db s)" using Cons.prems(2) by simp
    show "as_AttemptID ?e = attempt_id env p" "rel_AttemptID ?r = attempt_id env p"
      "rel_EventID ?r = TerminalEventID (re_sha256 env) (attempt_id env p)"
      by (simp_all add: started_of_def attempt_started_def released_of_def release_of_def attempt_id_def Let_def)
    show "attempt_id env p \<notin> set (map (attempt_id env) ps)"
      "TerminalEventID (re_sha256 env) (attempt_id env p) \<notin> TerminalEventID (re_sha256 env) ` set (map (attempt_id env) ps)"
      using Cons.prems(3) by (auto simp: own_ids_def)
  qed (use recordable_valid(3)[OF ok] in blast)+
  obtain fss s' rows where ih: "map (fields_of (re_events env) cd) (attempt_events srv env tenantID request inb ps) = map Some fss"
    "deliver cd now fss s2 = Some s'" "ledger_inv (sv_db s')" "ld_usage (sv_db s') = ld_usage (sv_db s2) @ rows"
    "list_all2 (row_of srv env tenantID request inb) ps rows"
    using Cons.IH[OF h(4,5)] Cons.prems(3-6) by (auto simp: own_ids_def ev)
  have "deliver cd now (f1 # f2 # fss) s = Some s'" using f1(2) f2(2) h(1,2) ih(2) by simp
  moreover have "row_of srv env tenantID request inb p (release_row i ?r)" by (auto simp: row_of_def)
  ultimately show ?case using ih f1(1) f2(1) h(3)
    by (intro exI[of _ "f1 # f2 # fss"] exI[of _ s'] exI[of _ "release_row i ?r # rows"]) (simp add: ev)
qed

text \<open>
  What a request, its server and the pool must name for its attempts to be on record, and the clocks
  of its two attempts: none of it depends on how the request goes.  (A blank name is refused by
  control; the handler itself only refuses an empty model and an empty tenant.)
\<close>

definition well_named :: "Server \<Rightarrow> request_env \<Rightarrow> string \<Rightarrow> string \<Rightarrow> chooser \<Rightarrow> bool" where
  "well_named srv env tenantID model c \<longleftrightarrow>
     list_all (\<lambda>s. \<not> is_blank s) [model, tenantID, sv_ProducerID srv, re_requestID env] \<and>
     list_all (\<lambda>n. let ae = re_attempt env n in
       list_all (\<lambda>s. \<not> is_blank s) [ae_startID ae, ae_attemptID ae, TerminalEventID (re_sha256 env) (ae_attemptID ae)] \<and>
       ae_startedAt ae \<noteq> 0 \<and> ae_releasedAt ae \<noteq> 0 \<and> 0 \<le> ae_latencyMS ae) [1, 2] \<and>
     list_all (\<lambda>(_, a). \<not> is_blank (ac_ID a) \<and> \<not> is_blank (if ac_Provider a \<noteq> '''' then ac_Provider a else sv_Provider srv)) (ch_accounts c)"

text \<open>An upstream whose replies carry an HTTP status and whose token counts fit the columns.\<close>

definition upstream_numbers :: "upstream_env \<Rightarrow> bool" where
  "upstream_numbers up \<longleftrightarrow>
     (\<forall>q reply. ue_do up q = Some reply \<longrightarrow> 100 \<le> hr_StatusCode reply \<and> hr_StatusCode reply \<le> 999) \<and>
     (\<forall>protocol body u. ue_parseUsage up protocol body = Some u \<longrightarrow>
        list_all (\<lambda>n. 0 \<le> n \<and> int4 n) [us_Input u, us_Output u, us_CacheRead u, us_CacheWrite u])"

definition fits_columns :: "upstream_result \<Rightarrow> bool" where
  "fits_columns ur \<longleftrightarrow> 0 \<le> ur_Status ur \<and> ur_Status ur \<le> 999 \<and>
     (\<forall>u. ur_Usage ur = Some u \<longrightarrow> list_all (\<lambda>n. 0 \<le> n \<and> int4 n) [us_Input u, us_Output u, us_CacheRead u, us_CacheWrite u])"

lemma read_reply_numbers:
  assumes "upstream_numbers up" "ue_do up q = Some reply"
  shows "fits_columns (read_reply up provider model protocol inb reply)"
proof -
  have st: "100 \<le> hr_StatusCode reply" "hr_StatusCode reply \<le> 999" using assms unfolding upstream_numbers_def by blast+
  have u: "ue_parseUsage up p body = Some u \<Longrightarrow> list_all (\<lambda>n. 0 \<le> n \<and> int4 n) [us_Input u, us_Output u, us_CacheRead u, us_CacheWrite u]" for p body u
    using assms(1) unfolding upstream_numbers_def by blast
  show ?thesis using st u by (auto simp: fits_columns_def read_reply_def call_failed_def Let_def split: option.splits if_splits)
qed

lemma callUpstream_numbers:
  assumes "upstream_numbers up"
  shows "fits_columns (callUpstream up provider lease request inb)"
proof -
  have f: "0 \<le> st \<Longrightarrow> st \<le> 999 \<Longrightarrow> fits_columns (call_failed st net e)" for st net e by (simp add: call_failed_def fits_columns_def)
  show ?thesis unfolding callUpstream_def Let_def
    by (intro option.split[of fits_columns, THEN iffD2] if_split[of fits_columns, THEN iffD2] conjI impI allI read_reply_numbers[OF assms] f) simp_all
qed

text \<open>So control's validation accepts every attempt such a request makes.\<close>

lemma attempts_recordable:
  assumes "well_named srv env tenantID (rq_Model request) c" "upstream_numbers (ae_upstream (re_attempt env (fst p)))"
    and "fst p \<in> {1, 2}" "leased_from c (snd p)"
  shows "recordable srv env tenantID request inb p"
proof -
  obtain now a where a: "a \<in> snd ` set (ch_accounts c)" "snd p = lease_of now a" using assms(4) by (auto simp: leased_from_def)
  have n: "\<not> is_blank (ls_AccountID (snd p))" "\<not> is_blank (leaseProvider srv (snd p))"
    using assms(1) a by (auto simp: well_named_def list_all_iff leaseProvider_def lease_of_def Let_def)
  note u = callUpstream_numbers[OF assms(2), of "leaseProvider srv (snd p)" "snd p" request inb, folded attempt_result_def, unfolded fits_columns_def]
  have "0 \<le> ur_Status (attempt_result srv env request inb p)" "int4 (ur_Status (attempt_result srv env request inb p))"
    using u by (auto simp: int4_def)
  then show ?thesis using assms(1,3) n u unfolding recordable_def well_named_def Let_def by auto
qed

lemma room_for_fewer:
  assumes "room_for sha ks db" "set ks' \<subseteq> set ks" "length ks' \<le> length ks"
  shows "room_for sha ks' db"
  using assms unfolding room_for_def by fastforce

lemma attempts_prefix:
  assumes "map fst ps = take (length ps) [1, 2 :: int]"
  shows "length ps \<le> 2" "\<And>p. p \<in> set ps \<Longrightarrow> fst p \<in> {1, 2}" "map (attempt_id env) ps = take (length ps) (map (\<lambda>n. ae_attemptID (re_attempt env n)) [1, 2])"
proof -
  have len: "length ps \<le> 2" using arg_cong[OF assms, of length] by simp
  then show "length ps \<le> 2" .
  show "fst p \<in> {1, 2}" if "p \<in> set ps" for p
  proof -
    have "fst p \<in> set (map fst ps)" using that by simp
    also have "\<dots> \<subseteq> {1, 2}" unfolding assms by (rule subset_trans[OF set_take_subset]) simp
    finally show ?thesis .
  qed
  have "map (attempt_id env) ps = map (\<lambda>n. ae_attemptID (re_attempt env n)) (map fst ps)" by (simp add: attempt_id_def)
  then show "map (attempt_id env) ps = take (length ps) (map (\<lambda>n. ae_attemptID (re_attempt env n)) [1, 2])" by (simp only: assms take_map)
qed



text \<open>A request whose first attempt fails with 503 and whose second is served.\<close>

definition wire_start :: "string \<Rightarrow> int \<Rightarrow> string \<Rightarrow> gateway_event" where
  "wire_start n i acc = gateway_event.Started \<lparr>as_SchemaVersion = 1, as_EventID = ''start-'' @ n, as_RequestID = ''req-1'',
     as_AttemptID = ''attempt-'' @ n, as_AttemptNo = i, as_ProducerID = ''gateway-1'', as_OccurredAt = 11,
     as_AccountID = acc, as_Provider = ''claude'', as_Model = ''m'', as_TenantID = ''t1'', as_DeadlineAt = 120000000011\<rparr>"

definition wire_end :: "string \<Rightarrow> int \<Rightarrow> string \<Rightarrow> int \<Rightarrow> int \<Rightarrow> int \<Rightarrow> error_class \<Rightarrow> string \<Rightarrow> gateway_event" where
  "wire_end n i acc status tin tout cls source = gateway_event.Released \<lparr>rel_SchemaVersion = 1,
     rel_EventID = ''attempt-'' @ n @ '':terminal'', rel_RequestID = ''req-1'', rel_AttemptID = ''attempt-'' @ n, rel_AttemptNo = i,
     rel_ProducerID = ''gateway-1'', rel_OccurredAt = 12, rel_AccountID = acc, rel_Provider = ''claude'', rel_StatusCode = status,
     rel_LatencyMS = 0, rel_TokensIn = tin, rel_TokensOut = tout, rel_CacheReadTokens = 0, rel_CacheWriteTokens = 0,
     rel_Model = ''m'', rel_TenantID = ''t1'', rel_ErrorClass = cls, rel_UsageSource = source, rel_Partial = False,
     rel_InboundProtocol = OpenAIChat\<rparr>"

definition wire_events :: "gateway_event list" where
  "wire_events = [wire_start ''1'' 1 ''a'', wire_end ''1'' 1 ''a'' 503 0 0 ErrorUpstream5xx UsageSourceMissing,
     wire_start ''2'' 2 ''b'', wire_end ''2'' 2 ''b'' 200 3 4 ErrorOK UsageSourceUpstream]"

fun wire_json :: "gateway_event \<Rightarrow> string option" where
  "wire_json (gateway_event.Started s) = Some (''s'' @ as_AttemptID s)"
| "wire_json (gateway_event.Released r) = Some (''r'' @ rel_AttemptID r)"

definition wire_env :: request_env where
  "wire_env = (sample_env (sample_upstream 503) (sample_upstream 200))\<lparr>re_events :=
     \<lparr>ee_marshal = wire_json, ee_jsonValid = (\<lambda>b. True)\<rparr>\<rparr>"

definition wire_codec :: codec where
  "wire_codec = \<lparr>cd_formatTime = show_int, cd_parseTime = parse_int64, cd_jsonValid = (\<lambda>b. True),
     cd_started = (\<lambda>b. case find (\<lambda>ev. wire_json ev = Some b) wire_events of Some (gateway_event.Started s) \<Rightarrow> Some s | _ \<Rightarrow> None),
     cd_release = (\<lambda>b. case find (\<lambda>ev. wire_json ev = Some b) wire_events of Some (gateway_event.Released r) \<Rightarrow> Some r | _ \<Rightarrow> None),
     cd_sha = (\<lambda>x. x)\<rparr>"

definition wire_run :: "answer \<times> gateway" where
  "wire_run = handleNonStreaming sample_server wire_env sample_auth ''t1'' '''' sample_request OpenAIChat sample_gateway"

lemma wire_run_events: "fst wire_run = (Some ''hello'', 200, None) \<and> gw_stream (snd wire_run) = wire_events"
  by code_simp

lemma wire_events_ok: "list_all (agrees (re_events wire_env) wire_codec) wire_events"
  by code_simp

lemma wire_named: "well_named sample_server wire_env ''t1'' ''m'' demo_pool"
  by code_simp

lemma sample_upstream_numbers: "100 \<le> status \<Longrightarrow> status \<le> 999 \<Longrightarrow> upstream_numbers (sample_upstream status)"
  by (auto simp: upstream_numbers_def sample_upstream_def int4_def)



definition blank_request :: ChatCompletionRequest where
  "blank_request = sample_request\<lparr>rq_Model := '' ''\<rparr>"

text \<open>
  A blank model is served and never metered.  The handler refuses an empty model only; a
  request for the model \<open>'' ''\<close> is sent upstream and answered 200 by an account without a list of
  models, and every event it leaves fails control's validation, which trims the name first.
\<close>

theorem blank_model_is_free:
  "fst (handleNonStreaming sample_server wire_env sample_auth ''t1'' '''' blank_request OpenAIChat sample_gateway) =
     (Some ''hello'', 200, None) \<and>
   (\<forall>p. AttemptStarted_Validate (started_of sample_server wire_env ''t1'' blank_request p) \<noteq> Inr ()) \<and>
   (\<forall>p. Release_Validate (re_sha256 wire_env) (released_of sample_server wire_env ''t1'' blank_request OpenAIChat p) \<noteq> Inr ())"
proof (intro conjI allI)
  show "fst (handleNonStreaming sample_server wire_env sample_auth ''t1'' '''' blank_request OpenAIChat sample_gateway) =
     (Some ''hello'', 200, None)" by code_simp
  have b: "is_blank (rq_Model blank_request)" by code_simp
  fix p
  show "AttemptStarted_Validate (started_of sample_server wire_env ''t1'' blank_request p) \<noteq> Inr ()"
    using b by (simp add: AttemptStarted_Validate_def started_of_def attempt_started_def missing_fields_def Let_def)
  show "Release_Validate (re_sha256 wire_env) (released_of sample_server wire_env ''t1'' blank_request OpenAIChat p) \<noteq> Inr ()"
    using b by (simp add: Release_Validate_def released_of_def release_of_def missing_fields_def Let_def)
qed

end
