(* ===== verification/Snapshot.thy ===== *)
theory Snapshot
  imports Chooser Limiter "HOL-Library.Product_Lexorder" "HOL-Library.Multiset"
begin

text \<open>
  \<^verbatim>\<open>internal/snapshot/redis.go\<close>: the buckets of accounts control publishes and gateways load.  A
  publication is one Lua script; a load is four commands with other clients' scripts between any
  two of them.  SHA-256 and the JSON codec are arguments.  The theory shows that a load never
  mixes two publications, and that what was published is what is loaded while its data lives.
\<close>

section \<open>Keys and envelopes\<close>

definition GraceTTL :: int where
  "GraceTTL = 60"

definition DataTTL :: int where
  "DataTTL = 120"

definition BucketRegistryKey :: string where
  "BucketRegistryKey = ''snap:bucket_registry''"

definition BucketID :: "(string \<Rightarrow> string) \<Rightarrow> string \<Rightarrow> string \<Rightarrow> string" where
  "BucketID sha256_hex platform grp = take 16 (sha256_hex (platform @ [CHR 0x00] @ grp))"

definition active_key :: "string \<Rightarrow> string" where
  "active_key bucket = ''snap:active:'' @ bucket"

definition version_key :: "string \<Rightarrow> string" where
  "version_key bucket = ''snap:ver:'' @ bucket"

definition epoch_key :: "string \<Rightarrow> string" where
  "epoch_key bucket = ''snap:epoch:'' @ bucket"

definition retired_key :: "string \<Rightarrow> string" where
  "retired_key bucket = ''snap:retired:'' @ bucket"

definition data_key :: "string \<Rightarrow> string \<Rightarrow> string" where
  "data_key bucket version = ''snap:data:'' @ bucket @ '':'' @ version"

record Entry =
  en_Platform :: string
  en_Group :: string
  en_BucketID :: string
  en_Version :: int
  en_Epoch :: int
  en_Account :: Account

text \<open>
  The JSON the component writes and reads: an entry, and the pair of names of a bucket.  Encoding
  an entry can fail (a time outside the years JSON can write).
\<close>

record snapshot_codec =
  sc_marshal :: "Entry \<Rightarrow> string option"
  sc_unmarshal :: "string \<Rightarrow> Entry option"
  sc_identity :: "string list \<Rightarrow> string"
  sc_names :: "string \<Rightarrow> string list option"

text \<open>
  The keys of the component: strings and hashes, the set \<^verbatim>\<open>snap:buckets\<close> and the sorted sets of
  retired versions with their expiry.
\<close>

record snap_redis =
  sr_keys :: redis
  sr_buckets :: "string list"
  sr_retired :: "string \<rightharpoonup> (string, int) gomap \<times> time option"

definition on_keys :: "(redis \<Rightarrow> redis) \<Rightarrow> snap_redis \<Rightarrow> snap_redis" where
  "on_keys f s = s\<lparr>sr_keys := f (sr_keys s)\<rparr>"

text \<open>\<^verbatim>\<open>SET\<close> without an expiry, \<^verbatim>\<open>EXPIRE\<close> and \<^verbatim>\<open>TTL\<close>, which rounds to seconds and answers -2 for a
  missing key and -1 for one without expiry.\<close>

definition redis_put :: "string \<Rightarrow> string \<Rightarrow> redis \<Rightarrow> redis" where
  "redis_put k v r = r(k \<mapsto> \<lparr>re_data = RString v, re_expires = None\<rparr>)"

definition redis_expire :: "time \<Rightarrow> string \<Rightarrow> int \<Rightarrow> redis \<Rightarrow> redis" where
  "redis_expire now k secs r = redis_pexpire now k (secs * 1000) r"

definition redis_ttl :: "time \<Rightarrow> string \<Rightarrow> redis \<Rightarrow> int" where
  "redis_ttl now k r =
     (case redis_live now r k of
        None \<Rightarrow> -2
      | Some e \<Rightarrow> (case re_expires e of None \<Rightarrow> -1 | Some t \<Rightarrow> ((t - now) div 1000000 + 500) div 1000))"

text \<open>\<^verbatim>\<open>ZADD\<close> and \<^verbatim>\<open>EXPIRE\<close> on the sorted set of retired versions.\<close>

definition retire :: "time \<Rightarrow> string \<Rightarrow> int \<Rightarrow> string \<Rightarrow> snap_redis \<Rightarrow> snap_redis" where
  "retire now k score old s =
     (let zs = (case sr_retired s k of
            Some (zs, e) \<Rightarrow> if (case e of Some t \<Rightarrow> t \<le> now | None \<Rightarrow> False) then [] else zs
          | None \<Rightarrow> [])
      in s\<lparr>sr_retired := (sr_retired s)(k \<mapsto> (AList.update old score zs, Some (now + GraceTTL * second)))\<rparr>)"

section \<open>Publishing\<close>

datatype snapshot_error =
    NilClient | NegativeEpoch | ForeignAccount | EncodeFailed | ErrStaleEpoch | CallFailed
  | BadRegistry | NoActive | BadVersion | NoEpoch | BadEpoch | DataExpired | VersionMismatch
  | DecodeFailed | EnvelopeMismatch

text \<open>
  \<^verbatim>\<open>publishScript\<close>.  A command on a key of another type raises: the script stops there and what it
  wrote before stays.  Lua compares the epochs as numbers; a text that is no number is unequal to
  every number.
\<close>

definition publishScript ::
  "time \<Rightarrow> string \<Rightarrow> int \<Rightarrow> int \<Rightarrow> int \<Rightarrow> string \<Rightarrow> (string \<times> string) list \<Rightarrow> snap_redis \<Rightarrow> (snapshot_error + int) \<times> snap_redis"
where
  "publishScript now bucket expected nextEpoch score identity vals s =
     (case redis_get now (epoch_key bucket) (sr_keys s) of
        Inl _ \<Rightarrow> (Inl CallFailed, s)
      | Inr current \<Rightarrow>
          if (case current of Some c \<Rightarrow> parse_int64 c \<noteq> Some expected | None \<Rightarrow> expected \<noteq> 0)
          then (Inl ErrStaleEpoch, s)
          else (case redis_get now (active_key bucket) (sr_keys s) of
              Inl _ \<Rightarrow> (Inl CallFailed, s)
            | Inr old \<Rightarrow>
                (case redis_incr now (version_key bucket) (sr_keys s) of
                   None \<Rightarrow> (Inl CallFailed, s)
                 | Some (version, r1) \<Rightarrow>
                     (let data = data_key bucket (show_int version);
                          r2 = redis_del data r1
                      in case redis_hset now data ((''__version'', show_int version) # vals) r2 of
                           None \<Rightarrow> (Inl CallFailed, s\<lparr>sr_keys := r2\<rparr>)
                         | Some r3 \<Rightarrow>
                             (let r4 = redis_put (active_key bucket) (show_int version) (redis_expire now data DataTTL r3);
                                  s4 = s\<lparr>sr_keys := r4, sr_buckets := List.insert bucket (sr_buckets s)\<rparr>
                              in case redis_hset now BucketRegistryKey [(bucket, identity)] r4 of
                                   None \<Rightarrow> (Inl CallFailed, s4)
                                 | Some r5 \<Rightarrow>
                                     (let s6 = s4\<lparr>sr_keys := redis_put (epoch_key bucket) (show_int nextEpoch) r5\<rparr>
                                      in (Inr version,
                                          case old of
                                            None \<Rightarrow> s6
                                          | Some o1 \<Rightarrow> on_keys (redis_expire now (data_key bucket o1) GraceTTL)
                                              (retire now (retired_key bucket) score o1 s6))))))))"

definition entry_of :: "(string \<Rightarrow> string) \<Rightarrow> string \<Rightarrow> string \<Rightarrow> int \<Rightarrow> Account \<Rightarrow> Entry" where
  "entry_of sha platform grp epoch a =
     \<lparr>en_Platform = platform, en_Group = grp, en_BucketID = BucketID sha platform grp, en_Version = 0,
      en_Epoch = epoch, en_Account = a\<rparr>"

fun publish_args ::
  "snapshot_codec \<Rightarrow> (string \<Rightarrow> string) \<Rightarrow> string \<Rightarrow> string \<Rightarrow> int \<Rightarrow> Account list \<Rightarrow> snapshot_error + (string \<times> string) list" where
  "publish_args cd sha platform grp epoch [] = Inr []"
| "publish_args cd sha platform grp epoch (a # as) =
     (if ac_Platform a \<noteq> platform \<or> ac_Group a \<noteq> grp then Inl ForeignAccount
      else case sc_marshal cd (entry_of sha platform grp epoch a) of
          None \<Rightarrow> Inl EncodeFailed
        | Some v \<Rightarrow> (case publish_args cd sha platform grp epoch as of
              Inl e \<Rightarrow> Inl e
            | Inr vs \<Rightarrow> Inr ((ac_ID a, v) # vs)))"

text \<open>\<open>now\<close> is the publisher's clock, \<open>rnow\<close> the server's.\<close>

definition Publish ::
  "snapshot_codec \<Rightarrow> (string \<Rightarrow> string) \<Rightarrow> redis_conn \<Rightarrow> time \<Rightarrow> time \<Rightarrow> string \<Rightarrow> string \<Rightarrow> int \<Rightarrow> Account list \<Rightarrow>
   snap_redis \<Rightarrow> (snapshot_error + int) \<times> snap_redis"
where
  "Publish cd sha conn now rnow platform grp expectedEpoch accounts s =
     (if conn = NoClient then (Inl NilClient, s)
      else if expectedEpoch < 0 then (Inl NegativeEpoch, s)
      else
        (let bucket = BucketID sha platform grp;
             nextEpoch = wrap64 (expectedEpoch + 1)
         in case publish_args cd sha platform grp nextEpoch accounts of
              Inl e \<Rightarrow> (Inl e, s)
            | Inr vals \<Rightarrow>
                (let ran = publishScript rnow bucket expectedEpoch nextEpoch
                             ((now + GraceTTL * second - unix_epoch) div 1000000) (sc_identity cd [platform, grp]) vals s
                 in case conn of
                      Answered \<Rightarrow> ran
                    | ReplyLost \<Rightarrow> (Inl CallFailed, snd ran)
                    | _ \<Rightarrow> (Inl CallFailed, s))))"

section \<open>The registry of buckets\<close>

record RegisteredBucket =
  rb_Platform :: string
  rb_Group :: string

definition registered_bucket :: "snapshot_codec \<Rightarrow> (string \<Rightarrow> string) \<Rightarrow> string \<times> string \<Rightarrow> RegisteredBucket option" where
  "registered_bucket cd sha kv =
     (case sc_names cd (snd kv) of
        Some [p, g] \<Rightarrow> if p = '''' \<or> g = '''' \<or> BucketID sha p g \<noteq> fst kv then None
          else Some \<lparr>rb_Platform = p, rb_Group = g\<rparr>
      | _ \<Rightarrow> None)"

definition RegisteredBuckets ::
  "snapshot_codec \<Rightarrow> (string \<Rightarrow> string) \<Rightarrow> redis_conn \<Rightarrow> time \<Rightarrow> snap_redis \<Rightarrow> snapshot_error + RegisteredBucket list" where
  "RegisteredBuckets cd sha conn rnow s =
     (if conn = NoClient then Inl NilClient
      else if conn \<noteq> Answered then Inl CallFailed
      else (case redis_hgetall rnow BucketRegistryKey (sr_keys s) of
          Inl _ \<Rightarrow> Inl CallFailed
        | Inr vals \<Rightarrow>
            if \<exists>kv \<in> set vals. registered_bucket cd sha kv = None then Inl BadRegistry
            else Inr (sort_key (\<lambda>b. (rb_Platform b, rb_Group b)) (map (the \<circ> registered_bucket cd sha) vals))))"

definition redis_hdel :: "time \<Rightarrow> string \<Rightarrow> string \<Rightarrow> redis \<Rightarrow> redis option" where
  "redis_hdel now k f r =
     (case redis_live now r k of
        None \<Rightarrow> Some r
      | Some e \<Rightarrow> (case re_data e of
            RString _ \<Rightarrow> None
          | RHash h \<Rightarrow> (let h' = AList.delete f h in
              Some (r(k := (if h' = [] then None else Some (e\<lparr>re_data := RHash h'\<rparr>)))))))"

definition removeBucketScript :: "time \<Rightarrow> string \<Rightarrow> snap_redis \<Rightarrow> bool \<times> snap_redis" where
  "removeBucketScript rnow bucket s =
     (let s1 = s\<lparr>sr_buckets := remove1 bucket (sr_buckets s)\<rparr> in
      case redis_hdel rnow BucketRegistryKey bucket (sr_keys s1) of
        None \<Rightarrow> (False, s1)
      | Some r \<Rightarrow> (True, s1\<lparr>sr_keys := r\<rparr>))"

definition RemoveRegisteredBucket ::
  "(string \<Rightarrow> string) \<Rightarrow> redis_conn \<Rightarrow> time \<Rightarrow> string \<Rightarrow> string \<Rightarrow> snap_redis \<Rightarrow> (snapshot_error + unit) \<times> snap_redis" where
  "RemoveRegisteredBucket sha conn rnow platform grp s =
     (let ran = removeBucketScript rnow (BucketID sha platform grp) s in
      case conn of
        NoClient \<Rightarrow> (Inl NilClient, s)
      | NotRun \<Rightarrow> (Inl CallFailed, s)
      | ReplyLost \<Rightarrow> (Inl CallFailed, snd ran)
      | Answered \<Rightarrow> (if fst ran then Inr () else Inl CallFailed, snd ran))"

section \<open>Loading\<close>

record Snapshot =
  sn_Platform :: string
  sn_Group :: string
  sn_BucketID :: string
  sn_Version :: int
  sn_Epoch :: int
  sn_ValidUntil :: time
  sn_Accounts :: "Account list"

text \<open>What one command of a load meets: how the call goes, the server's clock and the keys.\<close>

type_synonym view = "redis_conn \<times> time \<times> snap_redis"

definition get_at :: "string \<Rightarrow> view \<Rightarrow> string option" where
  "get_at k v =
     (case v of (conn, rnow, s) \<Rightarrow>
        if conn \<noteq> Answered then None
        else case redis_get rnow k (sr_keys s) of Inr (Some x) \<Rightarrow> Some x | _ \<Rightarrow> None)"

definition hgetall_at :: "string \<Rightarrow> view \<Rightarrow> (string, string) gomap option" where
  "hgetall_at k v =
     (case v of (conn, rnow, s) \<Rightarrow>
        if conn \<noteq> Answered then None
        else case redis_hgetall rnow k (sr_keys s) of Inr h \<Rightarrow> Some h | Inl _ \<Rightarrow> None)"

definition ttl_at :: "string \<Rightarrow> view \<Rightarrow> int option" where
  "ttl_at k v = (case v of (conn, rnow, s) \<Rightarrow> if conn \<noteq> Answered then None else Some (redis_ttl rnow k (sr_keys s)))"

definition envelope_ok :: "string \<Rightarrow> int \<Rightarrow> int \<Rightarrow> string \<Rightarrow> string \<Rightarrow> string \<Rightarrow> Entry \<Rightarrow> bool" where
  "envelope_ok bucket version epoch platform grp aid e \<longleftrightarrow>
     en_BucketID e = bucket \<and> (en_Version e = 0 \<or> en_Version e = version) \<and> en_Epoch e = epoch \<and>
     en_Platform e = platform \<and> en_Group e = grp \<and> ac_ID (en_Account e) = aid"

fun decode_entries :: "(string \<Rightarrow> Entry option) \<Rightarrow> (string \<Rightarrow> Entry \<Rightarrow> bool) \<Rightarrow> (string \<times> string) list \<Rightarrow> snapshot_error + Account list" where
  "decode_entries dec ok [] = Inr []"
| "decode_entries dec ok ((aid, raw) # rest) =
     (case dec raw of
        None \<Rightarrow> Inl DecodeFailed
      | Some e \<Rightarrow>
          if \<not> ok aid e then Inl EnvelopeMismatch
          else (case decode_entries dec ok rest of Inl x \<Rightarrow> Inl x | Inr as \<Rightarrow> Inr (en_Account e # as)))"

definition Load ::
  "snapshot_codec \<Rightarrow> (string \<Rightarrow> string) \<Rightarrow> view \<Rightarrow> view \<Rightarrow> view \<Rightarrow> view \<Rightarrow> time \<Rightarrow> string \<Rightarrow> string \<Rightarrow> snapshot_error + Snapshot"
where
  "Load cd sha v1 v2 v3 v4 now platform grp =
     (if fst v1 = NoClient then Inl NilClient
      else
        (let bucket = BucketID sha platform grp in
         case get_at (active_key bucket) v1 of
           None \<Rightarrow> Inl NoActive
         | Some active \<Rightarrow>
        (case parse_int64 active of
           None \<Rightarrow> Inl BadVersion
         | Some version \<Rightarrow>
        if version \<le> 0 then Inl BadVersion
        else case get_at (epoch_key bucket) v2 of
           None \<Rightarrow> Inl NoEpoch
         | Some epochValue \<Rightarrow>
        (case parse_int64 epochValue of
           None \<Rightarrow> Inl BadEpoch
         | Some epoch \<Rightarrow>
        (let dataKey = data_key bucket (show_int version) in
         case hgetall_at dataKey v3 of
           None \<Rightarrow> Inl CallFailed
         | Some vals \<Rightarrow>
        (case ttl_at dataKey v4 of
           None \<Rightarrow> Inl CallFailed
         | Some ttl \<Rightarrow>
        if ttl \<le> 0 then Inl DataExpired
        else if map_of vals ''__version'' \<noteq> Some (show_int version) then Inl VersionMismatch
        else case decode_entries (sc_unmarshal cd) (envelope_ok bucket version epoch platform grp)
                    (AList.delete ''__version'' vals) of
           Inl e \<Rightarrow> Inl e
         | Inr accounts \<Rightarrow> Inr \<lparr>sn_Platform = platform, sn_Group = grp, sn_BucketID = bucket,
             sn_Version = version, sn_Epoch = epoch, sn_ValidUntil = now + ttl * second,
             sn_Accounts = accounts\<rparr>))))))"

section \<open>The store of last known-good snapshots\<close>

type_synonym store = "(string, Snapshot) gomap"

definition Store_Refresh :: "string \<Rightarrow> string \<Rightarrow> snapshot_error + Snapshot \<Rightarrow> store \<Rightarrow> (snapshot_error + unit) \<times> store" where
  "Store_Refresh platform grp loaded st =
     (case loaded of
        Inl e \<Rightarrow> (Inl e, st)
      | Inr next \<Rightarrow> (Inr (), AList.update (platform @ [CHR 0x00] @ grp) next st))"

definition Store_Current :: "string \<Rightarrow> string \<Rightarrow> store \<Rightarrow> Snapshot option" where
  "Store_Current platform grp st = map_of st (platform @ [CHR 0x00] @ grp)"

definition Store_CurrentFreshAt :: "string \<Rightarrow> string \<Rightarrow> time \<Rightarrow> store \<Rightarrow> Snapshot option" where
  "Store_CurrentFreshAt platform grp now st =
     (case Store_Current platform grp st of
        None \<Rightarrow> None
      | Some cur \<Rightarrow> if is_zero_time (sn_ValidUntil cur) \<or> \<not> sn_ValidUntil cur > now then None else Some cur)"

section \<open>Histories of publications\<close>

text \<open>
  A generation is a publication whose script ran to its end.  A step of the history is a call of
  \<^verbatim>\<open>Publish\<close> or of \<^verbatim>\<open>RemoveRegisteredBucket\<close> by any client, at a later time of the server.  The
  accounts of one call come from a table whose key is the account ID.
\<close>

record generation =
  gn_Bucket :: string
  gn_Platform :: string
  gn_Group :: string
  gn_Version :: int
  gn_Epoch :: int
  gn_Accounts :: "Account list"

definition published ::
  "snapshot_codec \<Rightarrow> (string \<Rightarrow> string) \<Rightarrow> redis_conn \<Rightarrow> time \<Rightarrow> time \<Rightarrow> string \<Rightarrow> string \<Rightarrow> int \<Rightarrow> Account list \<Rightarrow>
   snap_redis \<Rightarrow> generation list"
where
  "published cd sha conn now rnow platform grp expectedEpoch accounts s =
     (case fst (Publish cd sha (if conn = ReplyLost then Answered else conn) now rnow platform grp expectedEpoch accounts s) of
        Inl _ \<Rightarrow> []
      | Inr version \<Rightarrow> [\<lparr>gn_Bucket = BucketID sha platform grp, gn_Platform = platform, gn_Group = grp,
          gn_Version = version, gn_Epoch = wrap64 (expectedEpoch + 1), gn_Accounts = accounts\<rparr>])"

type_synonym snap_history = "generation list \<times> snap_redis \<times> time"

definition account_keys_ok :: "Account list \<Rightarrow> bool" where
  "account_keys_ok accounts \<longleftrightarrow> distinct (''__version'' # map ac_ID accounts)"

inductive snap_step :: "snapshot_codec \<Rightarrow> (string \<Rightarrow> string) \<Rightarrow> snap_history \<Rightarrow> snap_history \<Rightarrow> bool"
  for cd sha where
  publish: "snap_step cd sha (G, s, t)
     (G @ published cd sha conn now t' platform grp expected accounts s,
      snd (Publish cd sha conn now t' platform grp expected accounts s), t')"
    if "t \<le> t'" "account_keys_ok accounts"
| remove: "snap_step cd sha (G, s, t) (G, snd (RemoveRegisteredBucket sha conn t' platform grp s), t')"
    if "t \<le> t'"
| wait: "snap_step cd sha (G, s, t) (G, s, t')" if "t \<le> t'"

definition empty_snap :: snap_redis where
  "empty_snap = \<lparr>sr_keys = Map.empty, sr_buckets = [], sr_retired = Map.empty\<rparr>"

abbreviation snap_path :: "snapshot_codec \<Rightarrow> (string \<Rightarrow> string) \<Rightarrow> snap_history \<Rightarrow> snap_history \<Rightarrow> bool" where
  "snap_path cd sha \<equiv> (snap_step cd sha)\<^sup>*\<^sup>*"

definition snap_reachable :: "snapshot_codec \<Rightarrow> (string \<Rightarrow> string) \<Rightarrow> snap_history \<Rightarrow> bool" where
  "snap_reachable cd sha h \<longleftrightarrow> (\<exists>t0. snap_path cd sha ([], empty_snap, t0) h)"

definition generations :: "string \<Rightarrow> generation list \<Rightarrow> generation list" where
  "generations bucket G = filter (\<lambda>g. gn_Bucket g = bucket) G"

lemma generations_append [simp]: "generations b (G @ H) = generations b G @ generations b H"
  by (simp add: generations_def)

section \<open>The invariant of the keys\<close>

lemmas snap_key_defs = active_key_def version_key_def epoch_key_def data_key_def BucketRegistryKey_def

lemma snap_keys_apart [simp]:
  "active_key b \<noteq> version_key b'" "active_key b \<noteq> epoch_key b'" "active_key b \<noteq> data_key b' v" "active_key b \<noteq> BucketRegistryKey"
  "version_key b \<noteq> active_key b'" "version_key b \<noteq> epoch_key b'" "version_key b \<noteq> data_key b' v" "version_key b \<noteq> BucketRegistryKey"
  "epoch_key b \<noteq> active_key b'" "epoch_key b \<noteq> version_key b'" "epoch_key b \<noteq> data_key b' v" "epoch_key b \<noteq> BucketRegistryKey"
  "data_key b v \<noteq> active_key b'" "data_key b v \<noteq> version_key b'" "data_key b v \<noteq> epoch_key b'" "data_key b v \<noteq> BucketRegistryKey"
  "BucketRegistryKey \<noteq> active_key b" "BucketRegistryKey \<noteq> version_key b" "BucketRegistryKey \<noteq> epoch_key b" "BucketRegistryKey \<noteq> data_key b v"
  by (simp_all add: snap_key_defs)

lemma snap_keys_inj [simp]:
  "active_key b = active_key b' \<longleftrightarrow> b = b'" "version_key b = version_key b' \<longleftrightarrow> b = b'" "epoch_key b = epoch_key b' \<longleftrightarrow> b = b'"
  "data_key b (show_int v) = data_key b' (show_int v') \<longleftrightarrow> b = b' \<and> v = v'"
  by (simp_all add: snap_key_defs append_last_separator show_int_no_colon)

definition text_at :: "redis \<Rightarrow> string \<Rightarrow> int \<Rightarrow> bool" where
  "text_at r k n \<longleftrightarrow> r k = (if n = 0 then None else Some \<lparr>re_data = RString (show_int n), re_expires = None\<rparr>)"

definition data_at :: "snapshot_codec \<Rightarrow> (string \<Rightarrow> string) \<Rightarrow> time \<Rightarrow> redis \<Rightarrow> generation \<Rightarrow> bool" where
  "data_at cd sha t r g \<longleftrightarrow>
     (\<exists>vals e. publish_args cd sha (gn_Platform g) (gn_Group g) (gn_Epoch g) (gn_Accounts g) = Inr vals \<and>
        r (data_key (gn_Bucket g) (show_int (gn_Version g))) =
          Some \<lparr>re_data = RHash ((''__version'', show_int (gn_Version g)) # vals), re_expires = Some e\<rparr> \<and>
        e \<le> t + DataTTL * second)"

definition numbered :: "generation list \<Rightarrow> bool" where
  "numbered gs \<longleftrightarrow> map gn_Version gs = map int [1..<Suc (length gs)] \<and> map gn_Epoch gs = map gn_Version gs"

definition bucket_inv :: "snapshot_codec \<Rightarrow> (string \<Rightarrow> string) \<Rightarrow> snap_history \<Rightarrow> string \<Rightarrow> bool" where
  "bucket_inv cd sha h b =
     (case h of (G, s, t) \<Rightarrow>
        let gs = generations b G; n = int (length gs) in
        numbered gs \<and> n \<le> max_int64 \<and>
        text_at (sr_keys s) (active_key b) n \<and> text_at (sr_keys s) (version_key b) n \<and> text_at (sr_keys s) (epoch_key b) n \<and>
        (\<forall>g \<in> set gs. data_at cd sha t (sr_keys s) g \<and> account_keys_ok (gn_Accounts g) \<and>
           b = BucketID sha (gn_Platform g) (gn_Group g)))"

definition registry_ok :: "redis \<Rightarrow> bool" where
  "registry_ok r \<longleftrightarrow> (case r BucketRegistryKey of None \<Rightarrow> True
     | Some e \<Rightarrow> re_expires e = None \<and> (case re_data e of RHash h \<Rightarrow> distinct (map fst h) | RString _ \<Rightarrow> False))"

definition snap_inv :: "snapshot_codec \<Rightarrow> (string \<Rightarrow> string) \<Rightarrow> snap_history \<Rightarrow> bool" where
  "snap_inv cd sha h \<longleftrightarrow> (\<forall>b. bucket_inv cd sha h b) \<and> registry_ok (sr_keys (fst (snd h)))"

text \<open>Reading a number the script wrote.\<close>

lemma text_at_get:
  assumes "text_at r k n"
  shows "redis_get now k r = Inr (if n = 0 then None else Some (show_int n))"
  using assms by (simp add: text_at_def redis_get_def redis_live_def)

lemma text_at_incr:
  assumes "text_at r k n" "0 \<le> n" "n \<le> max_int64"
  shows "redis_incr now k r = (if n = max_int64 then None
    else Some (n + 1, r(k \<mapsto> \<lparr>re_data = RString (show_int (n + 1)), re_expires = None\<rparr>)))"
proof (cases "n = 0")
  case True
  then show ?thesis using assms by (simp add: text_at_def redis_incr_def redis_incrby_def redis_live_def max_int64_def)
next
  case False
  have "min_int64 \<le> n" "min_int64 \<le> n + 1" using assms by (simp_all add: min_int64_def)
  then show ?thesis using assms False by (auto simp: text_at_def redis_incr_def redis_incrby_def redis_live_def)
qed

lemma fold_update_fresh:
  "distinct (map fst m @ map fst fvs) \<Longrightarrow> fold (\<lambda>(f, v). AList.update f v) fvs m = m @ fvs"
proof (induction fvs arbitrary: m)
  case (Cons fv fvs)
  have "AList.update (fst fv) (snd fv) m = m @ [fv]" if "fst fv \<notin> fst ` set m" for m
    using that by (induction m) auto
  then have "AList.update (fst fv) (snd fv) m = m @ [fv]" using Cons.prems by auto
  then show ?case using Cons.IH[of "m @ [fv]"] Cons.prems by (simp add: split_def)
qed simp

lemma publish_args_Inr:
  assumes "publish_args cd sha p g e as = Inr vals"
  shows "map fst vals = map ac_ID as" and "\<forall>a \<in> set as. ac_Platform a = p \<and> ac_Group a = g"
  using assms by (induction as arbitrary: vals) (auto split: if_splits option.splits sum.splits)

lemma registry_okE:
  assumes "registry_ok r"
  obtains "r BucketRegistryKey = None"
  | h where "r BucketRegistryKey = Some \<lparr>re_data = RHash h, re_expires = None\<rparr>" "distinct (map fst h)"
proof (cases "r BucketRegistryKey")
  case (Some e)
  then show thesis using assms that(2) by (cases e) (auto simp: registry_ok_def split: redis_data.splits)
qed (rule that)

lemma fold_update_distinct: "distinct (map fst h) \<Longrightarrow> distinct (map fst (fold (\<lambda>(f, v). AList.update f v) fvs h))"
  by (induction fvs arbitrary: h) (auto simp: distinct_update)

lemma registry_hset:
  assumes "registry_ok r"
  obtains h where "redis_hset now BucketRegistryKey fvs r =
    Some (r(BucketRegistryKey \<mapsto> \<lparr>re_data = RHash h, re_expires = None\<rparr>))" "distinct (map fst h)"
  using assms by (cases rule: registry_okE) (auto simp: redis_hset_def redis_live_def fold_update_distinct)

text \<open>The script on a bucket of the history: refused, or the next generation.\<close>

definition next_keys :: "time \<Rightarrow> string \<Rightarrow> int \<Rightarrow> int \<Rightarrow> (string \<times> string) list \<Rightarrow> redis \<Rightarrow> redis \<Rightarrow> bool" where
  "next_keys now b n nextEpoch vals r r' \<longleftrightarrow>
     text_at r' (active_key b) (n + 1) \<and> text_at r' (version_key b) (n + 1) \<and>
     r' (epoch_key b) = Some \<lparr>re_data = RString (show_int nextEpoch), re_expires = None\<rparr> \<and>
     r' (data_key b (show_int (n + 1))) = Some \<lparr>re_data = RHash ((''__version'', show_int (n + 1)) # vals),
       re_expires = Some (now + DataTTL * second)\<rparr> \<and>
     r' (data_key b (show_int n)) = (if n = 0 then r else redis_expire now (data_key b (show_int n)) GraceTTL r) (data_key b (show_int n)) \<and>
     registry_ok r' \<and>
     (\<forall>k. k \<notin> {active_key b, version_key b, epoch_key b, BucketRegistryKey, data_key b (show_int n), data_key b (show_int (n + 1))} \<longrightarrow>
        r' k = r k)"

lemma expire_elsewhere [simp]: "k' \<noteq> k \<Longrightarrow> redis_expire now k secs r k' = r k'"
  by (simp add: redis_expire_def redis_pexpire_def split: option.split)

lemma expire_cong: "r k = r' k \<Longrightarrow> redis_expire now k secs r k = redis_expire now k secs r' k"
  by (simp add: redis_expire_def redis_pexpire_def redis_live_def split: option.split)

lemma hset_fresh:
  assumes "r k = None" "distinct (map fst fvs)"
  shows "redis_hset now k fvs r = Some (r(k \<mapsto> \<lparr>re_data = RHash fvs, re_expires = None\<rparr>))"
  using assms fold_update_fresh[of "[]" fvs] by (simp add: redis_hset_def redis_live_def)

lemma expire_fresh:
  "redis_expire now k secs (r(k \<mapsto> \<lparr>re_data = d, re_expires = None\<rparr>)) =
   r(k \<mapsto> \<lparr>re_data = d, re_expires = Some (now + secs * second)\<rparr>)"
  by (simp add: redis_expire_def redis_pexpire_def redis_live_def second_def mult.commute)

lemma publishScript_effect:
  assumes texts: "text_at (sr_keys s) (active_key b) n" "text_at (sr_keys s) (version_key b) n" "text_at (sr_keys s) (epoch_key b) n"
    and n: "0 \<le> n" "n \<le> max_int64" and reg: "registry_ok (sr_keys s)"
    and vals: "distinct (''__version'' # map fst vals)"
  obtains
    (stale) "expected \<noteq> n" "publishScript now b expected nextEpoch score identity vals s = (Inl ErrStaleEpoch, s)"
  | (full) "expected = n" "publishScript now b expected nextEpoch score identity vals s = (Inl CallFailed, s)"
  | (ran) s' where "expected = n" "n < max_int64" "publishScript now b expected nextEpoch score identity vals s = (Inr (n + 1), s')"
      "next_keys now b n nextEpoch vals (sr_keys s) (sr_keys s')"
proof -
  let ?r = "sr_keys s" and ?P = "publishScript now b expected nextEpoch score identity vals s"
  have parse: "parse_int64 (show_int n) = Some n" using n by (simp add: parse_int64_show_int min_int64_def)
  let ?stale = "case (if n = 0 then None else Some (show_int n)) of Some c \<Rightarrow> parse_int64 c \<noteq> Some expected | None \<Rightarrow> expected \<noteq> 0"
  have check: "?stale \<longleftrightarrow> expected \<noteq> n"
    using parse by auto
  note gets = text_at_get[OF texts(1)] text_at_get[OF texts(3)] text_at_incr[OF texts(2) n]
  show thesis
  proof (cases "expected = n")
    case False
    then show thesis using check by (intro stale) (simp_all add: publishScript_def gets(2))
  next
    case True
    show thesis
    proof (cases "n = max_int64")
      case at_max: True
      then show thesis using True parse by (intro full) (simp_all add: publishScript_def gets)
    next
      case False
      then have less: "n < max_int64" using n by simp
      let ?data = "data_key b (show_int (n + 1))"
      let ?r1 = "?r(version_key b \<mapsto> \<lparr>re_data = RString (show_int (n + 1)), re_expires = None\<rparr>)"
      let ?fvs = "(''__version'', show_int (n + 1)) # vals"
      let ?r4 = "redis_put (active_key b) (show_int (n + 1))
        ((redis_del ?data ?r1)(?data \<mapsto> \<lparr>re_data = RHash ?fvs, re_expires = Some (now + DataTTL * second)\<rparr>))"
      have h: "redis_hset now ?data ?fvs (redis_del ?data ?r1) =
          Some ((redis_del ?data ?r1)(?data \<mapsto> \<lparr>re_data = RHash ?fvs, re_expires = None\<rparr>))"
        using vals by (intro hset_fresh) (simp_all add: redis_del_def)
      have "registry_ok ?r4" using reg by (simp add: registry_ok_def redis_put_def redis_del_def)
      then obtain hh where reg': "redis_hset now BucketRegistryKey [(b, identity)] ?r4 =
          Some (?r4(BucketRegistryKey \<mapsto> \<lparr>re_data = RHash hh, re_expires = None\<rparr>))" and hh: "distinct (map fst hh)" by (rule registry_hset)
      let ?r6 = "redis_put (epoch_key b) (show_int nextEpoch) (?r4(BucketRegistryKey \<mapsto> \<lparr>re_data = RHash hh, re_expires = None\<rparr>))"
      let ?s6 = "s\<lparr>sr_buckets := List.insert b (sr_buckets s), sr_keys := ?r6\<rparr>"
      let ?s' = "if n = 0 then ?s6 else on_keys (redis_expire now (data_key b (show_int n)) GraceTTL)
          (retire now (retired_key b) score (show_int n) ?s6)"
      have eq: "?P = (Inr (n + 1), ?s')"
        using True False parse reg' by (simp add: publishScript_def gets h expire_fresh Let_def)
      have keys: "sr_keys ?s' = (if n = 0 then ?r6 else redis_expire now (data_key b (show_int n)) GraceTTL ?r6)"
        by (simp add: on_keys_def retire_def Let_def)
      have r6: "?r6 (data_key b (show_int n)) = ?r (data_key b (show_int n))"
        by (simp add: redis_put_def redis_del_def)
      have "next_keys now b n nextEpoch vals ?r (sr_keys ?s')"
        unfolding next_keys_def keys using n hh expire_cong[of ?r6 _ ?r, OF r6]
        by (simp add: text_at_def redis_put_def redis_del_def registry_ok_def)
      then show thesis using True less eq by (intro ran) simp_all
    qed
  qed
qed

abbreviation count_of :: "string \<Rightarrow> generation list \<Rightarrow> int" where
  "count_of b G \<equiv> int (length (generations b G))"

lemma bucket_invD:
  assumes "bucket_inv cd sha (G, s, t) b"
  shows "numbered (generations b G)" "count_of b G \<le> max_int64"
    "text_at (sr_keys s) (active_key b) (count_of b G)" "text_at (sr_keys s) (version_key b) (count_of b G)"
    "text_at (sr_keys s) (epoch_key b) (count_of b G)"
    "\<And>g. g \<in> set (generations b G) \<Longrightarrow> data_at cd sha t (sr_keys s) g"
    "\<And>g. g \<in> set (generations b G) \<Longrightarrow> account_keys_ok (gn_Accounts g)"
    "\<And>g. g \<in> set (generations b G) \<Longrightarrow> b = BucketID sha (gn_Platform g) (gn_Group g)"
  using assms by (simp_all add: bucket_inv_def Let_def)

lemma Publish_cases:
  assumes inv: "snap_inv cd sha (G, s, t)" and accts: "account_keys_ok accounts" and b_def: "b = BucketID sha platform grp"
  obtains
    (kept) "snd (Publish cd sha conn now rnow platform grp expected accounts s) = s"
      "published cd sha conn now rnow platform grp expected accounts s = []"
      "\<And>v. fst (Publish cd sha conn now rnow platform grp expected accounts s) \<noteq> Inr v"
  | (ran) vals where "expected = count_of b G" "count_of b G < max_int64"
      "publish_args cd sha platform grp (count_of b G + 1) accounts = Inr vals"
      "next_keys rnow b (count_of b G) (count_of b G + 1) vals (sr_keys s)
         (sr_keys (snd (Publish cd sha conn now rnow platform grp expected accounts s)))"
      "published cd sha conn now rnow platform grp expected accounts s =
         [\<lparr>gn_Bucket = b, gn_Platform = platform, gn_Group = grp, gn_Version = count_of b G + 1,
           gn_Epoch = count_of b G + 1, gn_Accounts = accounts\<rparr>]"
      "conn = Answered \<Longrightarrow> fst (Publish cd sha conn now rnow platform grp expected accounts s) = Inr (count_of b G + 1)"
      "conn = Answered \<or> conn = ReplyLost"
proof -
  let ?n = "count_of b G"
  let ?P = "\<lambda>c. Publish cd sha c now rnow platform grp expected accounts s"
  have bi: "bucket_inv cd sha (G, s, t) b" using inv by (simp add: snap_inv_def)
  consider "conn = NoClient \<or> conn = NotRun" | "expected < 0"
    | e where "publish_args cd sha platform grp (wrap64 (expected + 1)) accounts = Inl e"
    | vals where "conn = Answered \<or> conn = ReplyLost" "0 \<le> expected"
        "publish_args cd sha platform grp (wrap64 (expected + 1)) accounts = Inr vals"
    by (cases conn; cases "publish_args cd sha platform grp (wrap64 (expected + 1)) accounts")
       (force simp: not_less)+
  then show thesis
  proof cases
    case 1
    then show thesis by (intro kept) (auto simp: Publish_def published_def Let_def split: sum.split)
  next
    case 2
    then show thesis by (intro kept) (auto simp: Publish_def published_def)
  next
    case 3
    then show thesis by (intro kept) (auto simp: Publish_def published_def Let_def)
  next
    case (4 vals)
    have reg: "registry_ok (sr_keys s)" using inv by (simp add: snap_inv_def)
    have "distinct (''__version'' # map fst vals)"
      using accts publish_args_Inr(1)[OF 4(3)] by (simp add: account_keys_ok_def)
    note scr = publishScript_effect[OF bucket_invD(3-5)[OF bi] of_nat_0_le_iff bucket_invD(2)[OF bi] reg this, of expected rnow
        "wrap64 (expected + 1)" "(now + GraceTTL * second - unix_epoch) div 1000000" "sc_identity cd [platform, grp]"]
    have pub: "?P conn = (if conn = Answered then fst (?P Answered) else Inl CallFailed, snd (?P Answered))"
      and ans: "?P Answered = publishScript rnow b expected (wrap64 (expected + 1))
        ((now + GraceTTL * second - unix_epoch) div 1000000) (sc_identity cd [platform, grp]) vals s"
      using 4 by (auto simp: Publish_def b_def Let_def)
    have ghost: "(if conn = ReplyLost then Answered else conn) = Answered" using 4(1) by auto
    show thesis
    proof (cases rule: scr)
      case 1
      then show thesis using pub ans ghost by (intro kept) (simp_all add: published_def)
    next
      case 2
      then show thesis using pub ans ghost by (intro kept) (simp_all add: published_def)
    next
      case ran: (3 s')
      have w: "wrap64 (expected + 1) = ?n + 1" using ran(1,2) by (simp add: wrap64_id min_int64_def)
      show thesis using ran pub ans 4 ghost w
        by (intro that(2)[of vals]) (simp_all add: published_def b_def[symmetric])
    qed
  qed
qed

text \<open>A bucket whose keys are untouched keeps its invariant.\<close>

lemma data_at_later: "data_at cd sha t r g \<Longrightarrow> t \<le> t' \<Longrightarrow> data_at cd sha t' r g"
  by (force simp: data_at_def)

lemma bucket_inv_frame:
  assumes inv: "bucket_inv cd sha (G, s, t) b" and t: "t \<le> t'"
    and gens: "generations b G' = generations b G"
    and same: "sr_keys s' (active_key b) = sr_keys s (active_key b)" "sr_keys s' (version_key b) = sr_keys s (version_key b)"
      "sr_keys s' (epoch_key b) = sr_keys s (epoch_key b)"
      "\<And>v. sr_keys s' (data_key b (show_int v)) = sr_keys s (data_key b (show_int v))"
  shows "bucket_inv cd sha (G', s', t') b"
proof -
  have "gn_Bucket g = b" if "g \<in> set (generations b G)" for g using that by (simp add: generations_def)
  then have "data_at cd sha t' (sr_keys s') g" if "g \<in> set (generations b G)" for g
    using data_at_later[OF bucket_invD(6)[OF inv that] t] that same(4)[of "gn_Version g"] by (simp add: data_at_def)
  then show ?thesis using bucket_invD[OF inv] same(1-3) by (simp add: bucket_inv_def Let_def gens text_at_def)
qed

lemma expire_data:
  assumes "r k = Some \<lparr>re_data = d, re_expires = Some e\<rparr>" "e \<le> t + DataTTL * second" "t \<le> now"
  obtains e' where "redis_expire now k GraceTTL r k = Some \<lparr>re_data = d, re_expires = Some e'\<rparr>" "e' \<le> now + DataTTL * second"
proof (cases "e \<le> now")
  case True
  then have "redis_expire now k GraceTTL r k = r k"
    using assms(1) by (simp add: redis_expire_def redis_pexpire_def redis_live_def)
  with that show thesis using assms by simp
next
  case False
  then have "redis_expire now k GraceTTL r k = Some \<lparr>re_data = d, re_expires = Some (now + GraceTTL * 1000 * 1000000)\<rparr>"
    using assms(1) by (simp add: redis_expire_def redis_pexpire_def redis_live_def)
  with that show thesis by (simp add: GraceTTL_def DataTTL_def second_def)
qed

lemma numbered_snoc:
  "numbered gs \<Longrightarrow> gn_Version g = int (length gs) + 1 \<Longrightarrow> gn_Epoch g = gn_Version g \<Longrightarrow> numbered (gs @ [g])"
  by (simp add: numbered_def del: map_eq_conv)

lemma numbered_version: "numbered gs \<Longrightarrow> g \<in> set gs \<Longrightarrow> 1 \<le> gn_Version g \<and> gn_Version g \<le> int (length gs)"
proof -
  assume "numbered gs" "g \<in> set gs"
  then have "gn_Version g \<in> set (map int [1..<Suc (length gs)])" by (metis image_eqI list.set_map numbered_def)
  then show ?thesis by auto
qed

lemma next_keys_inv:
  assumes inv: "bucket_inv cd sha (G, s, t) b" and t: "t \<le> now" and n: "n = count_of b G" "n < max_int64"
    and keys: "next_keys now b n (n + 1) vals (sr_keys s) (sr_keys s')"
    and args: "publish_args cd sha p g (n + 1) accounts = Inr vals" and ok: "account_keys_ok accounts" and b: "b = BucketID sha p g"
  shows "bucket_inv cd sha (G @ [\<lparr>gn_Bucket = b, gn_Platform = p, gn_Group = g, gn_Version = n + 1, gn_Epoch = n + 1,
    gn_Accounts = accounts\<rparr>], s', now) b"
    (is "bucket_inv cd sha (G @ [?g], s', now) b")
proof -
  let ?r = "sr_keys s" and ?r' = "sr_keys s'"
  have gs: "generations b (G @ [?g]) = generations b G @ [?g]" by (simp add: generations_def)
  have new: "data_at cd sha now ?r' ?g" using keys args by (simp add: data_at_def next_keys_def)
  have old: "data_at cd sha now ?r' h" if h: "h \<in> set (generations b G)" for h
  proof -
    have hb: "gn_Bucket h = b" and hv: "1 \<le> gn_Version h" "gn_Version h \<le> n"
      using h numbered_version[OF bucket_invD(1)[OF inv] h] n by (simp_all add: generations_def)
    obtain vs e where d: "publish_args cd sha (gn_Platform h) (gn_Group h) (gn_Epoch h) (gn_Accounts h) = Inr vs"
      "?r (data_key b (show_int (gn_Version h))) = Some \<lparr>re_data = RHash ((''__version'', show_int (gn_Version h)) # vs), re_expires = Some e\<rparr>"
      "e \<le> t + DataTTL * second" using bucket_invD(6)[OF inv h] by (auto simp: data_at_def hb)
    show ?thesis
    proof (cases "gn_Version h = n")
      case True
      obtain e' where "redis_expire now (data_key b (show_int n)) GraceTTL ?r (data_key b (show_int n)) =
          Some \<lparr>re_data = RHash ((''__version'', show_int n) # vs), re_expires = Some e'\<rparr>" "e' \<le> now + DataTTL * second"
        using expire_data[where r = ?r and k = "data_key b (show_int n)", OF d(2)[unfolded True] d(3) t] by blast
      then show ?thesis using d(1) keys hv True by (simp add: data_at_def hb next_keys_def)
    next
      case False
      then have "?r' (data_key b (show_int (gn_Version h))) = ?r (data_key b (show_int (gn_Version h)))"
        using keys hv by (simp add: next_keys_def)
      then show ?thesis using d t by (auto simp: data_at_def hb)
    qed
  qed
  have num: "numbered (generations b G @ [?g])" using bucket_invD(1)[OF inv] n by (intro numbered_snoc) simp_all
  have texts: "text_at ?r' (active_key b) (n + 1)" "text_at ?r' (version_key b) (n + 1)" "text_at ?r' (epoch_key b) (n + 1)"
    using keys n by (simp_all add: next_keys_def) (simp add: text_at_def)
  have len: "int (length (generations b G @ [?g])) = n + 1" using n by simp
  show ?thesis unfolding bucket_inv_def prod.case Let_def gs len
    using num texts new old bucket_invD(7,8)[OF inv] ok b n by auto
qed

lemma next_keys_other:
  assumes "next_keys now b n m vals r r'" "b' \<noteq> b"
  shows "r' (active_key b') = r (active_key b')" "r' (version_key b') = r (version_key b')"
    "r' (epoch_key b') = r (epoch_key b')" "r' (data_key b' (show_int v)) = r (data_key b' (show_int v))"
  using assms by (simp_all add: next_keys_def)

lemma remove_keys:
  assumes "registry_ok (sr_keys s)"
  shows "registry_ok (sr_keys (snd (RemoveRegisteredBucket sha conn rnow p g s)))"
    and "k \<noteq> BucketRegistryKey \<Longrightarrow> sr_keys (snd (RemoveRegisteredBucket sha conn rnow p g s)) k = sr_keys s k"
  using assms by (cases conn; cases rule: registry_okE[OF assms];
      simp add: RemoveRegisteredBucket_def removeBucketScript_def redis_hdel_def redis_live_def registry_ok_def Let_def distinct_delete)+

lemma snap_step_inv:
  assumes "snap_step cd sha h h'" "snap_inv cd sha h"
  shows "snap_inv cd sha h'"
  using assms(1)
proof cases
  case (publish t t' accounts G s conn now platform grp expected)
  let ?b = "BucketID sha platform grp" and ?s' = "snd (Publish cd sha conn now t' platform grp expected accounts s)"
  have inv: "snap_inv cd sha (G, s, t)" using assms(2) publish(1) by simp
  then have bi: "bucket_inv cd sha (G, s, t) b" and reg: "registry_ok (sr_keys s)" for b by (simp_all add: snap_inv_def)
  show ?thesis
  proof (cases rule: Publish_cases[where platform = platform and grp = grp and conn = conn and now = now and rnow = t' and
        expected = expected, OF inv publish(4) refl])
    case 1
    then show ?thesis using bucket_inv_frame[where G' = G and s' = s, OF bi publish(3)] reg publish(2) by (simp add: snap_inv_def)
  next
    case ran: (2 vals)
    let ?g = "\<lparr>gn_Bucket = ?b, gn_Platform = platform, gn_Group = grp, gn_Version = count_of ?b G + 1,
      gn_Epoch = count_of ?b G + 1, gn_Accounts = accounts\<rparr>"
    have "bucket_inv cd sha (G @ [?g], ?s', t') b" for b
    proof (cases "b = ?b")
      case True
      then show ?thesis using next_keys_inv[OF bi publish(3) refl ran(2,4,3) publish(4) refl] by simp
    next
      case False
      then show ?thesis using next_keys_other[OF ran(4)]
        by (intro bucket_inv_frame[OF bi publish(3)]) (simp_all add: generations_def)
    qed
    then show ?thesis using ran(4,5) publish(2) by (simp add: snap_inv_def next_keys_def)
  qed
next
  case (remove t t' G s conn platform grp)
  then have bi: "bucket_inv cd sha (G, s, t) b" and reg: "registry_ok (sr_keys s)" for b using assms(2) by (simp_all add: snap_inv_def)
  show ?thesis using remove_keys[OF reg] bucket_inv_frame[where G' = G, OF bi remove(3)] remove(2) by (simp add: snap_inv_def)
next
  case (wait t t' G s)
  then have bi: "bucket_inv cd sha (G, s, t) b" and reg: "registry_ok (sr_keys s)" for b using assms(2) by (simp_all add: snap_inv_def)
  show ?thesis using bucket_inv_frame[OF bi wait(3)] reg wait(2) by (simp add: snap_inv_def)
qed

lemma snap_path_inv: "snap_path cd sha h h' \<Longrightarrow> snap_inv cd sha h \<Longrightarrow> snap_inv cd sha h'"
  by (induction rule: rtranclp_induct) (auto intro: snap_step_inv)

lemma snap_reachable_inv: "snap_reachable cd sha h \<Longrightarrow> snap_inv cd sha h"
proof -
  have "bucket_inv cd sha ([], empty_snap, t) b" for t b
    by (simp add: bucket_inv_def generations_def numbered_def empty_snap_def text_at_def max_int64_def)
  then have "snap_inv cd sha ([], empty_snap, t)" for t by (simp add: snap_inv_def registry_ok_def empty_snap_def)
  then show "snap_reachable cd sha h \<Longrightarrow> snap_inv cd sha h"
    unfolding snap_reachable_def using snap_path_inv by blast
qed

lemma snap_path_grows:
  "snap_path cd sha h h' \<Longrightarrow> \<exists>H. fst h' = fst h @ H"
proof (induction rule: rtranclp_induct)
  case (step y z)
  then obtain H where H: "fst y = fst h @ H" by blast
  show ?case using step(2) by cases (use H in auto)
qed simp

lemma snap_path_time: "snap_path cd sha h h' \<Longrightarrow> snd (snd h) \<le> snd (snd h')"
proof (induction rule: rtranclp_induct)
  case (step y z)
  show ?case using step(2) by cases (use step(3) in auto)
qed simp

section \<open>What a load returns\<close>

definition codec_ok :: "snapshot_codec \<Rightarrow> bool" where
  "codec_ok cd \<longleftrightarrow> (\<forall>e raw. sc_marshal cd e = Some raw \<longrightarrow> sc_unmarshal cd raw = Some e)"

lemma decode_generation:
  assumes "codec_ok cd" "publish_args cd sha p g ep as = Inr vals"
  shows "decode_entries (sc_unmarshal cd) ok vals =
    (if \<forall>a \<in> set as. ok (ac_ID a) (entry_of sha p g ep a) then Inr as else Inl EnvelopeMismatch)"
  using assms(2)
proof (induction as arbitrary: vals)
  case (Cons a as)
  then obtain v vs where v: "sc_marshal cd (entry_of sha p g ep a) = Some v" "publish_args cd sha p g ep as = Inr vs"
    "vals = (ac_ID a, v) # vs" by (auto split: if_splits option.splits sum.splits)
  then have "sc_unmarshal cd v = Some (entry_of sha p g ep a)" using assms(1) by (simp add: codec_ok_def)
  then show ?case using v Cons.IH[OF v(2)] by (simp add: entry_of_def)
qed simp

lemma entry_of_simps [simp]:
  "en_Platform (entry_of sha p g ep a) = p" "en_Group (entry_of sha p g ep a) = g" "en_BucketID (entry_of sha p g ep a) = BucketID sha p g"
  "en_Version (entry_of sha p g ep a) = 0" "en_Epoch (entry_of sha p g ep a) = ep" "en_Account (entry_of sha p g ep a) = a"
  by (simp_all add: entry_of_def)

lemma Load_Inr:
  assumes "Load cd sha v1 v2 v3 v4 now platform grp = Inr x"
  obtains active version epochValue epoch vals ttl accounts where
    "get_at (active_key (BucketID sha platform grp)) v1 = Some active" "parse_int64 active = Some version" "0 < version"
    "get_at (epoch_key (BucketID sha platform grp)) v2 = Some epochValue" "parse_int64 epochValue = Some epoch"
    "hgetall_at (data_key (BucketID sha platform grp) (show_int version)) v3 = Some vals"
    "ttl_at (data_key (BucketID sha platform grp) (show_int version)) v4 = Some ttl" "0 < ttl"
    "map_of vals ''__version'' = Some (show_int version)"
    "decode_entries (sc_unmarshal cd) (envelope_ok (BucketID sha platform grp) version epoch platform grp)
       (AList.delete ''__version'' vals) = Inr accounts"
    "x = \<lparr>sn_Platform = platform, sn_Group = grp, sn_BucketID = BucketID sha platform grp, sn_Version = version,
       sn_Epoch = epoch, sn_ValidUntil = now + ttl * second, sn_Accounts = accounts\<rparr>"
  using assms unfolding Load_def Let_def
  by (auto split: if_splits option.splits sum.splits simp: not_le)

lemma get_text:
  assumes "get_at k (conn, rnow, s) = Some txt" "text_at (sr_keys s) k n" "0 \<le> n" "n \<le> max_int64" "parse_int64 txt = Some m"
  shows "m = n" "0 < n"
proof -
  have "txt = show_int n" "n \<noteq> 0" using assms(1) text_at_get[OF assms(2), of rnow]
    by (auto simp: get_at_def split: if_splits sum.splits option.splits)
  moreover have "parse_int64 (show_int n) = Some n" using assms(3,4) by (intro parse_int64_show_int) (simp_all add: min_int64_def)
  ultimately show "m = n" "0 < n" using assms(3,5) by simp_all
qed

lemma numbered_same:
  assumes "numbered gs" "g \<in> set gs" "h \<in> set gs" "gn_Version g = gn_Version h"
  shows "g = h"
proof -
  have "distinct (map gn_Version gs)" using assms(1) by (simp add: numbered_def distinct_map)
  then show ?thesis using assms(2-4) by (simp add: distinct_map inj_on_def)
qed

lemma numbered_last:
  assumes "numbered gs" "gs \<noteq> []"
  shows "gn_Version (last gs) = int (length gs)"
proof -
  have "last (map gn_Version gs) = last (map int [1..<Suc (length gs)])" using assms by (simp add: numbered_def)
  also have "\<dots> = int (length gs)" using assms(2) by (cases gs) (simp_all del: upt_Suc add: last_map)
  finally show ?thesis using assms(2) by (simp add: last_map)
qed

lemma generations_prefix:
  "snap_path cd sha (G, s, t) (G', s', t') \<Longrightarrow> set (generations b G) \<subseteq> set (generations b G') \<and> count_of b G \<le> count_of b G'"
  using snap_path_grows[of cd sha "(G, s, t)" "(G', s', t')"] by (auto simp: generations_def)

lemma data_entries:
  assumes "data_at cd sha t r g" "account_keys_ok (gn_Accounts g)"
  obtains vals e where "publish_args cd sha (gn_Platform g) (gn_Group g) (gn_Epoch g) (gn_Accounts g) = Inr vals"
    "r (data_key (gn_Bucket g) (show_int (gn_Version g))) =
       Some \<lparr>re_data = RHash ((''__version'', show_int (gn_Version g)) # vals), re_expires = Some e\<rparr>"
    "e \<le> t + DataTTL * second" "AList.delete ''__version'' ((''__version'', show_int (gn_Version g)) # vals) = vals"
proof -
  obtain vals e where d: "publish_args cd sha (gn_Platform g) (gn_Group g) (gn_Epoch g) (gn_Accounts g) = Inr vals"
    "r (data_key (gn_Bucket g) (show_int (gn_Version g))) =
       Some \<lparr>re_data = RHash ((''__version'', show_int (gn_Version g)) # vals), re_expires = Some e\<rparr>"
    "e \<le> t + DataTTL * second" using assms(1) by (auto simp: data_at_def)
  have "''__version'' \<notin> fst ` set vals"
    using assms(2) publish_args_Inr(1)[OF d(1)] by (simp add: account_keys_ok_def flip: set_map)
  then have "AList.delete ''__version'' vals = vals" by (force simp: AList.delete_eq filter_id_conv)
  with d that show thesis by simp
qed

lemma load_generation:
  assumes codec: "codec_ok cd"
    and reach: "snap_reachable cd sha (G1, s1, t1)"
    and paths: "snap_path cd sha (G1, s1, t1) (G2, s2, t2)" "snap_path cd sha (G2, s2, t2) (G3, s3, t3)"
      "snap_path cd sha (G3, s3, t3) (G4, s4, t4)"
    and load: "Load cd sha (c1, t1, s1) (c2, t2, s2) (c3, t3, s3) (c4, t4, s4) now platform grp = Inr x"
    and b: "b = BucketID sha platform grp"
  obtains g where "generations b G1 \<noteq> []" "g = last (generations b G1)"
    "sn_Version x = gn_Version g" "sn_Accounts x = gn_Accounts g"
    "gn_Accounts g \<noteq> [] \<Longrightarrow> sn_Epoch x = gn_Epoch g \<and> gn_Platform g = platform \<and> gn_Group g = grp"
    "sn_Epoch x = count_of b G2" "sn_ValidUntil x \<le> now + DataTTL * second"
proof -
  have inv1: "snap_inv cd sha (G1, s1, t1)" using snap_reachable_inv[OF reach] .
  have inv: "snap_inv cd sha (G2, s2, t2)" "snap_inv cd sha (G3, s3, t3)" "snap_inv cd sha (G4, s4, t4)"
    using snap_path_inv[OF paths(1) inv1] snap_path_inv[OF paths(2)] snap_path_inv[OF paths(3)] by auto
  have bi: "bucket_inv cd sha (G1, s1, t1) b" "bucket_inv cd sha (G2, s2, t2) b" "bucket_inv cd sha (G3, s3, t3) b"
    "bucket_inv cd sha (G4, s4, t4) b" using inv1 inv by (simp_all add: snap_inv_def)
  from load obtain active version epochValue epoch vals ttl accounts where L:
    "get_at (active_key b) (c1, t1, s1) = Some active" "parse_int64 active = Some version"
    "get_at (epoch_key b) (c2, t2, s2) = Some epochValue" "parse_int64 epochValue = Some epoch"
    "hgetall_at (data_key b (show_int version)) (c3, t3, s3) = Some vals"
    "ttl_at (data_key b (show_int version)) (c4, t4, s4) = Some ttl" "0 < ttl"
    "map_of vals ''__version'' = Some (show_int version)"
    "decode_entries (sc_unmarshal cd) (envelope_ok b version epoch platform grp) (AList.delete ''__version'' vals) = Inr accounts"
    "x = \<lparr>sn_Platform = platform, sn_Group = grp, sn_BucketID = b, sn_Version = version,
       sn_Epoch = epoch, sn_ValidUntil = now + ttl * second, sn_Accounts = accounts\<rparr>"
    unfolding b by (rule Load_Inr)
  have version: "version = count_of b G1" "0 < count_of b G1"
    using get_text[OF L(1) bucket_invD(3)[OF bi(1)] _ bucket_invD(2)[OF bi(1)] L(2)] by simp_all
  have epoch: "epoch = count_of b G2"
    using get_text[OF L(3) bucket_invD(5)[OF bi(2)] _ bucket_invD(2)[OF bi(2)] L(4)] by simp
  let ?g = "last (generations b G1)"
  have ne: "generations b G1 \<noteq> []" using version(2) by auto
  have gv: "gn_Version ?g = version" using numbered_last[OF bucket_invD(1)[OF bi(1)] ne] version(1) by simp
  have mem: "?g \<in> set (generations b G3)" "?g \<in> set (generations b G4)"
    using ne generations_prefix[OF paths(1)] generations_prefix[OF paths(2)] generations_prefix[OF paths(3)] last_in_set[OF ne]
    by blast+
  have gb: "gn_Bucket ?g = b" using mem(1) by (simp add: generations_def)
  obtain vs e where d: "publish_args cd sha (gn_Platform ?g) (gn_Group ?g) (gn_Epoch ?g) (gn_Accounts ?g) = Inr vs"
    "sr_keys s3 (data_key b (show_int version)) = Some \<lparr>re_data = RHash ((''__version'', show_int version) # vs), re_expires = Some e\<rparr>"
    "AList.delete ''__version'' ((''__version'', show_int version) # vs) = vs"
    using data_entries[OF bucket_invD(6,7)[OF bi(3) mem(1)]] unfolding gv gb by metis
  have "vals \<noteq> []" using L(8) by auto
  then have vals: "vals = (''__version'', show_int version) # vs"
    using L(5) d(2) by (auto simp: hgetall_at_def redis_hgetall_def redis_live_def split: if_splits)
  have dec: "(if \<forall>a \<in> set (gn_Accounts ?g). envelope_ok b version epoch platform grp (ac_ID a)
      (entry_of sha (gn_Platform ?g) (gn_Group ?g) (gn_Epoch ?g) a) then Inr (gn_Accounts ?g) else Inl EnvelopeMismatch) = Inr accounts"
    using L(9) decode_generation[OF codec d(1)] unfolding vals d(3) by simp
  have accts: "accounts = gn_Accounts ?g" using dec by (simp split: if_splits)
  have env: "epoch = gn_Epoch ?g \<and> gn_Platform ?g = platform \<and> gn_Group ?g = grp" if "gn_Accounts ?g \<noteq> []"
    using dec that by (cases "gn_Accounts ?g") (auto simp: envelope_ok_def split: if_splits)
  obtain vs4 e4 where d4: "sr_keys s4 (data_key b (show_int version)) =
      Some \<lparr>re_data = RHash ((''__version'', show_int version) # vs4), re_expires = Some e4\<rparr>" "e4 \<le> t4 + DataTTL * second"
    using data_entries[OF bucket_invD(6,7)[OF bi(4) mem(2)]] unfolding gv gb by metis
  have "ttl \<le> DataTTL"
    using L(6,7) d4 by (auto simp: ttl_at_def redis_ttl_def redis_live_def DataTTL_def second_def split: if_splits)
  then have "sn_ValidUntil x \<le> now + DataTTL * second" by (simp add: L(10) second_def)
  then show thesis using that[of ?g] ne L(10) gv accts env epoch by simp
qed

text \<open>
  C13.  A load never mixes two publications.  Its four commands may have any publications of any
  clients between them, with replies lost or calls refused; where it returns a snapshot, the
  snapshot holds exactly the accounts of one publication of that bucket, the one that was active
  when the load began, and with accounts in it also that publication's epoch and names.  An empty
  snapshot may carry a later epoch, never an earlier one.  It is trusted for two minutes at most.
\<close>

theorem load_one_generation:
  assumes "codec_ok cd" and "snap_reachable cd sha (G1, s1, t1)"
    and "snap_path cd sha (G1, s1, t1) (G2, s2, t2)" "snap_path cd sha (G2, s2, t2) (G3, s3, t3)"
      "snap_path cd sha (G3, s3, t3) (G4, s4, t4)"
    and "Load cd sha (c1, t1, s1) (c2, t2, s2) (c3, t3, s3) (c4, t4, s4) now platform grp = Inr x"
  shows "\<exists>g \<in> set G1. gn_Bucket g = BucketID sha platform grp \<and>
      (\<forall>h \<in> set G1. gn_Bucket h = gn_Bucket g \<longrightarrow> gn_Version h \<le> gn_Version g) \<and>
      sn_Version x = gn_Version g \<and> mset (sn_Accounts x) = mset (gn_Accounts g) \<and>
      (gn_Accounts g \<noteq> [] \<longrightarrow> sn_Epoch x = gn_Epoch g \<and> gn_Platform g = platform \<and> gn_Group g = grp) \<and>
      gn_Epoch g \<le> sn_Epoch x \<and> sn_ValidUntil x \<le> now + DataTTL * second"
proof -
  let ?b = "BucketID sha platform grp"
  have num: "numbered (generations ?b G1)"
    using snap_reachable_inv[OF assms(2)] unfolding snap_inv_def by (blast intro: bucket_invD(1))
  from load_generation[OF assms refl] obtain g where g: "generations ?b G1 \<noteq> []" "g = last (generations ?b G1)"
    "sn_Version x = gn_Version g" "sn_Accounts x = gn_Accounts g"
    "gn_Accounts g \<noteq> [] \<Longrightarrow> sn_Epoch x = gn_Epoch g \<and> gn_Platform g = platform \<and> gn_Group g = grp"
    "sn_Epoch x = count_of ?b G2" "sn_ValidUntil x \<le> now + DataTTL * second" by blast
  have mem: "g \<in> set (generations ?b G1)" using g(1,2) by simp
  then have "g \<in> set G1" "gn_Bucket g = ?b" by (simp_all add: generations_def)
  moreover have "gn_Version h \<le> gn_Version g" if "h \<in> set G1" "gn_Bucket h = ?b" for h
    using numbered_version[OF num, of h] numbered_last[OF num g(1)] g(2) that by (simp add: generations_def)
  moreover have "gn_Epoch g = gn_Version g" using num mem by (simp add: numbered_def)
  then have "gn_Epoch g \<le> sn_Epoch x"
    using numbered_last[OF num g(1)] g(2,6) generations_prefix[OF assms(3), of ?b] by simp
  ultimately show ?thesis using g(3-5,7) by (intro bexI[of _ g]) auto
qed

section \<open>What was published is loaded\<close>

text \<open>A bucket holds a generation while no later one is published.\<close>

definition holds :: "snapshot_codec \<Rightarrow> (string \<Rightarrow> string) \<Rightarrow> generation \<Rightarrow> time \<Rightarrow> redis \<Rightarrow> bool" where
  "holds cd sha g e r \<longleftrightarrow>
     text_at r (active_key (gn_Bucket g)) (gn_Version g) \<and> text_at r (epoch_key (gn_Bucket g)) (gn_Epoch g) \<and>
     (\<exists>vals. publish_args cd sha (gn_Platform g) (gn_Group g) (gn_Epoch g) (gn_Accounts g) = Inr vals \<and>
        r (data_key (gn_Bucket g) (show_int (gn_Version g))) =
          Some \<lparr>re_data = RHash ((''__version'', show_int (gn_Version g)) # vals), re_expires = Some e\<rparr>)"

lemma holds_cong:
  assumes "r' (active_key (gn_Bucket g)) = r (active_key (gn_Bucket g))" "r' (epoch_key (gn_Bucket g)) = r (epoch_key (gn_Bucket g))"
    "r' (data_key (gn_Bucket g) (show_int (gn_Version g))) = r (data_key (gn_Bucket g) (show_int (gn_Version g)))"
  shows "holds cd sha g e r' = holds cd sha g e r"
  using assms by (simp add: holds_def text_at_def)

lemma snap_step_holds:
  assumes "snap_step cd sha h h'" "snap_inv cd sha h" "holds cd sha g e (sr_keys (fst (snd h)))"
    and "length (generations (gn_Bucket g) (fst h')) \<le> length (generations (gn_Bucket g) (fst h))"
  shows "holds cd sha g e (sr_keys (fst (snd h')))"
  using assms(1)
proof cases
  case (publish t t' accounts G s conn now platform grp expected)
  have inv: "snap_inv cd sha (G, s, t)" using assms(2) publish(1) by simp
  show ?thesis
  proof (cases rule: Publish_cases[where platform = platform and grp = grp and conn = conn and now = now and rnow = t' and
        expected = expected, OF inv publish(4) refl])
    case 1
    then show ?thesis using assms(3) publish(1,2) by simp
  next
    case ran: (2 vals)
    then have "gn_Bucket g \<noteq> BucketID sha platform grp" using assms(4) publish(1,2) by (auto simp: generations_def)
    then show ?thesis using assms(3) publish(1,2) holds_cong[OF next_keys_other(1,3,4)[OF ran(4)]] by simp
  qed
next
  case (remove t t' G s conn platform grp)
  then have reg: "registry_ok (sr_keys s)" using assms(2) by (simp add: snap_inv_def)
  have "sr_keys (snd (RemoveRegisteredBucket sha conn t' platform grp s)) k = sr_keys s k" if "k \<noteq> BucketRegistryKey" for k
    using that by (rule remove_keys(2)[OF reg])
  then show ?thesis using assms(3) remove(1,2) holds_cong[of "sr_keys (snd (RemoveRegisteredBucket sha conn t' platform grp s))" g "sr_keys s"]
    by simp
next
  case (wait t t' G s)
  then show ?thesis using assms(3) by simp
qed

lemma snap_path_holds:
  assumes "snap_path cd sha h h'" "snap_inv cd sha h" "holds cd sha g e (sr_keys (fst (snd h)))"
    and "length (generations (gn_Bucket g) (fst h')) \<le> length (generations (gn_Bucket g) (fst h))"
  shows "holds cd sha g e (sr_keys (fst (snd h')))"
  using assms
proof (induction rule: rtranclp_induct)
  case (step y z)
  obtain H where H: "fst z = fst y @ H" using snap_path_grows[OF r_into_rtranclp[of "snap_step cd sha", OF step(2)]] by blast
  obtain K where K: "fst y = fst h @ K" using snap_path_grows[OF step(1)] by blast
  have len: "length (generations (gn_Bucket g) (fst y)) \<le> length (generations (gn_Bucket g) (fst h))"
    "length (generations (gn_Bucket g) (fst z)) \<le> length (generations (gn_Bucket g) (fst y))"
    using step.prems(3) by (simp_all add: H K)
  show ?case using snap_step_holds[OF step(2) snap_path_inv[OF step(1) step.prems(1)] step.IH[OF step.prems(1,2) len(1)] len(2)] .
qed simp

lemma holds_load:
  assumes codec: "codec_ok cd" and ok: "account_keys_ok (gn_Accounts g)"
    and g: "gn_Bucket g = BucketID sha (gn_Platform g) (gn_Group g)" "0 < gn_Version g" "gn_Version g \<le> max_int64" "gn_Epoch g = gn_Version g"
    and at_all: "holds cd sha g e (sr_keys s1)" "holds cd sha g e (sr_keys s2)" "holds cd sha g e (sr_keys s3)" "holds cd sha g e (sr_keys s4)"
    and live: "t3 < e" "t4 + 500 * 1000000 \<le> e"
  obtains until where "Load cd sha (Answered, t1, s1) (Answered, t2, s2) (Answered, t3, s3) (Answered, t4, s4) now (gn_Platform g) (gn_Group g)
     = Inr \<lparr>sn_Platform = gn_Platform g, sn_Group = gn_Group g, sn_BucketID = gn_Bucket g, sn_Version = gn_Version g,
         sn_Epoch = gn_Epoch g, sn_ValidUntil = until, sn_Accounts = gn_Accounts g\<rparr>" "now < until"
proof -
  let ?b = "gn_Bucket g" and ?v = "gn_Version g"
  have parse: "parse_int64 (show_int ?v) = Some ?v" using g by (intro parse_int64_show_int) (simp_all add: min_int64_def)
  obtain vals where d: "publish_args cd sha (gn_Platform g) (gn_Group g) (gn_Epoch g) (gn_Accounts g) = Inr vals"
    "sr_keys s3 (data_key ?b (show_int ?v)) = Some \<lparr>re_data = RHash ((''__version'', show_int ?v) # vals), re_expires = Some e\<rparr>"
    using at_all(3) by (auto simp: holds_def)
  have notin: "''__version'' \<notin> fst ` set vals"
    using ok publish_args_Inr(1)[OF d(1)] by (simp add: account_keys_ok_def flip: set_map)
  then have del: "AList.delete ''__version'' vals = vals" by (force simp: AList.delete_eq filter_id_conv)
  let ?ttl = "((e - t4) div 1000000 + 500) div 1000"
  have ttl: "ttl_at (data_key ?b (show_int ?v)) (Answered, t4, s4) = Some ?ttl" "0 < ?ttl"
    using at_all(4) live by (auto simp: holds_def ttl_at_def redis_ttl_def redis_live_def second_def)
  have dec: "decode_entries (sc_unmarshal cd) (envelope_ok ?b ?v (gn_Epoch g) (gn_Platform g) (gn_Group g)) vals = Inr (gn_Accounts g)"
    using decode_generation[OF codec d(1)] by (simp add: envelope_ok_def g(1))
  have "get_at (active_key ?b) (Answered, t1, s1) = Some (show_int ?v)" "get_at (epoch_key ?b) (Answered, t2, s2) = Some (show_int ?v)"
    "hgetall_at (data_key ?b (show_int ?v)) (Answered, t3, s3) = Some ((''__version'', show_int ?v) # vals)"
    using at_all(1,2) g d(2) live(1) text_at_get[of _ "active_key ?b" ?v] text_at_get[of _ "epoch_key ?b" ?v]
    by (auto simp: holds_def get_at_def hgetall_at_def redis_hgetall_def redis_live_def)
  then have "Load cd sha (Answered, t1, s1) (Answered, t2, s2) (Answered, t3, s3) (Answered, t4, s4) now (gn_Platform g) (gn_Group g)
     = Inr \<lparr>sn_Platform = gn_Platform g, sn_Group = gn_Group g, sn_BucketID = ?b, sn_Version = ?v,
         sn_Epoch = gn_Epoch g, sn_ValidUntil = now + ?ttl * second, sn_Accounts = gn_Accounts g\<rparr>"
    using g(2,4) ttl parse dec del by (simp add: Load_def Let_def g(1)[symmetric])
  moreover have "now < now + ?ttl * second" using ttl(2) by (simp add: second_def)
  ultimately show thesis using that by blast
qed

lemma published_holds:
  assumes inv: "snap_inv cd sha (G, s, t)" and ok: "account_keys_ok accounts"
    and pub: "Publish cd sha conn now rnow platform grp expected accounts s = (res, s')"
    and gen: "published cd sha conn now rnow platform grp expected accounts s = [g]"
  shows "holds cd sha g (rnow + DataTTL * second) (sr_keys s')" "gn_Bucket g = BucketID sha platform grp" "gn_Platform g = platform"
    "gn_Group g = grp" "gn_Accounts g = accounts" "gn_Version g = count_of (gn_Bucket g) G + 1" "gn_Epoch g = gn_Version g"
    "gn_Version g \<le> max_int64" "expected = count_of (gn_Bucket g) G" "conn = Answered \<Longrightarrow> res = Inr (gn_Version g)"
proof -
  show "holds cd sha g (rnow + DataTTL * second) (sr_keys s')" "gn_Bucket g = BucketID sha platform grp" "gn_Platform g = platform"
    "gn_Group g = grp" "gn_Accounts g = accounts" "gn_Version g = count_of (gn_Bucket g) G + 1" "gn_Epoch g = gn_Version g"
    "gn_Version g \<le> max_int64" "expected = count_of (gn_Bucket g) G" "conn = Answered \<Longrightarrow> res = Inr (gn_Version g)"
    by (cases rule: Publish_cases[where platform = platform and grp = grp and conn = conn and now = now and rnow = rnow and
          expected = expected, OF inv ok refl]; use pub gen in \<open>auto simp: holds_def next_keys_def text_at_def\<close>)+
qed

lemma Publish_Inr_published:
  assumes "snap_inv cd sha (G, s, t)" "account_keys_ok accounts" "Publish cd sha conn now rnow platform grp expected accounts s = (Inr v, s')"
  obtains g where "published cd sha conn now rnow platform grp expected accounts s = [g]" "gn_Version g = v"
  by (cases rule: Publish_cases[where platform = platform and grp = grp and conn = conn and now = now and rnow = rnow and
          expected = expected, OF assms(1,2) refl]; use assms(3) that in \<open>auto simp: Publish_def Let_def split: redis_conn.splits sum.splits if_splits\<close>)


section \<open>A sample history\<close>

definition sample_entry :: Entry where
  "sample_entry = entry_of (\<lambda>x. x) ''claude'' ''default'' 1 (demo_account ''a'')"

definition sample_snapshot_codec :: snapshot_codec where
  "sample_snapshot_codec = \<lparr>sc_marshal = (\<lambda>e. if e = sample_entry then Some ''entry'' else None),
     sc_unmarshal = (\<lambda>raw. if raw = ''entry'' then Some sample_entry else None),
     sc_identity = concat, sc_names = (\<lambda>raw. None)\<rparr>"

definition sample_publication :: "(snapshot_error + int) \<times> snap_redis" where
  "sample_publication = Publish sample_snapshot_codec (\<lambda>x. x) Answered 0 1000 ''claude'' ''default'' 0 [demo_account ''a''] empty_snap"

abbreviation sample_generations :: "generation list" where
  "sample_generations \<equiv> published sample_snapshot_codec (\<lambda>x. x) Answered 0 1000 ''claude'' ''default'' 0 [demo_account ''a''] empty_snap"

lemma sample_codec_law: "codec_ok sample_snapshot_codec"
  by (simp add: codec_ok_def sample_snapshot_codec_def)

lemma sample_keys: "account_keys_ok [demo_account ''a'']"
  by code_simp

lemma sample_answer: "fst sample_publication = Inr 1"
  by code_simp

lemma sample_published: "Publish sample_snapshot_codec (\<lambda>x. x) Answered 0 1000 ''claude'' ''default'' 0 [demo_account ''a''] empty_snap
    = (Inr 1, snd sample_publication)"
  using sample_answer by (simp add: sample_publication_def prod_eq_iff)

lemma sample_reachable:
  "snap_reachable sample_snapshot_codec (\<lambda>x. x) ([], empty_snap, 0)"
  "snap_reachable sample_snapshot_codec (\<lambda>x. x) (sample_generations, snd sample_publication, 1000)"
proof -
  let ?step = "snap_step sample_snapshot_codec (\<lambda>x. x)"
  show "snap_reachable sample_snapshot_codec (\<lambda>x. x) ([], empty_snap, 0)" unfolding snap_reachable_def by blast
  have "?step ([], empty_snap, 0) ([] @ sample_generations, snd sample_publication, 1000)"
    unfolding sample_publication_def by (intro snap_step.publish sample_keys) simp
  then show "snap_reachable sample_snapshot_codec (\<lambda>x. x) (sample_generations, snd sample_publication, 1000)"
    unfolding snap_reachable_def by auto
qed

definition sample_view :: "redis_conn \<times> time \<times> snap_redis" where
  "sample_view = (Answered, 1000, snd sample_publication)"

lemma sample_load:
  "\<exists>x. Load sample_snapshot_codec (\<lambda>x. x) sample_view sample_view sample_view sample_view 500 ''claude'' ''default'' = Inr x \<and>
     map ac_ID (sn_Accounts x) = [''a'']"
proof -
  have "(case Load sample_snapshot_codec (\<lambda>x. x) sample_view sample_view sample_view sample_view 500 ''claude'' ''default'' of
     Inr x \<Rightarrow> map ac_ID (sn_Accounts x) = [''a''] | Inl _ \<Rightarrow> False)" by code_simp
  then show ?thesis by (auto split: sum.splits)
qed

theorem load_one_generation_witness:
  "\<exists>g \<in> set sample_generations. map ac_ID (gn_Accounts g) = [''a'']"
proof -
  obtain x where x: "Load sample_snapshot_codec (\<lambda>x. x) (Answered, 1000, snd sample_publication) (Answered, 1000, snd sample_publication)
      (Answered, 1000, snd sample_publication) (Answered, 1000, snd sample_publication) 500 ''claude'' ''default'' = Inr x"
    "map ac_ID (sn_Accounts x) = [''a'']" using sample_load by (auto simp: sample_view_def)
  obtain g where g: "g \<in> set sample_generations" "mset (sn_Accounts x) = mset (gn_Accounts g)"
    using load_one_generation[OF sample_codec_law sample_reachable(2) _ _ _ x(1)] by blast
  have "mset (map ac_ID (sn_Accounts x)) = mset (map ac_ID (gn_Accounts g))" using g(2) by (simp only: mset_map)
  then have "map ac_ID (gn_Accounts g) = [''a'']" unfolding x(2) by (simp del: mset_map)
  then show ?thesis using g(1) by (rule bexI)
qed


end
