(* ===== verification/Providers.thy ===== *)
theory Providers
  imports Contracts
begin

text \<open>
  \<^verbatim>\<open>internal/control/provider/provider.go\<close>: the registry of upstream adapters, and
  \<^verbatim>\<open>internal/control/credentials/cipher.go\<close>: the envelope of a stored credential.  What an adapter
  does on the wire is a function of its record; the AEAD of the cipher is an argument.
\<close>

section \<open>Requests and adapters\<close>

record ImportRequest =
  ir_SourceSystem :: string
  ir_SourceID :: string
  ir_Provider :: string
  ir_AuthMode :: string
  ir_StaticKey :: string
  ir_TokenBundle :: "TokenBundle option"
  ir_Metadata :: "(string, string) gomap"
  ir_DryRun :: bool

text \<open>An error of an adapter: an answer of the upstream with its class, or anything else.\<close>

datatype provider_error =
    HTTPError error_class
  | ErrOAuthRefreshUnsupported
  | ErrInvalidContract
  | OtherError

definition ErrorClass :: "provider_error \<Rightarrow> error_class" where
  "ErrorClass err = (case err of HTTPError class1 \<Rightarrow> class1 | _ \<Rightarrow> ErrorNetwork)"

text \<open>
  The methods of an adapter.  The optional interfaces \<^verbatim>\<open>AuthModeProvider\<close>, \<^verbatim>\<open>OAuthRefresher\<close> and
  \<^verbatim>\<open>ImportProfileProvider\<close> are options; the items of a quota are \<open>None\<close> where the slice is nil.
\<close>

record Provider =
  pv_Kind :: string
  pv_AuthMode :: "string option"
  pv_UsageIntegrity :: usage_integrity
  pv_Authorize :: "ImportRequest \<Rightarrow> provider_error + TokenBundle"
  pv_RefreshOAuth :: "(TokenBundle \<Rightarrow> provider_error + TokenBundle) option"
  pv_Profile :: "Account \<Rightarrow> UpstreamProfile"
  pv_ProfileForImport :: "(Account \<Rightarrow> ImportRequest \<Rightarrow> provider_error + UpstreamProfile) option"
  pv_Quota :: "Credential \<Rightarrow> provider_error + QuotaItem list option"

definition provider_RefreshOAuth :: "Provider \<Rightarrow> TokenBundle \<Rightarrow> provider_error + TokenBundle" where
  "provider_RefreshOAuth p current =
     (case pv_RefreshOAuth p of
        None \<Rightarrow> Inl ErrOAuthRefreshUnsupported
      | Some refresher \<Rightarrow>
          if trim_space (tb_RefreshToken current) = '''' then Inl ErrInvalidContract else refresher current)"

section \<open>The registry\<close>

abbreviation AuthModeAPIKey :: string where
  "AuthModeAPIKey \<equiv> ''api_key''"

abbreviation AuthModeOAuth :: string where
  "AuthModeOAuth \<equiv> ''oauth''"

text \<open>
  \<^verbatim>\<open>strings.ToLower\<close> where the result is compared with ASCII text: besides the capital letters, the
  Kelvin sign lowers to \<open>k\<close> and the dotted capital I to \<open>i\<close>.
\<close>

fun go_lower :: "string \<Rightarrow> string" where
  "go_lower (a # b # c # s) =
     (if a = CHR 0xC4 \<and> b = CHR 0xB0 then CHR ''i'' # go_lower (c # s)
      else if a = CHR 0xE2 \<and> b = CHR 0x84 \<and> c = CHR 0xAA then CHR ''k'' # go_lower s
      else lower_byte a # go_lower (b # c # s))"
| "go_lower [a, b] = (if a = CHR 0xC4 \<and> b = CHR 0xB0 then ''i'' else [lower_byte a, lower_byte b])"
| "go_lower [a] = [lower_byte a]"
| "go_lower [] = []"

definition canonicalAuthMode :: "string \<Rightarrow> string option" where
  "canonicalAuthMode mode =
     (let m = go_lower (trim_space mode) in
      if m = AuthModeAPIKey \<or> m = ''static'' then Some AuthModeAPIKey
      else if m = AuthModeOAuth \<or> m = ''pkce'' \<or> m = ''device'' \<or> m = ''cli'' then Some AuthModeOAuth
      else None)"

record registry =
  rg_items :: "(string, Provider) gomap"
  rg_byAuth :: "(string, (string, Provider) gomap) gomap"

definition Register :: "Provider \<Rightarrow> registry \<Rightarrow> registry" where
  "Register p r =
     (if pv_Kind p = '''' then r
      else
        (let mode = (case pv_AuthMode p of None \<Rightarrow> '''' | Some advertised \<Rightarrow>
               (case canonicalAuthMode advertised of None \<Rightarrow> '''' | Some m \<Rightarrow> m));
             modes = (case map_of (rg_byAuth r) (pv_Kind p) of None \<Rightarrow> [] | Some ms \<Rightarrow> ms);
             r1 = (if mode \<noteq> '''' then r\<lparr>rg_byAuth := AList.update (pv_Kind p) (AList.update mode p modes) (rg_byAuth r)\<rparr> else r)
         in if map_of (rg_items r1) (pv_Kind p) = None \<or> mode = AuthModeOAuth \<or> mode = ''''
            then r1\<lparr>rg_items := AList.update (pv_Kind p) p (rg_items r1)\<rparr> else r1))"

definition Get :: "registry \<Rightarrow> string \<Rightarrow> Provider option" where
  "Get r kind = map_of (rg_items r) kind"

definition GetForAuth :: "registry \<Rightarrow> string \<Rightarrow> string \<Rightarrow> Provider option" where
  "GetForAuth r kind authMode =
     (case canonicalAuthMode authMode of
        None \<Rightarrow> None
      | Some mode \<Rightarrow>
          (case (case map_of (rg_byAuth r) kind of None \<Rightarrow> None | Some modes \<Rightarrow> map_of modes mode) of
             Some p \<Rightarrow> Some p
           | None \<Rightarrow>
               (case map_of (rg_items r) kind of
                  None \<Rightarrow> None
                | Some p \<Rightarrow>
                    (case pv_AuthMode p of
                       None \<Rightarrow> Some p
                     | Some advertised \<Rightarrow> if canonicalAuthMode advertised = Some mode then Some p else None))))"

definition UsageIntegrityFor :: "registry \<Rightarrow> string \<Rightarrow> usage_integrity option" where
  "UsageIntegrityFor r kind =
     (case Get r kind of
        None \<Rightarrow> None
      | Some p \<Rightarrow> if UsageIntegrity_Valid (pv_UsageIntegrity p) then Some (pv_UsageIntegrity p) else None)"

section \<open>The cipher\<close>

datatype cipher_error = ErrInvalidKey | ErrInvalidPlaintext | ErrPlaintextTooLarge | ErrInvalidCiphertext | NoNonce

text \<open>AES-256-GCM: a nonce of twelve bytes, a tag of sixteen.\<close>

record aead =
  ae_seal :: "string \<Rightarrow> string \<Rightarrow> string \<Rightarrow> string"
  ae_open :: "string \<Rightarrow> string \<Rightarrow> string \<Rightarrow> string option"

definition formatVersion :: char where
  "formatVersion = CHR 0x01"

definition MaxPlaintextBytes :: int where
  "MaxPlaintextBytes = 1048576"

definition NonceSize :: nat where
  "NonceSize = 12"

definition Overhead :: nat where
  "Overhead = 16"

definition additionalData :: "string \<Rightarrow> string" where
  "additionalData accountID = ''gateway-platform/credential/v1/'' @ accountID"

definition NewCipher :: "(string \<Rightarrow> aead) \<Rightarrow> string \<Rightarrow> cipher_error + aead" where
  "NewCipher gcm key = (if length key \<noteq> 32 then Inl ErrInvalidKey else Inr (gcm key))"

text \<open>\<open>nonce\<close> is what the random source gives, \<open>None\<close> where it fails.\<close>

definition Encrypt :: "aead \<Rightarrow> string option \<Rightarrow> string \<Rightarrow> string \<Rightarrow> cipher_error + string" where
  "Encrypt c nonce accountID plaintext =
     (if trim_space accountID = '''' then Inl ErrInvalidCiphertext
      else if plaintext = [] then Inl ErrInvalidPlaintext
      else if int (length plaintext) > MaxPlaintextBytes then Inl ErrPlaintextTooLarge
      else case nonce of
          None \<Rightarrow> Inl NoNonce
        | Some n \<Rightarrow> Inr (formatVersion # n @ ae_seal c n plaintext (additionalData accountID)))"

definition Decrypt :: "aead \<Rightarrow> string \<Rightarrow> string \<Rightarrow> cipher_error + string" where
  "Decrypt c accountID ciphertext =
     (if trim_space accountID = '''' \<or> length ciphertext < 1 + NonceSize + Overhead \<or>
         int (length ciphertext) > int (1 + NonceSize + Overhead) + MaxPlaintextBytes
      then Inl ErrInvalidCiphertext
      else if hd ciphertext \<noteq> formatVersion then Inl ErrInvalidCiphertext
      else case ae_open c (take NonceSize (tl ciphertext)) (drop NonceSize (tl ciphertext)) (additionalData accountID) of
          None \<Rightarrow> Inl ErrInvalidCiphertext
        | Some plaintext \<Rightarrow> Inr plaintext)"

text \<open>
  What is documented of an AEAD: what was sealed opens under the same nonce and additional data, the
  tag adds its length, and what was sealed with one of the additional data at hand does not open
  with another of them.
\<close>

definition aead_ok :: "string set \<Rightarrow> aead \<Rightarrow> bool" where
  "aead_ok data c \<longleftrightarrow>
     (\<forall>n p ad. ae_open c n (ae_seal c n p ad) ad = Some p \<and> length (ae_seal c n p ad) = length p + Overhead) \<and>
     (\<forall>n p. \<forall>x \<in> data. \<forall>y \<in> data. x \<noteq> y \<longrightarrow> ae_open c n (ae_seal c n p x) y = None)"

text \<open>Each account has additional data of its own.\<close>

lemma additionalData_inj [simp]: "additionalData a = additionalData b \<longleftrightarrow> a = b"
  by (simp add: additionalData_def)

lemma Decrypt_Encrypt:
  assumes "aead_ok (additionalData ` accounts) c" "length n = NonceSize" "Encrypt c (Some n) accountID plaintext = Inr stored"
  shows "Decrypt c accountID stored = Inr plaintext"
    and "accountID \<in> accounts \<Longrightarrow> other \<in> accounts \<Longrightarrow> other \<noteq> accountID \<Longrightarrow> Decrypt c other stored = Inl ErrInvalidCiphertext"
proof -
  let ?sealed = "ae_seal c n plaintext (additionalData accountID)"
  have e: "trim_space accountID \<noteq> ''''" "int (length plaintext) \<le> MaxPlaintextBytes" "stored = formatVersion # n @ ?sealed"
    using assms(3) by (auto simp: Encrypt_def split: if_splits)
  have len: "length ?sealed = length plaintext + Overhead" using assms(1) by (simp add: aead_ok_def)
  have parts: "take NonceSize (tl stored) = n" "drop NonceSize (tl stored) = ?sealed" using e(3) assms(2) by simp_all
  have size: "\<not> length stored < 1 + NonceSize + Overhead" "\<not> int (length stored) > int (1 + NonceSize + Overhead) + MaxPlaintextBytes"
    using e(2,3) assms(2) len by simp_all
  have opens: "ae_open c n ?sealed (additionalData accountID) = Some plaintext" using assms(1) by (simp add: aead_ok_def)
  have "hd stored = formatVersion" using e(3) by simp
  note dec = Decrypt_def parts
  show "Decrypt c accountID stored = Inr plaintext"
    unfolding dec using e(1) size opens \<open>hd stored = formatVersion\<close> by simp
  have "ae_open c n ?sealed (additionalData other) = None" if "accountID \<in> accounts" "other \<in> accounts" "other \<noteq> accountID"
  proof -
    have "additionalData accountID \<noteq> additionalData other" using that(3) by auto
    then show ?thesis using assms(1) that(1,2) unfolding aead_ok_def by blast
  qed
  then show "accountID \<in> accounts \<Longrightarrow> other \<in> accounts \<Longrightarrow> other \<noteq> accountID \<Longrightarrow> Decrypt c other stored = Inl ErrInvalidCiphertext"
    unfolding dec by simp
qed

lemma Encrypt_accepts:
  "(\<exists>stored. Encrypt c (Some n) accountID plaintext = Inr stored) \<longleftrightarrow>
     trim_space accountID \<noteq> '''' \<and> plaintext \<noteq> [] \<and> int (length plaintext) \<le> MaxPlaintextBytes"
  by (auto simp: Encrypt_def)

text \<open>
  C39.  A stored credential opens for its own account and for no other.  For an account with a
  name, every plaintext from one byte to one MiB is encrypted, and no other; what was encrypted
  decrypts to the same bytes, and moving the stored text to another account's row makes it
  unreadable.  The hypothesis on the AEAD knows nothing of accounts: it says that what was sealed
  with one text of additional data does not open with another.
\<close>

theorem credential_bound_to_account:
  assumes "aead_ok (additionalData ` accounts) c" and "accountID \<in> accounts" and "length n = NonceSize"
    and "trim_space accountID \<noteq> ''''"
  shows "if plaintext \<noteq> [] \<and> length plaintext \<le> 1024 * 1024
    then \<exists>stored. Encrypt c (Some n) accountID plaintext = Inr stored \<and> Decrypt c accountID stored = Inr plaintext \<and>
      (\<forall>other \<in> accounts. other \<noteq> accountID \<longrightarrow> Decrypt c other stored = Inl ErrInvalidCiphertext)
    else \<exists>e. Encrypt c (Some n) accountID plaintext = Inl e"
proof (cases "plaintext \<noteq> [] \<and> int (length plaintext) \<le> MaxPlaintextBytes")
  case True
  then obtain stored where "Encrypt c (Some n) accountID plaintext = Inr stored" using assms(4) Encrypt_accepts by blast
  with True Decrypt_Encrypt[OF assms(1,3) this] assms(2) show ?thesis by (auto simp: MaxPlaintextBytes_def)
next
  case False
  then show ?thesis by (auto simp: MaxPlaintextBytes_def Encrypt_def)
qed

text \<open>A transparent AEAD for examples: the tag repeats the last byte of the data.\<close>

definition sample_aead :: aead where
  "sample_aead = \<lparr>ae_seal = (\<lambda>n p ad. p @ replicate Overhead (last ad)),
     ae_open = (\<lambda>n t ad. if drop (length t - Overhead) t = replicate Overhead (last ad)
        then Some (take (length t - Overhead) t) else None)\<rparr>"

lemma sample_aead_ok: "aead_ok (additionalData ` {''a'', ''b''}) sample_aead"
  by (auto simp: aead_ok_def sample_aead_def additionalData_def Overhead_def)

theorem credential_bound_to_account_witness:
  "\<exists>stored. Encrypt sample_aead (Some ''123456789012'') ''a'' ''secret'' = Inr stored \<and>
     Decrypt sample_aead ''a'' stored = Inr ''secret'' \<and> Decrypt sample_aead ''b'' stored = Inl ErrInvalidCiphertext"
proof -
  have "trim_space ''a'' \<noteq> ''''" by code_simp
  then show ?thesis using credential_bound_to_account[OF sample_aead_ok, of "''a''" "''123456789012''" "''secret''"]
    by (auto simp: NonceSize_def)
qed

end
