(* ===== verification/Fleet.thy ===== *)
theory Fleet
  imports Health Providers
begin

text \<open>
  The accounts and credentials of the platform and everyone who writes them: fencing
  (\<^verbatim>\<open>internal/control/fencing.go\<close>), credential refresh (\<^verbatim>\<open>refresh.go\<close>, \<^verbatim>\<open>refresh_loop.go\<close>), imports
  (\<^verbatim>\<open>import.go\<close>) and the operators' actions (\<^verbatim>\<open>console_accounts.go\<close>).  The columns of the table
  \<^verbatim>\<open>accounts\<close> that judge health are the rows of \<open>Health\<close>; the others are here, under the same
  keys.  A statement or transaction is a function on the tables, with whether it fails as an
  argument; a nil pool fails like a lost one.  What other transactions do between two statements
  of a refresh is an argument too.
\<close>

section \<open>Tables\<close>

record fleet_row =
  fl_provider :: string
  fl_group :: string
  fl_source_system :: string
  fl_source_id :: string
  fl_fence_epoch :: int
  fl_credential_id :: "string option"
  fl_base_url :: string
  fl_proxy :: string
  fl_profile :: string
  fl_limits :: string
  fl_quota :: string
  fl_capabilities :: string
  fl_updated_at :: time

record credential_row =
  cr_kind :: string
  cr_encrypted_secret :: string
  cr_expires_at :: "time option"
  cr_version :: int

record account_action =
  aa_account_id :: string
  aa_action :: string
  aa_reason :: string
  aa_operator :: string
  aa_fence_epoch :: int

record fleet =
  ft_health :: account_table
  ft_rows :: "(string, fleet_row) gomap"
  ft_credentials :: "(string, credential_row) gomap"
  ft_actions :: "account_action list"
  ft_locks :: "int list"

datatype fleet_error = FleetFault | NoRows | ErrFenceLost | InvalidContract | ForeignID

definition put_row :: "string \<Rightarrow> fleet_row \<Rightarrow> fleet \<Rightarrow> fleet" where
  "put_row aid r db = db\<lparr>ft_rows := AList.update aid r (ft_rows db)\<rparr>"

definition put_credential :: "string \<Rightarrow> credential_row \<Rightarrow> fleet \<Rightarrow> fleet" where
  "put_credential aid c db = db\<lparr>ft_credentials := AList.update aid c (ft_credentials db)\<rparr>"

definition put_health :: "string \<Rightarrow> account_row \<Rightarrow> fleet \<Rightarrow> fleet" where
  "put_health aid h db = db\<lparr>ft_health := AList.update aid h (ft_health db)\<rparr>"

text \<open>The row of an account at a fence epoch, which is what every fenced statement selects.\<close>

definition fenced :: "string \<Rightarrow> int \<Rightarrow> fleet \<Rightarrow> fleet_row option" where
  "fenced aid epoch db = (case map_of (ft_rows db) aid of
     None \<Rightarrow> None | Some r \<Rightarrow> if fl_fence_epoch r = epoch then Some r else None)"

section \<open>Fencing\<close>

text \<open>\<^verbatim>\<open>fence_epoch=fence_epoch+1\<close> on a \<^verbatim>\<open>BIGINT\<close>: the server refuses an overflow.\<close>

definition bump_fence :: "time \<Rightarrow> string \<Rightarrow> fleet \<Rightarrow> fleet_error + int \<times> fleet" where
  "bump_fence now aid db =
     (case map_of (ft_rows db) aid of
        None \<Rightarrow> Inl NoRows
      | Some r \<Rightarrow>
          if fl_fence_epoch r \<ge> max_int64 then Inl FleetFault
          else Inr (fl_fence_epoch r + 1,
            put_row aid (r\<lparr>fl_fence_epoch := fl_fence_epoch r + 1, fl_updated_at := now\<rparr>) db))"

definition Fencer_Acquire :: "bool \<Rightarrow> time \<Rightarrow> string \<Rightarrow> fleet \<Rightarrow> fleet_error + int \<times> fleet" where
  "Fencer_Acquire fault now aid db = (if fault then Inl FleetFault else bump_fence now aid db)"

definition UpdateCredential ::
  "bool \<Rightarrow> time \<Rightarrow> string \<Rightarrow> int \<Rightarrow> string \<Rightarrow> time option \<Rightarrow> fleet \<Rightarrow> fleet_error + fleet" where
  "UpdateCredential fault now aid epoch encrypted expiresAt db =
     (if fault then Inl FleetFault
      else case (map_of (ft_credentials db) aid, fenced aid epoch db) of
          (Some c, Some _) \<Rightarrow>
            (let db1 = put_credential aid (c\<lparr>cr_encrypted_secret := encrypted, cr_expires_at := map_option pg_time expiresAt,
                         cr_version := cr_version c + 1\<rparr>) db
             in case fenced aid epoch db1 of
                  None \<Rightarrow> Inl ErrFenceLost
                | Some r \<Rightarrow> Inr (put_row aid (r\<lparr>fl_updated_at := now\<rparr>) db1))
        | _ \<Rightarrow> Inl ErrFenceLost)"

text \<open>
  \<^verbatim>\<open>TryAcquireSingleton\<close>: a session lock of the server on a connection of its own.  The closure
  unlocks; where that fails it closes the connection, which frees the lock as well.
\<close>

definition TryAcquireSingleton :: "bool \<Rightarrow> int \<Rightarrow> fleet \<Rightarrow> fleet_error + fleet option" where
  "TryAcquireSingleton fault key db =
     (if fault then Inl FleetFault
      else if key \<in> set (ft_locks db) then Inr None
      else Inr (Some (db\<lparr>ft_locks := key # ft_locks db\<rparr>)))"

definition unlock :: "int \<Rightarrow> fleet \<Rightarrow> fleet" where
  "unlock key db = db\<lparr>ft_locks := remove1 key (ft_locks db)\<rparr>"

section \<open>The credential repository\<close>

record StoredCredential =
  st_AccountID :: string
  st_Provider :: string
  st_Platform :: string
  st_Group :: string
  st_Proxy :: string
  st_CredentialKind :: string
  st_FenceEpoch :: int
  st_EncryptedSecret :: string

definition TryLock :: "(string \<Rightarrow> int) \<Rightarrow> bool \<Rightarrow> string \<Rightarrow> fleet \<Rightarrow> fleet_error + fleet option" where
  "TryLock accountLockKey fault aid db =
     (if trim_space aid = '''' then Inl InvalidContract
      else TryAcquireSingleton fault (accountLockKey aid) db)"

definition stored_credential :: "string \<Rightarrow> int \<Rightarrow> fleet_row \<Rightarrow> account_row \<Rightarrow> credential_row \<Rightarrow> StoredCredential" where
  "stored_credential aid epoch r h c =
     \<lparr>st_AccountID = aid, st_Provider = fl_provider r, st_Platform = ah_platform h, st_Group = fl_group r, st_Proxy = fl_proxy r,
      st_CredentialKind = cr_kind c, st_FenceEpoch = epoch, st_EncryptedSecret = cr_encrypted_secret c\<rparr>"

definition read_stored :: "bool \<Rightarrow> string \<Rightarrow> int \<Rightarrow> fleet \<Rightarrow> fleet_error + StoredCredential" where
  "read_stored fault aid epoch db =
     (if fault then Inl FleetFault
      else case (fenced aid epoch db, map_of (ft_health db) aid, map_of (ft_credentials db) aid) of
          (Some r, Some h, Some c) \<Rightarrow> Inr (stored_credential aid epoch r h c)
        | _ \<Rightarrow> Inl ErrFenceLost)"

definition Acquire_credential ::
  "bool \<Rightarrow> (fleet \<Rightarrow> fleet) \<Rightarrow> bool \<Rightarrow> time \<Rightarrow> string \<Rightarrow> fleet \<Rightarrow> (fleet_error + StoredCredential) \<times> fleet" where
  "Acquire_credential fault1 between fault2 now aid db =
     (case Fencer_Acquire fault1 now aid db of
        Inl e \<Rightarrow> (Inl e, db)
      | Inr (epoch, db1) \<Rightarrow> (let db2 = between db1 in (read_stored fault2 aid epoch db2, db2)))"

definition Commit :: "bool \<Rightarrow> time \<Rightarrow> StoredCredential \<Rightarrow> string \<Rightarrow> TokenBundle option \<Rightarrow> fleet \<Rightarrow> fleet_error + fleet" where
  "Commit fault now stored encrypted bundle db =
     (case bundle of
        None \<Rightarrow> Inl InvalidContract
      | Some b \<Rightarrow> UpdateCredential fault now (st_AccountID stored) (st_FenceEpoch stored) encrypted
          (if is_zero_time (tb_ExpiresAt b) then None else Some (tb_ExpiresAt b)) db)"

definition Fail :: "bool \<Rightarrow> time \<Rightarrow> StoredCredential \<Rightarrow> error_class \<Rightarrow> fleet \<Rightarrow> fleet_error + fleet" where
  "Fail fault now stored class1 db =
     (if \<not> ErrorClass_Valid class1 \<or> class1 = ErrorOK then Inl InvalidContract
      else if fault then Inl FleetFault
      else case (fenced (st_AccountID stored) (st_FenceEpoch stored) db, map_of (ft_health db) (st_AccountID stored)) of
          (Some r, Some h) \<Rightarrow> Inr (put_row (st_AccountID stored) (r\<lparr>fl_updated_at := now\<rparr>)
            (put_health (st_AccountID stored)
              (h\<lparr>ah_status := (if class1 = ErrorAuthInvalid then ''disabled'' else ah_status h),
                 ah_last_error_class := Some class1, ah_last_error_at := Some now\<rparr>) db))
        | _ \<Rightarrow> Inl ErrFenceLost)"

section \<open>The refresh of one account\<close>

datatype refresh_error =
    RepositoryError fleet_error
  | ErrRefreshBusy
  | DecryptError cipher_error
  | DecodeError
  | ErrProviderMissing
  | ProviderFailed provider_error "fleet_error option"
  | IncompleteBundle
  | EncodeError
  | EncryptError cipher_error
  | UnlockError

text \<open>
  How the calls of one refresh go, and what others do to the tables meanwhile.  The write of the
  tokens or of the failure may run while its reply is lost.
\<close>

record refresh_env =
  rf_now :: time
  rf_lockFault :: bool
  rf_bumpFault :: bool
  rf_readFault :: bool
  rf_fail :: tx_fate
  rf_commit :: tx_fate
  rf_unlockFault :: bool
  rf_nonce :: "string option"
  rf_between :: "fleet \<Rightarrow> fleet"
  rf_during :: "fleet \<Rightarrow> fleet"

text \<open>What does not change from one refresh to the next: the cipher, the JSON codec, the registry and the lock keys.\<close>

record refresh_service =
  sv_aead :: aead
  sv_marshal :: "TokenBundle \<Rightarrow> string option"
  sv_unmarshal :: "string \<Rightarrow> TokenBundle option"
  sv_registry :: registry
  sv_lockKey :: "string \<Rightarrow> int"

definition with_proxy :: "string \<Rightarrow> TokenBundle \<Rightarrow> TokenBundle" where
  "with_proxy proxy b =
     (if proxy \<noteq> '''' \<and> (case map_of (tb_Metadata b) ''proxy'' of None \<Rightarrow> True | Some p \<Rightarrow> p = '''')
      then b\<lparr>tb_Metadata := AList.update ''proxy'' proxy (tb_Metadata b)\<rparr> else b)"

text \<open>From the stored credential to what the provider answers; no table is touched.\<close>

definition refreshed_bundle :: "refresh_service \<Rightarrow> string \<Rightarrow> StoredCredential \<Rightarrow> refresh_error + (provider_error + TokenBundle)" where
  "refreshed_bundle sv aid stored =
     (case Decrypt (sv_aead sv) aid (st_EncryptedSecret stored) of
        Inl e \<Rightarrow> Inl (DecryptError e)
      | Inr plaintext \<Rightarrow>
          (case sv_unmarshal sv plaintext of
             None \<Rightarrow> Inl DecodeError
           | Some current \<Rightarrow>
               (case GetForAuth (sv_registry sv) (st_Provider stored) (st_CredentialKind stored) of
                  None \<Rightarrow> Inl ErrProviderMissing
                | Some p \<Rightarrow> Inr (provider_RefreshOAuth p (with_proxy (st_Proxy stored) current)))))"

definition commit_refreshed ::
  "refresh_service \<Rightarrow> refresh_env \<Rightarrow> string \<Rightarrow> StoredCredential \<Rightarrow> TokenBundle \<Rightarrow> fleet \<Rightarrow> (refresh_error + TokenBundle) \<times> fleet" where
  "commit_refreshed sv env aid stored refreshed db =
     (if trim_space (tb_AccessToken refreshed) = '''' \<or> trim_space (tb_RefreshToken refreshed) = ''''
      then (Inl IncompleteBundle, db)
      else case sv_marshal sv refreshed of
          None \<Rightarrow> (Inl EncodeError, db)
        | Some plaintext \<Rightarrow>
            (case Encrypt (sv_aead sv) (rf_nonce env) aid plaintext of
               Inl e \<Rightarrow> (Inl (EncryptError e), db)
             | Inr encrypted \<Rightarrow>
                 (case commit_as (rf_commit env) FleetFault db
                         (map_sum (\<lambda>e. e) (\<lambda>db'. (db', ())) (Commit False (rf_now env) stored encrypted (Some refreshed) db)) of
                    (db', Inl e) \<Rightarrow> (Inl (RepositoryError e), db')
                  | (db', Inr _) \<Rightarrow> (if rf_unlockFault env then Inl UnlockError else Inr refreshed, db'))))"

text \<open>Under the lock: move the fence, read, ask the provider, and write the tokens or the failure.\<close>

definition refresh_body :: "refresh_service \<Rightarrow> refresh_env \<Rightarrow> string \<Rightarrow> fleet \<Rightarrow> (refresh_error + TokenBundle) \<times> fleet" where
  "refresh_body sv env aid db1 =
     (case Acquire_credential (rf_bumpFault env) (rf_between env) (rf_readFault env) (rf_now env) aid db1 of
        (Inl e, db2) \<Rightarrow> (Inl (RepositoryError e), db2)
      | (Inr stored, db2) \<Rightarrow>
          (case refreshed_bundle sv aid stored of
             Inl e \<Rightarrow> (Inl e, db2)
           | Inr answer \<Rightarrow>
               (let db3 = rf_during env db2 in
                case answer of
                  Inl err \<Rightarrow>
                    (case commit_as (rf_fail env) FleetFault db3
                            (map_sum (\<lambda>e. e) (\<lambda>db'. (db', ())) (Fail False (rf_now env) stored (ErrorClass err) db3)) of
                       (db4, Inl e) \<Rightarrow> (Inl (ProviderFailed err (Some e)), db4)
                     | (db4, Inr _) \<Rightarrow> (Inl (ProviderFailed err None), db4))
                | Inr refreshed \<Rightarrow> commit_refreshed sv env aid stored refreshed db3)))"

definition Refresh ::
  "refresh_service \<Rightarrow> refresh_env \<Rightarrow> string \<Rightarrow> fleet \<Rightarrow> (refresh_error + TokenBundle) \<times> fleet" where
  "Refresh sv env aid db =
     (case TryLock (sv_lockKey sv) (rf_lockFault env) aid db of
        Inl e \<Rightarrow> (Inl (RepositoryError e), db)
      | Inr None \<Rightarrow> (Inl ErrRefreshBusy, db)
      | Inr (Some db1) \<Rightarrow> map_prod (\<lambda>x. x) (unlock (sv_lockKey sv aid)) (refresh_body sv env aid db1))"

section \<open>The refresh loop\<close>

definition refreshBatchSize :: nat where
  "refreshBatchSize = 100"

definition refreshAhead :: duration where
  "refreshAhead = 5 * 60 * second"

definition due_refreshes :: "time \<Rightarrow> fleet \<Rightarrow> string list" where
  "due_refreshes now db =
     (let due = filter (\<lambda>(aid, c). (case map_of (ft_health db) aid of None \<Rightarrow> False | Some h \<Rightarrow> ah_status h = ''active'') \<and>
            map_of (ft_rows db) aid \<noteq> None \<and> cr_kind c = ''oauth'' \<and>
            (case cr_expires_at c of None \<Rightarrow> False | Some t \<Rightarrow> t \<le> pg_time (now + refreshAhead)))
          (ft_credentials db)
      in take refreshBatchSize (map fst (sort_key (\<lambda>(aid, c). case cr_expires_at c of None \<Rightarrow> 0 | Some t \<Rightarrow> t) due)))"

fun refresh_all ::
  "refresh_service \<Rightarrow> (string \<Rightarrow> refresh_env) \<Rightarrow> string list \<Rightarrow> fleet \<Rightarrow> (string \<times> refresh_error) list \<times> fleet" where
  "refresh_all sv env [] db = ([], db)"
| "refresh_all sv env (aid # aids) db =
     (case Refresh sv (env aid) aid db of
        (res, db1) \<Rightarrow>
          (case refresh_all sv env aids db1 of
             (errs, db2) \<Rightarrow>
               ((case res of Inl e \<Rightarrow> if e = ErrRefreshBusy then errs else (aid, e) # errs | Inr _ \<Rightarrow> errs), db2)))"

definition RefreshLoop_RunOnce ::
  "refresh_service \<Rightarrow> (string \<Rightarrow> refresh_env) \<Rightarrow> bool \<Rightarrow> time \<Rightarrow> fleet \<Rightarrow> (fleet_error + (string \<times> refresh_error) list) \<times> fleet" where
  "RefreshLoop_RunOnce sv env fault now db =
     (if fault then (Inl FleetFault, db)
      else case refresh_all sv env (due_refreshes now db) db of (errs, db') \<Rightarrow> (Inr errs, db'))"

section \<open>The operators' actions\<close>

datatype action_error = AccountNotFound | UnrestrictedNotAcknowledged | ActionFault

definition needsUnrestrictedAcknowledgement :: "string \<Rightarrow> string list \<Rightarrow> bool \<Rightarrow> bool" where
  "needsUnrestrictedAcknowledgement status capabilities acknowledged \<longleftrightarrow>
     status = ''active'' \<and> capabilities = [] \<and> \<not> acknowledged"

record accountActionResult =
  ar_AccountID :: string
  ar_Action :: string
  ar_Applied :: bool
  ar_FenceEpoch :: int

text \<open>
  \<open>change\<close> is the \<^verbatim>\<open>UPDATE\<close> of an action: the new health columns, or nothing where its \<^verbatim>\<open>WHERE\<close> fails.
  The audit row and the update are one transaction.
\<close>

definition applyAccountAction ::
  "(string \<Rightarrow> string list) \<Rightarrow> bool \<Rightarrow> time \<Rightarrow> string \<Rightarrow> string \<Rightarrow> string \<Rightarrow> string \<Rightarrow> (account_row \<Rightarrow> account_row option) \<Rightarrow>
   (string list \<Rightarrow> bool) \<Rightarrow> fleet \<Rightarrow> (action_error + accountActionResult) \<times> fleet"
where
  "applyAccountAction decodeStringArray fault now aid action reason who change refuses db =
     (if aid = '''' then (Inl AccountNotFound, db)
      else if fault then (Inl ActionFault, db)
      else case (map_of (ft_rows db) aid, map_of (ft_health db) aid) of
          (Some r, Some h) \<Rightarrow>
            if refuses (decodeStringArray (fl_capabilities r)) then (Inl UnrestrictedNotAcknowledged, db)
            else (case change h of
                None \<Rightarrow> (Inr \<lparr>ar_AccountID = aid, ar_Action = action, ar_Applied = False, ar_FenceEpoch = fl_fence_epoch r\<rparr>, db)
              | Some h' \<Rightarrow>
                  (case bump_fence now aid (put_health aid h' db) of
                     Inl _ \<Rightarrow> (Inl ActionFault, db)
                   | Inr (epoch, db1) \<Rightarrow>
                       (Inr \<lparr>ar_AccountID = aid, ar_Action = action, ar_Applied = True, ar_FenceEpoch = epoch\<rparr>,
                        db1\<lparr>ft_actions := ft_actions db1 @ [\<lparr>aa_account_id = aid, aa_action = action, aa_reason = reason,
                          aa_operator = who, aa_fence_epoch = epoch\<rparr>]\<rparr>)))
        | _ \<Rightarrow> (Inl AccountNotFound, db))"

definition action_status :: "(action_error + accountActionResult) \<times> fleet \<Rightarrow> int \<times> accountActionResult option \<times> fleet" where
  "action_status r =
     (case r of
        (Inl AccountNotFound, db) \<Rightarrow> (404, None, db)
      | (Inl UnrestrictedNotAcknowledged, db) \<Rightarrow> (409, None, db)
      | (Inl ActionFault, db) \<Rightarrow> (500, None, db)
      | (Inr result, db) \<Rightarrow> (200, Some result, db))"

record status_body =
  sb_Status :: string
  sb_Reason :: string
  sb_AllowUnrestricted :: bool

definition change_status :: "string \<Rightarrow> account_row \<Rightarrow> account_row option" where
  "change_status status h = (if ah_status h \<noteq> status then Some (h\<lparr>ah_status := status\<rparr>) else None)"

definition handleAccountStatus ::
  "(string \<Rightarrow> string list) \<Rightarrow> bool \<Rightarrow> bool \<Rightarrow> time \<Rightarrow> string \<Rightarrow> status_body option \<Rightarrow> string \<Rightarrow> fleet \<Rightarrow>
   int \<times> accountActionResult option \<times> fleet"
where
  "handleAccountStatus decodeStringArray db_nil fault now path_id body who db =
     (if db_nil then (503, None, db)
      else case body of
          None \<Rightarrow> (400, None, db)
        | Some b \<Rightarrow>
            (let aid = trim_space path_id; status = trim_space (go_lower (sb_Status b)); reason = trim_space (sb_Reason b) in
             if status \<noteq> ''active'' \<and> status \<noteq> ''disabled'' then (400, None, db)
             else if reason = '''' then (400, None, db)
             else action_status (applyAccountAction decodeStringArray fault now aid (''set_status:'' @ status) reason who
               (change_status status)
               (\<lambda>capabilities. needsUnrestrictedAcknowledgement status capabilities (sb_AllowUnrestricted b)) db)))"

text \<open>An optional reason: absent is spelt out, and it is cut at 500 bytes.\<close>

definition consoleReason :: "string \<Rightarrow> string" where
  "consoleReason raw =
     (let reason = trim_space raw in
      if reason = '''' then ''not given'' else if length reason > 500 then take 500 reason else reason)"

definition clear_cooldown :: "account_row \<Rightarrow> account_row option" where
  "clear_cooldown h =
     (if ah_cooldown_until h \<noteq> None \<or> ah_consecutive_failures h > 0
      then Some (h\<lparr>ah_cooldown_until := None, ah_consecutive_failures := 0\<rparr>) else None)"

definition handleClearCooldown ::
  "(string \<Rightarrow> string list) \<Rightarrow> bool \<Rightarrow> bool \<Rightarrow> time \<Rightarrow> string \<Rightarrow> string \<Rightarrow> string \<Rightarrow> fleet \<Rightarrow> int \<times> accountActionResult option \<times> fleet" where
  "handleClearCooldown decodeStringArray db_nil fault now path_id raw who db =
     (if db_nil then (503, None, db)
      else action_status (applyAccountAction decodeStringArray fault now (trim_space path_id) ''clear_cooldown''
             (consoleReason raw) who clear_cooldown (\<lambda>_. False) db))"

definition clear_excluded :: "account_row \<Rightarrow> account_row option" where
  "clear_excluded h = (if ah_excluded_models h \<noteq> [] then Some (h\<lparr>ah_excluded_models := []\<rparr>) else None)"

definition handleClearExcludedModels ::
  "(string \<Rightarrow> string list) \<Rightarrow> bool \<Rightarrow> bool \<Rightarrow> time \<Rightarrow> string \<Rightarrow> string \<Rightarrow> string \<Rightarrow> fleet \<Rightarrow> int \<times> accountActionResult option \<times> fleet" where
  "handleClearExcludedModels decodeStringArray db_nil fault now path_id raw who db =
     (if db_nil then (503, None, db)
      else action_status (applyAccountAction decodeStringArray fault now (trim_space path_id) ''clear_excluded_models''
             (consoleReason raw) who clear_excluded (\<lambda>_. False) db))"

section \<open>Imports\<close>

datatype import_error =
    MissingField
  | IdentifierTooLarge
  | UnsupportedAuthMode
  | ImportProviderMissing
  | AuthorizeFailed provider_error
  | EmptyBundle
  | ImportEncode
  | ImportEncrypt cipher_error
  | GroupTooLarge
  | ProfileFailed provider_error
  | ImportBusy
  | SaveFailed fleet_error
  | ImportUnlock

definition importedAccountID :: "(string \<Rightarrow> string) \<Rightarrow> string \<Rightarrow> string \<Rightarrow> string" where
  "importedAccountID sha256_hex sourceSystem sourceID =
     ''account-'' @ take 32 (sha256_hex (sourceSystem @ [CHR 0x00] @ sourceID))"

definition source_account :: "string \<Rightarrow> string \<Rightarrow> fleet \<Rightarrow> (string \<times> fleet_row) option" where
  "source_account system sid db = find (\<lambda>(aid, r). fl_source_system r = system \<and> fl_source_id r = sid) (ft_rows db)"

record ImportRecord =
  im_Request :: ImportRequest
  im_Account :: Account
  im_EncryptedSecret :: string

text \<open>
  \<^verbatim>\<open>INSERT INTO accounts ... ON CONFLICT (source_system,source_id) DO UPDATE ... RETURNING id,fence_epoch\<close>.
  A new row has the defaults of the table; an existing one keeps its ID, its error and cooldown
  columns and its quota, and moves its fence.  An ID taken by another source violates the key.
\<close>

definition upsert_account :: "string \<Rightarrow> string \<Rightarrow> time \<Rightarrow> ImportRecord \<Rightarrow> fleet \<Rightarrow> fleet_error + (string \<times> int) \<times> fleet" where
  "upsert_account profile limits now rec1 db =
     (let a = im_Account rec1; req = im_Request rec1 in
      case source_account (ir_SourceSystem req) (ir_SourceID req) db of
        None \<Rightarrow>
          if map_of (ft_rows db) (ac_ID a) \<noteq> None then Inl FleetFault
          else Inr ((ac_ID a, 0),
            put_row (ac_ID a) \<lparr>fl_provider = ac_Provider a, fl_group = ac_Group a, fl_source_system = ir_SourceSystem req,
              fl_source_id = ir_SourceID req, fl_fence_epoch = 0, fl_credential_id = None, fl_base_url = pf_BaseURL (ac_Profile a),
              fl_proxy = pf_Proxy (ac_Profile a), fl_profile = profile, fl_limits = limits, fl_quota = ''{\"items\":[]}'',
              fl_capabilities = ''[]'', fl_updated_at = now\<rparr>
            (put_health (ac_ID a) \<lparr>ah_platform = ac_Platform a, ah_status = ''active'', ah_last_error_class = None,
              ah_last_error_at = None, ah_consecutive_failures = 0, ah_cooldown_until = None, ah_excluded_models = []\<rparr> db))
      | Some (aid, r) \<Rightarrow>
          (case map_of (ft_health db) aid of
             None \<Rightarrow> Inl FleetFault
           | Some h \<Rightarrow>
               if fl_fence_epoch r \<ge> max_int64 then Inl FleetFault
               else Inr ((aid, fl_fence_epoch r + 1),
                 put_row aid (r\<lparr>fl_provider := ac_Provider a, fl_group := ac_Group a, fl_base_url := pf_BaseURL (ac_Profile a),
                   fl_proxy := pf_Proxy (ac_Profile a), fl_profile := profile, fl_limits := limits,
                   fl_fence_epoch := fl_fence_epoch r + 1, fl_updated_at := now\<rparr>)
                 (put_health aid (h\<lparr>ah_platform := ac_Platform a, ah_status := ''active''\<rparr>) db))))"

definition upsert_credential :: "string \<Rightarrow> string \<Rightarrow> string \<Rightarrow> time option \<Rightarrow> fleet \<Rightarrow> int \<times> fleet" where
  "upsert_credential aid kind encrypted expiresAt db =
     (let version = (case map_of (ft_credentials db) aid of None \<Rightarrow> 0 | Some c \<Rightarrow> cr_version c + 1)
      in (version, put_credential aid \<lparr>cr_kind = kind, cr_encrypted_secret = encrypted,
            cr_expires_at = map_option pg_time expiresAt, cr_version = version\<rparr> db))"

definition Save ::
  "(UpstreamProfile \<Rightarrow> string option) \<Rightarrow> (AccountLimits \<Rightarrow> string option) \<Rightarrow> bool \<Rightarrow> time \<Rightarrow> ImportRecord \<Rightarrow> fleet \<Rightarrow>
   fleet_error + (string \<times> int \<times> int) \<times> fleet"
where
  "Save marshalProfile marshalLimits fault now rec1 db =
     (let a = im_Account rec1 in
      case (marshalProfile (ac_Profile a), marshalLimits (WithDefaults (ac_Limits a))) of
        (Some profile, Some limits) \<Rightarrow>
          if fault then Inl FleetFault
          else (case upsert_account profile limits now rec1 db of
              Inl e \<Rightarrow> Inl e
            | Inr ((aid, epoch), db1) \<Rightarrow>
                if aid \<noteq> ac_ID a then Inl ForeignID
                else
                  (let expiresAt = (if is_zero_time (cred_ExpiresAt (ac_Credential a)) then None else Some (cred_ExpiresAt (ac_Credential a)));
                       (version, db2) = upsert_credential aid (cred_Kind (ac_Credential a)) (im_EncryptedSecret rec1) expiresAt db1
                   in case fenced aid epoch db2 of
                        None \<Rightarrow> Inl ErrFenceLost
                      | Some r \<Rightarrow> Inr ((aid, epoch, version),
                          put_row aid (r\<lparr>fl_credential_id := Some (aid @ '':credential''), fl_updated_at := now\<rparr>) db2)))
      | _ \<Rightarrow> Inl FleetFault)"

record import_env =
  ie_now :: time
  ie_lockFault :: bool
  ie_saveFault :: bool
  ie_unlockFault :: bool
  ie_nonce :: "string option"

definition import_profile :: "Provider \<Rightarrow> ImportRequest \<Rightarrow> Account \<Rightarrow> provider_error + Account" where
  "import_profile p req account0 =
     (let account1 = account0\<lparr>ac_Profile := pv_Profile p account0\<rparr>;
          proxy = trim_space (case map_of (ir_Metadata req) ''proxy'' of None \<Rightarrow> '''' | Some x \<Rightarrow> x);
          finish = (\<lambda>a. if proxy \<noteq> '''' then a\<lparr>ac_Profile := (ac_Profile a)\<lparr>pf_Proxy := proxy\<rparr>\<rparr> else a)
      in case pv_ProfileForImport p of
           None \<Rightarrow> Inr (finish account1)
         | Some f \<Rightarrow> (case f account1 req of Inl e \<Rightarrow> Inl e | Inr profile \<Rightarrow> Inr (finish (account1\<lparr>ac_Profile := profile\<rparr>))))"

definition imported_account :: "string \<Rightarrow> ImportRequest \<Rightarrow> TokenBundle \<Rightarrow> string \<Rightarrow> Account" where
  "imported_account aid req bundle grp =
     \<lparr>ac_ID = aid, ac_Provider = ir_Provider req, ac_Platform = ir_Provider req, ac_Group = grp,
      ac_Credential = \<lparr>cred_Kind = (if ir_AuthMode req = AuthModeAPIKey then ''static'' else ''oauth''),
        cred_AccessToken = tb_AccessToken bundle, cred_Proxy = '''', cred_Metadata = [],
        cred_ExpiresAt = tb_ExpiresAt bundle, cred_Version = 0\<rparr>,
      ac_Profile = \<lparr>pf_BaseURL = '''', pf_Proxy = '''', pf_Protocol = '''', pf_InferencePath = '''', pf_TLSFingerprint = '''',
        pf_UserAgent = '''', pf_ExtraHeaders = [], pf_Metadata = [], pf_WS = False\<rparr>,
      ac_Limits = WithDefaults \<lparr>lim_MaxConcurrency = 0, lim_RPM = 0, lim_StickyTTL = 0, lim_DegradePolicy = ''''\<rparr>,
      ac_Status = ''active'', ac_FenceEpoch = 0, ac_Quota = [], ac_Capabilities = [], ac_ExcludedModels = [],
      ac_UsageIntegrity = ''''\<rparr>"

text \<open>Everything before the lock: the request checked, authorized and turned into a record.\<close>

definition prepare_import ::
  "refresh_service \<Rightarrow> (string \<Rightarrow> string) \<Rightarrow> string option \<Rightarrow> ImportRequest \<Rightarrow> import_error + ImportRecord" where
  "prepare_import sv sha nonce req =
     (if \<exists>value \<in> {ir_SourceSystem req, ir_SourceID req, ir_Provider req, ir_AuthMode req}. trim_space value = '''' then Inl MissingField
      else if length (ir_SourceSystem req) > 64 \<or> length (ir_SourceID req) > 256 \<or> length (ir_Provider req) > 64 \<or>
              length (ir_AuthMode req) > 32 then Inl IdentifierTooLarge
      else if ir_AuthMode req \<notin> {AuthModeAPIKey, AuthModeOAuth, ''pkce'', ''device'', ''cli''} then Inl UnsupportedAuthMode
      else case GetForAuth (sv_registry sv) (ir_Provider req) (ir_AuthMode req) of
        None \<Rightarrow> Inl ImportProviderMissing
      | Some p \<Rightarrow>
          (case pv_Authorize p req of
             Inl e \<Rightarrow> Inl (AuthorizeFailed e)
           | Inr bundle \<Rightarrow>
               if trim_space (tb_AccessToken bundle) = '''' \<and> trim_space (tb_RefreshToken bundle) = '''' then Inl EmptyBundle
               else
                 (let aid = importedAccountID sha (ir_SourceSystem req) (ir_SourceID req);
                      grp0 = (case map_of (ir_Metadata req) ''group'' of None \<Rightarrow> '''' | Some g \<Rightarrow> g);
                      grp = (if grp0 = '''' then ''default'' else grp0)
                  in case sv_marshal sv bundle of
                       None \<Rightarrow> Inl ImportEncode
                     | Some plaintext \<Rightarrow>
                         (case Encrypt (sv_aead sv) nonce aid plaintext of
                            Inl e \<Rightarrow> Inl (ImportEncrypt e)
                          | Inr encrypted \<Rightarrow>
                              if length grp > 128 then Inl GroupTooLarge
                              else (case import_profile p req (imported_account aid req bundle grp) of
                                  Inl e \<Rightarrow> Inl (ProfileFailed e)
                                | Inr account \<Rightarrow> Inr \<lparr>im_Request = req, im_Account = account, im_EncryptedSecret = encrypted\<rparr>)))))"

definition Import ::
  "refresh_service \<Rightarrow> (string \<Rightarrow> string) \<Rightarrow> (UpstreamProfile \<Rightarrow> string option) \<Rightarrow> (AccountLimits \<Rightarrow> string option) \<Rightarrow>
   import_env \<Rightarrow> ImportRequest \<Rightarrow> fleet \<Rightarrow> (import_error + Account) \<times> fleet"
where
  "Import sv sha marshalProfile marshalLimits env req db =
     (case prepare_import sv sha (ie_nonce env) req of
        Inl e \<Rightarrow> (Inl e, db)
      | Inr rec1 \<Rightarrow>
          (let account = im_Account rec1; aid = ac_ID account in
           if ir_DryRun req then (Inr account, db)
           else case TryAcquireSingleton (ie_lockFault env) (sv_lockKey sv aid) db of
               Inl e \<Rightarrow> (Inl (SaveFailed e), db)
             | Inr None \<Rightarrow> (Inl ImportBusy, db)
             | Inr (Some db1) \<Rightarrow>
                 map_prod (\<lambda>x. x) (unlock (sv_lockKey sv aid))
                   (case Save marshalProfile marshalLimits (ie_saveFault env) (ie_now env) rec1 db1 of
                      Inl e \<Rightarrow> (Inl (SaveFailed e), db1)
                    | Inr ((aid', epoch, version), db2) \<Rightarrow>
                        (if ie_unlockFault env then Inl ImportUnlock
                         else Inr (account\<lparr>ac_ID := aid', ac_FenceEpoch := epoch,
                           ac_Credential := (ac_Credential account)\<lparr>cred_Version := version\<rparr>\<rparr>), db2))))"

section \<open>Interleavings\<close>

text \<open>
  A job is a refresh that has moved the fence of an account and not yet ended: it knows its epoch,
  and what it read once it has read.  Any number of jobs may run on one account: the lock is
  only a courtesy, since a server that restarts forgets it.  A step is one transaction of a
  job, of an import, of an operator, of the health verdicts or of the lock table.
\<close>

record job =
  jb_account :: string
  jb_epoch :: int
  jb_stored :: "StoredCredential option"

definition health_only :: "fleet \<Rightarrow> account_table \<Rightarrow> fleet" where
  "health_only db t = db\<lparr>ft_health := t\<rparr>"

inductive fleet_step :: "fleet \<times> job list \<Rightarrow> fleet \<times> job list \<Rightarrow> bool" where
  acquire: "fleet_step (db, jobs) (db', \<lparr>jb_account = aid, jb_epoch = epoch, jb_stored = None\<rparr> # jobs)"
    if "Fencer_Acquire False now aid db = Inr (epoch, db')"
| read: "fleet_step (db, js @ j # js') (db, js @ j\<lparr>jb_stored := Some stored\<rparr> # js')"
    if "jb_stored j = None" "read_stored False (jb_account j) (jb_epoch j) db = Inr stored"
| commit: "fleet_step (db, js @ j # js') (db', js @ js')"
    if "jb_stored j = Some stored" "Commit False now stored encrypted bundle db = Inr db'"
| fail: "fleet_step (db, js @ j # js') (db', js @ js')"
    if "jb_stored j = Some stored" "Fail False now stored cls db = Inr db'"
| give_up: "fleet_step (db, js @ j # js') (db, js @ js')"
| save: "fleet_step (db, jobs) (db', jobs)"
    if "Save marshalProfile marshalLimits False now rec1 db = Inr (res, db')"
| operate: "fleet_step (db, jobs) (db', jobs)"
    if "applyAccountAction decode False now aid action reason who change refuses db = (Inr res, db')"
| release: "fleet_step (db, jobs) (health_only db t, jobs)"
    if "applyReleaseAuthority r (ft_health db) = Inr t"
| thaw: "fleet_step (db, jobs) (health_only db (fst (ReleaseStarvedCooldowns now (ft_health db))), jobs)"
| locks: "fleet_step (db, jobs) (db\<lparr>ft_locks := ls\<rparr>, jobs)"

abbreviation fleet_path :: "fleet \<times> job list \<Rightarrow> fleet \<times> job list \<Rightarrow> bool" where
  "fleet_path \<equiv> fleet_step\<^sup>*\<^sup>*"

definition fresh_fleet :: fleet where
  "fresh_fleet = \<lparr>ft_health = [], ft_rows = [], ft_credentials = [], ft_actions = [], ft_locks = []\<rparr>"

abbreviation fleet_reachable :: "fleet \<times> job list \<Rightarrow> bool" where
  "fleet_reachable \<equiv> fleet_path (fresh_fleet, [])"

text \<open>The fence of an account, and the secret stored for it.\<close>

definition fence_of :: "fleet \<Rightarrow> string \<Rightarrow> int option" where
  "fence_of db aid = map_option fl_fence_epoch (map_of (ft_rows db) aid)"

definition secret_of :: "fleet \<Rightarrow> string \<Rightarrow> string option" where
  "secret_of db aid = map_option cr_encrypted_secret (map_of (ft_credentials db) aid)"

lemma fenced_iff: "fenced aid e db = Some r \<longleftrightarrow> map_of (ft_rows db) aid = Some r \<and> fl_fence_epoch r = e"
  by (auto simp: fenced_def split: option.splits)

lemma fenced_None: "fenced aid e db = None \<longleftrightarrow> fence_of db aid \<noteq> Some e"
  by (auto simp: fenced_def fence_of_def split: option.splits)

lemma put_simps [simp]:
  "ft_rows (put_row aid r db) = AList.update aid r (ft_rows db)" "ft_health (put_row aid r db) = ft_health db"
  "ft_credentials (put_row aid r db) = ft_credentials db"
  "ft_rows (put_health aid h db) = ft_rows db" "ft_health (put_health aid h db) = AList.update aid h (ft_health db)"
  "ft_credentials (put_health aid h db) = ft_credentials db"
  "ft_rows (put_credential aid c db) = ft_rows db" "ft_health (put_credential aid c db) = ft_health db"
  "ft_credentials (put_credential aid c db) = AList.update aid c (ft_credentials db)"
  by (simp_all add: put_row_def put_health_def put_credential_def)

text \<open>
  How a transaction may move an account: nothing that concerns fences or secrets, or a fence one
  up.  Only a fenced commit changes a secret without moving the fence.
\<close>

definition moves :: "fleet \<Rightarrow> fleet \<Rightarrow> string \<Rightarrow> bool" where
  "moves db db' aid \<longleftrightarrow>
     (case fence_of db aid of None \<Rightarrow> True | Some e \<Rightarrow> fence_of db' aid = Some (e + 1))"

definition keeps :: "fleet \<Rightarrow> fleet \<Rightarrow> string \<Rightarrow> bool" where
  "keeps db db' aid \<longleftrightarrow> fence_of db' aid = fence_of db aid \<and> secret_of db' aid = secret_of db aid"

lemma keepsI: "map_of (ft_rows db') aid = map_of (ft_rows db) aid \<Longrightarrow> map_of (ft_credentials db') aid = map_of (ft_credentials db) aid
    \<Longrightarrow> keeps db db' aid"
  by (simp add: keeps_def fence_of_def secret_of_def)

lemma bump_fence_Inr:
  assumes "bump_fence now aid db = Inr (e, db')"
  shows "fence_of db aid = Some (e - 1)" "fence_of db' aid = Some e" "\<And>k. k \<noteq> aid \<Longrightarrow> keeps db db' k"
    "secret_of db' = secret_of db"
  using assms by (auto simp: bump_fence_def fence_of_def secret_of_def keeps_def map_of_update fun_eq_iff split: option.splits if_splits)

lemma UpdateCredential_Inr:
  assumes "UpdateCredential fault now aid e encrypted expires db = Inr db'"
  shows "fence_of db aid = Some e" "fence_of db' aid = Some e" "secret_of db aid \<noteq> None" "secret_of db' aid = Some encrypted"
    "\<And>k. k \<noteq> aid \<Longrightarrow> keeps db db' k" "ft_health db' = ft_health db"
  using assms by (auto simp: UpdateCredential_def Let_def fenced_def fence_of_def secret_of_def keeps_def map_of_update
      split: option.splits if_splits)

lemma UpdateCredential_lost:
  "fence_of db aid \<noteq> Some e \<Longrightarrow> UpdateCredential False now aid e encrypted expires db = Inl ErrFenceLost"
  by (auto simp: UpdateCredential_def fenced_None[symmetric] split: option.split)

lemma Fail_Inr: "Fail fault now stored cls db = Inr db' \<Longrightarrow> keeps db db' k"
  by (auto simp: Fail_def fenced_def keeps_def fence_of_def secret_of_def map_of_update split: option.splits if_splits)

lemma source_account_row: "distinct (map fst (ft_rows db)) \<Longrightarrow> source_account system sid db = Some (aid, r) \<Longrightarrow> map_of (ft_rows db) aid = Some r"
  by (auto simp: source_account_def find_Some_iff intro!: map_of_is_SomeI) (metis nth_mem)

lemma upsert_account_Inr:
  assumes "upsert_account profile limits now rec1 db = Inr ((aid, e), db')" "distinct (map fst (ft_rows db))"
  shows "moves db db' aid" "fence_of db' aid = Some e" "\<And>k. k \<noteq> aid \<Longrightarrow> keeps db db' k" "distinct (map fst (ft_rows db'))"
proof -
  have "moves db db' aid \<and> fence_of db' aid = Some e \<and> (\<forall>k. k \<noteq> aid \<longrightarrow> keeps db db' k) \<and> distinct (map fst (ft_rows db'))"
  proof (cases "source_account (ir_SourceSystem (im_Request rec1)) (ir_SourceID (im_Request rec1)) db")
    case None
    then show ?thesis using assms
      by (auto simp: upsert_account_def Let_def moves_def keeps_def fence_of_def secret_of_def map_of_update distinct_update split: if_splits)
  next
    case (Some ar)
    obtain k r where ar: "ar = (k, r)" by fastforce
    then have "map_of (ft_rows db) k = Some r" using source_account_row[OF assms(2)] Some by blast
    then show ?thesis using assms Some ar
      by (auto simp: upsert_account_def Let_def moves_def keeps_def fence_of_def secret_of_def map_of_update distinct_update
          split: option.splits if_splits)
  qed
  then show "moves db db' aid" "fence_of db' aid = Some e" "\<And>k. k \<noteq> aid \<Longrightarrow> keeps db db' k" "distinct (map fst (ft_rows db'))"
    by blast+
qed

lemma Save_Inr:
  assumes save: "Save mp ml fault now rec1 db = Inr ((aid, e, version), db')" and d: "distinct (map fst (ft_rows db))"
  shows "moves db db' aid" "fence_of db' aid = Some e" "\<And>k. k \<noteq> aid \<Longrightarrow> keeps db db' k"
    "distinct (map fst (ft_rows db'))"
proof -
  have "\<exists>profile limits db1 c r. upsert_account profile limits now rec1 db = Inr ((aid, e), db1) \<and>
      fenced aid e (put_credential aid c db1) = Some r \<and>
      db' = put_row aid (r\<lparr>fl_credential_id := Some (aid @ '':credential''), fl_updated_at := now\<rparr>) (put_credential aid c db1)"
    using save unfolding Save_def Let_def upsert_credential_def by (auto split: option.splits if_splits sum.splits) blast+
  then obtain profile limits db1 c r where up: "upsert_account profile limits now rec1 db = Inr ((aid, e), db1)"
    and r: "fenced aid e (put_credential aid c db1) = Some r"
    and db': "db' = put_row aid (r\<lparr>fl_credential_id := Some (aid @ '':credential''), fl_updated_at := now\<rparr>) (put_credential aid c db1)"
    by blast
  note u = upsert_account_Inr[OF up d]
  have f: "fence_of db' k = fence_of db1 k" for k using r by (auto simp: db' fence_of_def map_of_update fenced_iff)
  show "moves db db' aid" "fence_of db' aid = Some e" using u(1,2) by (simp_all add: moves_def f split: option.splits)
  show "keeps db db' k" if "k \<noteq> aid" for k using u(3)[OF that] f that by (simp add: keeps_def secret_of_def db' map_of_update)
  show "distinct (map fst (ft_rows db'))" using u(4) by (simp add: db' distinct_update)
qed

lemma applyAccountAction_Inr:
  assumes "applyAccountAction decode fault now aid action reason who change refuses db = (Inr res, db')"
  shows "ar_Applied res \<Longrightarrow> moves db db' aid \<and> fence_of db' aid = Some (ar_FenceEpoch res)" "\<not> ar_Applied res \<Longrightarrow> db' = db"
    "\<And>k. k \<noteq> aid \<Longrightarrow> keeps db db' k" "distinct (map fst (ft_rows db)) \<Longrightarrow> distinct (map fst (ft_rows db'))"
    "fence_of db aid = None \<Longrightarrow> db' = db"
  using assms
  by (auto simp: applyAccountAction_def bump_fence_def moves_def keeps_def fence_of_def secret_of_def map_of_update distinct_update
      split: option.splits if_splits)

text \<open>The invariant: every job's epoch is its own and no fence is behind it; while the fence has not
  moved, the secret is the one the job read.\<close>

definition read_current :: "fleet \<Rightarrow> job \<Rightarrow> bool" where
  "read_current db j \<longleftrightarrow>
     (\<forall>st. jb_stored j = Some st \<longrightarrow> st_AccountID st = jb_account j \<and> st_FenceEpoch st = jb_epoch j \<and>
        (fence_of db (jb_account j) = Some (jb_epoch j) \<longrightarrow> secret_of db (jb_account j) = Some (st_EncryptedSecret st)))"

definition behind_fence :: "fleet \<Rightarrow> job \<Rightarrow> bool" where
  "behind_fence db j \<longleftrightarrow> (case fence_of db (jb_account j) of None \<Rightarrow> False | Some f \<Rightarrow> jb_epoch j \<le> f)"

abbreviation ticket :: "job \<Rightarrow> string \<times> int" where
  "ticket j \<equiv> (jb_account j, jb_epoch j)"

definition fleet_inv :: "fleet \<times> job list \<Rightarrow> bool" where
  "fleet_inv s = (case s of (db, jobs) \<Rightarrow>
     distinct (map fst (ft_rows db)) \<and> distinct (map ticket jobs) \<and>
     (\<forall>j \<in> set jobs. read_current db j \<and> behind_fence db j))"

lemma moved_jobs:
  assumes "keeps db db' (jb_account j) \<or> moves db db' (jb_account j)" "read_current db j" "behind_fence db j"
  shows "read_current db' j \<and> behind_fence db' j"
  using assms by (auto simp: read_current_def behind_fence_def keeps_def moves_def split: option.splits)

lemma fleet_inv_moved:
  assumes "fleet_inv (db, jobs)" "\<And>k. keeps db db' k \<or> moves db db' k" "distinct (map fst (ft_rows db'))"
  shows "fleet_inv (db', jobs)"
  using assms moved_jobs[of db db'] by (auto simp: fleet_inv_def)

lemma fleet_inv_rows: "fleet_inv (db, jobs) \<Longrightarrow> distinct (map fst (ft_rows db))"
  by (simp add: fleet_inv_def)

lemma fleet_inv_drop: "fleet_inv (db, js @ j # js') \<Longrightarrow> fleet_inv (db, js @ js')"
  by (auto simp: fleet_inv_def)

lemma bump_moves: "bump_fence now aid db = Inr (e, db') \<Longrightarrow> keeps db db' k \<or> moves db db' k"
  using bump_fence_Inr[of now aid db e db'] by (cases "k = aid") (auto simp: moves_def)

lemma bump_distinct: "bump_fence now aid db = Inr (e, db') \<Longrightarrow> distinct (map fst (ft_rows db)) \<Longrightarrow> distinct (map fst (ft_rows db'))"
  by (auto simp: bump_fence_def distinct_update split: option.splits if_splits)

lemma fenced_write_distinct:
  "UpdateCredential fault now aid e encrypted expires db = Inr db' \<Longrightarrow> distinct (map fst (ft_rows db)) \<Longrightarrow> distinct (map fst (ft_rows db'))"
  "Fail fault now stored cls db = Inr db' \<Longrightarrow> distinct (map fst (ft_rows db)) \<Longrightarrow> distinct (map fst (ft_rows db'))"
  by (auto simp: UpdateCredential_def Fail_def Let_def distinct_update split: option.splits if_splits)

text \<open>A commit ends its job, and no other job has its epoch.\<close>

lemma fleet_inv_commit:
  assumes inv: "fleet_inv (db, js @ j # js')" and st: "jb_stored j = Some st"
    and upd: "UpdateCredential fault now (st_AccountID st) (st_FenceEpoch st) encrypted expires db = Inr db'"
  shows "fleet_inv (db', js @ js')"
proof -
  note u = UpdateCredential_Inr[OF upd]
  have st': "st_AccountID st = jb_account j" "st_FenceEpoch st = jb_epoch j"
    using inv st by (auto simp: fleet_inv_def read_current_def)
  have "read_current db' k \<and> behind_fence db' k" if k: "k \<in> set (js @ js')" for k
  proof (cases "jb_account k = jb_account j")
    case True
    have "ticket j \<notin> ticket ` set (js @ js')" using inv by (auto simp: fleet_inv_def)
    then have "jb_epoch k \<noteq> jb_epoch j" using imageI[OF k, of ticket] True by auto
    moreover have "read_current db k" "behind_fence db k" using inv k by (auto simp: fleet_inv_def)
    ultimately show ?thesis using True u(1,2) st' by (simp add: read_current_def behind_fence_def)
  next
    case False
    then show ?thesis using inv k u(5)[of "jb_account k"] st' moved_jobs[of db db' k] by (auto simp: fleet_inv_def)
  qed
  moreover have "distinct (map fst (ft_rows db'))" using inv fenced_write_distinct(1)[OF upd] by (simp add: fleet_inv_def)
  ultimately show ?thesis using inv by (auto simp: fleet_inv_def)
qed

lemma fleet_step_inv: "fleet_step s s' \<Longrightarrow> fleet_inv s \<Longrightarrow> fleet_inv s'"
proof (induction rule: fleet_step.induct)
  case (acquire now aid db epoch db' jobs)
  then have bump: "bump_fence now aid db = Inr (epoch, db')" by (simp add: Fencer_Acquire_def)
  have inv': "fleet_inv (db', jobs)"
    by (rule fleet_inv_moved[OF acquire(2) bump_moves[OF bump] bump_distinct[OF bump fleet_inv_rows[OF acquire(2)]]])
  have "jb_epoch j < epoch" if "j \<in> set jobs" "jb_account j = aid" for j
    using acquire(2) that bump_fence_Inr(1)[OF bump] by (auto simp: fleet_inv_def behind_fence_def)
  then show ?case using inv' bump_fence_Inr(2)[OF bump] by (force simp: fleet_inv_def read_current_def behind_fence_def)
next
  case (read j db stored js js')
  have "read_current db (j\<lparr>jb_stored := Some stored\<rparr>)"
    using read(2) by (auto simp: read_current_def read_stored_def stored_credential_def secret_of_def split: option.splits if_splits)
  moreover have "behind_fence db (j\<lparr>jb_stored := Some stored\<rparr>) = behind_fence db j"
    by (simp add: behind_fence_def split: option.split)
  ultimately show ?case using read(3) by (auto simp: fleet_inv_def)
next
  case (commit j stored now encrypted bd db db' js js')
  then show ?case using fleet_inv_commit[OF commit(3,1)] by (auto simp: Commit_def split: option.splits if_splits)
next
  case (fail j stored now cls db db' js js')
  have "fleet_inv (db', js @ j # js')"
    by (rule fleet_inv_moved[OF fail(3) disjI1[OF Fail_Inr[OF fail(2)]] fenced_write_distinct(2)[OF fail(2) fleet_inv_rows[OF fail(3)]]])
  then show ?case by (rule fleet_inv_drop)
next
  case (give_up db js j js')
  then show ?case by (rule fleet_inv_drop)
next
  case (save mp ml now rec1 db res db' jobs)
  obtain aid e v where res: "res = (aid, e, v)" by (cases res)
  note s = Save_Inr[OF save(1)[unfolded res] fleet_inv_rows[OF save(2)]]
  have "keeps db db' k \<or> moves db db' k" for k using s(1,3) by (cases "k = aid") blast+
  then show ?case by (rule fleet_inv_moved[OF save(2) _ s(4)])
next
  case (operate decode now aid action reason who change refuses db res db' jobs)
  note a = applyAccountAction_Inr[OF operate(1)]
  have "keeps db db' k \<or> moves db db' k" for k
    using a(1-3) by (cases "k = aid"; cases "ar_Applied res") (auto simp: keeps_def)
  then show ?case by (rule fleet_inv_moved[OF operate(2) _ a(4)[OF fleet_inv_rows[OF operate(2)]]])
next
  case (release r db t jobs)
  show ?case by (rule fleet_inv_moved[OF release(2)]) (simp_all add: keeps_def fence_of_def secret_of_def health_only_def fleet_inv_rows[OF release(2)])
next
  case (thaw db jobs now)
  show ?case by (rule fleet_inv_moved[OF thaw]) (simp_all add: keeps_def fence_of_def secret_of_def health_only_def fleet_inv_rows[OF thaw])
next
  case (locks db jobs ls)
  show ?case by (rule fleet_inv_moved[OF locks]) (simp_all add: keeps_def fence_of_def secret_of_def health_only_def fleet_inv_rows[OF locks])
qed

lemma fleet_path_inv: "fleet_path s s' \<Longrightarrow> fleet_inv s \<Longrightarrow> fleet_inv s'"
  by (induction rule: rtranclp_induct) (auto intro: fleet_step_inv)

lemma fleet_reachable_inv: "fleet_reachable s \<Longrightarrow> fleet_inv s"
  by (erule fleet_path_inv) (simp add: fleet_inv_def fresh_fleet_def)

text \<open>A fence never falls.\<close>

lemma moved_fence:
  "keeps db db' aid \<or> moves db db' aid \<Longrightarrow> fence_of db aid = Some e \<Longrightarrow> \<exists>e' \<ge> e. fence_of db' aid = Some e'"
  by (auto simp: keeps_def moves_def)

lemma fleet_step_fence:
  "fleet_step s s' \<Longrightarrow> fleet_inv s \<Longrightarrow> fence_of (fst s) aid = Some e \<Longrightarrow> \<exists>e' \<ge> e. fence_of (fst s') aid = Some e'"
proof (induction rule: fleet_step.induct)
  case (acquire now k db epoch db' jobs)
  then show ?case using moved_fence bump_moves[of now k db epoch db' aid] by (simp add: Fencer_Acquire_def)
next
  case (commit j stored now encrypted bd db db' js js')
  then have "fence_of db' aid = fence_of db aid"
    using UpdateCredential_Inr(1,2,5)[of False now "st_AccountID stored" "st_FenceEpoch stored" encrypted _ db db']
    by (cases "aid = st_AccountID stored") (auto simp: Commit_def keeps_def split: option.splits if_splits)
  then show ?case using commit by simp
next
  case (fail j stored now cls db db' js js')
  then show ?case using moved_fence[OF disjI1[OF Fail_Inr[OF fail(2)]]] by simp
next
  case (save mp ml now rec1 db res db' jobs)
  obtain k e1 v where "res = (k, e1, v)" by (cases res)
  then show ?case using save Save_Inr(1,3)[of mp ml False now rec1 db k e1 v db'] moved_fence[of db db' aid e]
    by (cases "aid = k") (auto simp: fleet_inv_def)
next
  case (operate decode now k action reason who change refuses db res db' jobs)
  note a = applyAccountAction_Inr(1-3)[OF operate(1)]
  have "keeps db db' aid \<or> moves db db' aid"
    using a by (cases "aid = k"; cases "ar_Applied res") (auto simp: keeps_def)
  then show ?case using moved_fence[of db db' aid e] operate(3) by simp
qed (auto simp: health_only_def fence_of_def)

lemma fleet_path_fence:
  "fleet_path s s' \<Longrightarrow> fleet_inv s \<Longrightarrow> fence_of (fst s) aid = Some e \<Longrightarrow> \<exists>e' \<ge> e. fence_of (fst s') aid = Some e'"
proof (induction rule: rtranclp_induct)
  case (step y z)
  then obtain e' where "e' \<ge> e" "fence_of (fst y) aid = Some e'" by blast
  then show ?case using fleet_step_fence[OF step(2) fleet_path_inv[OF step(1,4)]] by (meson order_trans)
qed auto

section \<open>What fencing gives\<close>

lemma job_stored:
  assumes "fleet_reachable (db, jobs)" "j \<in> set jobs" "jb_stored j = Some st"
  shows "st_AccountID st = jb_account j" "st_FenceEpoch st = jb_epoch j"
    "fence_of db (jb_account j) = Some (jb_epoch j) \<Longrightarrow> secret_of db (jb_account j) = Some (st_EncryptedSecret st)"
    "behind_fence db j"
  using fleet_reachable_inv[OF assms(1)] assms(2,3) by (auto simp: fleet_inv_def read_current_def)

lemma fenced_out:
  assumes "fence_of db (st_AccountID st) \<noteq> Some (st_FenceEpoch st)"
  shows "Commit False now st encrypted (Some b) db = Inl ErrFenceLost"
    and "ErrorClass_Valid cls \<Longrightarrow> cls \<noteq> ErrorOK \<Longrightarrow> Fail False now st cls db = Inl ErrFenceLost"
  using assms UpdateCredential_lost[OF assms] by (auto simp: Commit_def Fail_def fenced_None[symmetric])

lemma UpdateCredential_goes:
  assumes "fence_of db aid = Some e" "secret_of db aid \<noteq> None"
  shows "\<exists>db'. UpdateCredential False now aid e encrypted expires db = Inr db'"
  using assms by (auto simp: UpdateCredential_def Let_def fenced_def fence_of_def secret_of_def split: option.splits)

text \<open>
  C14.  No refresh overwrites a credential it did not read.  In every interleaving of refreshes,
  imports, operators' actions and health verdicts, a refresh that has read a credential commits
  exactly when the account's fence is still its own; then the stored secret is still the one the
  new tokens were obtained with, and the commit replaces it and nothing else.  Otherwise both its
  commit and its failure report are refused and change nothing.
\<close>

theorem no_lost_update:
  assumes "fleet_reachable (db, jobs)" and "j \<in> set jobs" and "jb_stored j = Some st"
  shows "(fence_of db (jb_account j) = Some (jb_epoch j) \<longrightarrow>
      (\<exists>db'. Commit False now st encrypted (Some b) db = Inr db' \<and>
         secret_of db (jb_account j) = Some (st_EncryptedSecret st) \<and> secret_of db' (jb_account j) = Some encrypted \<and>
         fence_of db' = fence_of db \<and> (\<forall>k. k \<noteq> jb_account j \<longrightarrow> secret_of db' k = secret_of db k) \<and> ft_health db' = ft_health db)) \<and>
    (fence_of db (jb_account j) \<noteq> Some (jb_epoch j) \<longrightarrow>
      Commit False now st encrypted (Some b) db = Inl ErrFenceLost \<and>
      (ErrorClass_Valid cls \<and> cls \<noteq> ErrorOK \<longrightarrow> Fail False now st cls db = Inl ErrFenceLost))"
proof (intro conjI impI)
  note st = job_stored[OF assms]
  let ?expires = "if is_zero_time (tb_ExpiresAt b) then None else Some (tb_ExpiresAt b)"
  assume own: "fence_of db (jb_account j) = Some (jb_epoch j)"
  obtain db' where upd: "UpdateCredential False now (jb_account j) (jb_epoch j) encrypted ?expires db = Inr db'"
    using UpdateCredential_goes[OF own] st(3)[OF own] by (metis option.distinct(1))
  note u = UpdateCredential_Inr[OF upd]
  have "fence_of db' k = fence_of db k" for k using u(1,2,5) by (cases "k = jb_account j") (simp_all add: keeps_def)
  then show "\<exists>db'. Commit False now st encrypted (Some b) db = Inr db' \<and>
      secret_of db (jb_account j) = Some (st_EncryptedSecret st) \<and> secret_of db' (jb_account j) = Some encrypted \<and>
      fence_of db' = fence_of db \<and> (\<forall>k. k \<noteq> jb_account j \<longrightarrow> secret_of db' k = secret_of db k) \<and> ft_health db' = ft_health db"
    using upd u st(1,2) st(3)[OF own] by (intro exI[of _ db']) (auto simp: Commit_def keeps_def)
qed (use fenced_out job_stored(1,2)[OF assms] in simp_all)

text \<open>
  C17.  An operator's decision is not overwritten.  Once an operator's action on an account has been
  applied, no refresh that was in flight on that account can write its result any more, neither
  new tokens nor a failure, whatever happens in between; the action left its audit row with the
  epoch that fences them out.
\<close>

theorem operator_decision_sticks:
  assumes "fleet_reachable (db, jobs)" and "j \<in> set jobs" and "jb_stored j = Some st"
    and "applyAccountAction decode False now (jb_account j) action reason who change refuses db = (Inr res, db')"
    and "ar_Applied res" and "fleet_path (db', jobs) (db'', jobs'')"
  shows "Commit False now2 st encrypted (Some b) db'' = Inl ErrFenceLost \<and>
    (ErrorClass_Valid cls \<and> cls \<noteq> ErrorOK \<longrightarrow> Fail False now2 st cls db'' = Inl ErrFenceLost) \<and>
    (\<exists>a \<in> set (ft_actions db'). aa_account_id a = jb_account j \<and> aa_action a = action \<and> aa_fence_epoch a > jb_epoch j)"
proof -
  note st = job_stored[OF assms(1-3)] and a = applyAccountAction_Inr[OF assms(4)]
  have "fleet_step (db, jobs) (db', jobs)" using assms(4) by (rule fleet_step.operate)
  then have inv': "fleet_inv (db', jobs)" using fleet_step_inv fleet_reachable_inv[OF assms(1)] by blast
  obtain f where f: "fence_of db (jb_account j) = Some f" "jb_epoch j \<le> f"
    using st(4) by (auto simp: behind_fence_def split: option.splits)
  then have f': "fence_of db' (jb_account j) = Some (f + 1)" "ar_FenceEpoch res = f + 1"
    using a(1)[OF assms(5)] by (auto simp: moves_def)
  obtain e where "f + 1 \<le> e" "fence_of db'' (jb_account j) = Some e"
    using fleet_path_fence[OF assms(6) inv', of "jb_account j"] f'(1) by auto
  then have "fence_of db'' (st_AccountID st) \<noteq> Some (st_FenceEpoch st)" using f(2) st(1,2) by simp
  note out = fenced_out[OF this]
  have "\<exists>a \<in> set (ft_actions db'). aa_account_id a = jb_account j \<and> aa_action a = action \<and> aa_fence_epoch a = ar_FenceEpoch res"
    using assms(4,5) by (auto simp: applyAccountAction_def split: option.splits if_splits sum.splits)
  then show ?thesis using out f(2) f'(2) by fastforce
qed

text \<open>Other transactions that leave an account and the locks alone.\<close>

definition quiet_for :: "string \<Rightarrow> (fleet \<Rightarrow> fleet) \<Rightarrow> bool" where
  "quiet_for aid f \<longleftrightarrow> (\<forall>db. map_of (ft_rows (f db)) aid = map_of (ft_rows db) aid \<and> map_of (ft_health (f db)) aid = map_of (ft_health db) aid \<and>
     map_of (ft_credentials (f db)) aid = map_of (ft_credentials db) aid \<and> ft_locks (f db) = ft_locks db)"

definition bundle_complete :: "TokenBundle \<Rightarrow> bool" where
  "bundle_complete b \<longleftrightarrow> trim_space (tb_AccessToken b) \<noteq> '''' \<and> trim_space (tb_RefreshToken b) \<noteq> ''''"

text \<open>The account is there and its provider answers with tokens that can be stored.\<close>

definition refreshable :: "refresh_service \<Rightarrow> refresh_env \<Rightarrow> string \<Rightarrow> fleet \<Rightarrow> TokenBundle \<Rightarrow> bool" where
  "refreshable sv env aid db b \<longleftrightarrow>
     (case (map_of (ft_rows db) aid, map_of (ft_health db) aid, map_of (ft_credentials db) aid) of
        (Some r, Some h, Some c) \<Rightarrow> fl_fence_epoch r < max_int64 \<and>
          refreshed_bundle sv aid (stored_credential aid (fl_fence_epoch r + 1) r h c) = Inr (Inr b) \<and> bundle_complete b \<and>
          (case sv_marshal sv b of None \<Rightarrow> False | Some p \<Rightarrow> \<not> isl (Encrypt (sv_aead sv) (rf_nonce env) aid p))
      | _ \<Rightarrow> False)"

definition faultless :: "refresh_env \<Rightarrow> bool" where
  "faultless env \<longleftrightarrow> \<not> rf_lockFault env \<and> \<not> rf_bumpFault env \<and> \<not> rf_readFault env \<and> rf_commit env = TxRuns \<and> \<not> rf_unlockFault env"

text \<open>The JSON codec reads back the bundles at hand; it replaces text that is not UTF-8.\<close>

definition codec_reads :: "TokenBundle set \<Rightarrow> refresh_service \<Rightarrow> bool" where
  "codec_reads bundles sv \<longleftrightarrow> (\<forall>b \<in> bundles. \<forall>p. sv_marshal sv b = Some p \<longrightarrow> sv_unmarshal sv p = Some b)"

definition opens_to :: "refresh_service \<Rightarrow> string \<Rightarrow> string \<Rightarrow> TokenBundle \<Rightarrow> bool" where
  "opens_to sv aid secret b \<longleftrightarrow> (\<exists>p. Decrypt (sv_aead sv) aid secret = Inr p \<and> sv_unmarshal sv p = Some b)"

text \<open>The row holds a secret of the account for the bundle, sealed anew.\<close>

definition holds_bundle :: "refresh_service \<Rightarrow> TokenBundle set \<Rightarrow> string \<Rightarrow> TokenBundle \<Rightarrow> fleet \<Rightarrow> bool" where
  "holds_bundle sv bundles aid b db \<longleftrightarrow> (\<exists>secret. secret_of db aid = Some secret \<and> (b \<in> bundles \<longrightarrow> opens_to sv aid secret b))"

text \<open>A bundle is the provider's when a credential of the account was exchanged for it.\<close>

definition provided :: "refresh_service \<Rightarrow> string \<Rightarrow> TokenBundle \<Rightarrow> bool" where
  "provided sv aid b \<longleftrightarrow> (\<exists>st. st_AccountID st = aid \<and> refreshed_bundle sv aid st = Inr (Inr b))"

lemma commit_refreshed_cases:
  assumes "commit_refreshed sv env aid st b db = (res, db')" "st_AccountID st = aid"
    and crypt: "aead_ok (additionalData ` accounts) (sv_aead sv)" "rf_nonce env = Some n" "length n = NonceSize" "codec_reads bundles sv"
  shows "(\<forall>b'. res = Inr b' \<longrightarrow> b' = b \<and> holds_bundle sv bundles aid b db') \<and>
    (\<forall>e. res = Inl e \<longrightarrow> (if e = UnlockError then holds_bundle sv bundles aid b db'
        else secret_of db' aid = secret_of db aid \<or>
          rf_commit env = TxReplyLost \<and> e = RepositoryError FleetFault \<and> holds_bundle sv bundles aid b db')) \<and>
    ft_locks db' = ft_locks db"
proof -
  have committed: "secret_of db2 aid = Some enc \<and> ft_locks db2 = ft_locks db"
    if "Commit fault now st enc (Some b) db = Inr db2" for enc fault now db2
    using that UpdateCredential_Inr(4)[of fault now aid _ enc _ db db2] assms(2)
    by (auto simp: Commit_def UpdateCredential_def Let_def put_row_def put_credential_def split: option.splits if_splits)
  have opens: "opens_to sv aid enc b"
    if "sv_marshal sv b = Some p" "Encrypt (sv_aead sv) (rf_nonce env) aid p = Inr enc" "b \<in> bundles" for p enc
    using Decrypt_Encrypt(1)[OF crypt(1,3)] that crypt(2,4) by (auto simp: opens_to_def codec_reads_def)
  show ?thesis
  proof (cases "\<exists>e. res = Inl e \<and> db' = db \<and> e \<noteq> UnlockError")
    case True
    then show ?thesis by auto
  next
    case False
    with assms(1) obtain p enc r where enc: "sv_marshal sv b = Some p" "Encrypt (sv_aead sv) (rf_nonce env) aid p = Inr enc"
      and r: "commit_as (rf_commit env) FleetFault db
          (map_sum (\<lambda>e. e) (\<lambda>db'. (db', ())) (Commit False (rf_now env) st enc (Some b) db)) = (db', r)"
      and res: "case r of Inl e \<Rightarrow> res = Inl (RepositoryError e) | Inr _ \<Rightarrow> res = (if rf_unlockFault env then Inl UnlockError else Inr b)"
      by (auto simp: commit_refreshed_def split: if_splits option.splits sum.splits prod.splits)
    from r show ?thesis
    proof (cases rule: commit_as_cases)
      case (kept e)
      then show ?thesis using res False by auto
    next
      case (moved x)
      then have c: "Commit False (rf_now env) st enc (Some b) db = Inr db'"
        by (cases "Commit False (rf_now env) st enc (Some b) db") auto
      have h: "holds_bundle sv bundles aid b db'" using committed[OF c] opens[OF enc] by (auto simp: holds_bundle_def)
      have "rf_commit env = TxReplyLost \<or> db' = db" if "r = Inl FleetFault"
        using r c that by (auto simp: commit_as_def split: tx_fate.splits if_splits)
      then show ?thesis using res moved(2) h committed[OF c] by (auto split: if_splits)
    qed
  qed
qed

lemma quietD:
  assumes "quiet_for aid f"
  shows "fence_of (f db) aid = fence_of db aid" "secret_of (f db) aid = secret_of db aid" "ft_locks (f db) = ft_locks db"
    "map_of (ft_rows (f db)) aid = map_of (ft_rows db) aid" "map_of (ft_health (f db)) aid = map_of (ft_health db) aid"
    "map_of (ft_credentials (f db)) aid = map_of (ft_credentials db) aid"
  using assms by (simp_all add: quiet_for_def fence_of_def secret_of_def)

lemma Acquire_credential_quiet:
  assumes "Acquire_credential f1 between f2 now aid db = (r, db')" "quiet_for aid between"
  shows "secret_of db' aid = secret_of db aid" "ft_locks db' = ft_locks db"
    "r = Inr st \<Longrightarrow> st_AccountID st = aid \<and> fence_of db' aid = Some (st_FenceEpoch st)"
proof -
  have locks: "ft_locks db1 = ft_locks db" if "bump_fence now aid db = Inr (e, db1)" for e db1
    using that by (auto simp: bump_fence_def put_row_def split: option.splits if_splits)
  show "secret_of db' aid = secret_of db aid" "ft_locks db' = ft_locks db"
    using assms(1) quietD[OF assms(2)] bump_fence_Inr(4)[of now aid db] locks
    by (auto simp: Acquire_credential_def Fencer_Acquire_def Let_def split: sum.splits if_splits)
  show "r = Inr st \<Longrightarrow> st_AccountID st = aid \<and> fence_of db' aid = Some (st_FenceEpoch st)"
    using assms(1) by (auto simp: Acquire_credential_def read_stored_def stored_credential_def fence_of_def fenced_iff Let_def
        split: sum.splits if_splits option.splits)
qed

lemma Acquire_credential_goes:
  assumes "map_of (ft_rows db) aid = Some r" "fl_fence_epoch r < max_int64" "map_of (ft_health db) aid = Some h"
    "map_of (ft_credentials db) aid = Some c" "quiet_for aid between"
  obtains db' where "Acquire_credential False between False now aid db = (Inr (stored_credential aid (fl_fence_epoch r + 1) r h c), db')"
proof -
  let ?r' = "r\<lparr>fl_fence_epoch := fl_fence_epoch r + 1, fl_updated_at := now\<rparr>"
  let ?db1 = "put_row aid ?r' db"
  have "Acquire_credential False between False now aid db = (Inr (stored_credential aid (fl_fence_epoch r + 1) ?r' h c), between ?db1)"
    using assms quietD[OF assms(5), of ?db1]
    by (simp add: Acquire_credential_def Fencer_Acquire_def bump_fence_def read_stored_def fenced_def map_of_update)
  then show thesis using that by (simp add: stored_credential_def)
qed

lemma Fail_keeps: "Fail fault now st cls db = Inr db' \<Longrightarrow> secret_of db' aid = secret_of db aid \<and> ft_locks db' = ft_locks db"
  using Fail_Inr[of fault now st cls db db' aid]
  by (auto simp: keeps_def Fail_def put_row_def put_health_def split: option.splits if_splits)

lemma refresh_body_cases:
  assumes body: "refresh_body sv env aid db = (res, db')"
    and crypt: "aead_ok (additionalData ` accounts) (sv_aead sv)" "rf_nonce env = Some n" "length n = NonceSize" "codec_reads bundles sv"
    and quiet: "quiet_for aid (rf_between env)" "quiet_for aid (rf_during env)"
  shows "(\<forall>b. res = Inr b \<longrightarrow> provided sv aid b \<and> holds_bundle sv bundles aid b db') \<and>
    (\<forall>e. res = Inl e \<longrightarrow> (if e = UnlockError then \<exists>b. provided sv aid b \<and> holds_bundle sv bundles aid b db'
        else secret_of db' aid = secret_of db aid \<or>
          rf_commit env = TxReplyLost \<and> e = RepositoryError FleetFault \<and> (\<exists>b. provided sv aid b \<and> holds_bundle sv bundles aid b db'))) \<and>
    ft_locks db' = ft_locks db"
proof -
  obtain r db2 where acq: "Acquire_credential (rf_bumpFault env) (rf_between env) (rf_readFault env) (rf_now env) aid db = (r, db2)"
    by fastforce
  note a = Acquire_credential_quiet[OF acq quiet(1)]
  note d = quietD(2,3)[OF quiet(2), of db2]
  show ?thesis
  proof (cases r)
    case (Inl e1)
    then show ?thesis using body acq a(1,2) by (auto simp: refresh_body_def)
  next
    case (Inr st)
    note st = a(3)[OF Inr]
    show ?thesis
    proof (cases "refreshed_bundle sv aid st")
      case (Inl e1)
      then have "res = Inl e1 \<and> db' = db2" using body acq Inr by (simp add: refresh_body_def)
      moreover have "e1 \<noteq> UnlockError" using Inl by (auto simp: refreshed_bundle_def split: sum.splits option.splits)
      ultimately show ?thesis using a(1,2) by auto
    next
      case answer: (Inr ans)
      show ?thesis
      proof (cases ans)
        case (Inl err)
        then obtain e2 where "res = Inl (ProviderFailed err e2)"
          and f: "\<exists>x. commit_as (rf_fail env) FleetFault (rf_during env db2)
            (map_sum (\<lambda>e. e) (\<lambda>db'. (db', ())) (Fail False (rf_now env) st (ErrorClass err) (rf_during env db2))) = (db', x)"
          using body acq Inr answer by (auto simp: refresh_body_def Let_def split: sum.splits prod.splits)
        moreover have "secret_of db' aid = secret_of (rf_during env db2) aid \<and> ft_locks db' = ft_locks (rf_during env db2)"
        proof -
          from f obtain x where "commit_as (rf_fail env) FleetFault (rf_during env db2)
            (map_sum (\<lambda>e. e) (\<lambda>db'. (db', ())) (Fail False (rf_now env) st (ErrorClass err) (rf_during env db2))) = (db', x)" ..
          then show ?thesis
          proof (cases rule: commit_as_cases)
            case (moved y)
            then have "Fail False (rf_now env) st (ErrorClass err) (rf_during env db2) = Inr db'"
              by (cases "Fail False (rf_now env) st (ErrorClass err) (rf_during env db2)") auto
            then show ?thesis by (rule Fail_keeps)
          qed simp
        qed
        ultimately show ?thesis using a(1,2) d by auto
      next
        case ok: (Inr refreshed)
        then have c: "commit_refreshed sv env aid st refreshed (rf_during env db2) = (res, db')"
          using body acq Inr answer by (simp add: refresh_body_def Let_def)
        have "provided sv aid refreshed" using st answer ok by (auto simp: provided_def)
        with commit_refreshed_cases[OF c conjunct1[OF st] crypt] show ?thesis using a(1,2) d by auto
      qed
    qed
  qed
qed

lemma refresh_body_goes:
  assumes able: "refreshable sv env aid db b" and fine: "faultless env"
    and quiet: "quiet_for aid (rf_between env)" "quiet_for aid (rf_during env)"
  shows "fst (refresh_body sv env aid db) = Inr b"
proof -
  obtain r h c where rows: "map_of (ft_rows db) aid = Some r" "fl_fence_epoch r < max_int64" "map_of (ft_health db) aid = Some h"
    "map_of (ft_credentials db) aid = Some c"
    and ans: "refreshed_bundle sv aid (stored_credential aid (fl_fence_epoch r + 1) r h c) = Inr (Inr b)" "bundle_complete b"
    using able by (auto simp: refreshable_def split: option.splits)
  obtain p enc where enc: "sv_marshal sv b = Some p" "Encrypt (sv_aead sv) (rf_nonce env) aid p = Inr enc"
    using able by (auto simp: refreshable_def isl_def split: option.splits) (metis sum.exhaust_sel sum.collapse(2))
  let ?st = "stored_credential aid (fl_fence_epoch r + 1) r h c"
  obtain db2 where acq: "Acquire_credential False (rf_between env) False (rf_now env) aid db = (Inr ?st, db2)"
    by (rule Acquire_credential_goes[OF rows quiet(1)])
  note a = Acquire_credential_quiet[OF acq quiet(1)]
  have "fence_of (rf_during env db2) aid = Some (st_FenceEpoch ?st)" "secret_of (rf_during env db2) aid \<noteq> None" "st_AccountID ?st = aid"
    using a(1) a(3)[OF refl] quietD(1,2)[OF quiet(2), of db2] rows(4) by (auto simp: secret_of_def stored_credential_def)
  then obtain db' where "Commit False (rf_now env) ?st enc (Some b) (rf_during env db2) = Inr db'"
    using UpdateCredential_goes unfolding Commit_def by fastforce
  then show ?thesis using acq ans enc fine
    by (simp add: refresh_body_def commit_refreshed_def bundle_complete_def faultless_def Let_def commit_as_def)
qed


section \<open>A sample fleet\<close>

definition sample_bundle :: TokenBundle where
  "sample_bundle = \<lparr>tb_AccessToken = ''access'', tb_RefreshToken = ''refresh'', tb_IDToken = '''', tb_ExpiresAt = 0, tb_Scopes = [],
     tb_AccountID = '''', tb_Email = '''', tb_Metadata = []\<rparr>"

definition sample_import_request :: ImportRequest where
  "sample_import_request = \<lparr>ir_SourceSystem = ''cli'', ir_SourceID = ''1'', ir_Provider = ''codex'', ir_AuthMode = ''oauth'', ir_StaticKey = '''',
     ir_TokenBundle = Some sample_bundle, ir_Metadata = [], ir_DryRun = False\<rparr>"

definition sample_secret :: string where
  "sample_secret = formatVersion # ''123456789012'' @ ''bundle'' @ replicate Overhead CHR ''a''"

definition sample_import :: "fleet_error + (string \<times> int \<times> int) \<times> fleet" where
  "sample_import = Save (\<lambda>p. Some ''{}'') (\<lambda>l. Some ''{}'') False 0 \<lparr>im_Request = sample_import_request,
     im_Account = imported_account ''a'' sample_import_request sample_bundle ''default'', im_EncryptedSecret = sample_secret\<rparr> fresh_fleet"

definition fleet_of :: "fleet_error + 'a \<times> fleet \<Rightarrow> fleet" where
  "fleet_of r = (case r of Inl _ \<Rightarrow> fresh_fleet | Inr (_, db) \<Rightarrow> db)"

definition sample_fleet :: fleet where
  "sample_fleet = fleet_of (Fencer_Acquire False 1 ''a'' (fleet_of sample_import))"

definition sample_stored :: StoredCredential where
  "sample_stored = \<lparr>st_AccountID = ''a'', st_Provider = ''codex'', st_Platform = ''codex'', st_Group = ''default'', st_Proxy = '''',
     st_CredentialKind = ''oauth'', st_FenceEpoch = 1, st_EncryptedSecret = sample_secret\<rparr>"

definition sample_job :: job where
  "sample_job = \<lparr>jb_account = ''a'', jb_epoch = 1, jb_stored = Some sample_stored\<rparr>"

lemma sample_fleet_reachable: "fleet_reachable (sample_fleet, [sample_job])"
proof -
  have "sample_import = Inr ((''a'', 0, 0), fleet_of sample_import)" by code_simp
  then have s1: "fleet_step (fresh_fleet, []) (fleet_of sample_import, [])"
    unfolding sample_import_def by (rule fleet_step.save)
  have "Fencer_Acquire False 1 ''a'' (fleet_of sample_import) = Inr (1, sample_fleet)" by code_simp
  then have s2: "fleet_step (fleet_of sample_import, []) (sample_fleet, [\<lparr>jb_account = ''a'', jb_epoch = 1, jb_stored = None\<rparr>])"
    by (rule fleet_step.acquire)
  have "read_stored False ''a'' 1 sample_fleet = Inr sample_stored" by code_simp
  then have s3: "fleet_step (sample_fleet, [\<lparr>jb_account = ''a'', jb_epoch = 1, jb_stored = None\<rparr>]) (sample_fleet, [sample_job])"
    using fleet_step.read[of "\<lparr>jb_account = ''a'', jb_epoch = 1, jb_stored = None\<rparr>" sample_fleet sample_stored "[]" "[]"]
    by (simp add: sample_job_def)
  show ?thesis using s1 s2 s3 by (meson rtranclp.rtrancl_into_rtrancl rtranclp.rtrancl_refl)
qed

theorem no_lost_update_witness:
  "\<exists>db'. Commit False 2 sample_stored ''new'' (Some sample_bundle) sample_fleet = Inr db' \<and> secret_of db' ''a'' = Some ''new''"
proof -
  have "fence_of sample_fleet ''a'' = Some 1" by code_simp
  then show ?thesis
    using no_lost_update[OF sample_fleet_reachable, of sample_job sample_stored 2 "''new''" sample_bundle] by (auto simp: sample_job_def)
qed

definition sample_disable :: "(action_error + accountActionResult) \<times> fleet" where
  "sample_disable = applyAccountAction (\<lambda>_. []) False 3 ''a'' ''set_status:disabled'' ''abuse'' ''ops'' (change_status ''disabled'') (\<lambda>_. False) sample_fleet"

theorem operator_decision_sticks_witness:
  "Commit False 4 sample_stored ''new'' (Some sample_bundle) (snd sample_disable) = Inl ErrFenceLost"
proof -
  let ?res = "\<lparr>ar_AccountID = ''a'', ar_Action = ''set_status:disabled'', ar_Applied = True, ar_FenceEpoch = 2\<rparr>"
  have "fst sample_disable = Inr ?res" by code_simp
  then have "sample_disable = (Inr ?res, snd sample_disable)" by (simp add: prod_eq_iff)
  then show ?thesis
    using operator_decision_sticks[OF sample_fleet_reachable, of sample_job sample_stored "\<lambda>_. []" 3 "''set_status:disabled''" "''abuse''" "''ops''"
        "change_status ''disabled''" "\<lambda>_. False" ?res "snd sample_disable" "snd sample_disable" "[sample_job]" 4 "''new''" sample_bundle]
    by (simp add: sample_job_def sample_disable_def)
qed

definition sample_provider :: Provider where
  "sample_provider = \<lparr>pv_Kind = ''codex'', pv_AuthMode = Some AuthModeOAuth, pv_UsageIntegrity = UsageIntegrityFailover,
     pv_Authorize = (\<lambda>req. Inr sample_bundle), pv_RefreshOAuth = Some (\<lambda>b. Inr sample_bundle),
     pv_Profile = ac_Profile, pv_ProfileForImport = None, pv_Quota = (\<lambda>c. Inr None)\<rparr>"

definition sample_service :: refresh_service where
  "sample_service = \<lparr>sv_aead = sample_aead, sv_marshal = (\<lambda>b. if b = sample_bundle then Some ''bundle'' else None),
     sv_unmarshal = (\<lambda>p. if p = ''bundle'' then Some sample_bundle else None),
     sv_registry = Register sample_provider \<lparr>rg_items = [], rg_byAuth = []\<rparr>, sv_lockKey = (\<lambda>_. 7)\<rparr>"

definition sample_refresh_env :: refresh_env where
  "sample_refresh_env = \<lparr>rf_now = 5, rf_lockFault = False, rf_bumpFault = False, rf_readFault = False, rf_fail = TxRuns,
     rf_commit = TxRuns, rf_unlockFault = False, rf_nonce = Some ''123456789012'', rf_between = (\<lambda>db. db), rf_during = (\<lambda>db. db)\<rparr>"


end
