(* ===== verification/Pool.thy ===== *)
theory Pool
  imports Snapshot Fleet
begin

text \<open>
  From control's tables to the gateway's pool: \<^verbatim>\<open>internal/control/snapshot_loop.go\<close>, which reads the
  schedulable accounts of every bucket and publishes them, and \<^verbatim>\<open>BucketLoader\<close> of
  \<^verbatim>\<open>internal/gateway/run.go\<close>, which loads every registered bucket into the chooser.
\<close>

section \<open>Reading the schedulable accounts\<close>

text \<open>The JSON columns of the table \<^verbatim>\<open>accounts\<close>.\<close>

record column_codec =
  cc_profile :: "string \<Rightarrow> UpstreamProfile option"
  cc_limits :: "string \<Rightarrow> AccountLimits option"
  cc_quota :: "string \<Rightarrow> QuotaItem list option"
  cc_strings :: "string \<Rightarrow> string list option"

datatype pool_error =
    PoolFault
  | CannotDecrypt string
  | CannotDecode string
  | EpochUnreadable
  | NotPublished snapshot_error
  | NotRemoved snapshot_error

definition decodeSnapshotJSON :: "(string \<Rightarrow> 'a option) \<Rightarrow> string \<Rightarrow> 'a \<Rightarrow> 'a option" where
  "decodeSnapshotJSON unmarshal raw target = (if raw = '''' \<or> raw = ''null'' then Some target else unmarshal raw)"

definition snapshotCredentialMetadata :: "(string, string) gomap \<Rightarrow> (string, string) gomap" where
  "snapshotCredentialMetadata source =
     map (\<lambda>k. (k, trim_space (the (map_of source k))))
       (filter (\<lambda>k. case map_of source k of None \<Rightarrow> False | Some v \<Rightarrow> trim_space v \<noteq> '''')
         [''project_id'', ''profile_arn'', ''machine_id'', ''region''])"

abbreviation zero_profile :: UpstreamProfile where
  "zero_profile \<equiv> \<lparr>pf_BaseURL = '''', pf_Proxy = '''', pf_Protocol = '''', pf_InferencePath = '''', pf_TLSFingerprint = '''',
     pf_UserAgent = '''', pf_ExtraHeaders = [], pf_Metadata = [], pf_WS = False\<rparr>"

abbreviation zero_limits :: AccountLimits where
  "zero_limits \<equiv> \<lparr>lim_MaxConcurrency = 0, lim_RPM = 0, lim_StickyTTL = 0, lim_DegradePolicy = ''''\<rparr>"

definition row_profile :: "fleet_row \<Rightarrow> UpstreamProfile \<Rightarrow> UpstreamProfile" where
  "row_profile r profile0 =
     (let profile1 = (if pf_BaseURL profile0 = '''' then profile0\<lparr>pf_BaseURL := fl_base_url r\<rparr> else profile0)
      in if fl_proxy r \<noteq> '''' then profile1\<lparr>pf_Proxy := fl_proxy r\<rparr> else profile1)"

definition row_credential :: "fleet_row \<Rightarrow> credential_row \<Rightarrow> TokenBundle \<Rightarrow> Credential" where
  "row_credential r c b =
     \<lparr>cred_Kind = cr_kind c, cred_AccessToken = tb_AccessToken b, cred_Proxy = fl_proxy r,
      cred_Metadata = snapshotCredentialMetadata (tb_Metadata b),
      cred_ExpiresAt = (case cr_expires_at c of None \<Rightarrow> tb_ExpiresAt b | Some t \<Rightarrow> t), cred_Version = cr_version c\<rparr>"

definition account_of_row ::
  "column_codec \<Rightarrow> refresh_service \<Rightarrow> string \<Rightarrow> fleet_row \<Rightarrow> account_row \<Rightarrow> credential_row \<Rightarrow> pool_error + Account" where
  "account_of_row cc sv aid r h c =
     (case Decrypt (sv_aead sv) aid (cr_encrypted_secret c) of
        Inl _ \<Rightarrow> Inl (CannotDecrypt aid)
      | Inr plaintext \<Rightarrow>
          (case (sv_unmarshal sv plaintext, decodeSnapshotJSON (cc_profile cc) (fl_profile r) zero_profile,
                 decodeSnapshotJSON (cc_limits cc) (fl_limits r) zero_limits, decodeSnapshotJSON (cc_quota cc) (fl_quota r) [],
                 decodeSnapshotJSON (cc_strings cc) (fl_capabilities r) []) of
             (Some b, Some profile, Some limits, Some quota, Some capabilities) \<Rightarrow>
               Inr \<lparr>ac_ID = aid, ac_Provider = fl_provider r, ac_Platform = ah_platform h, ac_Group = fl_group r,
                 ac_Credential = row_credential r c b, ac_Profile = row_profile r profile, ac_Limits = WithDefaults limits,
                 ac_Status = ah_status h, ac_FenceEpoch = fl_fence_epoch r, ac_Quota = quota, ac_Capabilities = capabilities,
                 ac_ExcludedModels = ah_excluded_models h, ac_UsageIntegrity = ''''\<rparr>
           | _ \<Rightarrow> Inl (CannotDecode aid)))"

text \<open>
  The column \<^verbatim>\<open>excluded_models\<close> is kept decoded in the health row: control's statements only ever
  write it as a JSON array of strings, so its decoding error cannot arise.
\<close>

text \<open>The \<^verbatim>\<open>WHERE\<close> of the query: active and not cooling.\<close>

definition schedulable_row :: "time \<Rightarrow> account_row \<Rightarrow> bool" where
  "schedulable_row now h \<longleftrightarrow> ah_status h = ''active'' \<and> (case ah_cooldown_until h of None \<Rightarrow> True | Some t \<Rightarrow> t \<le> now)"

definition ListSnapshotBuckets :: "fleet \<Rightarrow> (string \<times> string) list" where
  "ListSnapshotBuckets db =
     sort (remdups (concat (map (\<lambda>(aid, r). case map_of (ft_health db) aid of None \<Rightarrow> [] | Some h \<Rightarrow> [(ah_platform h, fl_group r)])
       (ft_rows db))))"

definition snapshot_rows :: "time \<Rightarrow> string \<Rightarrow> string \<Rightarrow> fleet \<Rightarrow> (string \<times> fleet_row \<times> account_row \<times> credential_row) list" where
  "snapshot_rows now platform grp db =
     sort_key fst (concat (map (\<lambda>(aid, r).
       case (map_of (ft_health db) aid, map_of (ft_credentials db) aid) of
         (Some h, Some c) \<Rightarrow> if ah_platform h = platform \<and> fl_group r = grp \<and> schedulable_row now h then [(aid, r, h, c)] else []
       | _ \<Rightarrow> []) (ft_rows db)))"

fun accounts_of_rows ::
  "column_codec \<Rightarrow> refresh_service \<Rightarrow> (string \<times> fleet_row \<times> account_row \<times> credential_row) list \<Rightarrow> pool_error + Account list" where
  "accounts_of_rows cc sv [] = Inr []"
| "accounts_of_rows cc sv ((aid, r, h, c) # rows) =
     (case account_of_row cc sv aid r h c of
        Inl e \<Rightarrow> Inl e
      | Inr a \<Rightarrow> (case accounts_of_rows cc sv rows of Inl e \<Rightarrow> Inl e | Inr as \<Rightarrow> Inr (a # as)))"

definition ListSnapshotAccounts ::
  "column_codec \<Rightarrow> refresh_service \<Rightarrow> bool \<Rightarrow> time \<Rightarrow> string \<Rightarrow> string \<Rightarrow> fleet \<Rightarrow> pool_error + Account list" where
  "ListSnapshotAccounts cc sv fault now platform grp db =
     (if fault then Inl PoolFault else accounts_of_rows cc sv (snapshot_rows now platform grp db))"

text \<open>\<^verbatim>\<open>stampUsageIntegrity\<close>: accounts of a provider without a policy are dropped; the counters are left out.\<close>

definition stampUsageIntegrity :: "registry \<Rightarrow> Account list \<Rightarrow> Account list" where
  "stampUsageIntegrity reg accounts =
     concat (map (\<lambda>a. case UsageIntegrityFor reg (ac_Provider a) of None \<Rightarrow> [] | Some policy \<Rightarrow> [a\<lparr>ac_UsageIntegrity := policy\<rparr>]) accounts)"

section \<open>The publishing loop\<close>

definition currentSnapshotEpoch :: "(string \<Rightarrow> string) \<Rightarrow> view \<Rightarrow> string \<Rightarrow> string \<Rightarrow> pool_error + int" where
  "currentSnapshotEpoch sha v platform grp =
     (case v of (conn, rnow, s) \<Rightarrow>
        if conn \<noteq> Answered then Inl EpochUnreadable
        else case redis_get rnow (epoch_key (BucketID sha platform grp)) (sr_keys s) of
            Inl _ \<Rightarrow> Inl EpochUnreadable
          | Inr None \<Rightarrow> Inr 0
          | Inr (Some txt) \<Rightarrow>
              (case parse_int64 txt of None \<Rightarrow> Inl EpochUnreadable | Some e \<Rightarrow> if e < 0 then Inl EpochUnreadable else Inr e))"

text \<open>
  How the calls for one bucket go: the account tables as they are when its list is read, what other
  clients of Redis do before the epoch is read, before the publication, and before the registry
  entry of a bucket that is gone is removed, and the instants of the database, of this process and
  of the Redis server.
\<close>

record bucket_env =
  be_listFault :: bool
  be_tables :: "fleet \<Rightarrow> fleet"
  be_before :: "snap_redis \<Rightarrow> snap_redis"
  be_epochConn :: redis_conn
  be_between :: "snap_redis \<Rightarrow> snap_redis"
  be_publishConn :: redis_conn
  be_after :: "snap_redis \<Rightarrow> snap_redis"
  be_removeConn :: redis_conn
  be_now :: time
  be_rnow1 :: time
  be_rnow2 :: time
  be_rnow3 :: time

definition publish_bucket ::
  "snapshot_codec \<Rightarrow> (string \<Rightarrow> string) \<Rightarrow> bucket_env \<Rightarrow> string \<Rightarrow> string \<Rightarrow> Account list \<Rightarrow> snap_redis \<Rightarrow> pool_error option \<times> snap_redis" where
  "publish_bucket cd sha env platform grp accounts s0 =
     (let s = be_before env s0 in
      case currentSnapshotEpoch sha (be_epochConn env, be_rnow1 env, s) platform grp of
        Inl e \<Rightarrow> (Some e, s)
      | Inr expected \<Rightarrow>
          (case Publish cd sha (be_publishConn env) (be_now env) (be_rnow2 env) platform grp expected accounts (be_between env s) of
             (Inl e, s') \<Rightarrow> (Some (NotPublished e), s')
           | (Inr _, s') \<Rightarrow> (None, s')))"

fun publish_current ::
  "snapshot_codec \<Rightarrow> (string \<Rightarrow> string) \<Rightarrow> column_codec \<Rightarrow> refresh_service \<Rightarrow> (string \<times> string \<Rightarrow> bucket_env) \<Rightarrow> fleet \<Rightarrow>
   (string \<times> string) list \<Rightarrow> snap_redis \<Rightarrow> pool_error list \<times> snap_redis"
where
  "publish_current cd sha cc sv env db [] s = ([], s)"
| "publish_current cd sha cc sv env db ((p, g) # buckets) s =
     (let e = env (p, g);
          (failed, s1) = (case ListSnapshotAccounts cc sv (be_listFault e) (be_now e) p g (be_tables e db) of
             Inl x \<Rightarrow> (Some x, s)
           | Inr accounts \<Rightarrow> publish_bucket cd sha e p g (stampUsageIntegrity (sv_registry sv) accounts) s);
          (errs, s2) = publish_current cd sha cc sv env db buckets s1
      in (case failed of None \<Rightarrow> errs | Some x \<Rightarrow> x # errs, s2))"

text \<open>A registered bucket that is in no account row any more is published empty and forgotten.\<close>

fun publish_deleted ::
  "snapshot_codec \<Rightarrow> (string \<Rightarrow> string) \<Rightarrow> (string \<times> string \<Rightarrow> bucket_env) \<Rightarrow> (string \<times> string) list \<Rightarrow> RegisteredBucket list \<Rightarrow>
   snap_redis \<Rightarrow> pool_error list \<times> snap_redis"
where
  "publish_deleted cd sha env current [] s = ([], s)"
| "publish_deleted cd sha env current (b # registered) s =
     (let p = rb_Platform b; g = rb_Group b; e = env (p, g) in
      if p @ [CHR 0x00] @ g \<in> set (map (\<lambda>(p, g). p @ [CHR 0x00] @ g) current)
      then publish_deleted cd sha env current registered s
      else
        (let (failed, s1) = publish_bucket cd sha e p g [] s;
             (removed, s2) = (case failed of
                Some x \<Rightarrow> (Some x, s1)
              | None \<Rightarrow> (case RemoveRegisteredBucket sha (be_removeConn e) (be_rnow3 e) p g (be_after e s1) of
                   (Inl x, s') \<Rightarrow> (Some (NotRemoved x), s')
                 | (Inr _, s') \<Rightarrow> (None, s')));
             (errs, s3) = publish_deleted cd sha env current registered s2
         in (case removed of None \<Rightarrow> errs | Some x \<Rightarrow> x # errs, s3)))"

record loop_env =
  le_guardFault :: bool
  le_listFault :: bool
  le_registryConn :: redis_conn
  le_now :: time
  le_rnow :: time
  le_buckets :: "string \<times> string \<Rightarrow> bucket_env"

text \<open>
  \<^verbatim>\<open>SnapshotLoop.RunOnce\<close>: the starvation guard, then every bucket.  The errors are joined; one
  bucket's failure does not stop the others.  The context is not cancelled.
\<close>

definition SnapshotLoop_RunOnce ::
  "snapshot_codec \<Rightarrow> (string \<Rightarrow> string) \<Rightarrow> column_codec \<Rightarrow> refresh_service \<Rightarrow> loop_env \<Rightarrow> fleet \<Rightarrow> snap_redis \<Rightarrow>
   pool_error list \<times> fleet \<times> snap_redis"
where
  "SnapshotLoop_RunOnce cd sha cc sv env db s =
     (if le_guardFault env then ([PoolFault], db, s)
      else
        (let db1 = health_only db (fst (ReleaseStarvedCooldowns (le_now env) (ft_health db))) in
         if le_listFault env then ([PoolFault], db1, s)
         else
           (let buckets = ListSnapshotBuckets db1 in
            case RegisteredBuckets cd sha (le_registryConn env) (le_rnow env) s of
              Inl e \<Rightarrow> ([NotPublished e], db1, s)
            | Inr registered \<Rightarrow>
                (let (errs1, s1) = publish_current cd sha cc sv (le_buckets env) db1 buckets s;
                     (errs2, s2) = publish_deleted cd sha (le_buckets env) buckets registered s1
                 in (errs1 @ errs2, db1, s2)))))"

section \<open>The gateway's loader\<close>

record load_env =
  lo_registry :: view
  lo_views :: "string \<times> string \<Rightarrow> view \<times> view \<times> view \<times> view"
  lo_now :: time

definition load_bucket ::
  "snapshot_codec \<Rightarrow> (string \<Rightarrow> string) \<Rightarrow> load_env \<Rightarrow> RegisteredBucket \<Rightarrow> chooser \<times> snapshot_error list \<Rightarrow> chooser \<times> snapshot_error list"
where
  "load_bucket cd sha env b st =
     (case (st, lo_views env (rb_Platform b, rb_Group b)) of
        ((c, errs), (v1, v2, v3, v4)) \<Rightarrow>
          (case Load cd sha v1 v2 v3 v4 (lo_now env) (rb_Platform b) (rb_Group b) of
             Inl e \<Rightarrow> (c, errs @ [e])
           | Inr x \<Rightarrow> (ReplaceBucket (rb_Platform b) (rb_Group b) (sn_Accounts x) (sn_Epoch x) (sn_ValidUntil x) c, errs)))"

definition RefreshAll ::
  "snapshot_codec \<Rightarrow> (string \<Rightarrow> string) \<Rightarrow> load_env \<Rightarrow> chooser \<Rightarrow> snapshot_error list \<times> chooser" where
  "RefreshAll cd sha env c =
     (case lo_registry env of (conn, rnow, s) \<Rightarrow>
        case RegisteredBuckets cd sha conn rnow s of
          Inl e \<Rightarrow> ([e], c)
        | Inr registered \<Rightarrow>
            (let wanted = map (\<lambda>b. (rb_Platform b, rb_Group b)) registered;
                 (c1, errs) = fold (load_bucket cd sha env) registered (c, []);
                 c2 = fold (\<lambda>(p, g) c. if (p, g) \<in> set wanted then c else RemoveBucket p g c) (Buckets c1) c1
             in (errs, c2)))"

section \<open>What a run publishes\<close>

text \<open>The accounts of a bucket that may be scheduled, by the tables.\<close>

definition fleet_schedulable :: "registry \<Rightarrow> time \<Rightarrow> fleet \<Rightarrow> string \<Rightarrow> string \<Rightarrow> string set" where
  "fleet_schedulable reg now db platform grp =
     {aid. \<exists>r h c. map_of (ft_rows db) aid = Some r \<and> map_of (ft_health db) aid = Some h \<and> map_of (ft_credentials db) aid = Some c \<and>
        ah_platform h = platform \<and> fl_group r = grp \<and> ah_status h = ''active'' \<and>
        (case ah_cooldown_until h of None \<Rightarrow> True | Some t \<Rightarrow> t \<le> now) \<and> UsageIntegrityFor reg (fl_provider r) \<noteq> None}"

lemma account_of_row_Inr:
  "account_of_row cc sv aid r h c = Inr a \<Longrightarrow>
     ac_ID a = aid \<and> ac_Provider a = fl_provider r \<and> ac_Platform a = ah_platform h \<and> ac_Group a = fl_group r \<and>
     ac_Status a = ah_status h \<and> ac_FenceEpoch a = fl_fence_epoch r \<and> cred_Version (ac_Credential a) = cr_version c"
  by (auto simp: account_of_row_def row_credential_def split: sum.splits option.splits)

lemma accounts_of_rows_Inr:
  assumes "accounts_of_rows cc sv rows = Inr as"
  shows "map ac_ID as = map fst rows" "map ac_Provider as = map (fl_provider \<circ> fst \<circ> snd) rows"
  using assms
proof (induction rows arbitrary: as)
  case (Cons row rows)
  obtain aid r h c where row: "row = (aid, r, h, c)" by (cases row) auto
  { case 1 then show ?case using Cons.IH(1) account_of_row_Inr by (fastforce simp: row split: sum.splits) }
  { case 2 then show ?case using Cons.IH(2) account_of_row_Inr by (fastforce simp: row split: sum.splits) }
qed simp_all

lemma snapshot_rows_set:
  assumes "distinct (map fst (ft_rows db))"
  shows "(aid, r, h, c) \<in> set (snapshot_rows now platform grp db) \<longleftrightarrow>
    map_of (ft_rows db) aid = Some r \<and> map_of (ft_health db) aid = Some h \<and> map_of (ft_credentials db) aid = Some c \<and>
    ah_platform h = platform \<and> fl_group r = grp \<and> schedulable_row now h"
  using assms by (auto simp: snapshot_rows_def map_of_eq_Some_iff split: option.splits if_splits)

lemma snapshot_rows_distinct:
  assumes "distinct (map fst (ft_rows db))"
  shows "distinct (map fst (snapshot_rows now platform grp db))"
proof -
  define f where "f = (\<lambda>(aid, r :: fleet_row). case (map_of (ft_health db) aid, map_of (ft_credentials db) aid) of
     (Some h, Some c) \<Rightarrow> if ah_platform h = platform \<and> fl_group r = grp \<and> schedulable_row now h then [(aid, r, h, c)] else []
   | _ \<Rightarrow> [])"
  have one: "map fst (f x) = [] \<or> map fst (f x) = [fst x]" for x by (cases x) (auto simp: f_def split: option.splits)
  define g where "g rows = map fst (concat (map f rows))" for rows
  have g: "g [] = []" "g (x # rows) = map fst (f x) @ g rows" for x rows by (simp_all add: g_def)
  have "set (g rows) \<subseteq> set (map fst rows) \<and> (distinct (map fst rows) \<longrightarrow> distinct (g rows))" for rows
  proof (induction rows)
    case (Cons x rows)
    then show ?case using one[of x] unfolding g(2) by auto
  qed (simp add: g(1))
  then have "distinct (g (ft_rows db))" using assms by blast
  then have "distinct (map fst (concat (map f (ft_rows db))))" by (simp only: g_def)
  then have "distinct (map fst (sort_key fst (concat (map f (ft_rows db)))))" by (simp only: distinct_map distinct_sort set_sort)
  then show ?thesis by (simp only: snapshot_rows_def f_def)
qed

lemma stamp_Cons:
  "stampUsageIntegrity reg (a # as) =
     (case UsageIntegrityFor reg (ac_Provider a) of None \<Rightarrow> [] | Some policy \<Rightarrow> [a\<lparr>ac_UsageIntegrity := policy\<rparr>]) @ stampUsageIntegrity reg as"
  "stampUsageIntegrity reg [] = []"
  by (simp_all add: stampUsageIntegrity_def)

lemma stamped_ids:
  "ac_ID ` set (stampUsageIntegrity reg as) = ac_ID ` {a \<in> set as. UsageIntegrityFor reg (ac_Provider a) \<noteq> None}"
proof (induction as)
  case (Cons a as)
  show ?case
  proof (cases "UsageIntegrityFor reg (ac_Provider a)")
    case None
    then have "{b \<in> set (a # as). UsageIntegrityFor reg (ac_Provider b) \<noteq> None} = {b \<in> set as. UsageIntegrityFor reg (ac_Provider b) \<noteq> None}" by auto
    with None show ?thesis by (simp only: stamp_Cons option.case append_Nil Cons)
  next
    case (Some p)
    then have "{b \<in> set (a # as). UsageIntegrityFor reg (ac_Provider b) \<noteq> None} = insert a {b \<in> set as. UsageIntegrityFor reg (ac_Provider b) \<noteq> None}"
      by auto
    with Some Cons show ?thesis by (simp add: stamp_Cons)
  qed
qed (simp add: stamp_Cons)

lemma stamped_mem:
  "a \<in> set (stampUsageIntegrity reg as) \<Longrightarrow>
     \<exists>a0 \<in> set as. \<exists>policy. UsageIntegrityFor reg (ac_Provider a0) = Some policy \<and> a = a0\<lparr>ac_UsageIntegrity := policy\<rparr>"
proof (induction as)
  case (Cons b as)
  then show ?case by (cases "UsageIntegrityFor reg (ac_Provider b)") (auto simp: stamp_Cons)
qed (simp add: stamp_Cons)

lemma stamped_subset: "set (map ac_ID (stampUsageIntegrity reg as)) \<subseteq> set (map ac_ID as)"
  using stamped_ids[of reg as] by auto

lemma stamped_distinct: "distinct (map ac_ID as) \<Longrightarrow> distinct (map ac_ID (stampUsageIntegrity reg as))"
proof (induction as)
  case (Cons a as)
  then show ?case using stamped_subset[of reg as] by (auto simp: stamp_Cons split: option.split)
qed (simp add: stamp_Cons)

lemma listed_accounts:
  assumes "ListSnapshotAccounts cc sv fault now platform grp db = Inr as" "distinct (map fst (ft_rows db))"
    "''__version'' \<notin> fst ` set (ft_rows db)"
  shows "account_keys_ok (stampUsageIntegrity reg as)"
    "ac_ID ` set (stampUsageIntegrity reg as) = fleet_schedulable reg now db platform grp"
proof -
  have rows: "accounts_of_rows cc sv (snapshot_rows now platform grp db) = Inr as"
    using assms(1) by (simp add: ListSnapshotAccounts_def split: if_splits)
  note a = accounts_of_rows_Inr[OF rows]
  have "distinct (map ac_ID as)" using snapshot_rows_distinct[OF assms(2)] by (simp add: a(1))
  moreover have "''__version'' \<notin> set (map ac_ID as)"
    using assms(3) unfolding a(1) by (auto simp: snapshot_rows_set[OF assms(2)] dest!: map_of_SomeD) (metis fst_conv imageI)
  ultimately show "account_keys_ok (stampUsageIntegrity reg as)"
    using stamped_distinct[of as reg] stamped_subset[of reg as] by (auto simp: account_keys_ok_def)
  have pairs: "map (\<lambda>a. (ac_ID a, ac_Provider a)) as = map (\<lambda>(aid, r, h, c). (aid, fl_provider r)) (snapshot_rows now platform grp db)"
    using a by (auto simp: list_eq_iff_nth_eq split_def)
  have "ac_ID ` {a \<in> set as. UsageIntegrityFor reg (ac_Provider a) \<noteq> None} =
      fst ` {x \<in> set (map (\<lambda>a. (ac_ID a, ac_Provider a)) as). UsageIntegrityFor reg (snd x) \<noteq> None}" by force
  also have "\<dots> = fleet_schedulable reg now db platform grp"
  proof (intro set_eqI)
    fix aid
    have "aid \<in> fst ` {x \<in> set (map (\<lambda>a. (ac_ID a, ac_Provider a)) as). UsageIntegrityFor reg (snd x) \<noteq> None} \<longleftrightarrow>
        (\<exists>r h c. (aid, r, h, c) \<in> set (snapshot_rows now platform grp db) \<and> UsageIntegrityFor reg (fl_provider r) \<noteq> None)"
      unfolding pairs by force
    also have "\<dots> \<longleftrightarrow> aid \<in> fleet_schedulable reg now db platform grp"
      unfolding fleet_schedulable_def snapshot_rows_set[OF assms(2)] schedulable_row_def by blast
    finally show "aid \<in> fst ` {x \<in> set (map (\<lambda>a. (ac_ID a, ac_Provider a)) as). UsageIntegrityFor reg (snd x) \<noteq> None} \<longleftrightarrow>
        aid \<in> fleet_schedulable reg now db platform grp" .
  qed
  finally show "ac_ID ` set (stampUsageIntegrity reg as) = fleet_schedulable reg now db platform grp" by (simp add: stamped_ids)
qed

text \<open>
  What the tables say of one published account: every field of its row, of its health and of its
  credential, as the gateways are to see it.
\<close>

definition states_row ::
  "column_codec \<Rightarrow> refresh_service \<Rightarrow> fleet_row \<Rightarrow> account_row \<Rightarrow> credential_row \<Rightarrow> string \<Rightarrow> Account \<Rightarrow> bool" where
  "states_row cc sv r h c policy a \<longleftrightarrow>
     ac_Provider a = fl_provider r \<and> ac_Platform a = ah_platform h \<and> ac_Group a = fl_group r \<and> ac_Status a = ''active'' \<and>
     ac_FenceEpoch a = fl_fence_epoch r \<and> ac_ExcludedModels a = ah_excluded_models h \<and> ac_UsageIntegrity a = policy \<and>
     (\<exists>plaintext b. Decrypt (sv_aead sv) (ac_ID a) (cr_encrypted_secret c) = Inr plaintext \<and> sv_unmarshal sv plaintext = Some b \<and>
        cred_Kind (ac_Credential a) = cr_kind c \<and> cred_Version (ac_Credential a) = cr_version c \<and>
        cred_AccessToken (ac_Credential a) = tb_AccessToken b \<and> cred_Proxy (ac_Credential a) = fl_proxy r \<and>
        cred_ExpiresAt (ac_Credential a) = (case cr_expires_at c of None \<Rightarrow> tb_ExpiresAt b | Some t \<Rightarrow> t) \<and>
        (\<forall>k. map_of (cred_Metadata (ac_Credential a)) k =
           (if k \<in> {''project_id'', ''profile_arn'', ''machine_id'', ''region''}
            then (case map_of (tb_Metadata b) k of None \<Rightarrow> None | Some v \<Rightarrow> if trim_space v = '''' then None else Some (trim_space v))
            else None))) \<and>
     (\<exists>profile. decodeSnapshotJSON (cc_profile cc) (fl_profile r) zero_profile = Some profile \<and>
        ac_Profile a = profile\<lparr>pf_BaseURL := (if pf_BaseURL profile = '''' then fl_base_url r else pf_BaseURL profile),
          pf_Proxy := (if fl_proxy r = '''' then pf_Proxy profile else fl_proxy r)\<rparr>) \<and>
     (\<exists>limits. decodeSnapshotJSON (cc_limits cc) (fl_limits r) zero_limits = Some limits \<and> ac_Limits a = WithDefaults limits) \<and>
     decodeSnapshotJSON (cc_quota cc) (fl_quota r) [] = Some (ac_Quota a) \<and>
     decodeSnapshotJSON (cc_strings cc) (fl_capabilities r) [] = Some (ac_Capabilities a)"

text \<open>A bucket's pool, by the tables: each schedulable account once, as its rows state it, and no other.\<close>

definition pool_of_tables ::
  "column_codec \<Rightarrow> refresh_service \<Rightarrow> time \<Rightarrow> fleet \<Rightarrow> string \<Rightarrow> string \<Rightarrow> Account list \<Rightarrow> bool" where
  "pool_of_tables cc sv now db platform grp as \<longleftrightarrow>
     distinct (map ac_ID as) \<and> ac_ID ` set as = fleet_schedulable (sv_registry sv) now db platform grp \<and>
     (\<forall>a \<in> set as. \<exists>r h c policy. map_of (ft_rows db) (ac_ID a) = Some r \<and> map_of (ft_health db) (ac_ID a) = Some h \<and>
        map_of (ft_credentials db) (ac_ID a) = Some c \<and> UsageIntegrityFor (sv_registry sv) (fl_provider r) = Some policy \<and>
        states_row cc sv r h c policy a)"

lemma snapshotCredentialMetadata_of:
  "map_of (snapshotCredentialMetadata m) k =
     (if k \<in> {''project_id'', ''profile_arn'', ''machine_id'', ''region''}
      then (case map_of m k of None \<Rightarrow> None | Some v \<Rightarrow> if trim_space v = '''' then None else Some (trim_space v))
      else None)"
  by (auto simp: snapshotCredentialMetadata_def split: option.splits)

lemma account_of_row_states:
  assumes "account_of_row cc sv aid r h c = Inr a" "ah_status h = ''active''"
  shows "states_row cc sv r h c policy (a\<lparr>ac_UsageIntegrity := policy\<rparr>)"
proof -
  obtain plaintext b profile where b: "Decrypt (sv_aead sv) aid (cr_encrypted_secret c) = Inr plaintext" "sv_unmarshal sv plaintext = Some b"
    "decodeSnapshotJSON (cc_profile cc) (fl_profile r) zero_profile = Some profile" "ac_Credential a = row_credential r c b"
    "ac_Profile a = row_profile r profile"
    using assms(1) by (auto simp: account_of_row_def split: sum.splits option.splits)
  have "ac_ID a = aid" using account_of_row_Inr[OF assms(1)] by simp
  moreover have "\<exists>l. decodeSnapshotJSON (cc_limits cc) (fl_limits r) zero_limits = Some l \<and> ac_Limits a = WithDefaults l"
    "decodeSnapshotJSON (cc_quota cc) (fl_quota r) [] = Some (ac_Quota a)"
    "decodeSnapshotJSON (cc_strings cc) (fl_capabilities r) [] = Some (ac_Capabilities a)" "ac_ExcludedModels a = ah_excluded_models h"
    using assms(1) by (auto simp: account_of_row_def split: sum.splits option.splits)
  moreover have "row_profile r profile = profile\<lparr>pf_BaseURL := (if pf_BaseURL profile = '''' then fl_base_url r else pf_BaseURL profile),
      pf_Proxy := (if fl_proxy r = '''' then pf_Proxy profile else fl_proxy r)\<rparr>"
    by (simp add: row_profile_def Let_def)
  ultimately show ?thesis
    using b account_of_row_Inr[OF assms(1)] assms(2) unfolding states_row_def
    by (simp add: row_credential_def snapshotCredentialMetadata_of del: fun_upd_apply)
qed

lemma accounts_of_rows_mem:
  assumes "accounts_of_rows cc sv rows = Inr as" "a \<in> set as"
  obtains aid r h c where "(aid, r, h, c) \<in> set rows" "account_of_row cc sv aid r h c = Inr a"
proof -
  have "\<exists>aid r h c. (aid, r, h, c) \<in> set rows \<and> account_of_row cc sv aid r h c = Inr a"
    using assms
  proof (induction rows arbitrary: as)
    case (Cons row rows)
    obtain aid r h c where row: "row = (aid, r, h, c)" by (cases row) auto
    show ?case using Cons by (fastforce simp: row split: sum.splits)
  qed simp
  then show thesis using that by blast
qed

lemma listed_pool:
  assumes list: "ListSnapshotAccounts cc sv fault now platform grp db = Inr as" and keys: "distinct (map fst (ft_rows db))"
    "''__version'' \<notin> fst ` set (ft_rows db)"
  shows "pool_of_tables cc sv now db platform grp (stampUsageIntegrity (sv_registry sv) as)"
proof -
  note l = listed_accounts[OF list keys, of "sv_registry sv"]
  have rows: "accounts_of_rows cc sv (snapshot_rows now platform grp db) = Inr as"
    using list by (simp add: ListSnapshotAccounts_def split: if_splits)
  have "\<exists>r h c policy. map_of (ft_rows db) (ac_ID a) = Some r \<and> map_of (ft_health db) (ac_ID a) = Some h \<and>
        map_of (ft_credentials db) (ac_ID a) = Some c \<and> UsageIntegrityFor (sv_registry sv) (fl_provider r) = Some policy \<and>
        states_row cc sv r h c policy a" if a: "a \<in> set (stampUsageIntegrity (sv_registry sv) as)" for a
  proof -
    obtain a0 policy where a0: "a0 \<in> set as" "UsageIntegrityFor (sv_registry sv) (ac_Provider a0) = Some policy"
      "a = a0\<lparr>ac_UsageIntegrity := policy\<rparr>" using stamped_mem[OF a] by blast
    obtain aid r h c where row: "(aid, r, h, c) \<in> set (snapshot_rows now platform grp db)" "account_of_row cc sv aid r h c = Inr a0"
      using accounts_of_rows_mem[OF rows a0(1)] .
    note m = row(1)[unfolded snapshot_rows_set[OF keys(1)] schedulable_row_def]
    have "states_row cc sv r h c policy a" unfolding a0(3) by (rule account_of_row_states[OF row(2)]) (use m in simp)
    then show ?thesis using m a0(2,3) account_of_row_Inr[OF row(2)] by (intro exI[of _ r] exI[of _ h] exI[of _ c] exI[of _ policy]) simp
  qed
  then show ?thesis using l unfolding pool_of_tables_def account_keys_ok_def by simp
qed

text \<open>A bucket that carries a published list of accounts, until two minutes after \<open>T\<close>.\<close>

definition carried :: "snapshot_codec \<Rightarrow> (string \<Rightarrow> string) \<Rightarrow> time \<Rightarrow> string \<Rightarrow> string \<Rightarrow> Account list \<Rightarrow> snap_redis \<Rightarrow> bool" where
  "carried cd sha T p g as s \<longleftrightarrow>
     (\<exists>gen. gn_Bucket gen = BucketID sha p g \<and> gn_Platform gen = p \<and> gn_Group gen = g \<and> gn_Accounts gen = as \<and>
        gn_Epoch gen = gn_Version gen \<and> 0 < gn_Version gen \<and> gn_Version gen \<le> max_int64 \<and>
        holds cd sha gen (T + DataTTL * second) (sr_keys s))"

lemma carried_stays:
  assumes "carried cd sha T p g as s" "snap_inv cd sha (G, s, t)" "snap_path cd sha (G, s, t) (G', s', t')"
    "length (generations (BucketID sha p g) G') \<le> length (generations (BucketID sha p g) G)"
  shows "carried cd sha T p g as s'"
  using assms(1) snap_path_holds[OF assms(3,2)] assms(4) unfolding carried_def by fastforce

lemma no_generations: "\<forall>h \<in> set H. gn_Bucket h \<noteq> b \<Longrightarrow> length (generations b (G @ H)) \<le> length (generations b G)"
  by (simp add: generations_def)

text \<open>
  Every load from a history on, whatever others do between its commands, as long as nobody publishes
  the bucket again and it ends half a second before the instant \<open>e\<close>: it succeeds, is fresh, and
  its accounts satisfy \<open>P\<close>.
\<close>

definition loads_until ::
  "snapshot_codec \<Rightarrow> (string \<Rightarrow> string) \<Rightarrow> snap_history \<Rightarrow> time \<Rightarrow> string \<times> string \<Rightarrow> (Account list \<Rightarrow> bool) \<Rightarrow> bool" where
  "loads_until cd sha h e b P \<longleftrightarrow>
     (\<forall>G1 s1 t1 G2 s2 t2 G3 s3 t3 G4 s4 t4 now.
        snap_path cd sha h (G1, s1, t1) \<and> snap_path cd sha (G1, s1, t1) (G2, s2, t2) \<and> snap_path cd sha (G2, s2, t2) (G3, s3, t3) \<and>
        snap_path cd sha (G3, s3, t3) (G4, s4, t4) \<and> t4 + 500 * 1000000 \<le> e \<and>
        length (generations (BucketID sha (fst b) (snd b)) G4) \<le> length (generations (BucketID sha (fst b) (snd b)) (fst h)) \<longrightarrow>
        (\<exists>x. Load cd sha (Answered, t1, s1) (Answered, t2, s2) (Answered, t3, s3) (Answered, t4, s4) now (fst b) (snd b) = Inr x \<and>
           P (sn_Accounts x) \<and> now < sn_ValidUntil x))"

lemma carried_loads:
  assumes carried: "carried cd sha T p g as s" and inv: "snap_inv cd sha (G, s, t)" and codec: "codec_ok cd" and ok: "account_keys_ok as" and P: "P as"
  shows "loads_until cd sha (G, s, t) (T + DataTTL * second) (p, g) P"
  unfolding loads_until_def fst_conv snd_conv
proof (intro allI impI, elim conjE)
  fix G1 s1 t1 G2 s2 t2 G3 s3 t3 G4 s4 t4 now
  let ?b = "BucketID sha p g"
  assume paths: "snap_path cd sha (G, s, t) (G1, s1, t1)" "snap_path cd sha (G1, s1, t1) (G2, s2, t2)" "snap_path cd sha (G2, s2, t2) (G3, s3, t3)"
    "snap_path cd sha (G3, s3, t3) (G4, s4, t4)" and live: "t4 + 500 * 1000000 \<le> T + DataTTL * second"
    and only: "length (generations ?b G4) \<le> length (generations ?b G)"
  have p: "snap_path cd sha (G, s, t) (G2, s2, t2)" "snap_path cd sha (G, s, t) (G3, s3, t3)" "snap_path cd sha (G, s, t) (G4, s4, t4)"
    using paths by (auto intro: rtranclp_trans)
  have len: "length (generations ?b G1) \<le> length (generations ?b G)" "length (generations ?b G2) \<le> length (generations ?b G)"
    "length (generations ?b G3) \<le> length (generations ?b G)"
    using only generations_prefix[OF paths(2), of ?b] generations_prefix[OF paths(3), of ?b] generations_prefix[OF paths(4), of ?b] by auto
  obtain gen where gen: "gn_Bucket gen = BucketID sha (gn_Platform gen) (gn_Group gen)" "gn_Platform gen = p" "gn_Group gen = g" "gn_Accounts gen = as"
    "gn_Epoch gen = gn_Version gen" "0 < gn_Version gen" "gn_Version gen \<le> max_int64" "holds cd sha gen (T + DataTTL * second) (sr_keys s)"
    using carried by (auto simp: carried_def)
  have b: "gn_Bucket gen = ?b" using gen(1-3) by simp
  note stay = snap_path_holds[where h = "(G, s, t)" and g = gen, unfolded b fst_conv snd_conv, OF _ inv gen(8)]
  have h: "holds cd sha gen (T + DataTTL * second) (sr_keys s1)" "holds cd sha gen (T + DataTTL * second) (sr_keys s2)"
    "holds cd sha gen (T + DataTTL * second) (sr_keys s3)" "holds cd sha gen (T + DataTTL * second) (sr_keys s4)"
    using stay[OF paths(1)] stay[OF p(1)] stay[OF p(2)] stay[OF p(3)] len only by simp_all
  have ok': "account_keys_ok (gn_Accounts gen)" using ok gen(4) by simp
  have "t3 \<le> t4" using snap_path_time[OF paths(4)] by simp
  then have "t3 < T + DataTTL * second" using live by simp
  from holds_load[OF codec ok' gen(1,6,7,5) h this live, of t1 t2 now]
  show "\<exists>x. Load cd sha (Answered, t1, s1) (Answered, t2, s2) (Answered, t3, s3) (Answered, t4, s4) now p g = Inr x \<and> P (sn_Accounts x) \<and> now < sn_ValidUntil x"
    using gen(2-4) P by fastforce
qed

section \<open>What other clients do while a run is under way\<close>

text \<open>
  A move of other clients between two instants: some history of publications, removals and waiting
  that publishes none of the buckets \<open>K\<close>.
\<close>

definition outside ::
  "snapshot_codec \<Rightarrow> (string \<Rightarrow> string) \<Rightarrow> string set \<Rightarrow> time \<Rightarrow> time \<Rightarrow> (snap_redis \<Rightarrow> snap_redis) \<Rightarrow> bool" where
  "outside cd sha K t t' f \<longleftrightarrow>
     (\<forall>G s t0. t0 \<le> t \<longrightarrow> (\<exists>H. snap_path cd sha (G, s, t0) (G @ H, f s, t') \<and> (\<forall>h \<in> set H. gn_Bucket h \<notin> K)))"

text \<open>The moves of a run over its buckets, one bucket after the other, each with its own instants.\<close>

fun others_move ::
  "snapshot_codec \<Rightarrow> (string \<Rightarrow> string) \<Rightarrow> string set \<Rightarrow> (string \<times> string \<Rightarrow> bucket_env) \<Rightarrow> time \<Rightarrow> (string \<times> string) list \<Rightarrow> bool" where
  "others_move cd sha K env t [] = True"
| "others_move cd sha K env t (b # bs) =
     (outside cd sha K t (be_rnow1 (env b)) (be_before (env b)) \<and>
      outside cd sha K (be_rnow1 (env b)) (be_rnow2 (env b)) (be_between (env b)) \<and>
      outside cd sha K (be_rnow2 (env b)) (be_rnow3 (env b)) (be_after (env b)) \<and>
      others_move cd sha K env (be_rnow3 (env b)) bs)"

definition end_time :: "(string \<times> string \<Rightarrow> bucket_env) \<Rightarrow> time \<Rightarrow> (string \<times> string) list \<Rightarrow> time" where
  "end_time env t bs = foldl (\<lambda>_ b. be_rnow3 (env b)) t bs"

lemma end_time_append: "end_time env t (xs @ ys) = end_time env (end_time env t xs) ys"
  by (simp add: end_time_def)

lemma others_move_append:
  "others_move cd sha K env t (xs @ ys) \<longleftrightarrow> others_move cd sha K env t xs \<and> others_move cd sha K env (end_time env t xs) ys"
  by (induction xs arbitrary: t) (auto simp: end_time_def)

lemma outsideD:
  assumes "outside cd sha K t t' f" "t0 \<le> t"
  obtains H where "snap_path cd sha (G, s, t0) (G @ H, f s, t')" "\<forall>h \<in> set H. gn_Bucket h \<notin> K"
  using assms unfolding outside_def by blast

lemma outside_time: "outside cd sha K t t' f \<Longrightarrow> t \<le> t'"
  unfolding outside_def using snap_path_time by fastforce

lemma outside_idle: "t \<le> t' \<Longrightarrow> outside cd sha K t t' (\<lambda>s. s)"
  unfolding outside_def by (intro allI impI exI[of _ "[]"]) (auto intro!: r_into_rtranclp[of "snap_step cd sha"] snap_step.wait)

lemma publish_bucket_path:
  assumes inv: "snap_inv cd sha (G, s, t)" and ok: "account_keys_ok as"
    and o1: "outside cd sha K t (be_rnow1 e) (be_before e)" and o2: "outside cd sha K (be_rnow1 e) (be_rnow2 e) (be_between e)"
    and run: "publish_bucket cd sha e p g as s = (None, s')"
  shows "\<exists>H. snap_path cd sha (G, s, t) (G @ H, s', be_rnow2 e) \<and> (\<forall>h \<in> set H. gn_Bucket h \<in> K \<longrightarrow> gn_Bucket h = BucketID sha p g) \<and>
    carried cd sha (be_rnow2 e) p g as s'"
proof -
  let ?s1 = "be_before e s" and ?s2 = "be_between e (be_before e s)" and ?T = "be_rnow2 e"
  obtain expected v where pub: "Publish cd sha (be_publishConn e) (be_now e) ?T p g expected as ?s2 = (Inr v, s')"
    using run by (auto simp: publish_bucket_def Let_def split: prod.splits sum.splits)
  obtain H1 where H1: "snap_path cd sha (G, s, t) (G @ H1, ?s1, be_rnow1 e)" "\<forall>h \<in> set H1. gn_Bucket h \<notin> K"
    using outsideD[OF o1 order_refl] .
  obtain H2 where H2: "snap_path cd sha (G @ H1, ?s1, be_rnow1 e) ((G @ H1) @ H2, ?s2, ?T)" "\<forall>h \<in> set H2. gn_Bucket h \<notin> K"
    using outsideD[OF o2 order_refl] .
  let ?H = "published cd sha (be_publishConn e) (be_now e) ?T p g expected as ?s2"
  have p12: "snap_path cd sha (G, s, t) ((G @ H1) @ H2, ?s2, ?T)" using H1(1) H2(1) by (rule rtranclp_trans)
  have inv2: "snap_inv cd sha ((G @ H1) @ H2, ?s2, ?T)" using snap_path_inv[OF p12 inv] .
  have s': "s' = snd (Publish cd sha (be_publishConn e) (be_now e) ?T p g expected as ?s2)" using pub by simp
  have "snap_path cd sha ((G @ H1) @ H2, ?s2, ?T) (((G @ H1) @ H2) @ ?H, s', ?T)"
    unfolding s' by (rule r_into_rtranclp) (rule snap_step.publish[OF order_refl ok])
  with p12 have path: "snap_path cd sha (G, s, t) (G @ (H1 @ H2 @ ?H), s', ?T)" by (simp add: rtranclp_trans)
  obtain gen where gen: "?H = [gen]" "gn_Version gen = v" using Publish_Inr_published[OF inv2 ok pub] by blast
  note g = published_holds[OF inv2 ok pub gen(1)]
  have "carried cd sha ?T p g as s'" unfolding carried_def using g by (intro exI[of _ gen]) simp
  moreover have "\<forall>h \<in> set (H1 @ H2 @ ?H). gn_Bucket h \<in> K \<longrightarrow> gn_Bucket h = BucketID sha p g"
    using H1(2) H2(2) g(2) by (auto simp: gen(1))
  ultimately show ?thesis using path by blast
qed

abbreviation bucket_of :: "(string \<Rightarrow> string) \<Rightarrow> string \<times> string \<Rightarrow> string" where
  "bucket_of sha b \<equiv> BucketID sha (fst b) (snd b)"

lemma later_publications:
  assumes "carried cd sha T p g as s" "snap_inv cd sha (G, s, t)" "snap_path cd sha (G, s, t) (G @ H, s', t')"
    "\<forall>h \<in> set H. gn_Bucket h \<in> K \<longrightarrow> gn_Bucket h \<in> D" "BucketID sha p g \<in> K" "BucketID sha p g \<notin> D"
  shows "carried cd sha T p g as s'"
proof (rule carried_stays[OF assms(1-3)])
  have "\<forall>h \<in> set H. gn_Bucket h \<noteq> BucketID sha p g" using assms(4-6) by metis
  then show "length (generations (BucketID sha p g) (G @ H)) \<le> length (generations (BucketID sha p g) G)" by (rule no_generations)
qed

lemma publish_current_run:
  assumes keys: "\<And>b. distinct (map fst (ft_rows (be_tables (env b) db)))" "\<And>b. ''__version'' \<notin> fst ` set (ft_rows (be_tables (env b) db))"
  shows "snap_inv cd sha (G, s, t) \<Longrightarrow> distinct (map (bucket_of sha) buckets) \<Longrightarrow> others_move cd sha K env t buckets \<Longrightarrow>
    publish_current cd sha cc sv env db buckets s = ([], s') \<Longrightarrow>
    \<exists>H. snap_path cd sha (G, s, t) (G @ H, s', end_time env t buckets) \<and>
      (\<forall>h \<in> set H. gn_Bucket h \<in> K \<longrightarrow> gn_Bucket h \<in> bucket_of sha ` set buckets) \<and>
      (\<forall>(p, g) \<in> set buckets. bucket_of sha (p, g) \<in> K \<longrightarrow> (\<exists>as. account_keys_ok as \<and>
         pool_of_tables cc sv (be_now (env (p, g))) (be_tables (env (p, g)) db) p g as \<and> carried cd sha (be_rnow2 (env (p, g))) p g as s'))"
proof (induction buckets arbitrary: G s t)
  case Nil
  then show ?case by (intro exI[of _ "[]"]) (simp add: end_time_def)
next
  case (Cons b buckets)
  obtain p g where b: "b = (p, g)" by fastforce
  let ?e = "env (p, g)"
  obtain as s1 where as: "ListSnapshotAccounts cc sv (be_listFault ?e) (be_now ?e) p g (be_tables ?e db) = Inr as"
    and pub: "publish_bucket cd sha ?e p g (stampUsageIntegrity (sv_registry sv) as) s = (None, s1)"
    and rest: "publish_current cd sha cc sv env db buckets s1 = ([], s')"
    using Cons.prems(4) by (auto simp: b Let_def split: prod.splits sum.splits option.splits)
  note ok = listed_accounts(1)[OF as keys, of "sv_registry sv"] and pool = listed_pool[OF as keys]
  have o: "outside cd sha K t (be_rnow1 ?e) (be_before ?e)" "outside cd sha K (be_rnow1 ?e) (be_rnow2 ?e) (be_between ?e)"
    "be_rnow2 ?e \<le> be_rnow3 ?e" "others_move cd sha K env (be_rnow3 ?e) buckets"
    using Cons.prems(3) outside_time by (auto simp: b)
  obtain H1 where H1: "snap_path cd sha (G, s, t) (G @ H1, s1, be_rnow2 ?e)" "\<forall>h \<in> set H1. gn_Bucket h \<in> K \<longrightarrow> gn_Bucket h = BucketID sha p g"
    "carried cd sha (be_rnow2 ?e) p g (stampUsageIntegrity (sv_registry sv) as) s1"
    using publish_bucket_path[OF Cons.prems(1) ok o(1,2) pub] by blast
  have H1': "snap_path cd sha (G, s, t) (G @ H1, s1, be_rnow3 ?e)" using H1(1) snap_step.wait[OF o(3)] by (meson rtranclp.rtrancl_into_rtrancl)
  have inv1: "snap_inv cd sha (G @ H1, s1, be_rnow3 ?e)" using snap_path_inv[OF H1' Cons.prems(1)] .
  have d: "distinct (map (bucket_of sha) buckets)" "BucketID sha p g \<notin> bucket_of sha ` set buckets"
    using Cons.prems(2) by (simp_all add: b)
  obtain H2 where H2: "snap_path cd sha (G @ H1, s1, be_rnow3 ?e) ((G @ H1) @ H2, s', end_time env (be_rnow3 ?e) buckets)"
    "\<forall>h \<in> set H2. gn_Bucket h \<in> K \<longrightarrow> gn_Bucket h \<in> bucket_of sha ` set buckets"
    "\<forall>(p, g) \<in> set buckets. bucket_of sha (p, g) \<in> K \<longrightarrow> (\<exists>as. account_keys_ok as \<and>
       pool_of_tables cc sv (be_now (env (p, g))) (be_tables (env (p, g)) db) p g as \<and> carried cd sha (be_rnow2 (env (p, g))) p g as s')"
    using Cons.IH[OF inv1 d(1) o(4) rest] by blast
  have c: "carried cd sha (be_rnow2 ?e) p g (stampUsageIntegrity (sv_registry sv) as) s'" if "BucketID sha p g \<in> K"
    by (rule later_publications[OF H1(3) inv1 H2(1,2) that d(2)])
  have "snap_path cd sha (G, s, t) (G @ H1 @ H2, s', end_time env t (b # buckets))"
    using rtranclp_trans[OF H1' H2(1)] by (simp add: end_time_def b)
  then show ?case using c ok pool H1(2) H2(2,3) by (intro exI[of _ "H1 @ H2"]) (auto simp: b)
qed

abbreviation names_of :: "RegisteredBucket \<Rightarrow> string \<times> string" where
  "names_of b \<equiv> (rb_Platform b, rb_Group b)"

abbreviation joined :: "string \<times> string \<Rightarrow> string" where
  "joined b \<equiv> fst b @ [CHR 0x00] @ snd b"

text \<open>A registered bucket no account row is in any more.\<close>

definition gone :: "(string \<times> string) list \<Rightarrow> RegisteredBucket \<Rightarrow> bool" where
  "gone current b \<longleftrightarrow> joined (names_of b) \<notin> joined ` set current"

definition gone_buckets :: "(string \<times> string) list \<Rightarrow> RegisteredBucket list \<Rightarrow> (string \<times> string) list" where
  "gone_buckets current registered = map names_of (filter (gone current) registered)"

text \<open>The instant of the Redis server at which a run is over.\<close>

definition end_of_run :: "loop_env \<Rightarrow> fleet \<Rightarrow> RegisteredBucket list \<Rightarrow> time" where
  "end_of_run env db registered =
     end_time (le_buckets env) (le_rnow env) (ListSnapshotBuckets db @ gone_buckets (ListSnapshotBuckets db) registered)"

lemma publish_deleted_run:
  "snap_inv cd sha (G, s, t) \<Longrightarrow> distinct (map (\<lambda>b. BucketID sha (rb_Platform b) (rb_Group b)) registered) \<Longrightarrow>
    others_move cd sha K env t (gone_buckets current registered) \<Longrightarrow> publish_deleted cd sha env current registered s = ([], s') \<Longrightarrow>
    \<exists>H. snap_path cd sha (G, s, t) (G @ H, s', end_time env t (gone_buckets current registered)) \<and>
      (\<forall>h \<in> set H. gn_Bucket h \<in> K \<longrightarrow> gn_Bucket h \<in> bucket_of sha ` set (gone_buckets current registered)) \<and>
      (\<forall>b \<in> set (gone_buckets current registered). bucket_of sha b \<in> K \<longrightarrow> carried cd sha (be_rnow2 (env b)) (fst b) (snd b) [] s')"
proof (induction registered arbitrary: G s t)
  case Nil
  then show ?case by (intro exI[of _ "[]"]) (simp add: end_time_def gone_buckets_def)
next
  case (Cons b registered)
  let ?p = "rb_Platform b" and ?g = "rb_Group b" and ?e = "env (rb_Platform b, rb_Group b)"
  have d: "distinct (map (\<lambda>b. BucketID sha (rb_Platform b) (rb_Group b)) registered)"
    "BucketID sha ?p ?g \<notin> bucket_of sha ` set (gone_buckets current registered)"
    using Cons.prems(2) by (auto simp: gone_buckets_def)
  show ?case
  proof (cases "gone current b")
    case False
    then have "?p @ [CHR 0x00] @ ?g \<in> set (map (\<lambda>(p, g). p @ [CHR 0x00] @ g) current)" by (auto simp: gone_def split_def image_iff)
    then have run: "publish_deleted cd sha env current registered s = ([], s')" using Cons.prems(4) by (simp add: Let_def)
    have same: "gone_buckets current (b # registered) = gone_buckets current registered" using False by (simp add: gone_buckets_def)
    show ?thesis unfolding same by (rule Cons.IH[OF Cons.prems(1) d(1) Cons.prems(3)[unfolded same] run])
  next
    case True
    then have new: "?p @ [CHR 0x00] @ ?g \<notin> set (map (\<lambda>(p, g). p @ [CHR 0x00] @ g) current)" by (auto simp: gone_def split_def)
    have gs: "gone_buckets current (b # registered) = (?p, ?g) # gone_buckets current registered" using True by (simp add: gone_buckets_def)
    obtain s1 where pub: "publish_bucket cd sha ?e ?p ?g [] s = (None, s1)"
      and rest: "publish_deleted cd sha env current registered
        (snd (RemoveRegisteredBucket sha (be_removeConn ?e) (be_rnow3 ?e) ?p ?g (be_after ?e s1))) = ([], s')"
      using Cons.prems(4) new by (auto simp: Let_def split: prod.splits option.splits sum.splits)
    have o: "outside cd sha K t (be_rnow1 ?e) (be_before ?e)" "outside cd sha K (be_rnow1 ?e) (be_rnow2 ?e) (be_between ?e)"
      "outside cd sha K (be_rnow2 ?e) (be_rnow3 ?e) (be_after ?e)" "others_move cd sha K env (be_rnow3 ?e) (gone_buckets current registered)"
      using Cons.prems(3) by (auto simp: gs)
    let ?s2 = "be_after ?e s1"
    let ?s3 = "snd (RemoveRegisteredBucket sha (be_removeConn ?e) (be_rnow3 ?e) ?p ?g ?s2)"
    obtain H1 where H1: "snap_path cd sha (G, s, t) (G @ H1, s1, be_rnow2 ?e)" "\<forall>h \<in> set H1. gn_Bucket h \<in> K \<longrightarrow> gn_Bucket h = BucketID sha ?p ?g"
      "carried cd sha (be_rnow2 ?e) ?p ?g [] s1"
      using publish_bucket_path[OF Cons.prems(1) _ o(1,2) pub] by (auto simp: account_keys_ok_def)
    have inv1: "snap_inv cd sha (G @ H1, s1, be_rnow2 ?e)" using snap_path_inv[OF H1(1) Cons.prems(1)] .
    obtain H2 where H2: "snap_path cd sha (G @ H1, s1, be_rnow2 ?e) ((G @ H1) @ H2, ?s2, be_rnow3 ?e)" "\<forall>h \<in> set H2. gn_Bucket h \<notin> K"
      using outsideD[OF o(3) order_refl] .
    have H3: "snap_path cd sha (G @ H1, s1, be_rnow2 ?e) ((G @ H1) @ H2, ?s3, be_rnow3 ?e)"
      using H2(1) snap_step.remove[OF order_refl] by (rule rtranclp.rtrancl_into_rtrancl)
    have inv3: "snap_inv cd sha ((G @ H1) @ H2, ?s3, be_rnow3 ?e)" using snap_path_inv[OF H3 inv1] .
    obtain H4 where H4: "snap_path cd sha ((G @ H1) @ H2, ?s3, be_rnow3 ?e)
        (((G @ H1) @ H2) @ H4, s', end_time env (be_rnow3 ?e) (gone_buckets current registered))"
      "\<forall>h \<in> set H4. gn_Bucket h \<in> K \<longrightarrow> gn_Bucket h \<in> bucket_of sha ` set (gone_buckets current registered)"
      "\<forall>b \<in> set (gone_buckets current registered). bucket_of sha b \<in> K \<longrightarrow> carried cd sha (be_rnow2 (env b)) (fst b) (snd b) [] s'"
      using Cons.IH[OF inv3 d(1) o(4) rest] by blast
    have c: "carried cd sha (be_rnow2 ?e) ?p ?g [] s'" if "BucketID sha ?p ?g \<in> K"
    proof -
      have "carried cd sha (be_rnow2 ?e) ?p ?g [] ?s3"
        by (rule later_publications[OF H1(3) inv1 H3 _ that, of "{}"]) (use H2(2) in auto)
      then show ?thesis by (rule later_publications[OF _ inv3 H4(1,2) that d(2)])
    qed
    have "snap_path cd sha (G, s, t) (G @ H1 @ H2 @ H4, s', end_time env t (gone_buckets current (b # registered)))"
      using rtranclp_trans[OF rtranclp_trans[OF H1(1) H3] H4(1)] by (simp add: end_time_def gs)
    then show ?thesis using c H1(2) H2(2) H4(2,3) by (intro exI[of _ "H1 @ H2 @ H4"]) (auto simp: gs)
  qed
qed

lemma registered_distinct:
  assumes "RegisteredBuckets cd sha conn rnow s = Inr registered" "registry_ok (sr_keys s)"
  shows "distinct (map (\<lambda>b. BucketID sha (rb_Platform b) (rb_Group b)) registered)"
proof -
  obtain vals where v: "redis_hgetall rnow BucketRegistryKey (sr_keys s) = Inr vals" "\<forall>kv \<in> set vals. registered_bucket cd sha kv \<noteq> None"
    "registered = sort_key (\<lambda>b. (rb_Platform b, rb_Group b)) (map (the \<circ> registered_bucket cd sha) vals)"
    using assms(1) by (auto simp: RegisteredBuckets_def split: if_splits sum.splits)
  have dv: "distinct (map fst vals)"
    using v(1) by (cases rule: registry_okE[OF assms(2)]) (auto simp: redis_hgetall_def redis_live_def)
  have "BucketID sha (rb_Platform b) (rb_Group b) = fst kv" if "registered_bucket cd sha kv = Some b" for kv b
    using that by (auto simp: registered_bucket_def split: option.splits list.splits if_splits)
  then have eq: "map (\<lambda>b. BucketID sha (rb_Platform b) (rb_Group b)) (map (the \<circ> registered_bucket cd sha) vals) = map fst vals"
    using v(2) by fastforce
  have "distinct (map (\<lambda>b. BucketID sha (rb_Platform b) (rb_Group b)) (map (the \<circ> registered_bucket cd sha) vals))"
    unfolding eq by (rule dv)
  then show ?thesis unfolding v(3) by (simp only: distinct_map distinct_sort set_sort)
qed

text \<open>
  C15.  What a snapshot run publishes is what the tables say.  Take a run of control's snapshot loop
  that reported no error, each bucket published at its own instant, while other clients of Redis
  publish and remove what they like between its commands, except that nobody else publishes the
  buckets \<open>K\<close>.  Then every load of such a bucket of the account table that ends at least half a
  second before two minutes have passed since its publication, and before anybody publishes it
  again, is fresh and gives exactly the accounts of the bucket that, when the run read the tables,
  were active, not cooling, had a credential, and whose provider states how missing usage is treated:
  each once, with the token, profile, limits, quota, capabilities, exclusions and fence its rows
  state and the provider's policy.  So an account an operator disabled, or one in cooldown, is gone
  from the pool with the next run.  A registered bucket whose last account row is gone loads empty.
  (The identifiers of the run's buckets are assumed to differ: they are SHA-256 digests.)
\<close>

theorem snapshot_run_publishes_fleet:
  assumes codec: "codec_ok cd" and reach: "snap_reachable cd sha (G, s, t)" and t: "t \<le> le_rnow env"
    and run: "SnapshotLoop_RunOnce cd sha cc sv env db s = ([], db', s')"
    and reg: "RegisteredBuckets cd sha (le_registryConn env) (le_rnow env) s = Inr registered"
    and keys: "\<And>b. distinct (map fst (ft_rows (be_tables (le_buckets env b) db')))"
      "\<And>b. ''__version'' \<notin> fst ` set (ft_rows (be_tables (le_buckets env b) db'))"
    and inj: "inj_on (bucket_of sha) (set (ListSnapshotBuckets db') \<union> names_of ` set registered)"
    and others: "others_move cd sha K (le_buckets env) (le_rnow env) (ListSnapshotBuckets db' @ gone_buckets (ListSnapshotBuckets db') registered)"
  shows "\<exists>H. snap_path cd sha (G, s, t) (G @ H, s', end_of_run env db' registered) \<and>
    (\<forall>(p, g) \<in> set (ListSnapshotBuckets db'). BucketID sha p g \<in> K \<longrightarrow>
       loads_until cd sha (G @ H, s', end_of_run env db' registered) (be_rnow2 (le_buckets env (p, g)) + DataTTL * second) (p, g)
         (pool_of_tables cc sv (be_now (le_buckets env (p, g))) (be_tables (le_buckets env (p, g)) db') p g)) \<and>
    (\<forall>(p, g) \<in> set (gone_buckets (ListSnapshotBuckets db') registered). BucketID sha p g \<in> K \<longrightarrow>
       loads_until cd sha (G @ H, s', end_of_run env db' registered) (be_rnow2 (le_buckets env (p, g)) + DataTTL * second) (p, g) (\<lambda>as. as = []))"
proof -
  let ?B = "ListSnapshotBuckets db'" and ?env = "le_buckets env"
  let ?R = "gone_buckets ?B registered" and ?t1 = "end_time ?env (le_rnow env) ?B"
  let ?t2 = "end_time ?env ?t1 ?R"
  obtain s1 where cur: "publish_current cd sha cc sv ?env db' ?B s = ([], s1)"
    and del: "publish_deleted cd sha ?env ?B registered s1 = ([], s')"
    using run reg by (auto simp: SnapshotLoop_RunOnce_def Let_def split: if_splits prod.splits)
  have w: "snap_path cd sha (G, s, t) (G, s, le_rnow env)" using snap_step.wait[OF t] by auto
  have inv: "snap_inv cd sha (G, s, le_rnow env)" using snap_path_inv[OF w snap_reachable_inv[OF reach]] .
  have "distinct ?B" by (simp add: ListSnapshotBuckets_def)
  then have dB: "distinct (map (bucket_of sha) ?B)" using inj by (simp add: distinct_map inj_on_Un)
  have o: "others_move cd sha K ?env (le_rnow env) ?B" "others_move cd sha K ?env ?t1 ?R" using others by (simp_all add: others_move_append)
  from publish_current_run[OF keys inv dB o(1) cur] obtain H1 where H1: "snap_path cd sha (G, s, le_rnow env) (G @ H1, s1, ?t1)"
    "\<forall>(p, g) \<in> set ?B. bucket_of sha (p, g) \<in> K \<longrightarrow> (\<exists>as. account_keys_ok as \<and>
       pool_of_tables cc sv (be_now (?env (p, g))) (be_tables (?env (p, g)) db') p g as \<and> carried cd sha (be_rnow2 (?env (p, g))) p g as s1)" by blast
  have inv1: "snap_inv cd sha (G @ H1, s1, ?t1)" using snap_path_inv[OF H1(1) inv] .
  have "registry_ok (sr_keys s)" using inv by (simp add: snap_inv_def)
  note dR = registered_distinct[OF reg this]
  from publish_deleted_run[OF inv1 dR o(2) del] obtain H2 where H2: "snap_path cd sha (G @ H1, s1, ?t1) ((G @ H1) @ H2, s', ?t2)"
    "\<forall>h \<in> set H2. gn_Bucket h \<in> K \<longrightarrow> gn_Bucket h \<in> bucket_of sha ` set ?R"
    "\<forall>b \<in> set ?R. bucket_of sha b \<in> K \<longrightarrow> carried cd sha (be_rnow2 (?env b)) (fst b) (snd b) [] s'" by blast
  have inv2: "snap_inv cd sha ((G @ H1) @ H2, s', ?t2)" using snap_path_inv[OF H2(1) inv1] .
  have path: "snap_path cd sha (G, s, t) ((G @ H1) @ H2, s', ?t2)" using rtranclp_trans[OF rtranclp_trans[OF w H1(1)] H2(1)] .
  have "loads_until cd sha ((G @ H1) @ H2, s', ?t2) (be_rnow2 (?env (p, g)) + DataTTL * second) (p, g)
      (pool_of_tables cc sv (be_now (?env (p, g))) (be_tables (?env (p, g)) db') p g)"
    if pg: "(p, g) \<in> set ?B" and K: "BucketID sha p g \<in> K" for p g
  proof -
    obtain as where as: "account_keys_ok as" "pool_of_tables cc sv (be_now (?env (p, g))) (be_tables (?env (p, g)) db') p g as"
      "carried cd sha (be_rnow2 (?env (p, g))) p g as s1" using H1(2) pg K by fastforce
    have "BucketID sha p g \<notin> bucket_of sha ` set ?R"
    proof
      assume "BucketID sha p g \<in> bucket_of sha ` set ?R"
      then obtain b where b: "b \<in> set registered" "gone ?B b" "BucketID sha p g = bucket_of sha (names_of b)" by (auto simp: gone_buckets_def)
      then have "(p, g) = names_of b" using inj_onD[OF inj, of "(p, g)" "names_of b"] pg by simp
      then show False using b(2) imageI[OF pg, of joined] by (simp add: gone_def)
    qed
    note c = later_publications[OF as(3) inv1 H2(1,2) K this]
    show ?thesis by (rule carried_loads[where P = "pool_of_tables cc sv (be_now (?env (p, g))) (be_tables (?env (p, g)) db') p g",
          OF c inv2 codec as(1,2)])
  qed
  moreover have "loads_until cd sha ((G @ H1) @ H2, s', ?t2) (be_rnow2 (?env (p, g)) + DataTTL * second) (p, g) (\<lambda>as. as = [])"
    if "(p, g) \<in> set ?R" "BucketID sha p g \<in> K" for p g
    by (rule carried_loads[OF _ inv2 codec]) (use H2(3) that in \<open>auto simp: account_keys_ok_def\<close>)
  ultimately show ?thesis using path by (intro exI[of _ "H1 @ H2"]) (auto simp: end_of_run_def end_time_append)
qed

section \<open>A sample run\<close>

definition sample_columns :: column_codec where
  "sample_columns = \<lparr>cc_profile = (\<lambda>_. Some zero_profile), cc_limits = (\<lambda>_. Some zero_limits), cc_quota = (\<lambda>_. Some []),
     cc_strings = (\<lambda>_. Some [])\<rparr>"

definition pool_entry :: Entry where
  "pool_entry = entry_of (\<lambda>x. x) ''codex'' ''default'' 1
     (case ListSnapshotAccounts sample_columns sample_service False 10 ''codex'' ''default'' sample_fleet of
        Inl _ \<Rightarrow> demo_account ''a'' | Inr as \<Rightarrow> hd (stampUsageIntegrity (sv_registry sample_service) as))"

definition pool_codec :: snapshot_codec where
  "pool_codec = \<lparr>sc_marshal = (\<lambda>e. if e = pool_entry then Some ''entry'' else None),
     sc_unmarshal = (\<lambda>raw. if raw = ''entry'' then Some pool_entry else None), sc_identity = concat, sc_names = (\<lambda>raw. None)\<rparr>"

definition pool_env :: loop_env where
  "pool_env = \<lparr>le_guardFault = False, le_listFault = False, le_registryConn = Answered, le_now = 10, le_rnow = 1000,
     le_buckets = (\<lambda>b. \<lparr>be_listFault = False, be_tables = (\<lambda>db. db), be_before = (\<lambda>s. s), be_epochConn = Answered,
       be_between = (\<lambda>s. s), be_publishConn = Answered, be_after = (\<lambda>s. s), be_removeConn = Answered, be_now = 10,
       be_rnow1 = 1000, be_rnow2 = 1001, be_rnow3 = 1002\<rparr>)\<rparr>"

definition pool_run :: "pool_error list \<times> fleet \<times> snap_redis" where
  "pool_run = SnapshotLoop_RunOnce pool_codec (\<lambda>x. x) sample_columns sample_service pool_env sample_fleet empty_snap"

lemma pool_run_ok: "fst pool_run = []"
  by code_simp

lemma pool_run_fleet: "fst (snd pool_run) = sample_fleet" "ListSnapshotBuckets sample_fleet = [(''codex'', ''default'')]"
  by code_simp+

lemma pool_schedulable: "fleet_schedulable (sv_registry sample_service) 10 sample_fleet ''codex'' ''default'' = {''a''}"
proof -
  have keys: "distinct (map fst (ft_rows sample_fleet))" "''__version'' \<notin> fst ` set (ft_rows sample_fleet)" by code_simp+
  have "(case ListSnapshotAccounts sample_columns sample_service False 10 ''codex'' ''default'' sample_fleet of
      Inl _ \<Rightarrow> False | Inr as \<Rightarrow> map ac_ID (stampUsageIntegrity (sv_registry sample_service) as) = [''a''])" by code_simp
  then obtain as where as: "ListSnapshotAccounts sample_columns sample_service False 10 ''codex'' ''default'' sample_fleet = Inr as"
    "map ac_ID (stampUsageIntegrity (sv_registry sample_service) as) = [''a'']" by (auto split: sum.splits)
  have "ac_ID ` set (stampUsageIntegrity (sv_registry sample_service) as) = {''a''}" unfolding set_map[symmetric] as(2) by simp
  then show ?thesis unfolding listed_accounts(2)[OF as(1) keys] .
qed

theorem snapshot_run_publishes_fleet_witness:
  "\<exists>x. Load pool_codec (\<lambda>x. x) (Answered, 2000, snd (snd pool_run)) (Answered, 2000, snd (snd pool_run)) (Answered, 2000, snd (snd pool_run))
      (Answered, 2000, snd (snd pool_run)) 20 ''codex'' ''default'' = Inr x \<and>
      pool_of_tables sample_columns sample_service 10 sample_fleet ''codex'' ''default'' (sn_Accounts x) \<and> ac_ID ` set (sn_Accounts x) = {''a''}"
proof -
  let ?e = "le_buckets pool_env"
  have run: "SnapshotLoop_RunOnce pool_codec (\<lambda>x. x) sample_columns sample_service pool_env sample_fleet empty_snap
      = ([], sample_fleet, snd (snd pool_run))"
    using pool_run_ok pool_run_fleet(1) unfolding pool_run_def by (simp add: prod_eq_iff)
  have codec: "codec_ok pool_codec" by (simp add: codec_ok_def pool_codec_def)
  have reach: "snap_reachable pool_codec (\<lambda>x. x) ([], empty_snap, 0)" unfolding snap_reachable_def by blast
  have keys: "distinct (map fst (ft_rows (be_tables (?e b) sample_fleet)))" "''__version'' \<notin> fst ` set (ft_rows (be_tables (?e b) sample_fleet))" for b
  proof -
    have same: "be_tables (?e b) sample_fleet = sample_fleet" by (simp add: pool_env_def)
    show "distinct (map fst (ft_rows (be_tables (?e b) sample_fleet)))" unfolding same by code_simp
    show "''__version'' \<notin> fst ` set (ft_rows (be_tables (?e b) sample_fleet))" unfolding same by code_simp
  qed
  have reg: "RegisteredBuckets pool_codec (\<lambda>x. x) (le_registryConn pool_env) (le_rnow pool_env) empty_snap = Inr []"
    by (simp add: RegisteredBuckets_def pool_env_def redis_hgetall_def redis_live_def empty_snap_def)
  have inj: "inj_on (bucket_of (\<lambda>x. x)) (set (ListSnapshotBuckets sample_fleet) \<union> names_of ` set [])" by (simp add: pool_run_fleet(2))
  have others: "others_move pool_codec (\<lambda>x. x) UNIV ?e (le_rnow pool_env)
      (ListSnapshotBuckets sample_fleet @ gone_buckets (ListSnapshotBuckets sample_fleet) [])"
    by (simp add: pool_run_fleet(2) gone_buckets_def pool_env_def outside_idle)
  have "be_now (?e (''codex'', ''default'')) = 10" "be_rnow2 (?e (''codex'', ''default'')) = 1001"
    "be_tables (?e (''codex'', ''default'')) sample_fleet = sample_fleet" by (simp_all add: pool_env_def)
  moreover have T: "end_of_run pool_env sample_fleet [] = 1002"
    by (simp add: end_of_run_def end_time_def pool_run_fleet(2) gone_buckets_def pool_env_def)
  ultimately obtain H where H: "loads_until pool_codec (\<lambda>x. x) ([] @ H, snd (snd pool_run), 1002) (1001 + DataTTL * second) (''codex'', ''default'')
       (pool_of_tables sample_columns sample_service 10 sample_fleet ''codex'' ''default'')"
    using snapshot_run_publishes_fleet[OF codec reach _ run reg keys inj others] by (auto simp: pool_run_fleet(2) pool_env_def)
  have "snap_path pool_codec (\<lambda>x. x) ([] @ H, snd (snd pool_run), 1002) ([] @ H, snd (snd pool_run), 2000)"
    using snap_step.wait[of 1002 2000] by auto
  then obtain x where "Load pool_codec (\<lambda>x. x) (Answered, 2000, snd (snd pool_run)) (Answered, 2000, snd (snd pool_run))
      (Answered, 2000, snd (snd pool_run)) (Answered, 2000, snd (snd pool_run)) 20 ''codex'' ''default'' = Inr x"
    "pool_of_tables sample_columns sample_service 10 sample_fleet ''codex'' ''default'' (sn_Accounts x)"
    using H[unfolded loads_until_def, rule_format, of "[] @ H" "snd (snd pool_run)" 2000 "[] @ H" "snd (snd pool_run)" 2000
        "[] @ H" "snd (snd pool_run)" 2000 "[] @ H" "snd (snd pool_run)" 2000 20] by (auto simp: second_def DataTTL_def)
  then show ?thesis using pool_schedulable by (auto simp: pool_of_tables_def)
qed

end
