(* ===== verification/Quota.thy ===== *)
theory Quota
  imports Pool
begin

text \<open>
  \<^verbatim>\<open>internal/control/quota_refresh.go\<close>: the quota of an account is fetched under its lock and fence,
  stored together with an outbox row, and published by changing that one account in the bucket's
  snapshot; what could not be published is retried from the outbox.
\<close>

section \<open>The outbox\<close>

record outbox_row =
  ob_platform :: string
  ob_group :: string
  ob_fence_epoch :: int
  ob_quota :: string
  ob_attempts :: int
  ob_next_attempt_at :: time
  ob_locked_until :: "time option"
  ob_last_error :: string
  ob_updated_at :: time

record quota_db =
  qd_fleet :: fleet
  qd_outbox :: "(string, outbox_row) gomap"

text \<open>A quota is the list of its items, \<open>None\<close> where the slice is nil.\<close>

type_synonym quota_info = "QuotaItem list option"

record QuotaOutboxItem =
  qo_AccountID :: string
  qo_Platform :: string
  qo_Group :: string
  qo_FenceEpoch :: int
  qo_Quota :: quota_info
  qo_Attempts :: int

datatype quota_error =
    QuotaRepo fleet_error
  | QuotaBusy
  | QuotaDecrypt cipher_error
  | QuotaDecode
  | QuotaProviderMissing
  | QuotaProviderFailed provider_error "fleet_error option"
  | QuotaEncode
  | QuotaBucketMissing
  | QuotaLoadFailed snapshot_error
  | QuotaAccountMissing
  | QuotaPublishFailed snapshot_error
  | QuotaUnlock

definition quotaOutboxLease :: duration where
  "quotaOutboxLease = 60 * second"

definition quotaOutboxMinBackoff :: duration where
  "quotaOutboxMinBackoff = 60 * second"

definition quotaOutboxMaxBackoff :: duration where
  "quotaOutboxMaxBackoff = 15 * 60 * second"

definition quotaBatchSize :: nat where
  "quotaBatchSize = 100"

record quota_codec =
  qc_marshal :: "quota_info \<Rightarrow> string option"
  qc_unmarshal :: "string \<Rightarrow> quota_info option"

definition with_fleet :: "quota_db \<Rightarrow> fleet \<Rightarrow> quota_db" where
  "with_fleet q db = q\<lparr>qd_fleet := db\<rparr>"

definition store_quota :: "time \<Rightarrow> StoredCredential \<Rightarrow> string \<Rightarrow> fleet \<Rightarrow> fleet option" where
  "store_quota now stored payload db =
     (case fenced (st_AccountID stored) (st_FenceEpoch stored) db of
        None \<Rightarrow> None
      | Some r \<Rightarrow> Some (put_row (st_AccountID stored) (r\<lparr>fl_quota := payload, fl_updated_at := now\<rparr>) db))"

definition CommitQuota ::
  "quota_codec \<Rightarrow> bool \<Rightarrow> time \<Rightarrow> StoredCredential \<Rightarrow> quota_info \<Rightarrow> quota_db \<Rightarrow> quota_error + quota_db" where
  "CommitQuota qc fault now stored quota q =
     (case qc_marshal qc quota of
        None \<Rightarrow> Inl QuotaEncode
      | Some payload \<Rightarrow>
          if fault then Inl (QuotaRepo FleetFault)
          else (case store_quota now stored payload (qd_fleet q) of
              None \<Rightarrow> Inl (QuotaRepo ErrFenceLost)
            | Some db \<Rightarrow> Inr (with_fleet q db)))"

definition CommitQuotaAndQueue ::
  "quota_codec \<Rightarrow> bool \<Rightarrow> time \<Rightarrow> StoredCredential \<Rightarrow> quota_info \<Rightarrow> quota_db \<Rightarrow> quota_error + quota_db" where
  "CommitQuotaAndQueue qc fault now stored quota q =
     (case qc_marshal qc quota of
        None \<Rightarrow> Inl QuotaEncode
      | Some payload \<Rightarrow>
          if fault then Inl (QuotaRepo FleetFault)
          else (case store_quota now stored payload (qd_fleet q) of
              None \<Rightarrow> Inl (QuotaRepo ErrFenceLost)
            | Some db \<Rightarrow> Inr \<lparr>qd_fleet = db,
                qd_outbox = AList.update (st_AccountID stored) \<lparr>ob_platform = st_Platform stored, ob_group = st_Group stored,
                  ob_fence_epoch = st_FenceEpoch stored, ob_quota = payload, ob_attempts = 0, ob_next_attempt_at = now,
                  ob_locked_until = None, ob_last_error = '''', ob_updated_at = now\<rparr> (qd_outbox q)\<rparr>))"

definition CurrentFence :: "bool \<Rightarrow> string \<Rightarrow> quota_db \<Rightarrow> fleet_error + int" where
  "CurrentFence fault aid q =
     (if fault then Inl FleetFault
      else case fence_of (qd_fleet q) aid of None \<Rightarrow> Inl ErrFenceLost | Some e \<Rightarrow> Inr e)"

definition outbox_due :: "time \<Rightarrow> outbox_row \<Rightarrow> bool" where
  "outbox_due now o1 \<longleftrightarrow> ob_next_attempt_at o1 \<le> now \<and> (case ob_locked_until o1 of None \<Rightarrow> True | Some t \<Rightarrow> t \<le> now)"

definition outbox_item :: "quota_codec \<Rightarrow> string \<times> outbox_row \<Rightarrow> QuotaOutboxItem option" where
  "outbox_item qc row =
     (case qc_unmarshal qc (ob_quota (snd row)) of
        None \<Rightarrow> None
      | Some quota \<Rightarrow> Some \<lparr>qo_AccountID = fst row, qo_Platform = ob_platform (snd row), qo_Group = ob_group (snd row),
          qo_FenceEpoch = ob_fence_epoch (snd row), qo_Quota = quota, qo_Attempts = ob_attempts (snd row) + 1\<rparr>)"

definition change_outbox :: "string \<Rightarrow> int \<Rightarrow> (outbox_row \<Rightarrow> outbox_row) \<Rightarrow> quota_db \<Rightarrow> quota_db" where
  "change_outbox aid epoch f q =
     (case map_of (qd_outbox q) aid of
        None \<Rightarrow> q
      | Some o1 \<Rightarrow> if ob_fence_epoch o1 = epoch then q\<lparr>qd_outbox := AList.update aid (f o1) (qd_outbox q)\<rparr> else q)"

definition claim_row :: "time \<Rightarrow> outbox_row \<Rightarrow> outbox_row" where
  "claim_row now o1 = o1\<lparr>ob_attempts := ob_attempts o1 + 1, ob_locked_until := Some (now + quotaOutboxLease), ob_updated_at := now\<rparr>"

definition ClaimQuotaOutbox ::
  "quota_codec \<Rightarrow> bool \<Rightarrow> time \<Rightarrow> int \<Rightarrow> quota_db \<Rightarrow> (quota_error + QuotaOutboxItem list) \<times> quota_db" where
  "ClaimQuotaOutbox qc fault now limit q =
     (if limit \<le> 0 then (Inl (QuotaRepo InvalidContract), q)
      else if fault then (Inl (QuotaRepo FleetFault), q)
      else
        (let rows = take (nat limit) (sort_key (\<lambda>(aid, o1). (ob_next_attempt_at o1, ob_updated_at o1))
               (filter (outbox_due now \<circ> snd) (qd_outbox q)))
         in if \<exists>row \<in> set rows. outbox_item qc row = None then (Inl QuotaDecode, q)
            else
              (let items = map (the \<circ> outbox_item qc) rows
               in (Inr items, fold (\<lambda>i. change_outbox (qo_AccountID i) (qo_FenceEpoch i) (claim_row now)) items q))))"

definition at_epoch :: "string \<Rightarrow> int \<Rightarrow> quota_db \<Rightarrow> bool" where
  "at_epoch aid epoch q \<longleftrightarrow> (case map_of (qd_outbox q) aid of None \<Rightarrow> False | Some o1 \<Rightarrow> ob_fence_epoch o1 = epoch)"

definition AckQuotaOutbox :: "bool \<Rightarrow> string \<Rightarrow> int \<Rightarrow> quota_db \<Rightarrow> quota_error + quota_db" where
  "AckQuotaOutbox fault aid epoch q =
     (if fault then Inl (QuotaRepo FleetFault)
      else if at_epoch aid epoch q then Inr (q\<lparr>qd_outbox := AList.delete aid (qd_outbox q)\<rparr>)
      else Inl (QuotaRepo ErrFenceLost))"

definition quotaOutboxErrorState :: "quota_error \<Rightarrow> string" where
  "quotaOutboxErrorState cause =
     (case cause of
        QuotaBusy \<Rightarrow> ''busy''
      | QuotaRepo ErrFenceLost \<Rightarrow> ''fence_lost''
      | QuotaPublishFailed ErrStaleEpoch \<Rightarrow> ''stale_epoch''
      | _ \<Rightarrow> ''snapshot_publish_failed'')"

definition RetryQuotaOutbox :: "bool \<Rightarrow> time \<Rightarrow> QuotaOutboxItem \<Rightarrow> quota_error \<Rightarrow> time \<Rightarrow> quota_db \<Rightarrow> quota_error + quota_db" where
  "RetryQuotaOutbox fault now item cause nextAttempt q =
     (if fault then Inl (QuotaRepo FleetFault)
      else if at_epoch (qo_AccountID item) (qo_FenceEpoch item) q
      then Inr (change_outbox (qo_AccountID item) (qo_FenceEpoch item)
        (\<lambda>o1. o1\<lparr>ob_next_attempt_at := pg_time nextAttempt, ob_locked_until := None,
           ob_last_error := quotaOutboxErrorState cause, ob_updated_at := now\<rparr>) q)
      else Inl (QuotaRepo ErrFenceLost))"

section \<open>Changing one account of a snapshot\<close>

text \<open>The loop over \<^verbatim>\<open>current.Accounts\<close>: the first account with the ID, changed; \<open>None\<close> where none has it.\<close>

fun set_quota :: "string \<Rightarrow> QuotaItem list \<Rightarrow> Account list \<Rightarrow> Account list option" where
  "set_quota aid quota [] = None"
| "set_quota aid quota (a # as) =
     (if ac_ID a = aid then Some (a\<lparr>ac_Quota := quota\<rparr> # as)
      else map_option ((#) a) (set_quota aid quota as))"

text \<open>
  The published contract keeps the items of a quota only, so that a nil and an empty slice are the
  same there; \<^verbatim>\<open>reflect.DeepEqual\<close> tells them apart only for an adapter that returns an empty
  slice, which then is published once more.
\<close>

definition same_quota :: "string \<Rightarrow> quota_info \<Rightarrow> Account list \<Rightarrow> bool" where
  "same_quota aid quota as \<longleftrightarrow> (case find (\<lambda>a. ac_ID a = aid) as of None \<Rightarrow> False
     | Some a \<Rightarrow> (case quota of None \<Rightarrow> ac_Quota a = [] | Some items \<Rightarrow> items \<noteq> [] \<and> ac_Quota a = items))"

record publish_env =
  pe_views :: "view \<times> view \<times> view \<times> view"
  pe_conn :: redis_conn
  pe_now :: time
  pe_rnow :: time

definition PublishQuota ::
  "snapshot_codec \<Rightarrow> (string \<Rightarrow> string) \<Rightarrow> publish_env \<Rightarrow> string \<Rightarrow> string \<Rightarrow> string \<Rightarrow> quota_info \<Rightarrow> snap_redis \<Rightarrow>
   (quota_error + unit) \<times> snap_redis"
where
  "PublishQuota cd sha env platform grp aid quota s =
     (if platform = '''' \<or> grp = '''' then (Inl QuotaBucketMissing, s)
      else case pe_views env of (v1, v2, v3, v4) \<Rightarrow>
        (case Load cd sha v1 v2 v3 v4 (pe_now env) platform grp of
           Inl e \<Rightarrow> (Inl (QuotaLoadFailed e), s)
         | Inr current \<Rightarrow>
             if same_quota aid quota (sn_Accounts current) then (Inr (), s)
             else (case set_quota aid (case quota of None \<Rightarrow> [] | Some items \<Rightarrow> items) (sn_Accounts current) of
                 None \<Rightarrow> (Inl QuotaAccountMissing, s)
               | Some accounts \<Rightarrow>
                   (case Publish cd sha (pe_conn env) (pe_now env) (pe_rnow env) platform grp (sn_Epoch current) accounts s of
                      (Inl e, s') \<Rightarrow> (Inl (QuotaPublishFailed e), s')
                    | (Inr _, s') \<Rightarrow> (Inr (), s')))))"

section \<open>Fetching the quota of one account\<close>

text \<open>
  How the calls of one quota refresh go, and what other clients do meanwhile: between the fence and
  the read, while the provider is asked, and between the commit and the publication.
\<close>

record quota_env =
  qe_between :: "fleet \<Rightarrow> fleet"
  qe_during :: "quota_db \<times> snap_redis \<Rightarrow> quota_db \<times> snap_redis"
  qe_others :: "quota_db \<times> snap_redis \<Rightarrow> quota_db \<times> snap_redis"
  qe_now :: time
  qe_lockFault :: bool
  qe_bumpFault :: bool
  qe_readFault :: bool
  qe_failFault :: bool
  qe_commitFault :: bool
  qe_ackFault :: bool
  qe_unlockFault :: bool
  qe_publish :: publish_env

definition quota_answer :: "refresh_service \<Rightarrow> StoredCredential \<Rightarrow> quota_error + (provider_error + quota_info)" where
  "quota_answer sv stored =
     (case Decrypt (sv_aead sv) (st_AccountID stored) (st_EncryptedSecret stored) of
        Inl e \<Rightarrow> Inl (QuotaDecrypt e)
      | Inr plaintext \<Rightarrow>
          (case sv_unmarshal sv plaintext of
             None \<Rightarrow> Inl QuotaDecode
           | Some current \<Rightarrow>
               (case GetForAuth (sv_registry sv) (st_Provider stored) (st_CredentialKind stored) of
                  None \<Rightarrow> Inl QuotaProviderMissing
                | Some p \<Rightarrow> Inr (pv_Quota p \<lparr>cred_Kind = st_CredentialKind stored, cred_AccessToken = tb_AccessToken current,
                    cred_Proxy = st_Proxy stored, cred_Metadata = tb_Metadata current, cred_ExpiresAt = tb_ExpiresAt current,
                    cred_Version = 0\<rparr>))))"

text \<open>Stored and queued, then published and taken off the queue; \<open>publishes\<close> says whether a publisher is configured.\<close>

definition commit_quota ::
  "snapshot_codec \<Rightarrow> (string \<Rightarrow> string) \<Rightarrow> quota_codec \<Rightarrow> bool \<Rightarrow> quota_env \<Rightarrow> StoredCredential \<Rightarrow> quota_info \<Rightarrow>
   quota_db \<times> snap_redis \<Rightarrow> (quota_error + quota_info) \<times> quota_db \<times> snap_redis"
where
  "commit_quota cd sha qc publishes env stored quota st =
     (case st of (q, s) \<Rightarrow>
        case CommitQuotaAndQueue qc (qe_commitFault env) (qe_now env) stored quota q of
          Inl e \<Rightarrow> (Inl e, q, s)
        | Inr q1 \<Rightarrow>
            if \<not> publishes then (if qe_unlockFault env then Inl QuotaUnlock else Inr quota, q1, s)
            else (case qe_others env (q1, s) of (q2, s0) \<Rightarrow>
              (case PublishQuota cd sha (qe_publish env) (st_Platform stored) (st_Group stored) (st_AccountID stored) quota s0 of
                (Inl e, s1) \<Rightarrow> (Inl e, q2, s1)
              | (Inr _, s1) \<Rightarrow>
                  (case AckQuotaOutbox (qe_ackFault env) (st_AccountID stored) (st_FenceEpoch stored) q2 of
                     Inl e \<Rightarrow> (Inl e, q2, s1)
                   | Inr q3 \<Rightarrow> (if qe_unlockFault env then Inl QuotaUnlock else Inr quota, q3, s1)))))"

definition quota_body ::
  "snapshot_codec \<Rightarrow> (string \<Rightarrow> string) \<Rightarrow> quota_codec \<Rightarrow> bool \<Rightarrow> refresh_service \<Rightarrow> quota_env \<Rightarrow> string \<Rightarrow>
   quota_db \<times> snap_redis \<Rightarrow> (quota_error + quota_info) \<times> quota_db \<times> snap_redis"
where
  "quota_body cd sha qc publishes sv env aid st =
     (case st of (q, s) \<Rightarrow>
        case Acquire_credential (qe_bumpFault env) (qe_between env) (qe_readFault env) (qe_now env) aid (qd_fleet q) of
          (Inl e, db1) \<Rightarrow> (Inl (QuotaRepo e), with_fleet q db1, s)
        | (Inr stored, db1) \<Rightarrow>
            (case quota_answer sv stored of
               Inl e \<Rightarrow> (Inl e, with_fleet q db1, s)
             | Inr answer \<Rightarrow>
                 (case qe_during env (with_fleet q db1, s) of (q1, s1) \<Rightarrow>
                   (case answer of
                      Inl err \<Rightarrow>
                        (case Fail (qe_failFault env) (qe_now env) stored (ErrorClass err) (qd_fleet q1) of
                           Inl e \<Rightarrow> (Inl (QuotaProviderFailed err (Some e)), q1, s1)
                         | Inr db2 \<Rightarrow> (Inl (QuotaProviderFailed err None), with_fleet q1 db2, s1))
                    | Inr None \<Rightarrow> (if qe_unlockFault env then Inl QuotaUnlock else Inr None, q1, s1)
                    | Inr (Some items) \<Rightarrow> commit_quota cd sha qc publishes env stored (Some items) (q1, s1)))))"

definition QuotaService_Refresh ::
  "snapshot_codec \<Rightarrow> (string \<Rightarrow> string) \<Rightarrow> quota_codec \<Rightarrow> bool \<Rightarrow> refresh_service \<Rightarrow> quota_env \<Rightarrow> string \<Rightarrow>
   quota_db \<times> snap_redis \<Rightarrow> (quota_error + quota_info) \<times> quota_db \<times> snap_redis"
where
  "QuotaService_Refresh cd sha qc publishes sv env aid st =
     (case st of (q, s) \<Rightarrow>
        case TryLock (sv_lockKey sv) (qe_lockFault env) aid (qd_fleet q) of
          Inl e \<Rightarrow> (Inl (QuotaRepo e), q, s)
        | Inr None \<Rightarrow> (Inl QuotaBusy, q, s)
        | Inr (Some db1) \<Rightarrow>
            (case quota_body cd sha qc publishes sv env aid (with_fleet q db1, s) of
               (res, q2, s2) \<Rightarrow> (res, with_fleet q2 (unlock (sv_lockKey sv aid) (qd_fleet q2)), s2)))"

section \<open>The reconciler\<close>

text \<open>\<^verbatim>\<open>quotaOutboxBackoff\<close>: doubling from a minute, at most a quarter of an hour.\<close>

fun backoff_loop :: "nat \<Rightarrow> duration \<Rightarrow> duration" where
  "backoff_loop 0 delay = delay"
| "backoff_loop (Suc n) delay = (if delay < quotaOutboxMaxBackoff then backoff_loop n (delay * 2) else delay)"

definition quotaOutboxBackoff :: "int \<Rightarrow> duration" where
  "quotaOutboxBackoff attempts0 =
     (let attempts = (if attempts0 < 1 then 1 else attempts0);
          delay = backoff_loop (nat (attempts - 1)) quotaOutboxMinBackoff
      in if delay > quotaOutboxMaxBackoff then quotaOutboxMaxBackoff else delay)"

text \<open>How the calls for one item go, and what other clients do to Redis before its publication.\<close>

record item_env =
  it_others :: "snap_redis \<Rightarrow> snap_redis"
  it_now :: time
  it_dbnow :: time
  it_lockFault :: bool
  it_fenceFault :: bool
  it_ackFault :: bool
  it_retryFault :: bool
  it_publish :: publish_env

definition retry_item :: "item_env \<Rightarrow> QuotaOutboxItem \<Rightarrow> quota_error \<Rightarrow> quota_db \<Rightarrow> (quota_error + unit) \<times> quota_db" where
  "retry_item env item cause q =
     (case RetryQuotaOutbox (it_retryFault env) (it_dbnow env) item cause (it_now env + quotaOutboxBackoff (qo_Attempts item)) q of
        Inl _ \<Rightarrow> (Inl cause, q)
      | Inr q' \<Rightarrow> (Inl cause, q'))"

definition reconcile_locked ::
  "snapshot_codec \<Rightarrow> (string \<Rightarrow> string) \<Rightarrow> item_env \<Rightarrow> QuotaOutboxItem \<Rightarrow> quota_db \<times> snap_redis \<Rightarrow>
   (quota_error + unit) \<times> quota_db \<times> snap_redis"
where
  "reconcile_locked cd sha env item st =
     (case st of (q, s) \<Rightarrow>
        case CurrentFence (it_fenceFault env) (qo_AccountID item) q of
          Inl e \<Rightarrow> (case retry_item env item (QuotaRepo e) q of (res, q') \<Rightarrow> (res, q', s))
        | Inr fence \<Rightarrow>
            if fence \<noteq> qo_FenceEpoch item
            then (case AckQuotaOutbox (it_ackFault env) (qo_AccountID item) (qo_FenceEpoch item) q of
                Inl e \<Rightarrow> (Inl e, q, s) | Inr q' \<Rightarrow> (Inr (), q', s))
            else (case PublishQuota cd sha (it_publish env) (qo_Platform item) (qo_Group item) (qo_AccountID item) (qo_Quota item) (it_others env s) of
                (Inl e, s') \<Rightarrow> (case retry_item env item e q of (res, q') \<Rightarrow> (res, q', s'))
              | (Inr _, s') \<Rightarrow>
                  (case AckQuotaOutbox (it_ackFault env) (qo_AccountID item) (qo_FenceEpoch item) q of
                     Inl e \<Rightarrow> (case retry_item env item e q of (res, q') \<Rightarrow> (res, q', s'))
                   | Inr q' \<Rightarrow> (Inr (), q', s'))))"

definition reconcileItem ::
  "snapshot_codec \<Rightarrow> (string \<Rightarrow> string) \<Rightarrow> (string \<Rightarrow> int) \<Rightarrow> item_env \<Rightarrow> QuotaOutboxItem \<Rightarrow> quota_db \<times> snap_redis \<Rightarrow>
   (quota_error + unit) \<times> quota_db \<times> snap_redis"
where
  "reconcileItem cd sha lockKey env item st =
     (case st of (q, s) \<Rightarrow>
        case TryLock lockKey (it_lockFault env) (qo_AccountID item) (qd_fleet q) of
          Inl e \<Rightarrow> (case retry_item env item (QuotaRepo e) q of (res, q') \<Rightarrow> (res, q', s))
        | Inr None \<Rightarrow> (case retry_item env item QuotaBusy q of (res, q') \<Rightarrow> (res, q', s))
        | Inr (Some db1) \<Rightarrow>
            (case reconcile_locked cd sha env item (with_fleet q db1, s) of
               (res, q2, s2) \<Rightarrow> (res, with_fleet q2 (unlock (lockKey (qo_AccountID item)) (qd_fleet q2)), s2)))"

fun reconcile_items ::
  "snapshot_codec \<Rightarrow> (string \<Rightarrow> string) \<Rightarrow> (string \<Rightarrow> int) \<Rightarrow> (string \<Rightarrow> item_env) \<Rightarrow> QuotaOutboxItem list \<Rightarrow>
   quota_db \<times> snap_redis \<Rightarrow> (string \<times> quota_error) list \<times> quota_db \<times> snap_redis"
where
  "reconcile_items cd sha lockKey env [] st = ([], st)"
| "reconcile_items cd sha lockKey env (item # items) st =
     (case reconcileItem cd sha lockKey (env (qo_AccountID item)) item st of
        (res, st1) \<Rightarrow>
          (case reconcile_items cd sha lockKey env items st1 of
             (errs, st2) \<Rightarrow> ((case res of Inl e \<Rightarrow> (qo_AccountID item, e) # errs | Inr _ \<Rightarrow> errs), st2)))"

definition QuotaReconciler_RunOnce ::
  "snapshot_codec \<Rightarrow> (string \<Rightarrow> string) \<Rightarrow> quota_codec \<Rightarrow> (string \<Rightarrow> int) \<Rightarrow> bool \<Rightarrow> time \<Rightarrow> (string \<Rightarrow> item_env) \<Rightarrow>
   quota_db \<times> snap_redis \<Rightarrow> (quota_error + (string \<times> quota_error) list) \<times> quota_db \<times> snap_redis"
where
  "QuotaReconciler_RunOnce cd sha qc lockKey fault now env st =
     (case st of (q, s) \<Rightarrow>
        case ClaimQuotaOutbox qc fault now (int quotaBatchSize) q of
          (Inl e, q1) \<Rightarrow> (Inl e, q1, s)
        | (Inr items, q1) \<Rightarrow> (case reconcile_items cd sha lockKey env items (q1, s) of (errs, st2) \<Rightarrow> (Inr errs, st2)))"

section \<open>The quota loop\<close>

definition due_quotas :: "fleet \<Rightarrow> string list" where
  "due_quotas db =
     take quotaBatchSize (map fst (sort_key (\<lambda>(aid, r). fl_updated_at r)
       (filter (\<lambda>(aid, r). map_of (ft_credentials db) aid \<noteq> None \<and> fl_provider r \<in> {''codex'', ''claude''} \<and>
          (case map_of (ft_health db) aid of None \<Rightarrow> False | Some h \<Rightarrow> ah_status h = ''active'')) (ft_rows db))))"

fun quota_all ::
  "snapshot_codec \<Rightarrow> (string \<Rightarrow> string) \<Rightarrow> quota_codec \<Rightarrow> bool \<Rightarrow> refresh_service \<Rightarrow> (string \<Rightarrow> quota_env) \<Rightarrow> string list \<Rightarrow>
   quota_db \<times> snap_redis \<Rightarrow> (string \<times> quota_error) list \<times> quota_db \<times> snap_redis"
where
  "quota_all cd sha qc publishes sv env [] st = ([], st)"
| "quota_all cd sha qc publishes sv env (aid # aids) st =
     (case QuotaService_Refresh cd sha qc publishes sv (env aid) aid st of
        (res, st1) \<Rightarrow>
          (case quota_all cd sha qc publishes sv env aids st1 of
             (errs, st2) \<Rightarrow> ((case res of Inl e \<Rightarrow> if e = QuotaBusy then errs else (aid, e) # errs | Inr _ \<Rightarrow> errs), st2)))"

definition QuotaLoop_RunOnce ::
  "snapshot_codec \<Rightarrow> (string \<Rightarrow> string) \<Rightarrow> quota_codec \<Rightarrow> bool \<Rightarrow> refresh_service \<Rightarrow> (string \<Rightarrow> quota_env) \<Rightarrow> bool \<Rightarrow>
   quota_db \<times> snap_redis \<Rightarrow> (quota_error + (string \<times> quota_error) list) \<times> quota_db \<times> snap_redis"
where
  "QuotaLoop_RunOnce cd sha qc publishes sv env fault st =
     (if fault then (Inl (QuotaRepo FleetFault), st)
      else case quota_all cd sha qc publishes sv env (due_quotas (qd_fleet (fst st))) st of (errs, st') \<Rightarrow> (Inr errs, st'))"

section \<open>A quota changes one account and nothing else\<close>

lemma set_quota_ids: "set_quota aid quota as = Some as' \<Longrightarrow> map ac_ID as' = map ac_ID as"
  by (induction as arbitrary: as') (auto split: if_splits)

lemma set_quota_map:
  "distinct (map ac_ID as) \<Longrightarrow> set_quota aid quota as = Some as' \<Longrightarrow>
     as' = map (\<lambda>a. if ac_ID a = aid then a\<lparr>ac_Quota := quota\<rparr> else a) as \<and> aid \<in> ac_ID ` set as"
proof (induction as arbitrary: as')
  case (Cons a as)
  show ?case
  proof (cases "ac_ID a = aid")
    case True
    have "map (\<lambda>a. if ac_ID a = aid then a\<lparr>ac_Quota := quota\<rparr> else a) as = as"
      using Cons.prems(1) True by (intro map_idI) (auto simp: image_iff)
    then show ?thesis using Cons.prems True by simp
  next
    case False
    then show ?thesis using Cons by auto
  qed
qed simp

lemma generations_same:
  assumes "snap_path cd sha (G, s, t) (G', s', t')" "count_of b G' = count_of b G"
  shows "generations b G' = generations b G"
  using assms snap_path_grows[OF assms(1)] by auto

text \<open>
  C16.  Publishing a quota loses no other writer's work.  However other publishers interleave with the
  commands of the load and with the publication, a quota publication that succeeds either finds
  that quota already published, or its new generation follows directly on the one it loaded and
  has the same accounts with the quota of that one account changed.
\<close>

theorem quota_publish_keeps_pool:
  assumes codec: "codec_ok cd" and reach: "snap_reachable cd sha (G1, s1, t1)"
    and paths: "snap_path cd sha (G1, s1, t1) (G2, s2, t2)" "snap_path cd sha (G2, s2, t2) (G3, s3, t3)"
      "snap_path cd sha (G3, s3, t3) (G4, s4, t4)" "snap_path cd sha (G4, s4, t4) (G5, s5, t5)"
    and views: "pe_views env = ((c1, t1, s1), (c2, t2, s2), (c3, t3, s3), (c4, t4, s4))" and t: "t5 \<le> pe_rnow env"
    and run: "PublishQuota cd sha env platform grp aid quota s5 = (Inr (), s')"
  shows "(s' = s5 \<and> (\<exists>g \<in> set G1. gn_Bucket g = BucketID sha platform grp \<and> same_quota aid quota (gn_Accounts g))) \<or>
    (\<exists>g g'. g \<in> set G5 \<and> gn_Bucket g = BucketID sha platform grp \<and> gn_Bucket g' = BucketID sha platform grp \<and>
       gn_Version g' = gn_Version g + 1 \<and> aid \<in> ac_ID ` set (gn_Accounts g) \<and>
       gn_Accounts g' = map (\<lambda>a. if ac_ID a = aid then a\<lparr>ac_Quota := (case quota of None \<Rightarrow> [] | Some items \<Rightarrow> items)\<rparr> else a) (gn_Accounts g) \<and>
       snap_step cd sha (G5, s5, t5) (G5 @ [g'], s', pe_rnow env))"
proof -
  let ?b = "BucketID sha platform grp" and ?items = "case quota of None \<Rightarrow> [] | Some items \<Rightarrow> items"
  obtain x where load: "Load cd sha (c1, t1, s1) (c2, t2, s2) (c3, t3, s3) (c4, t4, s4) (pe_now env) platform grp = Inr x"
    using run views by (auto simp: PublishQuota_def split: if_splits sum.splits)
  from load_generation[OF codec reach paths(1-3) load refl] obtain g where g: "generations ?b G1 \<noteq> []" "g = last (generations ?b G1)"
    "sn_Accounts x = gn_Accounts g" "gn_Accounts g \<noteq> [] \<Longrightarrow> sn_Epoch x = gn_Epoch g" by metis
  have mem: "g \<in> set (generations ?b G1)" using g(1,2) by simp
  have inv: "snap_inv cd sha (G1, s1, t1)" using snap_reachable_inv[OF reach] .
  have p5: "snap_path cd sha (G1, s1, t1) (G5, s5, t5)" using paths by (meson rtranclp_trans)
  have inv5: "snap_inv cd sha (G5, s5, t5)" using snap_path_inv[OF p5 inv] .
  have b1: "bucket_inv cd sha (G1, s1, t1) ?b" using inv by (simp add: snap_inv_def)
  show ?thesis
  proof (cases "same_quota aid quota (gn_Accounts g)")
    case True
    then show ?thesis using run views load g(3) mem by (auto simp: PublishQuota_def generations_def split: if_splits)
  next
    case False
    obtain accounts v where acc: "set_quota aid ?items (gn_Accounts g) = Some accounts"
      and pub: "Publish cd sha (pe_conn env) (pe_now env) (pe_rnow env) platform grp (sn_Epoch x) accounts s5 = (Inr v, s')"
      using run views load g(3) False by (auto simp: PublishQuota_def split: if_splits option.splits prod.splits sum.splits)
    have keys: "account_keys_ok (gn_Accounts g)" using bucket_invD(7)[OF b1 mem] .
    then have ok: "account_keys_ok accounts" using set_quota_ids[OF acc] by (simp add: account_keys_ok_def)
    have "distinct (map ac_ID (gn_Accounts g))" using keys by (simp add: account_keys_ok_def)
    note new = set_quota_map[OF this acc]
    then have "gn_Accounts g \<noteq> []" by auto
    then have "sn_Epoch x = gn_Version g" using g(4) bucket_invD(1)[OF b1] mem by (simp add: numbered_def)
    then have expected: "sn_Epoch x = count_of ?b G1" using numbered_last[OF bucket_invD(1)[OF b1] g(1)] g(2) by simp
    obtain g' where g': "published cd sha (pe_conn env) (pe_now env) (pe_rnow env) platform grp (sn_Epoch x) accounts s5 = [g']"
      using Publish_Inr_published[OF inv5 ok pub] by blast
    note p = published_holds[OF inv5 ok pub g']
    have same: "generations ?b G5 = generations ?b G1"
      using generations_same[OF p5] expected p(2,9) by simp
    have "snap_step cd sha (G5, s5, t5) (G5 @ [g'], s', pe_rnow env)"
      using snap_step.publish[OF t ok, of cd sha G5 s5 "pe_conn env" "pe_now env" platform grp "sn_Epoch x"] g' pub by simp
    moreover have "g \<in> set G5 \<and> gn_Bucket g = ?b"
    proof -
      have "g \<in> set (generations ?b G5)" using mem same by simp
      then show ?thesis by (simp add: generations_def)
    qed
    moreover have "gn_Version g' = gn_Version g + 1" using p(2,6,9) \<open>sn_Epoch x = gn_Version g\<close> by simp
    ultimately show ?thesis using p(2,5) new by blast
  qed
qed

section \<open>The outbox forgets nothing\<close>

lemma backoff_loop_closed:
  assumes "0 < d" "d \<le> quotaOutboxMaxBackoff"
  shows "min quotaOutboxMaxBackoff (backoff_loop n d) = min quotaOutboxMaxBackoff (d * 2 ^ n) \<and> d \<le> backoff_loop n d"
  using assms
proof (induction n arbitrary: d)
  case (Suc n)
  show ?case
  proof (cases "d < quotaOutboxMaxBackoff")
    case True
    show ?thesis
    proof (cases "d * 2 \<le> quotaOutboxMaxBackoff")
      case le: True
      then show ?thesis using Suc.IH[of "d * 2"] Suc.prems True by (auto simp: mult.assoc)
    next
      case gt: False
      have "backoff_loop n (d * 2) = d * 2" using gt by (cases n) auto
      moreover have "quotaOutboxMaxBackoff \<le> d * (2 * 2 ^ n)"
      proof -
        have "d * 2 * 1 \<le> d * 2 * 2 ^ n" using Suc.prems(1) by (intro mult_left_mono) simp_all
        then show ?thesis using gt by (simp add: mult.assoc del: mult_le_cancel_left_pos)
      qed
      ultimately show ?thesis using gt True Suc.prems by simp
    qed
  next
    case False
    then have "d = quotaOutboxMaxBackoff" using Suc.prems by simp
    moreover have "d * 1 \<le> d * 2 ^ Suc n" using Suc.prems(1) one_le_power[of "2::int" "Suc n"] by (intro mult_left_mono) simp_all
    ultimately show ?thesis by simp
  qed
qed simp

lemma quotaOutboxBackoff_closed:
  "quotaOutboxBackoff attempts = min quotaOutboxMaxBackoff (quotaOutboxMinBackoff * 2 ^ nat (max 1 attempts - 1))"
  "quotaOutboxMinBackoff \<le> quotaOutboxBackoff attempts"
proof -
  have pos: "0 < quotaOutboxMinBackoff" "quotaOutboxMinBackoff \<le> quotaOutboxMaxBackoff"
    by (simp_all add: quotaOutboxMinBackoff_def quotaOutboxMaxBackoff_def second_def)
  have att: "(if attempts < 1 then 1 else attempts) = max 1 attempts" by simp
  note c = backoff_loop_closed[OF pos, of "nat (max 1 attempts - 1)"]
  have "quotaOutboxBackoff attempts = min quotaOutboxMaxBackoff (backoff_loop (nat (max 1 attempts - 1)) quotaOutboxMinBackoff)"
    unfolding quotaOutboxBackoff_def Let_def att by (simp add: min_def)
  then show "quotaOutboxBackoff attempts = min quotaOutboxMaxBackoff (quotaOutboxMinBackoff * 2 ^ nat (max 1 attempts - 1))"
    "quotaOutboxMinBackoff \<le> quotaOutboxBackoff attempts" using c pos by simp_all
qed


lemma unlock_outbox [simp]: "qd_outbox (with_fleet q db) = qd_outbox q" "qd_fleet (with_fleet q db) = db"
  by (simp_all add: with_fleet_def)

lemma at_epochD: "at_epoch aid e q \<longleftrightarrow> (\<exists>o1. map_of (qd_outbox q) aid = Some o1 \<and> ob_fence_epoch o1 = e)"
  by (auto simp: at_epoch_def split: option.splits)

text \<open>The row waits: untouched, so that its lease runs out, or due again after a delay, with what it carries kept.\<close>

definition waits :: "item_env \<Rightarrow> QuotaOutboxItem \<Rightarrow> outbox_row \<Rightarrow> outbox_row option \<Rightarrow> bool" where
  "waits env item o1 row \<longleftrightarrow> row = Some o1 \<or>
     (\<exists>o2. row = Some o2 \<and> ob_quota o2 = ob_quota o1 \<and> ob_fence_epoch o2 = ob_fence_epoch o1 \<and>
        ob_platform o2 = ob_platform o1 \<and> ob_group o2 = ob_group o1 \<and> ob_attempts o2 = ob_attempts o1 \<and>
        ob_locked_until o2 = None \<and>
        ob_next_attempt_at o2 = pg_time (it_now env + min quotaOutboxMaxBackoff (quotaOutboxMinBackoff * 2 ^ nat (max 1 (qo_Attempts item) - 1))))"

lemma retry_item_waits:
  assumes "map_of (qd_outbox q) (qo_AccountID item) = Some o1" "retry_item env item cause q = (res, q')"
  shows "res = Inl cause" "waits env item o1 (map_of (qd_outbox q') (qo_AccountID item))" "qd_fleet q' = qd_fleet q"
    "\<And>x. x \<noteq> qo_AccountID item \<Longrightarrow> map_of (qd_outbox q') x = map_of (qd_outbox q) x"
  using assms
  by (auto simp: retry_item_def RetryQuotaOutbox_def change_outbox_def at_epochD waits_def update_conv' quotaOutboxBackoff_closed(1)
      split: if_splits sum.splits option.splits)

lemma AckQuotaOutbox_Inr:
  assumes "AckQuotaOutbox fault aid e q = Inr q'"
  shows "map_of (qd_outbox q') aid = None" "qd_fleet q' = qd_fleet q" "\<And>x. x \<noteq> aid \<Longrightarrow> map_of (qd_outbox q') x = map_of (qd_outbox q) x"
  using assms by (auto simp: AckQuotaOutbox_def delete_conv' split: if_splits)

definition item_outcome ::
  "snapshot_codec \<Rightarrow> (string \<Rightarrow> string) \<Rightarrow> item_env \<Rightarrow> QuotaOutboxItem \<Rightarrow> outbox_row \<Rightarrow> quota_db \<Rightarrow> snap_redis \<Rightarrow>
   (quota_error + unit) \<Rightarrow> quota_db \<Rightarrow> snap_redis \<Rightarrow> bool" where
  "item_outcome cd sha env item o1 q s res q' s' \<longleftrightarrow>
     ft_rows (qd_fleet q') = ft_rows (qd_fleet q) \<and>
     (\<forall>x. x \<noteq> qo_AccountID item \<longrightarrow> map_of (qd_outbox q') x = map_of (qd_outbox q) x) \<and>
     (case res of
        Inl _ \<Rightarrow> waits env item o1 (map_of (qd_outbox q') (qo_AccountID item))
      | Inr _ \<Rightarrow> map_of (qd_outbox q') (qo_AccountID item) = None \<and>
          ((s' = s \<and> fence_of (qd_fleet q) (qo_AccountID item) \<notin> {None, Some (qo_FenceEpoch item)}) \<or>
           PublishQuota cd sha (it_publish env) (qo_Platform item) (qo_Group item) (qo_AccountID item) (qo_Quota item) (it_others env s) = (Inr (), s')))"

lemma retry_outcome:
  assumes "map_of (qd_outbox q) (qo_AccountID item) = Some o1" "retry_item env item cause q = (res, q')"
  shows "item_outcome cd sha env item o1 q s res q' s'"
  using retry_item_waits[OF assms] by (simp add: item_outcome_def)

lemma ack_outcome:
  assumes "AckQuotaOutbox fault (qo_AccountID item) e q = Inr q'"
    "(s' = s \<and> fence_of (qd_fleet q) (qo_AccountID item) \<notin> {None, Some (qo_FenceEpoch item)}) \<or>
     PublishQuota cd sha (it_publish env) (qo_Platform item) (qo_Group item) (qo_AccountID item) (qo_Quota item) (it_others env s) = (Inr (), s')"
  shows "item_outcome cd sha env item o1 q s (Inr ()) q' s'"
  using AckQuotaOutbox_Inr[OF assms(1)] assms(2) by (simp add: item_outcome_def)

lemma reconcile_locked_outcome:
  assumes row: "map_of (qd_outbox q) (qo_AccountID item) = Some o1" and run: "reconcile_locked cd sha env item (q, s) = (res, q', s')"
  shows "item_outcome cd sha env item o1 q s res q' s'"
proof (cases "CurrentFence (it_fenceFault env) (qo_AccountID item) q")
  case (Inl e)
  then show ?thesis using run retry_outcome[OF row] by (simp add: reconcile_locked_def split: prod.splits)
next
  case (Inr fence)
  then have f: "fence_of (qd_fleet q) (qo_AccountID item) = Some fence" by (auto simp: CurrentFence_def split: if_splits option.splits)
  show ?thesis
  proof (cases "fence = qo_FenceEpoch item")
    case False
    show ?thesis
    proof (cases "AckQuotaOutbox (it_ackFault env) (qo_AccountID item) (qo_FenceEpoch item) q")
      case (Inl e)
      then show ?thesis using run Inr False row by (auto simp: reconcile_locked_def item_outcome_def waits_def)
    next
      case (Inr q2)
      then show ?thesis using run \<open>CurrentFence _ _ _ = _\<close> False f ack_outcome[OF Inr, of s s] by (auto simp: reconcile_locked_def)
    qed
  next
    case True
    obtain p s2 where p: "PublishQuota cd sha (it_publish env) (qo_Platform item) (qo_Group item) (qo_AccountID item) (qo_Quota item) (it_others env s) = (p, s2)"
      by fastforce
    show ?thesis
    proof (cases p)
      case (Inl e)
      then show ?thesis using run Inr True p retry_outcome[OF row] by (simp add: reconcile_locked_def split: prod.splits)
    next
      case ok: (Inr u)
      show ?thesis
      proof (cases "AckQuotaOutbox (it_ackFault env) (qo_AccountID item) (qo_FenceEpoch item) q")
        case (Inl e)
        then show ?thesis using run Inr True p ok retry_outcome[OF row] by (simp add: reconcile_locked_def split: prod.splits)
      next
        case ack: (Inr q2)
        then show ?thesis using run Inr True p ok ack_outcome[OF ack, of s2 s] by (auto simp: reconcile_locked_def)
      qed
    qed
  qed
qed

lemma item_outcome_fleet:
  "ft_rows db = ft_rows (qd_fleet q) \<Longrightarrow>
     item_outcome cd sha env item o1 (with_fleet q db) s res q' s' = item_outcome cd sha env item o1 q s res q' s'"
  "ft_rows db = ft_rows (qd_fleet q') \<Longrightarrow>
     item_outcome cd sha env item o1 q s res (with_fleet q' db) s' = item_outcome cd sha env item o1 q s res q' s'"
  by (simp_all add: item_outcome_def fence_of_def split: sum.split)

lemma reconcileItem_outcome:
  assumes row: "map_of (qd_outbox q) (qo_AccountID item) = Some o1" and run: "reconcileItem cd sha lockKey env item (q, s) = (res, q', s')"
  shows "item_outcome cd sha env item o1 q s res q' s'"
proof (cases "TryLock lockKey (it_lockFault env) (qo_AccountID item) (qd_fleet q)")
  case (Inl e)
  then show ?thesis using run retry_outcome[OF row] by (simp add: reconcileItem_def split: prod.splits)
next
  case lock: (Inr l)
  show ?thesis
  proof (cases l)
    case None
    then show ?thesis using run lock retry_outcome[OF row] by (simp add: reconcileItem_def split: prod.splits)
  next
    case (Some db1)
    have db1: "ft_rows db1 = ft_rows (qd_fleet q)"
      using lock Some by (auto simp: TryLock_def TryAcquireSingleton_def split: if_splits)
    obtain q2 where q2: "reconcile_locked cd sha env item (with_fleet q db1, s) = (res, q2, s')"
      "q' = with_fleet q2 (unlock (lockKey (qo_AccountID item)) (qd_fleet q2))"
      using run lock Some by (auto simp: reconcileItem_def split: prod.splits)
    have "item_outcome cd sha env item o1 (with_fleet q db1) s res q2 s'"
      by (rule reconcile_locked_outcome[OF _ q2(1)]) (simp add: row)
    then show ?thesis unfolding q2(2) by (simp add: item_outcome_fleet db1 unlock_def)
  qed
qed


lemma reconcile_items_frame:
  assumes "reconcile_items cd sha lockKey env items (q, s) = (errs, q', s')"
    "\<forall>i \<in> set items. map_of (qd_outbox q) (qo_AccountID i) \<noteq> None" "distinct (map qo_AccountID items)"
  shows "ft_rows (qd_fleet q') = ft_rows (qd_fleet q) \<and>
    (\<forall>x. x \<notin> qo_AccountID ` set items \<longrightarrow> map_of (qd_outbox q') x = map_of (qd_outbox q) x \<and> x \<notin> fst ` set errs)"
  using assms
proof (induction items arbitrary: q s errs)
  case (Cons i items)
  obtain res q1 s1 where one: "reconcileItem cd sha lockKey (env (qo_AccountID i)) i (q, s) = (res, q1, s1)" by (metis prod_cases3)
  obtain errs1 where rest: "reconcile_items cd sha lockKey env items (q1, s1) = (errs1, q', s')"
    and errs: "errs = (case res of Inl e \<Rightarrow> (qo_AccountID i, e) # errs1 | Inr _ \<Rightarrow> errs1)"
    using Cons.prems(1) one by (auto split: prod.splits)
  obtain o1 where o1: "map_of (qd_outbox q) (qo_AccountID i) = Some o1" using Cons.prems(2) by auto
  from reconcileItem_outcome[OF o1 one] have same: "ft_rows (qd_fleet q1) = ft_rows (qd_fleet q)"
    "\<And>x. x \<noteq> qo_AccountID i \<Longrightarrow> map_of (qd_outbox q1) x = map_of (qd_outbox q) x" by (auto simp: item_outcome_def)
  have "qo_AccountID j \<noteq> qo_AccountID i" if "j \<in> set items" for j using Cons.prems(3) that by (auto simp: image_iff)
  then have "\<forall>j \<in> set items. map_of (qd_outbox q1) (qo_AccountID j) \<noteq> None" using Cons.prems(2) same(2) by simp
  from Cons.IH[OF rest this] Cons.prems(3) same show ?case by (auto simp: errs split: sum.splits)
qed simp

text \<open>A pass up to an item, the item, and the pass after it.\<close>

lemma reconcile_items_split:
  assumes "reconcile_items cd sha lockKey env (before @ i # after) (q, s) = (errs, q', s')"
  obtains errs1 q1 s1 res q2 s2 errs2 where
    "reconcile_items cd sha lockKey env before (q, s) = (errs1, q1, s1)"
    "reconcileItem cd sha lockKey (env (qo_AccountID i)) i (q1, s1) = (res, q2, s2)"
    "reconcile_items cd sha lockKey env after (q2, s2) = (errs2, q', s')"
    "errs = errs1 @ (case res of Inl e \<Rightarrow> [(qo_AccountID i, e)] | Inr _ \<Rightarrow> []) @ errs2"
proof -
  have "\<exists>errs1 q1 s1 res q2 s2 errs2. reconcile_items cd sha lockKey env before (q, s) = (errs1, q1, s1) \<and>
    reconcileItem cd sha lockKey (env (qo_AccountID i)) i (q1, s1) = (res, q2, s2) \<and>
    reconcile_items cd sha lockKey env after (q2, s2) = (errs2, q', s') \<and>
    errs = errs1 @ (case res of Inl e \<Rightarrow> [(qo_AccountID i, e)] | Inr _ \<Rightarrow> []) @ errs2"
    using assms
  proof (induction before arbitrary: q s errs)
    case Nil
    then show ?case by (auto split: prod.splits sum.splits)
  next
    case (Cons j before)
    obtain r q0 s0 where j: "reconcileItem cd sha lockKey (env (qo_AccountID j)) j (q, s) = (r, q0, s0)" by (metis prod_cases3)
    obtain errs0 where "reconcile_items cd sha lockKey env (before @ i # after) (q0, s0) = (errs0, q', s')"
      "errs = (case r of Inl e \<Rightarrow> [(qo_AccountID j, e)] | Inr _ \<Rightarrow> []) @ errs0"
      using Cons.prems j by (auto split: prod.splits sum.splits)
    from Cons.IH[OF this(1)] this(2) j show ?case by (fastforce split: sum.splits)
  qed
  with that show thesis by blast
qed

lemma change_outbox_of:
  "map_of (qd_outbox (change_outbox aid e f q)) x =
     (case map_of (qd_outbox q) x of None \<Rightarrow> None | Some o1 \<Rightarrow> Some (if x = aid \<and> ob_fence_epoch o1 = e then f o1 else o1))"
  "qd_fleet (change_outbox aid e f q) = qd_fleet q"
  by (auto simp: change_outbox_def update_conv' split: option.split)

lemma claim_rows:
  "distinct (map qo_AccountID items) \<Longrightarrow>
     (\<And>i. i \<in> set items \<Longrightarrow> \<exists>o1. map_of (qd_outbox q) (qo_AccountID i) = Some o1 \<and> ob_fence_epoch o1 = qo_FenceEpoch i) \<Longrightarrow>
     qd_fleet (fold (\<lambda>i. change_outbox (qo_AccountID i) (qo_FenceEpoch i) (claim_row now)) items q) = qd_fleet q \<and>
     map_of (qd_outbox (fold (\<lambda>i. change_outbox (qo_AccountID i) (qo_FenceEpoch i) (claim_row now)) items q)) x =
       (if x \<in> qo_AccountID ` set items then map_option (claim_row now) (map_of (qd_outbox q) x) else map_of (qd_outbox q) x)"
proof (induction items arbitrary: q)
  case (Cons i items)
  obtain o1 where o1: "map_of (qd_outbox q) (qo_AccountID i) = Some o1" "ob_fence_epoch o1 = qo_FenceEpoch i" using Cons.prems(2)[of i] by auto
  have fresh: "qo_AccountID j \<noteq> qo_AccountID i" if "j \<in> set items" for j using Cons.prems(1) that by (auto simp: image_iff)
  have "\<exists>o1. map_of (qd_outbox (change_outbox (qo_AccountID i) (qo_FenceEpoch i) (claim_row now) q)) (qo_AccountID j) = Some o1 \<and>
      ob_fence_epoch o1 = qo_FenceEpoch j" if "j \<in> set items" for j
    using Cons.prems(2)[of j] that fresh[OF that] by (auto simp: change_outbox_of)
  note IH = Cons.IH[OF _ this]
  show ?case using IH Cons.prems(1) o1 by (auto simp: change_outbox_of split: option.split)
qed simp

lemma distinct_due: "distinct (map fst xs) \<Longrightarrow> distinct (map fst (take n (sort_key f (filter P xs))))"
proof -
  assume d: "distinct (map fst xs)"
  have "set (take n (sort_key f (filter P xs))) \<subseteq> set xs" by (auto dest: in_set_takeD)
  then show ?thesis using d by (auto simp: distinct_map intro: inj_on_subset)
qed

lemma ClaimQuotaOutbox_Inr:
  assumes "ClaimQuotaOutbox qc fault now limit q = (Inr items, q1)" "distinct (map fst (qd_outbox q))"
  shows "qd_fleet q1 = qd_fleet q" "distinct (map qo_AccountID items)"
    "\<And>i. i \<in> set items \<Longrightarrow> \<exists>o1. map_of (qd_outbox q) (qo_AccountID i) = Some o1 \<and> outbox_item qc (qo_AccountID i, o1) = Some i"
    "\<And>x. map_of (qd_outbox q1) x =
       (if x \<in> qo_AccountID ` set items then map_option (claim_row now) (map_of (qd_outbox q) x) else map_of (qd_outbox q) x)"
proof -
  define rows where "rows = take (nat limit) (sort_key (\<lambda>(aid, o1). (ob_next_attempt_at o1, ob_updated_at o1))
    (filter (outbox_due now \<circ> snd) (qd_outbox q)))"
  have ok: "\<And>r. r \<in> set rows \<Longrightarrow> outbox_item qc r \<noteq> None" and items: "items = map (the \<circ> outbox_item qc) rows"
    and q1: "q1 = fold (\<lambda>i. change_outbox (qo_AccountID i) (qo_FenceEpoch i) (claim_row now)) items q"
    using assms(1) unfolding ClaimQuotaOutbox_def Let_def rows_def[symmetric] by (auto split: if_splits)
  have ids: "outbox_item qc r = Some i \<Longrightarrow> qo_AccountID i = fst r \<and> qo_FenceEpoch i = ob_fence_epoch (snd r)" for r i
    by (auto simp: outbox_item_def split: option.splits)
  have "map qo_AccountID items = map fst rows" using ok ids by (auto simp: items)
  then show dist: "distinct (map qo_AccountID items)" using distinct_due[OF assms(2)] by (simp add: rows_def)
  have sub: "set rows \<subseteq> set (qd_outbox q)" by (auto simp: rows_def dest: in_set_takeD)
  show mem: "\<exists>o1. map_of (qd_outbox q) (qo_AccountID i) = Some o1 \<and> outbox_item qc (qo_AccountID i, o1) = Some i" if i: "i \<in> set items" for i
  proof -
    obtain r where r: "r \<in> set rows" "i = the (outbox_item qc r)" using i by (auto simp: items)
    then have some: "outbox_item qc r = Some i" using ok[OF r(1)] by auto
    have "map_of (qd_outbox q) (fst r) = Some (snd r)" using r(1) sub assms(2) by (intro map_of_is_SomeI) auto
    then show ?thesis using some ids[OF some] by auto
  qed
  have "\<exists>o1. map_of (qd_outbox q) (qo_AccountID i) = Some o1 \<and> ob_fence_epoch o1 = qo_FenceEpoch i" if i: "i \<in> set items" for i
  proof -
    obtain o1 where o1: "map_of (qd_outbox q) (qo_AccountID i) = Some o1" "outbox_item qc (qo_AccountID i, o1) = Some i"
      using mem[OF i] by blast
    then show ?thesis using ids[OF o1(2)] by simp
  qed
  note claim = claim_rows[OF dist this, of now]
  show "qd_fleet q1 = qd_fleet q" using claim by (simp add: q1)
  show "\<And>x. map_of (qd_outbox q1) x =
       (if x \<in> qo_AccountID ` set items then map_option (claim_row now) (map_of (qd_outbox q) x) else map_of (qd_outbox q) x)"
    using claim by (simp add: q1)
qed


text \<open>
  C18.  The quota outbox forgets nothing.  After a pass of the reconciler that claimed its batch,
  whatever faults occurred and whatever other clients did to Redis between its items, every row of
  the outbox is still there with its quota, fence and bucket, unless the account is not among the
  reported errors and either its fence has moved on, so that a newer writer owns the account, or
  the row's quota was published: in this pass, on the Redis that the items before it and the other
  clients had left, with the result the items after it started from.  A claimed row that stays is
  due again after at least a minute and at most a quarter of an hour, or keeps the claim's lease.
\<close>

theorem quota_outbox_forgets_nothing:
  assumes run: "QuotaReconciler_RunOnce cd sha qc lockKey fault now env (q, s) = (Inr errs, q', s')"
    and keys: "distinct (map fst (qd_outbox q))" and row: "map_of (qd_outbox q) aid = Some o1"
  shows "(\<exists>o2. map_of (qd_outbox q') aid = Some o2 \<and> ob_quota o2 = ob_quota o1 \<and> ob_fence_epoch o2 = ob_fence_epoch o1 \<and>
       ob_platform o2 = ob_platform o1 \<and> ob_group o2 = ob_group o1 \<and>
       (o2 = o1 \<or> o2 = claim_row now o1 \<or>
        (aid \<in> fst ` set errs \<and> ob_locked_until o2 = None \<and>
         (\<exists>d. ob_next_attempt_at o2 = pg_time (it_now (env aid) + d) \<and> 60 * second \<le> d \<and> d \<le> 15 * 60 * second)))) \<or>
    (map_of (qd_outbox q') aid = None \<and> aid \<notin> fst ` set errs \<and>
     (fence_of (qd_fleet q) aid \<notin> {None, Some (ob_fence_epoch o1)} \<or>
      (\<exists>before i after q0 errs1 q1 s1 q2 s2 errs2.
         ClaimQuotaOutbox qc fault now (int quotaBatchSize) q = (Inr (before @ i # after), q0) \<and>
         qo_AccountID i = aid \<and> qc_unmarshal qc (ob_quota o1) = Some (qo_Quota i) \<and>
         reconcile_items cd sha lockKey env before (q0, s) = (errs1, q1, s1) \<and>
         PublishQuota cd sha (it_publish (env aid)) (ob_platform o1) (ob_group o1) aid (qo_Quota i) (it_others (env aid) s1) = (Inr (), s2) \<and>
         reconcile_items cd sha lockKey env after (q2, s2) = (errs2, q', s'))))"
proof -
  obtain items q0 where claim: "ClaimQuotaOutbox qc fault now (int quotaBatchSize) q = (Inr items, q0)"
    and rest: "reconcile_items cd sha lockKey env items (q0, s) = (errs, q', s')"
    using run by (auto simp: QuotaReconciler_RunOnce_def split: prod.splits sum.splits)
  note c = ClaimQuotaOutbox_Inr[OF claim keys]
  have kept: "\<forall>i \<in> set items. map_of (qd_outbox q0) (qo_AccountID i) \<noteq> None" using c(3,4) by fastforce
  show ?thesis
  proof (cases "aid \<in> qo_AccountID ` set items")
    case False
    then have "map_of (qd_outbox q') aid = Some o1"
      using reconcile_items_frame[OF rest kept c(2)] c(4)[of aid] row by simp
    then show ?thesis by simp
  next
    case True
    then obtain before i after where i: "items = before @ i # after" "qo_AccountID i = aid" by (metis image_iff split_list)
    have item: "outbox_item qc (aid, o1) = Some i" using c(3)[of i] row i by simp
    have q0: "map_of (qd_outbox q0) aid = Some (claim_row now o1)" using c(4)[of aid] True row by simp
    from rest[unfolded i(1)] obtain errs1 q1 s1 res q2 s2 errs2 where
      b: "reconcile_items cd sha lockKey env before (q0, s) = (errs1, q1, s1)"
      and one0: "reconcileItem cd sha lockKey (env (qo_AccountID i)) i (q1, s1) = (res, q2, s2)"
      and a: "reconcile_items cd sha lockKey env after (q2, s2) = (errs2, q', s')"
      and errs0: "errs = errs1 @ (case res of Inl e \<Rightarrow> [(qo_AccountID i, e)] | Inr _ \<Rightarrow> []) @ errs2"
      by (rule reconcile_items_split)
    note one = one0[unfolded i(2)] and errs = errs0[unfolded i(2)]
    have dist: "distinct (map qo_AccountID before)" "distinct (map qo_AccountID after)"
      "aid \<notin> qo_AccountID ` set before" "aid \<notin> qo_AccountID ` set after"
      "\<And>j. j \<in> set after \<Longrightarrow> qo_AccountID j \<notin> qo_AccountID ` set before \<and> qo_AccountID j \<noteq> aid"
      using c(2) i by (auto simp: image_iff)
    have kb: "\<forall>j \<in> set before. map_of (qd_outbox q0) (qo_AccountID j) \<noteq> None" using kept i(1) by simp
    note fb = reconcile_items_frame[OF b kb dist(1)]
    have q1: "map_of (qd_outbox q1) (qo_AccountID i) = Some (claim_row now o1)" using fb dist(3) q0 i(2) by simp
    have one': "reconcileItem cd sha lockKey (env aid) i (q1, s1) = (res, q2, s2)" by (rule one)
    note o = reconcileItem_outcome[OF q1 one']
    have "\<forall>j \<in> set after. map_of (qd_outbox q2) (qo_AccountID j) \<noteq> None"
    proof
      fix j assume j: "j \<in> set after"
      have "map_of (qd_outbox q2) (qo_AccountID j) = map_of (qd_outbox q0) (qo_AccountID j)"
        using o fb dist(5)[OF j] i(2) by (simp add: item_outcome_def)
      then show "map_of (qd_outbox q2) (qo_AccountID j) \<noteq> None" using kept j i(1) by simp
    qed
    note fa = reconcile_items_frame[OF a this dist(2)]
    have last: "map_of (qd_outbox q') aid = map_of (qd_outbox q2) aid" "aid \<in> fst ` set errs \<longleftrightarrow> isl res"
      using fa fb dist(3,4) by (cases res; auto simp: errs)+
    define d where "d = min quotaOutboxMaxBackoff (quotaOutboxMinBackoff * 2 ^ nat (max 1 (qo_Attempts i) - 1))"
    have d: "60 * second \<le> d" "d \<le> 15 * 60 * second"
      using quotaOutboxBackoff_closed[of "qo_Attempts i"] by (simp_all add: d_def quotaOutboxMinBackoff_def quotaOutboxMaxBackoff_def)
    show ?thesis
    proof (cases res)
      case (Inl e)
      then have "waits (env aid) i (claim_row now o1) (map_of (qd_outbox q') aid)" "aid \<in> fst ` set errs"
        using o i(2) last by (simp_all add: item_outcome_def)
      then show ?thesis using d unfolding waits_def d_def[symmetric] by (auto simp: claim_row_def)
    next
      case (Inr u)
      have f: "fence_of (qd_fleet q1) aid = fence_of (qd_fleet q) aid" using fb c(1) by (simp add: fence_of_def)
      have it: "qo_Platform i = ob_platform o1" "qo_Group i = ob_group o1" "qo_FenceEpoch i = ob_fence_epoch o1"
        "qc_unmarshal qc (ob_quota o1) = Some (qo_Quota i)" using item by (auto simp: outbox_item_def split: option.splits)
      have gone: "map_of (qd_outbox q') aid = None" "aid \<notin> fst ` set errs"
        using o Inr i(2) last by (simp_all add: item_outcome_def)
      have "fence_of (qd_fleet q) aid \<notin> {None, Some (ob_fence_epoch o1)} \<or>
          PublishQuota cd sha (it_publish (env aid)) (ob_platform o1) (ob_group o1) aid (qo_Quota i) (it_others (env aid) s1) = (Inr (), s2)"
        using o Inr i(2) it f by (auto simp: item_outcome_def)
      then show ?thesis
      proof
        assume "PublishQuota cd sha (it_publish (env aid)) (ob_platform o1) (ob_group o1) aid (qo_Quota i) (it_others (env aid) s1) = (Inr (), s2)"
        with gone it(4) claim i b a show ?thesis by blast
      qed (use gone in blast)
    qed
  qed
qed

section \<open>Samples\<close>

definition quota_items :: "QuotaItem list" where
  "quota_items = [\<lparr>qi_Scope = ''account'', qi_Model = '''', qi_Unit = ''requests'', qi_Limit = Some 10, qi_Remaining = Some 4,
     qi_LimitExact = None, qi_RemainingExact = None, qi_RemainingFraction = None, qi_Precision = None, qi_ResetAt = None\<rparr>]"

definition sample_entry2 :: Entry where
  "sample_entry2 = entry_of (\<lambda>x. x) ''claude'' ''default'' 2 ((demo_account ''a'')\<lparr>ac_Quota := quota_items\<rparr>)"

definition two_entries :: snapshot_codec where
  "two_entries = \<lparr>sc_marshal = (\<lambda>e. if e = sample_entry then Some ''entry'' else if e = sample_entry2 then Some ''entry2'' else None),
     sc_unmarshal = (\<lambda>raw. if raw = ''entry'' then Some sample_entry else if raw = ''entry2'' then Some sample_entry2 else None),
     sc_identity = concat, sc_names = (\<lambda>raw. None)\<rparr>"

definition first_published :: snap_redis where
  "first_published = snd (Publish two_entries (\<lambda>x. x) Answered 0 1000 ''claude'' ''default'' 0 [demo_account ''a''] empty_snap)"

definition calm_env :: publish_env where
  "calm_env = \<lparr>pe_views = ((Answered, 1000, first_published), (Answered, 1000, first_published), (Answered, 1000, first_published),
     (Answered, 1000, first_published)), pe_conn = Answered, pe_now = 500, pe_rnow = 2000\<rparr>"

definition second_published :: snap_redis where
  "second_published = snd (PublishQuota two_entries (\<lambda>x. x) calm_env ''claude'' ''default'' ''a'' (Some quota_items) first_published)"

abbreviation first_generations :: "generation list" where
  "first_generations \<equiv> published two_entries (\<lambda>x. x) Answered 0 1000 ''claude'' ''default'' 0 [demo_account ''a''] empty_snap"

lemma two_entries_ok: "codec_ok two_entries"
  by (simp add: codec_ok_def two_entries_def)

lemma first_reachable: "snap_reachable two_entries (\<lambda>x. x) (first_generations, first_published, 1000)"
proof -
  have "snap_step two_entries (\<lambda>x. x) ([], empty_snap, 0) ([] @ first_generations, first_published, 1000)"
    unfolding first_published_def by (intro snap_step.publish sample_keys) simp
  then show ?thesis unfolding snap_reachable_def by auto
qed

lemma quota_published: "fst (PublishQuota two_entries (\<lambda>x. x) calm_env ''claude'' ''default'' ''a'' (Some quota_items) first_published) = Inr ()"
  by code_simp

lemma quota_unpublished: "\<forall>g \<in> set first_generations. \<not> same_quota ''a'' (Some quota_items) (gn_Accounts g)"
  by code_simp

theorem quota_publish_keeps_pool_witness:
  "\<exists>g \<in> set first_generations. \<exists>g'. gn_Version g' = gn_Version g + 1 \<and>
     snap_step two_entries (\<lambda>x. x) (first_generations, first_published, 1000) (first_generations @ [g'], second_published, 2000)"
proof -
  have run: "PublishQuota two_entries (\<lambda>x. x) calm_env ''claude'' ''default'' ''a'' (Some quota_items) first_published = (Inr (), second_published)"
    using quota_published by (simp add: second_published_def prod_eq_iff)
  have "1000 \<le> pe_rnow calm_env" "pe_rnow calm_env = 2000" by (simp_all add: calm_env_def)
  then show ?thesis
    using quota_publish_keeps_pool[OF two_entries_ok first_reachable rtranclp.rtrancl_refl rtranclp.rtrancl_refl rtranclp.rtrancl_refl
        rtranclp.rtrancl_refl _ _ run, of Answered Answered Answered Answered] quota_unpublished
    by (auto simp: calm_env_def)
qed

definition sample_outbox :: quota_db where
  "sample_outbox = \<lparr>qd_fleet = sample_fleet, qd_outbox = [(''a'', \<lparr>ob_platform = ''codex'', ob_group = ''default'', ob_fence_epoch = 1,
     ob_quota = ''q'', ob_attempts = 0, ob_next_attempt_at = 5, ob_locked_until = None, ob_last_error = '''', ob_updated_at = 5\<rparr>)]\<rparr>"

definition lost_env :: item_env where
  "lost_env = \<lparr>it_others = (\<lambda>s. s), it_now = 7000, it_dbnow = 7000, it_lockFault = False, it_fenceFault = False, it_ackFault = False, it_retryFault = False,
     it_publish = calm_env\<lparr>pe_views := ((NotRun, 1000, first_published), (NotRun, 1000, first_published), (NotRun, 1000, first_published),
     (NotRun, 1000, first_published))\<rparr>\<rparr>"

definition sample_qc :: quota_codec where
  "sample_qc = \<lparr>qc_marshal = (\<lambda>_. Some ''q''), qc_unmarshal = (\<lambda>_. Some (Some quota_items))\<rparr>"

definition lost_run :: "(quota_error + (string \<times> quota_error) list) \<times> quota_db \<times> snap_redis" where
  "lost_run = QuotaReconciler_RunOnce two_entries (\<lambda>x. x) sample_qc (\<lambda>_. 7) False 6 (\<lambda>_. lost_env) (sample_outbox, first_published)"

lemma lost_run_errors: "fst lost_run = Inr [(''a'', QuotaLoadFailed NoActive)]"
  by code_simp

theorem quota_outbox_forgets_nothing_witness:
  "\<exists>o2. map_of (qd_outbox (fst (snd lost_run))) ''a'' = Some o2 \<and> ob_quota o2 = ''q''"
proof -
  have run: "QuotaReconciler_RunOnce two_entries (\<lambda>x. x) sample_qc (\<lambda>_. 7) False 6 (\<lambda>_. lost_env) (sample_outbox, first_published)
      = (Inr [(''a'', QuotaLoadFailed NoActive)], fst (snd lost_run), snd (snd lost_run))"
    using lost_run_errors by (simp add: lost_run_def prod_eq_iff)
  have keys: "distinct (map fst (qd_outbox sample_outbox))" by (simp add: sample_outbox_def)
  have row: "map_of (qd_outbox sample_outbox) ''a'' = Some (snd (hd (qd_outbox sample_outbox)))" by (simp add: sample_outbox_def)
  have "ob_quota (snd (hd (qd_outbox sample_outbox))) = ''q''" by (simp add: sample_outbox_def)
  then show ?thesis using quota_outbox_forgets_nothing[OF run keys row] by auto
qed

end
