(* ===== verification/Wrapper.thy ===== *)
theory Wrapper
  imports EventStream "HOL-Library.State_Monad"
begin

text \<open>
  The job queue between control and the login workers: the contracts of
  \<^verbatim>\<open>pkg/contracts/wrapper.go\<close>, the queue of \<^verbatim>\<open>internal/control/wrapper/queue.go\<close> and one turn of
  \<^verbatim>\<open>internal/control/wrapper/worker.go\<close>.  An operation is a sequence of Redis commands in the state
  monad; before every command other clients may have run, and how the call goes is an argument.
\<close>

section \<open>Contracts\<close>

definition MaxWrapperEnvelopeBytes :: int where
  "MaxWrapperEnvelopeBytes = 2 ^ 20"

abbreviation WrapperAuthorize :: string where
  "WrapperAuthorize \<equiv> ''authorize''"

abbreviation WrapperRefresh :: string where
  "WrapperRefresh \<equiv> ''refresh''"

definition WrapperOperation_Valid :: "string \<Rightarrow> bool" where
  "WrapperOperation_Valid oper \<longleftrightarrow> oper = WrapperAuthorize \<or> oper = WrapperRefresh"

record WrapperJob =
  wj_SchemaVersion :: int
  wj_JobID :: string
  wj_Provider :: string
  wj_Operation :: string
  wj_AccountID :: string
  wj_FenceEpoch :: int
  wj_EncryptedInput :: string

definition validFenceIdentity :: "string \<Rightarrow> int \<Rightarrow> bool" where
  "validFenceIdentity accountID fenceEpoch \<longleftrightarrow>
     (if trim_space accountID = '''' then fenceEpoch = 0 else int (length accountID) \<le> 256 \<and> fenceEpoch > 0)"

definition validWrapperID :: "string \<Rightarrow> bool" where
  "validWrapperID value \<longleftrightarrow> trim_space value \<noteq> '''' \<and> int (length value) \<le> 256"

definition WrapperJob_Validate :: "WrapperJob \<Rightarrow> bool" where
  "WrapperJob_Validate j \<longleftrightarrow>
     supportedSchemaVersion (wj_SchemaVersion j) \<and>
     validWrapperID (wj_JobID j) \<and> trim_space (wj_Provider j) \<noteq> '''' \<and> int (length (wj_Provider j)) \<le> 64 \<and>
     WrapperOperation_Valid (wj_Operation j) \<and>
     wj_EncryptedInput j \<noteq> '''' \<and> int (length (wj_EncryptedInput j)) \<le> MaxWrapperEnvelopeBytes \<and>
     validFenceIdentity (wj_AccountID j) (wj_FenceEpoch j) \<and>
     \<not> (wj_Operation j = WrapperRefresh \<and> (trim_space (wj_AccountID j) = '''' \<or> wj_FenceEpoch j \<le> 0))"

record WrapperClaim =
  wc_SchemaVersion :: int
  wc_WorkerID :: string
  wc_LeaseTTLSeconds :: int

definition WrapperClaim_Validate :: "WrapperClaim \<Rightarrow> bool" where
  "WrapperClaim_Validate c \<longleftrightarrow>
     supportedSchemaVersion (wc_SchemaVersion c) \<and> validWrapperID (wc_WorkerID c) \<and> wc_LeaseTTLSeconds c > 0"

record WrapperLease =
  wl_SchemaVersion :: int
  wl_JobID :: string
  wl_LeaseID :: string
  wl_WorkerID :: string
  wl_AccountID :: string
  wl_FenceEpoch :: int
  wl_ExpiresAt :: time

definition validWrapperResult :: "int \<Rightarrow> string \<Rightarrow> string \<Rightarrow> string \<Rightarrow> string \<Rightarrow> int \<Rightarrow> bool" where
  "validWrapperResult schemaVersion jobID leaseID workerID accountID fenceEpoch \<longleftrightarrow>
     supportedSchemaVersion schemaVersion \<and> validWrapperID jobID \<and> validWrapperID leaseID \<and> validWrapperID workerID \<and>
     validFenceIdentity accountID fenceEpoch"

definition WrapperLease_Validate :: "WrapperLease \<Rightarrow> bool" where
  "WrapperLease_Validate l \<longleftrightarrow>
     supportedSchemaVersion (wl_SchemaVersion l) \<and> validWrapperID (wl_JobID l) \<and> validWrapperID (wl_LeaseID l) \<and>
     validWrapperID (wl_WorkerID l) \<and> \<not> is_zero_time (wl_ExpiresAt l) \<and> validFenceIdentity (wl_AccountID l) (wl_FenceEpoch l)"

record WrapperCompletion =
  wo_SchemaVersion :: int
  wo_JobID :: string
  wo_LeaseID :: string
  wo_WorkerID :: string
  wo_AccountID :: string
  wo_FenceEpoch :: int
  wo_EncryptedOutput :: string

record WrapperFailure =
  wf_SchemaVersion :: int
  wf_JobID :: string
  wf_LeaseID :: string
  wf_WorkerID :: string
  wf_AccountID :: string
  wf_FenceEpoch :: int
  wf_Code :: string
  wf_Retryable :: bool

definition validateWrapperLeaseResult :: "WrapperLease \<Rightarrow> string \<Rightarrow> string \<Rightarrow> string \<Rightarrow> string \<Rightarrow> int \<Rightarrow> bool" where
  "validateWrapperLeaseResult lease jobID leaseID workerID accountID fenceEpoch \<longleftrightarrow>
     WrapperLease_Validate lease \<and> jobID = wl_JobID lease \<and> leaseID = wl_LeaseID lease \<and> workerID = wl_WorkerID lease \<and>
     accountID = wl_AccountID lease \<and> fenceEpoch = wl_FenceEpoch lease"

definition WrapperCompletion_Validate :: "WrapperCompletion \<Rightarrow> bool" where
  "WrapperCompletion_Validate c \<longleftrightarrow>
     validWrapperResult (wo_SchemaVersion c) (wo_JobID c) (wo_LeaseID c) (wo_WorkerID c) (wo_AccountID c) (wo_FenceEpoch c) \<and>
     wo_EncryptedOutput c \<noteq> '''' \<and> int (length (wo_EncryptedOutput c)) \<le> MaxWrapperEnvelopeBytes"

definition WrapperCompletion_ValidateLease :: "WrapperCompletion \<Rightarrow> WrapperLease \<Rightarrow> bool" where
  "WrapperCompletion_ValidateLease c lease \<longleftrightarrow> WrapperCompletion_Validate c \<and>
     validateWrapperLeaseResult lease (wo_JobID c) (wo_LeaseID c) (wo_WorkerID c) (wo_AccountID c) (wo_FenceEpoch c)"

definition WrapperFailure_Validate :: "WrapperFailure \<Rightarrow> bool" where
  "WrapperFailure_Validate f \<longleftrightarrow>
     validWrapperResult (wf_SchemaVersion f) (wf_JobID f) (wf_LeaseID f) (wf_WorkerID f) (wf_AccountID f) (wf_FenceEpoch f) \<and>
     trim_space (wf_Code f) \<noteq> '''' \<and> int (length (wf_Code f)) \<le> 128"

definition WrapperFailure_ValidateLease :: "WrapperFailure \<Rightarrow> WrapperLease \<Rightarrow> bool" where
  "WrapperFailure_ValidateLease f lease \<longleftrightarrow> WrapperFailure_Validate f \<and>
     validateWrapperLeaseResult lease (wf_JobID f) (wf_LeaseID f) (wf_WorkerID f) (wf_AccountID f) (wf_FenceEpoch f)"

section \<open>The queue's keys and scripts\<close>

definition TerminalPrefix :: string where
  "TerminalPrefix = ''control:wrapper:terminal:v1:''"

definition enqueuePrefix :: string where
  "enqueuePrefix = ''control:wrapper:enqueued:v1:''"

definition leaseIDPrefix :: string where
  "leaseIDPrefix = ''control:wrapper:lease:id:v1:''"

definition leaseMsgPrefix :: string where
  "leaseMsgPrefix = ''control:wrapper:lease:message:v1:''"

definition terminalTTL :: duration where
  "terminalTTL = 7 * 24 * 3600 * second"

definition maxLeaseSeconds :: int where
  "maxLeaseSeconds = 15 * 60"

definition minClaimIdle :: duration where
  "minClaimIdle = second"

datatype wrapper_error =
    NilQueue
  | InvalidWrapper
  | JobNotDecoded
  | WrapperNotEncoded
  | RedisFailed
  | NoLeaseID
  | NothingQueued
  | ErrLeaseLost
  | ErrTerminalConflict

record leasedMessage =
  lm_MessageID :: string
  lm_Lease :: WrapperLease

datatype terminalEnvelope = Completed WrapperCompletion | Failed WrapperFailure

record wrapper_codec =
  wk_job :: "WrapperJob \<Rightarrow> string option"
  wk_read_job :: "string \<Rightarrow> WrapperJob option"
  wk_lease :: "leasedMessage \<Rightarrow> string option"
  wk_read_lease :: "string \<Rightarrow> leasedMessage option"
  wk_terminal :: "terminalEnvelope \<Rightarrow> string option"

text \<open>The stream of jobs with its group, the keys beside it, and the dead-letter stream.\<close>

record jobs_redis =
  jr_stream :: event_stream
  jr_dlq :: "(string \<times> wrapper_error \<times> time) list"

abbreviation jr_keys :: "jobs_redis \<Rightarrow> redis" where
  "jr_keys s \<equiv> xs_keys (jr_stream s)"

definition with_keys :: "(redis \<Rightarrow> redis) \<Rightarrow> jobs_redis \<Rightarrow> jobs_redis" where
  "with_keys f s = s\<lparr>jr_stream := (jr_stream s)\<lparr>xs_keys := f (jr_keys s)\<rparr>\<rparr>"

definition with_stream :: "(event_stream \<Rightarrow> event_stream) \<Rightarrow> jobs_redis \<Rightarrow> jobs_redis" where
  "with_stream f s = s\<lparr>jr_stream := f (jr_stream s)\<rparr>"

text \<open>A script answers a value, or an error for a command on a key of another type.\<close>

definition enqueueScript :: "string \<Rightarrow> string \<Rightarrow> time \<Rightarrow> jobs_redis \<Rightarrow> string option \<times> jobs_redis" where
  "enqueueScript jobID payload t s =
     (case redis_get t (enqueuePrefix @ jobID) (jr_keys s) of
        Inl _ \<Rightarrow> (None, s)
      | Inr (Some existing) \<Rightarrow> (Some existing, s)
      | Inr None \<Rightarrow>
          (let s1 = with_stream (xadd t [(''job_id'', jobID), (''payload'', payload)]) s;
               i = show_id (xs_last (jr_stream s1))
           in (Some i, with_keys (redis_set t (enqueuePrefix @ jobID) i terminalTTL) s1)))"

definition terminalScript ::
  "string \<Rightarrow> string \<Rightarrow> string \<Rightarrow> string \<Rightarrow> int \<Rightarrow> int \<Rightarrow> time \<Rightarrow> jobs_redis \<Rightarrow> int option \<times> jobs_redis"
where
  "terminalScript jobID payload leaseID messageID nowMilli expiresMilli t s =
     (case redis_get t (TerminalPrefix @ jobID) (jr_keys s) of
        Inl _ \<Rightarrow> (None, s)
      | Inr (Some existing) \<Rightarrow> (Some (if existing = payload then 1 else - 2), s)
      | Inr None \<Rightarrow>
          if nowMilli \<ge> expiresMilli then (Some (- 1), s)
          else if redis_live t (jr_keys s) (leaseIDPrefix @ leaseID) = None then (Some (- 1), s)
          else case redis_get t (leaseMsgPrefix @ messageID) (jr_keys s) of
              Inl _ \<Rightarrow> (None, s)
            | Inr owner \<Rightarrow>
                if owner \<noteq> Some leaseID then (Some (- 1), s)
                else
                  (let s1 = with_keys (redis_set t (TerminalPrefix @ jobID) payload terminalTTL) s in
                   case parse_id messageID of
                     None \<Rightarrow> (None, s1)
                   | Some i \<Rightarrow> (Some 0, with_keys (redis_del (leaseIDPrefix @ leaseID) \<circ> redis_del (leaseMsgPrefix @ messageID))
                       (with_stream (xack i) s1))))"

section \<open>Commands among other clients\<close>

record world =
  wd_client :: bool
  wd_conn :: "nat \<Rightarrow> redis_conn"
  wd_rnow :: "nat \<Rightarrow> time"
  wd_other :: "nat \<Rightarrow> jobs_redis \<Rightarrow> jobs_redis"
  wd_now :: "nat \<Rightarrow> time"
  wd_random :: "nat \<Rightarrow> string option"

type_synonym 'a op = "(nat \<times> jobs_redis, 'a) state"

definition call :: "world \<Rightarrow> (time \<Rightarrow> jobs_redis \<Rightarrow> 'a option \<times> jobs_redis) \<Rightarrow> 'a option op" where
  "call w f = State (\<lambda>(n, s).
     (let s1 = wd_other w n s in
      case wd_conn w n of
        Answered \<Rightarrow> (case f (wd_rnow w n) s1 of (a, s2) \<Rightarrow> (a, Suc n, s2))
      | ReplyLost \<Rightarrow> (None, Suc n, snd (f (wd_rnow w n) s1))
      | _ \<Rightarrow> (None, Suc n, s1)))"

definition clock :: "world \<Rightarrow> time op" where
  "clock w = State (\<lambda>(n, s). (wd_now w n, Suc n, s))"

definition newLeaseID :: "world \<Rightarrow> string option op" where
  "newLeaseID w = State (\<lambda>(n, s). (wd_random w n, Suc n, s))"

definition GET_key :: "world \<Rightarrow> string \<Rightarrow> string option option op" where
  "GET_key w k = call w (\<lambda>t s. (case redis_get t k (jr_keys s) of Inl _ \<Rightarrow> None | Inr v \<Rightarrow> Some v, s))"

definition EXISTS_key :: "world \<Rightarrow> string \<Rightarrow> bool option op" where
  "EXISTS_key w k = call w (\<lambda>t s. (Some (redis_live t (jr_keys s) k \<noteq> None), s))"

definition DEL_key :: "world \<Rightarrow> string \<Rightarrow> unit option op" where
  "DEL_key w k = call w (\<lambda>t s. (Some (), with_keys (redis_del k) s))"

definition SETNX_key :: "world \<Rightarrow> string \<Rightarrow> string \<Rightarrow> duration \<Rightarrow> bool option op" where
  "SETNX_key w k v ttl = call w (\<lambda>t s.
     if redis_live t (jr_keys s) k \<noteq> None then (Some False, s) else (Some True, with_keys (redis_set t k v ttl) s))"

definition XACK_job :: "world \<Rightarrow> stream_id \<Rightarrow> unit option op" where
  "XACK_job w i = call w (\<lambda>t s. (Some (), with_stream (xack i) s))"

text \<open>An answer with a new stream, or the error of a missing group.\<close>

definition on_answer :: "('a \<times> event_stream) option \<Rightarrow> jobs_redis \<Rightarrow> 'a option \<times> jobs_redis" where
  "on_answer answer s = (case answer of None \<Rightarrow> (None, s) | Some (a, x) \<Rightarrow> (Some a, s\<lparr>jr_stream := x\<rparr>))"


section \<open>The operations\<close>

definition Queue_Enqueue :: "wrapper_codec \<Rightarrow> world \<Rightarrow> WrapperJob \<Rightarrow> (wrapper_error + string) op" where
  "Queue_Enqueue wk w job =
     (if \<not> wd_client w then State_Monad.return (Inl NilQueue)
      else if \<not> WrapperJob_Validate job then State_Monad.return (Inl InvalidWrapper)
      else case wk_job wk job of
          None \<Rightarrow> State_Monad.return (Inl WrapperNotEncoded)
        | Some payload \<Rightarrow> do {
            r \<leftarrow> call w (enqueueScript (wj_JobID job) payload);
            State_Monad.return (case r of None \<Rightarrow> Inl RedisFailed | Some i \<Rightarrow> Inr i)
          })"

text \<open>A missing field prints as \<^verbatim>\<open><nil>\<close>.\<close>

definition decodeJob :: "wrapper_codec \<Rightarrow> message \<Rightarrow> wrapper_error + WrapperJob" where
  "decodeJob wk m =
     (case map_of (snd m) ''payload'' of
        None \<Rightarrow> Inl InvalidWrapper
      | Some raw \<Rightarrow>
          (case wk_read_job wk raw of
             None \<Rightarrow> Inl JobNotDecoded
           | Some job \<Rightarrow>
               if \<not> WrapperJob_Validate job then Inl InvalidWrapper
               else if (case map_of (snd m) ''job_id'' of None \<Rightarrow> ''<nil>'' | Some v \<Rightarrow> v) \<noteq> wj_JobID job then Inl InvalidWrapper
               else Inr job))"

definition ensureGroup :: "world \<Rightarrow> (wrapper_error + unit) op" where
  "ensureGroup w = do {
     r \<leftarrow> call w (\<lambda>t s. (Some (), with_stream xgroup_create s));
     State_Monad.return (case r of None \<Rightarrow> Inl RedisFailed | Some u \<Rightarrow> Inr u)
   }"

definition Queue_deadLetter :: "world \<Rightarrow> message \<Rightarrow> wrapper_error \<Rightarrow> (wrapper_error + unit) op" where
  "Queue_deadLetter w m reason = do {
     now \<leftarrow> clock w;
     added \<leftarrow> call w (\<lambda>t s. (Some (), s\<lparr>jr_dlq := jr_dlq s @ [(show_id (fst m), reason, now)]\<rparr>));
     case added of
       None \<Rightarrow> State_Monad.return (Inl RedisFailed)
     | Some _ \<Rightarrow> do {
         r \<leftarrow> XACK_job w (fst m);
         State_Monad.return (case r of None \<Rightarrow> Inl RedisFailed | Some u \<Rightarrow> Inr u)
       }
   }"

text \<open>Taking the marker back, if it is still the worker's own.\<close>

definition unmark :: "world \<Rightarrow> stream_id \<Rightarrow> string \<Rightarrow> unit op" where
  "unmark w i marker = do {
     current \<leftarrow> GET_key w (leaseMsgPrefix @ show_id i);
     if current = Some (Some marker)
     then do { _ \<leftarrow> DEL_key w (leaseMsgPrefix @ show_id i); State_Monad.return () }
     else State_Monad.return ()
   }"

definition marker_of :: "string \<Rightarrow> string" where
  "marker_of workerID = ''claiming:'' @ workerID"

fun try_pending :: "world \<Rightarrow> string \<Rightarrow> duration \<Rightarrow> stream_id list \<Rightarrow> (wrapper_error + message option) op" where
  "try_pending w workerID ttl [] = State_Monad.return (Inr None)"
| "try_pending w workerID ttl (i # rest) = do {
     exists \<leftarrow> EXISTS_key w (leaseMsgPrefix @ show_id i);
     case exists of
       None \<Rightarrow> State_Monad.return (Inl RedisFailed)
     | Some True \<Rightarrow> try_pending w workerID ttl rest
     | Some False \<Rightarrow> do {
         acquired \<leftarrow> SETNX_key w (leaseMsgPrefix @ show_id i) (marker_of workerID) ttl;
         case acquired of
           None \<Rightarrow> State_Monad.return (Inl RedisFailed)
         | Some False \<Rightarrow> try_pending w workerID ttl rest
         | Some True \<Rightarrow> do {
             claimed \<leftarrow> call w (\<lambda>t s. on_answer (xclaim t workerID minClaimIdle [i] (jr_stream s)) s);
             case claimed of
               None \<Rightarrow> do { _ \<leftarrow> unmark w i (marker_of workerID); State_Monad.return (Inl RedisFailed) }
             | Some ms \<Rightarrow>
                 if length ms = 1 then State_Monad.return (Inr (Some (hd ms)))
                 else do { _ \<leftarrow> unmark w i (marker_of workerID); try_pending w workerID ttl rest }
           }
       }
   }"

definition read_fresh :: "world \<Rightarrow> string \<Rightarrow> duration \<Rightarrow> (wrapper_error + message option) op" where
  "read_fresh w workerID ttl = do {
     streams \<leftarrow> call w (\<lambda>t s. on_answer (xreadgroup t workerID 1 (jr_stream s)) s);
     case streams of
       None \<Rightarrow> State_Monad.return (Inl RedisFailed)
     | Some [] \<Rightarrow> State_Monad.return (Inr None)
     | Some (m # _) \<Rightarrow> do {
         acquired \<leftarrow> SETNX_key w (leaseMsgPrefix @ show_id (fst m)) (marker_of workerID) ttl;
         State_Monad.return (case acquired of
             None \<Rightarrow> Inl RedisFailed
           | Some False \<Rightarrow> Inr None
           | Some True \<Rightarrow> Inr (Some m))
       }
   }"

definition nextMessage :: "world \<Rightarrow> string \<Rightarrow> duration \<Rightarrow> (wrapper_error + message option) op" where
  "nextMessage w workerID ttl = do {
     pending \<leftarrow> call w (\<lambda>t s. (map_option (\<lambda>g. take 32 (map xp_id (cg_pending g))) (xs_group (jr_stream s)), s));
     case pending of
       None \<Rightarrow> State_Monad.return (Inl RedisFailed)
     | Some ids \<Rightarrow> do {
         r \<leftarrow> try_pending w workerID ttl ids;
         case r of
           Inl e \<Rightarrow> State_Monad.return (Inl e)
         | Inr (Some m) \<Rightarrow> State_Monad.return (Inr (Some m))
         | Inr None \<Rightarrow> read_fresh w workerID ttl
       }
   }"

definition lease_for :: "WrapperClaim \<Rightarrow> WrapperJob \<Rightarrow> string \<Rightarrow> time \<Rightarrow> WrapperLease" where
  "lease_for claim job leaseID now =
     \<lparr>wl_SchemaVersion = SchemaVersion, wl_JobID = wj_JobID job, wl_LeaseID = leaseID, wl_WorkerID = wc_WorkerID claim,
      wl_AccountID = wj_AccountID job, wl_FenceEpoch = wj_FenceEpoch job,
      wl_ExpiresAt = now + wc_LeaseTTLSeconds claim * second\<rparr>"

text \<open>The pipeline of a claim: the lease under its ID and the owner of the message, in one transaction.\<close>

definition set_lease :: "string \<Rightarrow> string \<Rightarrow> string \<Rightarrow> duration \<Rightarrow> time \<Rightarrow> jobs_redis \<Rightarrow> jobs_redis" where
  "set_lease leaseID raw messageID ttl t =
     with_keys (redis_set t (leaseMsgPrefix @ messageID) leaseID ttl \<circ> redis_set t (leaseIDPrefix @ leaseID) raw ttl)"

definition grant :: "wrapper_codec \<Rightarrow> world \<Rightarrow> WrapperClaim \<Rightarrow> message \<Rightarrow> WrapperJob \<Rightarrow> (wrapper_error + WrapperJob \<times> WrapperLease) op" where
  "grant wk w claim m job = do {
     random \<leftarrow> newLeaseID w;
     case random of
       None \<Rightarrow> State_Monad.return (Inl NoLeaseID)
     | Some leaseID \<Rightarrow> do {
         now \<leftarrow> clock w;
         let lease = lease_for claim job leaseID now in
         case wk_lease wk \<lparr>lm_MessageID = show_id (fst m), lm_Lease = lease\<rparr> of
           None \<Rightarrow> State_Monad.return (Inl WrapperNotEncoded)
         | Some raw \<Rightarrow> do {
             r \<leftarrow> call w (\<lambda>t s. (Some (), set_lease leaseID raw (show_id (fst m)) (wc_LeaseTTLSeconds claim * second) t s));
             State_Monad.return (case r of None \<Rightarrow> Inl RedisFailed | Some _ \<Rightarrow> Inr (job, lease))
           }
       }
   }"

fun claim_loop :: "nat \<Rightarrow> wrapper_codec \<Rightarrow> world \<Rightarrow> WrapperClaim \<Rightarrow> (wrapper_error + WrapperJob \<times> WrapperLease) op" where
  "claim_loop 0 wk w claim = State_Monad.return (Inl NothingQueued)"
| "claim_loop (Suc k) wk w claim = do {
     next_m \<leftarrow> nextMessage w (wc_WorkerID claim) (wc_LeaseTTLSeconds claim * second);
     case next_m of
       Inl e \<Rightarrow> State_Monad.return (Inl e)
     | Inr None \<Rightarrow> State_Monad.return (Inl NothingQueued)
     | Inr (Some m) \<Rightarrow>
         (case decodeJob wk m of
            Inl e \<Rightarrow> do {
              dead \<leftarrow> Queue_deadLetter w m e;
              case dead of Inl _ \<Rightarrow> State_Monad.return (Inl e) | Inr _ \<Rightarrow> claim_loop k wk w claim
            }
          | Inr job \<Rightarrow> do {
              exists \<leftarrow> EXISTS_key w (TerminalPrefix @ wj_JobID job);
              case exists of
                None \<Rightarrow> State_Monad.return (Inl RedisFailed)
              | Some True \<Rightarrow> do {
                  acked \<leftarrow> XACK_job w (fst m);
                  case acked of None \<Rightarrow> State_Monad.return (Inl RedisFailed) | Some _ \<Rightarrow> claim_loop k wk w claim
                }
              | Some False \<Rightarrow> grant wk w claim m job
            })
   }"

definition Queue_Claim :: "wrapper_codec \<Rightarrow> world \<Rightarrow> WrapperClaim \<Rightarrow> (wrapper_error + WrapperJob \<times> WrapperLease) op" where
  "Queue_Claim wk w claim =
     (if \<not> wd_client w then State_Monad.return (Inl NilQueue)
      else if \<not> WrapperClaim_Validate claim then State_Monad.return (Inl InvalidWrapper)
      else if wc_LeaseTTLSeconds claim > maxLeaseSeconds then State_Monad.return (Inl InvalidWrapper)
      else do {
        group_ok \<leftarrow> ensureGroup w;
        case group_ok of Inl e \<Rightarrow> State_Monad.return (Inl e) | Inr _ \<Rightarrow> claim_loop 32 wk w claim
      })"

definition sameLease :: "WrapperLease \<Rightarrow> WrapperLease \<Rightarrow> bool" where
  "sameLease l r \<longleftrightarrow> wl_SchemaVersion l = wl_SchemaVersion r \<and> wl_JobID l = wl_JobID r \<and> wl_LeaseID l = wl_LeaseID r \<and>
     wl_WorkerID l = wl_WorkerID r \<and> wl_AccountID l = wl_AccountID r \<and> wl_FenceEpoch l = wl_FenceEpoch r \<and>
     wl_ExpiresAt l = wl_ExpiresAt r"

text \<open>The part of \<^verbatim>\<open>terminal\<close> that needs the lease; \<open>found\<close> is the result read before.\<close>

definition terminal_owned ::
  "wrapper_codec \<Rightarrow> world \<Rightarrow> WrapperLease \<Rightarrow> string \<Rightarrow> string option \<Rightarrow> (wrapper_error + unit) op"
where
  "terminal_owned wk w lease payload found = do {
     recordRaw \<leftarrow> GET_key w (leaseIDPrefix @ wl_LeaseID lease);
     case recordRaw of
       None \<Rightarrow> State_Monad.return (Inl RedisFailed)
     | Some None \<Rightarrow> State_Monad.return (if found \<noteq> None \<and> found \<noteq> Some '''' then Inr () else Inl ErrLeaseLost)
     | Some (Some raw) \<Rightarrow>
         (case wk_read_lease wk raw of
            None \<Rightarrow> State_Monad.return (Inl ErrLeaseLost)
          | Some rec \<Rightarrow>
              if \<not> sameLease (lm_Lease rec) lease then State_Monad.return (Inl ErrLeaseLost)
              else do {
                owner \<leftarrow> GET_key w (leaseMsgPrefix @ lm_MessageID rec);
                if owner \<noteq> Some (Some (wl_LeaseID lease)) then State_Monad.return (Inl ErrLeaseLost)
                else do {
                  now \<leftarrow> clock w;
                  r \<leftarrow> call w (terminalScript (wl_JobID lease) payload (wl_LeaseID lease) (lm_MessageID rec)
                         (unix_milli now) (unix_milli (wl_ExpiresAt lease)));
                  State_Monad.return (case r of
                      None \<Rightarrow> Inl RedisFailed
                    | Some v \<Rightarrow> if v = 0 \<or> v = 1 then Inr () else if v = - 2 then Inl ErrTerminalConflict else Inl ErrLeaseLost)
                }
              })
   }"

definition Queue_terminal ::
  "wrapper_codec \<Rightarrow> world \<Rightarrow> WrapperLease \<Rightarrow> terminalEnvelope \<Rightarrow> (wrapper_error + unit) op"
where
  "Queue_terminal wk w lease envelope =
     (if \<not> wd_client w then State_Monad.return (Inl NilQueue)
      else if \<not> WrapperLease_Validate lease then State_Monad.return (Inl InvalidWrapper)
      else case wk_terminal wk envelope of
          None \<Rightarrow> State_Monad.return (Inl WrapperNotEncoded)
        | Some payload \<Rightarrow> do {
            existing \<leftarrow> GET_key w (TerminalPrefix @ wl_JobID lease);
            case existing of
              None \<Rightarrow> State_Monad.return (Inl RedisFailed)
            | Some found \<Rightarrow>
                if found \<noteq> None \<and> found \<noteq> Some payload then State_Monad.return (Inl ErrTerminalConflict)
                else do {
                  now1 \<leftarrow> clock w;
                  if found \<noteq> None \<and> wl_ExpiresAt lease \<le> now1 then State_Monad.return (Inr ())
                  else do {
                    now2 \<leftarrow> clock w;
                    if wl_ExpiresAt lease \<le> now2 then State_Monad.return (Inl ErrLeaseLost)
                    else terminal_owned wk w lease payload found
                  }
                }
          })"

definition Queue_Complete :: "wrapper_codec \<Rightarrow> world \<Rightarrow> WrapperLease \<Rightarrow> WrapperCompletion \<Rightarrow> (wrapper_error + unit) op" where
  "Queue_Complete wk w lease completion =
     (if \<not> WrapperCompletion_ValidateLease completion lease then State_Monad.return (Inl InvalidWrapper)
      else Queue_terminal wk w lease (Completed completion))"

definition Queue_Fail :: "wrapper_codec \<Rightarrow> world \<Rightarrow> WrapperLease \<Rightarrow> WrapperFailure \<Rightarrow> (wrapper_error + unit) op" where
  "Queue_Fail wk w lease failure =
     (if \<not> WrapperFailure_ValidateLease failure lease then State_Monad.return (Inl InvalidWrapper)
      else Queue_terminal wk w lease (Failed failure))"

definition Queue_Terminal :: "world \<Rightarrow> string \<Rightarrow> (wrapper_error + string option) op" where
  "Queue_Terminal w jobID =
     (if \<not> wd_client w \<or> trim_space jobID = '''' then State_Monad.return (Inl InvalidWrapper)
      else do {
        r \<leftarrow> GET_key w (TerminalPrefix @ jobID);
        State_Monad.return (case r of None \<Rightarrow> Inl RedisFailed | Some v \<Rightarrow> Inr v)
      })"

section \<open>The worker\<close>

text \<open>The executor's answer: the output, or an error with the code and flag of an \<^verbatim>\<open>ExecutionError\<close>.\<close>

type_synonym execution = "(string \<times> bool) option + string"

definition classifyExecutionError :: "(string \<times> bool) option \<Rightarrow> string \<times> bool" where
  "classifyExecutionError err =
     (case err of
        Some (code, retryable) \<Rightarrow>
          if trim_space code \<noteq> '''' \<and> int (length code) \<le> 128 then (code, retryable) else (''executor_failed'', True)
      | None \<Rightarrow> (''executor_failed'', True))"

datatype turn = KeepGoing | Stopped | Broken wrapper_error

definition after_report :: "wrapper_error + unit \<Rightarrow> turn" where
  "after_report r = (case r of Inr _ \<Rightarrow> KeepGoing | Inl ErrLeaseLost \<Rightarrow> Stopped | Inl e \<Rightarrow> Broken e)"

text \<open>One iteration of \<^verbatim>\<open>Worker.Run\<close> whose context is not cancelled.\<close>

definition worker_turn ::
  "wrapper_codec \<Rightarrow> world \<Rightarrow> (WrapperJob \<Rightarrow> execution) \<Rightarrow> string \<Rightarrow> int \<Rightarrow> turn op"
where
  "worker_turn wk w execute workerID leaseTTL = do {
     r \<leftarrow> Queue_Claim wk w \<lparr>wc_SchemaVersion = SchemaVersion, wc_WorkerID = workerID, wc_LeaseTTLSeconds = leaseTTL\<rparr>;
     case r of
       Inl e \<Rightarrow> State_Monad.return (if e = NothingQueued then KeepGoing else Broken e)
     | Inr (job, lease) \<Rightarrow>
         (case execute job of
            Inl err \<Rightarrow>
              (case classifyExecutionError err of (code, retryable) \<Rightarrow> do {
                 reported \<leftarrow> Queue_Fail wk w lease \<lparr>wf_SchemaVersion = SchemaVersion, wf_JobID = wj_JobID job,
                   wf_LeaseID = wl_LeaseID lease, wf_WorkerID = wl_WorkerID lease, wf_AccountID = wl_AccountID lease,
                   wf_FenceEpoch = wl_FenceEpoch lease, wf_Code = code, wf_Retryable = retryable\<rparr>;
                 State_Monad.return (after_report reported)
               })
          | Inr output \<Rightarrow> do {
              reported \<leftarrow> Queue_Complete wk w lease \<lparr>wo_SchemaVersion = SchemaVersion, wo_JobID = wj_JobID job,
                wo_LeaseID = wl_LeaseID lease, wo_WorkerID = wl_WorkerID lease, wo_AccountID = wl_AccountID lease,
                wo_FenceEpoch = wl_FenceEpoch lease, wo_EncryptedOutput = output\<rparr>;
              State_Monad.return (after_report reported)
            })
   }"


section \<open>Histories\<close>

text \<open>
  What the clients of the queue do to Redis, one command or script at a time, on a server whose
  clock does not run backwards; \<open>L\<close> holds the lease IDs they draw.  A marker is taken back by a
  plain \<^verbatim>\<open>DEL\<close>, so that it may hit what another client has put there since.
\<close>

inductive jobs_step :: "string set \<Rightarrow> jobs_redis \<times> time \<Rightarrow> jobs_redis \<times> time \<Rightarrow> bool" for L where
  enqueued: "jobs_step L (s, t) (snd (enqueueScript j p t s), t)"
| finished: "jobs_step L (s, t) (snd (terminalScript j p l m nowMilli expiresMilli t s), t)"
| marked: "jobs_step L (s, t) (with_keys (redis_set t (leaseMsgPrefix @ m) (marker_of who) ttl) s, t)"
| unmarked: "jobs_step L (s, t) (with_keys (redis_del (leaseMsgPrefix @ m)) s, t)"
| granted: "jobs_step L (s, t) (set_lease l raw m ttl t s, t)" if "l \<in> L"
| grouped: "jobs_step L (s, t) (with_stream xgroup_create s, t)"
| acked: "jobs_step L (s, t) (with_stream (xack i) s, t)"
| claimed: "jobs_step L (s, t) (snd (on_answer (xclaim t who idle ids (jr_stream s)) s), t)"
| delivered: "jobs_step L (s, t) (snd (on_answer (xreadgroup t who count (jr_stream s)) s), t)"
| buried: "jobs_step L (s, t) (s\<lparr>jr_dlq := jr_dlq s @ [d]\<rparr>, t)"
| wait: "jobs_step L (s, t) (s, t')" if "t \<le> t'"

abbreviation jobs_path :: "string set \<Rightarrow> jobs_redis \<times> time \<Rightarrow> jobs_redis \<times> time \<Rightarrow> bool" where
  "jobs_path L \<equiv> (jobs_step L)\<^sup>*\<^sup>*"

fun tick :: "world \<Rightarrow> time \<Rightarrow> nat \<Rightarrow> time" where
  "tick w t0 0 = t0"
| "tick w t0 (Suc n) = wd_rnow w n"

text \<open>A world in which the other clients, too, only do what the queue does.\<close>

definition fair_world :: "string set \<Rightarrow> world \<Rightarrow> time \<Rightarrow> bool" where
  "fair_world L w t0 \<longleftrightarrow> (\<forall>n s. jobs_path L (s, tick w t0 n) (wd_other w n s, wd_rnow w n)) \<and>
     (\<forall>n l. wd_random w n = Some l \<longrightarrow> l \<in> L)"

definition honest :: "string set \<Rightarrow> world \<Rightarrow> time \<Rightarrow> 'a op \<Rightarrow> bool" where
  "honest L w t0 m \<longleftrightarrow> (\<forall>n s a n' s'. run_state m (n, s) = (a, n', s') \<longrightarrow> jobs_path L (s, tick w t0 n) (s', tick w t0 n'))"

lemma honestD: "honest L w t0 m \<Longrightarrow> run_state m (n, s) = (a, n', s') \<Longrightarrow> jobs_path L (s, tick w t0 n) (s', tick w t0 n')"
  by (auto simp: honest_def)

lemma jobs_path_time: "jobs_path L h h' \<Longrightarrow> snd h \<le> snd h'"
proof (induction rule: rtranclp_induct)
  case (step y z)
  show ?case using step(2,3) by cases auto
qed simp

lemma tick_mono: "fair_world L w t0 \<Longrightarrow> tick w t0 n \<le> wd_rnow w n"
  using jobs_path_time unfolding fair_world_def by fastforce

lemma jobs_wait: "t \<le> t' \<Longrightarrow> jobs_path L (s, t) (s, t')"
  by (rule r_into_rtranclp) (rule jobs_step.wait)

lemma return_honest: "honest L w t0 (State_Monad.return x)"
  by (simp add: honest_def)

lemma bind_honest:
  assumes "honest L w t0 m" "\<And>x. honest L w t0 (g x)"
  shows "honest L w t0 (State_Monad.bind m g)"
  unfolding honest_def
proof (intro allI impI)
  fix n s a n' s' assume run: "run_state (State_Monad.bind m g) (n, s) = (a, n', s')"
  obtain x n1 s1 where one: "run_state m (n, s) = (x, n1, s1)" by (metis prod_cases3)
  then show "jobs_path L (s, tick w t0 n) (s', tick w t0 n')"
    using run honestD[OF assms(1) one] honestD[OF assms(2), of x n1 s1 a n' s'] by (simp add: rtranclp_trans)
qed

lemma call_honest:
  assumes "fair_world L w t0" "\<And>t s. jobs_path L (s, t) (snd (f t s), t)"
  shows "honest L w t0 (call w f)"
  unfolding honest_def
proof (intro allI impI)
  fix n s a n' s' assume run: "run_state (call w f) (n, s) = (a, n', s')"
  have other: "jobs_path L (s, tick w t0 n) (wd_other w n s, wd_rnow w n)" using assms(1) by (simp add: fair_world_def)
  have "n' = Suc n \<and> (s' = wd_other w n s \<or> s' = snd (f (wd_rnow w n) (wd_other w n s)))"
    using run by (auto simp: call_def Let_def split: redis_conn.splits prod.splits)
  then show "jobs_path L (s, tick w t0 n) (s', tick w t0 n')"
    using other rtranclp_trans[OF other assms(2)] by auto
qed

lemma clock_honest: "fair_world L w t0 \<Longrightarrow> honest L w t0 (clock w)"
  by (auto simp: honest_def clock_def intro: jobs_wait tick_mono)

lemma newLeaseID_honest: "fair_world L w t0 \<Longrightarrow> honest L w t0 (newLeaseID w)"
  by (auto simp: honest_def newLeaseID_def intro: jobs_wait tick_mono)

lemma commands_honest:
  assumes "fair_world L w t0"
  shows "honest L w t0 (GET_key w k)" "honest L w t0 (EXISTS_key w k)" "honest L w t0 (XACK_job w i)"
    "honest L w t0 (DEL_key w (leaseMsgPrefix @ m))" "honest L w t0 (SETNX_key w (leaseMsgPrefix @ m) (marker_of who) ttl)"
  unfolding GET_key_def EXISTS_key_def XACK_job_def DEL_key_def SETNX_key_def
  by (rule call_honest[OF assms], auto intro: jobs_step.intros r_into_rtranclp)+

lemma jobs_one: "jobs_step L h h' \<Longrightarrow> jobs_path L h h'"
  by (rule r_into_rtranclp)

lemmas one_command = jobs_one[OF jobs_step.enqueued] jobs_one[OF jobs_step.finished] jobs_one[OF jobs_step.grouped]
  jobs_one[OF jobs_step.claimed] jobs_one[OF jobs_step.delivered] jobs_one[OF jobs_step.buried] jobs_one[OF jobs_step.granted]

lemmas honest_intros = return_honest bind_honest clock_honest newLeaseID_honest commands_honest call_honest one_command

lemma unmark_honest: "fair_world L w t0 \<Longrightarrow> honest L w t0 (unmark w i marker)"
  unfolding unmark_def by (auto intro!: honest_intros)

lemma try_pending_honest: "fair_world L w t0 \<Longrightarrow> honest L w t0 (try_pending w who ttl ids)"
proof (induction ids)
  case (Cons i ids)
  then show ?case
    by (auto intro!: honest_intros unmark_honest split: option.split bool.split)
qed (simp add: return_honest)

lemma read_fresh_honest: "fair_world L w t0 \<Longrightarrow> honest L w t0 (read_fresh w who ttl)"
  unfolding read_fresh_def
  by (auto intro!: honest_intros split: option.split list.split)

lemma nextMessage_honest: "fair_world L w t0 \<Longrightarrow> honest L w t0 (nextMessage w who ttl)"
  unfolding nextMessage_def
  by (auto intro!: honest_intros try_pending_honest read_fresh_honest split: option.split sum.split)

lemma deadLetter_honest: "fair_world L w t0 \<Longrightarrow> honest L w t0 (Queue_deadLetter w m e)"
  unfolding Queue_deadLetter_def
  by (auto intro!: honest_intros split: option.split)

text \<open>The lease of a claim is drawn from \<open>L\<close>.\<close>

lemma grant_honest:
  assumes "fair_world L w t0"
  shows "honest L w t0 (grant wk w claim m job)"
  unfolding honest_def
proof (intro allI impI)
  fix n s a n' s' assume run: "run_state (grant wk w claim m job) (n, s) = (a, n', s')"
  have wait: "jobs_path L (s, tick w t0 n) (s, tick w t0 (Suc n))" "jobs_path L (s, tick w t0 (Suc n)) (s, tick w t0 (Suc (Suc n)))"
    using tick_mono[OF assms, of n] tick_mono[OF assms, of "Suc n"] by (auto intro: jobs_wait)
  note waits = rtranclp_trans[OF wait]
  show "jobs_path L (s, tick w t0 n) (s', tick w t0 n')"
  proof (cases "wd_random w n")
    case None
    then show ?thesis using run wait(1) by (auto simp: grant_def newLeaseID_def)
  next
    case (Some leaseID)
    then have "leaseID \<in> L" using assms by (auto simp: fair_world_def)
    then have "honest L w t0 (call w (\<lambda>t s. (Some (), set_lease leaseID raw (show_id (fst m)) ttl t s)))" for raw ttl
      using assms by (auto intro!: honest_intros)
    note h = honestD[OF this]
    show ?thesis
    proof (cases "wk_lease wk \<lparr>lm_MessageID = show_id (fst m), lm_Lease = lease_for claim job leaseID (wd_now w (Suc n))\<rparr>")
      case None
      then show ?thesis using run Some waits by (auto simp: grant_def newLeaseID_def clock_def)
    next
      case raw: (Some raw)
      then obtain b where "run_state (call w (\<lambda>t s. (Some (), set_lease leaseID raw (show_id (fst m)) (wc_LeaseTTLSeconds claim * second) t s)))
          (Suc (Suc n), s) = (b, n', s')"
        using run Some by (auto simp: grant_def newLeaseID_def clock_def Let_def split: prod.splits)
      from rtranclp_trans[OF waits h[OF this]] show ?thesis .
    qed
  qed
qed

lemma claim_loop_honest: "fair_world L w t0 \<Longrightarrow> honest L w t0 (claim_loop k wk w claim)"
proof (induction k)
  case (Suc k)
  then show ?case
    by (auto intro!: honest_intros nextMessage_honest deadLetter_honest grant_honest split: option.split sum.split bool.split)
qed (simp add: return_honest)

lemma ensureGroup_honest: "fair_world L w t0 \<Longrightarrow> honest L w t0 (ensureGroup w)"
  unfolding ensureGroup_def by (auto intro!: honest_intros)

lemma operations_honest:
  assumes "fair_world L w t0"
  shows "honest L w t0 (Queue_Enqueue wk w job)" "honest L w t0 (Queue_Claim wk w claim)"
    "honest L w t0 (terminal_owned wk w lease payload found)"
  using assms unfolding Queue_Enqueue_def Queue_Claim_def terminal_owned_def
  by (auto intro!: honest_intros claim_loop_honest ensureGroup_honest split: option.split sum.split)

lemma terminal_honest: "fair_world L w t0 \<Longrightarrow> honest L w t0 (Queue_terminal wk w lease envelope)"
  unfolding Queue_terminal_def by (auto intro!: honest_intros operations_honest split: option.split)


section \<open>A job is finished once\<close>

lemmas wrapper_key_defs = TerminalPrefix_def enqueuePrefix_def leaseIDPrefix_def leaseMsgPrefix_def

lemma wrapper_keys_apart [simp]:
  "TerminalPrefix @ a \<noteq> enqueuePrefix @ b" "TerminalPrefix @ a \<noteq> leaseIDPrefix @ b" "TerminalPrefix @ a \<noteq> leaseMsgPrefix @ b"
  "enqueuePrefix @ a \<noteq> TerminalPrefix @ b" "enqueuePrefix @ a \<noteq> leaseIDPrefix @ b" "enqueuePrefix @ a \<noteq> leaseMsgPrefix @ b"
  "leaseIDPrefix @ a \<noteq> TerminalPrefix @ b" "leaseIDPrefix @ a \<noteq> enqueuePrefix @ b" "leaseIDPrefix @ a \<noteq> leaseMsgPrefix @ b"
  "leaseMsgPrefix @ a \<noteq> TerminalPrefix @ b" "leaseMsgPrefix @ a \<noteq> enqueuePrefix @ b" "leaseMsgPrefix @ a \<noteq> leaseIDPrefix @ b"
  by (simp_all add: wrapper_key_defs)

lemma wrapper_prefixes_apart [simp]:
  "TerminalPrefix \<noteq> enqueuePrefix" "TerminalPrefix \<noteq> leaseIDPrefix" "TerminalPrefix \<noteq> leaseMsgPrefix"
  "enqueuePrefix \<noteq> TerminalPrefix" "enqueuePrefix \<noteq> leaseIDPrefix" "enqueuePrefix \<noteq> leaseMsgPrefix"
  "leaseIDPrefix \<noteq> TerminalPrefix" "leaseIDPrefix \<noteq> enqueuePrefix" "leaseIDPrefix \<noteq> leaseMsgPrefix"
  "leaseMsgPrefix \<noteq> TerminalPrefix" "leaseMsgPrefix \<noteq> enqueuePrefix" "leaseMsgPrefix \<noteq> leaseIDPrefix"
  by (simp_all add: wrapper_key_defs)

lemma with_keys_simps [simp]: "jr_keys (with_keys f s) = f (jr_keys s)" "jr_dlq (with_keys f s) = jr_dlq s"
  by (simp_all add: with_keys_def)

lemma redis_set_other [simp]: "k' \<noteq> k \<Longrightarrow> redis_set t k v ttl r k' = r k'" "k' \<noteq> k \<Longrightarrow> redis_del k r k' = r k'"
  "redis_set t k v ttl r k = Some \<lparr>re_data = RString v, re_expires = Some (t + ttl)\<rparr>" "redis_del k r k = None"
  by (simp_all add: redis_set_def redis_del_def)

lemma stream_commands_keys [simp]:
  "xs_keys (xadd t fs x) = xs_keys x" "xs_keys (xack i x) = xs_keys x" "xs_keys (xgroup_create x) = xs_keys x"
  "xclaim t who idle ids x = Some (ms, x') \<Longrightarrow> xs_keys x' = xs_keys x"
  "xreadgroup t who c x = Some (ms, x') \<Longrightarrow> xs_keys x' = xs_keys x"
  by (auto simp: xadd_def xack_def xgroup_create_def xclaim_def xreadgroup_def Let_def split: option.splits if_splits)

lemma with_stream_keys [simp]: "(\<And>x. xs_keys (f x) = xs_keys x) \<Longrightarrow> jr_keys (with_stream f s) = jr_keys s"
  by (simp add: with_stream_def)

lemma on_answer_keys:
  "jr_keys (snd (on_answer (xclaim t who idle ids (jr_stream s)) s)) = jr_keys s"
  "jr_keys (snd (on_answer (xreadgroup t who c (jr_stream s)) s)) = jr_keys s"
  by (auto simp: on_answer_def split: option.split)

lemma get_none: "redis_get t k r = Inr None \<longleftrightarrow> redis_live t r k = None"
  by (simp add: redis_get_def split: option.split redis_data.split)

lemma live_later: "redis_live t r k = None \<Longrightarrow> t \<le> t' \<Longrightarrow> redis_live t' r k = None"
  by (auto simp: redis_live_def split: option.splits if_splits)

lemma get_set [simp]: "0 < ttl \<Longrightarrow> redis_get t k (redis_set t k v ttl r) = Inr (Some v)"
  by (simp add: redis_get_def redis_live_def)

lemma get_cong: "r k = r' k \<Longrightarrow> redis_get t k r = redis_get t k r'"
  by (simp add: redis_get_def redis_live_def)

lemma terminalTTL_pos [simp]: "0 < terminalTTL" "\<not> terminalTTL \<le> 0"
  by (simp_all add: terminalTTL_def second_def)

text \<open>Only the script of a report writes the key of a result, and only where no result is.\<close>

lemma terminalScript_result:
  "jr_keys (snd (terminalScript j p l m nm em t s)) (TerminalPrefix @ job) =
     (if job = j \<and> redis_get t (TerminalPrefix @ j) (jr_keys s) = Inr None \<and> \<not> nm \<ge> em \<and>
         redis_live t (jr_keys s) (leaseIDPrefix @ l) \<noteq> None \<and> redis_get t (leaseMsgPrefix @ m) (jr_keys s) = Inr (Some l)
      then Some \<lparr>re_data = RString p, re_expires = Some (t + terminalTTL)\<rparr> else jr_keys s (TerminalPrefix @ job))"
  by (auto simp: terminalScript_def Let_def split: sum.split option.split)

lemma step_result:
  assumes "jobs_step L (s, t) (s', t')"
  shows "jr_keys s' (TerminalPrefix @ job) = jr_keys s (TerminalPrefix @ job) \<or>
    redis_get t (TerminalPrefix @ job) (jr_keys s) = Inr None \<and> t' = t \<and>
    (\<exists>p. jr_keys s' (TerminalPrefix @ job) = Some \<lparr>re_data = RString p, re_expires = Some (t + terminalTTL)\<rparr>)"
  using assms
proof cases
  case (enqueued j p)
  then show ?thesis by (auto simp: enqueueScript_def Let_def split: sum.split option.split)
next
  case (finished j p l m nm em)
  then show ?thesis by (auto simp: terminalScript_result)
qed (auto simp: set_lease_def on_answer_keys)

definition has_result :: "string \<Rightarrow> string \<Rightarrow> time \<Rightarrow> jobs_redis \<times> time \<Rightarrow> bool" where
  "has_result job p E h \<longleftrightarrow> (snd h < E \<longrightarrow>
     jr_keys (fst h) (TerminalPrefix @ job) = Some \<lparr>re_data = RString p, re_expires = Some E\<rparr>)"

lemma result_stays: "jobs_path L h h' \<Longrightarrow> has_result job p E h \<Longrightarrow> has_result job p E h'"
proof (induction rule: rtranclp_induct)
  case (step y z)
  obtain s t s' t' where y: "y = (s, t)" and z: "z = (s', t')" by (metis prod.exhaust)
  have "t \<le> t'" using jobs_path_time[OF jobs_one[OF step(2)]] by (simp add: y z)
  then show ?case using step_result[OF step(2)[unfolded y z], of job] step.IH step.prems
    by (auto simp: has_result_def y z redis_get_def redis_live_def split: if_splits)
qed simp

definition young :: "string \<Rightarrow> time \<Rightarrow> jobs_redis \<times> time \<Rightarrow> bool" where
  "young job t0 h \<longleftrightarrow> t0 \<le> snd h \<and> (redis_live (snd h) (jr_keys (fst h)) (TerminalPrefix @ job) = None \<or>
     (\<exists>p E. jr_keys (fst h) (TerminalPrefix @ job) = Some \<lparr>re_data = RString p, re_expires = Some E\<rparr> \<and> t0 + terminalTTL \<le> E))"

lemma young_stays: "jobs_path L h h' \<Longrightarrow> young job t0 h \<Longrightarrow> young job t0 h'"
proof (induction rule: rtranclp_induct)
  case (step y z)
  obtain s t s' t' where y: "y = (s, t)" and z: "z = (s', t')" by (metis prod.exhaust)
  have le: "t \<le> t'" using jobs_path_time[OF jobs_one[OF step(2)]] by (simp add: y z)
  have live: "redis_live t r k = None \<Longrightarrow> redis_live t' r k = None" for r k using live_later le by blast
  show ?case using step_result[OF step(2)[unfolded y z], of job] step.IH step.prems le live
    by (auto simp: young_def y z redis_live_def)
qed simp

lemma young_result:
  assumes "young job t0 (s, t)" "redis_get t (TerminalPrefix @ job) (jr_keys s) = Inr (Some p)"
  shows "\<exists>E. has_result job p E (s, t) \<and> t0 + terminalTTL \<le> E"
proof -
  have "redis_live t (jr_keys s) (TerminalPrefix @ job) \<noteq> None" using assms(2) by (auto simp: redis_get_def split: option.splits)
  then obtain q E where e: "jr_keys s (TerminalPrefix @ job) = Some \<lparr>re_data = RString q, re_expires = Some E\<rparr>" "t0 + terminalTTL \<le> E"
    using assms(1) by (auto simp: young_def)
  then have "q = p" using assms(2) by (simp add: redis_get_def redis_live_def split: if_splits)
  then show ?thesis using e by (auto simp: has_result_def)
qed

lemma call_Some:
  "run_state (call w f) (n, s) = (Some a, n', s') \<longleftrightarrow>
     wd_conn w n = Answered \<and> n' = Suc n \<and> f (wd_rnow w n) (wd_other w n s) = (Some a, s')"
  by (auto simp: call_def Let_def split: redis_conn.split prod.split)

lemma GET_Some:
  "run_state (GET_key w k) (n, s) = (Some v, n', s') \<longleftrightarrow>
     wd_conn w n = Answered \<and> n' = Suc n \<and> s' = wd_other w n s \<and> redis_get (wd_rnow w n) k (jr_keys s') = Inr v"
  by (auto simp: GET_key_def call_Some split: sum.splits)

lemma EXISTS_Some:
  "run_state (EXISTS_key w k) (n, s) = (Some v, n', s') \<longleftrightarrow>
     wd_conn w n = Answered \<and> n' = Suc n \<and> s' = wd_other w n s \<and> v = (redis_live (wd_rnow w n) (jr_keys s') k \<noteq> None)"
  by (auto simp: EXISTS_key_def call_Some)

lemma terminalScript_ok:
  assumes run: "terminalScript j p l m nm em t s = (Some v, s')" and v: "v = 0 \<or> v = 1"
  shows "redis_get t (TerminalPrefix @ j) (jr_keys s') = Inr (Some p)"
proof (cases "redis_get t (TerminalPrefix @ j) (jr_keys s)")
  case (Inl u)
  then show ?thesis using run by (simp add: terminalScript_def)
next
  case (Inr found)
  show ?thesis
  proof (cases found)
    case None
    then have "\<not> nm \<ge> em \<and> redis_live t (jr_keys s) (leaseIDPrefix @ l) \<noteq> None \<and> redis_get t (leaseMsgPrefix @ m) (jr_keys s) = Inr (Some l)"
      using run v Inr by (auto simp: terminalScript_def split: if_splits sum.splits)
    then have "jr_keys s' (TerminalPrefix @ j) = Some \<lparr>re_data = RString p, re_expires = Some (t + terminalTTL)\<rparr>"
      using terminalScript_result[of j p l m nm em t s j] run Inr None by simp
    then show ?thesis by (simp add: redis_get_def redis_live_def)
  next
    case (Some existing)
    then show ?thesis using run v Inr by (simp add: terminalScript_def split: if_splits)
  qed
qed

lemma terminal_owned_ok:
  assumes "run_state (terminal_owned wk w lease payload found) (n, s) = (Inr (), n', s')"
  shows "found \<noteq> None \<or> redis_get (tick w t0 n') (TerminalPrefix @ wl_JobID lease) (jr_keys s') = Inr (Some payload)"
proof -
  have last: "redis_get (tick w t0 n2) (TerminalPrefix @ wl_JobID lease) (jr_keys s2) = Inr (Some payload)"
    if "run_state (call w (terminalScript (wl_JobID lease) payload l m nm em)) (n1, s1) = (Some v, n2, s2)" "v = 0 \<or> v = 1"
    for l m nm em n1 s1 v n2 s2 using that terminalScript_ok by (auto simp: call_Some)
  show ?thesis using assms unfolding terminal_owned_def
    by (auto simp: clock_def dest!: last split: prod.splits option.splits if_splits)
qed

lemma terminal_ok:
  assumes fair: "fair_world L w t0" and run: "run_state (Queue_terminal wk w lease envelope) (n, s) = (Inr (), n', s')"
  shows "\<exists>p s1 t1. wk_terminal wk envelope = Some p \<and> jobs_path L (s, tick w t0 n) (s1, t1) \<and> jobs_path L (s1, t1) (s', tick w t0 n') \<and>
    redis_get t1 (TerminalPrefix @ wl_JobID lease) (jr_keys s1) = Inr (Some p)"
proof -
  obtain p where p: "wk_terminal wk envelope = Some p" using run by (auto simp: Queue_terminal_def split: if_splits option.splits)
  obtain v n1 s1 where get: "run_state (GET_key w (TerminalPrefix @ wl_JobID lease)) (n, s) = (v, n1, s1)" by (metis prod_cases3)
  obtain found where found: "v = Some found" "found = None \<or> found = Some p"
    using run p get by (auto simp: Queue_terminal_def split: if_splits option.splits)
  have read: "n1 = Suc n" "redis_get (wd_rnow w n) (TerminalPrefix @ wl_JobID lease) (jr_keys s1) = Inr found"
    using get unfolding found(1) GET_Some by auto
  have path: "jobs_path L (s, tick w t0 n) (s1, tick w t0 n1)" using honestD[OF commands_honest(1)[OF fair] get] .
  have all: "jobs_path L (s, tick w t0 n) (s', tick w t0 n')" using honestD[OF terminal_honest[OF fair] run] .
  let ?rest = "do { now1 \<leftarrow> clock w;
      if found \<noteq> None \<and> wl_ExpiresAt lease \<le> now1 then State_Monad.return (Inr ())
      else do { now2 \<leftarrow> clock w;
        if wl_ExpiresAt lease \<le> now2 then State_Monad.return (Inl ErrLeaseLost) else terminal_owned wk w lease p found } }"
  have rest: "run_state ?rest (n1, s1) = (Inr (), n', s')"
    using run p get found by (auto simp: Queue_terminal_def split: if_splits)
  have "honest L w t0 ?rest" using fair by (auto intro!: honest_intros operations_honest)
  note path2 = honestD[OF this rest]
  show ?thesis
  proof (cases found)
    case None
    have "redis_get (tick w t0 n') (TerminalPrefix @ wl_JobID lease) (jr_keys s') = Inr (Some p)"
      using rest None terminal_owned_ok[of wk w lease p found _ s1 n' s' t0] by (auto simp: clock_def split: if_splits)
    then show ?thesis using p all by blast
  next
    case (Some q)
    then have "redis_get (tick w t0 n1) (TerminalPrefix @ wl_JobID lease) (jr_keys s1) = Inr (Some p)" using read found(2) by simp
    then show ?thesis using p path path2 by blast
  qed
qed

lemma claim_loop_ok:
  assumes fair: "fair_world L w t0" and "run_state (claim_loop k wk w claim) (n, s) = (Inr (job, lease), n', s')"
  shows "\<exists>s1 t1. jobs_path L (s, tick w t0 n) (s1, t1) \<and> jobs_path L (s1, t1) (s', tick w t0 n') \<and>
    redis_live t1 (jr_keys s1) (TerminalPrefix @ wj_JobID job) = None"
  using assms(2)
proof (induction k arbitrary: n s)
  case (Suc k)
  have again: ?case if "jobs_path L (s, tick w t0 n) (s2, tick w t0 n2)"
    "run_state (claim_loop k wk w claim) (n2, s2) = (Inr (job, lease), n', s')" for n2 s2
    using Suc.IH[OF that(2)] rtranclp_trans[OF that(1)] by blast
  obtain x n1 s1 where one: "run_state (nextMessage w (wc_WorkerID claim) (wc_LeaseTTLSeconds claim * second)) (n, s) = (x, n1, s1)"
    by (metis prod_cases3)
  note path1 = honestD[OF nextMessage_honest[OF fair] one]
  obtain m where x: "x = Inr (Some m)" using Suc.prems one by (auto split: sum.splits option.splits)
  show ?case
  proof (cases "decodeJob wk m")
    case (Inl e)
    obtain d n2 s2 where two: "run_state (Queue_deadLetter w m e) (n1, s1) = (d, n2, s2)" by (metis prod_cases3)
    note path2 = rtranclp_trans[OF path1 honestD[OF deadLetter_honest[OF fair] two]]
    show ?thesis using Suc.prems one x Inl two by (intro again[OF path2]) (auto split: sum.splits)
  next
    case (Inr job1)
    obtain b n2 s2 where two: "run_state (EXISTS_key w (TerminalPrefix @ wj_JobID job1)) (n1, s1) = (b, n2, s2)" by (metis prod_cases3)
    note path2 = rtranclp_trans[OF path1 honestD[OF commands_honest(2)[OF fair] two]]
    obtain found where b: "b = Some found" using Suc.prems one x Inr two by (auto split: option.splits)
    show ?thesis
    proof (cases found)
      case True
      obtain a n3 s3 where three: "run_state (XACK_job w (fst m)) (n2, s2) = (a, n3, s3)" by (metis prod_cases3)
      note path3 = rtranclp_trans[OF path2 honestD[OF commands_honest(3)[OF fair] three]]
      show ?thesis using Suc.prems one x Inr two b True three by (intro again[OF path3]) (auto split: option.splits)
    next
      case False
      have grant: "run_state (grant wk w claim m job1) (n2, s2) = (Inr (job, lease), n', s')"
        using Suc.prems one x Inr two b False by simp
      then have "job1 = job" by (auto simp: grant_def Let_def split: prod.splits option.splits)
      moreover have "redis_live (tick w t0 n2) (jr_keys s2) (TerminalPrefix @ wj_JobID job1) = None"
        using two b False by (auto simp: EXISTS_Some)
      ultimately show ?thesis using path2 honestD[OF grant_honest[OF fair] grant] by blast
    qed
  qed
qed simp

lemma Claim_ok:
  assumes fair: "fair_world L w t0" and run: "run_state (Queue_Claim wk w claim) (n, s) = (Inr (job, lease), n', s')"
  shows "\<exists>s1 t1. jobs_path L (s, tick w t0 n) (s1, t1) \<and> jobs_path L (s1, t1) (s', tick w t0 n') \<and>
    redis_live t1 (jr_keys s1) (TerminalPrefix @ wj_JobID job) = None"
proof -
  obtain g n1 s1 where one: "run_state (ensureGroup w) (n, s) = (g, n1, s1)" by (metis prod_cases3)
  have "run_state (claim_loop 32 wk w claim) (n1, s1) = (Inr (job, lease), n', s')"
    using run one by (auto simp: Queue_Claim_def split: if_splits sum.splits)
  from claim_loop_ok[OF fair this] show ?thesis
    using rtranclp_trans[OF honestD[OF ensureGroup_honest[OF fair] one]] by blast
qed

text \<open>
  C19.  A job has one result.  Where a job had none and a worker's report of it was accepted, then
  for seven days that is the job's result, whatever the other clients do: every further report that
  is accepted carries the same result, and no claim that begins later hands the job out again.
  Replies may be lost and calls refused at every command.
\<close>

theorem job_finished_once:
  assumes w1: "fair_world L w1 t0" and fresh: "redis_get t0 (TerminalPrefix @ wl_JobID lease1) (jr_keys s0) = Inr None"
    and run1: "run_state (Queue_terminal wk w1 lease1 env1) (0, s0) = (Inr (), n1, s1)"
    and path: "jobs_path L (s1, tick w1 t0 n1) (s2, t2)" and w2: "fair_world L w2 t2"
  shows "\<exists>p. wk_terminal wk env1 = Some p \<and>
    (t2 < t0 + terminalTTL \<longrightarrow> redis_get t2 (TerminalPrefix @ wl_JobID lease1) (jr_keys s2) = Inr (Some p)) \<and>
    (\<forall>lease2 env2 n s. run_state (Queue_terminal wk w2 lease2 env2) (0, s2) = (Inr (), n, s) \<and>
       wl_JobID lease2 = wl_JobID lease1 \<and> tick w2 t2 n < t0 + terminalTTL \<longrightarrow> wk_terminal wk env2 = Some p) \<and>
    (\<forall>claim job lease n s. run_state (Queue_Claim wk w2 claim) (0, s2) = (Inr (job, lease), n, s) \<and>
       tick w2 t2 n < t0 + terminalTTL \<longrightarrow> wj_JobID job \<noteq> wl_JobID lease1)"
proof -
  let ?job = "wl_JobID lease1"
  have young: "young ?job t0 (s0, t0)" using fresh by (auto simp: young_def redis_get_def split: option.splits redis_data.splits)
  obtain p sa ta where p: "wk_terminal wk env1 = Some p" and a: "jobs_path L (s0, t0) (sa, ta)" "jobs_path L (sa, ta) (s1, tick w1 t0 n1)"
    "redis_get ta (TerminalPrefix @ ?job) (jr_keys sa) = Inr (Some p)" using terminal_ok[OF w1 run1] by auto
  obtain E where E: "has_result ?job p E (sa, ta)" "t0 + terminalTTL \<le> E" using young_result[OF young_stays[OF a(1) young] a(3)] by blast
  have res: "has_result ?job p E (s2, t2)" using result_stays[OF rtranclp_trans[OF a(2) path] E(1)] .
  have later: "jr_keys s (TerminalPrefix @ ?job) = Some \<lparr>re_data = RString p, re_expires = Some E\<rparr>"
    if "jobs_path L (s2, t2) (s, t)" "t < t0 + terminalTTL" for s t
    using result_stays[OF that(1) res] that(2) E(2) by (simp add: has_result_def)
  have now: "redis_get t2 (TerminalPrefix @ ?job) (jr_keys s2) = Inr (Some p)" if "t2 < t0 + terminalTTL"
    using later[OF rtranclp.rtrancl_refl that] that E(2) by (simp add: redis_get_def redis_live_def)
  have report: "wk_terminal wk env2 = Some p" if run: "run_state (Queue_terminal wk w2 lease2 env2) (0, s2) = (Inr (), n, s)"
    "wl_JobID lease2 = ?job" "tick w2 t2 n < t0 + terminalTTL" for lease2 env2 n s
  proof -
    obtain q sb tb where q: "wk_terminal wk env2 = Some q" "jobs_path L (s2, t2) (sb, tb)" "jobs_path L (sb, tb) (s, tick w2 t2 n)"
      "redis_get tb (TerminalPrefix @ ?job) (jr_keys sb) = Inr (Some q)" using terminal_ok[OF w2 run(1)] run(2) by auto
    have "tb < t0 + terminalTTL" using jobs_path_time[OF q(3)] run(3) by simp
    then show ?thesis using later[OF q(2)] q(1,4) by (simp add: redis_get_def redis_live_def split: if_splits)
  qed
  have claim: "wj_JobID job \<noteq> ?job" if run: "run_state (Queue_Claim wk w2 claim) (0, s2) = (Inr (job, lease), n, s)"
    "tick w2 t2 n < t0 + terminalTTL" for claim job lease n s
  proof
    assume same: "wj_JobID job = ?job"
    obtain sb tb where b: "jobs_path L (s2, t2) (sb, tb)" "jobs_path L (sb, tb) (s, tick w2 t2 n)"
      "redis_live tb (jr_keys sb) (TerminalPrefix @ ?job) = None" using Claim_ok[OF w2 run(1)] same by auto
    have "tb < t0 + terminalTTL" using jobs_path_time[OF b(2)] run(2) by simp
    then show False using later[OF b(1)] b(3) E(2) by (simp add: redis_live_def)
  qed
  show ?thesis using p now report claim by blast
qed


section \<open>A job is queued once\<close>

definition jobs_of :: "string \<Rightarrow> jobs_redis \<Rightarrow> message list" where
  "jobs_of job s = filter (\<lambda>m. map_of (snd m) ''job_id'' = Some job) (xs_entries (jr_stream s))"

lemma stream_commands_entries [simp]:
  "xs_entries (xack i x) = xs_entries x" "xs_entries (xgroup_create x) = xs_entries x"
  "xclaim t who idle ids x = Some (ms, x') \<Longrightarrow> xs_entries x' = xs_entries x"
  "xreadgroup t who c x = Some (ms, x') \<Longrightarrow> xs_entries x' = xs_entries x"
  by (auto simp: xack_def xgroup_create_def xclaim_def xreadgroup_def Let_def split: option.splits if_splits)

lemma jobs_of_simps [simp]:
  "jobs_of job (with_keys f s) = jobs_of job s" "jobs_of job (s\<lparr>jr_dlq := d\<rparr>) = jobs_of job s"
  "jobs_of job (with_stream (xack i) s) = jobs_of job s" "jobs_of job (with_stream xgroup_create s) = jobs_of job s"
  "jobs_of job (snd (on_answer (xclaim t who idle ids (jr_stream s)) s)) = jobs_of job s"
  "jobs_of job (snd (on_answer (xreadgroup t who c (jr_stream s)) s)) = jobs_of job s"
  "jobs_of job (with_stream (xadd t ((''job_id'', j) # fs)) s) =
     jobs_of job s @ (if j = job then [(next_id t (xs_last (jr_stream s)), (''job_id'', j) # fs)] else [])"
  by (auto simp: jobs_of_def with_keys_def with_stream_def on_answer_def xadd_def Let_def split: option.split)

text \<open>Nothing queued and no key, or one entry with the key that keeps it alone until \<open>E\<close>.\<close>

definition queued_as :: "string \<Rightarrow> string \<Rightarrow> time \<Rightarrow> jobs_redis \<Rightarrow> bool" where
  "queued_as job i E s \<longleftrightarrow> jr_keys s (enqueuePrefix @ job) = Some \<lparr>re_data = RString i, re_expires = Some E\<rparr> \<and>
     map (show_id \<circ> fst) (jobs_of job s) = [i]"

lemma enqueueScript_cases:
  assumes "redis_get t (enqueuePrefix @ j) (jr_keys s) = Inr None"
  shows "enqueueScript j p t s = (Some (show_id (next_id t (xs_last (jr_stream s)))),
    with_keys (redis_set t (enqueuePrefix @ j) (show_id (next_id t (xs_last (jr_stream s)))) terminalTTL)
      (with_stream (xadd t [(''job_id'', j), (''payload'', p)]) s))"
  using assms by (simp add: enqueueScript_def with_stream_def xadd_def Let_def)

lemma terminalScript_queue:
  "jr_keys (snd (terminalScript j p l m nm em t s)) (enqueuePrefix @ job) = jr_keys s (enqueuePrefix @ job)"
  "jobs_of job (snd (terminalScript j p l m nm em t s)) = jobs_of job s"
  by (simp_all add: terminalScript_def Let_def split: sum.split option.split)

lemma step_queue:
  assumes "jobs_step L (s, t) (s', t')"
  shows "(jr_keys s' (enqueuePrefix @ job) = jr_keys s (enqueuePrefix @ job) \<and> jobs_of job s' = jobs_of job s) \<or>
    redis_get t (enqueuePrefix @ job) (jr_keys s) = Inr None \<and> t' = t \<and> (\<exists>p. s' = snd (enqueueScript job p t s))"
  using assms
proof cases
  case (enqueued j p)
  show ?thesis
  proof (cases "redis_get t (enqueuePrefix @ j) (jr_keys s) = Inr None")
    case True
    then show ?thesis using enqueued by (cases "j = job") (auto simp: enqueueScript_cases)
  next
    case False
    then have "snd (enqueueScript j p t s) = s" by (auto simp: enqueueScript_def split: sum.splits option.splits)
    then show ?thesis using enqueued by simp
  qed
next
  case (finished j p l m nm em)
  then show ?thesis by (simp add: terminalScript_queue)
qed (auto simp: set_lease_def on_answer_keys)

lemma enqueue_queued:
  assumes "redis_get t (enqueuePrefix @ job) (jr_keys s) = Inr None" "jobs_of job s = []"
  shows "queued_as job (show_id (next_id t (xs_last (jr_stream s)))) (t + terminalTTL) (snd (enqueueScript job p t s))"
  by (simp add: enqueueScript_cases[OF assms(1)] queued_as_def assms(2))

lemma queued_stays:
  assumes "jobs_path L h h'" "snd h' < E" "queued_as job i E (fst h)"
  shows "queued_as job i E (fst h')"
  using assms
proof (induction rule: rtranclp_induct)
  case (step y z)
  obtain s t s' t' where y: "y = (s, t)" and z: "z = (s', t')" by (metis prod.exhaust)
  have le: "t \<le> t'" using jobs_path_time[OF jobs_one[OF step(2)]] by (simp add: y z)
  then have q: "queued_as job i E s" using step y z by simp
  then have "redis_get t (enqueuePrefix @ job) (jr_keys s) \<noteq> Inr None"
    using le step.prems(1) by (simp add: queued_as_def redis_get_def redis_live_def z)
  then show ?case using step_queue[OF step(2)[unfolded y z], of job] q by (auto simp: queued_as_def y z)
qed simp

definition queued_since :: "string \<Rightarrow> time \<Rightarrow> jobs_redis \<times> time \<Rightarrow> bool" where
  "queued_since job t0 h \<longleftrightarrow> t0 \<le> snd h \<and> (snd h < t0 + terminalTTL \<longrightarrow>
     (redis_get (snd h) (enqueuePrefix @ job) (jr_keys (fst h)) = Inr None \<and> jobs_of job (fst h) = []) \<or>
     (\<exists>i E. queued_as job i E (fst h) \<and> t0 + terminalTTL \<le> E))"

lemma queued_since_stays: "jobs_path L h h' \<Longrightarrow> queued_since job t0 h \<Longrightarrow> queued_since job t0 h'"
proof (induction rule: rtranclp_induct)
  case (step y z)
  obtain s t s' t' where y: "y = (s, t)" and z: "z = (s', t')" by (metis prod.exhaust)
  have le: "t \<le> t'" using jobs_path_time[OF jobs_one[OF step(2)]] by (simp add: y z)
  have prev: "queued_since job t0 (s, t)" using step y by simp
  then have t0: "t0 \<le> t'" using le by (simp add: queued_since_def)
  have "(redis_get t' (enqueuePrefix @ job) (jr_keys s') = Inr None \<and> jobs_of job s' = []) \<or>
     (\<exists>i E. queued_as job i E s' \<and> t0 + terminalTTL \<le> E)" if young: "t' < t0 + terminalTTL"
  proof -
    consider (none) "redis_get t (enqueuePrefix @ job) (jr_keys s) = Inr None" "jobs_of job s = []"
      | (one) i E where "queued_as job i E s" "t0 + terminalTTL \<le> E" using prev le young by (auto simp: queued_since_def)
    then show ?thesis
    proof cases
      case none
      have dead: "redis_get t' (enqueuePrefix @ job) (jr_keys s) = Inr None"
        using none(1) le by (simp add: get_none live_later)
      have "t0 \<le> t" using prev by (simp add: queued_since_def)
      then have "\<exists>i E. queued_as job i E (snd (enqueueScript job p t s)) \<and> t0 + terminalTTL \<le> E" for p
        using enqueue_queued[OF none] by (intro exI[of _ "show_id (next_id t (xs_last (jr_stream s)))"] exI[of _ "t + terminalTTL"]) simp
      note written = this
      from step_queue[OF step(2)[unfolded y z], of job] show ?thesis
      proof (elim disjE conjE exE)
        assume "jr_keys s' (enqueuePrefix @ job) = jr_keys s (enqueuePrefix @ job)" "jobs_of job s' = jobs_of job s"
        then show ?thesis using none(2) dead get_cong[of "jr_keys s'" "enqueuePrefix @ job" "jr_keys s" t'] by simp
      next
        fix p assume "s' = snd (enqueueScript job p t s)"
        then show ?thesis using written[of p] by blast
      qed
    next
      case one
      have "queued_as job i E s'"
        using queued_stays[OF jobs_one[OF step(2)], of E job i] one young by (simp add: y z)
      then show ?thesis using one(2) by blast
    qed
  qed
  then show ?case using t0 by (simp add: queued_since_def z)
qed simp

lemma Enqueue_ok:
  assumes fair: "fair_world L w t0" and run: "run_state (Queue_Enqueue wk w job) (n, s) = (Inr i, n', s')"
  shows "jobs_path L (s, tick w t0 n) (s', tick w t0 n')"
    "redis_get (tick w t0 n') (enqueuePrefix @ wj_JobID job) (jr_keys s') = Inr (Some i)"
proof -
  show "jobs_path L (s, tick w t0 n) (s', tick w t0 n')" using honestD[OF operations_honest(1)[OF fair] run] .
  obtain p where "run_state (call w (enqueueScript (wj_JobID job) p)) (n, s) = (Some i, n', s')"
    using run by (auto simp: Queue_Enqueue_def split: if_splits option.splits prod.splits)
  then show "redis_get (tick w t0 n') (enqueuePrefix @ wj_JobID job) (jr_keys s') = Inr (Some i)"
    by (auto simp: call_Some enqueueScript_def Let_def terminalTTL_def second_def redis_get_def redis_live_def
        split: sum.splits option.splits if_splits redis_data.splits)
qed

lemma jobs_grow: "jobs_path L h h' \<Longrightarrow> \<exists>ys. jobs_of job (fst h') = jobs_of job (fst h) @ ys"
proof (induction rule: rtranclp_induct)
  case (step y z)
  obtain s t s' t' where y: "y = (s, t)" and z: "z = (s', t')" by (metis prod.exhaust)
  have "\<exists>ys. jobs_of job s' = jobs_of job s @ ys"
    using step_queue[OF step(2)[unfolded y z], of job] by (auto simp: enqueueScript_cases)
  then show ?case using step.IH by (auto simp: y z)
qed simp

text \<open>
  C40.  A job is queued once.  Where a job was not queued and its enqueueing was answered, then for
  seven days the stream holds exactly one entry of that job, the one whose ID was answered, and
  every further attempt to enqueue it that is answered gives the same ID: control may retry after a
  lost reply, from any number of processes.
\<close>

theorem job_enqueued_once:
  assumes w1: "fair_world L w1 t0" and fresh: "jr_keys s0 (enqueuePrefix @ wj_JobID job) = None" "jobs_of (wj_JobID job) s0 = []"
    and run1: "run_state (Queue_Enqueue wk w1 job) (0, s0) = (Inr i, n1, s1)"
    and path: "jobs_path L (s1, tick w1 t0 n1) (s2, t2)" and t2: "t2 < t0 + terminalTTL"
  shows "map (show_id \<circ> fst) (jobs_of (wj_JobID job) s2) = [i] \<and>
    (\<forall>w2 job2 i2 n s. fair_world L w2 t2 \<and> run_state (Queue_Enqueue wk w2 job2) (0, s2) = (Inr i2, n, s) \<and>
       wj_JobID job2 = wj_JobID job \<and> tick w2 t2 n < t0 + terminalTTL \<longrightarrow>
       i2 = i \<and> jobs_of (wj_JobID job) s = jobs_of (wj_JobID job) s2)"
proof -
  let ?job = "wj_JobID job"
  have since: "queued_since ?job t0 (s0, t0)" using fresh by (simp add: queued_since_def redis_get_def redis_live_def)
  note e1 = Enqueue_ok[OF w1 run1]
  have t1: "tick w1 t0 n1 < t0 + terminalTTL" using jobs_path_time[OF path] t2 by simp
  obtain j E where j: "queued_as ?job j E s1" "t0 + terminalTTL \<le> E"
    using queued_since_stays[OF e1(1), of ?job t0] since t1 e1(2) by (auto simp: queued_since_def)
  have "j = i" using j e1(2) t1 by (simp add: queued_as_def redis_get_def redis_live_def split: if_splits)
  note q = j(1)[unfolded this]
  have q2: "queued_as ?job i E s2" using queued_stays[OF path, of E ?job i] q j(2) t2 by simp
  have again: "i2 = i \<and> jobs_of ?job s = jobs_of ?job s2" if w2: "fair_world L w2 t2"
    and run2: "run_state (Queue_Enqueue wk w2 job2) (0, s2) = (Inr i2, n, s)" "wj_JobID job2 = ?job" "tick w2 t2 n < t0 + terminalTTL"
    for w2 job2 i2 n s
  proof -
    note e2 = Enqueue_ok[OF w2 run2(1)]
    have q3: "queued_as ?job i E s" using queued_stays[OF e2(1), of E ?job i] q2 j(2) run2(3) by simp
    then have "i2 = i" using e2(2) run2(2,3) j(2) by (simp add: queued_as_def redis_get_def redis_live_def split: if_splits)
    moreover have "jobs_of ?job s = jobs_of ?job s2" using jobs_grow[OF e2(1), of ?job] q2 q3 by (auto simp: queued_as_def)
    ultimately show ?thesis by simp
  qed
  show ?thesis using q2 again by (auto simp: queued_as_def)
qed


section \<open>A lease that was taken over\<close>

definition quiet :: "world \<Rightarrow> time \<Rightarrow> bool" where
  "quiet w t0 \<longleftrightarrow> wd_client w \<and> (\<forall>n. wd_conn w n = Answered \<and> wd_other w n = (\<lambda>s. s) \<and> tick w t0 n \<le> wd_rnow w n)"

lemma quiet_call:
  "quiet w t0 \<Longrightarrow> run_state (call w f) (n, s) = (case f (wd_rnow w n) s of (a, s2) \<Rightarrow> (a, Suc n, s2))"
  by (simp add: call_def quiet_def Let_def)

lemma quiet_fair: "quiet w t0 \<Longrightarrow> (\<And>n l. wd_random w n = Some l \<Longrightarrow> l \<in> L) \<Longrightarrow> fair_world L w t0"
  by (auto simp: quiet_def fair_world_def intro: jobs_wait)

lemma quiet_time: "quiet w t0 \<Longrightarrow> t0 \<le> wd_rnow w n"
proof (induction n)
  case 0
  then have "tick w t0 0 \<le> wd_rnow w 0" unfolding quiet_def by blast
  then show ?case by simp
next
  case (Suc n)
  then have "tick w t0 (Suc n) \<le> wd_rnow w (Suc n)" unfolding quiet_def by blast
  then show ?case using Suc by simp
qed

text \<open>What Redis keeps under the ID of a lease leads to its message; another owner has the message.\<close>

definition leads_to :: "wrapper_codec \<Rightarrow> string \<Rightarrow> string \<Rightarrow> jobs_redis \<times> time \<Rightarrow> bool" where
  "leads_to wk l m h \<longleftrightarrow> (\<forall>raw rec. redis_get (snd h) (leaseIDPrefix @ l) (jr_keys (fst h)) = Inr (Some raw) \<longrightarrow>
     wk_read_lease wk raw = Some rec \<longrightarrow> lm_MessageID rec = m)"

definition overtaken :: "string \<Rightarrow> string \<Rightarrow> jobs_redis \<times> time \<Rightarrow> bool" where
  "overtaken l m h \<longleftrightarrow> redis_get (snd h) (leaseMsgPrefix @ m) (jr_keys (fst h)) \<noteq> Inr (Some l)"

lemma get_later: "redis_get t' k r = Inr (Some v) \<Longrightarrow> t \<le> t' \<Longrightarrow> redis_get t k r = Inr (Some v)"
  by (auto simp: redis_get_def redis_live_def split: option.splits if_splits redis_data.splits)

lemma get_other [simp]: "k \<noteq> k' \<Longrightarrow> redis_get t k (redis_set t' k' v ttl r) = redis_get t k r"
  "k \<noteq> k' \<Longrightarrow> redis_get t k (redis_del k' r) = redis_get t k r"
  by (auto intro: get_cong)

lemma get_deleted: "redis_get t k (redis_del k' r) = Inr (Some v) \<Longrightarrow> redis_get t k r = Inr (Some v)"
  by (cases "k = k'") (auto simp: redis_get_def redis_live_def redis_del_def)

lemma get_set_other: "redis_get t k (redis_set t' k' v' ttl r) = Inr (Some v) \<Longrightarrow> k = k' \<and> v = v' \<or> redis_get t k r = Inr (Some v)"
  by (cases "k = k'") (auto simp: redis_get_def redis_live_def split: if_splits)

lemma enqueueScript_gets:
  "k \<noteq> enqueuePrefix @ j \<Longrightarrow> redis_get t' k (jr_keys (snd (enqueueScript j p t s))) = redis_get t' k (jr_keys s)"
  by (simp add: enqueueScript_def Let_def split: sum.split option.split)

lemma terminalScript_gets:
  "redis_get t' k (jr_keys (snd (terminalScript j p l m nm em t s))) = Inr (Some v) \<Longrightarrow> k \<noteq> TerminalPrefix @ j \<Longrightarrow>
     redis_get t' k (jr_keys s) = Inr (Some v)"
  by (auto simp: terminalScript_def Let_def dest!: get_deleted split: sum.splits option.splits if_splits)

lemma step_keeps_lease:
  assumes "jobs_step L (s, t) (s', t')" "l \<notin> L" "redis_get t' (leaseIDPrefix @ l) (jr_keys s') = Inr (Some v)"
  shows "redis_get t (leaseIDPrefix @ l) (jr_keys s) = Inr (Some v)"
proof -
  have "redis_get t' (leaseIDPrefix @ l) (jr_keys s) = Inr (Some v)" using assms(1)
  proof cases
    case (finished j p l' m' nm em)
    then show ?thesis using terminalScript_gets[of t "leaseIDPrefix @ l" j p l' m' nm em t s v] assms(3) by simp
  next
    case (granted l' raw m' ttl)
    then have "l \<noteq> l'" using assms(2) by auto
    then show ?thesis using assms(3) granted by (simp add: set_lease_def)
  qed (use assms(3) in \<open>simp_all add: enqueueScript_gets on_answer_keys\<close>)
  then show ?thesis by (rule get_later) (use jobs_path_time[OF jobs_one[OF assms(1)]] in simp)
qed

lemma step_keeps_owner:
  assumes "jobs_step L (s, t) (s', t')" "l \<notin> L" "\<And>who. l \<noteq> marker_of who"
    "redis_get t' (leaseMsgPrefix @ m) (jr_keys s') = Inr (Some l)"
  shows "redis_get t (leaseMsgPrefix @ m) (jr_keys s) = Inr (Some l)"
proof -
  have "redis_get t' (leaseMsgPrefix @ m) (jr_keys s) = Inr (Some l)" using assms(1)
  proof cases
    case (finished j p l' m' nm em)
    then show ?thesis using terminalScript_gets[of t "leaseMsgPrefix @ m" j p l' m' nm em t s l] assms(4) by simp
  next
    case (granted l' raw m' ttl)
    then have "l \<noteq> l'" "redis_get t' (leaseMsgPrefix @ m) (redis_set t' (leaseMsgPrefix @ m') l' ttl
        (redis_set t' (leaseIDPrefix @ l') raw ttl (jr_keys s))) = Inr (Some l)"
      using assms(2,4) by (auto simp: set_lease_def)
    then show ?thesis using get_set_other[of t' "leaseMsgPrefix @ m" t' "leaseMsgPrefix @ m'" l'] by fastforce
  next
    case (marked m' who ttl)
    then have "redis_get t' (leaseMsgPrefix @ m) (redis_set t' (leaseMsgPrefix @ m') (marker_of who) ttl (jr_keys s)) = Inr (Some l)"
      using assms(4) by simp
    then show ?thesis using get_set_other assms(3) by blast
  next
    case (unmarked m')
    then show ?thesis using get_deleted[of t' "leaseMsgPrefix @ m" "leaseMsgPrefix @ m'" "jr_keys s" l] assms(4) by simp
  qed (use assms(4) in \<open>simp_all add: enqueueScript_gets on_answer_keys\<close>)
  then show ?thesis by (rule get_later) (use jobs_path_time[OF jobs_one[OF assms(1)]] in simp)
qed

lemma leads_to_stays: "jobs_path L h h' \<Longrightarrow> l \<notin> L \<Longrightarrow> leads_to wk l m h \<Longrightarrow> leads_to wk l m h'"
proof (induction rule: rtranclp_induct)
  case (step y z)
  then show ?case using step_keeps_lease[of L _ _ _ _ l] unfolding leads_to_def by (metis prod.collapse)
qed simp

lemma overtaken_stays:
  "jobs_path L h h' \<Longrightarrow> l \<notin> L \<Longrightarrow> (\<And>who. l \<noteq> marker_of who) \<Longrightarrow> overtaken l m h \<Longrightarrow> overtaken l m h'"
proof (induction rule: rtranclp_induct)
  case (step y z)
  then show ?case using step_keeps_owner[of L _ _ _ _ l m] unfolding overtaken_def by (metis prod.collapse)
qed simp

lemma grant_overtakes:
  assumes w: "fair_world L w t0" and new: "l \<notin> L" and old: "leads_to wk l (show_id (fst m)) (s0, t0)"
    and run: "run_state (grant wk w claim m job) (0, s0) = (Inr x, n1, s1)"
  shows "leads_to wk l (show_id (fst m)) (s1, tick w t0 n1)" "overtaken l (show_id (fst m)) (s1, tick w t0 n1)"
proof -
  show "leads_to wk l (show_id (fst m)) (s1, tick w t0 n1)"
    using leads_to_stays[OF honestD[OF grant_honest[OF w] run] new] old by simp
  obtain l2 raw where g: "wd_random w 0 = Some l2" "n1 = Suc (Suc (Suc 0))"
    "s1 = set_lease l2 raw (show_id (fst m)) (wc_LeaseTTLSeconds claim * second) (wd_rnow w (Suc (Suc 0))) (wd_other w (Suc (Suc 0)) s0)"
    using run by (auto simp: grant_def newLeaseID_def clock_def call_Some Let_def split: option.splits prod.splits)
  have "l \<noteq> l2" using w new g(1) by (auto simp: fair_world_def)
  then show "overtaken l (show_id (fst m)) (s1, tick w t0 n1)"
    by (auto simp: g(2,3) overtaken_def set_lease_def redis_get_def redis_live_def)
qed

text \<open>The report of an overtaken lease stops before the script.\<close>

lemma owned_refused:
  assumes w: "quiet w t2" and s: "\<And>n. leads_to wk (wl_LeaseID lease) m (s, wd_rnow w n)" "\<And>n. overtaken (wl_LeaseID lease) m (s, wd_rnow w n)"
    and run: "run_state (terminal_owned wk w lease payload found) (n, s) = (r, n', s')"
  shows "s' = s \<and> (r = Inr () \<longrightarrow> found \<noteq> None)"
proof -
  have get: "run_state (GET_key w k) (n, s) = (case redis_get (wd_rnow w n) k (jr_keys s) of Inl _ \<Rightarrow> None | Inr v \<Rightarrow> Some v, Suc n, s)" for k n
    by (simp add: GET_key_def quiet_call[OF w])
  show ?thesis
  proof (cases "redis_get (wd_rnow w n) (leaseIDPrefix @ wl_LeaseID lease) (jr_keys s)")
    case (Inl u)
    then show ?thesis using run by (auto simp: terminal_owned_def get)
  next
    case (Inr v)
    show ?thesis
    proof (cases v)
      case None
      then show ?thesis using run Inr by (auto simp: terminal_owned_def get split: if_splits)
    next
      case (Some raw)
      show ?thesis
      proof (cases "wk_read_lease wk raw")
        case None
        then show ?thesis using run Inr Some by (auto simp: terminal_owned_def get)
      next
        case rec: (Some rec)
        then have "lm_MessageID rec = m" using s(1)[of n] Inr Some by (simp add: leads_to_def)
        then have "redis_get (wd_rnow w (Suc n)) (leaseMsgPrefix @ lm_MessageID rec) (jr_keys s) \<noteq> Inr (Some (wl_LeaseID lease))"
          using s(2)[of "Suc n"] by (simp add: overtaken_def)
        then show ?thesis using run Inr Some rec by (auto simp: terminal_owned_def get split: if_splits sum.splits)
      qed
    qed
  qed
qed

text \<open>
  C20.  A worker that was overtaken cannot report.  Once another claim has been granted the message
  of a lease, then however the queue goes on, a report under the old lease changes nothing in Redis,
  and it is answered with success only if exactly that result was on record already.  Lease IDs are
  drawn at random: no other client draws the old one again.
\<close>

theorem overtaken_report_refused:
  assumes w1: "fair_world L w1 t0" and new: "wl_LeaseID lease \<notin> L" "\<And>who. wl_LeaseID lease \<noteq> marker_of who"
    and old: "leads_to wk (wl_LeaseID lease) (show_id (fst m)) (s0, t0)"
    and taken: "run_state (grant wk w1 claim m job) (0, s0) = (Inr x, n1, s1)"
    and path: "jobs_path L (s1, tick w1 t0 n1) (s2, t2)" and w2: "quiet w2 t2"
    and report: "run_state (Queue_terminal wk w2 lease env) (0, s2) = (r, n2, s3)"
  shows "s3 = s2 \<and> (r = Inr () \<longrightarrow>
    (\<exists>p. wk_terminal wk env = Some p \<and> redis_get (wd_rnow w2 0) (TerminalPrefix @ wl_JobID lease) (jr_keys s2) = Inr (Some p)))"
proof -
  let ?l = "wl_LeaseID lease" and ?m = "show_id (fst m)"
  note g = grant_overtakes[OF w1 new(1) old taken]
  have later: "jobs_path L (s1, tick w1 t0 n1) (s2, wd_rnow w2 n)" for n
    using rtranclp_trans[OF path jobs_wait[OF quiet_time[OF w2]]] .
  note lead = leads_to_stays[OF later new(1) g(1)] and over = overtaken_stays[OF later new g(2)]
  have get: "run_state (GET_key w2 k) (0, s2) = (case redis_get (wd_rnow w2 0) k (jr_keys s2) of Inl _ \<Rightarrow> None | Inr v \<Rightarrow> Some v, Suc 0, s2)" for k
    by (simp add: GET_key_def quiet_call[OF w2])
  show ?thesis
  proof (cases "wk_terminal wk env")
    case None
    then show ?thesis using report by (auto simp: Queue_terminal_def split: if_splits)
  next
    case (Some p)
    have owned: "s' = s2 \<and> (r' = Inr () \<longrightarrow> found \<noteq> None)"
      if "run_state (terminal_owned wk w2 lease p found) (n, s2) = (r', n', s')" for found n r' n' s'
      using owned_refused[OF w2 lead over that] .
    show ?thesis using report Some
      by (auto simp: Queue_terminal_def get clock_def dest: owned split: if_splits sum.splits)
  qed
qed


section \<open>A job goes through\<close>

definition wrapper_codec_ok :: "wrapper_codec \<Rightarrow> bool" where
  "wrapper_codec_ok wk \<longleftrightarrow> (\<forall>x raw. wk_job wk x = Some raw \<longrightarrow> wk_read_job wk raw = Some x) \<and>
     (\<forall>x raw. wk_lease wk x = Some raw \<longrightarrow> wk_read_lease wk raw = Some x)"

text \<open>What the worker reports for an execution.\<close>

definition report_of :: "WrapperLease \<Rightarrow> execution \<Rightarrow> terminalEnvelope" where
  "report_of lease answer = (case answer of
     Inl err \<Rightarrow> Failed \<lparr>wf_SchemaVersion = SchemaVersion, wf_JobID = wl_JobID lease, wf_LeaseID = wl_LeaseID lease,
       wf_WorkerID = wl_WorkerID lease, wf_AccountID = wl_AccountID lease, wf_FenceEpoch = wl_FenceEpoch lease,
       wf_Code = fst (classifyExecutionError err), wf_Retryable = snd (classifyExecutionError err)\<rparr>
   | Inr output \<Rightarrow> Completed \<lparr>wo_SchemaVersion = SchemaVersion, wo_JobID = wl_JobID lease, wo_LeaseID = wl_LeaseID lease,
       wo_WorkerID = wl_WorkerID lease, wo_AccountID = wl_AccountID lease, wo_FenceEpoch = wl_FenceEpoch lease,
       wo_EncryptedOutput = output\<rparr>)"

text \<open>An idle queue: everything delivered and acknowledged.\<close>

definition idle_queue :: "jobs_redis \<Rightarrow> bool" where
  "idle_queue s \<longleftrightarrow> (\<exists>g. xs_group (jr_stream s) = Some g \<and> cg_pending g = [] \<and> cg_last g = xs_last (jr_stream s)) \<and>
     (\<forall>m \<in> set (xs_entries (jr_stream s)). fst m \<le> xs_last (jr_stream s))"

definition job_message :: "WrapperJob \<Rightarrow> string \<Rightarrow> time \<Rightarrow> jobs_redis \<Rightarrow> message" where
  "job_message job p t s = (next_id t (xs_last (jr_stream s)), [(''job_id'', wj_JobID job), (''payload'', p)])"

definition after_enqueue :: "WrapperJob \<Rightarrow> string \<Rightarrow> time \<Rightarrow> jobs_redis \<Rightarrow> jobs_redis" where
  "after_enqueue job p t s = with_keys (redis_set t (enqueuePrefix @ wj_JobID job) (show_id (fst (job_message job p t s))) terminalTTL)
     (with_stream (xadd t (snd (job_message job p t s))) s)"

lemma quiet_Enqueue:
  assumes w: "quiet w t0" and job: "WrapperJob_Validate job" "wk_job wk job = Some p"
    and fresh: "jr_keys s (enqueuePrefix @ wj_JobID job) = None"
  shows "run_state (Queue_Enqueue wk w job) (0, s) = (Inr (show_id (fst (job_message job p (wd_rnow w 0) s))), 1, after_enqueue job p (wd_rnow w 0) s)"
proof -
  have "redis_get (wd_rnow w 0) (enqueuePrefix @ wj_JobID job) (jr_keys s) = Inr None" using fresh by (simp add: get_none redis_live_def)
  note e = enqueueScript_cases[OF this, of p]
  show ?thesis using w job
    by (simp add: Queue_Enqueue_def quiet_call[OF w] e after_enqueue_def job_message_def quiet_def)
qed

text \<open>The state after the commands of the claim.\<close>

definition after_claim :: "WrapperClaim \<Rightarrow> WrapperLease \<Rightarrow> string \<Rightarrow> message \<Rightarrow> world \<Rightarrow> jobs_redis \<Rightarrow> jobs_redis" where
  "after_claim claim lease raw m w s =
     set_lease (wl_LeaseID lease) raw (show_id (fst m)) (wc_LeaseTTLSeconds claim * second) (wd_rnow w 7)
       (with_keys (redis_set (wd_rnow w 3) (leaseMsgPrefix @ show_id (fst m)) (marker_of (wc_WorkerID claim)) (wc_LeaseTTLSeconds claim * second))
         (with_stream (\<lambda>x. x\<lparr>xs_group := Some \<lparr>cg_last = fst m,
            cg_pending = [\<lparr>xp_id = fst m, xp_consumer = wc_WorkerID claim, xp_since = wd_rnow w 2\<rparr>]\<rparr>\<rparr>) s))"

lemma quiet_fetch:
  assumes w: "quiet w t1" and g: "xs_group (jr_stream s) = Some g" "cg_pending g = []" "unread (jr_stream s) g = [m]"
    and free: "jr_keys s (leaseMsgPrefix @ show_id (fst m)) = None"
  shows "run_state (nextMessage w who ttl) (1, s) = (Inr (Some m), 4,
     with_keys (redis_set (wd_rnow w 3) (leaseMsgPrefix @ show_id (fst m)) (marker_of who) ttl)
       (with_stream (\<lambda>x. x\<lparr>xs_group := Some \<lparr>cg_last = fst m,
            cg_pending = [\<lparr>xp_id = fst m, xp_consumer = who, xp_since = wd_rnow w 2\<rparr>]\<rparr>\<rparr>) s))"
  using g free
  by (simp add: nextMessage_def read_fresh_def SETNX_key_def quiet_call[OF w] on_answer_def xreadgroup_def redis_live_def with_stream_def
      numeral_2_eq_2 numeral_3_eq_3 eval_nat_numeral)


lemma quiet_Claim:
  assumes w: "quiet w t1" and g: "xs_group (jr_stream s) = Some g" "cg_pending g = []" "unread (jr_stream s) g = [m]"
    and free: "jr_keys s (leaseMsgPrefix @ show_id (fst m)) = None" "jr_keys s (TerminalPrefix @ wj_JobID job) = None"
    and job: "decodeJob wk m = Inr job" and claim: "WrapperClaim_Validate claim" "wc_LeaseTTLSeconds claim \<le> maxLeaseSeconds"
    and l: "wd_random w 5 = Some l" and lease: "lease = lease_for claim job l (wd_now w 6)"
    and raw: "wk_lease wk \<lparr>lm_MessageID = show_id (fst m), lm_Lease = lease\<rparr> = Some raw"
  shows "run_state (Queue_Claim wk w claim) (0, s) = (Inr (job, lease), 8, after_claim claim lease raw m w s)"
proof -
  let ?s = "with_keys (redis_set (wd_rnow w 3) (leaseMsgPrefix @ show_id (fst m)) (marker_of (wc_WorkerID claim)) (wc_LeaseTTLSeconds claim * second))
       (with_stream (\<lambda>x. x\<lparr>xs_group := Some \<lparr>cg_last = fst m,
            cg_pending = [\<lparr>xp_id = fst m, xp_consumer = wc_WorkerID claim, xp_since = wd_rnow w 2\<rparr>]\<rparr>\<rparr>) s)"
  have group_ok: "run_state (ensureGroup w) (0, s) = (Inr (), 1, s)"
    using g(1) by (simp add: ensureGroup_def quiet_call[OF w] with_stream_def xgroup_create_def)
  have ex: "run_state (EXISTS_key w (TerminalPrefix @ wj_JobID job)) (4, ?s) = (Some False, 5, ?s)"
    using free(2) by (simp add: EXISTS_key_def quiet_call[OF w] redis_live_def with_stream_def)
  have gr: "run_state (grant wk w claim m job) (5, ?s) = (Inr (job, lease), 8, after_claim claim lease raw m w s)"
    using l raw by (simp add: grant_def newLeaseID_def clock_def quiet_call[OF w] lease after_claim_def lease_for_def)
  have "run_state (claim_loop (Suc k) wk w claim) (1, s) = (Inr (job, lease), 8, after_claim claim lease raw m w s)" for k
    using quiet_fetch[OF w g free(1)] job ex gr by simp
  from this[of 31] have "run_state (claim_loop 32 wk w claim) (1, s) = (Inr (job, lease), 8, after_claim claim lease raw m w s)" by simp
  then show ?thesis using w claim group_ok by (simp add: Queue_Claim_def quiet_def del: claim_loop.simps)
qed

lemma quiet_terminal:
  assumes w: "quiet w t1" and lease: "WrapperLease_Validate lease" and p: "wk_terminal wk env = Some p"
    and none: "jr_keys s (TerminalPrefix @ wl_JobID lease) = None"
    and rec: "wk_read_lease wk raw = Some \<lparr>lm_MessageID = show_id i, lm_Lease = lease\<rparr>" "id_ok i"
    and keys: "jr_keys s (leaseIDPrefix @ wl_LeaseID lease) = Some \<lparr>re_data = RString raw, re_expires = Some E\<rparr>"
      "jr_keys s (leaseMsgPrefix @ show_id i) = Some \<lparr>re_data = RString (wl_LeaseID lease), re_expires = Some E\<rparr>"
    and time: "wd_rnow w (n + 3) < E" "wd_rnow w (n + 4) < E" "wd_rnow w (n + 6) < E"
    and client: "wd_now w (n + 2) < wl_ExpiresAt lease" "unix_milli (wd_now w (n + 5)) < unix_milli (wl_ExpiresAt lease)"
  shows "\<exists>s'. run_state (Queue_terminal wk w lease env) (n, s) = (Inr (), n + 7, s') \<and>
    redis_get (wd_rnow w (n + 6)) (TerminalPrefix @ wl_JobID lease) (jr_keys s') = Inr (Some p) \<and>
    jr_stream s' = (xack i (jr_stream s))\<lparr>xs_keys := jr_keys s'\<rparr>"
proof -
  have get: "run_state (GET_key w k) (n, s) = (case redis_get (wd_rnow w n) k (jr_keys s) of Inl _ \<Rightarrow> None | Inr v \<Rightarrow> Some v, Suc n, s)" for k n s
    by (simp add: GET_key_def quiet_call[OF w])
  have g: "redis_get (wd_rnow w n) (TerminalPrefix @ wl_JobID lease) (jr_keys s) = Inr None"
    "redis_get (wd_rnow w (Suc (Suc (Suc n)))) (leaseIDPrefix @ wl_LeaseID lease) (jr_keys s) = Inr (Some raw)"
    "redis_get (wd_rnow w (Suc (Suc (Suc (Suc n))))) (leaseMsgPrefix @ show_id i) (jr_keys s) = Inr (Some (wl_LeaseID lease))"
    using none keys time by (simp_all add: redis_get_def redis_live_def eval_nat_numeral)
  let ?t = "wd_rnow w (Suc (Suc (Suc (Suc (Suc (Suc n))))))"
  have h: "redis_get ?t (TerminalPrefix @ wl_JobID lease) (jr_keys s) = Inr None"
    "redis_live ?t (jr_keys s) (leaseIDPrefix @ wl_LeaseID lease) \<noteq> None"
    "redis_get ?t (leaseMsgPrefix @ show_id i) (jr_keys s) = Inr (Some (wl_LeaseID lease))"
    using none keys time(3) by (simp_all add: redis_get_def redis_live_def eval_nat_numeral)
  define s' where "s' = with_keys (redis_del (leaseIDPrefix @ wl_LeaseID lease) \<circ> redis_del (leaseMsgPrefix @ show_id i))
    (with_stream (xack i) (with_keys (redis_set ?t (TerminalPrefix @ wl_JobID lease) p terminalTTL) s))"
  have script: "terminalScript (wl_JobID lease) p (wl_LeaseID lease) (show_id i) (unix_milli (wd_now w (Suc (Suc (Suc (Suc (Suc n)))))))
      (unix_milli (wl_ExpiresAt lease)) ?t s = (Some 0, s')"
    using h client(2) parse_id_show_id[OF rec(2)] by (simp add: terminalScript_def s'_def eval_nat_numeral Let_def)
  have run: "run_state (Queue_terminal wk w lease env) (n, s) = (Inr (), n + 7, s')"
    using w lease p g rec(1) client(1) script
    by (simp add: Queue_terminal_def terminal_owned_def get clock_def quiet_call[OF w] quiet_def sameLease_def eval_nat_numeral)
  have "redis_get ?t (TerminalPrefix @ wl_JobID lease) (jr_keys s') = Inr (Some p)"
    by (simp add: s'_def redis_get_def redis_live_def)
  moreover have "jr_stream s' = (xack i (jr_stream s))\<lparr>xs_keys := jr_keys s'\<rparr>"
    by (simp add: s'_def with_keys_def with_stream_def xack_def)
  ultimately show ?thesis using run by (auto simp: eval_nat_numeral)
qed


lemma report_valid:
  assumes lease: "WrapperLease_Validate lease" and job: "wj_JobID job = wl_JobID lease"
    and out: "\<And>output. execute job = Inr output \<Longrightarrow> output \<noteq> '''' \<and> int (length output) \<le> MaxWrapperEnvelopeBytes"
    and claimed: "run_state (Queue_Claim wk w \<lparr>wc_SchemaVersion = SchemaVersion, wc_WorkerID = who, wc_LeaseTTLSeconds = ttl\<rparr>) (0, s) = (Inr (job, lease), n, s1)"
  shows "run_state (worker_turn wk w execute who ttl) (0, s) =
    (case run_state (Queue_terminal wk w lease (report_of lease (execute job))) (n, s1) of (r, x) \<Rightarrow> (after_report r, x))"
proof -
  have valid: "validWrapperResult SchemaVersion (wl_JobID lease) (wl_LeaseID lease) (wl_WorkerID lease) (wl_AccountID lease) (wl_FenceEpoch lease)"
    using lease by (simp add: WrapperLease_Validate_def validWrapperResult_def supportedSchemaVersion_def SchemaVersion_def)
  have code: "trim_space (fst (classifyExecutionError err)) \<noteq> ''''" "int (length (fst (classifyExecutionError err))) \<le> 128" for err
    by (auto simp: classifyExecutionError_def split: option.split) code_simp+
  show ?thesis
  proof (cases "execute job")
    case (Inl err)
    obtain c retryable where "classifyExecutionError err = (c, retryable)" by fastforce
    then show ?thesis using Inl claimed valid lease code[of err] job
      by (simp add: worker_turn_def Queue_Fail_def report_of_def WrapperFailure_ValidateLease_def WrapperFailure_Validate_def
          validateWrapperLeaseResult_def split: prod.split)
  next
    case (Inr result)
    then show ?thesis using claimed valid lease out[of result] job
      by (simp add: worker_turn_def Queue_Complete_def report_of_def WrapperCompletion_ValidateLease_def WrapperCompletion_Validate_def
          validateWrapperLeaseResult_def split: prod.split)
  qed
qed

lemma next_id_gt: "l < next_id t l"
  by (cases l) (simp add: next_id_def less_prod_simp)

lemma lease_for_valid:
  assumes "WrapperJob_Validate job" "validWrapperID l" "validWrapperID (wc_WorkerID claim)" "\<not> is_zero_time (wl_ExpiresAt (lease_for claim job l now))"
  shows "WrapperLease_Validate (lease_for claim job l now)"
  using assms by (simp add: WrapperLease_Validate_def lease_for_def WrapperJob_Validate_def supportedSchemaVersion_def SchemaVersion_def)

text \<open>
  C21.  A job goes through.  On an idle queue with no trace of the job, enqueueing it and one turn of
  a worker that draws a valid lease ID and answers before the lease ends lead to the result on
  record, completed or failed as the execution was, with nothing left pending; the worker goes on.
\<close>

theorem job_goes_through:
  assumes codec: "wrapper_codec_ok wk" and we: "quiet we t0" and ww: "quiet ww t1" and idle: "idle_queue s0"
    and i: "i = next_id (wd_rnow we 0) (xs_last (jr_stream s0))" "id_ok i"
    and fresh: "jr_keys s0 (enqueuePrefix @ wj_JobID job) = None" "jr_keys s0 (TerminalPrefix @ wj_JobID job) = None"
      "jr_keys s0 (leaseMsgPrefix @ show_id i) = None"
    and job: "WrapperJob_Validate job" "wk_job wk job = Some p"
    and worker: "claim = \<lparr>wc_SchemaVersion = SchemaVersion, wc_WorkerID = who, wc_LeaseTTLSeconds = ttl\<rparr>" "validWrapperID who"
      "0 < ttl" "ttl \<le> maxLeaseSeconds"
    and l: "wd_random ww 5 = Some l" "validWrapperID l"
    and lease: "lease = lease_for claim job l (wd_now ww 6)" "\<not> is_zero_time (wl_ExpiresAt lease)"
      "wk_lease wk \<lparr>lm_MessageID = show_id i, lm_Lease = lease\<rparr> = Some raw"
    and out: "\<And>output. execute job = Inr output \<Longrightarrow> output \<noteq> '''' \<and> int (length output) \<le> MaxWrapperEnvelopeBytes"
    and q: "wk_terminal wk (report_of lease (execute job)) = Some q"
    and time: "wd_rnow ww 14 < wd_rnow ww 7 + ttl * second" "wd_now ww 10 < wl_ExpiresAt lease"
      "unix_milli (wd_now ww 13) < unix_milli (wl_ExpiresAt lease)"
  shows "\<exists>s1 s2. run_state (Queue_Enqueue wk we job) (0, s0) = (Inr (show_id i), 1, s1) \<and>
    run_state (worker_turn wk ww execute who ttl) (0, s1) = (KeepGoing, 15, s2) \<and>
    redis_get (wd_rnow ww 14) (TerminalPrefix @ wj_JobID job) (jr_keys s2) = Inr (Some q) \<and> idle_queue s2"
proof -
  let ?m = "job_message job p (wd_rnow we 0) s0" and ?s1 = "after_enqueue job p (wd_rnow we 0) s0"
  have m: "fst ?m = i" by (simp add: job_message_def i(1))
  obtain g where g: "xs_group (jr_stream s0) = Some g" "cg_pending g = []" "cg_last g = xs_last (jr_stream s0)"
    and old: "\<And>x. x \<in> set (xs_entries (jr_stream s0)) \<Longrightarrow> fst x \<le> xs_last (jr_stream s0)" using idle by (auto simp: idle_queue_def)
  have s1: "xs_group (jr_stream ?s1) = Some g" "xs_entries (jr_stream ?s1) = xs_entries (jr_stream s0) @ [?m]" "xs_last (jr_stream ?s1) = i"
    using g(1) by (simp_all add: after_enqueue_def with_keys_def with_stream_def xadd_def job_message_def i(1) Let_def)
  have "filter (\<lambda>x. cg_last g < fst x) (xs_entries (jr_stream s0)) = []" using old g(3) by (auto simp: filter_empty_conv leD)
  then have un: "unread (jr_stream ?s1) g = [?m]"
    using next_id_gt[of "xs_last (jr_stream s0)" "wd_rnow we 0"] by (simp add: unread_def s1(2) m g(3) i(1))
  have keys: "jr_keys ?s1 (leaseMsgPrefix @ show_id (fst ?m)) = None" "jr_keys ?s1 (TerminalPrefix @ wj_JobID job) = None"
    using fresh by (simp_all add: after_enqueue_def m)
  have dec: "decodeJob wk ?m = Inr job" using codec job by (simp add: decodeJob_def job_message_def wrapper_codec_ok_def)
  have claim: "WrapperClaim_Validate claim" "wc_LeaseTTLSeconds claim \<le> maxLeaseSeconds"
    using worker by (simp_all add: WrapperClaim_Validate_def supportedSchemaVersion_def SchemaVersion_def)
  define s2 where "s2 = after_claim claim lease raw ?m ww ?s1"
  have claimed: "run_state (Queue_Claim wk ww claim) (0, ?s1) = (Inr (job, lease), 8, s2)" unfolding s2_def
    by (rule quiet_Claim[OF ww s1(1) g(2) un keys dec claim l(1) lease(1)]) (simp add: m lease(3))
  have valid: "WrapperLease_Validate lease" unfolding lease(1)
    by (rule lease_for_valid[OF job(1) l(2)]) (use worker lease in simp_all)
  have jid: "wj_JobID job = wl_JobID lease" "wl_LeaseID lease = l" by (simp_all add: lease(1) lease_for_def)
  let ?E = "wd_rnow ww 7 + ttl * second"
  have k2: "jr_keys s2 (leaseIDPrefix @ wl_LeaseID lease) = Some \<lparr>re_data = RString raw, re_expires = Some ?E\<rparr>"
    "jr_keys s2 (leaseMsgPrefix @ show_id i) = Some \<lparr>re_data = RString (wl_LeaseID lease), re_expires = Some ?E\<rparr>"
    "jr_keys s2 (TerminalPrefix @ wl_JobID lease) = None"
    using keys(2) by (simp_all add: s2_def after_claim_def set_lease_def m worker(1) jid(1)[symmetric])
  have mono: "wd_rnow ww n \<le> wd_rnow ww (Suc n)" for n using ww unfolding quiet_def by (metis tick.simps(2))
  have t: "wd_rnow ww (8 + 3) < ?E" "wd_rnow ww (8 + 4) < ?E" "wd_rnow ww (8 + 6) < ?E"
    using mono[of 11] mono[of 12] mono[of 13] time(1) by simp_all
  have rec: "wk_read_lease wk raw = Some \<lparr>lm_MessageID = show_id i, lm_Lease = lease\<rparr>" using codec lease(3) by (simp add: wrapper_codec_ok_def)
  have cl: "wd_now ww (8 + 2) < wl_ExpiresAt lease" "unix_milli (wd_now ww (8 + 5)) < unix_milli (wl_ExpiresAt lease)" using time(2,3) by simp_all
  obtain s3 where s3: "run_state (Queue_terminal wk ww lease (report_of lease (execute job))) (8, s2) = (Inr (), 15, s3)"
    "redis_get (wd_rnow ww 14) (TerminalPrefix @ wj_JobID job) (jr_keys s3) = Inr (Some q)"
    "jr_stream s3 = (xack i (jr_stream s2))\<lparr>xs_keys := jr_keys s3\<rparr>"
    using quiet_terminal[OF ww valid q k2(3) rec i(2) k2(1,2) t cl] jid(1) by auto
  have "run_state (worker_turn wk ww execute who ttl) (0, ?s1) = (KeepGoing, 15, s3)"
    using report_valid[where execute = execute, OF valid jid(1) out claimed[unfolded worker(1)]] s3(1) by (simp add: after_report_def)
  moreover have "xs_entries (jr_stream s3) = xs_entries (jr_stream s0) @ [?m]" "xs_last (jr_stream s3) = i"
    "xs_group (jr_stream s3) = Some \<lparr>cg_last = i, cg_pending = []\<rparr>"
    using arg_cong[OF s3(3), of xs_entries] arg_cong[OF s3(3), of xs_last] arg_cong[OF s3(3), of xs_group] s1
    by (simp_all add: s2_def after_claim_def set_lease_def with_keys_def with_stream_def xack_def m)
  then have "idle_queue s3"
    using old next_id_gt[of "xs_last (jr_stream s0)" "wd_rnow we 0"] by (auto simp: idle_queue_def m i(1) dest: old intro: order.trans less_imp_le)
  ultimately show ?thesis using quiet_Enqueue[OF we job fresh(1)] s3(2) m by auto
qed


section \<open>Samples\<close>

definition world_at :: "time \<Rightarrow> string \<Rightarrow> world" where
  "world_at t l = \<lparr>wd_client = True, wd_conn = (\<lambda>_. Answered), wd_rnow = (\<lambda>n. unix_epoch + t + int n), wd_other = (\<lambda>_ s. s),
     wd_now = (\<lambda>n. unix_epoch + t + int n), wd_random = (\<lambda>_. Some l)\<rparr>"

lemma world_at_tick: "tick (world_at t l) (unix_epoch + t) n \<le> unix_epoch + t + int n"
  by (cases n) (simp_all add: world_at_def)

lemma world_at_quiet: "quiet (world_at t l) (unix_epoch + t)"
  using world_at_tick by (simp add: quiet_def world_at_def)

lemma world_at_fair: "l \<in> L \<Longrightarrow> fair_world L (world_at t l) (unix_epoch + t)"
  by (rule quiet_fair[OF world_at_quiet]) (simp add: world_at_def)

definition login_job :: WrapperJob where
  "login_job = \<lparr>wj_SchemaVersion = 1, wj_JobID = ''j'', wj_Provider = ''codex'', wj_Operation = WrapperAuthorize, wj_AccountID = '''',
     wj_FenceEpoch = 0, wj_EncryptedInput = ''in''\<rparr>"

definition login_claim :: "string \<Rightarrow> WrapperClaim" where
  "login_claim who = \<lparr>wc_SchemaVersion = SchemaVersion, wc_WorkerID = who, wc_LeaseTTLSeconds = 60\<rparr>"

definition login_lease :: WrapperLease where
  "login_lease = lease_for (login_claim ''w1'') login_job ''l1'' (unix_epoch + 6000006)"

definition login_lease2 :: WrapperLease where
  "login_lease2 = lease_for (login_claim ''w2'') login_job ''l2'' (unix_epoch + 8000001)"

definition login_codec :: wrapper_codec where
  "login_codec = \<lparr>wk_job = (\<lambda>j. if j = login_job then Some ''job'' else None),
     wk_read_job = (\<lambda>raw. if raw = ''job'' then Some login_job else None),
     wk_lease = (\<lambda>x. if x = \<lparr>lm_MessageID = ''5-0'', lm_Lease = login_lease\<rparr> then Some ''r1''
        else if x = \<lparr>lm_MessageID = ''5-0'', lm_Lease = login_lease2\<rparr> then Some ''r2'' else None),
     wk_read_lease = (\<lambda>raw. if raw = ''r1'' then Some \<lparr>lm_MessageID = ''5-0'', lm_Lease = login_lease\<rparr>
        else if raw = ''r2'' then Some \<lparr>lm_MessageID = ''5-0'', lm_Lease = login_lease2\<rparr> else None),
     wk_terminal = (\<lambda>e. case e of Completed _ \<Rightarrow> Some ''completed'' | Failed _ \<Rightarrow> Some ''failed'')\<rparr>"

definition no_jobs :: jobs_redis where
  "no_jobs = \<lparr>jr_stream = \<lparr>xs_entries = [], xs_last = (0, 0), xs_group = Some \<lparr>cg_last = (0, 0), cg_pending = []\<rparr>,
     xs_dlq = [], xs_keys = Map.empty\<rparr>, jr_dlq = []\<rparr>"

definition one_job :: jobs_redis where
  "one_job = snd (snd (run_state (Queue_Enqueue login_codec (world_at 5000000 '''') login_job) (0, no_jobs)))"

definition job_claimed :: jobs_redis where
  "job_claimed = snd (snd (run_state (Queue_Claim login_codec (world_at 6000000 ''l1'') (login_claim ''w1'')) (0, one_job)))"

definition job_done :: jobs_redis where
  "job_done = snd (snd (run_state (Queue_terminal login_codec (world_at 7000000 '''') login_lease (report_of login_lease (Inr ''out''))) (0, job_claimed)))"

definition job_taken :: jobs_redis where
  "job_taken = snd (snd (run_state (grant login_codec (world_at 8000000 ''l2'') (login_claim ''w2'') (hd (xs_entries (jr_stream one_job))) login_job) (0, job_claimed)))"

lemma run_by_answer: "fst (run_state m x) = r \<Longrightarrow> run_state m x = (r, fst (snd (run_state m x)), snd (snd (run_state m x)))"
  by (simp add: prod_eq_iff)

lemma login_enqueued: "fst (run_state (Queue_Enqueue login_codec (world_at 5000000 '''') login_job) (0, no_jobs)) = Inr ''5-0''"
  by code_simp

lemma login_claimed: "fst (run_state (Queue_Claim login_codec (world_at 6000000 ''l1'') (login_claim ''w1'')) (0, one_job)) = Inr (login_job, login_lease)"
  by code_simp

lemma login_done:
  "run_state (Queue_terminal login_codec (world_at 7000000 '''') login_lease (report_of login_lease (Inr ''out''))) (0, job_claimed) = (Inr (), 7, job_done)"
proof -
  have "(case run_state (Queue_terminal login_codec (world_at 7000000 '''') login_lease (report_of login_lease (Inr ''out''))) (0, job_claimed) of
    (r, n, _) \<Rightarrow> (r, n)) = (Inr (), 7)" by code_simp
  then show ?thesis by (simp add: job_done_def prod_eq_iff split: prod.splits)
qed

lemma login_taken:
  "fst (run_state (grant login_codec (world_at 8000000 ''l2'') (login_claim ''w2'') (hd (xs_entries (jr_stream one_job))) login_job) (0, job_claimed)) =
     Inr (login_job, login_lease2)"
  by code_simp


theorem job_enqueued_once_witness:
  "map (show_id \<circ> fst) (jobs_of ''j'' one_job) = [''5-0'']"
proof -
  have fresh: "jr_keys no_jobs (enqueuePrefix @ wj_JobID login_job) = None" "jobs_of (wj_JobID login_job) no_jobs = []"
    by (simp_all add: no_jobs_def jobs_of_def)
  have run: "run_state (Queue_Enqueue login_codec (world_at 5000000 '''') login_job) (0, no_jobs) = (Inr ''5-0'', 1, one_job)"
    using login_enqueued by (simp add: one_job_def prod_eq_iff) code_simp
  have path: "jobs_path UNIV (one_job, tick (world_at 5000000 '''') (unix_epoch + 5000000) 1) (one_job, unix_epoch + 5000000)"
    by (simp add: world_at_def)
  show ?thesis
    using job_enqueued_once[OF world_at_fair[of "[]" UNIV] fresh run path] by (simp add: login_job_def)
qed

theorem job_finished_once_witness:
  "redis_get (unix_epoch + 7000006) (TerminalPrefix @ ''j'') (jr_keys job_done) = Inr (Some ''completed'') \<and>
   fst (run_state (Queue_terminal login_codec (world_at 7000006 '''') login_lease (report_of login_lease (Inl None))) (0, job_done)) \<noteq> Inr ()"
proof -
  have fresh: "redis_get (unix_epoch + 7000000) (TerminalPrefix @ wl_JobID login_lease) (jr_keys job_claimed) = Inr None" by code_simp
  have path: "jobs_path UNIV (job_done, tick (world_at 7000000 '''') (unix_epoch + 7000000) 7) (job_done, unix_epoch + 7000006)"
    by (rule jobs_wait) (simp add: world_at_def numeral_eq_Suc)
  let ?run = "run_state (Queue_terminal login_codec (world_at 7000006 '''') login_lease (report_of login_lease (Inl None))) (0, job_done)"
  have p: "wk_terminal login_codec (report_of login_lease (Inr ''out'')) = Some ''completed''" "wl_JobID login_lease = ''j''"
    "wk_terminal login_codec (report_of login_lease (Inl None)) = Some ''failed''"
    by (simp_all add: login_codec_def report_of_def login_lease_def lease_for_def login_job_def)
  have "fst (snd ?run) = 1" by code_simp
  then have t: "unix_epoch + 7000006 < unix_epoch + 7000000 + terminalTTL"
    "tick (world_at 7000006 '''') (unix_epoch + 7000006) (fst (snd ?run)) < unix_epoch + 7000000 + terminalTTL"
    by (simp_all add: terminalTTL_def second_def world_at_def)
  note once = job_finished_once[OF world_at_fair[of "[]" UNIV] fresh login_done path world_at_fair[of "[]" UNIV]]
  have "wk_terminal login_codec (report_of login_lease (Inl None)) = Some ''completed''" if "fst ?run = Inr ()"
    using once run_by_answer[OF that] t(2) p(1) by (metis UNIV_I option.inject)
  then show ?thesis using once t(1) p by auto
qed

theorem overtaken_report_refused_witness:
  "run_state (Queue_terminal login_codec (world_at 9000000 '''') login_lease (report_of login_lease (Inr ''out''))) (0, job_taken) =
     (Inl ErrLeaseLost, 5, job_taken)"
proof -
  let ?w = "world_at 8000000 ''l2''" and ?m = "hd (xs_entries (jr_stream one_job))" and ?w2 = "world_at 9000000 ''''"
  have new: "wl_LeaseID login_lease \<notin> {''l2''}" "\<And>who. wl_LeaseID login_lease \<noteq> marker_of who"
    by (simp_all add: login_lease_def lease_for_def marker_of_def)
  have id: "show_id (fst ?m) = ''5-0''" by code_simp
  have "redis_get (unix_epoch + 8000000) (leaseIDPrefix @ wl_LeaseID login_lease) (jr_keys job_claimed) = Inr (Some ''r1'')" by code_simp
  then have old: "leads_to login_codec (wl_LeaseID login_lease) (show_id (fst ?m)) (job_claimed, unix_epoch + 8000000)"
    by (simp add: leads_to_def id login_codec_def)
  have taken: "run_state (grant login_codec ?w (login_claim ''w2'') ?m login_job) (0, job_claimed) =
      (Inr (login_job, login_lease2), fst (snd (run_state (grant login_codec ?w (login_claim ''w2'') ?m login_job) (0, job_claimed))), job_taken)"
    unfolding job_taken_def by (rule run_by_answer[OF login_taken])
  have "fst (snd (run_state (grant login_codec ?w (login_claim ''w2'') ?m login_job) (0, job_claimed))) = 3" by code_simp
  note taken3 = taken[unfolded this]
  have path: "jobs_path {''l2''} (job_taken, tick ?w (unix_epoch + 8000000) 3) (job_taken, unix_epoch + 9000000)"
    by (rule jobs_wait) (simp add: world_at_def numeral_3_eq_3)
  let ?run = "run_state (Queue_terminal login_codec ?w2 login_lease (report_of login_lease (Inr ''out''))) (0, job_taken)"
  have "(case ?run of (r, n, _) \<Rightarrow> (r, n)) = (Inl ErrLeaseLost, 5)" by code_simp
  then have run: "?run = (Inl ErrLeaseLost, 5, snd (snd ?run))" by (simp add: prod_eq_iff split: prod.splits)
  have "snd (snd ?run) = job_taken"
    using overtaken_report_refused[OF world_at_fair new old taken3 path world_at_quiet run] by simp
  then show ?thesis using run by simp
qed

theorem job_goes_through_witness:
  "\<exists>s1 s2. run_state (Queue_Enqueue login_codec (world_at 5000000 '''') login_job) (0, no_jobs) = (Inr ''5-0'', 1, s1) \<and>
    run_state (worker_turn login_codec (world_at 6000000 ''l1'') (\<lambda>_. Inr ''out'') ''w1'' 60) (0, s1) = (KeepGoing, 15, s2) \<and>
    redis_get (unix_epoch + 6000014) (TerminalPrefix @ ''j'') (jr_keys s2) = Inr (Some ''completed'') \<and> idle_queue s2"
proof -
  let ?we = "world_at 5000000 ''''" and ?ww = "world_at 6000000 ''l1''"
  have codec: "wrapper_codec_ok login_codec" by (simp add: wrapper_codec_ok_def login_codec_def)
  have idle: "idle_queue no_jobs" by (simp add: idle_queue_def no_jobs_def)
  have i: "(5, 0) = next_id (wd_rnow ?we 0) (xs_last (jr_stream no_jobs))" "id_ok (5, 0)" by code_simp+
  have id: "show_id (5, 0) = ''5-0''" by code_simp
  have fresh: "jr_keys no_jobs k = None" for k by (simp add: no_jobs_def)
  have job: "WrapperJob_Validate login_job" "wk_job login_codec login_job = Some ''job''" by code_simp+
  have l: "wd_random ?ww 5 = Some ''l1''" "validWrapperID ''l1''" "validWrapperID ''w1''" by code_simp+
  have lease: "login_lease = lease_for (login_claim ''w1'') login_job ''l1'' (wd_now ?ww 6)" "\<not> is_zero_time (wl_ExpiresAt login_lease)"
    "wk_lease login_codec \<lparr>lm_MessageID = show_id (5, 0), lm_Lease = login_lease\<rparr> = Some ''r1''" by code_simp+
  have out: "''out'' \<noteq> [] \<and> int (length ''out'') \<le> MaxWrapperEnvelopeBytes" by code_simp
  have q: "wk_terminal login_codec (report_of login_lease (Inr ''out'')) = Some ''completed''" by (simp add: login_codec_def report_of_def)
  have ttl: "0 < (60::int)" "(60::int) \<le> maxLeaseSeconds" by (simp_all add: maxLeaseSeconds_def)
  have time: "wd_rnow ?ww 14 < wd_rnow ?ww 7 + 60 * second" "wd_now ?ww 10 < wl_ExpiresAt login_lease"
    "unix_milli (wd_now ?ww 13) < unix_milli (wl_ExpiresAt login_lease)" by code_simp+
  have r: "wd_rnow ?ww 14 = unix_epoch + 6000014" "wj_JobID login_job = ''j''" by (simp_all add: world_at_def login_job_def)
  show ?thesis
    using job_goes_through[where execute = "\<lambda>_. Inr ''out''", OF codec world_at_quiet world_at_quiet idle i fresh fresh fresh job login_claim_def l(3) ttl l(1,2) lease _ q time]
      out unfolding id r by simp
qed

end
