(* ===== verification/Spec2Isabelle.thy ===== *)
theory Spec2Isabelle
  imports Platform Delivery Quota Wrapper
begin

text \<open>
  \<^bold>\<open>What the program is.\<close>  gateway-platform resells access to language model accounts.  Tenants
  present a token to the \<^emph>\<open>gateway\<close>, which picks one of the platform's upstream accounts, calls the
  upstream, answers the tenant and reports every attempt on a Redis stream.  \<^emph>\<open>Control\<close> consumes the
  stream into a usage ledger, judges the health of the accounts, prices and bills the ledger
  against prepaid wallets, reconciles the books, refreshes the credentials of the accounts, and
  publishes to Redis what the gateway schedules from: the accounts of every bucket and the tokens
  of every tenant.  An operators' console moves money, sets prices and rules on rows the machine
  would not bill.  Gateway and control share nothing but Redis; PostgreSQL is control's alone.

  \<^bold>\<open>How it is modelled.\<close>  Definitions keep the names of the Go sources.  A Go string is a HOL
  \<open>string\<close> of bytes; an \<open>int64\<close> is an \<open>int\<close> with \<open>wrap64\<close> written where the code can overflow;
  \<open>time.Time\<close> is an \<open>int\<close> of nanoseconds since the zero time of Go; a map is an association list
  read by \<open>map_of\<close>, so that no result rests on the order of iteration unless it is written out.
  A table of PostgreSQL is a list of row records and a statement is a function on the state; a
  transaction that fails returns the state it began with.  A Redis key is an entry with an expiry and
  a command or script is a function of the server's clock.  A failure is \<open>Inl\<close> of an error or \<open>None\<close>.  What the code does not decide
  is an argument: clocks, random numbers, SHA-256, JSON codecs, ciphers, the replies of the
  upstreams, whether a database call fails, and how a Redis call goes (\<open>redis_conn\<close>: no client,
  not run, run with the reply lost, answered).  Theorems that need a law of such an argument (a codec
  that reads what it wrote, a digest without collisions on the strings at hand) state it as a
  hypothesis and have a witness with a concrete function.

  \<^bold>\<open>The theories\<close>, with the sources under src/ they model.
  \<^item> \<open>Prelude\<close>: time, wrap-around, decimal text, \<open>strings\<close> functions, association lists.
  \<^item> \<open>Contracts\<close> (pkg/contracts/contracts.go): the shared data types, exact decimals, validation
    of events.  Subtraction of decimals is exact; JSON round trip.
  \<^item> \<open>Chooser\<close> (internal/gateway/chooser.go): buckets, cooldowns, egress short circuits, Acquire.
    The account leased is schedulable and the same whatever the order of the maps; failures cool;
    a path is cut only by two accounts; buckets do not disturb each other.
  \<^item> \<open>Redis\<close>, \<open>Limiter\<close> (internal/gateway/limiter.go, sticky.go): the commands used and the two
    Lua scripts.  Limits hold in every history of takes and releases; pins are private to a tenant.
  \<^item> \<open>TenantAuth\<close> (internal/control/tenants.go, internal/snapshot/auth.go, internal/gateway/auth.go,
    the middleware of gateway/run.go): minting, publishing, loading and checking tokens.  Exactly
    the valid tokens of the identity tables are admitted.
  \<^item> \<open>Snapshot\<close> (internal/snapshot/redis.go): the Lua scripts that publish a bucket by compare-and-swap
    and remove it, and the load, whose four commands each read their own state of the server.  A
    load returns one published generation whatever is published meanwhile.
  \<^item> \<open>Pool\<close> (internal/control/snapshot_loop.go, the bucket loader of internal/gateway/run.go): from
    the rows of the accounts table to the chooser's buckets.  What is loaded after a run is exactly
    what the tables call schedulable.
  \<^item> \<open>Upstream\<close>, \<open>Gateway\<close> (internal/gateway/server.go): the call of an upstream, its
    classification, and the handler of a plain request with its failover.  Every lease is given
    back and every attempt is reported, on every branch.
  \<^item> \<open>EventStream\<close> (internal/events/stream.go, internal/control/events_adapter.go): producer,
    consumer group, retries, dead letters, trimming.  The handler is the locale \<open>event_handler\<close>,
    interpreted on the ledger; no event that was added is lost, and none is retried a seventh time.
  \<^item> \<open>Delivery\<close>: the gateway's events through the stream into the ledger; a request that was served
    is metered with the usage the upstream reported.
  \<^item> \<open>Health\<close> (internal/control/health.go): cooldowns by a release, the platform alert window, the
    starvation guard.
  \<^item> \<open>Ledger\<close> (internal/control/ledger.go, state.go): attempts and usage rows; each attempt is
    metered once, the PostgreSQL ledger refines the one in memory.
  \<^item> \<open>Money\<close> (internal/control/billing.go), \<open>BillingJob\<close> (billing_job.go, billing_policy.go),
    \<open>Reconcile\<close> (billing_reconcile.go): prices, wallets and movements in \<open>NUMERIC(38,12)\<close>; the
    settlement of a tenant charges exactly the rounded sum of its priced rows; a report is balanced
    exactly when the books are.
  \<^item> \<open>HeldTray\<close>, \<open>Console\<close> (internal/control/console.go, console_auth.go, console_held.go,
    console_billing.go, billing_reconcile_loop.go): rulings, authorization, money endpoints and
    their replays.
  \<^item> \<open>Providers\<close> (internal/control/provider/provider.go, internal/control/credentials/cipher.go): the
    registry of provider adapters and the credential cipher around an AEAD.
  \<^item> \<open>Fleet\<close> (internal/control/fencing.go, refresh.go, refresh_loop.go, import.go,
    console_accounts.go): the writers of the accounts table as one step relation.  Fencing lets no
    refresh overwrite a credential it did not read, nor an operator's decision.
  \<^item> \<open>Quota\<close> (internal/control/quota_refresh.go): quotas are stored with an outbox row, published by
    changing one account of a snapshot, and retried.  No publication is lost to a quota's, and no
    row leaves the outbox unpublished unless a newer writer owns the account.
  \<^item> \<open>Wrapper\<close> (pkg/contracts/wrapper.go, internal/control/wrapper/queue.go, worker.go): the job queue of
    the login workers, each operation a sequence of Redis commands in the state monad with other
    clients in between.  A job is queued once, finished once, and never reported by a worker that
    was overtaken; on an idle queue it goes through.
  \<^item> \<open>Books\<close>, \<open>Platform\<close>: every operation above as one step relation over one database, with the
    invariants that every history keeps.  The theorems below and in \<open>Delivery\<close> span the components.

  \<^bold>\<open>Bounds.\<close>  Every function is total: loops are structural recursions over the finite data they
  range over, the gateway's attempt loop has the two attempts of the code, and the retry bound of
  the stream is the five of the source.  No theorem rests on fuel.  Epochs, versions and counters
  are compared as integers, which is what Lua's numbers do below 2 to the 53rd.

  \<^bold>\<open>Not modelled.\<close>
  \<^item> The streaming half of internal/gateway/server.go with tlsprofile.go and kiro.go, and the protocol
    conversions of pkg/protokit: the handler of a plain request takes the conversion as an argument.
  \<^item> The adapters under internal/control/provider (HTTP clients of the upstreams) and the interactive
    logins of internal/control/wrapper: a provider is a record of functions, an executor a function.
  \<^item> internal/detail, whose rows no decision reads; internal/migration, a one-off import; the read-only
    pages of the console; observability, configuration, process start and cmd.
  \<^item> Cancelled contexts and time-outs of the callers, log lines, and the English text of messages.
\<close>

section \<open>Properties of the platform as a whole\<close>



text \<open>
  C2.  Nobody is charged without a cause, and for no attempt twice.  In every history of the
  platform a billed row is usage the upstream reported for a request it served, or a ruling on
  record, of that event and that amount, says to bill it; the row carries its amount and its
  run, and it is the only row of its attempt.  So a failed request, a recovered attempt and an
  estimate are never charged by the machine.
\<close>

theorem every_charge_has_a_cause:
  assumes "platform_reachable sha s" and "u \<in> set (bd_usage (pf_books s))" and "ul_billing_state u = ''billed''"
  shows "(ul_usage_source u = UsageSourceUpstream \<and> releaseSucceeded (ul_status_code u) (ul_error_class u) \<or>
      (\<exists>r \<in> set (td_resolutions (pf_tray s)). rs_event_id r = ul_event_id u \<and> rs_decision r = ''bill'' \<and>
         rs_amount r = ul_billed_amount u)) \<and>
    ul_billed_amount u \<noteq> None \<and> ul_billing_run_id u \<notin> {None, Some ''''} \<and>
    (\<forall>v \<in> set (bd_usage (pf_books s)). ul_attempt_id v = ul_attempt_id u \<longrightarrow> v = u)"
proof -
  have inv: "ledger_inv (pf_ledger s)" "books_inv (pf_books s)" "causes_inv (pf_tray s)"
    "ld_usage (pf_ledger s) = bd_usage (pf_books s)"
    using platform_reachable_inv[OF assms(1)] by (auto simp: platform_inv_def)
  have "caused (td_resolutions (pf_tray s)) u" using inv(3) assms(2) by (simp add: causes_inv_def)
  then have cause: "ul_usage_source u = UsageSourceUpstream \<and> releaseSucceeded (ul_status_code u) (ul_error_class u) \<or>
      (\<exists>r \<in> set (td_resolutions (pf_tray s)). rs_event_id r = ul_event_id u \<and> rs_decision r = ''bill'' \<and>
         rs_amount r = ul_billed_amount u)"
    using assms(3) policy_bills[of u] by (simp add: caused_def) blast
  have "row_agrees u" using inv(2) assms(2) by (simp add: books_inv_def)
  then have agrees: "ul_billed_amount u \<noteq> None \<and> ul_billing_run_id u \<notin> {None, Some ''''}"
    unfolding row_agrees_def using assms(3) by (simp only: if_True simp_thms)
  have "inj_on ul_attempt_id (set (bd_usage (pf_books s)))"
    using inv(1,4) by (simp add: ledger_inv_def distinct_map)
  then have only: "\<forall>v \<in> set (bd_usage (pf_books s)). ul_attempt_id v = ul_attempt_id u \<longrightarrow> v = u"
    using assms(2) unfolding inj_on_def by blast
  show ?thesis by (intro conjI cause only agrees[THEN conjunct1] agrees[THEN conjunct2])
qed

theorem every_charge_has_a_cause_witness:
  "\<exists>s u. platform_reachable (\<lambda>x. x) s \<and> u \<in> set (bd_usage (pf_books s)) \<and> ul_billing_state u = ''billed'' \<and>
     (\<forall>v \<in> set (bd_usage (pf_books s)). ul_attempt_id v = ''a1'' \<longrightarrow> v = u)"
proof -
  obtain s u where s: "platform_reachable (\<lambda>x. x) s" "u \<in> set (bd_usage (pf_books s))" "ul_billing_state u = ''billed''"
    "ul_attempt_id u = ''a1''" using story_charge by blast
  from every_charge_has_a_cause[OF s(1-3)] s(4)
  have "\<forall>v \<in> set (bd_usage (pf_books s)). ul_attempt_id v = ''a1'' \<longrightarrow> v = u" by (elim conjE) (simp only:)
  with s(1-3) show ?thesis by blast
qed

end
